(* ===== verification/Prelude.thy ===== *)
theory Prelude
  imports Main "HOL-Library.Word" "HOL-Library.AList" "HOL-Library.Multiset"
    "HOL-Library.List_Lexorder"
begin

unbundle bit_operations_syntax

text \<open>
  Shared vocabulary of the development.

  \<^item> Machine integers: the build (\<open>node/ci/build.sh\<close>) uses the release profile, in which
    arithmetic wraps; \<open>u8\<close> \dots \<open>u64\<close> are words of that width, and so is \<open>i32\<close>, whose
    sign is read with \<open>sint\<close>. Lengths and indices
    (\<open>usize\<close>) of in-memory buffers are \<open>nat\<close>.
  \<^item> \<open>Result<T, E>\<close> is the sum \<open>'e + 'a\<close>, written with \<open>Err\<close> and \<open>Ok\<close>; a computation
    that may panic returns \<open>panic + 'a\<close> (\<open>'a run\<close>).
  \<^item> \<open>HashMap<K, V>\<close> is an association list with distinct keys. The position of a key in the
    list is the unspecified iteration order of the hash table: theorems quantify over all
    lists, so they hold for every iteration order.
  \<^item> \<open>BTreeSet<K>\<close> is a sorted list without repetitions.

  The lemmas below are the facts about these containers and about slices that several
  components use.
\<close>

type_synonym u8 = "8 word"
type_synonym u16 = "16 word"
type_synonym u32 = "32 word"
type_synonym u64 = "64 word"
type_synonym i32 = "32 word"
type_synonym bytes = "8 word list"

datatype panic =
    IndexOutOfRange
  | SliceOutOfRange
  | ExplicitPanic
  | ExpectFailed

type_synonym 'a run = "panic + 'a"

abbreviation Ok :: "'a \<Rightarrow> 'e + 'a" where
  "Ok \<equiv> Inr"

abbreviation Err :: "'e \<Rightarrow> 'e + 'a" where
  "Err \<equiv> Inl"

text \<open>The bytes of an ASCII literal (Rust's \<open>b"..."\<close>).\<close>

definition ascii :: "string \<Rightarrow> bytes" where
  "ascii s = map of_char s"

definition text_of :: "bytes \<Rightarrow> string" where
  "text_of bs = map (\<lambda>b. char_of (unat b)) bs"

definition bind_run :: "('e + 'a) \<Rightarrow> ('a \<Rightarrow> 'e + 'b) \<Rightarrow> 'e + 'b" where
  "bind_run m f = (case m of Inl e \<Rightarrow> Inl e | Inr x \<Rightarrow> f x)"

fun map_run :: "('a \<Rightarrow> 'e + 'b) \<Rightarrow> 'a list \<Rightarrow> 'e + 'b list" where
  "map_run f [] = Inr []"
| "map_run f (x # xs) =
     bind_run (f x) (\<lambda>y. bind_run (map_run f xs) (\<lambda>ys. Inr (y # ys)))"

fun fold_run :: "('a \<Rightarrow> 's \<Rightarrow> 'e + 's) \<Rightarrow> 'a list \<Rightarrow> 's \<Rightarrow> 'e + 's" where
  "fold_run f [] s = Inr s"
| "fold_run f (x # xs) s = bind_run (f x s) (\<lambda>s'. fold_run f xs s')"

fun filter_run :: "('a \<Rightarrow> 'e + bool) \<Rightarrow> 'a list \<Rightarrow> 'e + 'a list" where
  "filter_run p [] = Inr []"
| "filter_run p (x # xs) =
     bind_run (p x) (\<lambda>b. bind_run (filter_run p xs) (\<lambda>ys. Inr (if b then x # ys else ys)))"

fun skip_while_run :: "('a \<Rightarrow> 'e + bool) \<Rightarrow> 'a list \<Rightarrow> 'e + 'a list" where
  "skip_while_run p [] = Inr []"
| "skip_while_run p (x # xs) =
     bind_run (p x) (\<lambda>b. if b then skip_while_run p xs else Inr (x # xs))"

fun find_run :: "('a \<Rightarrow> 'e + bool) \<Rightarrow> 'a list \<Rightarrow> 'e + 'a option" where
  "find_run p [] = Inr None"
| "find_run p (x # xs) = bind_run (p x) (\<lambda>b. if b then Inr (Some x) else find_run p xs)"

definition first :: "'a list \<Rightarrow> 'a option" where
  "first xs = (case xs of [] \<Rightarrow> None | x # _ \<Rightarrow> Some x)"

text \<open>\<open>Option::expect\<close>.\<close>

definition expect :: "'a option \<Rightarrow> 'a run" where
  "expect x = (case x of Some v \<Rightarrow> Inr v | None \<Rightarrow> Inl ExpectFailed)"

text \<open>\<open>&xs[start..end]\<close> and \<open>Vec::split_off\<close>, with the panics of the standard library.\<close>

definition slice :: "nat \<Rightarrow> nat \<Rightarrow> 'a list \<Rightarrow> 'a list run" where
  "slice start stop xs =
     (if start \<le> stop \<and> stop \<le> length xs then Ok (take (stop - start) (drop start xs))
      else Err SliceOutOfRange)"

definition index :: "'a list \<Rightarrow> nat \<Rightarrow> 'a run" where
  "index xs i = (if i < length xs then Ok (xs ! i) else Err IndexOutOfRange)"

definition split_off :: "nat \<Rightarrow> 'a list \<Rightarrow> ('a list \<times> 'a list) run" where
  "split_off at xs = (if at \<le> length xs then Ok (take at xs, drop at xs) else Err SliceOutOfRange)"

text \<open>Hash tables.\<close>

type_synonym ('k, 'v) hashmap = "('k \<times> 'v) list"

definition hm_ok :: "('k, 'v) hashmap \<Rightarrow> bool" where
  "hm_ok m \<longleftrightarrow> distinct (map fst m)"

definition hm_get :: "('k, 'v) hashmap \<Rightarrow> 'k \<Rightarrow> 'v option" where
  "hm_get m k = map_of m k"

definition hm_insert :: "'k \<Rightarrow> 'v \<Rightarrow> ('k, 'v) hashmap \<Rightarrow> ('k, 'v) hashmap" where
  "hm_insert k v m = AList.update k v m"

definition hm_remove :: "'k \<Rightarrow> ('k, 'v) hashmap \<Rightarrow> ('k, 'v) hashmap" where
  "hm_remove k m = AList.delete k m"

definition hm_keys :: "('k, 'v) hashmap \<Rightarrow> 'k list" where
  "hm_keys m = map fst m"

definition hm_values :: "('k, 'v) hashmap \<Rightarrow> 'v list" where
  "hm_values m = map snd m"

text \<open>Ordered sets.\<close>

type_synonym 'k btreeset = "'k list"

definition bs_ok :: "'k::linorder btreeset \<Rightarrow> bool" where
  "bs_ok s \<longleftrightarrow> sorted s \<and> distinct s"

definition bs_insert :: "'k::linorder \<Rightarrow> 'k btreeset \<Rightarrow> 'k btreeset" where
  "bs_insert k s = insort_insert k s"

definition bs_remove :: "'k \<Rightarrow> 'k btreeset \<Rightarrow> 'k btreeset" where
  "bs_remove k s = removeAll k s"

named_theorems container_simps
named_theorems run_simps

text \<open>Hash tables behave as finite maps.\<close>

lemma hm_get_Nil [simp, container_simps]: "hm_get [] k = None"
  by (simp add: hm_get_def)

lemma hm_get_insert [simp, container_simps]:
  "hm_get (hm_insert k v m) j = (if j = k then Some v else hm_get m j)"
  by (simp add: hm_get_def hm_insert_def update_conv')

lemma hm_get_remove [simp, container_simps]:
  "hm_get (hm_remove k m) j = (if j = k then None else hm_get m j)"
  by (simp add: hm_get_def hm_remove_def delete_conv')

lemma hm_insert_insert [simp, container_simps]:
  "hm_insert k v (hm_insert k w m) = hm_insert k v m"
  unfolding hm_insert_def by (induction m) auto

lemma hm_ok_Nil [simp, intro]: "hm_ok []"
  by (simp add: hm_ok_def)

lemma hm_ok_insert [simp, intro]: "hm_ok m \<Longrightarrow> hm_ok (hm_insert k v m)"
  by (simp add: hm_ok_def hm_insert_def distinct_update)

lemma hm_ok_remove [simp, intro]: "hm_ok m \<Longrightarrow> hm_ok (hm_remove k m)"
  by (simp add: hm_ok_def hm_remove_def distinct_delete)

lemma set_hm_keys [simp, container_simps]: "set (hm_keys m) = dom (hm_get m)"
  by (simp add: hm_keys_def hm_get_def [abs_def] dom_map_of_conv_image_fst)

lemma hm_keys_iff: "k \<in> set (hm_keys m) \<longleftrightarrow> hm_get m k \<noteq> None"
  by (simp add: domIff)

lemma hm_get_Some_mem: "hm_get m k = Some v \<Longrightarrow> (k, v) \<in> set m"
  by (simp add: hm_get_def map_of_SomeD)

lemma hm_mem_get: "hm_ok m \<Longrightarrow> (k, v) \<in> set m \<Longrightarrow> hm_get m k = Some v"
  by (simp add: hm_get_def hm_ok_def)

lemma hm_values_iff: "hm_ok m \<Longrightarrow> v \<in> set (hm_values m) \<longleftrightarrow> (\<exists>k. hm_get m k = Some v)"
  by (force simp: hm_values_def hm_get_def hm_ok_def)

lemma distinct_hm_keys: "hm_ok m \<Longrightarrow> distinct (hm_keys m)"
  by (simp add: hm_ok_def hm_keys_def)

text \<open>Ordered sets.\<close>

lemma bs_ok_Nil [simp, intro]: "bs_ok []"
  by (simp add: bs_ok_def)

lemma bs_ok_insert [simp, intro]: "bs_ok s \<Longrightarrow> bs_ok (bs_insert k s)"
  by (simp add: bs_ok_def bs_insert_def sorted_insort_insert distinct_insort_insert)

lemma bs_ok_remove [simp, intro]: "bs_ok s \<Longrightarrow> bs_ok (bs_remove k s)"
  by (simp add: bs_ok_def bs_remove_def distinct_removeAll sorted_filter
      removeAll_filter_not_eq sorted_wrt_filter)

lemma set_bs_insert [simp, container_simps]: "set (bs_insert k s) = insert k (set s)"
  by (simp add: bs_insert_def set_insort_insert)

lemma set_bs_remove [simp, container_simps]: "set (bs_remove k s) = set s - {k}"
  by (simp add: bs_remove_def)

text \<open>Sequencing of fallible computations.\<close>

lemma bind_run_simps [simp, run_simps]:
  "bind_run (Inl e) f = Inl e"
  "bind_run (Inr x) f = f x"
  by (simp_all add: bind_run_def)

lemma bind_run_eq_Inr [run_simps]:
  "bind_run m f = Inr y \<longleftrightarrow> (\<exists>x. m = Inr x \<and> f x = Inr y)"
  by (cases m) simp_all

lemma bind_run_InrE:
  assumes "bind_run m f = Inr y"
  obtains x where "m = Inr x" "f x = Inr y"
  using assms by (cases m) simp_all

lemma bind_run_eq_Inl [run_simps]:
  "bind_run m f = Inl e \<longleftrightarrow> m = Inl e \<or> (\<exists>x. m = Inr x \<and> f x = Inl e)"
  by (cases m) simp_all

lemma expect_simps [simp, run_simps]:
  "expect (Some v) = Inr v"
  "expect None = Inl ExpectFailed"
  by (simp_all add: expect_def)

lemma expect_eq_Inr [run_simps]: "expect x = Inr v \<longleftrightarrow> x = Some v"
  by (cases x) simp_all

lemma map_run_total:
  "(\<And>x. x \<in> set xs \<Longrightarrow> f x = Inr (g x)) \<Longrightarrow> map_run f xs = Inr (map g xs)"
  by (induction xs) simp_all

lemma map_run_map: "map_run f (map g xs) = map_run (\<lambda>x. f (g x)) xs"
  by (induction xs) simp_all

lemma filter_run_total:
  "(\<And>x. x \<in> set xs \<Longrightarrow> p x = Inr (q x)) \<Longrightarrow> filter_run p xs = Inr (filter q xs)"
  by (induction xs) simp_all

lemma map_run_mem: "map_run f xs = Inr ys \<Longrightarrow> y \<in> set ys \<Longrightarrow> \<exists>x \<in> set xs. f x = Inr y"
  by (induction xs arbitrary: ys) (auto elim!: bind_run_InrE)

lemma filter_run_subset: "filter_run p xs = Inr ys \<Longrightarrow> set ys \<subseteq> set xs"
  by (induction xs arbitrary: ys) (auto elim!: bind_run_InrE split: if_split_asm)

lemma skip_while_run_total:
  "(\<And>x. x \<in> set xs \<Longrightarrow> p x = Inr (q x)) \<Longrightarrow> skip_while_run p xs = Inr (dropWhile q xs)"
  by (induction xs) simp_all

lemma find_run_total:
  "(\<And>x. x \<in> set xs \<Longrightarrow> p x = Inr (q x)) \<Longrightarrow> find_run p xs = Inr (find q xs)"
  by (induction xs) simp_all

lemma first_simps [simp]: "first [] = None" "first (x # xs) = Some x"
  by (simp_all add: first_def)

lemma first_mem: "first xs = Some x \<Longrightarrow> x \<in> set xs"
  by (cases xs) simp_all

lemma fold_run_cong:
  "(\<And>x s. x \<in> set xs \<Longrightarrow> f x s = g x s) \<Longrightarrow> fold_run f xs s = fold_run g xs s"
proof (induction xs arbitrary: s)
  case (Cons x xs)
  then have "fold_run f xs = fold_run g xs"
    by (intro ext) simp
  with Cons.prems show ?case
    by simp
qed simp

lemma fold_run_invariant:
  "fold_run f xs s = Inr s' \<Longrightarrow> P s \<Longrightarrow>
     (\<And>x s s'. x \<in> set xs \<Longrightarrow> P s \<Longrightarrow> f x s = Inr s' \<Longrightarrow> P s') \<Longrightarrow> P s'"
proof (induction xs arbitrary: s)
  case (Cons x xs)
  then obtain t where "f x s = Inr t" "fold_run f xs t = Inr s'"
    by (auto simp: bind_run_eq_Inr)
  with Cons show ?case
    by (metis list.set_intros(1) list.set_intros(2))
qed simp

lemma fold_run_total_invariant:
  "P s \<Longrightarrow> (\<And>x s. x \<in> set xs \<Longrightarrow> P s \<Longrightarrow> \<exists>s'. f x s = Inr s' \<and> P s') \<Longrightarrow>
     \<exists>s'. fold_run f xs s = Inr s' \<and> P s'"
proof (induction xs arbitrary: s)
  case (Cons x xs)
  obtain t where "f x s = Inr t" "P t"
    using Cons.prems by (metis list.set_intros(1))
  moreover have "\<exists>s'. fold_run f xs t = Inr s' \<and> P s'"
    using \<open>P t\<close> Cons.prems(2) by (intro Cons.IH) auto
  ultimately show ?case
    by simp
qed simp

lemma split_in_three: "xs = take a xs @ take n (drop a xs) @ drop (n + a) xs"
  by (metis append_take_drop_id drop_drop)

lemma unat_bound: "unat (w :: 'a::len word) < 2 ^ LENGTH('a)"
  by (rule unsigned_less)

text \<open>Bytes and ASCII text.\<close>

lemma ascii_text_of: "ascii (text_of l) = l"
proof -
  have "(of_char (char_of (unat b) :: char) :: u8) = b" for b :: u8
  proof -
    have "(of_char (char_of (unat b) :: char) :: u8) = of_nat (of_char (char_of (unat b) :: char))"
      by (simp only: of_nat_of_char)
    also have "\<dots> = b"
      using unat_bound [of b] by simp
    finally show ?thesis .
  qed
  then show ?thesis
    by (simp add: ascii_def text_of_def comp_def)
qed

lemma text_of_ascii: "text_of (ascii s) = s"
proof -
  have "char_of (unat (of_char c :: u8)) = c" for c :: char
  proof -
    have "unat (of_char c :: u8) = unat (of_nat (of_char c) :: u8)"
      by (simp only: of_nat_of_char)
    also have "\<dots> = of_char c"
      using nat_of_char_less_256 [of c] by (simp only: unat_of_nat) (simp add: take_bit_nat_eq_self)
    finally have "unat (of_char c :: u8) = of_char c" .
    then show ?thesis
      by simp
  qed
  then show ?thesis
    by (simp add: ascii_def text_of_def comp_def)
qed

text \<open>Counters that have not wrapped.\<close>

lemma word_less_inc: "(n :: 'a::len word) + 1 \<noteq> 0 \<Longrightarrow> n < n + 1"
  using unatSuc [of n] by (simp add: word_less_nat_alt add.commute)

end
