(* ===== verification/Utils.thy ===== *)
theory Utils
  imports Prelude "HOL-Library.Sublist"
begin

text \<open>
  The slice helpers of \<open>node/src/sub_lib/utils.rs\<close>. The two loops of \<open>index_of\<close> are the
  functions \<open>index_of_mismatch\<close> (inner) and \<open>index_of_from_pos\<close> (outer); the lemmas show that
  together they find the first occurrence of the needle, in terms of the structural search
  \<open>find_sub\<close> that the framers' proofs use.
\<close>

datatype io_error_kind =
    NotFound | PermissionDenied | ConnectionRefused | ConnectionReset | ConnectionAborted
  | NotConnected | AddrInUse | AddrNotAvailable | BrokenPipe | AlreadyExists | WouldBlock
  | InvalidInput | InvalidData | TimedOut | WriteZero | Interrupted | OtherError | UnexpectedEof

definition DEAD_STREAM_ERRORS :: "io_error_kind list" where
  "DEAD_STREAM_ERRORS =
     [BrokenPipe, ConnectionAborted, ConnectionReset, ConnectionRefused, TimedOut]"

definition indicates_dead_stream :: "io_error_kind \<Rightarrow> bool" where
  "indicates_dead_stream kind \<longleftrightarrow> List.member DEAD_STREAM_ERRORS kind"

function index_of_mismatch :: "'a list \<Rightarrow> 'a list \<Rightarrow> nat \<Rightarrow> nat \<Rightarrow> bool" where
  "index_of_mismatch haystack needles h n =
     (if n < length needles
      then (if length haystack \<le> h + n then True
            else if haystack ! (h + n) \<noteq> needles ! n then True
            else index_of_mismatch haystack needles h (Suc n))
      else False)"
  by pat_completeness auto
termination
  by (relation "measure (\<lambda>(hs, ns, h, n). length ns - n)") auto

function index_of_from_pos :: "'a list \<Rightarrow> 'a list \<Rightarrow> nat \<Rightarrow> nat option" where
  "index_of_from_pos haystack needles h =
     (if h < length haystack
      then (if \<not> index_of_mismatch haystack needles h 0 then Some h
            else index_of_from_pos haystack needles (Suc h))
      else None)"
  by pat_completeness auto
termination
  by (relation "measure (\<lambda>(hs, ns, h). length hs - h)") auto

definition index_of :: "'a list \<Rightarrow> 'a list \<Rightarrow> nat option" where
  "index_of haystack needles =
     (if needles = [] then None else index_of_from_pos haystack needles 0)"

function index_of_from_loop :: "'a list \<Rightarrow> 'a \<Rightarrow> nat \<Rightarrow> nat" where
  "index_of_from_loop haystack needle i =
     (if i < length haystack \<and> haystack ! i \<noteq> needle
      then index_of_from_loop haystack needle (Suc i) else i)"
  by pat_completeness auto
termination
  by (relation "measure (\<lambda>(hs, x, i). length hs - i)") auto

definition index_of_from :: "'a list \<Rightarrow> 'a \<Rightarrow> nat \<Rightarrow> nat option" where
  "index_of_from haystack needle start_at =
     (let i = index_of_from_loop haystack needle start_at
      in if length haystack \<le> i then None else Some i)"

definition plus :: "'a list \<Rightarrow> 'a \<Rightarrow> 'a list" where
  "plus source item = source @ [item]"

definition NODE_DESCRIPTOR_DELIMITERS :: string where
  "NODE_DESCRIPTOR_DELIMITERS = [CHR ''_'', CHR ''@'', CHR '':'', CHR '':'']"

definition node_descriptor_delimiter :: "u8 \<Rightarrow> char run" where
  "node_descriptor_delimiter chain_id =
     (if unat chain_id < length NODE_DESCRIPTOR_DELIMITERS
      then Ok (NODE_DESCRIPTOR_DELIMITERS ! unat chain_id) else Err IndexOutOfRange)"

text \<open>The structural reference search.\<close>

fun find_sub :: "'a list \<Rightarrow> 'a list \<Rightarrow> nat option" where
  "find_sub [] needles = None"
| "find_sub (x # xs) needles =
     (if prefix needles (x # xs) then Some 0 else map_option Suc (find_sub xs needles))"

declare index_of_mismatch.simps [simp del]
declare index_of_from_pos.simps [simp del]
declare index_of_from_loop.simps [simp del]

lemma prefix_drop_step:
  "n < length ns \<Longrightarrow> prefix (drop n ns) (drop m hs) \<longleftrightarrow>
     m < length hs \<and> hs ! m = ns ! n \<and> prefix (drop (Suc n) ns) (drop (Suc m) hs)"
  by (cases "m < length hs")
    (auto simp: Cons_nth_drop_Suc [symmetric] simp del: drop_Suc_Cons)

lemma index_of_mismatch_prefix:
  "index_of_mismatch haystack needles h n \<longleftrightarrow>
     \<not> prefix (drop n needles) (drop (h + n) haystack)"
proof (induction haystack needles h n rule: index_of_mismatch.induct)
  case (1 haystack needles h n)
  then show ?case
    by (subst index_of_mismatch.simps) (auto simp: prefix_drop_step not_less)
qed

lemma index_of_from_pos_find_sub:
  assumes "needles \<noteq> []"
  shows "h \<le> length haystack \<Longrightarrow>
    index_of_from_pos haystack needles h
      = map_option (\<lambda>i. i + h) (find_sub (drop h haystack) needles)"
proof (induction haystack needles h rule: index_of_from_pos.induct)
  case (1 haystack needles h)
  show ?case
  proof (cases "h < length haystack")
    case True
    then have d: "drop h haystack = haystack ! h # drop (Suc h) haystack"
      by (simp add: Cons_nth_drop_Suc)
    from True 1 show ?thesis
      by (subst index_of_from_pos.simps)
        (auto simp: index_of_mismatch_prefix d option.map_comp comp_def)
  next
    case False
    with 1 show ?thesis
      by (subst index_of_from_pos.simps) simp
  qed
qed

lemma index_of_find_sub [code]:
  "index_of haystack needles = (if needles = [] then None else find_sub haystack needles)"
  by (simp add: index_of_def index_of_from_pos_find_sub option.map_ident)

lemma find_sub_Some:
  "find_sub hs ns = Some i \<Longrightarrow>
     i < length hs \<and> prefix ns (drop i hs) \<and> (\<forall>j<i. \<not> prefix ns (drop j hs))"
proof (induction hs arbitrary: i)
  case Nil
  then show ?case by simp
next
  case (Cons x xs)
  then show ?case
    by (auto split: if_splits simp: less_Suc_eq_0_disj)
qed

lemma find_sub_None:
  "find_sub hs ns = None \<longleftrightarrow> (\<forall>j<length hs. \<not> prefix ns (drop j hs))"
  by (induction hs) (auto simp: less_Suc_eq_0_disj)

lemma index_of_from_loop_ge: "start \<le> index_of_from_loop hs x start"
proof (induction hs x start rule: index_of_from_loop.induct)
  case (1 hs x i)
  then show ?case by (subst index_of_from_loop.simps) (auto intro: Suc_leD)
qed

lemma index_of_from_loop_skips:
  "start \<le> j \<Longrightarrow> j < index_of_from_loop hs x start \<Longrightarrow> j < length hs \<and> hs ! j \<noteq> x"
proof (induction hs x start rule: index_of_from_loop.induct)
  case (1 hs x i)
  show ?case
  proof (cases "i < length hs \<and> hs ! i \<noteq> x")
    case True
    with 1 show ?thesis
      by (cases "j = i") (auto simp: index_of_from_loop.simps [of hs x i])
  next
    case False
    with 1 show ?thesis by (simp add: index_of_from_loop.simps [of hs x i])
  qed
qed

lemma index_of_from_loop_stops:
  "index_of_from_loop hs x start < length hs \<Longrightarrow> hs ! index_of_from_loop hs x start = x"
proof (induction hs x start rule: index_of_from_loop.induct)
  case (1 hs x i)
  then show ?case
    by (subst (asm) index_of_from_loop.simps, subst index_of_from_loop.simps)
      (auto split: if_splits)
qed

lemma index_of_singleton_Some:
  assumes "index_of xs [x] = Some i"
  shows "i < length xs \<and> xs ! i = x"
proof -
  from assms have "find_sub xs [x] = Some i" by (simp add: index_of_find_sub)
  then have "i < length xs" and "prefix [x] (drop i xs)" by (auto dest: find_sub_Some)
  then show ?thesis by (auto simp: Cons_nth_drop_Suc [symmetric])
qed

lemma index_of_singleton_None: "index_of xs [x] = None \<longleftrightarrow> x \<notin> set xs"
  by (induction xs) (auto simp: index_of_find_sub)

lemma index_of_bound: "index_of hs ns = Some i \<Longrightarrow> i + length ns \<le> length hs"
  using prefix_length_le [of ns "drop i hs"]
  by (auto simp: index_of_find_sub dest!: find_sub_Some split: if_splits)

end
