(* ===== verification/SequenceBuffer.thy ===== *)
theory SequenceBuffer
  imports Utils
begin

text \<open>
  Reordering of stream data: \<open>node/src/sub_lib/sequence_buffer.rs\<close>, with the number source
  \<open>sequencer.rs\<close> and the loop guard \<open>limiter.rs\<close>.

  The standard library's \<open>BinaryHeap\<close> is a list from which \<open>heap_pop\<close> takes a greatest
  element for the ordering of the element type (\<open>packet_le\<close>, the reversed \<open>Ord\<close> instance).
  Its contract is the locale \<open>max_heap\<close>; the proofs about the buffer use only the facts of the
  interpretation \<open>ph\<close>.
\<close>

subsection \<open>Definitions\<close>

record sequenced_packet =
  sp_data :: bytes
  sequence_number :: u64
  last_data :: bool

definition new_packet :: "bytes \<Rightarrow> u64 \<Rightarrow> bool \<Rightarrow> sequenced_packet" where
  "new_packet dat sn lst = \<lparr>sp_data = dat, sequence_number = sn, last_data = lst\<rparr>"

text \<open>\<open>Ord for SequencedPacket\<close>: \<open>a \<le> b\<close> when \<open>other.sequence_number.cmp(&self.sequence_number)\<close>
  says so, that is, reversed.\<close>

definition packet_le :: "sequenced_packet \<Rightarrow> sequenced_packet \<Rightarrow> bool" where
  "packet_le a b \<longleftrightarrow> sequence_number b \<le> sequence_number a"

text \<open>\<open>From<&TransmitDataMsg>\<close>: the three fields of the message that are used.\<close>

definition packet_from_transmit_data ::
    "bytes \<Rightarrow> u64 option \<Rightarrow> bool \<Rightarrow> sequenced_packet" where
  "packet_from_transmit_data dat sn lst =
     new_packet dat (case sn of None \<Rightarrow> 0 | Some n \<Rightarrow> n) lst"

text \<open>Serialization.\<close>

datatype serde_error =
    CannotSerializeU64Into nat
  | CannotMakeU64From nat
  | CannotDeserializeBoolFrom u8

function u64_to_loop :: "nat \<Rightarrow> u64 \<Rightarrow> bytes \<Rightarrow> bytes" where
  "u64_to_loop idx remaining buf =
     (if idx < 8
      then u64_to_loop (Suc idx) (drop_bit 8 remaining)
             (buf[7 - idx := ucast (remaining AND 0xFF)])
      else buf)"
  by pat_completeness auto
termination
  by (relation "measure (\<lambda>(idx, r, b). 8 - idx)") auto

definition u64_to :: "u64 \<Rightarrow> bytes \<Rightarrow> serde_error + bytes" where
  "u64_to v buf =
     (if length buf \<noteq> 8 then Err (CannotSerializeU64Into (length buf))
      else Ok (u64_to_loop 0 v buf))"

definition u64_from :: "bytes \<Rightarrow> serde_error + u64" where
  "u64_from bs =
     (if length bs \<noteq> 8 then Err (CannotMakeU64From (length bs))
      else Ok (foldl (\<lambda>result byte. push_bit 8 result + ucast byte) 0 bs))"

definition serialize_packet :: "sequenced_packet \<Rightarrow> serde_error + bytes" where
  "serialize_packet p =
     (let flag = (if last_data p then 1 else 0)
      in bind_run (u64_to (sequence_number p) (replicate 8 0))
           (\<lambda>sn. Ok (flag # sn @ sp_data p)))"

definition visit_bytes :: "bytes \<Rightarrow> (serde_error + sequenced_packet) run" where
  "visit_bytes v =
     (case v of
        [] \<Rightarrow> Err IndexOutOfRange
      | flag # rest \<Rightarrow>
          (if flag \<noteq> 0 \<and> flag \<noteq> 1
           then Ok (Err (CannotDeserializeBoolFrom flag))
           else if length v < 9 then Err SliceOutOfRange
           else Ok (bind_run (u64_from (take 8 rest))
                  (\<lambda>sn. Ok (new_packet (drop 8 rest) sn (flag = 1))))))"

text \<open>\<open>BinaryHeap\<close>.\<close>

fun max_by :: "('a \<Rightarrow> 'a \<Rightarrow> bool) \<Rightarrow> 'a \<Rightarrow> 'a list \<Rightarrow> 'a" where
  "max_by le m [] = m"
| "max_by le m (x # xs) = max_by le (if le m x \<and> \<not> le x m then x else m) xs"

definition heap_push :: "'a \<Rightarrow> 'a list \<Rightarrow> 'a list" where
  "heap_push x h = x # h"

fun heap_peek :: "('a \<Rightarrow> 'a \<Rightarrow> bool) \<Rightarrow> 'a list \<Rightarrow> 'a option" where
  "heap_peek le [] = None"
| "heap_peek le (x # xs) = Some (max_by le x xs)"

definition heap_pop :: "('a \<Rightarrow> 'a \<Rightarrow> bool) \<Rightarrow> 'a list \<Rightarrow> 'a option \<times> 'a list" where
  "heap_pop le h =
     (case heap_peek le h of None \<Rightarrow> (None, h) | Some m \<Rightarrow> (Some m, remove1 m h))"

text \<open>The buffer.\<close>

record sequence_buffer =
  buffer :: "sequenced_packet list"
  next_expected_sequence_number :: u64
  seen_sequence_numbers :: "u64 list"

definition new_buffer :: sequence_buffer where
  "new_buffer = \<lparr>buffer = [], next_expected_sequence_number = 0, seen_sequence_numbers = []\<rparr>"

definition push :: "sequence_buffer \<Rightarrow> sequenced_packet \<Rightarrow> sequence_buffer" where
  "push s p =
     (if next_expected_sequence_number s \<le> sequence_number p
         \<and> \<not> List.member (seen_sequence_numbers s) (sequence_number p)
      then s\<lparr>seen_sequence_numbers := seen_sequence_numbers s @ [sequence_number p],
             buffer := heap_push p (buffer s)\<rparr>
      else s)"

definition vec_remove :: "nat \<Rightarrow> 'a list \<Rightarrow> 'a list" where
  "vec_remove i xs = take i xs @ drop (Suc i) xs"

definition poll :: "sequence_buffer \<Rightarrow> (sequenced_packet option \<times> sequence_buffer) run" where
  "poll s =
     (if buffer s = [] then Ok (None, s)
      else case heap_peek packet_le (buffer s) of
        None \<Rightarrow> Err ExpectFailed
      | Some head_packet \<Rightarrow>
          (let sn = sequence_number head_packet
           in if sn = next_expected_sequence_number s
              then (let (p, h) = heap_pop packet_le (buffer s);
                        seen = (case index_of (seen_sequence_numbers s) [sn] of
                                  None \<Rightarrow> seen_sequence_numbers s
                                | Some i \<Rightarrow> vec_remove i (seen_sequence_numbers s))
                    in Ok (p, s\<lparr>next_expected_sequence_number := next_expected_sequence_number s + 1,
                                buffer := h, seen_sequence_numbers := seen\<rparr>))
              else Ok (None, s)))"

definition repush :: "sequence_buffer \<Rightarrow> sequenced_packet \<Rightarrow> sequence_buffer run" where
  "repush s p =
     (if sequence_number p \<noteq> next_expected_sequence_number s - 1 then Err ExplicitPanic
      else Ok (s\<lparr>next_expected_sequence_number := sequence_number p,
                 seen_sequence_numbers := seen_sequence_numbers s @ [sequence_number p],
                 buffer := heap_push p (buffer s)\<rparr>))"

definition next_expected :: "sequence_buffer \<Rightarrow> u64" where
  "next_expected s = next_expected_sequence_number s"

definition buffer_len :: "sequence_buffer \<Rightarrow> nat" where
  "buffer_len s = length (buffer s)"

definition buffer_is_empty :: "sequence_buffer \<Rightarrow> bool" where
  "buffer_is_empty s \<longleftrightarrow> buffer_len s = 0"

text \<open>A client's sequence of calls, and the packets its polls return.\<close>

datatype buffer_op = Push sequenced_packet | Poll

fun run_ops :: "buffer_op list \<Rightarrow> sequence_buffer
    \<Rightarrow> (sequenced_packet list \<times> sequence_buffer) run" where
  "run_ops [] s = Ok ([], s)"
| "run_ops (Push p # ops) s = run_ops ops (push s p)"
| "run_ops (Poll # ops) s =
     bind_run (poll s) (\<lambda>(r, s'). bind_run (run_ops ops s') (\<lambda>(outs, t).
       Ok ((case r of None \<Rightarrow> outs | Some p \<Rightarrow> p # outs), t)))"

fun pushed :: "buffer_op list \<Rightarrow> sequenced_packet list" where
  "pushed [] = []"
| "pushed (Push p # ops) = p # pushed ops"
| "pushed (Poll # ops) = pushed ops"

text \<open>\<open>Sequencer\<close> and \<open>Limiter\<close>.\<close>

record sequencer =
  current_sequence_number :: u64

definition new_sequencer :: sequencer where
  "new_sequencer = \<lparr>current_sequence_number = 0\<rparr>"

definition next_sequence_number :: "sequencer \<Rightarrow> u64 \<times> sequencer" where
  "next_sequence_number s =
     (current_sequence_number s,
      s\<lparr>current_sequence_number := current_sequence_number s + 1\<rparr>)"

record limiter =
  iterations_remaining :: "32 word"

definition new_limiter :: limiter where
  "new_limiter = \<lparr>iterations_remaining = - 1\<rparr>"

definition with_only :: "32 word \<Rightarrow> limiter" where
  "with_only n = \<lparr>iterations_remaining = n\<rparr>"

definition should_continue :: "limiter \<Rightarrow> bool \<times> limiter" where
  "should_continue l =
     (if sint (iterations_remaining l) < 0 then (True, l)
      else if iterations_remaining l = 0 then (False, l)
      else (True, l\<lparr>iterations_remaining := iterations_remaining l - 1\<rparr>))"

text \<open>The representation invariant.\<close>

definition seqs :: "sequence_buffer \<Rightarrow> u64 list" where
  "seqs s = map sequence_number (buffer s)"

definition buffer_inv :: "sequence_buffer \<Rightarrow> bool" where
  "buffer_inv s \<longleftrightarrow> distinct (seqs s)
     \<and> mset (seen_sequence_numbers s) = mset (seqs s)
     \<and> (\<forall>sn \<in> set (seqs s). next_expected_sequence_number s \<le> sn)"


subsection \<open>The heap contract\<close>

locale max_heap =
  fixes le :: "'a \<Rightarrow> 'a \<Rightarrow> bool"
    and push_h :: "'a \<Rightarrow> 'h \<Rightarrow> 'h"
    and peek_h :: "'h \<Rightarrow> 'a option"
    and pop_h :: "'h \<Rightarrow> 'a option \<times> 'h"
    and elems :: "'h \<Rightarrow> 'a multiset"
  assumes le_total: "le a b \<or> le b a"
    and le_trans: "le a b \<Longrightarrow> le b c \<Longrightarrow> le a c"
    and elems_push: "elems (push_h x h) = add_mset x (elems h)"
    and peek_None: "peek_h h = None \<longleftrightarrow> elems h = {#}"
    and peek_in: "peek_h h = Some m \<Longrightarrow> m \<in># elems h"
    and peek_greatest: "peek_h h = Some m \<Longrightarrow> x \<in># elems h \<Longrightarrow> le x m"
    and pop_fst: "fst (pop_h h) = peek_h h"
    and pop_elems: "peek_h h = Some m \<Longrightarrow> elems (snd (pop_h h)) = elems h - {#m#}"
begin

lemma pop_split: "peek_h h = Some m \<Longrightarrow> elems h = add_mset m (elems (snd (pop_h h)))"
  using pop_elems peek_in by (simp add: insert_DiffM)

lemma peek_exists: "elems h \<noteq> {#} \<Longrightarrow> \<exists>m. peek_h h = Some m"
  using peek_None by blast

lemma le_refl: "le a a"
  using le_total by blast

lemma peek_unique:
  assumes "peek_h h = Some m" and "x \<in># elems h" and "\<And>y. y \<in># elems h \<Longrightarrow> le y x"
  shows "le m x \<and> le x m"
  using assms peek_in peek_greatest by blast

end

lemma max_by_in: "max_by le m xs \<in> insert m (set xs)"
  by (induction xs arbitrary: m) (auto split: if_splits)

lemma max_by_greatest:
  assumes tot: "\<And>a b. le a b \<or> le b a" and tr: "\<And>a b c. le a b \<Longrightarrow> le b c \<Longrightarrow> le a c"
  shows "x \<in> insert m (set xs) \<Longrightarrow> le x (max_by le m xs)"
proof (induction xs arbitrary: m x)
  case Nil
  then show ?case using tot by auto
next
  case (Cons y ys)
  let ?m = "if le m y \<and> \<not> le y m then y else m"
  have m: "le ?m (max_by le ?m ys)" by (rule Cons.IH) simp
  have "le m ?m" and "le y ?m" using tot [of m y] tot [of m m] tot [of y y] by auto
  with m have "le m (max_by le ?m ys)" and "le y (max_by le ?m ys)" by (blast intro: tr)+
  with Cons show ?case by auto
qed

lemma packet_le_total: "packet_le a b \<or> packet_le b a"
  by (auto simp: packet_le_def)

lemma packet_le_trans: "packet_le a b \<Longrightarrow> packet_le b c \<Longrightarrow> packet_le a c"
  by (simp add: packet_le_def)

interpretation ph: max_heap packet_le heap_push "heap_peek packet_le" "heap_pop packet_le" mset
proof (unfold_locales, goal_cases)
  case (1 a b) show ?case by (rule packet_le_total)
next
  case (2 a b c) then show ?case by (rule packet_le_trans)
next
  case (3 x h) show ?case by (simp add: heap_push_def)
next
  case (4 h) show ?case by (cases h) simp_all
next
  case (5 h m) then show ?case using max_by_in by (cases h) fastforce+
next
  case (6 h m x)
  then show ?case
    using max_by_greatest [OF packet_le_total packet_le_trans] by (cases h) fastforce+
next
  case (7 h) show ?case by (simp add: heap_pop_def split: option.split)
next
  case (8 h m) then show ?case by (simp add: heap_pop_def)
qed

subsection \<open>Invariant\<close>

lemma mset_vec_remove: "i < length xs \<Longrightarrow> mset (vec_remove i xs) = mset xs - {#xs ! i#}"
  by (metis add_mset_remove_trivial append_take_drop_id Cons_nth_drop_Suc mset.simps(2)
      mset_append union_mset_add_mset_right vec_remove_def)

lemma seen_removed:
  assumes "sn \<in># mset seen"
  shows "mset (case index_of seen [sn] of None \<Rightarrow> seen | Some i \<Rightarrow> vec_remove i seen)
    = mset seen - {#sn#}"
proof (cases "index_of seen [sn]")
  case None
  with assms show ?thesis using index_of_singleton_None [of seen sn] by simp
next
  case (Some i)
  then show ?thesis using index_of_singleton_Some [OF Some] by (simp add: mset_vec_remove)
qed

lemma new_buffer_inv [simp, intro]: "buffer_inv new_buffer"
  by (simp add: buffer_inv_def new_buffer_def seqs_def)

lemma set_seen: "buffer_inv s \<Longrightarrow> set (seen_sequence_numbers s) = set (seqs s)"
  by (metis buffer_inv_def set_mset_mset)

lemma push_inv [intro]: "buffer_inv s \<Longrightarrow> buffer_inv (push s p)"
  using set_seen [of s]
  by (auto simp: buffer_inv_def push_def seqs_def heap_push_def)

text \<open>The two outcomes of \<open>poll\<close> under the invariant.\<close>

lemma poll_waiting:
  assumes inv: "buffer_inv s" and no: "next_expected_sequence_number s \<notin> set (seqs s)"
  shows "poll s = Ok (None, s)"
proof (cases "buffer s = []")
  case True
  then show ?thesis by (simp add: poll_def)
next
  case False
  then obtain m where m: "heap_peek packet_le (buffer s) = Some m"
    using ph.peek_exists [of "buffer s"] by auto
  then have "sequence_number m \<in> set (seqs s)"
    using ph.peek_in [OF m] by (auto simp: seqs_def)
  with no False m show ?thesis by (auto simp: poll_def Let_def)
qed

lemma popped_inv:
  fixes h :: "sequenced_packet list"
  assumes inv: "buffer_inv s" and pop: "mset (buffer s) = add_mset m (mset h)"
    and mn: "sequence_number m = next_expected_sequence_number s"
    and seen: "mset seen = mset (seen_sequence_numbers s) - {#sequence_number m#}"
  shows "buffer_inv (s\<lparr>next_expected_sequence_number := next_expected_sequence_number s + 1,
      buffer := h, seen_sequence_numbers := seen\<rparr>)"
proof -
  let ?n = "next_expected_sequence_number s" and ?hs = "map sequence_number h"
  have ms: "mset (seqs s) = mset (?n # ?hs)"
    using arg_cong [OF pop, of "image_mset sequence_number"] mn by (simp add: seqs_def)
  then have d: "distinct (?n # ?hs)"
    using inv mset_eq_imp_distinct_iff [OF ms] by (simp add: buffer_inv_def)
  have "?n + 1 \<le> sn" if "sn \<in> set ?hs" for sn
  proof (rule inc_le)
    have "sn \<in> set (seqs s)" using that mset_eq_setD [OF ms] by simp
    then have "?n \<le> sn" using inv by (simp add: buffer_inv_def)
    moreover have "?n \<noteq> sn" using that d by auto
    ultimately show "?n < sn" by simp
  qed
  moreover have "mset seen = mset ?hs"
    using inv seen ms mn by (simp add: buffer_inv_def)
  ultimately show ?thesis using d by (simp add: buffer_inv_def seqs_def)
qed

lemma poll_delivers:
  assumes inv: "buffer_inv s" and mem: "next_expected_sequence_number s \<in> set (seqs s)"
  obtains p t where "poll s = Ok (Some p, t)"
    and "sequence_number p = next_expected_sequence_number s"
    and "next_expected_sequence_number t = next_expected_sequence_number s + 1"
    and "mset (buffer s) = add_mset p (mset (buffer t))" and "buffer_inv t"
proof -
  let ?n = "next_expected_sequence_number s" and ?h = "snd (heap_pop packet_le (buffer s))"
  let ?seen = "case index_of (seen_sequence_numbers s) [?n] of
      None \<Rightarrow> seen_sequence_numbers s | Some i \<Rightarrow> vec_remove i (seen_sequence_numbers s)"
  let ?t = "s\<lparr>next_expected_sequence_number := ?n + 1, buffer := ?h, seen_sequence_numbers := ?seen\<rparr>"
  obtain q where q: "q \<in> set (buffer s)" and qn: "sequence_number q = ?n"
    using mem by (auto simp: seqs_def)
  from q have ne: "buffer s \<noteq> []" by auto
  then obtain m where m: "heap_peek packet_le (buffer s) = Some m"
    using ph.peek_exists [of "buffer s"] by auto
  have m_in: "m \<in> set (buffer s)" using ph.peek_in [OF m] by simp
  have "sequence_number m \<le> ?n"
    using ph.peek_greatest [OF m, of q] q qn by (simp add: packet_le_def)
  moreover have "?n \<le> sequence_number m"
    using inv m_in by (simp add: buffer_inv_def seqs_def)
  ultimately have mn: "sequence_number m = ?n" by simp
  have split: "mset (buffer s) = add_mset m (mset ?h)" by (rule ph.pop_split [OF m])
  have pop: "heap_pop packet_le (buffer s) = (Some m, ?h)"
    using ph.pop_fst [of "buffer s"] m by (metis prod.collapse)
  have "poll s = Ok (Some m, ?t)"
    using m ne mn pop by (auto simp: poll_def Let_def split: prod.split)
  moreover have "mset ?seen = mset (seen_sequence_numbers s) - {#sequence_number m#}"
    using seen_removed [of ?n "seen_sequence_numbers s"] set_seen [OF inv] mem mn by simp
  then have "buffer_inv ?t" by (rule popped_inv [OF inv split mn])
  ultimately show thesis using that [of m ?t] mn split by simp
qed

subsection \<open>Runs of pushes and polls\<close>

lemma seqs_mset: "mset (buffer s) = add_mset p (mset (buffer t)) \<Longrightarrow>
    set (buffer s) = insert p (set (buffer t))"
  by (metis set_mset_add_mset_insert set_mset_mset)

lemma push_frame:
  "next_expected_sequence_number (push s p) = next_expected_sequence_number s"
  "set (buffer (push s p)) \<subseteq> insert p (set (buffer s))"
  by (auto simp: push_def heap_push_def)

lemma map_plus_upt_Suc:
  "map (\<lambda>i. (a :: 'a::len word) + of_nat i) [0..<Suc n]
     = a # map (\<lambda>i. (a + 1) + of_nat i) [0..<n]"
  by (simp add: upt_conv_Cons map_Suc_upt [symmetric] comp_def add.assoc del: upt_Suc)

lemma run_ops_ordered:
  assumes "buffer_inv s"
  shows "\<exists>outs t. run_ops ops s = Ok (outs, t) \<and> buffer_inv t
    \<and> map sequence_number outs
        = map (\<lambda>i. next_expected_sequence_number s + of_nat i) [0..<length outs]
    \<and> set outs \<union> set (buffer t) \<subseteq> set (buffer s) \<union> set (pushed ops)"
  using assms
proof (induction ops s rule: run_ops.induct)
  case (1 s)
  then show ?case by simp
next
  case (2 p ops s)
  from "2.IH" [OF push_inv [OF "2.prems"]] show ?case
    using push_frame [of s p] by fastforce
next
  case (3 ops s)
  show ?case
  proof (cases "next_expected_sequence_number s \<in> set (seqs s)")
    case False
    with poll_waiting [OF "3.prems"] have "poll s = Ok (None, s)" .
    with "3.IH" [OF "3.prems"] show ?thesis by force
  next
    case True
    obtain p t where t: "poll s = Ok (Some p, t)"
        "sequence_number p = next_expected_sequence_number s"
        "next_expected_sequence_number t = next_expected_sequence_number s + 1"
        "mset (buffer s) = add_mset p (mset (buffer t))" "buffer_inv t"
      by (rule poll_delivers [OF "3.prems" True])
    from "3.IH" [OF t(5)] obtain outs u where u: "run_ops ops t = Ok (outs, u)"
        "buffer_inv u"
        "map sequence_number outs
           = map (\<lambda>i. next_expected_sequence_number t + of_nat i) [0..<length outs]"
        "set outs \<union> set (buffer u) \<subseteq> set (buffer t) \<union> set (pushed ops)"
      by blast
    have "map sequence_number (p # outs)
        = map (\<lambda>i. next_expected_sequence_number s + of_nat i) [0..<length (p # outs)]"
      using u(3) t(2,3) by (simp only: list.map length_Cons map_plus_upt_Suc)
    with u t(1) seqs_mset [OF t(4)] show ?thesis by auto
  qed
qed

lemma polls_drain:
  assumes "buffer_inv s" and "n \<le> 2 ^ 64"
    and "\<forall>j<n. next_expected_sequence_number s + of_nat j \<in> set (seqs s)"
  shows "\<exists>outs t. run_ops (replicate n Poll) s = Ok (outs, t) \<and> length outs = n
    \<and> mset (buffer s) = mset outs + mset (buffer t)"
  using assms
proof (induction n arbitrary: s)
  case 0
  then show ?case by simp
next
  case (Suc n)
  let ?n = "next_expected_sequence_number"
  from Suc.prems(3) have "?n s \<in> set (seqs s)" by (auto dest: spec [of _ 0])
  then obtain p t where t: "poll s = Ok (Some p, t)" "sequence_number p = ?n s"
      "?n t = ?n s + 1" "mset (buffer s) = add_mset p (mset (buffer t))" "buffer_inv t"
    using poll_delivers [OF Suc.prems(1)] by metis
  have "?n t + of_nat j \<in> set (seqs t)" if "j < n" for j
  proof -
    have "?n s + of_nat (Suc j) \<in> set (seqs s)" using that Suc.prems(3) by blast
    moreover have "Suc j < 2 ^ 64" using that Suc.prems(2) by simp
    then have "of_nat (Suc j) \<noteq> (0 :: u64)"
      using nat_dvd_not_less [of "Suc j" "2 ^ 64"]
      by (simp add: word_of_nat_eq_0_iff del: of_nat_Suc)
    then have "?n s + of_nat (Suc j) \<noteq> sequence_number p" using t(2) by simp
    ultimately have "?n s + of_nat (Suc j) \<in> set (seqs t)"
      using seqs_mset [OF t(4)] by (auto simp: seqs_def)
    then show ?thesis using t(3) by (simp add: ac_simps)
  qed
  with Suc.IH [OF t(5)] Suc.prems(2) obtain outs u
    where "run_ops (replicate n Poll) t = Ok (outs, u)" "length outs = n"
      "mset (buffer t) = mset outs + mset (buffer u)" by auto
  with t show ?case by auto
qed

lemma pushes_all:
  assumes "buffer_inv s" and "distinct (map sequence_number ps)"
    and "\<forall>p \<in> set ps. next_expected_sequence_number s \<le> sequence_number p
           \<and> sequence_number p \<notin> set (seqs s)"
  shows "mset (buffer (foldl push s ps)) = mset (buffer s) + mset ps
    \<and> buffer_inv (foldl push s ps)
    \<and> next_expected_sequence_number (foldl push s ps) = next_expected_sequence_number s"
  using assms
proof (induction ps arbitrary: s)
  case Nil
  then show ?case by simp
next
  case (Cons p ps)
  have b: "buffer (push s p) = p # buffer s"
    using Cons.prems set_seen [OF Cons.prems(1)] by (simp add: push_def heap_push_def)
  have "mset (buffer (foldl push (push s p) ps)) = mset (buffer (push s p)) + mset ps
    \<and> buffer_inv (foldl push (push s p) ps)
    \<and> next_expected_sequence_number (foldl push (push s p) ps)
        = next_expected_sequence_number (push s p)"
    using Cons.prems b push_frame [of s p]
    by (intro Cons.IH push_inv) (auto simp: seqs_def intro: rev_image_eqI)
  then show ?case using b push_frame [of s p] by simp
qed

lemma run_ops_pushes: "run_ops (map Push ps @ ops) s = run_ops ops (foldl push s ps)"
  by (induction ps arbitrary: s) simp_all

lemma permuted_pushes:
  assumes "mset (map (unat \<circ> sequence_number) ps) = mset [0..<length ps]"
  defines "s \<equiv> foldl push new_buffer ps"
  shows "mset (buffer s) = mset ps" and "buffer_inv s" and "next_expected_sequence_number s = 0"
    and "length ps \<le> 2 ^ 64" and "\<forall>j<length ps. of_nat j \<in> set (seqs s)"
proof -
  have "distinct (map (unat \<circ> sequence_number) ps)"
    using mset_eq_imp_distinct_iff [OF assms(1)] by simp
  then have d: "distinct (map sequence_number ps)" by (simp add: distinct_map inj_on_def)
  show p: "mset (buffer s) = mset ps" "buffer_inv s" "next_expected_sequence_number s = 0"
    using pushes_all [OF new_buffer_inv d] by (simp_all add: new_buffer_def seqs_def s_def)
  have sets: "{0..<length ps} = (unat \<circ> sequence_number) ` set ps"
    using mset_eq_setD [OF assms(1)] by simp
  have lt: "unat (w :: u64) < 2 ^ 64" for w
    using unsigned_less [of w] by simp
  have "{0..<length ps} \<subseteq> {0..<2 ^ 64}" unfolding sets using lt by auto
  then show "length ps \<le> 2 ^ 64" by (cases "length ps = 0") auto
  show "\<forall>j<length ps. of_nat j \<in> set (seqs s)"
  proof (intro allI impI)
    fix j assume "j < length ps"
    then have "j \<in> (unat \<circ> sequence_number) ` set ps" using sets by auto
    then obtain q where "q \<in> set ps" "sequence_number q = of_nat j" by auto
    then show "of_nat j \<in> set (seqs s)"
      using mset_eq_setD [OF p(1)] by (metis image_eqI list.set_map seqs_def)
  qed
qed

subsection \<open>Byte encoding\<close>

lemma ucast_and_255: "(ucast (x AND 255 :: u64) :: u8) = ucast x"
proof -
  have "x AND 255 = take_bit 8 x" by (simp add: take_bit_eq_mask mask_eq_exp_minus_1)
  then show ?thesis by (auto intro!: bit_word_eqI simp: bit_simps)
qed

lemma u64_to_bytes:
  assumes "length buf = 8"
  shows "u64_to v buf = Ok (map (\<lambda>i. ucast (drop_bit (56 - 8 * i) v)) [0..<8])"
proof -
  obtain a b c d e f g h where "buf = [a, b, c, d, e, f, g, h]"
    using assms by (auto simp: eval_nat_numeral length_Suc_conv)
  then show ?thesis
    by (simp add: u64_to_def u64_to_loop.simps upt_rec ucast_and_255)
qed

lemma ucast_ucast_byte: "(ucast (ucast (x :: u64) :: u8) :: u64) = take_bit 8 x"
  by (rule bit_word_eqI) (auto simp: bit_simps)

lemma be_step:
  "push_bit 8 (drop_bit 8 x) + ucast (ucast (x :: u64) :: u8) = x"
  by (simp add: ucast_ucast_byte bits_ident)

lemma be_fold:
  "foldl (\<lambda>result byte. push_bit 8 result + ucast byte) (0 :: u64)
     (map (\<lambda>i. (ucast (drop_bit (56 - 8 * i) v) :: u8)) [0..<8]) = v"
proof -
  have hi: "(ucast (ucast (drop_bit 56 v) :: u8) :: u64) = drop_bit 56 v"
    by (rule bit_word_eqI) (auto simp: bit_simps dest: bit_imp_le_length)
  have step: "push_bit 8 (drop_bit (n + 8) v) + ucast (ucast (drop_bit n v) :: u8) = drop_bit n v" for n
    using be_step [of "drop_bit n v"] by (simp add: add.commute)
  show ?thesis
    using step [of 48] step [of 40] step [of 32] step [of 24] step [of 16] step [of 8] step [of 0]
    by (simp add: upt_rec hi)
qed

lemma serialize_packet_eq:
  "serialize_packet p = Ok ((if last_data p then 1 else 0)
     # map (\<lambda>i. ucast (drop_bit (56 - 8 * i) (sequence_number p))) [0..<8] @ sp_data p)"
  by (simp add: serialize_packet_def u64_to_bytes Let_def)

subsection \<open>Properties\<close>

text \<open>C10. In-order, exactly-once delivery: whatever pushes and polls a client makes on a new
  buffer, no call panics, the packets the polls return carry the sequence numbers
  \<open>0, 1, 2, \<dots>\<close> without gap or repetition, each of them was pushed, and the representation
  invariant holds at the end.\<close>

theorem in_order_exactly_once:
  "\<exists>outs t. run_ops ops new_buffer = Ok (outs, t) \<and> buffer_inv t
     \<and> map sequence_number outs = map of_nat [0..<length outs]
     \<and> set outs \<subseteq> set (pushed ops)"
proof -
  obtain outs t where "run_ops ops new_buffer = Ok (outs, t)" "buffer_inv t"
      "map sequence_number outs
         = map (\<lambda>i. next_expected_sequence_number new_buffer + of_nat i) [0..<length outs]"
      "set outs \<union> set (buffer t) \<subseteq> set (buffer new_buffer) \<union> set (pushed ops)"
    using run_ops_ordered [OF new_buffer_inv] by blast
  then show ?thesis by (auto simp: new_buffer_def)
qed

text \<open>C23. Reordering is complete: when the packets \<open>0 .. n-1\<close> of a stream arrive in any order,
  \<open>n\<close> polls deliver all of them, in sequence order, and leave the buffer empty.\<close>

theorem permuted_stream_delivered:
  assumes "mset (map (unat \<circ> sequence_number) ps) = mset [0..<length ps]"
  shows "\<exists>outs t. run_ops (map Push ps @ replicate (length ps) Poll) new_buffer = Ok (outs, t)
    \<and> mset outs = mset ps \<and> map sequence_number outs = map of_nat [0..<length ps]
    \<and> buffer t = []"
proof -
  let ?s = "foldl push new_buffer ps" and ?n = "length ps"
  note p = permuted_pushes [OF assms]
  obtain outs t where r: "run_ops (replicate ?n Poll) ?s = Ok (outs, t)" "length outs = ?n"
      "mset (buffer ?s) = mset outs + mset (buffer t)"
    using polls_drain [OF p(2) p(4)] p(3,5) by auto
  have "size (mset (buffer t)) = 0"
    using arg_cong [OF r(3), of size] p(1) r(2) by simp
  then have "buffer t = []" by simp
  moreover have "map sequence_number outs = map of_nat [0..<?n]"
    using run_ops_ordered [OF p(2), of "replicate ?n Poll"] r p(3) by auto
  ultimately show ?thesis using r p(1) by (auto simp: run_ops_pushes)
qed

theorem permuted_stream_delivered_witness:
  "let ps = [new_packet [7] 1 True, new_packet [5, 6] 0 False]
   in \<exists>outs t. run_ops (map Push ps @ replicate 2 Poll) new_buffer = Ok (outs, t)
        \<and> mset outs = mset ps \<and> map sequence_number outs = map of_nat [0..<2] \<and> buffer t = []"
  using permuted_stream_delivered [of "[new_packet [7] 1 True, new_packet [5, 6] 0 False]"]
  by (simp add: new_packet_def upt_rec eval_nat_numeral)

text \<open>A packet taken by \<open>poll\<close> can be put back: \<open>repush\<close> does not panic, keeps the
  invariant, and the next \<open>poll\<close> returns the same packet and leaves the same packets
  waiting.\<close>

theorem repush_undoes_poll:
  assumes "buffer_inv s" and "poll s = Ok (Some p, t)" and "next_expected_sequence_number t \<noteq> 0"
  shows "\<exists>s' t'. repush t p = Ok s' \<and> buffer_inv s' \<and> poll s' = Ok (Some p, t')
    \<and> next_expected_sequence_number s' = next_expected_sequence_number s
    \<and> mset (buffer t') = mset (buffer t)"
proof -
  let ?n = "next_expected_sequence_number"
  have "?n s \<in> set (seqs s)" using poll_waiting [OF assms(1)] assms(2) by fastforce
  then have t: "sequence_number p = ?n s" "?n t = ?n s + 1"
      "mset (buffer s) = add_mset p (mset (buffer t))" "buffer_inv t"
    using poll_delivers [OF assms(1)] assms(2) by (metis Inr_inject option.inject prod.inject)+
  let ?s' = "t\<lparr>next_expected_sequence_number := sequence_number p,
      seen_sequence_numbers := seen_sequence_numbers t @ [sequence_number p],
      buffer := p # buffer t\<rparr>"
  have rp: "repush t p = Ok ?s'" using t by (simp add: repush_def heap_push_def)
  have lt: "?n s < sn" if "sn \<in> set (seqs t)" for sn
  proof -
    have "?n s < ?n t" using assms(3) word_less_inc t(2) by metis
    also have "?n t \<le> sn" using that t(4) by (simp add: buffer_inv_def)
    finally show ?thesis .
  qed
  then have inv: "buffer_inv ?s'" using t
    by (fastforce simp: buffer_inv_def seqs_def dest: mset_eq_setD)
  obtain q t' where q: "poll ?s' = Ok (Some q, t')" "sequence_number q = ?n s"
      "mset (p # buffer t) = add_mset q (mset (buffer t'))"
  proof (rule poll_delivers [OF inv])
    show "?n ?s' \<in> set (seqs ?s')" by (simp add: seqs_def)
  qed (use t(1) that in simp)
  have "q = p"
  proof (rule ccontr)
    assume "q \<noteq> p"
    then have "q \<in> set (buffer t)" using q(3) by (metis add_mset_add_single
          insert_iff mset.simps(2) set_mset_mset union_single_eq_member list.simps(15))
    then have "sequence_number q \<in> set (seqs t)" by (simp add: seqs_def)
    with lt q(2) show False by force
  qed
  with q rp inv t show ?thesis by auto
qed

theorem repush_undoes_poll_witness:
  "let s = push new_buffer (new_packet [1] 0 True);
       t = \<lparr>buffer = [], next_expected_sequence_number = 1, seen_sequence_numbers = []\<rparr>
   in \<exists>s' t'. repush t (new_packet [1] 0 True) = Ok s' \<and> buffer_inv s'
        \<and> poll s' = Ok (Some (new_packet [1] 0 True), t')
        \<and> next_expected_sequence_number s' = next_expected_sequence_number s
        \<and> mset (buffer t') = mset (buffer t)"
  using repush_undoes_poll [of "push new_buffer (new_packet [1] 0 True)" "new_packet [1] 0 True"
      "\<lparr>buffer = [], next_expected_sequence_number = 1, seen_sequence_numbers = []\<rparr>"]
  by (simp add: Let_def push_inv) (simp add: push_def poll_def new_buffer_def new_packet_def
      heap_push_def heap_pop_def index_of_find_sub vec_remove_def)

text \<open>Round trip: a serialized \<open>SequencedPacket\<close> is the flag byte, the eight
  big-endian bytes of the sequence number and the data, and is decoded to itself.\<close>

theorem packet_roundtrip:
  "\<exists>bs. serialize_packet p = Ok bs \<and> length bs = length (sp_data p) + 9
     \<and> visit_bytes bs = Ok (Ok p)"
  by (simp add: serialize_packet_eq visit_bytes_def u64_from_def be_fold new_packet_def
      del: upt_Suc)

text \<open>The decoder indexes its input before checking the length: it panics exactly on the
  empty input and on inputs shorter than nine bytes whose first byte is a valid flag; every
  other input yields a packet or an error value.\<close>

theorem visit_bytes_panics_iff:
  "(\<exists>e. visit_bytes v = Err e) \<longleftrightarrow> v = [] \<or> (hd v = 0 \<or> hd v = 1) \<and> length v < 9"
  by (cases v) (auto simp: visit_bytes_def)

end
