(* ===== verification/Framing.thy ===== *)
theory Framing
  imports Utils
begin

text \<open>
  The framer interface (\<open>sub_lib/framer.rs\<close>), the TLS framer (\<open>sub_lib/tls_framer.rs\<close>), the
  JSON framer (\<open>json_framer.rs\<close>) and the consumer of frames, the \<open>Discriminator\<close>
  (\<open>discriminator.rs\<close>) with its masqueraders (\<open>null_masquerader.rs\<close>, \<open>json_masquerader.rs\<close>).

  A framer is a state with two operations, \<open>add_data\<close> and \<open>take_frame\<close>. The locale \<open>framer\<close>
  is the contract the discriminator relies on: the bytes a framer returns are bytes it was
  given, in order and never twice. \<open>serde_json\<close> and \<open>base64\<close> are parameters of the JSON
  masquerader.
\<close>

subsection \<open>Frames and the TLS framer\<close>

record framed_chunk =
  chunk :: bytes
  last_chunk :: bool

definition PRESERVE_HEADER_LEN :: nat where
  "PRESERVE_HEADER_LEN = 4"

record tls_framer =
  tls_data_so_far :: bytes

definition tls_new :: tls_framer where
  "tls_new = \<lparr>tls_data_so_far = []\<rparr>"

definition tls_add_data :: "tls_framer \<Rightarrow> bytes \<Rightarrow> tls_framer" where
  "tls_add_data s d = s\<lparr>tls_data_so_far := tls_data_so_far s @ d\<rparr>"

definition is_valid_content_type :: "u8 \<Rightarrow> bool" where
  "is_valid_content_type candidate \<longleftrightarrow> 0x14 \<le> candidate \<and> candidate \<le> 0x17"

definition is_valid_protocol_version :: "u8 \<Rightarrow> u8 \<Rightarrow> bool" where
  "is_valid_protocol_version byte1 byte2 \<longleftrightarrow> byte1 = 0x03 \<and> (byte2 = 0x01 \<or> byte2 = 0x03)"

definition to_usize :: "u8 \<Rightarrow> u8 \<Rightarrow> nat" where
  "to_usize hi_byte lo_byte = or (push_bit 8 (unat hi_byte)) (unat lo_byte)"

definition search_for_frame_offset :: "bytes \<Rightarrow> (nat + nat) run" where
  "search_for_frame_offset dat =
     (case index_of dat [0x03] of
        None \<Rightarrow> Ok (Err 0)
      | Some 0 \<Rightarrow> Ok (Err 1)
      | Some (Suc offset) \<Rightarrow>
          if length dat \<le> offset + 4 then Ok (Err 0)
          else bind_run (index dat offset) (\<lambda>b0.
               bind_run (index dat (offset + 1)) (\<lambda>b1.
               bind_run (index dat (offset + 2)) (\<lambda>b2.
                 if is_valid_content_type b0 \<and> is_valid_protocol_version b1 b2
                 then Ok (Ok offset) else Ok (Err (offset + 1))))))"

function find_frame_offset_loop :: "bytes \<Rightarrow> nat \<Rightarrow> nat option run" where
  "find_frame_offset_loop dat accumulated_offset =
     (if length dat < accumulated_offset then Err SliceOutOfRange
      else case search_for_frame_offset (drop accumulated_offset dat) of
        Err e \<Rightarrow> Err e
      | Ok (Ok offset) \<Rightarrow> Ok (Some (accumulated_offset + offset))
      | Ok (Err next_offset) \<Rightarrow>
          if next_offset = 0 then Ok None
          else find_frame_offset_loop dat (accumulated_offset + next_offset))"
  by pat_completeness auto
termination
  by (relation "measure (\<lambda>(d, a). Suc (length d) - a)") auto

definition find_frame_offset :: "bytes \<Rightarrow> nat option run" where
  "find_frame_offset dat = find_frame_offset_loop dat 0"

definition tls_take_frame :: "tls_framer \<Rightarrow> (framed_chunk option \<times> tls_framer) run" where
  "tls_take_frame s =
     (let dat = tls_data_so_far s; data_so_far_len = length dat
      in bind_run (find_frame_offset dat) (\<lambda>r.
         case r of
           None \<Rightarrow>
             (let split_point = (if data_so_far_len < PRESERVE_HEADER_LEN then data_so_far_len
                                 else data_so_far_len - PRESERVE_HEADER_LEN)
              in bind_run (split_off split_point dat) (\<lambda>(_, rest).
                   Ok (None, s\<lparr>tls_data_so_far := rest\<rparr>)))
         | Some offset \<Rightarrow>
             bind_run (split_off offset dat) (\<lambda>(_, from_offset).
             bind_run (index from_offset 3) (\<lambda>hi.
             bind_run (index from_offset 4) (\<lambda>lo.
               if 5 + to_usize hi lo \<le> length from_offset
               then bind_run (split_off (5 + to_usize hi lo) from_offset) (\<lambda>(c, leftovers).
                      Ok (Some \<lparr>chunk = c, last_chunk = False\<rparr>, s\<lparr>tls_data_so_far := leftovers\<rparr>))
               else Ok (None, s\<lparr>tls_data_so_far := from_offset\<rparr>))))))"

subsection \<open>The JSON framer\<close>

record json_framer =
  possible_start :: "nat option"
  possible_end :: "nat option"
  json_data_so_far :: bytes
  brace_nest_count :: i32
  in_single_quote_string :: bool
  in_double_quote_string :: bool
  after_backslash :: bool

definition json_new :: json_framer where
  "json_new = \<lparr>possible_start = None, possible_end = None, json_data_so_far = [],
     brace_nest_count = 0, in_single_quote_string = False, in_double_quote_string = False,
     after_backslash = False\<rparr>"

definition json_add_data :: "json_framer \<Rightarrow> bytes \<Rightarrow> json_framer" where
  "json_add_data s d = s\<lparr>json_data_so_far := json_data_so_far s @ d\<rparr>"

definition reset :: "json_framer \<Rightarrow> json_framer" where
  "reset s = s\<lparr>possible_start := None, possible_end := None, brace_nest_count := 0,
     in_single_quote_string := False, in_double_quote_string := False,
     after_backslash := False\<rparr>"

definition check_data_chunk :: "json_framer \<Rightarrow> (bytes option \<times> json_framer) run" where
  "check_data_chunk s =
     (case (possible_start s, possible_end s) of
        (Some start, Some stop) \<Rightarrow>
          bind_run (slice start stop (json_data_so_far s)) (\<lambda>c. Ok (Some c, reset s))
      | _ \<Rightarrow> Ok (None, s))"

abbreviation BS :: u8 where "BS \<equiv> 92"
abbreviation SQ :: u8 where "SQ \<equiv> 39"
abbreviation DQ :: u8 where "DQ \<equiv> 34"
abbreviation OB :: u8 where "OB \<equiv> 123"
abbreviation CB :: u8 where "CB \<equiv> 125"

definition handle_quotes :: "json_framer \<Rightarrow> u8 \<Rightarrow> json_framer" where
  "handle_quotes s byte =
     (if possible_start s = None then s
      else case (in_single_quote_string s, byte = SQ, in_double_quote_string s, byte = DQ) of
        (False, False, False, True) \<Rightarrow> s\<lparr>in_double_quote_string := True\<rparr>
      | (False, False, True, True) \<Rightarrow> s\<lparr>in_double_quote_string := False\<rparr>
      | (False, True, False, False) \<Rightarrow> s\<lparr>in_single_quote_string := True\<rparr>
      | (True, True, False, False) \<Rightarrow> s\<lparr>in_single_quote_string := False\<rparr>
      | _ \<Rightarrow> s)"

definition handle_braces :: "json_framer \<Rightarrow> u8 \<Rightarrow> nat \<Rightarrow> json_framer" where
  "handle_braces s byte offset =
     (if byte = OB
      then (let s1 = s\<lparr>brace_nest_count := brace_nest_count s + 1\<rparr>
            in if brace_nest_count s1 = 1
               then (reset s1)\<lparr>brace_nest_count := 1, possible_start := Some offset\<rparr>
               else s1)
      else if byte = CB
      then (let s1 = s\<lparr>brace_nest_count := brace_nest_count s - 1\<rparr>
            in if sint (brace_nest_count s1) < 0
               then s1\<lparr>brace_nest_count := 0, possible_start := None\<rparr>
               else if brace_nest_count s1 = 0 \<and> possible_start s1 \<noteq> None
               then s1\<lparr>possible_end := Some (offset + 1)\<rparr>
               else s1)
      else s)"

definition update_state :: "json_framer \<Rightarrow> u8 \<Rightarrow> nat \<Rightarrow> json_framer" where
  "update_state s byte offset =
     (if after_backslash s then s\<lparr>after_backslash := False\<rparr>
      else (let s1 = handle_quotes s byte
            in if \<not> in_single_quote_string s1 \<and> \<not> in_double_quote_string s1
               then handle_braces s1 byte offset
               else if possible_start s1 \<noteq> None \<and> byte = BS
               then s1\<lparr>after_backslash := True\<rparr>
               else s1))"

text \<open>The loop over \<open>0..data_so_far.len()\<close>, then the final match; the second argument is the
  part of the data not yet read.\<close>

fun json_loop :: "json_framer \<Rightarrow> bytes \<Rightarrow> nat \<Rightarrow> (framed_chunk option \<times> json_framer) run" where
  "json_loop s [] i =
     (case (possible_start s, possible_end s) of
        (None, None) \<Rightarrow> Ok (None, s\<lparr>json_data_so_far := []\<rparr>)
      | (Some start, None) \<Rightarrow>
          bind_run (slice start (length (json_data_so_far s)) (json_data_so_far s)) (\<lambda>d.
            Ok (None, s\<lparr>json_data_so_far := d, possible_start := Some 0\<rparr>))
      | _ \<Rightarrow> Err ExplicitPanic)"
| "json_loop s (byte # rest) i =
     bind_run (check_data_chunk (update_state s byte i)) (\<lambda>(r, s2).
       case r of
         Some c \<Rightarrow> Ok (Some \<lparr>chunk = c, last_chunk = True\<rparr>, s2\<lparr>json_data_so_far := rest\<rparr>)
       | None \<Rightarrow> json_loop s2 rest (i + 1))"

definition json_take_frame :: "json_framer \<Rightarrow> (framed_chunk option \<times> json_framer) run" where
  "json_take_frame s = json_loop (reset s) (json_data_so_far s) 0"

subsection \<open>Masqueraders and the discriminator\<close>

record unmasked_chunk =
  um_chunk :: bytes
  um_last_chunk :: bool
  um_sequenced :: bool

definition new_unmasked_chunk :: "bytes \<Rightarrow> bool \<Rightarrow> bool \<Rightarrow> unmasked_chunk" where
  "new_unmasked_chunk c l sq = \<lparr>um_chunk = c, um_last_chunk = l, um_sequenced = sq\<rparr>"

datatype masquerade_error =
    NotThisMasquerader
  | LowLevelDataError string
  | MidLevelDataError string
  | HighLevelDataError string

type_synonym unmasker = "bytes \<Rightarrow> masquerade_error + unmasked_chunk"

definition null_try_unmask :: unmasker where
  "null_try_unmask item = Ok (new_unmasked_chunk item True True)"

definition null_mask :: "bytes \<Rightarrow> masquerade_error + bytes" where
  "null_mask dat = Ok dat"

text \<open>The structure \<open>JsonMasqueraderUnmaskStructure\<close>, and the class of a \<open>serde_json\<close> error.\<close>

record json_unmask_structure =
  bodyText :: "bytes option"
  bodyData :: "bytes option"

datatype json_error = JsonSyntax | JsonData | JsonEof | JsonIo string

text \<open>The third-party codecs: UTF-8 validation is \<open>is_utf8\<close>; \<open>from_json\<close> and \<open>text_to_json\<close>,
  \<open>data_to_json\<close> are \<open>serde_json::from_str\<close> and \<open>to_string\<close> at the structures' types.\<close>

record json_codec =
  is_utf8 :: "bytes \<Rightarrow> bool"
  from_json :: "bytes \<Rightarrow> json_error + json_unmask_structure"
  text_to_json :: "bytes \<Rightarrow> json_error + bytes"
  data_to_json :: "bytes \<Rightarrow> json_error + bytes"
  base64_encode :: "bytes \<Rightarrow> bytes"
  base64_decode :: "bytes \<Rightarrow> unit + bytes"

definition string_from_data :: "json_codec \<Rightarrow> bytes \<Rightarrow> masquerade_error + bytes" where
  "string_from_data cod dat =
     (if is_utf8 cod dat then Ok dat else Err (LowLevelDataError ''Data is not a UTF-8 string''))"

definition structure_from_string ::
    "json_codec \<Rightarrow> bytes \<Rightarrow> masquerade_error + json_unmask_structure" where
  "structure_from_string cod str =
     (case from_json cod str of
        Ok st \<Rightarrow> Ok st
      | Err e \<Rightarrow> Err (MidLevelDataError
          (case e of
             JsonSyntax \<Rightarrow> ''Data is not JSON''
           | JsonData \<Rightarrow> ''JSON does not match schema''
           | JsonEof \<Rightarrow> ''JSON was truncated''
           | JsonIo e \<Rightarrow> ''Unexpected JSON parsing error: '' @ e)))"

definition data_vector_from_structure ::
    "json_codec \<Rightarrow> json_unmask_structure \<Rightarrow> masquerade_error + bytes" where
  "data_vector_from_structure cod st =
     (case (bodyText st, bodyData st) of
        (Some txt, None) \<Rightarrow> Ok txt
      | (None, Some dat) \<Rightarrow>
          (case base64_decode cod dat of
             Ok vec \<Rightarrow> Ok vec
           | Err _ \<Rightarrow> Err (HighLevelDataError
               (''Can't decode Base64: '' @ [CHR 0x27] @ text_of dat @ [CHR 0x27])))
      | (Some _, Some _) \<Rightarrow>
          Err (HighLevelDataError ''Found both bodyText and bodyData; can't choose'')
      | (None, None) \<Rightarrow>
          Err (HighLevelDataError ''Found neither bodyText nor bodyData; need one''))"

definition unmask :: "json_codec \<Rightarrow> bytes \<Rightarrow> masquerade_error + unmasked_chunk" where
  "unmask cod dat =
     bind_run (string_from_data cod dat) (\<lambda>str.
     bind_run (structure_from_string cod str) (\<lambda>st.
     bind_run (data_vector_from_structure cod st) (\<lambda>vec.
       Ok (new_unmasked_chunk vec True False))))"

definition json_try_unmask :: "json_codec \<Rightarrow> unmasker" where
  "json_try_unmask cod item = (case unmask cod item of Ok c \<Rightarrow> Ok c | Err err \<Rightarrow> Err err)"

definition json_mask :: "json_codec \<Rightarrow> bytes \<Rightarrow> (masquerade_error + bytes) run" where
  "json_mask cod dat =
     (case (if is_utf8 cod dat then text_to_json cod dat
            else data_to_json cod (base64_encode cod dat)) of
        Ok str \<Rightarrow> Ok (Ok str)
      | Err _ \<Rightarrow> Err ExpectFailed)"

fun try_masqueraders :: "unmasker list \<Rightarrow> bytes \<Rightarrow> unmasked_chunk option" where
  "try_masqueraders [] item = None"
| "try_masqueraders (m # ms) item =
     (case m item of Ok c \<Rightarrow> Some c | Err _ \<Rightarrow> try_masqueraders ms item)"

record 's discriminator =
  disc_framer :: 's
  disc_masqueraders :: "unmasker list"

definition new_discriminator :: "'s \<Rightarrow> unmasker list \<Rightarrow> 's discriminator run" where
  "new_discriminator framer ms =
     (if ms = [] then Err ExplicitPanic
      else Ok \<lparr>disc_framer = framer, disc_masqueraders = ms\<rparr>)"

definition disc_add_data ::
    "('s \<Rightarrow> bytes \<Rightarrow> 's) \<Rightarrow> 's discriminator \<Rightarrow> bytes \<Rightarrow> 's discriminator" where
  "disc_add_data add_data d dat = d\<lparr>disc_framer := add_data (disc_framer d) dat\<rparr>"

definition take_chunk ::
    "('s \<Rightarrow> (framed_chunk option \<times> 's) run) \<Rightarrow> 's discriminator
       \<Rightarrow> (unmasked_chunk option \<times> 's discriminator) run" where
  "take_chunk take_frame d =
     bind_run (take_frame (disc_framer d)) (\<lambda>(r, s').
       case r of
         None \<Rightarrow> Ok (None, d\<lparr>disc_framer := s'\<rparr>)
       | Some frame \<Rightarrow>
           Ok (try_masqueraders (disc_masqueraders d) (chunk frame), d\<lparr>disc_framer := s'\<rparr>))"

text \<open>A TLS record the framer recognizes: header, version 1.0 or 1.2, length, payload.\<close>

definition is_tls_record :: "bytes \<Rightarrow> bool" where
  "is_tls_record r \<longleftrightarrow> 5 \<le> length r \<and> is_valid_content_type (r ! 0)
     \<and> is_valid_protocol_version (r ! 1) (r ! 2) \<and> length r = 5 + to_usize (r ! 3) (r ! 4)"

text \<open>What a stream's reader does with a framer: data arrive, frames are taken.\<close>

datatype framer_event = AddData bytes | TakeFrame

fun run_framer :: "('s \<Rightarrow> bytes \<Rightarrow> 's) \<Rightarrow> ('s \<Rightarrow> (framed_chunk option \<times> 's) run)
    \<Rightarrow> framer_event list \<Rightarrow> 's \<Rightarrow> (framed_chunk list \<times> 's) run" where
  "run_framer ad tf [] s = Ok ([], s)"
| "run_framer ad tf (AddData d # es) s = run_framer ad tf es (ad s d)"
| "run_framer ad tf (TakeFrame # es) s =
     bind_run (tf s) (\<lambda>(r, s').
     bind_run (run_framer ad tf es s') (\<lambda>(cs, t).
       Ok ((case r of None \<Rightarrow> cs | Some c \<Rightarrow> c # cs), t)))"

fun received :: "framer_event list \<Rightarrow> bytes" where
  "received [] = []"
| "received (AddData d # es) = d @ received es"
| "received (TakeFrame # es) = received es"

subsection \<open>The framer contract\<close>

locale framer =
  fixes add_data :: "'s \<Rightarrow> bytes \<Rightarrow> 's"
    and take_frame :: "'s \<Rightarrow> (framed_chunk option \<times> 's) run"
    and pending :: "'s \<Rightarrow> bytes"
    and invar :: "'s \<Rightarrow> bool"
  assumes pending_add: "pending (add_data s d) = pending s @ d"
    and invar_add: "invar s \<Longrightarrow> invar (add_data s d)"
    and invar_take: "invar s \<Longrightarrow> take_frame s = Ok (r, t) \<Longrightarrow> invar t"
    and take_Some: "invar s \<Longrightarrow> take_frame s = Ok (Some c, t)
           \<Longrightarrow> \<exists>pre. pending s = pre @ chunk c @ pending t"
    and take_None: "invar s \<Longrightarrow> take_frame s = Ok (None, t) \<Longrightarrow> suffix (pending t) (pending s)"
begin

lemma take_subseq:
  assumes "invar s" and "take_frame s = Ok (r, t)"
  shows "subseq ((case r of None \<Rightarrow> [] | Some c \<Rightarrow> chunk c) @ pending t @ d) (pending s @ d)"
proof (cases r)
  case None
  with assms take_None show ?thesis by (auto elim!: suffixE)
next
  case (Some c)
  with assms obtain pre where "pending s = pre @ chunk c @ pending t" using take_Some by blast
  with Some show ?thesis by (auto intro: list_emb_append2)
qed

lemma frames_subseq:
  "invar s \<Longrightarrow> run_framer add_data take_frame es s = Ok (cs, t) \<Longrightarrow>
     subseq (concat (map chunk cs) @ pending t) (pending s @ received es)"
proof (induction es arbitrary: s cs t)
  case Nil
  then show ?case by simp
next
  case (Cons e es)
  show ?case
  proof (cases e)
    case (AddData d)
    with Cons.prems Cons.IH [of "add_data s d" cs t] show ?thesis
      by (simp add: pending_add invar_add)
  next
    case TakeFrame
    with Cons.prems obtain r u ds where u: "take_frame s = Ok (r, u)"
        and run: "run_framer add_data take_frame es u = Ok (ds, t)"
        and cs: "cs = (case r of None \<Rightarrow> ds | Some c \<Rightarrow> c # ds)"
      by (auto simp: run_simps)
    let ?c = "case r of None \<Rightarrow> [] | Some c \<Rightarrow> chunk c"
    have "concat (map chunk cs) = ?c @ concat (map chunk ds)"
      by (simp add: cs split: option.split)
    moreover have "subseq (?c @ concat (map chunk ds) @ pending t) (?c @ pending u @ received es)"
      using Cons.IH [OF invar_take [OF Cons.prems(1) u] run] by (simp add: list_emb_append_mono)
    ultimately show ?thesis
      using take_subseq [OF Cons.prems(1) u, of "received es"] TakeFrame
      by (auto elim: subseq_order.trans)
  qed
qed

end

text \<open>A framer that never panics.\<close>

locale total_framer = framer +
  assumes take_total: "invar s \<Longrightarrow> \<exists>r t. take_frame s = Ok (r, t)"
begin

lemma run_total: "invar s \<Longrightarrow> \<exists>cs t. run_framer add_data take_frame es s = Ok (cs, t)"
proof (induction es arbitrary: s)
  case Nil
  then show ?case by simp
next
  case (Cons e es)
  show ?case
  proof (cases e)
    case (AddData d)
    with Cons show ?thesis by (simp add: invar_add)
  next
    case TakeFrame
    obtain r u where u: "take_frame s = Ok (r, u)" using take_total [OF Cons.prems] by blast
    with TakeFrame Cons.IH [OF invar_take [OF Cons.prems u]] show ?thesis by auto
  qed
qed

lemma run_frames:
  "invar s \<Longrightarrow> \<exists>cs t. run_framer add_data take_frame es s = Ok (cs, t)
     \<and> subseq (concat (map chunk cs) @ pending t) (pending s @ received es)"
  using run_total frames_subseq by blast

lemma disc_chunk_total: "invar (disc_framer d) \<Longrightarrow> \<exists>r d'. take_chunk take_frame d = Ok (r, d')"
  using take_total [of "disc_framer d"]
  by (auto simp: take_chunk_def split: option.split)

end

subsection \<open>The TLS framer never panics and frames records\<close>

lemma index_eq_Ok [run_simps]: "index xs i = Ok y \<longleftrightarrow> i < length xs \<and> xs ! i = y"
  by (auto simp: index_def)

lemma search_for_frame_offset_cases:
  obtains (none) "search_for_frame_offset dat = Ok (Err 0)"
  | (again) n where "search_for_frame_offset dat = Ok (Err n)" "0 < n" "n \<le> length dat"
  | (found) n where "search_for_frame_offset dat = Ok (Ok n)" "n + 4 < length dat"
proof (cases "index_of dat [0x03]")
  case None
  then show thesis using none by (simp add: search_for_frame_offset_def)
next
  case (Some i)
  have i: "i < length dat" using index_of_singleton_Some [OF Some] by simp
  show thesis
  proof (cases i)
    case 0
    with Some have "search_for_frame_offset dat = Ok (Err 1)"
      by (simp add: search_for_frame_offset_def)
    then show thesis by (rule again) (use i in auto)
  next
    case (Suc n)
    consider "length dat \<le> n + 4"
      | "n + 4 < length dat" "is_valid_content_type (dat ! n)"
        "is_valid_protocol_version (dat ! (n + 1)) (dat ! (n + 2))"
      | "n + 4 < length dat" "\<not> (is_valid_content_type (dat ! n)
           \<and> is_valid_protocol_version (dat ! (n + 1)) (dat ! (n + 2)))"
      using not_le [of "length dat" "n + 4"] by blast
    then show thesis
    proof cases
      case 1
      with Some Suc have "search_for_frame_offset dat = Ok (Err 0)"
        by (simp add: search_for_frame_offset_def)
      then show thesis by (rule none)
    next
      case 2
      with Some Suc have "search_for_frame_offset dat = Ok (Ok n)"
        by (simp add: search_for_frame_offset_def index_def)
      then show thesis using 2 by (intro found)
    next
      case 3
      with Some Suc have "search_for_frame_offset dat = Ok (Err (n + 1))"
        by (auto simp: search_for_frame_offset_def index_def)
      then show thesis by (rule again) (use 3 in auto)
    qed
  qed
qed

declare find_frame_offset_loop.simps [simp del]

lemma find_frame_offset_loop_bound:
  "acc \<le> length dat \<Longrightarrow> (\<exists>r. find_frame_offset_loop dat acc = Ok r
     \<and> (\<forall>off. r = Some off \<longrightarrow> off + 4 < length dat))"
proof (induction dat acc rule: find_frame_offset_loop.induct)
  case (1 dat acc)
  show ?case
  proof (cases "drop acc dat" rule: search_for_frame_offset_cases)
    case none
    with 1 show ?thesis by (simp add: find_frame_offset_loop.simps [of dat acc])
  next
    case (again n)
    with 1 show ?thesis by (simp add: find_frame_offset_loop.simps [of dat acc])
  next
    case (found n)
    with 1 show ?thesis by (auto simp: find_frame_offset_loop.simps [of dat acc])
  qed
qed

lemma find_frame_offset_cases:
  obtains "find_frame_offset dat = Ok None"
  | off where "find_frame_offset dat = Ok (Some off)" "off + 4 < length dat"
  using find_frame_offset_loop_bound [of 0 dat] unfolding find_frame_offset_def
  by (metis le0 not_Some_eq)

lemma tls_take_frame_cases:
  obtains (none) "find_frame_offset (tls_data_so_far s) = Ok None"
      "tls_take_frame s = Ok (None, s\<lparr>tls_data_so_far :=
         drop (if length (tls_data_so_far s) < 4 then length (tls_data_so_far s)
               else length (tls_data_so_far s) - 4) (tls_data_so_far s)\<rparr>)"
  | (partial) off where "find_frame_offset (tls_data_so_far s) = Ok (Some off)"
      "tls_take_frame s = Ok (None, s\<lparr>tls_data_so_far := drop off (tls_data_so_far s)\<rparr>)"
  | (frame) off n where "find_frame_offset (tls_data_so_far s) = Ok (Some off)"
      "tls_take_frame s = Ok (Some \<lparr>chunk = take n (drop off (tls_data_so_far s)), last_chunk = False\<rparr>,
         s\<lparr>tls_data_so_far := drop n (drop off (tls_data_so_far s))\<rparr>)"
proof (cases "tls_data_so_far s" rule: find_frame_offset_cases)
  case 1
  then show thesis
    using none by (simp add: tls_take_frame_def split_off_def PRESERVE_HEADER_LEN_def Let_def)
next
  case (2 off)
  let ?d = "drop off (tls_data_so_far s)" and ?n = "5 + to_usize (drop off (tls_data_so_far s) ! 3) (drop off (tls_data_so_far s) ! 4)"
  show thesis
  proof (cases "?n \<le> length ?d")
    case True
    with 2 show thesis using frame [of off ?n]
      by (simp add: tls_take_frame_def split_off_def index_def Let_def)
  next
    case False
    with 2 show thesis using partial [of off]
      by (simp add: tls_take_frame_def split_off_def index_def Let_def)
  qed
qed

interpretation tls: total_framer tls_add_data tls_take_frame tls_data_so_far "\<lambda>_. True"
proof (unfold_locales, goal_cases)
  case (1 s d)
  show ?case by (simp add: tls_add_data_def)
next
  case 2
  show ?case ..
next
  case 3
  show ?case ..
next
  case (4 s c t)
  then show ?case
  proof (cases s rule: tls_take_frame_cases)
    case (frame off n)
    with 4 have "tls_data_so_far s = take off (tls_data_so_far s) @ chunk c @ tls_data_so_far t"
      using split_in_three [of "tls_data_so_far s" off n] by auto
    then show ?thesis by blast
  qed simp_all
next
  case (5 s t)
  then show ?case
    by (cases s rule: tls_take_frame_cases) (auto simp: suffix_drop)
next
  case (6 s)
  show ?case by (cases s rule: tls_take_frame_cases) auto
qed

lemma content_type_not_3: "is_valid_content_type b \<Longrightarrow> b \<noteq> 3"
  by (auto simp: is_valid_content_type_def)

lemma index_of_header: "is_valid_content_type b0 \<Longrightarrow> index_of (b0 # 3 # xs) [3] = Some 1"
  by (auto simp: index_of_find_sub dest: content_type_not_3)

lemma find_frame_offset_header:
  assumes "is_valid_content_type b0" and "is_valid_protocol_version 3 b2"
  shows "find_frame_offset (b0 # 3 # b2 # hi # lo # xs) = Ok (Some 0)"
    and "find_frame_offset [b0, 3, b2, hi] = Ok None"
    and "find_frame_offset [b0, 3, b2] = Ok None"
    and "find_frame_offset [b0, 3] = Ok None"
    and "find_frame_offset [b0] = Ok None"
  using assms index_of_header [OF assms(1)] content_type_not_3 [OF assms(1)]
  by (simp_all add: find_frame_offset_def find_frame_offset_loop.simps
      search_for_frame_offset_def index_def index_of_find_sub)

lemma tls_record_cases:
  assumes "is_tls_record r"
  obtains b0 b2 hi lo xs where "r = b0 # 3 # b2 # hi # lo # xs" "is_valid_content_type b0"
    "is_valid_protocol_version 3 b2" "length xs = to_usize hi lo"
proof -
  obtain b0 b1 b2 hi lo xs where "r = b0 # b1 # b2 # hi # lo # xs"
    using assms by (auto simp: is_tls_record_def eval_nat_numeral Suc_le_length_iff)
  with assms show thesis
    using that by (auto simp: is_tls_record_def is_valid_protocol_version_def)
qed

lemma tls_take_record:
  assumes "is_tls_record r"
  shows "tls_take_frame \<lparr>tls_data_so_far = r @ rest\<rparr>
    = Ok (Some \<lparr>chunk = r, last_chunk = False\<rparr>, \<lparr>tls_data_so_far = rest\<rparr>)"
  using assms
  by (cases rule: tls_record_cases)
    (simp add: tls_take_frame_def find_frame_offset_header split_off_def index_def Let_def
      eval_nat_numeral)

subsection \<open>The JSON framer does not depend on how the stream is cut\<close>

text \<open>The scanner's control state just after a frame boundary or a \<open>reset\<close>.\<close>

definition json_idle :: "json_framer \<Rightarrow> bool" where
  "json_idle s \<longleftrightarrow> reset s = s"

text \<open>The states the loop goes through before a frame is complete.\<close>

definition json_scanning :: "json_framer \<Rightarrow> nat \<Rightarrow> bool" where
  "json_scanning s i \<longleftrightarrow> possible_end s = None
     \<and> (case possible_start s of None \<Rightarrow> json_idle s | Some st \<Rightarrow> st < i)"

text \<open>Moving the recorded start by \<open>k\<close> and exchanging the data.\<close>

definition json_shift :: "nat \<Rightarrow> bytes \<Rightarrow> json_framer \<Rightarrow> json_framer" where
  "json_shift k d s = s\<lparr>possible_start := map_option (\<lambda>i. i - k) (possible_start s),
     possible_end := map_option (\<lambda>i. i - k) (possible_end s), json_data_so_far := d\<rparr>"

lemmas json_defs = update_state_def handle_quotes_def handle_braces_def reset_def Let_def

lemma update_state_data [simp]: "json_data_so_far (update_state s b i) = json_data_so_far s"
  by (auto simp: json_defs split: prod.split bool.split)

lemma reset_data [simp]: "json_data_so_far (reset s) = json_data_so_far s"
  by (simp add: reset_def)

lemma update_state_idle:
  "json_idle s \<Longrightarrow> update_state s b i =
    (if b = OB then s\<lparr>brace_nest_count := 1, possible_start := Some i\<rparr> else s)"
  by (cases s) (auto simp: json_idle_def json_defs)

lemma json_scanning_reset [simp, intro]: "json_scanning (reset s) i"
  by (simp add: json_scanning_def json_idle_def reset_def)

lemma handle_quotes_eq:
  "handle_quotes s b = (if possible_start s = None then s
     else if \<not> in_single_quote_string s \<and> b = DQ
     then s\<lparr>in_double_quote_string := \<not> in_double_quote_string s\<rparr>
     else if \<not> in_double_quote_string s \<and> b = SQ
     then s\<lparr>in_single_quote_string := \<not> in_single_quote_string s\<rparr>
     else s)"
  by (cases "in_single_quote_string s"; cases "in_double_quote_string s")
    (auto simp: handle_quotes_def split: bool.split)

lemma handle_quotes_frame [simp]:
  "possible_start (handle_quotes s b) = possible_start s"
  "possible_end (handle_quotes s b) = possible_end s"
  "brace_nest_count (handle_quotes s b) = brace_nest_count s"
  by (simp_all add: handle_quotes_eq)

text \<open>One byte inside a frame: the scan goes on, or the frame is complete. When the nest count has
  wrapped around, the scan may also start afresh at this byte or give the frame up.\<close>

definition json_started :: "json_framer \<Rightarrow> nat \<Rightarrow> json_framer" where
  "json_started s i = (reset s)\<lparr>brace_nest_count := 1, possible_start := Some i\<rparr>"

lemma handle_braces_inside:
  assumes "possible_start s = Some st" "possible_end s = None"
    "\<not> in_single_quote_string s" "\<not> in_double_quote_string s" "\<not> after_backslash s"
  shows "possible_end (handle_braces s b i) = None \<and>
      (possible_start (handle_braces s b i) = Some st \<or> b = OB \<and> handle_braces s b i = json_started s i \<or>
       json_idle (handle_braces s b i))
    \<or> possible_start (handle_braces s b i) = Some st \<and> possible_end (handle_braces s b i) = Some (i + 1) \<and> b = CB"
  using assms by (cases s) (auto simp: handle_braces_def json_started_def json_idle_def reset_def Let_def)

lemma json_started_quotes [simp]: "json_started (handle_quotes s b) i = json_started s i"
  by (cases s) (auto simp: json_started_def handle_quotes_eq reset_def)

lemma update_state_inside:
  assumes "possible_start s = Some st" "possible_end s = None"
  shows "possible_end (update_state s b i) = None \<and>
      (possible_start (update_state s b i) = Some st \<or> b = OB \<and> update_state s b i = json_started s i \<or>
       json_idle (update_state s b i))
    \<or> possible_start (update_state s b i) = Some st \<and> possible_end (update_state s b i) = Some (i + 1) \<and> b = CB"
proof (cases "after_backslash s \<or> in_single_quote_string (handle_quotes s b) \<or> in_double_quote_string (handle_quotes s b)")
  case True
  with assms show ?thesis
    by (auto simp: update_state_def Let_def)
next
  case False
  then have "\<not> after_backslash (handle_quotes s b)"
    by (simp add: handle_quotes_eq)
  with False assms show ?thesis
    using handle_braces_inside [of "handle_quotes s b" st b i]
    by (simp add: update_state_def Let_def)
qed

lemma json_idle_start: "json_idle s \<Longrightarrow> possible_start s = None"
  by (cases s) (simp add: json_idle_def reset_def)

lemma json_shift_simps [simp]:
  "possible_start (json_shift k d s) = map_option (\<lambda>i. i - k) (possible_start s)"
  "possible_end (json_shift k d s) = map_option (\<lambda>i. i - k) (possible_end s)"
  "json_data_so_far (json_shift k d s) = d"
  "brace_nest_count (json_shift k d s) = brace_nest_count s"
  "in_single_quote_string (json_shift k d s) = in_single_quote_string s"
  "in_double_quote_string (json_shift k d s) = in_double_quote_string s"
  "after_backslash (json_shift k d s) = after_backslash s"
  by (simp_all add: json_shift_def)

lemma json_shift_update [simp]:
  "(json_shift k d s)\<lparr>brace_nest_count := n\<rparr> = json_shift k d (s\<lparr>brace_nest_count := n\<rparr>)"
  "(json_shift k d s)\<lparr>in_single_quote_string := b\<rparr> = json_shift k d (s\<lparr>in_single_quote_string := b\<rparr>)"
  "(json_shift k d s)\<lparr>in_double_quote_string := b\<rparr> = json_shift k d (s\<lparr>in_double_quote_string := b\<rparr>)"
  "(json_shift k d s)\<lparr>after_backslash := b\<rparr> = json_shift k d (s\<lparr>after_backslash := b\<rparr>)"
  by (cases s; simp add: json_shift_def)+

lemma handle_quotes_shift: "handle_quotes (json_shift k d s) b = json_shift k d (handle_quotes s b)"
  by (simp add: handle_quotes_eq)

lemma handle_braces_shift:
  assumes "k \<le> i"
  shows "handle_braces (json_shift k d s) b (i - k) = json_shift k d (handle_braces s b i)"
  using assms by (cases s) (auto simp: handle_braces_def json_shift_def reset_def Let_def)

lemma update_state_shift:
  assumes "k \<le> i"
  shows "update_state (json_shift k d s) b (i - k) = json_shift k d (update_state s b i)"
  using handle_braces_shift [OF assms, of d "handle_quotes s b" b]
  by (simp add: update_state_def handle_quotes_shift Let_def)

lemma update_state_set_data:
  "update_state (s\<lparr>json_data_so_far := d\<rparr>) b i = (update_state s b i)\<lparr>json_data_so_far := d\<rparr>"
  by (simp add: update_state_def handle_quotes_eq handle_braces_def reset_def Let_def)

lemma json_scanning_set_data [simp]:
  "json_scanning (s\<lparr>json_data_so_far := d\<rparr>) i = json_scanning s i"
  by (cases s) (simp add: json_scanning_def json_idle_def reset_def split: option.split)

lemma json_step_cases:
  assumes "json_scanning s i" and "i < length (json_data_so_far s)"
  obtains (more) "check_data_chunk (update_state s b i) = Ok (None, update_state s b i)"
      "json_scanning (update_state s b i) (i + 1)"
      "possible_start (update_state s b i) \<in> {possible_start s, Some i, None}"
  | (complete) st where "possible_start s = Some st" "st < i"
      "possible_start (update_state s b i) = Some st"
      "possible_end (update_state s b i) = Some (i + 1)"
      "check_data_chunk (update_state s b i)
         = Ok (Some (take (i + 1 - st) (drop st (json_data_so_far s))), reset (update_state s b i))"
proof (cases "possible_start s")
  case None
  with assms have s: "json_idle s" "possible_end s = None" by (simp_all add: json_scanning_def)
  show thesis
    by (rule more)
      (cases "b = OB"; simp add: update_state_idle s None check_data_chunk_def json_scanning_def)+
next
  case (Some st)
  with assms have st: "possible_end s = None" "st < i"
    by (simp_all add: json_scanning_def)
  from update_state_inside [OF Some st(1), of b i] show thesis
  proof (elim conjE disjE)
    assume "possible_end (update_state s b i) = None" "possible_start (update_state s b i) = Some st"
    then show thesis using Some st by (intro more) (simp_all add: check_data_chunk_def json_scanning_def)
  next
    assume "possible_end (update_state s b i) = None" "update_state s b i = json_started s i"
    then show thesis by (intro more) (simp_all add: check_data_chunk_def json_scanning_def json_started_def)
  next
    assume "possible_end (update_state s b i) = None" "json_idle (update_state s b i)"
    then show thesis
      by (intro more) (simp_all add: check_data_chunk_def json_scanning_def json_idle_start)
  next
    assume "possible_start (update_state s b i) = Some st" "possible_end (update_state s b i) = Some (i + 1)"
    then show thesis using Some st assms(2)
      by (intro complete [of st]) (simp_all add: check_data_chunk_def slice_def)
  qed
qed

lemma json_loop_framing:
  assumes "json_scanning s i" "json_data_so_far s = pre @ rest" "length pre = i"
  shows "\<exists>r t. json_loop s rest i = Ok (r, t)
    \<and> (case r of None \<Rightarrow> suffix (json_data_so_far t) (json_data_so_far s)
        | Some c \<Rightarrow> \<exists>xs. json_data_so_far s = xs @ chunk c @ json_data_so_far t)"
  using assms
proof (induction rest arbitrary: s i pre)
  case Nil
  then show ?case
    by (auto simp: json_scanning_def json_idle_def reset_def slice_def suffix_drop split: option.splits)
next
  case (Cons b rest)
  then have "i < length (json_data_so_far s)" by simp
  with Cons.prems(1) show ?case
  proof (cases rule: json_step_cases [where b = b])
    case more
    then show ?thesis using Cons.prems Cons.IH [of "update_state s b i" "i + 1" "pre @ [b]"]
      by (simp cong: option.case_cong)
  next
    case (complete st)
    have "pre = take st pre @ drop st pre" by simp
    then have "\<exists>xs. pre = xs @ drop st pre" by blast
    with complete Cons.prems show ?thesis by auto
  qed
qed

lemma reset_shift: "(reset (json_shift k d s))\<lparr>json_data_so_far := x\<rparr> = (reset s)\<lparr>json_data_so_far := x\<rparr>"
  by (cases s) (simp add: reset_def json_shift_def)

lemma json_loop_shift:
  assumes "json_scanning s i" "k \<le> i" "json_data_so_far s = pre @ d" "length pre = k"
    and "\<And>st. possible_start s = Some st \<Longrightarrow> k \<le> st" "i + length rest = length (pre @ d)"
  shows "json_loop (json_shift k d s) rest (i - k) = json_loop s rest i"
  using assms
proof (induction rest arbitrary: s i)
  case Nil
  then show ?case
    by (cases s) (auto simp: json_scanning_def json_shift_def slice_def split: option.splits)
next
  case (Cons b rest)
  note shift = update_state_shift [OF Cons.prems(2), of d s b]
  from Cons.prems have "i < length (json_data_so_far s)" by simp
  with Cons.prems(1) show ?case
  proof (cases rule: json_step_cases [where b = b])
    case more
    have "check_data_chunk (json_shift k d (update_state s b i))
        = Ok (None, json_shift k d (update_state s b i))"
      using more by (auto simp: check_data_chunk_def bind_run_eq_Inr split: option.splits)
    moreover have "k \<le> st" if "possible_start (update_state s b i) = Some st" for st
      using that more(3) Cons.prems(2,5) by auto
    ultimately show ?thesis
      using more shift Cons.prems Cons.IH [of "update_state s b i" "i + 1"]
      by (simp add: Suc_diff_le)
  next
    case (complete st)
    have "k \<le> st" using complete Cons.prems(5) by blast
    then have "check_data_chunk (json_shift k d (update_state s b i))
        = Ok (Some (take (i + 1 - st) (drop st (json_data_so_far s))),
              reset (json_shift k d (update_state s b i)))"
      using complete Cons.prems(3,4,6) by (auto simp: check_data_chunk_def slice_def)
    then show ?thesis using complete shift by (simp add: reset_shift)
  qed
qed

interpretation json: total_framer json_add_data json_take_frame json_data_so_far "\<lambda>_. True"
proof -
  have run: "\<exists>r t. json_take_frame s = Ok (r, t)
    \<and> (case r of None \<Rightarrow> suffix (json_data_so_far t) (json_data_so_far s)
        | Some c \<Rightarrow> \<exists>xs. json_data_so_far s = xs @ chunk c @ json_data_so_far t)" for s
    using json_loop_framing [OF json_scanning_reset, of s "[]" "json_data_so_far s"]
    by (simp add: json_take_frame_def cong: option.case_cong)
  have some: "\<exists>xs. json_data_so_far s = xs @ chunk c @ json_data_so_far t"
    if "json_take_frame s = Ok (Some c, t)" for s c t
    using run [of s] that by simp
  have none: "suffix (json_data_so_far t) (json_data_so_far s)"
    if "json_take_frame s = Ok (None, t)" for s t
    using run [of s] that by simp
  have total: "\<exists>r t. json_take_frame s = Ok (r, t)" for s
    using run [of s] by blast
  show "total_framer json_add_data json_take_frame json_data_so_far (\<lambda>_. True)"
    by unfold_locales (use some none total in \<open>simp_all add: json_add_data_def\<close>)
qed

subsection \<open>Independence of the cuts\<close>

fun json_run :: "json_framer \<Rightarrow> bytes \<Rightarrow> nat \<Rightarrow> json_framer" where
  "json_run s [] i = s"
| "json_run s (b # bs) i = json_run (update_state s b i) bs (i + 1)"

lemma json_run_snoc: "json_run s (xs @ [b]) i = update_state (json_run s xs i) b (i + length xs)"
  by (induction xs arbitrary: s i) simp_all

lemma json_run_data [simp]: "json_data_so_far (json_run s xs i) = json_data_so_far s"
  by (induction xs arbitrary: s i) simp_all

lemma json_run_set_data:
  "json_run (s\<lparr>json_data_so_far := d\<rparr>) xs i = (json_run s xs i)\<lparr>json_data_so_far := d\<rparr>"
  by (induction xs arbitrary: s i) (simp_all add: update_state_set_data)

text \<open>As long as no frame is complete, the loop is a run of \<open>update_state\<close>, whatever the data
  that follow.\<close>

lemma json_loop_quiet:
  assumes "json_scanning s i" "i + length xs \<le> length (json_data_so_far s)"
    "json_loop s xs i = Ok (None, t)" "n \<le> length xs"
  shows "json_scanning (json_run s (take n xs) i) (i + n)
    \<and> json_loop (s\<lparr>json_data_so_far := d\<rparr>) (take n xs @ ys) i
        = json_loop ((json_run s (take n xs) i)\<lparr>json_data_so_far := d\<rparr>) ys (i + n)"
  using assms
proof (induction xs arbitrary: s i n)
  case Nil
  then show ?case by simp
next
  case (Cons b xs)
  show ?case
  proof (cases n)
    case 0
    with Cons.prems show ?thesis by simp
  next
    case (Suc m)
    from Cons.prems have "i < length (json_data_so_far s)" by simp
    with Cons.prems(1) show ?thesis
    proof (cases rule: json_step_cases [where b = b])
      case more
      then have "check_data_chunk ((update_state s b i)\<lparr>json_data_so_far := d\<rparr>)
          = Ok (None, (update_state s b i)\<lparr>json_data_so_far := d\<rparr>)"
        by (auto simp: check_data_chunk_def bind_run_eq_Inr split: option.splits)
      with more Suc Cons.prems Cons.IH [of "update_state s b i" "i + 1" m] show ?thesis
        by (simp add: update_state_set_data)
    next
      case (complete st)
      with Cons.prems show ?thesis by simp
    qed
  qed
qed

text \<open>The scan since the byte recorded as the start is a scan from a fresh state.\<close>

lemma json_run_started:
  assumes "\<forall>n \<le> length xs. json_scanning (json_run s (take n xs) 0) n"
    and "possible_start (json_run s xs 0) = Some st" and "possible_start s = None"
  shows "st < length xs \<and> xs ! st = OB \<and> json_run s (take (Suc st) xs) 0 = json_started s st"
  using assms
proof (induction xs rule: rev_induct)
  case Nil
  then show ?case by simp
next
  case (snoc b xs)
  let ?u = "json_run s xs 0"
  have IH: "st < length xs \<and> xs ! st = OB \<and> json_run s (take (Suc st) xs) 0 = json_started s st"
    if "possible_start ?u = Some st"
  proof (rule snoc.IH)
    show "\<forall>n \<le> length xs. json_scanning (json_run s (take n xs) 0) n"
    proof (intro allI impI)
      fix n assume "n \<le> length xs"
      then show "json_scanning (json_run s (take n xs) 0) n"
        using snoc.prems(1) [rule_format, of n] by simp
    qed
  qed (use that snoc.prems in auto)
  have sc: "json_scanning ?u (length xs)" using snoc.prems(1) by (auto dest!: spec [of _ "length xs"])
  have same: "json_started ?u i = json_started s i" for i
    using json_run_data [of s xs 0] by (cases ?u; cases s) (simp add: json_started_def reset_def)
  have last: "update_state ?u b (length xs) = json_started s (length xs) \<Longrightarrow> b = OB \<Longrightarrow> ?case"
    using snoc.prems(2) by (auto simp: json_run_snoc json_started_def nth_append)
  show ?case
  proof (cases "possible_start ?u")
    case None
    with sc have idle: "json_idle ?u" by (simp add: json_scanning_def)
    with snoc.prems(2) None have b: "b = OB"
      by (auto simp: json_run_snoc update_state_idle split: if_splits)
    moreover have "update_state ?u b (length xs) = json_started ?u (length xs)"
      using idle b by (simp add: update_state_idle json_started_def json_idle_def)
    ultimately show ?thesis using last same by simp
  next
    case (Some st')
    with sc have "possible_end ?u = None" by (simp add: json_scanning_def)
    from update_state_inside [OF Some this, of b "length xs"] show ?thesis
    proof (elim disjE conjE)
      assume "update_state ?u b (length xs) = json_started ?u (length xs)" "b = OB"
      then show ?thesis using last same by simp
    qed (use snoc.prems(2) IH Some in \<open>auto simp: json_run_snoc nth_append dest: json_idle_start\<close>)
  qed
qed

lemma json_idle_eq: "json_idle s \<Longrightarrow> json_data_so_far s = json_data_so_far t \<Longrightarrow> s = reset t"
  by (cases s; cases t) (auto simp: json_idle_def reset_def)

lemma set_data_same: "json_data_so_far s = d \<Longrightarrow> s\<lparr>json_data_so_far := d\<rparr> = s"
  by (cases s) simp

lemma reset_set_data: "reset (s\<lparr>json_data_so_far := d\<rparr>) = (reset s)\<lparr>json_data_so_far := d\<rparr>"
  by (cases s) (simp add: reset_def)

lemma json_take_frame_from_idle:
  assumes "json_scanning u i" "json_idle u" "i = length pre"
  shows "json_loop (u\<lparr>json_data_so_far := pre @ d\<rparr>) d i
    = json_take_frame (t\<lparr>json_data_so_far := d\<rparr>)"
proof -
  let ?u = "u\<lparr>json_data_so_far := pre @ d\<rparr>"
  have "possible_start u = None" using assms(2) by (rule json_idle_start)
  then have "json_loop (json_shift i d ?u) d (i - i) = json_loop ?u d i"
    using assms by (intro json_loop_shift [where pre = pre]) auto
  moreover have "json_shift i d ?u = reset (t\<lparr>json_data_so_far := d\<rparr>)"
    using assms(2) by (intro json_idle_eq) (cases u, auto simp: json_shift_def json_idle_def reset_def)
  ultimately show ?thesis by (simp add: json_take_frame_def)
qed

subsection \<open>Properties\<close>

text \<open>The JSON framer is independent of the way the transport cuts the stream: if the data
  received so far contain no complete frame, then calling \<open>take_frame\<close> before more data arrive
  does not change what the next call returns, nor the state it leaves.\<close>

theorem json_take_frame_split:
  assumes "json_take_frame s = Ok (None, t)"
  shows "json_take_frame (json_add_data t d) = json_take_frame (json_add_data s d)"
proof -
  let ?D = "json_data_so_far s"
  have loop: "json_loop (reset s) ?D 0 = Ok (None, t)"
    using assms by (simp add: json_take_frame_def)
  note q = json_loop_quiet [OF json_scanning_reset _ loop, simplified, of _ "?D @ d"]
  let ?u = "json_run (reset s) ?D 0"
  have end_t: "json_loop ?u [] (length ?D) = Ok (None, t)"
    using json_loop_quiet [OF json_scanning_reset _ loop, of "length ?D" ?D "[]"] loop
    by (simp add: set_data_same del: json_loop.simps)
  have sc: "json_scanning ?u (length ?D)" using q [of "length ?D" "[]"] by simp
  have split: "json_take_frame (json_add_data s d)
      = json_loop ((json_run (reset s) (take n ?D) 0)\<lparr>json_data_so_far := ?D @ d\<rparr>)
          (drop n ?D @ d) n" if "n \<le> length ?D" for n
    using q [OF that, of "drop n ?D @ d"]
    by (simp add: json_take_frame_def json_add_data_def reset_set_data flip: append_assoc)
  show ?thesis
  proof (cases "possible_start ?u")
    case None
    with sc have "json_idle ?u" by (simp add: json_scanning_def)
    moreover have "json_data_so_far t = []"
      using end_t None sc by (auto simp: json_scanning_def)
    then have "json_add_data t d = t\<lparr>json_data_so_far := d\<rparr>" by (simp add: json_add_data_def)
    ultimately show ?thesis
      using json_take_frame_from_idle [OF sc, of ?D d t] split [of "length ?D"] by simp
  next
    case (Some st)
    have st: "st < length ?D" "?D ! st = OB" "json_run (reset s) (take (Suc st) ?D) 0 = json_started (reset s) st"
      using json_run_started [OF _ Some] q by (auto simp: reset_def)
    have t: "json_data_so_far t = drop st ?D"
      using end_t Some sc st(1) by (auto simp: json_scanning_def slice_def)
    let ?E = "drop (Suc st) ?D @ d"
    have drop_st: "drop st ?D @ d = OB # ?E"
      using st(1,2) by (metis Cons_nth_drop_Suc append_Cons)
    have dec: "?D = take st ?D @ OB # drop (Suc st) ?D"
      using st(1,2) by (metis id_take_nth_drop)
    have "json_take_frame (json_add_data s d) =
        json_loop ((json_started (reset s) st)\<lparr>json_data_so_far := ?D @ d\<rparr>) ?E (Suc st)"
      using split [of "Suc st"] st by simp
    also have "json_loop ((json_started (reset s) st)\<lparr>json_data_so_far := ?D @ d\<rparr>) ?E (Suc st) = json_loop (json_shift st (OB # ?E) ((json_started (reset s) st)\<lparr>json_data_so_far := ?D @ d\<rparr>)) ?E (Suc st - st)"
    proof (rule json_loop_shift [symmetric, where pre = "take st ?D"])
      show "json_data_so_far ((json_started (reset s) st)\<lparr>json_data_so_far := ?D @ d\<rparr>) = take st ?D @ OB # ?E"
        by (subst dec) simp
    qed (use st(1) in \<open>auto simp: json_scanning_def json_started_def reset_def\<close>)
    also have "json_shift st (OB # ?E) ((json_started (reset s) st)\<lparr>json_data_so_far := ?D @ d\<rparr>) =
        update_state (reset (json_add_data t d)) OB 0"
      using t drop_st
      by (cases s; cases t) (simp add: json_shift_def json_started_def reset_def json_add_data_def update_state_def
        handle_quotes_def handle_braces_def Let_def)
    also have "json_loop \<dots> ?E (Suc st - st) = json_take_frame (json_add_data t d)"
    proof -
      have "check_data_chunk (update_state (reset (json_add_data t d)) OB 0) =
          Ok (None, update_state (reset (json_add_data t d)) OB 0)"
        by (simp add: check_data_chunk_def update_state_idle json_idle_def reset_def)
      then show ?thesis
        using t drop_st by (simp add: json_take_frame_def json_add_data_def)
    qed
    finally show ?thesis by simp
  qed
qed

theorem json_take_frame_split_witness:
  "let s = json_new\<lparr>json_data_so_far := [32, OB, DQ, CB]\<rparr>;
       t = json_new\<lparr>possible_start := Some 0, brace_nest_count := 1, in_double_quote_string := True,
                    json_data_so_far := [OB, DQ, CB]\<rparr>
   in json_take_frame s = Ok (None, t)
      \<and> json_take_frame (json_add_data t [DQ, CB, 10]) = json_take_frame (json_add_data s [DQ, CB, 10])"
proof -
  let ?s = "json_new\<lparr>json_data_so_far := [32, OB, DQ, CB]\<rparr>"
  let ?t = "json_new\<lparr>possible_start := Some 0, brace_nest_count := 1, in_double_quote_string := True,
      json_data_so_far := [OB, DQ, CB]\<rparr>"
  have "json_take_frame ?s = Ok (None, ?t)" by code_simp
  with json_take_frame_split [OF this, of "[DQ, CB, 10]"] show ?thesis by (simp add: Let_def)
qed

text \<open>An incomplete TLS record yields no frame. If at least four of its bytes have arrived
  they are all kept for the next call; if fewer have arrived they are discarded, so a record
  whose first segment is shorter than four bytes is lost.\<close>

theorem tls_partial_record:
  assumes "is_tls_record r" and "0 < k" and "k < length r"
  shows "tls_take_frame \<lparr>tls_data_so_far = take k r\<rparr>
    = Ok (None, \<lparr>tls_data_so_far = (if k < 4 then [] else take k r)\<rparr>)"
proof -
  obtain b0 b2 hi lo xs where r: "r = b0 # 3 # b2 # hi # lo # xs" "is_valid_content_type b0"
      "is_valid_protocol_version 3 b2" "length xs = to_usize hi lo"
    using tls_record_cases [OF assms(1)] .
  consider "k = 1" | "k = 2" | "k = 3" | "k = 4" | n where "k = 5 + n" "n < length xs"
  proof (cases "k < 5")
    case True
    with assms(2) that show thesis by linarith
  next
    case False
    with assms(3) r(1) that(5) [of "k - 5"] show thesis by simp
  qed
  then show ?thesis
    using r by cases (simp_all add: tls_take_frame_def find_frame_offset_header split_off_def
        PRESERVE_HEADER_LEN_def Let_def index_def eval_nat_numeral)
qed

theorem tls_partial_record_witness:
  "tls_take_frame \<lparr>tls_data_so_far = take 3 [0x16, 3, 1, 0, 1, 9]\<rparr> = Ok (None, \<lparr>tls_data_so_far = []\<rparr>)
   \<and> tls_take_frame \<lparr>tls_data_so_far = take 4 [0x16, 3, 1, 0, 1, 9]\<rparr>
      = Ok (None, \<lparr>tls_data_so_far = [0x16, 3, 1, 0]\<rparr>)"
proof -
  have "is_tls_record [0x16, 3, 1, 0, 1, 9]"
    by code_simp
  from tls_partial_record [OF this, of 3] tls_partial_record [OF this, of 4]
  show ?thesis by simp
qed

text \<open>C29. In the release build, where the 32-bit count of nested braces wraps around, neither framer
  panics, and whatever data arrive and however often frames are taken, the bytes of the frames followed by the bytes still held are a subsequence of the bytes
  received: no byte is invented, duplicated or reordered.\<close>

theorem framers_never_invent_bytes:
  "(\<exists>cs t. run_framer tls_add_data tls_take_frame es tls_new = Ok (cs, t)
      \<and> subseq (concat (map chunk cs) @ tls_data_so_far t) (received es))
   \<and> (\<exists>cs t. run_framer json_add_data json_take_frame es json_new = Ok (cs, t)
      \<and> subseq (concat (map chunk cs) @ json_data_so_far t) (received es))"
  using tls.run_frames [of es tls_new] json.run_frames [of es json_new]
  by (simp add: tls_new_def json_new_def)

text \<open>Round trip of the JSON masquerader, for codecs that behave as documented on the data at
  hand: what \<open>mask\<close> produces, \<open>try_unmask\<close> turns back into the original bytes, as an
  unsequenced last chunk.\<close>

theorem json_mask_roundtrip:
  assumes "is_utf8 cod dat \<Longrightarrow> text_to_json cod dat = Ok m"
    and "\<not> is_utf8 cod dat \<Longrightarrow> data_to_json cod (base64_encode cod dat) = Ok m"
    and "is_utf8 cod m"
    and "text_to_json cod dat = Ok m \<Longrightarrow> from_json cod m = Ok \<lparr>bodyText = Some dat, bodyData = None\<rparr>"
    and "data_to_json cod (base64_encode cod dat) = Ok m \<Longrightarrow>
           from_json cod m = Ok \<lparr>bodyText = None, bodyData = Some (base64_encode cod dat)\<rparr>"
    and "base64_decode cod (base64_encode cod dat) = Ok dat"
  shows "json_mask cod dat = Ok (Ok m)
    \<and> json_try_unmask cod m = Ok \<lparr>um_chunk = dat, um_last_chunk = True, um_sequenced = False\<rparr>"
  using assms
  by (cases "is_utf8 cod dat")
    (simp_all add: json_mask_def json_try_unmask_def unmask_def string_from_data_def
      structure_from_string_def data_vector_from_structure_def new_unmasked_chunk_def)

definition example_codec :: json_codec where
  "example_codec = \<lparr>is_utf8 = list_all (\<lambda>b. b < 128),
     from_json = (\<lambda>m. case m of
         [] \<Rightarrow> Err JsonEof
       | b # x \<Rightarrow> if b = 1 then Ok \<lparr>bodyText = Some x, bodyData = None\<rparr>
                  else Ok \<lparr>bodyText = None, bodyData = Some x\<rparr>),
     text_to_json = (\<lambda>x. Ok (1 # x)), data_to_json = (\<lambda>x. Ok (2 # x)),
     base64_encode = map (\<lambda>b. b - 128), base64_decode = (\<lambda>x. Ok (map (\<lambda>b. b + 128) x))\<rparr>"

theorem json_mask_roundtrip_witness:
  "json_mask example_codec [200, 129] = Ok (Ok [2, 72, 1])
   \<and> json_try_unmask example_codec [2, 72, 1]
      = Ok \<lparr>um_chunk = [200, 129], um_last_chunk = True, um_sequenced = False\<rparr>"
  by (rule json_mask_roundtrip) (simp_all add: example_codec_def)

end
