(* ===== verification/HttpFraming.thy ===== *)
theory HttpFraming
  imports Framing
begin

text \<open>
  HTTP framing: \<open>sub_lib/http_packet_framer.rs\<close>, the chunk-header scanner
  \<open>sub_lib/framer_utils.rs\<close>, and the two start finders \<open>http_request_start_finder.rs\<close> and
  \<open>sub_lib/http_response_start_finder.rs\<close>.

  The \<open>regex\<close> crate is a parameter (the record \<open>http_regexes\<close>, one function per pattern of the
  source); UTF-8 validation, substring search and \<open>parse::<usize>\<close> are the standard library's.
  A framer's pending bytes are its collected header lines followed by its unread data; the lines
  left by an abandoned packet do not count, since the start finder clears them.
\<close>

subsection \<open>Standard library\<close>

definition is_cont :: "u8 \<Rightarrow> bool" where
  "is_cont b \<longleftrightarrow> 0x80 \<le> b \<and> b \<le> 0xBF"

fun valid_utf8 :: "bytes \<Rightarrow> bool" where
  "valid_utf8 [] = True"
| "valid_utf8 (b # bs) =
     (if b < 0x80 then valid_utf8 bs
      else if 0xC2 \<le> b \<and> b \<le> 0xDF
      then (case bs of c # r \<Rightarrow> is_cont c \<and> valid_utf8 r | _ \<Rightarrow> False)
      else if 0xE0 \<le> b \<and> b \<le> 0xEF
      then (case bs of
              c # d # r \<Rightarrow> is_cont c \<and> is_cont d \<and> (b = 0xE0 \<longrightarrow> 0xA0 \<le> c)
                \<and> (b = 0xED \<longrightarrow> c \<le> 0x9F) \<and> valid_utf8 r
            | _ \<Rightarrow> False)
      else if 0xF0 \<le> b \<and> b \<le> 0xF4
      then (case bs of
              c # d # e # r \<Rightarrow> is_cont c \<and> is_cont d \<and> is_cont e \<and> (b = 0xF0 \<longrightarrow> 0x90 \<le> c)
                \<and> (b = 0xF4 \<longrightarrow> c \<le> 0x8F) \<and> valid_utf8 r
            | _ \<Rightarrow> False)
      else False)"

fun decimal_value :: "nat \<Rightarrow> bytes \<Rightarrow> nat option" where
  "decimal_value acc [] = Some acc"
| "decimal_value acc (b # bs) =
     (if 48 \<le> b \<and> b \<le> 57
      then (let acc' = acc * 10 + (unat b - 48)
            in if acc' < 2 ^ 64 then decimal_value acc' bs else None)
      else None)"

definition parse_usize :: "bytes \<Rightarrow> nat option" where
  "parse_usize bs =
     (case bs of
        [] \<Rightarrow> None
      | b # r \<Rightarrow> if b = 43 then (if r = [] then None else decimal_value 0 r) else decimal_value 0 bs)"

definition contains_bytes :: "bytes \<Rightarrow> bytes \<Rightarrow> bool" where
  "contains_bytes haystack needle \<longleftrightarrow> needle = [] \<or> find_sub haystack needle \<noteq> None"

definition CRLF :: bytes where
  "CRLF = [13, 10]"

definition DOUBLE_CRLF :: bytes where
  "DOUBLE_CRLF = [13, 10, 13, 10]"

subsection \<open>Chunk headers: framer\_utils.rs\<close>

record chunk_offset_length =
  col_offset :: nat
  col_length :: nat

definition position_in_range :: "u8 \<Rightarrow> u8 \<Rightarrow> u8 \<Rightarrow> u8 option" where
  "position_in_range digit lo hi =
     (if digit < lo then None else if hi < digit then None else Some (digit - lo))"

definition evaluate_hex_digit :: "u8 \<Rightarrow> u8 option" where
  "evaluate_hex_digit digit =
     (case position_in_range digit 48 57 of
        Some pos \<Rightarrow> Some pos
      | None \<Rightarrow>
          (case position_in_range digit 65 70 of
             Some pos \<Rightarrow> Some (10 + pos)
           | None \<Rightarrow>
               (case position_in_range digit 97 102 of
                  Some pos \<Rightarrow> Some (10 + pos)
                | None \<Rightarrow> None)))"

fun find_reversed_digits_loop :: "bytes \<Rightarrow> nat \<Rightarrow> bytes \<Rightarrow> bytes" where
  "find_reversed_digits_loop dat 0 result = result"
| "find_reversed_digits_loop dat (Suc idx) result =
     (if length result < 8
      then (case evaluate_hex_digit (dat ! idx) of
              None \<Rightarrow> result
            | Some v \<Rightarrow> find_reversed_digits_loop dat idx (result @ [v]))
      else result)"

definition find_reversed_digits :: "bytes \<Rightarrow> nat \<Rightarrow> bytes" where
  "find_reversed_digits dat backward_from = find_reversed_digits_loop dat backward_from []"

fun value_of_reversed_digits_loop :: "bytes \<Rightarrow> nat \<Rightarrow> nat \<Rightarrow> nat" where
  "value_of_reversed_digits_loop [] multiplier result = result"
| "value_of_reversed_digits_loop (d # ds) multiplier result =
     value_of_reversed_digits_loop ds (push_bit 4 multiplier) (result + unat d * multiplier)"

definition value_of_reversed_digits :: "bytes \<Rightarrow> nat" where
  "value_of_reversed_digits ds = value_of_reversed_digits_loop ds 1 0"

definition find_next_chunk_offset_length :: "bytes \<Rightarrow> nat + chunk_offset_length" where
  "find_next_chunk_offset_length dat =
     (case index_of dat CRLF of
        None \<Rightarrow> Err 0
      | Some 0 \<Rightarrow> Err (length CRLF)
      | Some (Suc n) \<Rightarrow>
          (case evaluate_hex_digit (dat ! n) of
             None \<Rightarrow> Err (Suc n + length CRLF)
           | Some _ \<Rightarrow>
               (let reversed_digits = find_reversed_digits dat (Suc n)
                in Ok \<lparr>col_offset = Suc n - length reversed_digits,
                       col_length = value_of_reversed_digits reversed_digits + length CRLF
                         + length reversed_digits\<rparr>)))"

function find_chunk_offset_length_loop :: "bytes \<Rightarrow> nat \<Rightarrow> chunk_offset_length option run" where
  "find_chunk_offset_length_loop dat acc =
     (if length dat < acc then Err SliceOutOfRange
      else case find_next_chunk_offset_length (drop acc dat) of
        Err next_offset \<Rightarrow>
          if next_offset = 0 then Ok None
          else find_chunk_offset_length_loop dat (acc + next_offset)
      | Ok result \<Rightarrow>
          Ok (Some \<lparr>col_offset = col_offset result + acc, col_length = col_length result\<rparr>))"
  by pat_completeness auto
termination
  by (relation "measure (\<lambda>(d, a). Suc (length d) - a)") auto

definition find_chunk_offset_length :: "bytes \<Rightarrow> chunk_offset_length option run" where
  "find_chunk_offset_length dat = find_chunk_offset_length_loop dat 0"

subsection \<open>The framer's state\<close>

datatype packet_progress_state = SeekingPacketStart | SeekingBodyStart | SeekingBodyEnd

datatype chunk_existence_state = Standard | ChunkedResponse | Chunk

datatype chunk_progress_state =
  NoChunkProgress | SeekingLengthHeader | SeekingEndOfChunk | SeekingEndOfFinalChunk

record http_framer_state =
  data_so_far :: bytes
  packet_progress_state :: packet_progress_state
  content_length :: nat
  transfer_encoding_chunked :: chunk_existence_state
  chunk_progress_state :: chunk_progress_state
  chunk_size :: "nat option"
  lines :: "bytes list"

definition new_http_state :: http_framer_state where
  "new_http_state = \<lparr>data_so_far = [], packet_progress_state = SeekingPacketStart,
     content_length = 0, transfer_encoding_chunked = Standard,
     chunk_progress_state = NoChunkProgress, chunk_size = None, lines = []\<rparr>"

text \<open>The patterns of the source: the first capture group of \<open>^Content-Length: *(\d+)\<close> and of
  \<open>^Transfer-Encoding: *(.+)\<close> (\<open>None\<close>: no match), and the start of the match of
  \<open>HTTP/1\.[01] \d\d\d \<close> in the lossy decoding of the bytes.\<close>

record http_regexes =
  content_length_captures :: "bytes \<Rightarrow> bytes option option"
  transfer_encoding_captures :: "bytes \<Rightarrow> bytes option option"
  status_line_find :: "bytes \<Rightarrow> nat option"

type_synonym start_finder = "http_framer_state \<Rightarrow> (bool \<times> http_framer_state) run"

subsection \<open>Start finders\<close>

definition METHODS :: "bytes list" where
  "METHODS = map ascii [''GET'', ''HEAD'', ''POST'', ''PUT'', ''DELETE'', ''CONNECT'', ''OPTIONS'',
     ''TRACE'', ''PATCH'']"

definition LONGEST_METHOD_LEN :: nat where
  "LONGEST_METHOD_LEN = 7"

definition min_option :: "nat list \<Rightarrow> nat option" where
  "min_option xs = (case xs of [] \<Rightarrow> None | y # ys \<Rightarrow> Some (foldl min y ys))"

definition request_seek_packet_start :: start_finder where
  "request_seek_packet_start s =
     (if packet_progress_state s = SeekingPacketStart
      then (case min_option (List.map_filter (index_of (data_so_far s)) METHODS) of
              Some first_method_offset \<Rightarrow>
                Ok (True, s\<lparr>data_so_far := drop first_method_offset (data_so_far s),
                         packet_progress_state := SeekingBodyStart, content_length := 0,
                         lines := []\<rparr>)
            | None \<Rightarrow>
                (let i = (if LONGEST_METHOD_LEN < length (data_so_far s)
                          then length (data_so_far s) - LONGEST_METHOD_LEN else 0)
                 in Ok (False, s\<lparr>data_so_far := drop i (data_so_far s)\<rparr>)))
      else Ok (False, s))"

definition LONGEST_PREFIX_LEN :: nat where
  "LONGEST_PREFIX_LEN = 13"

definition find_next_response_offset :: "http_regexes \<Rightarrow> bytes \<Rightarrow> nat + nat" where
  "find_next_response_offset rx dat =
     (let needle = ascii ''HTTP/''
      in case index_of dat needle of
           None \<Rightarrow> Err 0
         | Some http_offset \<Rightarrow>
             if length dat < http_offset + LONGEST_PREFIX_LEN
             then Err (http_offset + length needle)
             else (case status_line_find rx (take LONGEST_PREFIX_LEN (drop http_offset dat)) of
                     Some start \<Rightarrow> Ok (start + http_offset)
                   | None \<Rightarrow> Err (http_offset + 1)))"

function find_response_offset_loop :: "http_regexes \<Rightarrow> bytes \<Rightarrow> nat \<Rightarrow> nat option run" where
  "find_response_offset_loop rx dat acc =
     (if length dat < acc then Err SliceOutOfRange
      else case find_next_response_offset rx (drop acc dat) of
        Err next_offset \<Rightarrow>
          if next_offset = 0 then Ok None
          else find_response_offset_loop rx dat (acc + next_offset)
      | Ok offset \<Rightarrow> Ok (Some (offset + acc)))"
  by pat_completeness auto
termination
  by (relation "measure (\<lambda>(rx, d, a). Suc (length d) - a)") auto

definition find_response_offset :: "http_regexes \<Rightarrow> bytes \<Rightarrow> nat option run" where
  "find_response_offset rx dat = find_response_offset_loop rx dat 0"

definition response_seek_packet_start :: "http_regexes \<Rightarrow> start_finder" where
  "response_seek_packet_start rx s =
     (if packet_progress_state s = SeekingPacketStart
      then bind_run (find_response_offset rx (data_so_far s)) (\<lambda>r.
        case r of
          Some response_offset \<Rightarrow>
            bind_run (split_off response_offset (data_so_far s)) (\<lambda>(_, clean_start_data).
              Ok (True, s\<lparr>data_so_far := clean_start_data,
                          packet_progress_state := SeekingBodyStart, content_length := 0,
                          transfer_encoding_chunked := Standard,
                          chunk_progress_state := NoChunkProgress, chunk_size := None,
                          lines := []\<rparr>))
        | None \<Rightarrow>
            (let i = (if LONGEST_PREFIX_LEN < length (data_so_far s)
                      then length (data_so_far s) - LONGEST_PREFIX_LEN else 0)
             in Ok (False, s\<lparr>data_so_far := drop i (data_so_far s)\<rparr>)))
      else Ok (False, s))"

subsection \<open>Packet framing\<close>

definition http_add_data :: "http_framer_state \<Rightarrow> bytes \<Rightarrow> http_framer_state" where
  "http_add_data s d = s\<lparr>data_so_far := data_so_far s @ d\<rparr>"

definition discard_current_request :: "http_framer_state \<Rightarrow> http_framer_state" where
  "discard_current_request s =
     s\<lparr>packet_progress_state := SeekingPacketStart, content_length := 0, lines := []\<rparr>"

definition starts_with :: "bytes \<Rightarrow> bytes \<Rightarrow> bool" where
  "starts_with xs p \<longleftrightarrow> prefix p xs"

definition check_for_content_length ::
    "http_regexes \<Rightarrow> http_framer_state \<Rightarrow> bytes \<Rightarrow> http_framer_state" where
  "check_for_content_length rx s line =
     (if \<not> starts_with line (ascii ''Content-Length:'') then s
      else if \<not> valid_utf8 line then discard_current_request s
      else case content_length_captures rx line of
        None \<Rightarrow> discard_current_request s
      | Some None \<Rightarrow> s
      | Some (Some length_str) \<Rightarrow>
          (case parse_usize length_str of
             Some n \<Rightarrow> s\<lparr>content_length := n\<rparr>
           | None \<Rightarrow> (discard_current_request s)\<lparr>content_length := 0\<rparr>))"

definition check_for_transfer_encoding ::
    "http_regexes \<Rightarrow> http_framer_state \<Rightarrow> bytes \<Rightarrow> http_framer_state" where
  "check_for_transfer_encoding rx s line =
     (if \<not> starts_with line (ascii ''Transfer-Encoding:'') then s
      else if \<not> valid_utf8 line then discard_current_request s
      else case transfer_encoding_captures rx line of
        None \<Rightarrow> discard_current_request s
      | Some None \<Rightarrow> s
      | Some (Some encodings) \<Rightarrow>
          if contains_bytes encodings (ascii ''chunked'')
          then s\<lparr>transfer_encoding_chunked := ChunkedResponse,
                 chunk_progress_state := SeekingLengthHeader, chunk_size := None\<rparr>
          else s)"

definition check_for_zero_length :: "http_framer_state \<Rightarrow> bytes \<Rightarrow> bool \<times> http_framer_state" where
  "check_for_zero_length s line =
     (if length line \<noteq> 2 then (False, s)
      else (True, s\<lparr>packet_progress_state := SeekingBodyEnd\<rparr>))"

text \<open>The body of the loop of \<open>seek_body_start\<close> for the line that ends at \<open>line_end\<close>.\<close>

definition consume_header_line ::
    "http_regexes \<Rightarrow> http_framer_state \<Rightarrow> nat \<Rightarrow> bool \<times> http_framer_state" where
  "consume_header_line rx s line_end =
     (let line = take (line_end + 2) (data_so_far s);
          s1 = s\<lparr>data_so_far := drop (line_end + 2) (data_so_far s)\<rparr>;
          s2 = (if content_length s1 = 0 then check_for_content_length rx s1 line else s1);
          s3 = (if transfer_encoding_chunked s2 = Standard
                then check_for_transfer_encoding rx s2 line else s2);
          (result, s4) = check_for_zero_length s3 line
      in (result, s4\<lparr>lines := lines s4 @ [line]\<rparr>))"

lemma consume_header_line_data [simp]:
  "data_so_far (snd (consume_header_line rx s n)) = drop (n + 2) (data_so_far s)"
  by (auto simp: consume_header_line_def check_for_content_length_def check_for_transfer_encoding_def
      check_for_zero_length_def discard_current_request_def Let_def split: option.split)

function seek_body_start :: "http_regexes \<Rightarrow> http_framer_state \<Rightarrow> bool \<times> http_framer_state" where
  "seek_body_start rx s =
     (if packet_progress_state s = SeekingBodyStart
      then (case index_of (data_so_far s) CRLF of
              Some line_end \<Rightarrow>
                (if fst (consume_header_line rx s line_end)
                 then (True, snd (consume_header_line rx s line_end))
                 else seek_body_start rx (snd (consume_header_line rx s line_end)))
            | None \<Rightarrow> (False, s))
      else (False, s))"
  by pat_completeness auto
termination
proof (relation "measure (\<lambda>(rx, s). length (data_so_far s))", goal_cases)
  case 1
  show ?case by simp
next
  case (2 rx s n)
  then have "data_so_far s \<noteq> []" by (auto simp: index_of_find_sub split: if_splits)
  then show ?case by (simp add: diff_less)
qed

definition seek_body_end :: "http_framer_state \<Rightarrow> bytes option \<times> http_framer_state" where
  "seek_body_end s =
     (if packet_progress_state s = SeekingBodyEnd \<and> content_length s \<le> length (data_so_far s)
      then (let line = take (content_length s) (data_so_far s);
                s1 = s\<lparr>data_so_far := drop (content_length s) (data_so_far s),
                       packet_progress_state := SeekingPacketStart\<rparr>;
                s2 = (if transfer_encoding_chunked s1 = ChunkedResponse
                      then s1\<lparr>transfer_encoding_chunked := Chunk,
                              chunk_progress_state := SeekingLengthHeader, chunk_size := None\<rparr>
                      else s1\<lparr>transfer_encoding_chunked := Standard\<rparr>)
            in (Some (concat (lines s @ [line])), s2\<lparr>content_length := 0, lines := []\<rparr>))
      else (None, s))"

definition take_packet_frame ::
    "http_regexes \<Rightarrow> start_finder \<Rightarrow> http_framer_state
       \<Rightarrow> (framed_chunk option \<times> http_framer_state) run" where
  "take_packet_frame rx sf s =
     bind_run (if packet_progress_state s = SeekingPacketStart then sf s else Ok (True, s)) (\<lambda>(ok1, s1).
       if \<not> ok1 then Ok (None, s1)
       else (let (ok2, s2) = (if packet_progress_state s1 = SeekingBodyStart
                              then seek_body_start rx s1 else (True, s1))
             in if \<not> ok2 then Ok (None, s2)
                else if packet_progress_state s2 = SeekingBodyEnd
                then (case seek_body_end s2 of
                        (Some request, s3) \<Rightarrow> Ok (Some \<lparr>chunk = request, last_chunk = False\<rparr>, s3)
                      | (None, s3) \<Rightarrow> Ok (None, s3))
                else Ok (None, s2)))"

subsection \<open>Chunk framing\<close>

definition BYTES_TO_PRESERVE :: nat where
  "BYTES_TO_PRESERVE = 9"

definition ends_with :: "bytes \<Rightarrow> bytes \<Rightarrow> bool" where
  "ends_with xs p \<longleftrightarrow> suffix p xs"

definition take_frame_while_seeking_end_of_chunk ::
    "http_framer_state \<Rightarrow> (framed_chunk option \<times> http_framer_state) run" where
  "take_frame_while_seeking_end_of_chunk s =
     (case chunk_size s of
        None \<Rightarrow> Err ExpectFailed
      | Some sz \<Rightarrow>
          if length (data_so_far s) < sz + length CRLF then Ok (None, s)
          else (let c = take (sz + length CRLF) (data_so_far s);
                    remaining = drop (sz + length CRLF) (data_so_far s);
                    (c', d) = (if \<not> ends_with c CRLF
                               then (take (length c - 2) c,
                                     c ! (length c - 2) # c ! (length c - 1) # remaining)
                               else (c, remaining))
                in Ok (Some \<lparr>chunk = c', last_chunk = False\<rparr>,
                       s\<lparr>data_so_far := d, chunk_progress_state := SeekingLengthHeader,
                         chunk_size := None\<rparr>)))"

definition take_frame_while_seeking_end_of_final_chunk ::
    "http_framer_state \<Rightarrow> (framed_chunk option \<times> http_framer_state) run" where
  "take_frame_while_seeking_end_of_final_chunk s =
     (case index_of (data_so_far s) DOUBLE_CRLF of
        Some offset \<Rightarrow>
          Ok (Some \<lparr>chunk = take (offset + length DOUBLE_CRLF) (data_so_far s), last_chunk = False\<rparr>,
              s\<lparr>data_so_far := drop (offset + length DOUBLE_CRLF) (data_so_far s),
                transfer_encoding_chunked := Standard, chunk_progress_state := NoChunkProgress,
                chunk_size := None\<rparr>)
      | None \<Rightarrow> Ok (None, s))"

text \<open>\<open>take_frame_while_seeking_length_header\<close> ends with a call of \<open>take_chunk_frame\<close> in one of
  the two states it has just entered, which dispatches to one of the two functions above.\<close>

definition take_frame_while_seeking_length_header ::
    "http_framer_state \<Rightarrow> (framed_chunk option \<times> http_framer_state) run" where
  "take_frame_while_seeking_length_header s =
     bind_run (find_chunk_offset_length (data_so_far s)) (\<lambda>r.
       case r of
         None \<Rightarrow>
           Ok (None, if BYTES_TO_PRESERVE < length (data_so_far s)
                     then s\<lparr>data_so_far := drop (length (data_so_far s) - BYTES_TO_PRESERVE) (data_so_far s)\<rparr>
                     else s)
       | Some col \<Rightarrow>
           bind_run (split_off (col_offset col) (data_so_far s)) (\<lambda>(_, d).
             let s1 = s\<lparr>data_so_far := d\<rparr>
             in if col_length col = 3
                then bind_run (index d (col_offset col)) (\<lambda>b.
                  if b = 48
                  then take_frame_while_seeking_end_of_final_chunk
                         (s1\<lparr>chunk_progress_state := SeekingEndOfFinalChunk, chunk_size := None\<rparr>)
                  else take_frame_while_seeking_end_of_chunk
                         (s1\<lparr>chunk_progress_state := SeekingEndOfChunk,
                             chunk_size := Some (col_length col)\<rparr>))
                else take_frame_while_seeking_end_of_chunk
                       (s1\<lparr>chunk_progress_state := SeekingEndOfChunk,
                           chunk_size := Some (col_length col)\<rparr>)))"

definition take_chunk_frame ::
    "http_framer_state \<Rightarrow> (framed_chunk option \<times> http_framer_state) run" where
  "take_chunk_frame s =
     (case chunk_progress_state s of
        NoChunkProgress \<Rightarrow> Err ExplicitPanic
      | SeekingLengthHeader \<Rightarrow> take_frame_while_seeking_length_header s
      | SeekingEndOfChunk \<Rightarrow> take_frame_while_seeking_end_of_chunk s
      | SeekingEndOfFinalChunk \<Rightarrow> take_frame_while_seeking_end_of_final_chunk s)"

definition http_take_frame ::
    "http_regexes \<Rightarrow> start_finder \<Rightarrow> http_framer_state
       \<Rightarrow> (framed_chunk option \<times> http_framer_state) run" where
  "http_take_frame rx sf s =
     (if transfer_encoding_chunked s = Chunk then take_chunk_frame s else take_packet_frame rx sf s)"

definition summarize_http_packet :: "bytes \<Rightarrow> string" where
  "summarize_http_packet request =
     (case index_of_from request 32 0 of
        None \<Rightarrow> ''<bad HTTP syntax: no spaces>''
      | Some first_space_index \<Rightarrow>
          (case index_of_from request 32 (first_space_index + 1) of
             None \<Rightarrow> ''<bad HTTP syntax: one space>''
           | Some second_space_index \<Rightarrow>
               if valid_utf8 (take second_space_index request)
               then text_of (take second_space_index request)
               else ''<bad HTTP syntax: UTF-8 encoding error>''))"

definition http_pending :: "http_framer_state \<Rightarrow> bytes" where
  "http_pending s =
     (if packet_progress_state s = SeekingPacketStart then [] else concat (lines s)) @ data_so_far s"

text \<open>The invariant that links the two modes of the framer.\<close>

definition http_inv :: "http_framer_state \<Rightarrow> bool" where
  "http_inv s \<longleftrightarrow> (transfer_encoding_chunked s = Chunk \<longrightarrow>
       lines s = [] \<and> packet_progress_state s = SeekingPacketStart
       \<and> chunk_progress_state s \<noteq> NoChunkProgress
       \<and> (chunk_progress_state s = SeekingEndOfChunk \<longrightarrow> chunk_size s \<noteq> None))"

subsection \<open>Byte conservation in packet mode\<close>

declare seek_body_start.simps [simp del]

lemmas header_check_defs = check_for_content_length_def check_for_transfer_encoding_def
  check_for_zero_length_def discard_current_request_def

lemma header_checks_lines:
  "lines (check_for_content_length rx s line) \<in> {lines s, []}"
  "lines (check_for_transfer_encoding rx s line) \<in> {lines s, []}"
  "lines (snd (check_for_zero_length s line)) = lines s"
  by (auto simp: header_check_defs split: option.split)

lemma header_checks_te:
  "transfer_encoding_chunked (check_for_content_length rx s line) = transfer_encoding_chunked s"
  "transfer_encoding_chunked (check_for_transfer_encoding rx s line)
     \<in> {transfer_encoding_chunked s, ChunkedResponse}"
  "transfer_encoding_chunked (snd (check_for_zero_length s line)) = transfer_encoding_chunked s"
  by (auto simp: header_check_defs split: option.split)

lemma consume_header_line_stages:
  defines "line \<equiv> \<lambda>n s. take (n + 2) (data_so_far s)"
  obtains s2 s3 :: http_framer_state where "lines s2 \<in> {lines s, []}" "lines s3 \<in> {lines s2, []}"
    "transfer_encoding_chunked s2 = transfer_encoding_chunked s"
    "transfer_encoding_chunked s3 \<in> {transfer_encoding_chunked s2, ChunkedResponse}"
    "snd (consume_header_line rx s n) = (snd (check_for_zero_length s3 (line n s)))
       \<lparr>lines := lines (snd (check_for_zero_length s3 (line n s))) @ [line n s]\<rparr>"
proof -
  define s1 where "s1 = s\<lparr>data_so_far := drop (n + 2) (data_so_far s)\<rparr>"
  define s2 where "s2 = (if content_length s1 = 0 then check_for_content_length rx s1 (line n s) else s1)"
  define s3 where "s3 = (if transfer_encoding_chunked s2 = Standard
    then check_for_transfer_encoding rx s2 (line n s) else s2)"
  have s1: "lines s1 = lines s" "transfer_encoding_chunked s1 = transfer_encoding_chunked s"
    by (simp_all add: s1_def)
  show thesis
  proof (rule that [of s2 s3])
    show "lines s2 \<in> {lines s, []}" "transfer_encoding_chunked s2 = transfer_encoding_chunked s"
      using header_checks_lines(1) [of rx s1 "line n s"] header_checks_te(1) [of rx s1 "line n s"]
      by (simp_all add: s2_def s1)
    show "lines s3 \<in> {lines s2, []}"
      using header_checks_lines(2) [of rx s2 "line n s"] by (simp add: s3_def)
    show "transfer_encoding_chunked s3 \<in> {transfer_encoding_chunked s2, ChunkedResponse}"
      using header_checks_te(2) [of rx s2 "line n s"] by (auto simp: s3_def)
    show "snd (consume_header_line rx s n) = (snd (check_for_zero_length s3 (line n s)))
       \<lparr>lines := lines (snd (check_for_zero_length s3 (line n s))) @ [line n s]\<rparr>"
      unfolding consume_header_line_def Let_def s3_def s2_def s1_def line_def
      by (simp split: prod.split del: add_2_eq_Suc')
  qed
qed

lemma consume_header_line_lines:
  "lines (snd (consume_header_line rx s n))
     \<in> {lines s @ [take (n + 2) (data_so_far s)], [take (n + 2) (data_so_far s)]}"
  by (rule consume_header_line_stages [of s rx n]) (auto simp: header_checks_lines(3))

lemma consume_header_line_te:
  assumes "transfer_encoding_chunked s \<noteq> Chunk"
  shows "transfer_encoding_chunked (snd (consume_header_line rx s n)) \<noteq> Chunk"
proof (rule consume_header_line_stages [of s rx n])
  fix s2 s3 :: http_framer_state
  let ?l = "take (n + 2) (data_so_far s)"
  assume "transfer_encoding_chunked s2 = transfer_encoding_chunked s"
    "transfer_encoding_chunked s3 \<in> {transfer_encoding_chunked s2, ChunkedResponse}"
    and eq: "snd (consume_header_line rx s n) = (snd (check_for_zero_length s3 ?l))
       \<lparr>lines := lines (snd (check_for_zero_length s3 ?l)) @ [?l]\<rparr>"
  with assms have "transfer_encoding_chunked s3 \<noteq> Chunk" by auto
  then show ?thesis using header_checks_te(3) [of s3 ?l] eq by simp
qed

lemma consume_header_line_pending:
  "packet_progress_state s = SeekingBodyStart \<Longrightarrow>
     suffix (http_pending (snd (consume_header_line rx s n))) (http_pending s)"
  using consume_header_line_lines [of rx s n] suffix_appendI [OF suffix_drop, of "n + 2" "data_so_far s"]
  by (auto simp: http_pending_def suffix_append)

lemma seek_body_start_pending:
  assumes "transfer_encoding_chunked s \<noteq> Chunk"
  shows "suffix (http_pending (snd (seek_body_start rx s))) (http_pending s)
    \<and> transfer_encoding_chunked (snd (seek_body_start rx s)) \<noteq> Chunk"
  using assms
proof (induction rx s rule: seek_body_start.induct)
  case (1 rx s)
  show ?case
  proof (cases "packet_progress_state s = SeekingBodyStart \<and> index_of (data_so_far s) CRLF \<noteq> None")
    case True
    then obtain n where n: "index_of (data_so_far s) CRLF = Some n"
      and p: "packet_progress_state s = SeekingBodyStart" by blast
    let ?t = "snd (consume_header_line rx s n)"
    have t: "suffix (http_pending ?t) (http_pending s)" "transfer_encoding_chunked ?t \<noteq> Chunk"
      using consume_header_line_pending [OF p] consume_header_line_te "1.prems" by blast+
    show ?thesis
    proof (cases "fst (consume_header_line rx s n)")
      case True
      with n p t show ?thesis by (simp add: seek_body_start.simps [of rx s])
    next
      case False
      with "1.IH" [OF p n False t(2)] n p t(1) show ?thesis
        by (auto simp: seek_body_start.simps [of rx s] intro: suffix_order.trans)
    qed
  next
    case False
    with "1.prems" show ?thesis by (auto simp: seek_body_start.simps [of rx s])
  qed
qed

lemma seek_body_end_Some:
  "seek_body_end s = (Some req, t) \<Longrightarrow> http_pending s = req @ http_pending t \<and> http_inv t"
  by (auto simp: seek_body_end_def http_pending_def http_inv_def Let_def split: if_splits)

lemma seek_body_end_None: "seek_body_end s = (None, t) \<Longrightarrow> t = s"
  by (auto simp: seek_body_end_def Let_def split: if_splits)

subsection \<open>Byte conservation in chunk mode\<close>

lemma last_two: "2 \<le> length c \<Longrightarrow> take (length c - 2) c @ [c ! (length c - 2), c ! (length c - 1)] = c"
proof -
  assume "2 \<le> length c"
  then obtain n where n: "length c = Suc (Suc n)" by (auto simp: le_iff_add eval_nat_numeral)
  then have "drop n c = [c ! n, c ! Suc n]"
    by (simp add: Cons_nth_drop_Suc [of n c, symmetric] Cons_nth_drop_Suc [of "Suc n" c, symmetric])
  with n show ?thesis using append_take_drop_id [of n c] by simp
qed

lemma end_of_chunk_frame:
  assumes "take_frame_while_seeking_end_of_chunk s = Ok (r, t)"
    and "transfer_encoding_chunked s = Chunk" "chunk_size s \<noteq> None" "http_inv s"
  shows "http_inv t \<and> (case r of None \<Rightarrow> t = s
    | Some c \<Rightarrow> data_so_far s = chunk c @ data_so_far t \<and> lines t = lines s)"
proof -
  obtain n where n: "chunk_size s = Some n" using assms(3) by blast
  show ?thesis
  proof (cases "length (data_so_far s) < n + 2")
    case True
    with assms n show ?thesis by (auto simp: take_frame_while_seeking_end_of_chunk_def CRLF_def)
  next
    case False
    let ?c = "take (n + 2) (data_so_far s)"
    have c: "(take (length ?c - 2) ?c @ [?c ! (length ?c - 2), ?c ! (length ?c - 1)])
        @ drop (n + 2) (data_so_far s) = data_so_far s"
      using False by (subst last_two) simp_all
    show ?thesis
    proof (cases "ends_with ?c CRLF")
      case True
      with False assms n show ?thesis
        by (auto simp: take_frame_while_seeking_end_of_chunk_def CRLF_def http_inv_def Let_def)
    next
      case no_crlf: False
      have "r = Some \<lparr>chunk = take (length ?c - 2) ?c, last_chunk = False\<rparr>"
        "t = s\<lparr>data_so_far := ?c ! (length ?c - 2) # ?c ! (length ?c - 1) # drop (n + 2) (data_so_far s),
           chunk_progress_state := SeekingLengthHeader, chunk_size := None\<rparr>"
        using no_crlf False assms n
        by (simp_all add: take_frame_while_seeking_end_of_chunk_def Let_def CRLF_def)
      with assms c show ?thesis by (simp add: http_inv_def)
    qed
  qed
qed

lemma end_of_final_chunk_frame:
  assumes "take_frame_while_seeking_end_of_final_chunk s = Ok (r, t)" "http_inv s"
  shows "http_inv t \<and> (case r of None \<Rightarrow> t = s
    | Some c \<Rightarrow> data_so_far s = chunk c @ data_so_far t \<and> lines t = lines s)"
  using assms
  by (auto simp: take_frame_while_seeking_end_of_final_chunk_def http_inv_def split: option.splits)

lemma chunk_frame_pending:
  assumes "(case r of None \<Rightarrow> t = u
    | Some c \<Rightarrow> data_so_far u = chunk c @ data_so_far t \<and> lines t = lines u)"
    and "lines u = []" "lines s = []" "suffix (data_so_far u) (data_so_far s)"
  shows "case r of None \<Rightarrow> suffix (http_pending t) (http_pending s)
    | Some c \<Rightarrow> \<exists>pre. http_pending s = pre @ chunk c @ http_pending t"
  using assms by (auto simp: http_pending_def suffix_def split: option.splits)

lemma length_header_frame:
  assumes run: "take_frame_while_seeking_length_header s = Ok (r, t)"
    and te: "transfer_encoding_chunked s = Chunk" and inv: "http_inv s"
    and cps: "chunk_progress_state s = SeekingLengthHeader"
  shows "http_inv t \<and> (case r of None \<Rightarrow> suffix (http_pending t) (http_pending s)
    | Some c \<Rightarrow> \<exists>pre. http_pending s = pre @ chunk c @ http_pending t)"
proof -
  have ln: "lines s = []" using te inv by (simp add: http_inv_def)
  obtain q where q: "find_chunk_offset_length (data_so_far s) = Ok q"
    using run by (auto simp: take_frame_while_seeking_length_header_def run_simps)
  show ?thesis
  proof (cases q)
    case None
    with run q have "r = None" "t = s \<or> t = s\<lparr>data_so_far :=
        drop (length (data_so_far s) - BYTES_TO_PRESERVE) (data_so_far s)\<rparr>"
      by (auto simp: take_frame_while_seeking_length_header_def split: if_splits)
    with inv ln show ?thesis by (auto simp: http_inv_def http_pending_def suffix_drop)
  next
    case (Some col)
    define s1 where "s1 = s\<lparr>data_so_far := drop (col_offset col) (data_so_far s)\<rparr>"
    define f where "f = s1\<lparr>chunk_progress_state := SeekingEndOfFinalChunk, chunk_size := None\<rparr>"
    define e where "e = s1\<lparr>chunk_progress_state := SeekingEndOfChunk, chunk_size := Some (col_length col)\<rparr>"
    have "take_frame_while_seeking_end_of_final_chunk f = Ok (r, t)
        \<or> take_frame_while_seeking_end_of_chunk e = Ok (r, t)"
      using run q Some unfolding e_def f_def s1_def
      by (auto simp: take_frame_while_seeking_length_header_def run_simps split_off_def Let_def
          split: if_splits)
    moreover have "http_inv f" "http_inv e" "lines f = []" "lines e = []"
      "suffix (data_so_far f) (data_so_far s)" "suffix (data_so_far e) (data_so_far s)"
      "transfer_encoding_chunked e = Chunk" "chunk_size e \<noteq> None"
      using te inv ln by (simp_all add: f_def e_def s1_def http_inv_def suffix_drop)
    ultimately show ?thesis
      using end_of_final_chunk_frame [of f r t] end_of_chunk_frame [of e r t]
        chunk_frame_pending [where u = f and s = s and t = t and r = r]
        chunk_frame_pending [where u = e and s = s and t = t and r = r] ln by blast
  qed
qed

lemma take_chunk_frame_pending:
  assumes "take_chunk_frame s = Ok (r, t)" "transfer_encoding_chunked s = Chunk" "http_inv s"
  shows "http_inv t \<and> (case r of None \<Rightarrow> suffix (http_pending t) (http_pending s)
    | Some c \<Rightarrow> \<exists>pre. http_pending s = pre @ chunk c @ http_pending t)"
proof -
  have ln: "lines s = []" using assms by (simp add: http_inv_def)
  show ?thesis
  proof (cases "chunk_progress_state s")
    case NoChunkProgress
    with assms show ?thesis by (simp add: take_chunk_frame_def)
  next
    case SeekingLengthHeader
    with assms length_header_frame show ?thesis by (simp add: take_chunk_frame_def)
  next
    case SeekingEndOfChunk
    with assms show ?thesis
      using end_of_chunk_frame [of s r t] chunk_frame_pending [where u = s and s = s and t = t and r = r] ln
      by (simp add: take_chunk_frame_def http_inv_def)
  next
    case SeekingEndOfFinalChunk
    with assms show ?thesis
      using end_of_final_chunk_frame [of s r t] chunk_frame_pending [where u = s and s = s and t = t and r = r] ln
      by (simp add: take_chunk_frame_def)
  qed
qed

subsection \<open>The start-finder contract\<close>

locale http_framer =
  fixes seek :: start_finder and rx :: http_regexes
  assumes seek_pending: "seek s = Ok (b, t) \<Longrightarrow> suffix (http_pending t) (http_pending s)"
    and seek_te: "seek s = Ok (b, t) \<Longrightarrow> transfer_encoding_chunked s \<noteq> Chunk
           \<Longrightarrow> transfer_encoding_chunked t \<noteq> Chunk"
begin

lemma take_packet_frame_pending:
  assumes run: "take_packet_frame rx seek s = Ok (r, t)" and te: "transfer_encoding_chunked s \<noteq> Chunk"
  shows "http_inv t \<and> (case r of None \<Rightarrow> suffix (http_pending t) (http_pending s)
    | Some c \<Rightarrow> \<exists>pre. http_pending s = pre @ chunk c @ http_pending t)"
proof -
  obtain ok1 s1 where s1: "(if packet_progress_state s = SeekingPacketStart then seek s else Ok (True, s))
      = Ok (ok1, s1)"
    using run by (auto simp: take_packet_frame_def run_simps)
  define ok2 s2 where "ok2 = (if packet_progress_state s1 = SeekingBodyStart
      then fst (seek_body_start rx s1) else True)"
    and "s2 = (if packet_progress_state s1 = SeekingBodyStart then snd (seek_body_start rx s1) else s1)"
  have p1: "suffix (http_pending s1) (http_pending s)" "transfer_encoding_chunked s1 \<noteq> Chunk"
    using s1 te seek_pending seek_te by (auto split: if_splits)
  then have p2: "suffix (http_pending s2) (http_pending s)" "transfer_encoding_chunked s2 \<noteq> Chunk"
    using seek_body_start_pending [of s1 rx] by (auto simp: s2_def intro: suffix_order.trans)
  have inv: "http_inv s1" "http_inv s2" using p1 p2 by (simp_all add: http_inv_def)
  have "(r, t) = (None, s1) \<or> (r, t) = (None, s2)
      \<or> (\<exists>req. r = Some \<lparr>chunk = req, last_chunk = False\<rparr> \<and> seek_body_end s2 = (Some req, t))"
    using run s1 seek_body_end_None [of s2]
    by (auto simp: take_packet_frame_def ok2_def s2_def Let_def
        split: if_splits prod.splits option.splits)
  then show ?thesis
  proof (elim disjE exE conjE)
    fix req assume r: "r = Some \<lparr>chunk = req, last_chunk = False\<rparr>" "seek_body_end s2 = (Some req, t)"
    obtain pre where "http_pending s = pre @ http_pending s2" using p2(1) by (auto simp: suffix_def)
    with r seek_body_end_Some [OF r(2)] show ?thesis by auto
  qed (use p1 p2 inv in simp_all)
qed

lemma http_take_frame_pending:
  assumes "http_take_frame rx seek s = Ok (r, t)" "http_inv s"
  shows "http_inv t \<and> (case r of None \<Rightarrow> suffix (http_pending t) (http_pending s)
    | Some c \<Rightarrow> \<exists>pre. http_pending s = pre @ chunk c @ http_pending t)"
  using assms take_packet_frame_pending [of s r t] take_chunk_frame_pending [of s r t]
  by (simp add: http_take_frame_def split: if_splits)

end

sublocale http_framer \<subseteq> framer http_add_data "http_take_frame rx seek" http_pending http_inv
proof (unfold_locales, goal_cases)
  case (1 s d)
  show ?case by (simp add: http_add_data_def http_pending_def)
next
  case (2 s d)
  then show ?case by (simp add: http_add_data_def http_inv_def)
next
  case (3 s r t)
  then show ?case using http_take_frame_pending by blast
next
  case (4 s c t)
  then show ?case using http_take_frame_pending [of s "Some c" t] by simp
next
  case (5 s t)
  then show ?case using http_take_frame_pending [of s None t] by simp
qed

interpretation http_request: http_framer request_seek_packet_start rx for rx
  by unfold_locales
    (auto simp: request_seek_packet_start_def http_pending_def Let_def suffix_drop suffix_append
      split: if_splits option.splits)

interpretation http_response: http_framer "response_seek_packet_start rx" rx for rx
  by unfold_locales
    (auto simp: response_seek_packet_start_def http_pending_def Let_def suffix_drop suffix_append
      run_simps split_off_def split: if_splits option.splits)

subsection \<open>Chunk headers\<close>

definition is_hex :: "u8 \<Rightarrow> bool" where
  "is_hex b \<longleftrightarrow> evaluate_hex_digit b \<noteq> None"

definition hex_value :: "bytes \<Rightarrow> nat" where
  "hex_value ds = foldl (\<lambda>a d. 16 * a + unat (the (evaluate_hex_digit d))) 0 ds"

declare find_chunk_offset_length_loop.simps [simp del]

lemma hex_not_cr: "is_hex b \<Longrightarrow> b \<noteq> 13"
  by (auto simp: is_hex_def evaluate_hex_digit_def position_in_range_def)

lemma find_sub_skip:
  "(\<And>x. x \<in> set xs \<Longrightarrow> x \<noteq> hd ns) \<Longrightarrow> ns \<noteq> [] \<Longrightarrow>
     find_sub (xs @ ys) ns = map_option (\<lambda>i. i + length xs) (find_sub ys ns)"
proof (induction xs)
  case Nil
  then show ?case by (simp add: option.map_ident)
next
  case (Cons x xs)
  then have "\<not> prefix ns (x # xs @ ys)" by (cases ns) auto
  with Cons show ?case by (simp add: option.map_comp comp_def)
qed

lemma find_reversed_digits_hex:
  assumes "list_all is_hex ds" "length result + length ds \<le> 8"
  shows "find_reversed_digits_loop (ds @ zs) (length ds) result
    = result @ rev (map (the \<circ> evaluate_hex_digit) ds)"
  using assms
proof (induction ds arbitrary: result zs rule: rev_induct)
  case Nil
  then show ?case by simp
next
  case (snoc d ds)
  then obtain v where "evaluate_hex_digit d = Some v" by (auto simp: is_hex_def)
  with snoc.prems snoc.IH [of "result @ [v]" "d # zs"] show ?case by (simp add: nth_append)
qed

lemma value_of_reversed_digits_loop_eq:
  "value_of_reversed_digits_loop ds m r = r + m * value_of_reversed_digits_loop ds 1 0"
proof (induction ds arbitrary: m r)
  case Nil
  then show ?case by simp
next
  case (Cons d ds)
  show ?case
    using Cons [of "push_bit 4 m" "r + unat d * m"] Cons [of "push_bit 4 1" "unat d"]
    by (simp add: push_bit_eq_mult algebra_simps)
qed

lemma value_of_reversed_digits_hex:
  "value_of_reversed_digits (rev (map (the \<circ> evaluate_hex_digit) ds)) = hex_value ds"
proof (induction ds rule: rev_induct)
  case Nil
  then show ?case by (simp add: value_of_reversed_digits_def hex_value_def)
next
  case (snoc d ds)
  then show ?case
    using value_of_reversed_digits_loop_eq [of "rev (map (the \<circ> evaluate_hex_digit) ds)" 16
        "unat (the (evaluate_hex_digit d))"]
    by (simp add: value_of_reversed_digits_def hex_value_def push_bit_eq_mult comp_def)
qed

lemma find_chunk_header:
  assumes "list_all is_hex ds" "ds \<noteq> []" "length ds \<le> 8"
  shows "find_chunk_offset_length (ds @ CRLF @ rest)
    = Ok (Some \<lparr>col_offset = 0, col_length = hex_value ds + 2 + length ds\<rparr>)"
proof -
  obtain n where n: "length ds = Suc n" using assms(2) by (cases ds) auto
  have "find_sub (ds @ CRLF @ rest) CRLF = Some (length ds)"
    using assms(1) hex_not_cr
    by (subst find_sub_skip) (auto simp: list_all_iff CRLF_def)
  then have i: "index_of (ds @ CRLF @ rest) CRLF = Some (Suc n)"
    by (simp add: index_of_find_sub n CRLF_def)
  have "is_hex ((ds @ CRLF @ rest) ! n)" using assms(1) n by (simp add: list_all_length nth_append)
  then obtain v where v: "evaluate_hex_digit ((ds @ CRLF @ rest) ! n) = Some v"
    by (auto simp: is_hex_def)
  have "find_reversed_digits (ds @ CRLF @ rest) (Suc n) = rev (map (the \<circ> evaluate_hex_digit) ds)"
    using find_reversed_digits_hex [of ds "[]" "CRLF @ rest"] assms n
    by (simp add: find_reversed_digits_def)
  with i v n show ?thesis
    by (simp add: find_chunk_offset_length_def find_chunk_offset_length_loop.simps CRLF_def
        find_next_chunk_offset_length_def value_of_reversed_digits_hex)
qed

subsection \<open>Header lines\<close>

text \<open>A header line: not empty, its first line break at its end.\<close>

definition is_header :: "bytes \<Rightarrow> bool" where
  "is_header h \<longleftrightarrow> h \<noteq> [] \<and> index_of (h @ CRLF) CRLF = Some (length h)"

definition is_content_length :: "bytes \<Rightarrow> bool" where
  "is_content_length h \<longleftrightarrow> prefix (ascii ''Content-Length:'') (h @ CRLF)"

lemma find_sub_append:
  "find_sub xs ns = Some i \<Longrightarrow> find_sub (xs @ ys) ns = Some i"
proof (induction xs arbitrary: i)
  case Nil
  then show ?case by simp
next
  case (Cons x xs)
  have "find_sub (x # xs) ns = Some i" by (rule Cons.prems)
  then have "length ns \<le> length (x # xs)"
    using find_sub_Some [of "x # xs" ns i] prefix_length_le [of ns "drop i (x # xs)"] by force
  then have "prefix ns (x # xs @ ys) \<longleftrightarrow> prefix ns (x # xs)"
    using prefix_length_prefix [of ns "x # xs @ ys" "x # xs"]
    by (metis append_Cons prefixI prefix_order.trans)
  with Cons show ?case by (auto split: if_splits)
qed

lemma header_line_end: "is_header h \<Longrightarrow> index_of (h @ CRLF @ zs) CRLF = Some (length h)"
  using find_sub_append [of "h @ CRLF" CRLF "length h" zs]
  by (simp add: is_header_def index_of_find_sub CRLF_def)

lemma zero_line_end: "index_of (CRLF @ zs) CRLF = Some 0"
  by (simp add: index_of_find_sub CRLF_def)

text \<open>What the lines of a request tell the framer: no transfer encoding, and every
  \<open>Content-Length\<close> line gives \<open>n\<close>.\<close>

definition plain_header :: "http_regexes \<Rightarrow> nat \<Rightarrow> bytes \<Rightarrow> bool" where
  "plain_header rx n h \<longleftrightarrow> is_header h \<and> \<not> prefix (ascii ''Transfer-Encoding:'') (h @ CRLF)
     \<and> (is_content_length h \<longrightarrow> valid_utf8 (h @ CRLF)
          \<and> (\<exists>ds. content_length_captures rx (h @ CRLF) = Some (Some ds) \<and> parse_usize ds = Some n))"

lemma consume_plain_header:
  assumes "plain_header rx n h" "data_so_far s = h @ CRLF @ zs"
    "transfer_encoding_chunked s = Standard" "content_length s \<in> {0, n}"
  shows "consume_header_line rx s (length h) = (False, s\<lparr>data_so_far := zs,
    content_length := (if is_content_length h then n else content_length s),
    lines := lines s @ [h @ CRLF]\<rparr>)"
proof -
  have h: "h \<noteq> []" "length CRLF = 2" using assms(1) by (simp_all add: plain_header_def is_header_def CRLF_def)
  show ?thesis
  proof (cases "is_content_length h \<and> content_length s = 0")
    case True
    then show ?thesis
      using assms h by (cases s) (auto simp: plain_header_def consume_header_line_def
          header_check_defs starts_with_def is_content_length_def Let_def)
  next
    case False
    then show ?thesis
      using assms h by (cases s) (auto simp: plain_header_def consume_header_line_def
          header_check_defs starts_with_def is_content_length_def Let_def)
  qed
qed

lemma consume_zero_line:
  assumes "data_so_far s = CRLF @ zs"
  shows "consume_header_line rx s 0 = (True, s\<lparr>data_so_far := zs,
    packet_progress_state := SeekingBodyEnd, lines := lines s @ [CRLF]\<rparr>)"
proof -
  have "\<not> prefix (ascii ''Content-Length:'') CRLF" "\<not> prefix (ascii ''Transfer-Encoding:'') CRLF"
    by (simp_all add: ascii_def CRLF_def)
  then show ?thesis using assms
    by (cases s) (simp add: consume_header_line_def header_check_defs starts_with_def Let_def CRLF_def)
qed

lemma seek_body_start_headers:
  assumes "\<forall>h \<in> set hs. plain_header rx n h" "packet_progress_state s = SeekingBodyStart"
    "data_so_far s = concat (map (\<lambda>h. h @ CRLF) hs) @ CRLF @ zs"
    "transfer_encoding_chunked s = Standard" "content_length s \<in> {0, n}"
  shows "seek_body_start rx s = (True, s\<lparr>data_so_far := zs, packet_progress_state := SeekingBodyEnd,
    content_length := (if \<exists>h \<in> set hs. is_content_length h then n else content_length s),
    lines := lines s @ map (\<lambda>h. h @ CRLF) hs @ [CRLF]\<rparr>)"
  using assms
proof (induction hs arbitrary: s)
  case Nil
  then show ?case
    using zero_line_end [of zs] consume_zero_line [of s zs rx]
    by (cases s) (simp add: seek_body_start.simps)
next
  case (Cons h hs)
  let ?zs = "concat (map (\<lambda>h. h @ CRLF) hs) @ CRLF @ zs"
  let ?t = "s\<lparr>data_so_far := ?zs,
      content_length := (if is_content_length h then n else content_length s),
      lines := lines s @ [h @ CRLF]\<rparr>"
  have d: "data_so_far s = h @ CRLF @ ?zs" using Cons.prems(3) by simp
  have "consume_header_line rx s (length h) = (False, ?t)"
    using Cons.prems d by (intro consume_plain_header) auto
  moreover have "index_of (data_so_far s) CRLF = Some (length h)"
    using Cons.prems(1) d by (simp add: header_line_end plain_header_def)
  ultimately have "seek_body_start rx s = seek_body_start rx ?t"
    using Cons.prems(2) by (simp add: seek_body_start.simps [of rx s])
  also have "\<dots> = (True, ?t\<lparr>data_so_far := zs, packet_progress_state := SeekingBodyEnd,
    content_length := (if \<exists>h \<in> set hs. is_content_length h then n else content_length ?t),
    lines := lines ?t @ map (\<lambda>h. h @ CRLF) hs @ [CRLF]\<rparr>)"
    using Cons.prems by (intro Cons.IH) auto
  finally show ?case by (cases s) auto
qed

lemma min_option_0: "0 \<in> set xs \<Longrightarrow> min_option xs = Some 0"
proof (cases xs)
  case (Cons y ys)
  assume "0 \<in> set xs"
  have "foldl min y ys = Min (set (y # ys))"
    by (subst Min.set_eq_fold) (simp add: foldl_conv_fold min.commute)
  also have "\<dots> = 0" using \<open>0 \<in> set xs\<close> Cons by (intro Min_eqI) auto
  finally show ?thesis by (simp add: min_option_def Cons)
qed simp

lemma request_start_at_0:
  assumes "m \<in> set METHODS" "prefix m (data_so_far s)"
    and "packet_progress_state s = SeekingPacketStart"
  shows "request_seek_packet_start s = Ok (True, s\<lparr>packet_progress_state := SeekingBodyStart,
    content_length := 0, lines := []\<rparr>)"
proof -
  have "m \<noteq> []" using assms(1) by (auto simp: METHODS_def ascii_def)
  then have "index_of (data_so_far s) m = Some 0"
    using assms(2) by (cases "data_so_far s") (auto simp: index_of_find_sub)
  then have "0 \<in> set (List.map_filter (index_of (data_so_far s)) METHODS)"
    using assms(1) by (force simp: List.map_filter_def)
  then show ?thesis
    using assms(3) by (cases s) (simp add: request_seek_packet_start_def min_option_0)
qed

subsection \<open>Properties\<close>

text \<open>C28. Framing of HTTP requests: a request made of a request line, header lines, the empty
  line and a body is returned byte for byte as one frame, when every \<open>Content-Length\<close> line
  gives the body's length (and one is present unless the body is empty) and no line names a
  transfer encoding; the bytes that follow are left for the next call.\<close>

theorem http_request_framed:
  assumes "\<forall>h \<in> set hs. plain_header rx (length body) h"
    and "body = [] \<or> (\<exists>h \<in> set hs. is_content_length h)"
    and "m \<in> set METHODS" and "prefix m (concat (map (\<lambda>h. h @ CRLF) hs))"
    and "packet_progress_state s = SeekingPacketStart" and "transfer_encoding_chunked s = Standard"
    and "data_so_far s = concat (map (\<lambda>h. h @ CRLF) hs) @ CRLF @ body @ rest"
  shows "\<exists>t. http_take_frame rx request_seek_packet_start s
      = Ok (Some \<lparr>chunk = concat (map (\<lambda>h. h @ CRLF) hs) @ CRLF @ body, last_chunk = False\<rparr>, t)
    \<and> data_so_far t = rest \<and> packet_progress_state t = SeekingPacketStart
    \<and> transfer_encoding_chunked t = Standard"
proof -
  let ?s1 = "s\<lparr>packet_progress_state := SeekingBodyStart, content_length := 0, lines := []\<rparr>"
  let ?s2 = "?s1\<lparr>data_so_far := body @ rest, packet_progress_state := SeekingBodyEnd,
    content_length := (if \<exists>h \<in> set hs. is_content_length h then length body else 0),
    lines := map (\<lambda>h. h @ CRLF) hs @ [CRLF]\<rparr>"
  have 1: "request_seek_packet_start s = Ok (True, ?s1)"
    using assms by (intro request_start_at_0 [of m]) (auto intro: prefix_prefix)
  have 2: "seek_body_start rx ?s1 = (True, ?s2)"
    using seek_body_start_headers [OF assms(1), of ?s1 "body @ rest"] assms(6,7) by simp
  have len: "content_length ?s2 = length body" using assms(2) by auto
  have 3: "seek_body_end ?s2 = (Some (concat (map (\<lambda>h. h @ CRLF) hs) @ CRLF @ body),
      ?s2\<lparr>data_so_far := rest, packet_progress_state := SeekingPacketStart,
        transfer_encoding_chunked := Standard, content_length := 0, lines := []\<rparr>)"
    using len assms(6) by (cases s) (simp add: seek_body_end_def Let_def)
  show ?thesis
    using 1 2 3 assms(5,6) by (simp add: http_take_frame_def take_packet_frame_def)
qed

definition example_regexes :: http_regexes where
  "example_regexes = \<lparr>content_length_captures = (\<lambda>line. Some (Some (take (length line - 18) (drop 16 line)))),
     transfer_encoding_captures = (\<lambda>line. None), status_line_find = (\<lambda>_. Some 0)\<rparr>"

definition example_headers :: "bytes list" where
  "example_headers = [ascii ''POST / HTTP/1.1'', ascii ''Content-Length: 3'']"

theorem http_request_framed_witness:
  "let s = new_http_state\<lparr>data_so_far :=
      concat (map (\<lambda>h. h @ CRLF) example_headers) @ CRLF @ [1, 2, 3] @ [71, 69]\<rparr>
   in \<exists>t. http_take_frame example_regexes request_seek_packet_start s
      = Ok (Some \<lparr>chunk = concat (map (\<lambda>h. h @ CRLF) example_headers) @ CRLF @ [1, 2, 3],
                 last_chunk = False\<rparr>, t)
    \<and> data_so_far t = [71, 69] \<and> packet_progress_state t = SeekingPacketStart
    \<and> transfer_encoding_chunked t = Standard"
proof -
  have h: "\<forall>h \<in> set example_headers. is_header h \<and> \<not> prefix (ascii ''Transfer-Encoding:'') (h @ CRLF)"
    by (simp add: example_headers_def is_header_def ascii_def index_of_find_sub CRLF_def)
  have cl: "\<not> is_content_length (ascii ''POST / HTTP/1.1'')"
    "is_content_length (ascii ''Content-Length: 3'')"
    "valid_utf8 (ascii ''Content-Length: 3'' @ CRLF)"
    by (simp_all add: is_content_length_def ascii_def CRLF_def)
  have cap: "content_length_captures example_regexes (ascii ''Content-Length: 3'' @ CRLF) = Some (Some [51])"
    "parse_usize [51] = Some 3"
    by (simp_all add: example_regexes_def ascii_def CRLF_def parse_usize_def)
  have "\<forall>h \<in> set example_headers. plain_header example_regexes (length [1, 2, 3 :: u8]) h"
    using h cl cap by (simp add: example_headers_def plain_header_def)
  moreover have "\<exists>h \<in> set example_headers. is_content_length h"
    using cl by (simp add: example_headers_def)
  moreover have "ascii ''POST'' \<in> set METHODS" "prefix (ascii ''POST'')
      (concat (map (\<lambda>h. h @ CRLF) example_headers))"
    by (simp_all add: METHODS_def example_headers_def ascii_def)
  ultimately show ?thesis
    using http_request_framed [of example_headers example_regexes "[1, 2, 3]" "ascii ''POST''"
        "new_http_state\<lparr>data_so_far :=
           concat (map (\<lambda>h. h @ CRLF) example_headers) @ CRLF @ [1, 2, 3] @ [71, 69]\<rparr>" "[71, 69]"]
    by (simp add: new_http_state_def Let_def)
qed

text \<open>Framing of chunked bodies: a chunk (up to eight hexadecimal digits, line break, that many
  bytes, line break) at the start of the data is returned byte for byte as one frame.\<close>

theorem http_chunk_framed:
  assumes "list_all is_hex ds" and "ds \<noteq> []" and "length ds \<le> 8" and "hex_value ds = length body"
    and "body \<noteq> []"
    and "transfer_encoding_chunked s = Chunk" and "chunk_progress_state s = SeekingLengthHeader"
    and "data_so_far s = ds @ CRLF @ body @ CRLF @ rest"
  shows "http_take_frame rx sf s
    = Ok (Some \<lparr>chunk = ds @ CRLF @ body @ CRLF, last_chunk = False\<rparr>,
          s\<lparr>data_so_far := rest, chunk_size := None\<rparr>)"
proof -
  let ?n = "length body + 2 + length ds"
  have f: "find_chunk_offset_length (data_so_far s) = Ok (Some \<lparr>col_offset = 0, col_length = ?n\<rparr>)"
    using find_chunk_header [OF assms(1-3), of "body @ CRLF @ rest"] assms(4,8) by simp
  have n3: "?n \<noteq> 3" using assms(2,5) by (cases ds; cases body) auto
  have l: "length (ds @ CRLF @ body @ CRLF) = ?n + 2" by (simp add: CRLF_def)
  have d: "data_so_far s = (ds @ CRLF @ body @ CRLF) @ rest" using assms(8) by simp
  have c: "take (?n + 2) (data_so_far s) = ds @ CRLF @ body @ CRLF"
    "drop (?n + 2) (data_so_far s) = rest" "?n + 2 \<le> length (data_so_far s)"
    unfolding d l [symmetric] by simp_all
  have e: "ends_with (ds @ CRLF @ body @ CRLF) CRLF" by (simp add: ends_with_def suffix_def)
  have two: "length CRLF = 2" by (simp add: CRLF_def)
  have "take_frame_while_seeking_end_of_chunk
      (s\<lparr>chunk_progress_state := SeekingEndOfChunk, chunk_size := Some ?n\<rparr>)
    = Ok (Some \<lparr>chunk = ds @ CRLF @ body @ CRLF, last_chunk = False\<rparr>,
          s\<lparr>chunk_progress_state := SeekingLengthHeader, chunk_size := None, data_so_far := rest\<rparr>)"
    using c e unfolding take_frame_while_seeking_end_of_chunk_def two Let_def
    by (cases s) simp
  moreover have "split_off 0 (data_so_far s) = Ok ([], data_so_far s)" by (simp add: split_off_def)
  ultimately show ?thesis
    using f n3 assms(6,7) by (cases s) (simp add: http_take_frame_def take_chunk_frame_def
        take_frame_while_seeking_length_header_def Let_def)
qed

theorem http_chunk_framed_witness:
  "http_take_frame example_regexes request_seek_packet_start
      (new_http_state\<lparr>data_so_far := ascii ''00a'' @ CRLF @ replicate 10 7 @ CRLF @ [48],
         transfer_encoding_chunked := Chunk, chunk_progress_state := SeekingLengthHeader\<rparr>)
    = Ok (Some \<lparr>chunk = ascii ''00a'' @ CRLF @ replicate 10 7 @ CRLF, last_chunk = False\<rparr>,
          new_http_state\<lparr>data_so_far := [48], transfer_encoding_chunked := Chunk,
            chunk_progress_state := SeekingLengthHeader, chunk_size := None\<rparr>)"
proof -
  have "list_all is_hex (ascii ''00a'')" "hex_value (ascii ''00a'') = 10"
    by (simp_all add: ascii_def is_hex_def hex_value_def evaluate_hex_digit_def position_in_range_def)
  then show ?thesis
    using http_chunk_framed [of "ascii ''00a''" "replicate 10 7" "new_http_state\<lparr>data_so_far :=
        ascii ''00a'' @ CRLF @ replicate 10 7 @ CRLF @ [48], transfer_encoding_chunked := Chunk,
        chunk_progress_state := SeekingLengthHeader\<rparr>" "[48]" example_regexes request_seek_packet_start]
    by (simp add: new_http_state_def ascii_def)
qed

text \<open>The end of a chunked body is recognized only when the final chunk's header is the first
  thing in the buffer: the test for the digit \<open>0\<close> indexes the already trimmed data with the
  untrimmed offset. With the header at the front the body ends; after a stray line break the
  final chunk is returned as an ordinary one and the framer goes on waiting for chunks; after
  a longer run of other bytes the index is out of range and the framer panics.\<close>

theorem http_final_chunk_position:
  "let s = \<lambda>d. new_http_state\<lparr>data_so_far := d, transfer_encoding_chunked := Chunk,
                 chunk_progress_state := SeekingLengthHeader\<rparr>
   in http_take_frame rx sf (s [48, 13, 10, 13, 10])
        = Ok (Some \<lparr>chunk = [48, 13, 10, 13, 10], last_chunk = False\<rparr>, new_http_state)
    \<and> http_take_frame rx sf (s [13, 10, 48, 13, 10, 13, 10])
        = Ok (Some \<lparr>chunk = [48, 13, 10, 13, 10], last_chunk = False\<rparr>, s [])
    \<and> http_take_frame rx sf (s [45, 45, 45, 45, 13, 10, 48, 13, 10, 13, 10]) = Err IndexOutOfRange"
  by (simp add: new_http_state_def http_take_frame_def take_chunk_frame_def
      take_frame_while_seeking_length_header_def find_chunk_offset_length_def
      find_chunk_offset_length_loop.simps find_next_chunk_offset_length_def index_of_find_sub CRLF_def
      evaluate_hex_digit_def position_in_range_def find_reversed_digits_def
      value_of_reversed_digits_def split_off_def index_def DOUBLE_CRLF_def ends_with_def
      take_frame_while_seeking_end_of_chunk_def take_frame_while_seeking_end_of_final_chunk_def
      Let_def suffix_def)

text \<open>Whatever data arrive and however often frames are taken, the bytes of the frames an
  HTTP framer returns (for requests or for responses), followed by the bytes it holds, are a
  subsequence of the bytes received.\<close>

theorem http_frames_subseq:
  assumes "run_framer http_add_data (http_take_frame rx sf) es new_http_state = Ok (cs, t)"
    and "sf = request_seek_packet_start \<or> sf = response_seek_packet_start rx"
  shows "subseq (concat (map chunk cs) @ http_pending t) (received es)"
proof -
  have "http_inv new_http_state" "http_pending new_http_state = []"
    by (simp_all add: http_inv_def http_pending_def new_http_state_def)
  then show ?thesis
    using assms http_request.frames_subseq [of new_http_state rx es cs t]
      http_response.frames_subseq [of new_http_state rx es cs t] by auto
qed

theorem http_frames_subseq_witness:
  "let es = [AddData (ascii ''GET /''), TakeFrame]
   in \<exists>cs t. run_framer http_add_data (http_take_frame example_regexes request_seek_packet_start)
         es new_http_state = Ok (cs, t)
      \<and> subseq (concat (map chunk cs) @ http_pending t) (received es)"
proof -
  let ?es = "[AddData (ascii ''GET /''), TakeFrame]"
  have "\<exists>t. run_framer http_add_data (http_take_frame example_regexes request_seek_packet_start)
      ?es new_http_state = Ok ([], t)"
    by (simp add: ascii_def http_add_data_def new_http_state_def http_take_frame_def
        take_packet_frame_def request_seek_packet_start_def METHODS_def List.map_filter_def
        index_of_find_sub min_option_def seek_body_start.simps CRLF_def)
  then obtain t where "run_framer http_add_data (http_take_frame example_regexes
      request_seek_packet_start) ?es new_http_state = Ok ([], t)" by blast
  with http_frames_subseq [OF this] show ?thesis by (auto simp: Let_def)
qed

end
