(* ===== verification/Containers.thy ===== *)
theory Containers
  imports Prelude
begin

text \<open>
  The two hash-table wrappers of \<open>node/src/sub_lib\<close>: \<open>BidiHashMap\<close>
  (\<open>bidi_hashmap.rs\<close>), a pair of tables that should be inverse to each other, and
  \<open>TtlHashMap\<close> (\<open>ttl_hashmap.rs\<close>), a table whose entries lapse when they are not touched.

  Clock readings are explicit: every operation of \<open>TtlHashMap\<close> takes the values its calls of
  \<open>Instant::now()\<close> return, in the order the code makes them. \<open>Instant\<close> is a natural number
  and \<open>duration_since\<close> panics when its argument is later than the receiver.
\<close>

section \<open>BidiHashMap\<close>

record ('a, 'b) bidi_hashmap =
  bidi_a_to_b :: "('a, 'b) hashmap"
  bidi_b_to_a :: "('b, 'a) hashmap"

definition bidi_new :: "('a, 'b) bidi_hashmap" where
  "bidi_new = \<lparr> bidi_a_to_b = [], bidi_b_to_a = [] \<rparr>"

definition bidi_insert :: "'a \<Rightarrow> 'b \<Rightarrow> ('a, 'b) bidi_hashmap \<Rightarrow> ('a, 'b) bidi_hashmap" where
  "bidi_insert a b m =
     m\<lparr> bidi_a_to_b := hm_insert a b (bidi_a_to_b m),
        bidi_b_to_a := hm_insert b a (bidi_b_to_a m) \<rparr>"

definition bidi_len :: "('a, 'b) bidi_hashmap \<Rightarrow> nat" where
  "bidi_len m = length (bidi_a_to_b m)"

definition a_to_b :: "('a, 'b) bidi_hashmap \<Rightarrow> 'a \<Rightarrow> 'b option" where
  "a_to_b m a = hm_get (bidi_a_to_b m) a"

definition b_to_a :: "('a, 'b) bidi_hashmap \<Rightarrow> 'b \<Rightarrow> 'a option" where
  "b_to_a m b = hm_get (bidi_b_to_a m) b"

definition remove_a :: "'a \<Rightarrow> ('a, 'b) bidi_hashmap \<Rightarrow> 'b option \<times> ('a, 'b) bidi_hashmap" where
  "remove_a a m =
     (let m' = m\<lparr> bidi_a_to_b := hm_remove a (bidi_a_to_b m) \<rparr>
      in case hm_get (bidi_a_to_b m) a of
           None \<Rightarrow> (None, m')
         | Some b \<Rightarrow> (Some b, m'\<lparr> bidi_b_to_a := hm_remove b (bidi_b_to_a m) \<rparr>))"

definition remove_b :: "'b \<Rightarrow> ('a, 'b) bidi_hashmap \<Rightarrow> 'a option \<times> ('a, 'b) bidi_hashmap" where
  "remove_b b m =
     (let m' = m\<lparr> bidi_b_to_a := hm_remove b (bidi_b_to_a m) \<rparr>
      in case hm_get (bidi_b_to_a m) b of
           None \<Rightarrow> (None, m')
         | Some a \<Rightarrow> (Some a, m'\<lparr> bidi_a_to_b := hm_remove a (bidi_a_to_b m) \<rparr>))"

definition bidi_is_empty :: "('a, 'b) bidi_hashmap \<Rightarrow> bool" where
  "bidi_is_empty m \<longleftrightarrow> bidi_a_to_b m = [] \<and> bidi_b_to_a m = []"

definition bidi_ok :: "('a, 'b) bidi_hashmap \<Rightarrow> bool" where
  "bidi_ok m \<longleftrightarrow>
     hm_ok (bidi_a_to_b m) \<and> hm_ok (bidi_b_to_a m) \<and>
     (\<forall>a b. a_to_b m a = Some b \<longleftrightarrow> b_to_a m b = Some a)"

section \<open>TtlHashMap\<close>

type_synonym instant = nat

record ('k, 'v) ttl_hashmap =
  last_check :: instant
  ttl_data :: "('k, 'v \<times> instant) hashmap"
  ttl :: nat

definition duration_since :: "instant \<Rightarrow> instant \<Rightarrow> nat run" where
  "duration_since now earlier = (if earlier \<le> now then Ok (now - earlier) else Err ExplicitPanic)"

definition ttl_new :: "instant \<Rightarrow> nat \<Rightarrow> ('k, 'v) ttl_hashmap" where
  "ttl_new now d = \<lparr> last_check = now, ttl_data = [], ttl = d \<rparr>"

fun expired_keys :: "instant \<Rightarrow> nat \<Rightarrow> ('k, 'v \<times> instant) hashmap \<Rightarrow> 'k list run" where
  "expired_keys now d [] = Ok []"
| "expired_keys now d ((k, (v, timestamp)) # rest) =
     bind_run (duration_since now timestamp) (\<lambda>age.
     bind_run (expired_keys now d rest) (\<lambda>ks.
     Ok (if d < age then k # ks else ks)))"

definition remove_expired_entries ::
    "instant \<Rightarrow> ('k, 'v) ttl_hashmap \<Rightarrow> ('k, 'v) ttl_hashmap run" where
  "remove_expired_entries now m =
     bind_run (duration_since now (last_check m)) (\<lambda>since_check.
     if since_check < ttl m then Ok m
     else bind_run (expired_keys now (ttl m) (ttl_data m)) (\<lambda>expired.
       Ok (m\<lparr> last_check := now, ttl_data := fold hm_remove expired (ttl_data m) \<rparr>)))"

definition ttl_insert ::
    "instant \<Rightarrow> instant \<Rightarrow> 'k \<Rightarrow> 'v \<Rightarrow> ('k, 'v) ttl_hashmap \<Rightarrow> ('k, 'v) ttl_hashmap run" where
  "ttl_insert now1 now2 key value m =
     bind_run (remove_expired_entries now1 m) (\<lambda>m'.
     Ok (m'\<lparr> ttl_data := hm_insert key (value, now2) (ttl_data m') \<rparr>))"

definition ttl_get ::
    "instant \<Rightarrow> instant \<Rightarrow> 'k \<Rightarrow> ('k, 'v) ttl_hashmap \<Rightarrow> ('v option \<times> ('k, 'v) ttl_hashmap) run" where
  "ttl_get now1 now2 key m =
     bind_run (remove_expired_entries now1 m) (\<lambda>m'.
     case hm_get (ttl_data m') key of
       Some (result, _) \<Rightarrow>
         Ok (Some result, m'\<lparr> ttl_data := hm_insert key (result, now2) (ttl_data m') \<rparr>)
     | None \<Rightarrow> Ok (None, m'))"

text \<open>
  The histories of a table: it is created, then used by any sequence of operations while the
  clock does not run backwards. \<open>ttl_reachable d now m\<close> holds of every state a table with
  lifetime \<open>d\<close> can be in when the clock shows \<open>now\<close>.
\<close>

inductive ttl_reachable :: "nat \<Rightarrow> instant \<Rightarrow> ('k, 'v) ttl_hashmap \<Rightarrow> bool" where
  created: "ttl_reachable d now (ttl_new now d)"
| waited: "ttl_reachable d now m \<Longrightarrow> now \<le> now' \<Longrightarrow> ttl_reachable d now' m"
| inserted: "ttl_reachable d now m \<Longrightarrow> now \<le> now' \<Longrightarrow> ttl_insert now now' k v m = Ok m' \<Longrightarrow>
    ttl_reachable d now' m'"
| looked_up: "ttl_reachable d now m \<Longrightarrow> now \<le> now' \<Longrightarrow> ttl_get now now' k m = Ok (r, m') \<Longrightarrow>
    ttl_reachable d now' m'"

definition ttl_ok :: "instant \<Rightarrow> ('k, 'v) ttl_hashmap \<Rightarrow> bool" where
  "ttl_ok now m \<longleftrightarrow>
     hm_ok (ttl_data m) \<and> last_check m \<le> now \<and>
     (\<forall>(k, v, timestamp) \<in> set (ttl_data m). timestamp \<le> now \<and> last_check m \<le> timestamp + ttl m)"

section \<open>BidiHashMap: when the two tables stay inverse\<close>

lemmas bidi_defs = bidi_ok_def a_to_b_def b_to_a_def bidi_insert_def remove_a_def remove_b_def
  Let_def

lemma bidi_ok_new: "bidi_ok bidi_new"
  by (simp add: bidi_defs bidi_new_def)

lemma bidi_ok_sym:
  "bidi_ok m \<Longrightarrow> hm_get (bidi_b_to_a m) b = Some a \<longleftrightarrow> hm_get (bidi_a_to_b m) a = Some b"
  by (simp add: bidi_ok_def a_to_b_def b_to_a_def)

lemma bidi_ok_unique:
  "bidi_ok m \<Longrightarrow> hm_get (bidi_a_to_b m) a = Some b \<Longrightarrow>
     (hm_get (bidi_a_to_b m) x = Some b \<longleftrightarrow> x = a) \<and> (hm_get (bidi_b_to_a m) y = Some a \<longleftrightarrow> y = b)"
  by (metis bidi_ok_sym option.inject)

lemma bidi_ok_remove_a:
  assumes "bidi_ok m"
  shows "bidi_ok (snd (remove_a a m))"
proof (cases "hm_get (bidi_a_to_b m) a")
  case None
  then have "hm_get (bidi_b_to_a m) b \<noteq> Some a" for b
    using assms by (simp add: bidi_ok_def a_to_b_def b_to_a_def) (metis option.distinct(1))
  with None assms show ?thesis
    by (simp add: bidi_defs)
next
  case (Some b)
  then have "snd (remove_a a m) = m\<lparr> bidi_a_to_b := hm_remove a (bidi_a_to_b m),
      bidi_b_to_a := hm_remove b (bidi_b_to_a m) \<rparr>"
    by (simp add: remove_a_def)
  with assms show ?thesis
    using bidi_ok_unique [OF assms Some] by (simp add: bidi_ok_def a_to_b_def b_to_a_def)
qed

lemma bidi_ok_remove_b:
  assumes "bidi_ok m"
  shows "bidi_ok (snd (remove_b b m))"
proof (cases "hm_get (bidi_b_to_a m) b")
  case None
  then have "hm_get (bidi_a_to_b m) a \<noteq> Some b" for a
    using assms by (simp add: bidi_ok_def a_to_b_def b_to_a_def)
  with None assms show ?thesis
    by (simp add: bidi_defs)
next
  case (Some a)
  then have "snd (remove_b b m) = m\<lparr> bidi_b_to_a := hm_remove b (bidi_b_to_a m),
      bidi_a_to_b := hm_remove a (bidi_a_to_b m) \<rparr>"
    by (simp add: remove_b_def)
  with assms show ?thesis
    using bidi_ok_unique [OF assms iffD1 [OF bidi_ok_sym [OF assms] Some]]
    by (simp add: bidi_ok_def a_to_b_def b_to_a_def)
qed

lemma bidi_ok_insertD:
  assumes "bidi_ok m" "bidi_ok (bidi_insert a b m)"
  shows "a_to_b m a \<in> {None, Some b} \<and> b_to_a m b \<in> {None, Some a}"
proof -
  have fwd: "a_to_b (bidi_insert a b m) x = (if x = a then Some b else a_to_b m x)" for x
    by (simp add: bidi_defs)
  have bwd: "b_to_a (bidi_insert a b m) y = (if y = b then Some a else b_to_a m y)" for y
    by (simp add: bidi_defs)
  have old: "a_to_b m x = Some y \<longleftrightarrow> b_to_a m y = Some x" for x y
    using assms(1) by (simp add: bidi_ok_def)
  have new: "(if x = a then Some b else a_to_b m x) = Some y \<longleftrightarrow>
      (if y = b then Some a else b_to_a m y) = Some x" for x y
    using assms(2) by (simp only: bidi_ok_def fwd bwd)
  have "y = b" if "a_to_b m a = Some y" for y
  proof (rule ccontr)
    assume "y \<noteq> b"
    then show False using that old [of a y] new [of a y] by simp
  qed
  moreover have "x = a" if "b_to_a m b = Some x" for x
  proof (rule ccontr)
    assume "x \<noteq> a"
    then show False using that old [of x b] new [of x b] by simp
  qed
  ultimately show ?thesis
    by (metis insert_iff not_None_eq)
qed

lemma bidi_ok_insertI:
  assumes "bidi_ok m" "a_to_b m a \<in> {None, Some b}" "b_to_a m b \<in> {None, Some a}"
  shows "bidi_ok (bidi_insert a b m)"
proof -
  have old: "a_to_b m x = Some y \<longleftrightarrow> b_to_a m y = Some x" for x y
    using assms(1) by (simp add: bidi_ok_def)
  have "(if x = a then Some b else a_to_b m x) = Some y \<longleftrightarrow>
      (if y = b then Some a else b_to_a m y) = Some x" for x y
    using assms(2, 3) old [of x y] by auto
  moreover have "a_to_b (bidi_insert a b m) x = (if x = a then Some b else a_to_b m x)"
    "b_to_a (bidi_insert a b m) y = (if y = b then Some a else b_to_a m y)" for x y
    by (simp_all add: bidi_defs)
  ultimately show ?thesis
    using assms(1) by (simp add: bidi_ok_def bidi_insert_def)
qed

text \<open>\<open>BidiHashMap\<close>: removals always keep the two directions inverse to each other, and
  an insertion keeps them inverse exactly when neither key is already bound to something else:
  overwriting one side leaves a stale entry in the other table.\<close>

theorem bidi_inverse_iff:
  assumes "bidi_ok m"
  shows "(bidi_ok (bidi_insert a b m) \<longleftrightarrow>
            a_to_b m a \<in> {None, Some b} \<and> b_to_a m b \<in> {None, Some a}) \<and>
         bidi_ok (snd (remove_a a m)) \<and> bidi_ok (snd (remove_b b m)) \<and>
         fst (remove_a a m) = a_to_b m a \<and> a_to_b (snd (remove_a a m)) a = None \<and>
         fst (remove_b b m) = b_to_a m b \<and> b_to_a (snd (remove_b b m)) b = None"
proof (intro conjI)
  show "bidi_ok (bidi_insert a b m) \<longleftrightarrow>
      a_to_b m a \<in> {None, Some b} \<and> b_to_a m b \<in> {None, Some a}"
    using assms bidi_ok_insertD bidi_ok_insertI by metis
  show "bidi_ok (snd (remove_a a m))" "bidi_ok (snd (remove_b b m))"
    using assms by (simp_all add: bidi_ok_remove_a bidi_ok_remove_b)
qed (simp_all add: remove_a_def remove_b_def a_to_b_def b_to_a_def Let_def split: option.splits)

theorem bidi_inverse_iff_witness:
  "\<not> bidi_ok (bidi_insert (1::nat) ''y'' (bidi_insert 1 ''x'' bidi_new)) \<and>
   b_to_a (bidi_insert (1::nat) ''y'' (bidi_insert 1 ''x'' bidi_new)) ''x'' = Some 1"
proof -
  have ok: "bidi_ok (bidi_insert (1::nat) ''x'' bidi_new)"
    using bidi_inverse_iff [OF bidi_ok_new, of "1::nat" "''x''"]
    by (simp add: bidi_new_def a_to_b_def b_to_a_def)
  have "\<not> bidi_ok (bidi_insert (1::nat) ''y'' (bidi_insert 1 ''x'' bidi_new))"
    using bidi_inverse_iff [OF ok, of 1 "''y''"] by (simp add: bidi_insert_def a_to_b_def)
  then show ?thesis
    by (simp add: bidi_insert_def b_to_a_def)
qed

section \<open>TtlHashMap: lifetimes of entries\<close>

lemma expired_keys_Ok:
  "(\<forall>(k, v, timestamp) \<in> set m. timestamp \<le> now) \<Longrightarrow>
     expired_keys now d m = Ok (map fst (filter (\<lambda>(k, v, timestamp). d < now - timestamp) m))"
  by (induction now d m rule: expired_keys.induct) (auto simp: duration_since_def)

lemma fold_hm_remove:
  "fold hm_remove ks m = filter (\<lambda>(k, v). k \<notin> set ks) m"
proof (induction ks arbitrary: m)
  case (Cons k ks)
  have "fold hm_remove ks (hm_remove k m) = filter (\<lambda>(j, v). j \<notin> set ks) (hm_remove k m)"
    by (rule Cons.IH)
  also have "\<dots> = filter (\<lambda>(j, v). j \<notin> set (k # ks)) m"
    unfolding hm_remove_def AList.delete_eq filter_filter
    by (rule filter_cong) auto
  finally show ?case
    by simp
qed simp

definition live_entries :: "instant \<Rightarrow> nat \<Rightarrow> ('k, 'v \<times> instant) hashmap \<Rightarrow> ('k, 'v \<times> instant) hashmap" where
  "live_entries now d m = filter (\<lambda>(k, v, timestamp). now - timestamp \<le> d) m"

lemma purge_eq_live_entries:
  assumes "hm_ok m" "\<forall>(k, v, timestamp) \<in> set m. timestamp \<le> now"
    "expired_keys now d m = Ok expired"
  shows "fold hm_remove expired m = live_entries now d m"
proof -
  have ks: "expired = map fst (filter (\<lambda>(k, v, timestamp). d < now - timestamp) m)"
    using assms(2, 3) by (simp add: expired_keys_Ok)
  have "(k \<notin> set expired) = (now - timestamp \<le> d)" if "(k, v, timestamp) \<in> set m" for k v timestamp
  proof -
    have "v' = v \<and> timestamp' = timestamp" if "(k, v', timestamp') \<in> set m" for v' timestamp'
      using that \<open>(k, v, timestamp) \<in> set m\<close> assms(1) by (metis hm_mem_get option.inject prod.inject)
    moreover have "k \<in> set expired \<longleftrightarrow> (\<exists>v' timestamp'. (k, v', timestamp') \<in> set m \<and> d < now - timestamp')"
      unfolding ks by force
    ultimately have "k \<in> set expired \<longleftrightarrow> d < now - timestamp"
      using that by metis
    then show ?thesis
      by (simp add: not_less)
  qed
  then show ?thesis
    unfolding fold_hm_remove live_entries_def by (intro filter_cong) auto
qed

lemma hm_ok_filter: "hm_ok m \<Longrightarrow> hm_ok (filter P m)"
  by (simp add: hm_ok_def distinct_map_filter)

lemma remove_expired_entries_eq:
  assumes "ttl_ok now m"
  shows "remove_expired_entries now m =
    Ok (if now - last_check m < ttl m then m
        else m\<lparr> last_check := now, ttl_data := live_entries now (ttl m) (ttl_data m) \<rparr>)"
proof -
  have ts: "\<forall>(k, v, timestamp) \<in> set (ttl_data m). timestamp \<le> now" and ok: "hm_ok (ttl_data m)"
    and lc: "last_check m \<le> now"
    using assms by (auto simp: ttl_ok_def)
  obtain expired where e: "expired_keys now (ttl m) (ttl_data m) = Ok expired"
    using expired_keys_Ok [OF ts] by blast
  show ?thesis
    using lc by (simp add: remove_expired_entries_def duration_since_def e
        purge_eq_live_entries [OF ok ts e])
qed

lemma ttl_ok_remove_expired:
  assumes "ttl_ok now m" "remove_expired_entries now m = Ok m'"
  shows "ttl_ok now m' \<and> ttl m' = ttl m"
  using assms remove_expired_entries_eq [OF assms(1)]
  by (auto simp: ttl_ok_def live_entries_def hm_ok_filter split: if_splits)

lemma set_hm_insert: "set (hm_insert k v m) \<subseteq> insert (k, v) (set m)"
  unfolding hm_insert_def by (induction m) auto

lemma ttl_ok_touch:
  assumes "ttl_ok now m" "now \<le> now'"
  shows "ttl_ok now' (m\<lparr> ttl_data := hm_insert k (v, now') (ttl_data m) \<rparr>)"
  using assms set_hm_insert [of k "(v, now')" "ttl_data m"]
  by (fastforce simp: ttl_ok_def)

lemma ttl_ok_insert:
  "ttl_ok now m \<Longrightarrow> now \<le> now' \<Longrightarrow> ttl_insert now now' k v m = Ok m' \<Longrightarrow>
     ttl_ok now' m' \<and> ttl m' = ttl m"
  using ttl_ok_remove_expired [of now m] ttl_ok_touch [of now _ now' k v]
  by (auto simp: ttl_insert_def bind_run_eq_Inr)

lemma ttl_ok_mono: "ttl_ok now m \<Longrightarrow> now \<le> now' \<Longrightarrow> ttl_ok now' m"
  by (fastforce simp: ttl_ok_def)

lemma ttl_ok_get:
  "ttl_ok now m \<Longrightarrow> now \<le> now' \<Longrightarrow> ttl_get now now' k m = Ok (r, m') \<Longrightarrow>
     ttl_ok now' m' \<and> ttl m' = ttl m"
  using ttl_ok_remove_expired [of now m] ttl_ok_touch [of now _ now' k] ttl_ok_mono [of now _ now']
  by (fastforce simp: ttl_get_def bind_run_eq_Inr split: option.splits)

lemma ttl_reachable_ok: "ttl_reachable d now m \<Longrightarrow> ttl_ok now m \<and> ttl m = d"
proof (induction rule: ttl_reachable.induct)
  case (created d now)
  then show ?case by (simp add: ttl_ok_def ttl_new_def)
next
  case (waited d now m now')
  then show ?case using ttl_ok_mono [of now m now'] by simp
next
  case (inserted d now m now' k v m')
  then show ?case using ttl_ok_insert [of now m now' k v m'] by simp
next
  case (looked_up d now m now' k r m')
  then show ?case using ttl_ok_get [of now m now' k r m'] by simp
qed

lemma hm_get_live:
  assumes "hm_ok m"
  shows "hm_get (live_entries now d m) k =
    (case hm_get m k of
       None \<Rightarrow> None
     | Some (v, timestamp) \<Rightarrow> if now - timestamp \<le> d then Some (v, timestamp) else None)"
  using assms unfolding live_entries_def
proof (induction m)
  case (Cons e m)
  obtain j v timestamp where e: "e = (j, v, timestamp)" by (cases e) auto
  have IH: "hm_get (filter (\<lambda>(k, v, timestamp). now - timestamp \<le> d) m) k =
      (case hm_get m k of None \<Rightarrow> None
       | Some (v, timestamp) \<Rightarrow> if now - timestamp \<le> d then Some (v, timestamp) else None)"
    using Cons by (simp add: hm_ok_def)
  have "hm_get m j = None"
    using Cons.prems by (simp add: e hm_ok_def hm_get_def map_of_eq_None_iff)
  with IH show ?case
    by (cases "k = j") (auto simp: e hm_get_def split: option.splits)
qed simp

lemma ttl_get_reachable:
  assumes "ttl_ok now m" "now \<le> now'"
  obtains m' r where "ttl_get now now' k m = Ok (r, m')"
    and "r = (if now - last_check m < ttl m then map_option fst (hm_get (ttl_data m) k)
              else map_option fst (hm_get (live_entries now (ttl m) (ttl_data m)) k))"
proof -
  define purged where "purged = (if now - last_check m < ttl m then m
    else m\<lparr> last_check := now, ttl_data := live_entries now (ttl m) (ttl_data m) \<rparr>)"
  have purge: "remove_expired_entries now m = Ok purged"
    unfolding purged_def by (rule remove_expired_entries_eq [OF assms(1)])
  obtain m' where "ttl_get now now' k m = Ok (map_option fst (hm_get (ttl_data purged) k), m')"
    by (cases "hm_get (ttl_data purged) k") (auto simp: ttl_get_def purge)
  then show thesis
    by (rule that) (simp add: purged_def)
qed

text \<open>\<open>TtlHashMap::get\<close>, in every state a table can reach and at any clock readings that
  do not run backwards: it never panics, an entry last touched at most \<open>ttl\<close> ago is returned,
  an entry that is returned was touched less than \<open>2 * ttl\<close> ago (or at most \<open>ttl\<close> ago), and an
  absent key gives nothing.\<close>

theorem ttl_get_lifetime:
  assumes "ttl_reachable d now m" "now \<le> now'"
  shows "\<exists>r m'. ttl_get now now' k m = Ok (r, m') \<and>
    (case hm_get (ttl_data m) k of
       None \<Rightarrow> r = None
     | Some (v, timestamp) \<Rightarrow>
         (now - timestamp \<le> d \<longrightarrow> r = Some v) \<and>
         (r \<noteq> None \<longrightarrow> r = Some v \<and> (now - timestamp \<le> d \<or> now - timestamp < 2 * d)))"
proof -
  have ok: "ttl_ok now m" and d: "ttl m = d"
    using ttl_reachable_ok [OF assms(1)] by simp_all
  obtain m' r where get: "ttl_get now now' k m = Ok (r, m')"
    and r: "r = (if now - last_check m < ttl m then map_option fst (hm_get (ttl_data m) k)
                 else map_option fst (hm_get (live_entries now (ttl m) (ttl_data m)) k))"
    using ttl_get_reachable [OF ok assms(2)] by blast
  have "last_check m \<le> now" "hm_ok (ttl_data m)"
    and "\<And>v timestamp. hm_get (ttl_data m) k = Some (v, timestamp) \<Longrightarrow>
      timestamp \<le> now \<and> last_check m \<le> timestamp + d"
    using ok d hm_get_Some_mem by (fastforce simp: ttl_ok_def)+
  then have "case hm_get (ttl_data m) k of
       None \<Rightarrow> r = None
     | Some (v, timestamp) \<Rightarrow>
         (now - timestamp \<le> d \<longrightarrow> r = Some v) \<and>
         (r \<noteq> None \<longrightarrow> r = Some v \<and> (now - timestamp \<le> d \<or> now - timestamp < 2 * d))"
    unfolding r d by (cases "hm_get (ttl_data m) k") (fastforce simp: hm_get_live)+
  with get show ?thesis
    by blast
qed

theorem ttl_get_lifetime_witness:
  "\<exists>m. ttl_reachable 10 7 m \<and> (\<exists>m'. ttl_get 7 8 ''k'' m = Ok (Some (5::nat), m'))"
proof -
  define m where "m = (ttl_new 0 10)\<lparr> ttl_data := [(''k'', 5::nat, 3)] \<rparr>"
  have "ttl_insert 0 3 ''k'' 5 (ttl_new 0 10) = Ok m"
    by (simp add: m_def ttl_insert_def remove_expired_entries_def duration_since_def ttl_new_def
        hm_insert_def)
  then have reach: "ttl_reachable 10 7 m"
    by (intro ttl_reachable.waited [of 10 3 m 7] ttl_reachable.inserted [of 10 0 "ttl_new 0 10" 3]
        ttl_reachable.created) simp_all
  have "hm_get (ttl_data m) ''k'' = Some (5, 3)"
    by (simp add: m_def ttl_new_def hm_get_def)
  then show ?thesis
    using ttl_get_lifetime [OF reach, of 8 "''k''"] reach by auto
qed

end
