(* ===== verification/TextLib.thy ===== *)
theory TextLib
  imports Prelude
begin

text \<open>
  The parts of Rust's string library the node's textual formats rest on: \<open>str::split\<close> and
  \<open>splitn(2, _)\<close> by a character, \<open>join\<close>, decimal and hexadecimal formatting of integers,
  \<open>parse::<u16>\<close>, and the text form of IP addresses. \<open>parse\<close> accepts a leading plus sign and
  leading zeros, as the library does; the IPv4 parser reads one to three digits per octet.
\<close>

section \<open>Splitting and joining\<close>

fun split_on :: "char \<Rightarrow> string \<Rightarrow> string list" where
  "split_on c [] = [[]]"
| "split_on c (x # xs) =
     (if x = c then [] # split_on c xs
      else (case split_on c xs of [] \<Rightarrow> [[x]] | p # ps \<Rightarrow> (x # p) # ps))"

definition splitn_two :: "char \<Rightarrow> string \<Rightarrow> string list" where
  "splitn_two c s =
     (if List.member s c then [takeWhile (\<lambda>x. x \<noteq> c) s, tl (dropWhile (\<lambda>x. x \<noteq> c) s)] else [s])"

fun join_with :: "char \<Rightarrow> string list \<Rightarrow> string" where
  "join_with c [] = []"
| "join_with c [x] = x"
| "join_with c (x # y # ys) = x @ c # join_with c (y # ys)"

section \<open>Numbers\<close>

definition digit_char :: "nat \<Rightarrow> char" where
  "digit_char d = (if d < 10 then char_of (48 + d) else char_of (87 + d))"

fun show_radix :: "nat \<Rightarrow> nat \<Rightarrow> string" where
  "show_radix r n =
     (if r < 2 \<or> n < r then [digit_char n] else show_radix r (n div r) @ [digit_char (n mod r)])"

declare show_radix.simps [simp del]

abbreviation show_nat :: "nat \<Rightarrow> string" where
  "show_nat \<equiv> show_radix 10"

definition is_digit_char :: "char \<Rightarrow> bool" where
  "is_digit_char c \<longleftrightarrow> 48 \<le> (of_char c :: nat) \<and> (of_char c :: nat) \<le> 57"

definition digits_value :: "string \<Rightarrow> nat" where
  "digits_value s = foldl (\<lambda>n c. 10 * n + (of_char c - 48)) 0 s"

text \<open>\<open>str::parse\<close> for an unsigned type with the given largest value.\<close>

definition parse_unsigned :: "nat \<Rightarrow> string \<Rightarrow> nat option" where
  "parse_unsigned largest s =
     (let digits = (case s of [] \<Rightarrow> [] | c # cs \<Rightarrow> if c = CHR ''+'' then cs else s)
      in if digits = [] \<or> list_ex (\<lambda>c. \<not> is_digit_char c) digits then None
         else if largest < digits_value digits then None
         else Some (digits_value digits))"

definition parse_u16 :: "string \<Rightarrow> u16 option" where
  "parse_u16 s = map_option of_nat (parse_unsigned 65535 s)"

section \<open>IP addresses\<close>

datatype ip_addr =
    V4 u8 u8 u8 u8
  | V6 u16 u16 u16 u16 u16 u16 u16 u16

record socket_addr =
  ip :: ip_addr
  port :: u16

definition show_ipv4 :: "u8 \<Rightarrow> u8 \<Rightarrow> u8 \<Rightarrow> u8 \<Rightarrow> string" where
  "show_ipv4 a b c d = join_with CHR ''.'' (map (\<lambda>x. show_nat (unat x)) [a, b, c, d])"

text \<open>The longest run of zero segments, the first one among equals, as
  \<open>(length, position)\<close>.\<close>

fun zero_run :: "u16 list \<Rightarrow> nat" where
  "zero_run [] = 0"
| "zero_run (s # ss) = (if s = 0 then Suc (zero_run ss) else 0)"

fun longest_zero_run :: "nat \<Rightarrow> u16 list \<Rightarrow> nat \<times> nat" where
  "longest_zero_run pos [] = (0, pos)"
| "longest_zero_run pos (s # ss) =
     (let here = zero_run (s # ss); later = longest_zero_run (Suc pos) ss
      in if fst later \<le> here then (here, pos) else later)"

definition show_segments :: "u16 list \<Rightarrow> string" where
  "show_segments ss = join_with CHR '':'' (map (\<lambda>s. show_radix 16 (unat s)) ss)"

definition high_byte :: "u16 \<Rightarrow> u8" where
  "high_byte s = ucast (drop_bit 8 s)"

definition show_ipv6 :: "u16 list \<Rightarrow> string" where
  "show_ipv6 ss =
     (if ss = [0, 0, 0, 0, 0, 0, 0, 0] then ''::''
      else if ss = [0, 0, 0, 0, 0, 0, 0, 1] then ''::1''
      else let tail = show_ipv4 (high_byte (ss ! 6)) (ucast (ss ! 6)) (high_byte (ss ! 7)) (ucast (ss ! 7))
      in if take 6 ss = [0, 0, 0, 0, 0, 0] then ''::'' @ tail
      else if take 6 ss = [0, 0, 0, 0, 0, 65535] then ''::ffff:'' @ tail
      else let run = longest_zero_run 0 ss
      in if 1 < fst run
         then show_segments (take (snd run) ss) @ ''::'' @ show_segments (drop (fst run + snd run) ss)
         else show_segments ss)"

fun ip_to_string :: "ip_addr \<Rightarrow> string" where
  "ip_to_string (V4 a b c d) = show_ipv4 a b c d"
| "ip_to_string (V6 s0 s1 s2 s3 s4 s5 s6 s7) = show_ipv6 [s0, s1, s2, s3, s4, s5, s6, s7]"

definition parse_octet :: "string \<Rightarrow> u8 option" where
  "parse_octet s =
     (if s = [] \<or> 3 < length s \<or> list_ex (\<lambda>c. \<not> is_digit_char c) s then None
      else if 255 < digits_value s then None
      else Some (of_nat (digits_value s)))"

text \<open>\<open>IpAddr::from_str\<close> on text without a colon: only the IPv4 form can match.\<close>

definition ipv4_from_str :: "string \<Rightarrow> ip_addr option" where
  "ipv4_from_str s =
     (case map parse_octet (split_on CHR ''.'' s) of
        [Some a, Some b, Some c, Some d] \<Rightarrow> Some (V4 a b c d)
      | _ \<Rightarrow> None)"

section \<open>Splitting undoes joining\<close>

lemma split_on_not_Nil [simp]: "split_on c s \<noteq> []"
  by (cases s) (auto split: list.splits)

lemma split_on_plain: "c \<notin> set s \<Longrightarrow> split_on c s = [s]"
  by (induction s) auto

lemma split_on_append: "c \<notin> set s \<Longrightarrow> split_on c (s @ c # t) = s # split_on c t"
  by (induction s) auto

lemma split_on_join:
  "xs \<noteq> [] \<Longrightarrow> \<forall>x \<in> set xs. c \<notin> set x \<Longrightarrow> split_on c (join_with c xs) = xs"
  by (induction c xs rule: join_with.induct) (auto simp: split_on_plain split_on_append)

lemma length_split_on: "length (split_on c s) = Suc (count_list s c)"
  by (induction s) (auto split: list.splits)

lemma splitn_two_append: "c \<notin> set s \<Longrightarrow> splitn_two c (s @ c # t) = [s, t]"
  by (induction s) (auto simp: splitn_two_def)

lemma set_join_with: "set (join_with c xs) \<subseteq> insert c (\<Union> (set ` set xs))"
  by (induction c xs rule: join_with.induct) auto

section \<open>Parsing undoes printing\<close>

lemma of_char_digit: "d < 10 \<Longrightarrow> (of_char (digit_char d) :: nat) = 48 + d"
  by (simp add: digit_char_def)

lemma is_digit_digit_char [simp]: "d < 10 \<Longrightarrow> is_digit_char (digit_char d)"
  by (simp add: is_digit_char_def of_char_digit)

lemma digits_value_snoc: "digits_value (s @ [c]) = 10 * digits_value s + (of_char c - 48)"
  by (simp add: digits_value_def)

lemma show_nat_digits: "c \<in> set (show_nat n) \<Longrightarrow> is_digit_char c"
proof (induction n rule: less_induct)
  case (less n)
  have "n div 10 < n" if "\<not> n < 10"
    using that by simp
  then show ?case
    using less.IH [of "n div 10"] less.prems by (subst (asm) show_radix.simps [of 10 n]) (fastforce split: if_splits)
qed

lemma digits_value_show_nat: "digits_value (show_nat n) = n"
proof (induction n rule: less_induct)
  case (less n)
  show ?case
  proof (cases "n < 10")
    case True
    then show ?thesis
      by (simp add: show_radix.simps [of 10 n] digits_value_def of_char_digit)
  next
    case False
    then show ?thesis
      using less [of "n div 10"] of_char_digit [of "n mod 10"]
      by (simp add: show_radix.simps [of 10 n] digits_value_snoc)
  qed
qed

lemma show_nat_not_Nil [simp]: "show_radix r n \<noteq> []"
  by (subst show_radix.simps) simp

lemma length_show_nat: "n < 10 ^ k \<Longrightarrow> 0 < k \<Longrightarrow> length (show_nat n) \<le> k"
proof (induction k arbitrary: n)
  case (Suc k)
  show ?case
  proof (cases "n < 10")
    case True
    then show ?thesis by (simp add: show_radix.simps [of 10 n])
  next
    case False
    then have "0 < k" using Suc.prems by (cases k) auto
    moreover have "n div 10 < 10 ^ k" using Suc.prems by (simp add: div_less_iff_less_mult mult.commute)
    ultimately show ?thesis
      using Suc.IH [of "n div 10"] False by (simp add: show_radix.simps [of 10 n])
  qed
qed simp

lemma not_digit_chars [simp]:
  "\<not> is_digit_char CHR ''+''" "\<not> is_digit_char CHR '':''" "\<not> is_digit_char CHR '';''"
  "\<not> is_digit_char CHR ''.''" "\<not> is_digit_char CHR ''@''" "\<not> is_digit_char CHR ''_''"
  by (simp_all add: is_digit_char_def)

lemma show_nat_avoids: "\<not> is_digit_char c \<Longrightarrow> c \<notin> set (show_nat n)"
  using show_nat_digits by blast

lemma parse_unsigned_show: "n \<le> largest \<Longrightarrow> parse_unsigned largest (show_nat n) = Some n"
proof -
  assume n: "n \<le> largest"
  obtain c cs where s: "show_nat n = c # cs"
    using show_nat_not_Nil [of 10 n] by (cases "show_nat n") auto
  have "is_digit_char c"
    using show_nat_digits [of c n] s by simp
  then have "c \<noteq> CHR ''+''"
    by auto
  moreover have "\<not> list_ex (\<lambda>c. \<not> is_digit_char c) (show_nat n)"
    using show_nat_digits [of _ n] by (auto simp: list_ex_iff)
  ultimately show ?thesis
    using n digits_value_show_nat [of n] s by (simp add: parse_unsigned_def Let_def)
qed

lemma parse_u16_show [simp]: "parse_u16 (show_nat (unat p)) = Some p"
proof -
  have "unat p \<le> 65535"
    using unat_bound [of p] by simp
  then show ?thesis
    by (simp add: parse_u16_def parse_unsigned_show)
qed

lemma parse_octet_show [simp]: "parse_octet (show_nat (unat b)) = Some b"
proof -
  have "unat b < 10 ^ 3" "unat b \<le> 255"
    using unat_bound [of b] by simp_all
  then show ?thesis
    using length_show_nat [of "unat b" 3] show_nat_digits [of _ "unat b"]
    by (auto simp: parse_octet_def digits_value_show_nat list_ex_iff)
qed

lemma ipv4_from_str_show: "ipv4_from_str (show_ipv4 a b c d) = Some (V4 a b c d)"
  unfolding ipv4_from_str_def show_ipv4_def
  by (subst split_on_join) (auto simp: show_nat_avoids)

lemma show_ipv4_no_colon: "CHR '':'' \<notin> set (show_ipv4 a b c d)"
  using set_join_with [of "CHR ''.''" "map (\<lambda>x. show_nat (unat x)) [a, b, c, d]"]
  by (auto simp: show_ipv4_def show_nat_avoids)

end
