(* ===== verification/Crypto.thy ===== *)
theory Crypto
  imports TextLib
begin

text \<open>
  The cryptographic layer: the \<open>CryptDE\<close> trait with \<open>encodex\<close> and \<open>decodex\<close>
  (\<open>sub_lib/cryptde.rs\<close>) and its two implementations \<open>CryptDENull\<close>
  (\<open>sub_lib/cryptde_null.rs\<close>) and \<open>CryptDEReal\<close> (\<open>sub_lib/cryptde_real.rs\<close>).

  \<open>PublicKey\<close>, \<open>PrivateKey\<close>, \<open>PlainData\<close> and \<open>CryptData\<close> wrap a byte vector and are modelled
  by it. A \<open>dyn CryptDE\<close> is a record of functions. What comes from other crates is a parameter:
  \<open>libraries\<close> holds SHA-1, Keccak-256 and base64, \<open>sodium\<close> the libsodium primitives, and
  \<open>'a codec\<close> the serde_cbor serializer and deserializer of a type. The locale
  \<open>cryptde_family\<close> states what clients rely on (what one node seals for another's public key,
  that other node opens; signatures verify), and both implementations are instances.
\<close>

type_synonym public_key = bytes
type_synonym private_key = bytes
type_synonym plain_data = bytes
type_synonym crypt_data = bytes

datatype cryptdec_error =
    EmptyKey
  | EmptyData
  | InvalidKey string
  | InvalidSignature string
  | OpeningFailed
  | OtherCryptError string

section \<open>PlainData accessors\<close>

definition get_u8 :: "plain_data \<Rightarrow> nat \<Rightarrow> u8 option" where
  "get_u8 dat idx = (if length dat \<le> idx then None else Some (dat ! idx))"

definition get_u16 :: "plain_data \<Rightarrow> nat \<Rightarrow> u16 option" where
  "get_u16 dat idx =
     (if length dat \<le> idx + 1 then None
      else Some (push_bit 8 (ucast (dat ! idx)) OR ucast (dat ! (idx + 1))))"

definition get_u24 :: "plain_data \<Rightarrow> nat \<Rightarrow> u32 option" where
  "get_u24 dat idx =
     (if length dat \<le> idx + 2 then None
      else Some (push_bit 16 (ucast (dat ! idx)) OR push_bit 8 (ucast (dat ! (idx + 1)))
                 OR ucast (dat ! (idx + 2))))"

definition get_u32 :: "plain_data \<Rightarrow> nat \<Rightarrow> u32 option" where
  "get_u32 dat idx =
     (if length dat \<le> idx + 3 then None
      else Some (push_bit 24 (ucast (dat ! idx)) OR push_bit 16 (ucast (dat ! (idx + 1)))
                 OR push_bit 8 (ucast (dat ! (idx + 2))) OR ucast (dat ! (idx + 3))))"

section \<open>The CryptDE trait\<close>

record cryptde =
  cd_public_key :: public_key
  cd_encode :: "public_key \<Rightarrow> plain_data \<Rightarrow> cryptdec_error + crypt_data"
  cd_decode :: "crypt_data \<Rightarrow> cryptdec_error + plain_data"
  cd_random :: "nat \<Rightarrow> bytes"
  cd_sign :: "plain_data \<Rightarrow> cryptdec_error + crypt_data"
  cd_verify_signature :: "plain_data \<Rightarrow> crypt_data \<Rightarrow> public_key \<Rightarrow> bool run"
  cd_hash :: "plain_data \<Rightarrow> crypt_data"
  cd_key_to_fragment :: "public_key \<Rightarrow> string run"
  cd_fragment_to_key :: "string \<Rightarrow> string + public_key"
  cd_digest :: bytes

text \<open>serde_cbor at one type; the errors of \<open>to_vec\<close> and \<open>from_slice\<close> are their texts.\<close>

record 'a codec =
  to_vec :: "'a \<Rightarrow> string + bytes"
  from_slice :: "bytes \<Rightarrow> string + 'a"

definition codec_roundtrips :: "'a codec \<Rightarrow> 'a \<Rightarrow> bool" where
  "codec_roundtrips c x \<longleftrightarrow>
     (case to_vec c x of Inl _ \<Rightarrow> False | Inr b \<Rightarrow> b \<noteq> [] \<and> from_slice c b = Inr x)"

text \<open>A serializer may write one value and read another.\<close>

definition codec_carries :: "'a codec \<Rightarrow> 'a \<Rightarrow> 'a \<Rightarrow> bool" where
  "codec_carries c x y \<longleftrightarrow> (\<exists>b. to_vec c x = Inr b \<and> b \<noteq> [] \<and> from_slice c b = Inr y)"

lemma codec_carries_same: "codec_carries c x x = codec_roundtrips c x"
  by (auto simp: codec_carries_def codec_roundtrips_def split: sum.split)

datatype codex_error =
    SerializationError string
  | EncryptionError cryptdec_error
  | DecryptionError cryptdec_error
  | DeserializationError string

definition encodex :: "'a codec \<Rightarrow> cryptde \<Rightarrow> public_key \<Rightarrow> 'a \<Rightarrow> codex_error + crypt_data" where
  "encodex c cryptde public_key item =
     (case to_vec c item of
        Inl e \<Rightarrow> Err (SerializationError e)
      | Inr serialized \<Rightarrow>
          (case cd_encode cryptde public_key serialized of
             Inr crypt_data \<Rightarrow> Ok crypt_data
           | Inl e \<Rightarrow> Err (EncryptionError e)))"

definition decodex :: "'a codec \<Rightarrow> cryptde \<Rightarrow> crypt_data \<Rightarrow> codex_error + 'a" where
  "decodex c cryptde dat =
     (case cd_decode cryptde dat of
        Inl e \<Rightarrow> Err (DecryptionError e)
      | Inr decrypted \<Rightarrow>
          (case from_slice c decrypted of
             Inr t \<Rightarrow> Ok t
           | Inl e \<Rightarrow> Err (DeserializationError e)))"

section \<open>Digests and contract addresses\<close>

record libraries =
  sha1 :: "bytes \<Rightarrow> bytes"
  keccak256 :: "bytes \<Rightarrow> bytes"
  base64_encode :: "bytes \<Rightarrow> string"
  base64_decode :: "string \<Rightarrow> unit + bytes"

definition create_digest :: "libraries \<Rightarrow> bytes \<Rightarrow> bytes \<Rightarrow> bytes" where
  "create_digest lib msg address = keccak256 lib (msg @ address)"

definition TESTNET_CONTRACT_ADDRESS :: bytes where
  "TESTNET_CONTRACT_ADDRESS =
     [0x28, 0xf3, 0xb3, 0xc8, 0x50, 0xff, 0x22, 0xa7, 0x43, 0x4c, 0x23, 0x58, 0x2a, 0x17, 0xa5,
      0xa4, 0x43, 0xa8, 0xdc, 0x24]"

definition MULTINODE_TESTNET_CONTRACT_ADDRESS :: bytes where
  "MULTINODE_TESTNET_CONTRACT_ADDRESS =
     [0x28, 0xf3, 0xb3, 0xc8, 0x50, 0xff, 0x22, 0x58, 0x2a, 0x4c, 0x23, 0x58, 0x2a, 0x17, 0xa5,
      0x1f, 0x08, 0x4d, 0xe6, 0x3a]"

definition MAINNET_CONTRACT_ADDRESS :: bytes where
  "MAINNET_CONTRACT_ADDRESS =
     [0x28, 0xf3, 0xb3, 0xc8, 0x50, 0xff, 0x22, 0xa7, 0x43, 0x4c, 0x23, 0x58, 0x2a, 0x17, 0xa5,
      0xa4, 0x43, 0xa8, 0xdc, 0x3a]"

definition CONTRACTS :: "bytes list" where
  "CONTRACTS = [replicate 20 0, MAINNET_CONTRACT_ADDRESS, MULTINODE_TESTNET_CONTRACT_ADDRESS,
     TESTNET_CONTRACT_ADDRESS]"

definition contract_address :: "u8 \<Rightarrow> bytes" where
  "contract_address chain_id =
     (if chain_id = 1 \<or> chain_id = 2 \<or> chain_id = 3 then CONTRACTS ! unat chain_id else CONTRACTS ! 0)"

section \<open>CryptDENull\<close>

record cryptde_null =
  null_private_key :: private_key
  null_public_key :: public_key
  null_digest :: bytes

definition other_key_data :: "bytes \<Rightarrow> bytes" where
  "other_key_data in_key_data = map (\<lambda>b. b + 128) in_key_data"

definition private_from_public :: "public_key \<Rightarrow> private_key" where
  "private_from_public in_key = other_key_data in_key"

definition public_from_private :: "private_key \<Rightarrow> public_key" where
  "public_from_private in_key = other_key_data in_key"

definition debug_bytes :: "bytes \<Rightarrow> string" where
  "debug_bytes bs = ''['' @ concat (map (\<lambda>b. show_nat (unat b) @ '', '') (butlast bs)) @
     (if bs = [] then [] else show_nat (unat (last bs))) @ '']''"

definition invalid_key_message :: "bytes \<Rightarrow> crypt_data \<Rightarrow> string" where
  "invalid_key_message key_data dat =
     (let prefix_len = min (length key_data) (length dat)
      in ''Could not decrypt with '' @ debug_bytes key_data @ '' data beginning with '' @
         debug_bytes (take prefix_len dat))"

definition encode_with_key_data :: "bytes \<Rightarrow> plain_data \<Rightarrow> cryptdec_error + crypt_data" where
  "encode_with_key_data key_data dat =
     (if key_data = [] then Err EmptyKey
      else if dat = [] then Err EmptyData
      else Ok (other_key_data key_data @ dat))"

definition decode_with_key_data :: "bytes \<Rightarrow> crypt_data \<Rightarrow> cryptdec_error + plain_data" where
  "decode_with_key_data key_data dat =
     (if key_data = [] then Err EmptyKey
      else if dat = [] then Err EmptyData
      else if length dat < length key_data then Err (InvalidKey (invalid_key_message key_data dat))
      else let k = take (length key_data) dat; d = drop (length key_data) dat
      in if k \<noteq> key_data then Err (InvalidKey (invalid_key_message key_data dat)) else Ok d)"

definition null_hash :: "libraries \<Rightarrow> plain_data \<Rightarrow> crypt_data" where
  "null_hash lib dat = sha1 lib dat"

definition null_sign :: "libraries \<Rightarrow> cryptde_null \<Rightarrow> plain_data \<Rightarrow> cryptdec_error + crypt_data" where
  "null_sign lib self dat =
     (let hash = null_hash lib dat in encode_with_key_data (null_private_key self) hash)"

definition null_verify_signature :: "libraries \<Rightarrow> plain_data \<Rightarrow> crypt_data \<Rightarrow> public_key \<Rightarrow> bool" where
  "null_verify_signature lib dat signature public_key =
     (case decode_with_key_data public_key signature of
        Inl _ \<Rightarrow> False
      | Inr claimed_hash \<Rightarrow> null_hash lib dat = claimed_hash)"

definition null_fragment_to_key :: "libraries \<Rightarrow> string \<Rightarrow> string + public_key" where
  "null_fragment_to_key lib descriptor_fragment =
     (if descriptor_fragment = [] then Err ''Public key cannot be empty''
      else case base64_decode lib descriptor_fragment of
             Inr half_key \<Rightarrow> Ok half_key
           | Inl _ \<Rightarrow> Err (''Invalid Base64 value for public key: '' @ descriptor_fragment))"

definition null_random :: "nat \<Rightarrow> bytes" where
  "null_random n = replicate n 52"

text \<open>\<open>CryptDENull::new\<close> for the 32 random bytes it draws, \<open>set_key_pair\<close> and \<open>from\<close>.\<close>

definition null_new :: "libraries \<Rightarrow> bytes \<Rightarrow> u8 \<Rightarrow> cryptde_null" where
  "null_new lib private_key chain_id =
     (let public_key = public_from_private private_key
      in \<lparr> null_private_key = private_key, null_public_key = public_key,
           null_digest = create_digest lib public_key (contract_address chain_id) \<rparr>)"

definition set_key_pair :: "libraries \<Rightarrow> public_key \<Rightarrow> u8 \<Rightarrow> cryptde_null \<Rightarrow> cryptde_null" where
  "set_key_pair lib public_key chain_id self =
     self\<lparr> null_public_key := public_key,
           null_private_key := private_from_public public_key,
           null_digest := create_digest lib public_key (contract_address chain_id) \<rparr>"

definition null_from :: "libraries \<Rightarrow> bytes \<Rightarrow> public_key \<Rightarrow> u8 \<Rightarrow> cryptde_null" where
  "null_from lib random_bytes public_key chain_id =
     set_key_pair lib public_key chain_id (null_new lib random_bytes chain_id)"

definition null_cryptde :: "libraries \<Rightarrow> cryptde_null \<Rightarrow> cryptde" where
  "null_cryptde lib self =
     \<lparr> cd_public_key = null_public_key self,
       cd_encode = (\<lambda>public_key dat. encode_with_key_data public_key dat),
       cd_decode = (\<lambda>dat. decode_with_key_data (null_private_key self) dat),
       cd_random = null_random,
       cd_sign = null_sign lib self,
       cd_verify_signature = (\<lambda>dat signature public_key.
         Ok (null_verify_signature lib dat signature public_key)),
       cd_hash = null_hash lib,
       cd_key_to_fragment = (\<lambda>public_key. Ok (base64_encode lib public_key)),
       cd_fragment_to_key = null_fragment_to_key lib,
       cd_digest = null_digest self \<rparr>"

section \<open>CryptDEReal\<close>

text \<open>The libsodium primitives and the lengths its documentation fixes.\<close>

record sodium =
  seal :: "bytes \<Rightarrow> bytes \<Rightarrow> bytes"
  open_box :: "bytes \<Rightarrow> bytes \<Rightarrow> bytes \<Rightarrow> unit + bytes"
  sign_detached :: "bytes \<Rightarrow> bytes \<Rightarrow> bytes"
  verify_detached :: "bytes \<Rightarrow> bytes \<Rightarrow> bytes \<Rightarrow> bool"
  sodium_hash :: "bytes \<Rightarrow> bytes"
  randombytes :: "nat \<Rightarrow> bytes"

abbreviation CXSP_PUBLICKEYBYTES :: nat where
  "CXSP_PUBLICKEYBYTES \<equiv> 32"

abbreviation SIGNING_PUBLICKEYBYTES :: nat where
  "SIGNING_PUBLICKEYBYTES \<equiv> 32"

abbreviation SIGNATUREBYTES :: nat where
  "SIGNATUREBYTES \<equiv> 64"

abbreviation SEALBYTES :: nat where
  "SEALBYTES \<equiv> 48"

record cryptde_real =
  real_public_key :: public_key
  encryption_secret_key :: bytes
  signing_secret_key :: bytes
  real_digest :: bytes
  pre_shared_data :: bytes

definition local_public_key_from :: "bytes \<Rightarrow> bytes \<Rightarrow> public_key" where
  "local_public_key_from encryption_public_key signing_public_key =
     take CXSP_PUBLICKEYBYTES encryption_public_key @ take SIGNING_PUBLICKEYBYTES signing_public_key"

text \<open>\<open>copy_from_slice\<close> panics when the two slices differ in length, and the slice itself when
  the key is too short.\<close>

definition encryption_public_key_from :: "public_key \<Rightarrow> bytes run" where
  "encryption_public_key_from local_public_key = slice 0 CXSP_PUBLICKEYBYTES local_public_key"

definition signing_public_key_from :: "public_key \<Rightarrow> bytes run" where
  "signing_public_key_from local_public_key =
     bind_run (slice CXSP_PUBLICKEYBYTES (length local_public_key) local_public_key) (\<lambda>dat.
     if length dat = SIGNING_PUBLICKEYBYTES then Ok dat else Err ExplicitPanic)"

definition real_encode :: "sodium \<Rightarrow> public_key \<Rightarrow> plain_data \<Rightarrow> cryptdec_error + crypt_data" where
  "real_encode na key dat =
     (if length key \<noteq> CXSP_PUBLICKEYBYTES + SIGNING_PUBLICKEYBYTES
      then Err (InvalidKey (debug_bytes key))
      else case encryption_public_key_from key of
             Inr remote_public_key \<Rightarrow> Ok (seal na dat remote_public_key)
           | Inl _ \<Rightarrow> Err (InvalidKey (debug_bytes key)))"

definition real_decode :: "sodium \<Rightarrow> cryptde_real \<Rightarrow> crypt_data \<Rightarrow> cryptdec_error + plain_data" where
  "real_decode na self dat =
     (if length dat < SEALBYTES then Err EmptyData
      else case open_box na dat (take CXSP_PUBLICKEYBYTES (real_public_key self))
                  (encryption_secret_key self) of
             Inr plain \<Rightarrow> Ok plain
           | Inl _ \<Rightarrow> Err OpeningFailed)"

definition real_sign :: "sodium \<Rightarrow> cryptde_real \<Rightarrow> plain_data \<Rightarrow> cryptdec_error + crypt_data" where
  "real_sign na self dat =
     (let data_to_sign = dat @ pre_shared_data self
      in Ok (sign_detached na data_to_sign (signing_secret_key self)))"

definition real_verify_signature ::
    "sodium \<Rightarrow> cryptde_real \<Rightarrow> plain_data \<Rightarrow> crypt_data \<Rightarrow> public_key \<Rightarrow> bool run" where
  "real_verify_signature na self dat signature public_key =
     (if length signature \<noteq> SIGNATUREBYTES then Ok False
      else let data_to_verify = dat @ pre_shared_data self
      in bind_run (signing_public_key_from public_key) (\<lambda>signing_public_key.
         Ok (verify_detached na signature data_to_verify signing_public_key)))"

definition real_key_to_fragment :: "libraries \<Rightarrow> public_key \<Rightarrow> string run" where
  "real_key_to_fragment lib public_key =
     bind_run (slice 0 CXSP_PUBLICKEYBYTES public_key) (\<lambda>encryption_public_key.
     Ok (base64_encode lib encryption_public_key))"

definition real_fragment_to_key :: "libraries \<Rightarrow> string \<Rightarrow> string + public_key" where
  "real_fragment_to_key lib descriptor_fragment =
     (case base64_decode lib descriptor_fragment of
        Inl _ \<Rightarrow> Err (''Invalid Base64 value for public key: '' @ descriptor_fragment)
      | Inr encryption_public_key \<Rightarrow>
          if length encryption_public_key \<noteq> CXSP_PUBLICKEYBYTES
          then Err (''Public key must decode to '' @ show_nat CXSP_PUBLICKEYBYTES @ '' bytes, not '' @
                 show_nat (length encryption_public_key) @ '': '' @ descriptor_fragment)
          else Ok (encryption_public_key @ replicate SIGNING_PUBLICKEYBYTES 0))"

text \<open>\<open>CryptDEReal::new\<close> for the key pairs \<open>gen_keypair\<close> returns.\<close>

definition real_new :: "libraries \<Rightarrow> bytes \<times> bytes \<Rightarrow> bytes \<times> bytes \<Rightarrow> u8 \<Rightarrow> cryptde_real" where
  "real_new lib e_pair s_pair chain_id =
     (let public_key = local_public_key_from (fst e_pair) (fst s_pair)
      in \<lparr> real_public_key = public_key,
           encryption_secret_key = snd e_pair,
           signing_secret_key = snd s_pair,
           real_digest = create_digest lib public_key (contract_address chain_id),
           pre_shared_data = contract_address chain_id \<rparr>)"

definition real_cryptde :: "libraries \<Rightarrow> sodium \<Rightarrow> cryptde_real \<Rightarrow> cryptde" where
  "real_cryptde lib na self =
     \<lparr> cd_public_key = real_public_key self,
       cd_encode = real_encode na,
       cd_decode = real_decode na self,
       cd_random = randombytes na,
       cd_sign = real_sign na self,
       cd_verify_signature = real_verify_signature na self,
       cd_hash = sodium_hash na,
       cd_key_to_fragment = real_key_to_fragment lib,
       cd_fragment_to_key = real_fragment_to_key lib,
       cd_digest = real_digest self \<rparr>"

section \<open>What clients rely on\<close>

locale cryptde_family =
  fixes family :: "cryptde \<Rightarrow> bool"
  assumes sealed_opens:
      "family a \<Longrightarrow> family b \<Longrightarrow> d \<noteq> [] \<Longrightarrow>
         \<exists>c. cd_encode a (cd_public_key b) d = Ok c \<and> cd_decode b c = Ok d"
    and random_length: "family a \<Longrightarrow> length (cd_random a n) = n"
    and signature_verifies:
      "family a \<Longrightarrow> family b \<Longrightarrow> cd_sign b d = Ok s \<Longrightarrow>
         cd_verify_signature a d s (cd_public_key b) = Ok True"
    and key_not_empty: "family a \<Longrightarrow> cd_public_key a \<noteq> []"
begin

lemma encodex_decodex:
  assumes "family a" "family b" "codec_roundtrips c x"
  shows "\<exists>e. encodex c a (cd_public_key b) x = Ok e \<and> decodex c b e = Ok x"
proof -
  obtain v where v: "to_vec c x = Inr v" "v \<noteq> []" "from_slice c v = Inr x"
    using assms(3) by (auto simp: codec_roundtrips_def split: sum.splits)
  then show ?thesis
    using sealed_opens [OF assms(1, 2), of v] by (auto simp: encodex_def decodex_def)
qed

lemma encodex_decodex_eq:
  "family a \<Longrightarrow> family b \<Longrightarrow> codec_roundtrips c x \<Longrightarrow>
     encodex c a (cd_public_key b) x = Ok e \<Longrightarrow> decodex c b e = Ok x"
  using encodex_decodex by fastforce

end

definition null_keys_match :: "cryptde_null \<Rightarrow> bool" where
  "null_keys_match n \<longleftrightarrow>
     null_public_key n \<noteq> [] \<and> null_private_key n = private_from_public (null_public_key n)"

definition null_family :: "libraries \<Rightarrow> cryptde \<Rightarrow> bool" where
  "null_family lib cd \<longleftrightarrow> (\<exists>n. null_keys_match n \<and> cd = null_cryptde lib n)"

text \<open>The documented behaviour of libsodium for a key pair: sealed boxes open, detached
  signatures verify, and both have their fixed lengths.\<close>

definition box_pair :: "sodium \<Rightarrow> bytes \<times> bytes \<Rightarrow> bool" where
  "box_pair na p \<longleftrightarrow> length (fst p) = CXSP_PUBLICKEYBYTES \<and>
     (\<forall>d. open_box na (seal na d (fst p)) (fst p) (snd p) = Inr d \<and>
          length (seal na d (fst p)) = length d + SEALBYTES)"

definition sign_pair :: "sodium \<Rightarrow> bytes \<times> bytes \<Rightarrow> bool" where
  "sign_pair na p \<longleftrightarrow> length (fst p) = SIGNING_PUBLICKEYBYTES \<and>
     (\<forall>d. verify_detached na (sign_detached na d (snd p)) d (fst p) \<and>
          length (sign_detached na d (snd p)) = SIGNATUREBYTES)"

definition real_family :: "libraries \<Rightarrow> sodium \<Rightarrow> u8 \<Rightarrow> cryptde \<Rightarrow> bool" where
  "real_family lib na chain_id cd \<longleftrightarrow>
     (\<forall>n. length (randombytes na n) = n) \<and>
     (\<exists>e_pair s_pair. box_pair na e_pair \<and> sign_pair na s_pair \<and>
        cd = real_cryptde lib na (real_new lib e_pair s_pair chain_id))"

lemma other_key_involution [simp]: "other_key_data (other_key_data k) = k"
proof -
  have "b + 128 + 128 = b" for b :: u8
    by simp
  then show ?thesis
    unfolding other_key_data_def by (simp add: map_idI)
qed

lemma other_key_Nil [simp]: "other_key_data k = [] \<longleftrightarrow> k = []"
  by (simp add: other_key_data_def)

lemma length_other_key [simp]: "length (other_key_data k) = length k"
  by (simp add: other_key_data_def)

lemma null_keys_match_new:
  "private_key \<noteq> [] \<Longrightarrow> null_keys_match (null_new lib private_key chain_id)"
  by (simp add: null_keys_match_def null_new_def Let_def public_from_private_def private_from_public_def)

lemma null_keys_match_from:
  "public_key \<noteq> [] \<Longrightarrow> null_keys_match (null_from lib r public_key chain_id)"
  by (simp add: null_keys_match_def null_from_def set_key_pair_def)

interpretation null: cryptde_family "null_family lib" for lib
proof (unfold_locales, goal_cases)
  case (1 a b d)
  then show ?case
    by (auto simp: null_family_def null_cryptde_def null_keys_match_def encode_with_key_data_def
        decode_with_key_data_def private_from_public_def Let_def)
next
  case (2 a n)
  then show ?case
    by (auto simp: null_family_def null_cryptde_def null_random_def)
next
  case (3 a b d s)
  then show ?case
    by (auto simp: null_family_def null_cryptde_def null_keys_match_def null_sign_def null_hash_def
        null_verify_signature_def encode_with_key_data_def decode_with_key_data_def
        private_from_public_def Let_def split: if_splits)
next
  case (4 a)
  then show ?case
    by (auto simp: null_family_def null_cryptde_def null_keys_match_def)
qed

lemma real_public_key_parts:
  assumes "length (fst e_pair) = CXSP_PUBLICKEYBYTES" "length (fst s_pair) = SIGNING_PUBLICKEYBYTES"
  shows "real_public_key (real_new lib e_pair s_pair chain_id) = fst e_pair @ fst s_pair"
  using assms by (simp add: real_new_def local_public_key_from_def Let_def)

interpretation real: cryptde_family "real_family lib na chain_id" for lib na chain_id
proof (unfold_locales, goal_cases)
  case (1 a b d)
  then show ?case
    by (auto simp: real_family_def real_cryptde_def real_encode_def real_decode_def
        encryption_public_key_from_def slice_def real_public_key_parts box_pair_def sign_pair_def)
      (auto simp: real_new_def Let_def)
next
  case (2 a n)
  then show ?case
    by (auto simp: real_family_def real_cryptde_def)
next
  case (3 a b d s)
  then show ?case
    by (auto simp: real_family_def real_cryptde_def real_sign_def real_verify_signature_def
        signing_public_key_from_def slice_def real_public_key_parts box_pair_def sign_pair_def Let_def)
      (auto simp: real_new_def Let_def)
next
  case (4 a)
  then show ?case
    by (auto simp: real_family_def real_cryptde_def real_public_key_parts box_pair_def sign_pair_def)
qed

section \<open>Properties\<close>

text \<open>C38. Sealing an item for a node's public key: with either implementation, whatever one
  member of the network encodes for another member's public key succeeds, and that member, with
  its own keys, decodes exactly the item.\<close>

theorem sealed_for_recipient:
  assumes "family = null_family lib \<or> family = real_family lib na chain_id"
    and "family a" "family b" "codec_roundtrips c x"
  shows "\<exists>e. encodex c a (cd_public_key b) x = Ok e \<and> decodex c b e = Ok x"
  using assms null.encodex_decodex [of lib a b c x] real.encodex_decodex [of lib na chain_id a b c x]
  by blast

definition byte_codec :: "u8 codec" where
  "byte_codec = \<lparr> to_vec = (\<lambda>b. Ok [b]), from_slice = (\<lambda>v. if v = [] then Err ''eof'' else Ok (hd v)) \<rparr>"

definition example_libraries :: libraries where
  "example_libraries = \<lparr> sha1 = (\<lambda>d. [of_nat (length d)]), keccak256 = (\<lambda>d. replicate 32 0),
     base64_encode = map (\<lambda>b. char_of (unat b)), base64_decode = (\<lambda>s. Inr (map of_char s)) \<rparr>"

theorem sealed_for_recipient_witness:
  "\<exists>e. encodex byte_codec (null_cryptde example_libraries (null_new example_libraries [9, 9] 1))
        [131, 132] 7 = Ok e \<and>
       decodex byte_codec (null_cryptde example_libraries (null_new example_libraries [3, 4] 1)) e = Ok 7"
proof -
  have "null_family example_libraries (null_cryptde example_libraries (null_new example_libraries [9, 9] 1))"
    "null_family example_libraries (null_cryptde example_libraries (null_new example_libraries [3, 4] 1))"
    unfolding null_family_def using null_keys_match_new by blast+
  moreover have "codec_roundtrips byte_codec 7"
    by (simp add: codec_roundtrips_def byte_codec_def)
  moreover have "cd_public_key (null_cryptde example_libraries (null_new example_libraries [3, 4] 1)) =
      [131, 132]"
    by (simp add: null_cryptde_def null_new_def Let_def public_from_private_def other_key_data_def)
  ultimately show ?thesis
    using sealed_for_recipient [of "null_family example_libraries" example_libraries undefined undefined
        "null_cryptde example_libraries (null_new example_libraries [9, 9] 1)"
        "null_cryptde example_libraries (null_new example_libraries [3, 4] 1)" byte_codec 7]
    by simp
qed

text \<open>With \<open>CryptDENull\<close>, a message sealed for one node is refused with \<open>InvalidKey\<close> by
  every node whose key has the same length but differs.\<close>

theorem null_rejects_wrong_recipient:
  assumes "null_keys_match n" "null_keys_match m"
    and "length (null_public_key m) = length (null_public_key n)"
    and "null_public_key m \<noteq> null_public_key n" "d \<noteq> []"
  shows "\<exists>c msg. cd_encode (null_cryptde lib n) (null_public_key n) d = Ok c \<and>
           cd_decode (null_cryptde lib n) c = Ok d \<and>
           cd_decode (null_cryptde lib m) c = Err (InvalidKey msg)"
proof -
  have "other_key_data (null_public_key m) \<noteq> other_key_data (null_public_key n)"
    using assms(4) by (metis other_key_involution)
  then show ?thesis
    using assms by (auto simp: null_cryptde_def null_keys_match_def encode_with_key_data_def
        decode_with_key_data_def private_from_public_def Let_def)
qed

theorem null_rejects_wrong_recipient_witness:
  "\<exists>c msg. cd_encode (null_cryptde example_libraries (null_new example_libraries [9, 9] 1)) [137, 137] [5] = Ok c \<and>
     cd_decode (null_cryptde example_libraries (null_new example_libraries [9, 9] 1)) c = Ok [5] \<and>
     cd_decode (null_cryptde example_libraries (null_new example_libraries [3, 4] 1)) c = Err (InvalidKey msg)"
  using null_rejects_wrong_recipient [OF null_keys_match_new null_keys_match_new,
      of "[9, 9]" "[3, 4]" example_libraries 1 example_libraries 1 "[5]" example_libraries]
  by (simp add: null_new_def Let_def public_from_private_def other_key_data_def)

text \<open>\<open>CryptDEReal::verify_signature\<close> panics exactly when the signature has the right length
  and the claimed public key does not have 64 bytes; otherwise it returns a verdict. A public key
  taken from a received record is not checked before the call.\<close>

theorem real_verify_signature_panics_iff:
  "(\<exists>p. real_verify_signature na self dat signature public_key = Err p) \<longleftrightarrow>
     length signature = SIGNATUREBYTES \<and>
     length public_key \<noteq> CXSP_PUBLICKEYBYTES + SIGNING_PUBLICKEYBYTES"
  by (auto simp: real_verify_signature_def signing_public_key_from_def slice_def Let_def)

end
