(* ===== verification/Wallet.thy ===== *)
theory Wallet
  imports Crypto
begin

text \<open>
  Wallets (\<open>sub_lib/wallet.rs\<close>), key pairs (\<open>blockchain/bip32.rs\<close>), payers with their proof of
  wallet ownership (\<open>blockchain/payer.rs\<close>) and the ban cache (\<open>banned_dao.rs\<close>).

  The ethsign crate is the parameter \<open>ethsign\<close>: public key and address of a secret key, signing,
  verification and recovery of the signer. An Ethereum address is its 20 bytes. \<open>BAN_CACHE\<close> is
  the set of banned address wallets, passed explicitly.
\<close>

record signature =
  sig_v :: u8
  sig_r :: bytes
  sig_s :: bytes

record ethsign =
  eth_public :: "bytes \<Rightarrow> bytes"
  eth_address :: "bytes \<Rightarrow> bytes"
  eth_sign :: "bytes \<Rightarrow> bytes \<Rightarrow> string + signature"
  eth_verify :: "bytes \<Rightarrow> signature \<Rightarrow> bytes \<Rightarrow> string + bool"
  eth_recover :: "signature \<Rightarrow> bytes \<Rightarrow> string + bytes"

record bip32_ec_key_pair =
  kp_public :: bytes
  kp_secret :: bytes

definition key_pair_from :: "ethsign \<Rightarrow> bytes \<Rightarrow> bip32_ec_key_pair" where
  "key_pair_from eth secret = \<lparr> kp_public = eth_public eth secret, kp_secret = secret \<rparr>"

definition key_pair_address :: "ethsign \<Rightarrow> bip32_ec_key_pair \<Rightarrow> bytes" where
  "key_pair_address eth kp = eth_address eth (kp_public kp)"

definition key_pair_sign :: "ethsign \<Rightarrow> bip32_ec_key_pair \<Rightarrow> bytes \<Rightarrow> string + signature" where
  "key_pair_sign eth kp msg = eth_sign eth (kp_secret kp) msg"

definition key_pair_verify ::
    "ethsign \<Rightarrow> bip32_ec_key_pair \<Rightarrow> signature \<Rightarrow> bytes \<Rightarrow> string + bool" where
  "key_pair_verify eth kp signature msg = eth_verify eth (kp_public kp) signature msg"

definition key_pair_eq :: "bip32_ec_key_pair \<Rightarrow> bip32_ec_key_pair \<Rightarrow> bool" where
  "key_pair_eq self other \<longleftrightarrow> kp_public self = kp_public other"

datatype wallet_kind =
    Address bytes
  | KeyPair bip32_ec_key_pair
  | PublicKey bytes
  | Uninitialized

record wallet =
  kind :: wallet_kind

datatype wallet_error = InvalidAddress | WalletSignature string

fun wallet_kind_eq :: "wallet_kind \<Rightarrow> wallet_kind \<Rightarrow> bool" where
  "wallet_kind_eq (Address a) (Address b) = (a = b)"
| "wallet_kind_eq (KeyPair a) (KeyPair b) = key_pair_eq a b"
| "wallet_kind_eq (PublicKey a) (PublicKey b) = (a = b)"
| "wallet_kind_eq Uninitialized Uninitialized = True"
| "wallet_kind_eq _ _ = False"

definition wallet_eq :: "wallet \<Rightarrow> wallet \<Rightarrow> bool" where
  "wallet_eq self other = wallet_kind_eq (kind self) (kind other)"

definition wallet_from_address :: "bytes \<Rightarrow> wallet" where
  "wallet_from_address address = \<lparr> kind = Address address \<rparr>"

definition wallet_from_key_pair :: "bip32_ec_key_pair \<Rightarrow> wallet" where
  "wallet_from_key_pair keypair = \<lparr> kind = KeyPair keypair \<rparr>"

text \<open>\<open>Wallet::from(H256)\<close>: the last 20 of 32 bytes.\<close>

definition wallet_from_h256 :: "bytes \<Rightarrow> wallet run" where
  "wallet_from_h256 address =
     bind_run (slice 12 32 address) (\<lambda>addr. Ok \<lparr> kind = Address addr \<rparr>)"

definition wallet_address :: "ethsign \<Rightarrow> wallet \<Rightarrow> bytes run" where
  "wallet_address eth self =
     (case kind self of
        Address address \<Rightarrow> Ok address
      | PublicKey public \<Rightarrow> Ok (eth_address eth public)
      | KeyPair key_pair \<Rightarrow> Ok (key_pair_address eth key_pair)
      | Uninitialized \<Rightarrow> Err ExplicitPanic)"

definition as_address_wallet :: "ethsign \<Rightarrow> wallet \<Rightarrow> wallet run" where
  "as_address_wallet eth self =
     bind_run (wallet_address eth self) (\<lambda>address. Ok (wallet_from_address address))"

definition wallet_sign :: "ethsign \<Rightarrow> wallet \<Rightarrow> bytes \<Rightarrow> wallet_error + signature" where
  "wallet_sign eth self msg =
     (case kind self of
        KeyPair key_pair \<Rightarrow>
          (case key_pair_sign eth key_pair msg of
             Inr s \<Rightarrow> Ok s
           | Inl e \<Rightarrow> Err (WalletSignature e))
      | _ \<Rightarrow> Err (WalletSignature ''Cannot sign with non-keypair wallet''))"

definition wallet_verify :: "ethsign \<Rightarrow> wallet \<Rightarrow> signature \<Rightarrow> bytes \<Rightarrow> bool run" where
  "wallet_verify eth self signature msg =
     (case kind self of
        KeyPair key_pair \<Rightarrow>
          (case key_pair_verify eth key_pair signature msg of
             Inr result \<Rightarrow> Ok result
           | Inl _ \<Rightarrow> Ok False)
      | _ \<Rightarrow> Err ExplicitPanic)"

definition congruent :: "ethsign \<Rightarrow> wallet \<Rightarrow> wallet \<Rightarrow> bool run" where
  "congruent eth self other =
     (if wallet_kind_eq (kind self) (kind other) then Ok True
      else if \<not> wallet_kind_eq (kind self) Uninitialized \<and> \<not> wallet_kind_eq (kind other) Uninitialized
      then bind_run (wallet_address eth self) (\<lambda>a.
           bind_run (wallet_address eth other) (\<lambda>b. Ok (a = b)))
      else Ok False)"

section \<open>Serialization\<close>

text \<open>\<open>Serialize\<close> and \<open>Deserialize\<close> of a wallet in a binary format: a structure with the single field
  \<open>address\<close>. Reading it gives an address wallet whatever wallet was written; a field of another
  length than 20 bytes panics in \<open>copy_from_slice\<close>.\<close>

definition wallet_serialize :: "ethsign \<Rightarrow> wallet \<Rightarrow> (string \<times> bytes) list run" where
  "wallet_serialize eth self =
     bind_run (wallet_address eth self) (\<lambda>address. Ok [(''address'', address)])"

fun wallet_visit_map :: "(string \<times> bytes) list \<Rightarrow> bytes option \<Rightarrow> (string + wallet) run" where
  "wallet_visit_map [] possible_address =
     (case possible_address of
        Some address \<Rightarrow> Ok (Ok \<lparr> kind = Address address \<rparr>)
      | None \<Rightarrow> Ok (Err ''missing field address''))"
| "wallet_visit_map ((key, data) # rest) possible_address =
     (if key = ''address''
      then (if possible_address \<noteq> None then Ok (Err ''duplicate field address'')
            else if length data \<noteq> 20 then Err SliceOutOfRange
            else wallet_visit_map rest (Some data))
      else wallet_visit_map rest possible_address)"

definition wallet_on_wire :: "ethsign \<Rightarrow> wallet \<Rightarrow> (string + wallet) run" where
  "wallet_on_wire eth self = bind_run (wallet_serialize eth self) (\<lambda>m. wallet_visit_map m None)"

lemma wallet_on_wire_simps:
  "wallet_address eth w = Inl e \<Longrightarrow> wallet_on_wire eth w = Inl e"
  "wallet_address eth w = Inr a \<Longrightarrow> length a = 20 \<Longrightarrow> wallet_on_wire eth w = Inr (Inr (wallet_from_address a))"
  "wallet_address eth w = Inr a \<Longrightarrow> length a \<noteq> 20 \<Longrightarrow> wallet_on_wire eth w = Inl SliceOutOfRange"
  by (simp_all add: wallet_on_wire_def wallet_serialize_def wallet_from_address_def)

section \<open>Payers\<close>

record payer =
  payer_wallet :: wallet
  payer_proof :: signature

definition new_payer :: "ethsign \<Rightarrow> wallet \<Rightarrow> signature \<Rightarrow> payer run" where
  "new_payer eth wallet proof' =
     bind_run (as_address_wallet eth wallet) (\<lambda>w.
     Ok \<lparr> payer_wallet = w,
          payer_proof = \<lparr> sig_v = sig_v proof', sig_r = sig_r proof', sig_s = sig_s proof' \<rparr> \<rparr>)"

definition as_payer :: "libraries \<Rightarrow> ethsign \<Rightarrow> wallet \<Rightarrow> bytes \<Rightarrow> bytes \<Rightarrow> payer run" where
  "as_payer lib eth self public_key contract =
     (case wallet_sign eth self (create_digest lib public_key contract) of
        Inr proof' \<Rightarrow> new_payer eth self proof'
      | Inl e \<Rightarrow> Err ExplicitPanic)"

definition owns_secret_key :: "ethsign \<Rightarrow> payer \<Rightarrow> bytes \<Rightarrow> bool run" where
  "owns_secret_key eth self digest =
     (case eth_recover eth (payer_proof self) digest of
        Inr payer_public_key \<Rightarrow>
          (case eth_verify eth payer_public_key (payer_proof self) digest of
             Inr result \<Rightarrow>
               (if \<not> result then Ok False
                else bind_run (wallet_address eth (payer_wallet self)) (\<lambda>address.
                     Ok (eth_address eth payer_public_key = address)))
           | Inl _ \<Rightarrow> Ok False)
      | Inl _ \<Rightarrow> Ok False)"

section \<open>The ban cache\<close>

type_synonym banned_cache = "wallet list"

definition ban_insert :: "ethsign \<Rightarrow> wallet \<Rightarrow> banned_cache \<Rightarrow> banned_cache run" where
  "ban_insert eth wallet cache =
     bind_run (as_address_wallet eth wallet) (\<lambda>w. Ok (List.insert w cache))"

definition ban_remove :: "ethsign \<Rightarrow> wallet \<Rightarrow> banned_cache \<Rightarrow> banned_cache run" where
  "ban_remove eth wallet cache =
     bind_run (as_address_wallet eth wallet) (\<lambda>w. Ok (removeAll w cache))"

definition is_banned :: "ethsign \<Rightarrow> banned_cache \<Rightarrow> wallet \<Rightarrow> bool run" where
  "is_banned eth cache wallet =
     bind_run (as_address_wallet eth wallet) (\<lambda>w. Ok (List.member cache w))"

definition is_delinquent :: "ethsign \<Rightarrow> banned_cache \<Rightarrow> payer \<Rightarrow> bool run" where
  "is_delinquent eth cache self = is_banned eth cache (payer_wallet self)"

section \<open>Lemmas\<close>

text \<open>The documented behaviour of ethsign for one secret key and message.\<close>

definition signs_recoverably :: "ethsign \<Rightarrow> bytes \<Rightarrow> bytes \<Rightarrow> bool" where
  "signs_recoverably eth secret msg \<longleftrightarrow>
     (case eth_sign eth secret msg of
        Inl _ \<Rightarrow> False
      | Inr s \<Rightarrow> eth_recover eth s msg = Inr (eth_public eth secret) \<and>
          eth_verify eth (eth_public eth secret) s msg = Inr True)"

definition example_ethsign :: ethsign where
  "example_ethsign =
     \<lparr> eth_public = rev, eth_address = (\<lambda>p. take 20 p),
       eth_sign = (\<lambda>secret msg. Inr \<lparr> sig_v = 0, sig_r = rev secret, sig_s = msg \<rparr>),
       eth_verify = (\<lambda>p s msg. Inr (sig_r s = p \<and> sig_s s = msg)),
       eth_recover = (\<lambda>s msg. Inr (sig_r s)) \<rparr>"

lemma example_ethsign_recoverable: "signs_recoverably example_ethsign secret msg"
  by (simp add: signs_recoverably_def example_ethsign_def)

lemma wallet_address_simps [simp]:
  "wallet_address eth \<lparr> kind = Address a \<rparr> = Ok a"
  "wallet_address eth \<lparr> kind = KeyPair kp \<rparr> = Ok (eth_address eth (kp_public kp))"
  "wallet_address eth \<lparr> kind = PublicKey p \<rparr> = Ok (eth_address eth p)"
  "wallet_address eth \<lparr> kind = Uninitialized \<rparr> = Err ExplicitPanic"
  by (simp_all add: wallet_address_def key_pair_address_def)

lemma wallet_cases:
  obtains a where "w = \<lparr> kind = Address a \<rparr>" | kp where "w = \<lparr> kind = KeyPair kp \<rparr>"
  | p where "w = \<lparr> kind = PublicKey p \<rparr>" | "w = \<lparr> kind = Uninitialized \<rparr>"
  by (metis old.unit.exhaust wallet.surjective wallet_kind.exhaust)

lemma congruent_address:
  "congruent eth v w = Ok (wallet_address eth v = wallet_address eth w)"
  by (cases v rule: wallet_cases; cases w rule: wallet_cases)
     (auto simp: congruent_def key_pair_eq_def)

text \<open>Two wallets are congruent exactly when they have the same address, whatever form they
  are held in (address, public key or key pair), an uninitialized wallet being congruent to
  uninitialized wallets only; the test never panics and is an equivalence.\<close>

theorem congruent_equivalence:
  "congruent eth v w = Ok (wallet_address eth v = wallet_address eth w) \<and>
   congruent eth w w = Ok True \<and>
   congruent eth v w = congruent eth w v \<and>
   (congruent eth u v = Ok True \<and> congruent eth v w = Ok True \<longrightarrow> congruent eth u w = Ok True)"
  by (auto simp: congruent_address)

theorem congruent_equivalence_witness:
  "congruent example_ethsign \<lparr> kind = PublicKey [1] \<rparr> \<lparr> kind = Address [1] \<rparr> = Ok True"
  using congruent_equivalence [of example_ethsign "\<lparr> kind = PublicKey [1] \<rparr>"
      "\<lparr> kind = Address [1] \<rparr>" "\<lparr> kind = Address [1] \<rparr>"]
  by (simp add: example_ethsign_def)

lemma signature_copy [simp]: "\<lparr> sig_v = sig_v s, sig_r = sig_r s, sig_s = sig_s s \<rparr> = s"
  by simp

lemma as_payer_key_pair:
  assumes "signs_recoverably eth secret (create_digest lib key contract)"
  shows "\<exists>p. as_payer lib eth (wallet_from_key_pair (key_pair_from eth secret)) key contract = Ok p \<and>
    payer_wallet p = wallet_from_address (eth_address eth (eth_public eth secret)) \<and>
    owns_secret_key eth p (create_digest lib key contract) = Ok True"
  using assms
  by (auto simp: signs_recoverably_def as_payer_def wallet_sign_def wallet_from_key_pair_def
      key_pair_from_def key_pair_sign_def new_payer_def as_address_wallet_def owns_secret_key_def
      wallet_from_address_def split: sum.splits)

text \<open>A payer made from a key-pair wallet for a node's key proves ownership of that wallet to
  the node: \<open>as_payer\<close> does not panic, the payer holds only the wallet's address, and
  \<open>owns_secret_key\<close> accepts it for the digest of that node and contract.\<close>

theorem payer_proves_ownership:
  assumes "signs_recoverably eth secret (create_digest lib key contract)"
  shows "\<exists>p. as_payer lib eth (wallet_from_key_pair (key_pair_from eth secret)) key contract = Ok p \<and>
    payer_wallet p = wallet_from_address (eth_address eth (eth_public eth secret)) \<and>
    owns_secret_key eth p (create_digest lib key contract) = Ok True"
  using assms by (rule as_payer_key_pair)

theorem payer_proves_ownership_witness:
  "\<exists>p. as_payer example_libraries example_ethsign
         (wallet_from_key_pair (key_pair_from example_ethsign [1, 2])) [7] [8] = Ok p \<and>
       payer_wallet p = wallet_from_address [2, 1] \<and>
       owns_secret_key example_ethsign p (create_digest example_libraries [7] [8]) = Ok True"
  using payer_proves_ownership [of example_ethsign "[1, 2]" example_libraries "[7]" "[8]",
      OF example_ethsign_recoverable]
  by (simp add: example_ethsign_def)

lemma as_address_wallet_Ok:
  "as_address_wallet eth w = Ok v \<longleftrightarrow> (\<exists>a. wallet_address eth w = Ok a \<and> v = wallet_from_address a)"
  by (auto simp: as_address_wallet_def bind_run_eq_Inr)

text \<open>A ban follows the wallet's address: after a wallet is banned, exactly the wallets with
  its address and those banned before count as banned, and lifting the ban undoes it, whichever
  representation of the wallet is used to ask.\<close>

theorem ban_by_address:
  assumes "wallet_address eth banned = Ok a" "wallet_address eth w = Ok b"
  shows "\<exists>cache' cache''. ban_insert eth banned cache = Ok cache' \<and>
    is_banned eth cache' w = bind_run (is_banned eth cache w) (\<lambda>before. Ok (a = b \<or> before)) \<and>
    ban_remove eth banned cache' = Ok cache'' \<and>
    is_banned eth cache'' w = bind_run (is_banned eth cache w) (\<lambda>before. Ok (a \<noteq> b \<and> before))"
  using assms
  by (auto simp: ban_insert_def ban_remove_def is_banned_def as_address_wallet_def
      wallet_from_address_def)

theorem ban_by_address_witness:
  "\<exists>cache' cache''. ban_insert example_ethsign \<lparr> kind = Address [2, 1] \<rparr> [] = Ok cache' \<and>
    is_banned example_ethsign cache' \<lparr> kind = PublicKey [2, 1] \<rparr> = Ok True \<and>
    ban_remove example_ethsign \<lparr> kind = Address [2, 1] \<rparr> cache' = Ok cache'' \<and>
    is_banned example_ethsign cache'' \<lparr> kind = PublicKey [2, 1] \<rparr> = Ok False"
  using ban_by_address [of example_ethsign "\<lparr> kind = Address [2, 1] \<rparr>" "[2, 1]"
      "\<lparr> kind = PublicKey [2, 1] \<rparr>" "[2, 1]" "[]"]
  by (simp add: example_ethsign_def is_banned_def as_address_wallet_def)

end
