(* ===== verification/NodeTypes.thy ===== *)
theory NodeTypes
  imports Wallet Utils
begin

text \<open>
  The data the node's components exchange: \<open>DataVersion\<close> (\<open>sub_lib/data_version.rs\<close>),
  \<open>NodeAddr\<close> (\<open>sub_lib/node_addr.rs\<close>), \<open>RatePack\<close>, \<open>NeighborhoodMode\<close>, \<open>NodeDescriptor\<close> and
  the expected services of a route (\<open>sub_lib/neighborhood.rs\<close>), \<open>Component\<close>, \<open>Endpoint\<close> and
  \<open>InboundClientData\<close> (\<open>sub_lib/dispatcher.rs\<close>). Error texts that only echo their input are
  constructors carrying that input.
\<close>

section \<open>DataVersion\<close>

datatype data_version = DataVersion u8 u8 u8

datatype data_version_error = MajorOutOfBounds | MinorOutOfBounds | UnableToParseDataVersion

definition data_version_new :: "u16 \<Rightarrow> u16 \<Rightarrow> data_version_error + data_version" where
  "data_version_new major minor =
     (if 4096 \<le> major then Err MajorOutOfBounds
      else if 4096 \<le> minor then Err MinorOutOfBounds
      else let a = drop_bit 4 (major AND 0xFF0);
               b = push_bit 4 (major AND 0x0F) OR drop_bit 8 (minor AND 0xF00);
               c = minor AND 0xFF
      in Ok (DataVersion (ucast a) (ucast b) (ucast c)))"

fun dv_major :: "data_version \<Rightarrow> u16" where
  "dv_major (DataVersion a b c) = push_bit 4 (ucast a) OR drop_bit 4 (ucast b AND 0xF0)"

fun dv_minor :: "data_version \<Rightarrow> u16" where
  "dv_minor (DataVersion a b c) = push_bit 8 (ucast b AND 0x0F) OR ucast c"

definition data_version_to_string :: "data_version \<Rightarrow> string" where
  "data_version_to_string v = show_nat (unat (dv_major v)) @ CHR ''.'' # show_nat (unat (dv_minor v))"

definition data_version_from_str :: "string \<Rightarrow> data_version_error + data_version" where
  "data_version_from_str value =
     (let parts = split_on CHR ''.'' value
      in if length parts = 2
         then (case parse_u16 (parts ! 0) of
                 None \<Rightarrow> Err UnableToParseDataVersion
               | Some major \<Rightarrow>
                   (case parse_u16 (parts ! 1) of
                      None \<Rightarrow> Err UnableToParseDataVersion
                    | Some minor \<Rightarrow> data_version_new major minor))
         else Err UnableToParseDataVersion)"

section \<open>NodeAddr\<close>

definition LOWEST_USABLE_INSECURE_PORT :: u16 where
  "LOWEST_USABLE_INSECURE_PORT = 1025"

record node_addr =
  na_ip_addr :: ip_addr
  na_ports :: "u16 list"

definition node_addr_new :: "ip_addr \<Rightarrow> u16 list \<Rightarrow> node_addr" where
  "node_addr_new ip_addr ports = \<lparr> na_ip_addr = ip_addr, na_ports = remdups_adj (sort ports) \<rparr>"

definition node_addr_from_socket_addr :: "socket_addr \<Rightarrow> node_addr" where
  "node_addr_from_socket_addr socket_addr = node_addr_new (ip socket_addr) [port socket_addr]"

definition node_addr_into_sockets :: "node_addr \<Rightarrow> socket_addr list" where
  "node_addr_into_sockets self = map (\<lambda>p. \<lparr> ip = na_ip_addr self, port = p \<rparr>) (na_ports self)"

definition node_addr_into_socket :: "node_addr \<Rightarrow> socket_addr run" where
  "node_addr_into_socket self = index (node_addr_into_sockets self) 0"

definition node_addr_clone :: "node_addr \<Rightarrow> node_addr" where
  "node_addr_clone self = node_addr_new (na_ip_addr self) (na_ports self)"

definition node_addr_to_string :: "node_addr \<Rightarrow> string" where
  "node_addr_to_string self =
     ip_to_string (na_ip_addr self) @ CHR '':'' #
     join_with CHR '';'' (map (\<lambda>p. show_nat (unat p)) (na_ports self))"

datatype node_addr_error =
    BadNodeAddrShape string
  | BadIpAddress string
  | BadPort string

definition parse_port :: "string \<Rightarrow> node_addr_error + u16" where
  "parse_port s =
     (case parse_u16 s of
        None \<Rightarrow> Err (BadPort s)
      | Some p \<Rightarrow> if p < LOWEST_USABLE_INSECURE_PORT then Err (BadPort s) else Ok p)"

definition add_parsed_port ::
    "(node_addr_error + u16 list) \<Rightarrow> (node_addr_error + u16) \<Rightarrow> node_addr_error + u16 list" where
  "add_parsed_port so_far parse_result =
     (case (so_far, parse_result) of
        (Inl e, _) \<Rightarrow> Err e
      | (Inr _, Inl e) \<Rightarrow> Err e
      | (Inr ports, Inr p) \<Rightarrow> Ok (plus ports p))"

definition node_addr_from_str :: "string \<Rightarrow> node_addr_error + node_addr" where
  "node_addr_from_str input =
     (let pieces = split_on CHR '':'' input
      in if length pieces \<noteq> 2 then Err (BadNodeAddrShape input)
         else case ipv4_from_str (pieces ! 0) of
                None \<Rightarrow> Err (BadIpAddress (pieces ! 0))
              | Some ip_addr \<Rightarrow>
                  (case foldl add_parsed_port (Ok [])
                          (map parse_port (split_on CHR '';'' (pieces ! 1))) of
                     Inr ports \<Rightarrow> Ok (node_addr_new ip_addr ports)
                   | Inl msg \<Rightarrow> Err msg))"

section \<open>Rates and modes\<close>

record rate_pack =
  routing_byte_rate :: u64
  routing_service_rate :: u64
  exit_byte_rate :: u64
  exit_service_rate :: u64

definition DEFAULT_RATE_PACK :: rate_pack where
  "DEFAULT_RATE_PACK = \<lparr> routing_byte_rate = 100, routing_service_rate = 10000,
     exit_byte_rate = 101, exit_service_rate = 10001 \<rparr>"

definition ZERO_RATE_PACK :: rate_pack where
  "ZERO_RATE_PACK = \<lparr> routing_byte_rate = 0, routing_service_rate = 0,
     exit_byte_rate = 0, exit_service_rate = 0 \<rparr>"

datatype neighborhood_mode =
    Standard node_addr "string list" rate_pack
  | ZeroHop
  | OriginateOnly "string list" rate_pack
  | ConsumeOnly "string list"

definition is_decentralized :: "neighborhood_mode \<Rightarrow> bool" where
  "is_decentralized mode \<longleftrightarrow> mode \<noteq> ZeroHop"

fun neighbor_configs :: "neighborhood_mode \<Rightarrow> string list" where
  "neighbor_configs (Standard _ configs _) = configs"
| "neighbor_configs ZeroHop = []"
| "neighbor_configs (OriginateOnly configs _) = configs"
| "neighbor_configs (ConsumeOnly configs) = configs"

fun mode_node_addr_opt :: "neighborhood_mode \<Rightarrow> node_addr option" where
  "mode_node_addr_opt (Standard node_addr _ _) = Some (node_addr_clone node_addr)"
| "mode_node_addr_opt _ = None"

fun mode_rate_pack :: "neighborhood_mode \<Rightarrow> rate_pack" where
  "mode_rate_pack (Standard _ _ rate_pack) = rate_pack"
| "mode_rate_pack (OriginateOnly _ rate_pack) = rate_pack"
| "mode_rate_pack _ = ZERO_RATE_PACK"

fun mode_accepts_connections :: "neighborhood_mode \<Rightarrow> bool" where
  "mode_accepts_connections (Standard _ _ _) = True"
| "mode_accepts_connections _ = False"

fun mode_routes_data :: "neighborhood_mode \<Rightarrow> bool" where
  "mode_routes_data (Standard _ _ _) = True"
| "mode_routes_data (OriginateOnly _ _) = True"
| "mode_routes_data _ = False"

fun is_standard :: "neighborhood_mode \<Rightarrow> bool" where
  "is_standard (Standard _ _ _) = True"
| "is_standard _ = False"

fun is_originate_only :: "neighborhood_mode \<Rightarrow> bool" where
  "is_originate_only (OriginateOnly _ _) = True"
| "is_originate_only _ = False"

fun is_consume_only :: "neighborhood_mode \<Rightarrow> bool" where
  "is_consume_only (ConsumeOnly _) = True"
| "is_consume_only _ = False"

fun is_zero_hop :: "neighborhood_mode \<Rightarrow> bool" where
  "is_zero_hop ZeroHop = True"
| "is_zero_hop _ = False"

section \<open>NodeDescriptor\<close>

record node_descriptor =
  nd_public_key :: public_key
  nd_node_addr_opt :: "node_addr option"

definition node_descriptor_from_str ::
    "cryptde \<Rightarrow> string \<Rightarrow> u8 \<Rightarrow> (string + node_descriptor) run" where
  "node_descriptor_from_str cryptde s chain_id =
     bind_run (node_descriptor_delimiter chain_id) (\<lambda>delimiter.
     let pieces = splitn_two delimiter s
     in Ok (if length pieces \<noteq> 2 then Err s
        else case cd_fragment_to_key cryptde (pieces ! 0) of
               Inl e \<Rightarrow> Err e
             | Inr public_key \<Rightarrow>
                 if pieces ! 1 = '':''
                 then Ok \<lparr> nd_public_key = public_key, nd_node_addr_opt = None \<rparr>
                 else case node_addr_from_str (pieces ! 1) of
                        Inl _ \<Rightarrow> Err s
                      | Inr node_addr \<Rightarrow>
                          Ok \<lparr> nd_public_key = public_key, nd_node_addr_opt = Some node_addr \<rparr>))"

definition node_descriptor_to_string :: "cryptde \<Rightarrow> node_descriptor \<Rightarrow> u8 \<Rightarrow> string run" where
  "node_descriptor_to_string cryptde self chain_id =
     bind_run (cd_key_to_fragment cryptde (nd_public_key self)) (\<lambda>contact_public_key_string.
     let node_addr_string = (case nd_node_addr_opt self of
           Some node_addr \<Rightarrow> node_addr_to_string node_addr
         | None \<Rightarrow> '':'')
     in bind_run (node_descriptor_delimiter chain_id) (\<lambda>delimiter.
        Ok (contact_public_key_string @ [delimiter] @ node_addr_string)))"

section \<open>Components, endpoints and inbound data\<close>

datatype component = Neighborhood | Hopper | ProxyServer | ProxyClient

fun serialize_component :: "component \<Rightarrow> u8" where
  "serialize_component Neighborhood = 0"
| "serialize_component Hopper = 1"
| "serialize_component ProxyServer = 2"
| "serialize_component ProxyClient = 3"

definition component_visit_u8 :: "u8 \<Rightarrow> string + component" where
  "component_visit_u8 v =
     (if v = 0 then Ok Neighborhood else if v = 1 then Ok Hopper
      else if v = 2 then Ok ProxyServer else if v = 3 then Ok ProxyClient
      else Err ''invalid value'')"

datatype endpoint = Key public_key | Socket socket_addr

record inbound_client_data =
  ibcd_peer_addr :: socket_addr
  reception_port :: "u16 option"
  ibcd_last_data :: bool
  is_clandestine :: bool
  ibcd_sequence_number :: "u64 option"
  ibcd_data :: bytes

definition clone_but_data :: "inbound_client_data \<Rightarrow> inbound_client_data" where
  "clone_but_data self = self\<lparr> ibcd_data := [] \<rparr>"

section \<open>Services expected of a route\<close>

datatype expected_service =
    Routing public_key wallet rate_pack
  | Exit public_key wallet rate_pack
  | Nothing

datatype expected_services =
    OneWay "expected_service list"
  | RoundTrip "expected_service list" "expected_service list" u32

section \<open>DataVersion: packing\<close>

lemma small_version_bits: "(w :: u16) < 4096 \<Longrightarrow> 12 \<le> n \<Longrightarrow> \<not> bit w n"
proof -
  assume w: "w < 4096" and n: "12 \<le> n"
  have "unat w < 2 ^ 12"
    using w by (simp add: word_less_nat_alt)
  then have "take_bit 12 (unat w) = unat w"
    by (simp add: take_bit_nat_eq_self)
  then have "\<not> bit (unat w) n"
    using n by (metis bit_take_bit_iff not_less)
  then show ?thesis
    by (simp add: bit_unsigned_iff)
qed

lemma u16_eqI:
  fixes v w :: u16
  assumes "\<And>n. n \<in> {0, 1, 2, 3, 4, 5, 6, 7, 8, 9, 10, 11, 12, 13, 14, 15} \<Longrightarrow> bit v n \<longleftrightarrow> bit w n"
  shows "v = w"
proof (rule bit_word_eqI)
  fix n
  assume "n < LENGTH(16)"
  then have "n \<in> {0, 1, 2, 3, 4, 5, 6, 7, 8, 9, 10, 11, 12, 13, 14, 15}"
    by (simp) presburger
  then show "bit v n \<longleftrightarrow> bit w n"
    by (rule assms)
qed

lemma dv_major_new:
  assumes "major < 4096" "minor < 4096" "data_version_new major minor = Ok v"
  shows "dv_major v = major"
proof -
  have "dv_major v = push_bit 4 (ucast (ucast (drop_bit 4 (major AND 0xFF0)) :: u8)) OR
      drop_bit 4 (ucast (ucast (push_bit 4 (major AND 0x0F) OR drop_bit 8 (minor AND 0xF00)) :: u8) AND 0xF0)"
    using assms by (auto simp: data_version_new_def Let_def split: if_splits)
  also have "\<dots> = major"
  proof (rule u16_eqI, goal_cases)
    case (1 n)
    then show ?case
      using small_version_bits [OF assms(1), of n] small_version_bits [OF assms(2), of n]
      by (elim insertE emptyE) (simp_all add: bit_simps)
  qed
  finally show ?thesis .
qed

lemma dv_minor_new:
  assumes "major < 4096" "minor < 4096" "data_version_new major minor = Ok v"
  shows "dv_minor v = minor"
proof -
  have "dv_minor v =
      push_bit 8 (ucast (ucast (push_bit 4 (major AND 0x0F) OR drop_bit 8 (minor AND 0xF00)) :: u8) AND 0x0F) OR
      ucast (ucast (minor AND 0xFF) :: u8)"
    using assms by (auto simp: data_version_new_def Let_def split: if_splits)
  also have "\<dots> = minor"
  proof (rule u16_eqI, goal_cases)
    case (1 n)
    then show ?case
      using small_version_bits [OF assms(1), of n] small_version_bits [OF assms(2), of n]
      by (elim insertE emptyE) (simp_all add: bit_simps)
  qed
  finally show ?thesis .
qed


lemma data_version_text:
  assumes "data_version_new major minor = Ok v"
  shows "data_version_from_str (data_version_to_string v) = Ok v"
proof -
  have bounds: "major < 4096" "minor < 4096"
    using assms by (auto simp: data_version_new_def Let_def not_le split: if_splits)
  have "split_on CHR ''.'' (data_version_to_string v) =
      [show_nat (unat (dv_major v)), show_nat (unat (dv_minor v))]"
    by (simp add: data_version_to_string_def split_on_append split_on_plain show_nat_avoids)
  then show ?thesis
    using dv_major_new [OF bounds assms] dv_minor_new [OF bounds assms] assms
    by (simp add: data_version_from_str_def Let_def)
qed

text \<open>\<open>DataVersion\<close>: packing succeeds exactly for major and minor numbers below 4096 and
  reports the first one out of bounds otherwise; the packed value gives both numbers back and
  its text form parses to it.\<close>

theorem data_version_roundtrip:
  "case data_version_new major minor of
     Inr v \<Rightarrow> major < 4096 \<and> minor < 4096 \<and> dv_major v = major \<and> dv_minor v = minor \<and>
       data_version_from_str (data_version_to_string v) = Ok v
   | Inl e \<Rightarrow> (4096 \<le> major \<and> e = MajorOutOfBounds) \<or>
       (major < 4096 \<and> 4096 \<le> minor \<and> e = MinorOutOfBounds)"
proof (cases "data_version_new major minor")
  case (Inl e)
  then show ?thesis
    by (auto simp: data_version_new_def Let_def not_le split: if_splits)
next
  case (Inr v)
  then have "major < 4096" "minor < 4096"
    by (auto simp: data_version_new_def Let_def not_le split: if_splits)
  with Inr show ?thesis
    using dv_major_new dv_minor_new data_version_text by simp
qed

section \<open>NodeAddr: normal form and text\<close>

definition node_addr_normal :: "node_addr \<Rightarrow> bool" where
  "node_addr_normal a \<longleftrightarrow> sorted (na_ports a) \<and> distinct (na_ports a)"

lemma distinct_remdups_adj_sorted: "sorted (xs :: 'a::linorder list) \<Longrightarrow> distinct (remdups_adj xs)"
proof (induction xs rule: remdups_adj.induct)
  case (3 x y xs)
  then show ?case
    by (cases "x = y") (auto simp: order.antisym)
qed simp_all

lemma sorted_remdups_adj_sorted: "sorted (xs :: 'a::linorder list) \<Longrightarrow> sorted (remdups_adj xs)"
  by (induction xs rule: remdups_adj.induct) auto

lemma node_addr_new_normal [simp]: "node_addr_normal (node_addr_new i ps)"
  by (simp add: node_addr_normal_def node_addr_new_def distinct_remdups_adj_sorted
      sorted_remdups_adj_sorted)

lemma node_addr_new_self:
  "node_addr_normal a \<Longrightarrow> node_addr_new (na_ip_addr a) (na_ports a) = a"
  by (cases a) (simp add: node_addr_normal_def node_addr_new_def sorted_sort_id remdups_adj_distinct)

lemma node_addr_clone_self [simp]: "node_addr_normal a \<Longrightarrow> node_addr_clone a = a"
  by (simp add: node_addr_clone_def node_addr_new_self)

lemma node_addr_clone_normal [simp]: "node_addr_normal (node_addr_clone a)"
  by (simp add: node_addr_clone_def)

lemma na_ip_addr_clone [simp]: "na_ip_addr (node_addr_clone a) = na_ip_addr a"
  by (simp add: node_addr_clone_def node_addr_new_def)

lemma na_ports_clone_Nil [simp]: "na_ports (node_addr_clone a) = [] \<longleftrightarrow> na_ports a = []"
  by (simp add: node_addr_clone_def node_addr_new_def) (metis length_0_conv length_sort)

lemma add_parsed_port_simps [simp]:
  "add_parsed_port (Err e) r = Err e"
  "add_parsed_port (Ok ps) (Err e) = Err e"
  "add_parsed_port (Ok ps) (Ok p) = Ok (ps @ [p])"
  by (simp_all add: add_parsed_port_def plus_def)

lemma parse_port_show [simp]:
  "parse_port (show_nat (unat p)) =
     (if p < LOWEST_USABLE_INSECURE_PORT then Err (BadPort (show_nat (unat p))) else Ok p)"
  by (simp add: parse_port_def)

lemma fold_add_parsed_port:
  assumes "\<forall>p \<in> set ps. LOWEST_USABLE_INSECURE_PORT \<le> p"
  shows "foldl add_parsed_port (Ok acc) (map parse_port (map (\<lambda>p. show_nat (unat p)) ps)) = Ok (acc @ ps)"
  using assms
  by (induction ps arbitrary: acc) (auto simp: not_less)

lemma fold_add_parsed_port_Err:
  "foldl add_parsed_port (Err e) rs = Err e"
  by (induction rs) simp_all

lemma fold_add_parsed_port_bad:
  assumes "p \<in> set ps" "p < LOWEST_USABLE_INSECURE_PORT"
  shows "\<exists>e. foldl add_parsed_port (Ok acc) (map parse_port (map (\<lambda>p. show_nat (unat p)) ps)) = Err e"
  using assms
proof (induction ps arbitrary: acc)
  case (Cons q ps)
  then show ?case
    by (cases "q < LOWEST_USABLE_INSECURE_PORT")
       (auto simp: fold_add_parsed_port_Err)
qed simp

lemma split_ports:
  "ps \<noteq> [] \<Longrightarrow> split_on CHR '';'' (join_with CHR '';'' (map (\<lambda>p. show_nat (unat p)) ps)) =
     map (\<lambda>p. show_nat (unat p)) ps"
  by (intro split_on_join) (auto simp: show_nat_avoids)

lemma ports_text_no_colon: "CHR '':'' \<notin> set (join_with CHR '';'' (map (\<lambda>p. show_nat (unat p)) ps))"
  using set_join_with [of "CHR '';''" "map (\<lambda>p. show_nat (unat p)) ps"] by (auto simp: show_nat_avoids)

lemma show_segments_colon: "CHR '':'' \<in> set (show_segments (s # t # ss))"
  by (simp add: show_segments_def)

lemma ipv6_text_colon: "CHR '':'' \<in> set (ip_to_string (V6 s0 s1 s2 s3 s4 s5 s6 s7))"
  using show_segments_colon [of s0 s1 "[s2, s3, s4, s5, s6, s7]"]
  by (simp add: show_ipv6_def Let_def)

lemma node_addr_from_str_v4:
  assumes "na_ip_addr a = V4 x0 x1 x2 x3"
  shows "node_addr_from_str (node_addr_to_string a) =
    (case foldl add_parsed_port (Ok []) (map parse_port (split_on CHR '';''
        (join_with CHR '';'' (map (\<lambda>p. show_nat (unat p)) (na_ports a))))) of
       Inr ports \<Rightarrow> Ok (node_addr_new (na_ip_addr a) ports)
     | Inl msg \<Rightarrow> Err msg)"
proof -
  have "split_on CHR '':'' (node_addr_to_string a) =
      [show_ipv4 x0 x1 x2 x3, join_with CHR '';'' (map (\<lambda>p. show_nat (unat p)) (na_ports a))]"
    by (simp add: node_addr_to_string_def assms split_on_append show_ipv4_no_colon split_on_plain
        ports_text_no_colon)
  then show ?thesis
    by (simp add: node_addr_from_str_def Let_def ipv4_from_str_show assms cong: sum.case_cong)
qed

lemma node_addr_from_str_v6:
  assumes "na_ip_addr a = V6 s0 s1 s2 s3 s4 s5 s6 s7"
  shows "node_addr_from_str (node_addr_to_string a) = Err (BadNodeAddrShape (node_addr_to_string a))"
proof -
  have "0 < count_list (ip_to_string (na_ip_addr a)) CHR '':''"
    using ipv6_text_colon [of s0 s1 s2 s3 s4 s5 s6 s7] assms by (metis count_list_0_iff gr0I)
  then have "length (split_on CHR '':'' (node_addr_to_string a)) \<noteq> 2"
    by (simp add: length_split_on node_addr_to_string_def count_list_append)
  then show ?thesis
    by (simp add: node_addr_from_str_def Let_def)
qed

lemma node_addr_text_ok:
  assumes "node_addr_normal a" "na_ip_addr a = V4 x0 x1 x2 x3" "na_ports a \<noteq> []"
    "\<forall>p \<in> set (na_ports a). LOWEST_USABLE_INSECURE_PORT \<le> p"
  shows "node_addr_from_str (node_addr_to_string a) = Ok a"
proof -
  have "node_addr_new (V4 x0 x1 x2 x3) (na_ports a) = a"
    using node_addr_new_self [OF assms(1)] assms(2) by simp
  then show ?thesis
    using assms fold_add_parsed_port [of "na_ports a" "[]"]
    by (simp add: node_addr_from_str_v4 split_ports)
qed

lemma node_addr_text_bad_ports:
  assumes "na_ip_addr a = V4 x0 x1 x2 x3"
    "na_ports a = [] \<or> (\<exists>p \<in> set (na_ports a). p < LOWEST_USABLE_INSECURE_PORT)"
  shows "\<exists>e. node_addr_from_str (node_addr_to_string a) = Err e"
proof (cases "na_ports a = []")
  case True
  then show ?thesis
    using assms by (simp add: node_addr_from_str_v4 parse_port_def parse_u16_def parse_unsigned_def)
next
  case False
  then obtain p where "p \<in> set (na_ports a)" "p < LOWEST_USABLE_INSECURE_PORT"
    using assms by auto
  then show ?thesis
    using fold_add_parsed_port_bad [of p "na_ports a" "[]"] False assms(1)
    by (auto simp: node_addr_from_str_v4 split_ports)
qed

text \<open>The text form of a \<open>NodeAddr\<close> with sorted, distinct ports (every value \<open>NodeAddr::new\<close>
  and \<open>clone\<close> produce) parses back to it exactly when the address is IPv4 and there is at least
  one port and none below 1025. An IPv6 address never survives the round trip, because
  \<open>from_str\<close> splits at every colon.\<close>

theorem node_addr_text_roundtrip:
  assumes "node_addr_normal a"
  shows "node_addr_from_str (node_addr_to_string a) = Ok a \<longleftrightarrow>
    (\<exists>x0 x1 x2 x3. na_ip_addr a = V4 x0 x1 x2 x3) \<and> na_ports a \<noteq> [] \<and>
    (\<forall>p \<in> set (na_ports a). LOWEST_USABLE_INSECURE_PORT \<le> p)"
proof (cases "na_ip_addr a")
  case (V4 x0 x1 x2 x3)
  show ?thesis
  proof (cases "na_ports a \<noteq> [] \<and> (\<forall>p \<in> set (na_ports a). LOWEST_USABLE_INSECURE_PORT \<le> p)")
    case True
    then show ?thesis
      using node_addr_text_ok [OF assms V4] V4 by simp
  next
    case False
    then obtain e where "node_addr_from_str (node_addr_to_string a) = Err e"
      using node_addr_text_bad_ports [OF V4] by (auto simp: not_le)
    with False show ?thesis
      by auto
  qed
next
  case (V6 s0 s1 s2 s3 s4 s5 s6 s7)
  then show ?thesis
    by (simp add: node_addr_from_str_v6)
qed

theorem node_addr_text_roundtrip_witness:
  "node_addr_from_str (node_addr_to_string (node_addr_new (V4 1 2 3 4) [4321, 1234, 4321])) =
     Ok \<lparr> na_ip_addr = V4 1 2 3 4, na_ports = [1234, 4321] \<rparr>"
  using node_addr_text_roundtrip [OF node_addr_new_normal, of "V4 1 2 3 4" "[4321, 1234, 4321]"]
  by (simp add: node_addr_new_def LOWEST_USABLE_INSECURE_PORT_def)

section \<open>NodeDescriptor\<close>

lemma node_addr_text_not_colon: "node_addr_to_string a \<noteq> '':''"
proof -
  have "ip_to_string (na_ip_addr a) \<noteq> []"
  proof (cases "na_ip_addr a")
    case (V6 s0 s1 s2 s3 s4 s5 s6 s7)
    then show ?thesis
      using ipv6_text_colon [of s0 s1 s2 s3 s4 s5 s6 s7] by (metis empty_iff list.set(1))
  qed (simp add: show_ipv4_def)
  then show ?thesis
    by (cases "ip_to_string (na_ip_addr a)") (auto simp: node_addr_to_string_def)
qed

text \<open>A node descriptor survives printing and parsing, on every chain: if the cryptographic
  layer's fragment of the public key has no delimiter in it and decodes to a key, the text of
  the descriptor parses to that key and the same address (or none).\<close>

theorem node_descriptor_roundtrip:
  assumes "unat chain_id < 4"
    and "cd_key_to_fragment cd k = Ok f" "cd_fragment_to_key cd f = Ok k'"
    and "\<forall>c \<in> set f. c \<noteq> CHR ''@'' \<and> c \<noteq> CHR '':'' \<and> c \<noteq> CHR ''_''"
    and "addr = None \<or> (\<exists>a x0 x1 x2 x3. addr = Some a \<and> node_addr_normal a \<and>
           na_ip_addr a = V4 x0 x1 x2 x3 \<and> na_ports a \<noteq> [] \<and>
           (\<forall>p \<in> set (na_ports a). LOWEST_USABLE_INSECURE_PORT \<le> p))"
  shows "\<exists>s. node_descriptor_to_string cd \<lparr> nd_public_key = k, nd_node_addr_opt = addr \<rparr> chain_id = Ok s \<and>
    node_descriptor_from_str cd s chain_id =
      Ok (Ok \<lparr> nd_public_key = k', nd_node_addr_opt = addr \<rparr>)"
proof -
  have "unat chain_id \<in> {0, 1, 2, 3}"
    using assms(1) by auto
  then obtain dl where dl: "node_descriptor_delimiter chain_id = Ok dl"
    and "dl = CHR ''@'' \<or> dl = CHR '':'' \<or> dl = CHR ''_''"
    by (auto simp: node_descriptor_delimiter_def NODE_DESCRIPTOR_DELIMITERS_def)
  then have "dl \<notin> set f"
    using assms(4) by auto
  then have split: "splitn_two dl (f @ dl # t) = [f, t]" for t
    by (rule splitn_two_append)
  show ?thesis
    using assms(2, 3, 5) dl split
    by (auto simp: node_descriptor_to_string_def node_descriptor_from_str_def Let_def
        node_addr_text_not_colon node_addr_text_ok)
qed

theorem node_descriptor_roundtrip_witness:
  "\<exists>s. node_descriptor_to_string (null_cryptde example_libraries (null_new example_libraries [9] 1))
         \<lparr> nd_public_key = [65, 66],
           nd_node_addr_opt = Some \<lparr> na_ip_addr = V4 1 2 3 4, na_ports = [1234] \<rparr> \<rparr> 1 = Ok s \<and>
       node_descriptor_from_str (null_cryptde example_libraries (null_new example_libraries [9] 1)) s 1 =
         Ok (Ok \<lparr> nd_public_key = [65, 66],
           nd_node_addr_opt = Some \<lparr> na_ip_addr = V4 1 2 3 4, na_ports = [1234] \<rparr> \<rparr>)"
  by (rule node_descriptor_roundtrip [where f = "''AB''"])
     (simp_all add: null_cryptde_def null_fragment_to_key_def example_libraries_def node_addr_normal_def
        LOWEST_USABLE_INSECURE_PORT_def char_of_def bit_0)

end
