(* ===== verification/Route.thy ===== *)
theory Route
  imports NodeTypes
begin

text \<open>
  Routes through the network: \<open>sub_lib/hop.rs\<close> and \<open>sub_lib/route.rs\<close>. A route is a list of
  hops, each sealed for the node that is to read it; travelling it means letting each node on the
  way shift its hop off the front. The theory shows that a route built for a list of nodes can be
  travelled by these nodes in this order, that each of them learns the key of the next one, the component
  that is to get the payload and a payer made out to it, and that a round trip ends with the return
  route id at its origin.
\<close>

named_theorems route_simps \<open>simplification of route operations\<close>

section \<open>Hops\<close>

record live_hop =
  hop_public_key :: public_key
  hop_payer :: "payer option"
  hop_component :: component

text \<open>The serializers of hops and route ids, and the libraries that payers are made with.\<close>

record route_env =
  hop_codec :: "live_hop codec"
  id_codec :: "u32 codec"
  rt_lib :: libraries
  rt_eth :: ethsign

definition live_hop_new :: "public_key \<Rightarrow> payer option \<Rightarrow> component \<Rightarrow> live_hop" where
  "live_hop_new key payer component =
     \<lparr> hop_public_key = key, hop_payer = payer, hop_component = component \<rparr>"

definition live_hop_decode :: "route_env \<Rightarrow> cryptde \<Rightarrow> crypt_data \<Rightarrow> codex_error + live_hop" where
  "live_hop_decode env cryptde crypt_data = decodex (hop_codec env) cryptde crypt_data"

definition live_hop_encode :: "route_env \<Rightarrow> live_hop \<Rightarrow> public_key \<Rightarrow> cryptde \<Rightarrow> codex_error + crypt_data" where
  "live_hop_encode env self public_key cryptde = encodex (hop_codec env) cryptde public_key self"

definition payer_owns_secret_key :: "route_env \<Rightarrow> live_hop \<Rightarrow> bytes \<Rightarrow> bool run" where
  "payer_owns_secret_key env self digest =
     (case hop_payer self of
        Some p \<Rightarrow> owns_secret_key (rt_eth env) p digest
      | None \<Rightarrow> Ok False)"

text \<open>What the other side reads of a hop that was written: the wallet of the payer goes through its own
  serialization, the other fields through derived code. \<open>hop_codec_law\<close> says that serde does so.\<close>

definition hop_on_wire :: "ethsign \<Rightarrow> live_hop \<Rightarrow> live_hop option" where
  "hop_on_wire eth h =
     (case hop_payer h of
        None \<Rightarrow> Some h
      | Some p \<Rightarrow>
          (case wallet_on_wire eth (payer_wallet p) of
             Inr (Inr w) \<Rightarrow> Some (h\<lparr> hop_payer := Some (p\<lparr> payer_wallet := w \<rparr>) \<rparr>)
           | _ \<Rightarrow> None))"

definition hop_codec_law :: "route_env \<Rightarrow> bool" where
  "hop_codec_law env \<longleftrightarrow>
     (\<forall>h h'. hop_on_wire (rt_eth env) h = Some h' \<longrightarrow> codec_carries (hop_codec env) h h')"

lemma hop_codec_unpaid: "hop_codec_law env \<Longrightarrow> hop_payer h = None \<Longrightarrow> codec_roundtrips (hop_codec env) h"
  by (auto simp: hop_codec_law_def hop_on_wire_def codec_carries_same [symmetric])

lemma hop_codec_paid:
  assumes "hop_codec_law env" "hop_payer h = Some p" "payer_wallet p = wallet_from_address a" "length a = 20"
  shows "codec_roundtrips (hop_codec env) h"
proof -
  have "wallet_address (rt_eth env) (payer_wallet p) = Inr a"
    using assms(3) by (simp add: wallet_from_address_def)
  then have "wallet_on_wire (rt_eth env) (payer_wallet p) = Inr (Inr (payer_wallet p))"
    using assms(3,4) by (simp add: wallet_on_wire_simps)
  then have "hop_on_wire (rt_eth env) h = Some h"
    using assms(2) by (cases h) (simp add: hop_on_wire_def)
  with assms(1) show ?thesis
    by (auto simp: hop_codec_law_def codec_carries_same [symmetric])
qed

section \<open>Routes\<close>

record route =
  route_hops :: "crypt_data list"

record route_segment =
  seg_keys :: "public_key list"
  seg_recipient :: component

datatype route_error =
    HopDecodeProblem codex_error
  | EmptyRoute
  | TooFewKeysInRouteSegment
  | DisjointRouteSegments

datatype construct_error =
    BadSegments route_error
  | CouldNotEncodeHop codex_error

datatype id_error =
    NoReturnRouteId
  | BadReturnRouteId codex_error

definition route_segment_new :: "public_key list \<Rightarrow> component \<Rightarrow> route_segment" where
  "route_segment_new keys recipient = \<lparr> seg_keys = keys, seg_recipient = recipient \<rparr>"

definition route_id :: "route_env \<Rightarrow> route \<Rightarrow> cryptde \<Rightarrow> id_error + u32" where
  "route_id env self cryptde =
     (case first (route_hops self) of
        Some top_hop \<Rightarrow> (case decodex (id_codec env) cryptde top_hop of
                        Inl e \<Rightarrow> Err (BadReturnRouteId e)
                      | Inr i \<Rightarrow> Ok i)
      | None \<Rightarrow> Err NoReturnRouteId)"

definition decode_hop :: "route_env \<Rightarrow> cryptde \<Rightarrow> crypt_data \<Rightarrow> route_error + live_hop" where
  "decode_hop env cryptde hop_enc =
     (case live_hop_decode env cryptde hop_enc of
        Inl e \<Rightarrow> Err (HopDecodeProblem e)
      | Inr h \<Rightarrow> Ok h)"

definition next_hop :: "route_env \<Rightarrow> route \<Rightarrow> cryptde \<Rightarrow> route_error + live_hop" where
  "next_hop env self cryptde =
     (case first (route_hops self) of
        None \<Rightarrow> Err EmptyRoute
      | Some top_hop \<Rightarrow> decode_hop env cryptde top_hop)"

text \<open>\<open>shift\<close> changes the route even when the hop cannot be read.\<close>

definition shift :: "route_env \<Rightarrow> cryptde \<Rightarrow> route \<Rightarrow> (route_error + live_hop) \<times> route" where
  "shift env cryptde self =
     (case route_hops self of
        [] \<Rightarrow> (Err EmptyRoute, self)
      | top_hop # rest \<Rightarrow>
          (case decode_hop env cryptde top_hop of
             Inl e \<Rightarrow> (Err e, self\<lparr> route_hops := rest \<rparr>)
           | Inr shifted \<Rightarrow>
               (Ok shifted, self\<lparr> route_hops := rest @ [cd_random cryptde (length top_hop)] \<rparr>)))"

definition tuple_windows :: "'a list \<Rightarrow> ('a \<times> 'a) list" where
  "tuple_windows xs = zip xs (tl xs)"

definition payer_for ::
    "route_env \<Rightarrow> wallet option \<Rightarrow> bytes option \<Rightarrow> public_key \<Rightarrow> payer option run" where
  "payer_for env consuming_wallet contract_opt current_key =
     (case consuming_wallet of
        None \<Rightarrow> Ok None
      | Some w \<Rightarrow>
          bind_run (as_payer (rt_lib env) (rt_eth env) w current_key
              (case contract_opt of Some a \<Rightarrow> a | None \<Rightarrow> replicate 20 0)) (\<lambda>p.
          Ok (Some p)))"

definition over_segment ::
    "route_env \<Rightarrow> bool \<Rightarrow> wallet option \<Rightarrow> public_key list \<Rightarrow> component \<Rightarrow> bytes option \<Rightarrow> live_hop list run" where
  "over_segment env one_way consuming_wallet over_keys over_component contract_opt =
     bind_run (map_run (\<lambda>(current_key, next_key).
         bind_run (payer_for env consuming_wallet contract_opt current_key) (\<lambda>payer.
         Ok (live_hop_new next_key payer Hopper))) (tuple_windows over_keys)) (\<lambda>hops.
     if one_way
     then (case tuple_windows over_keys of
             [] \<Rightarrow> Ok (hops @ [live_hop_new [] None over_component])
           | _ \<Rightarrow> bind_run (payer_for env consuming_wallet contract_opt
                     (snd (last (tuple_windows over_keys)))) (\<lambda>payer.
                   Ok (hops @ [live_hop_new [] payer over_component])))
     else Ok hops)"

definition back_hop ::
    "route_env \<Rightarrow> wallet option \<Rightarrow> component \<Rightarrow> bytes option \<Rightarrow> nat \<times> public_key \<times> public_key \<Rightarrow> live_hop run" where
  "back_hop env consuming_wallet over_component contract_opt indexed =
     (let (key_index, current_key, next_key) = indexed;
          component = (if key_index = 0 then over_component else Hopper)
      in bind_run (payer_for env consuming_wallet contract_opt current_key) (\<lambda>payer.
         Ok (live_hop_new next_key payer component)))"

definition back_segment ::
    "route_env \<Rightarrow> route_segment option \<Rightarrow> wallet option \<Rightarrow> component \<Rightarrow> live_hop list \<Rightarrow> bytes option \<Rightarrow>
       live_hop list run" where
  "back_segment env back_option consuming_wallet over_component hops contract_opt =
     (case back_option of
        None \<Rightarrow> Ok hops
      | Some back \<Rightarrow>
          bind_run (map_run (back_hop env consuming_wallet over_component contract_opt)
              (enumerate 0 (tuple_windows (seg_keys back)))) (\<lambda>back_hops.
          case seg_keys back of
            [] \<Rightarrow> Ok (hops @ back_hops @ [live_hop_new [] None (seg_recipient back)])
          | _ \<Rightarrow> bind_run (payer_for env consuming_wallet contract_opt (last (seg_keys back))) (\<lambda>payer.
                  Ok (hops @ back_hops @ [live_hop_new [] payer (seg_recipient back)]))))"

definition validate_route_segments :: "route_segment \<Rightarrow> route_segment option \<Rightarrow> route_error option" where
  "validate_route_segments over back =
     (if seg_keys over = [] then Some TooFewKeysInRouteSegment
      else case back of
             Some b \<Rightarrow>
               if seg_keys b = [] then Some TooFewKeysInRouteSegment
               else if hd (seg_keys b) \<noteq> last (seg_keys over) then Some DisjointRouteSegments
               else None
           | None \<Rightarrow> None)"

fun encode_hops :: "route_env \<Rightarrow> live_hop list \<Rightarrow> public_key \<Rightarrow> cryptde \<Rightarrow> codex_error + crypt_data list" where
  "encode_hops env [] hop_key cryptde = Ok []"
| "encode_hops env (data_hop # rest) hop_key cryptde =
     bind_run (live_hop_encode env data_hop hop_key cryptde) (\<lambda>crypt_data.
     bind_run (encode_hops env rest (hop_public_key data_hop) cryptde) (\<lambda>hops_enc.
     Ok (crypt_data # hops_enc)))"

definition encrypt_return_route_id :: "route_env \<Rightarrow> u32 \<Rightarrow> cryptde \<Rightarrow> crypt_data run" where
  "encrypt_return_route_id env return_route_id cryptde =
     (case encodex (id_codec env) cryptde (cd_public_key cryptde) return_route_id of
        Inl _ \<Rightarrow> Err ExpectFailed
      | Inr enc \<Rightarrow> Ok enc)"

definition hops_to_route ::
    "route_env \<Rightarrow> live_hop list \<Rightarrow> public_key \<Rightarrow> u32 option \<Rightarrow> cryptde \<Rightarrow> (construct_error + route) run" where
  "hops_to_route env hops top_hop_key return_route_id_opt cryptde =
     (case encode_hops env hops top_hop_key cryptde of
        Inl e \<Rightarrow> Ok (Err (CouldNotEncodeHop e))
      | Inr hops_enc \<Rightarrow>
          (case return_route_id_opt of
             Some return_route_id \<Rightarrow>
               bind_run (encrypt_return_route_id env return_route_id cryptde) (\<lambda>enc.
               Ok (Ok \<lparr> route_hops = hops_enc @ [enc] \<rparr>))
           | None \<Rightarrow> Ok (Ok \<lparr> route_hops = hops_enc \<rparr>)))"

definition construct ::
    "route_env \<Rightarrow> route_segment \<Rightarrow> route_segment option \<Rightarrow> cryptde \<Rightarrow> wallet option \<Rightarrow> u32 option \<Rightarrow>
       bytes option \<Rightarrow> (construct_error + route) run" where
  "construct env over back cryptde consuming_wallet return_route_id_opt contract_opt =
     (case validate_route_segments over back of
        Some error \<Rightarrow> Ok (Err (BadSegments error))
      | None \<Rightarrow>
          bind_run (over_segment env (back = None) consuming_wallet (seg_keys over) (seg_recipient over)
              contract_opt) (\<lambda>hops.
          bind_run (back_segment env back consuming_wallet (seg_recipient over) hops contract_opt) (\<lambda>hops.
          bind_run (index (seg_keys over) 0) (\<lambda>top_hop_key.
          hops_to_route env hops top_hop_key return_route_id_opt cryptde))))"

definition single_hop :: "route_env \<Rightarrow> public_key \<Rightarrow> cryptde \<Rightarrow> (construct_error + route) run" where
  "single_hop env destination cryptde =
     construct env (route_segment_new [cd_public_key cryptde, destination] Neighborhood) None cryptde
       None None None"

definition one_way ::
    "route_env \<Rightarrow> route_segment \<Rightarrow> cryptde \<Rightarrow> wallet option \<Rightarrow> bytes option \<Rightarrow> (construct_error + route) run" where
  "one_way env route_segment cryptde consuming_wallet contract_opt =
     construct env route_segment None cryptde consuming_wallet None contract_opt"

definition round_trip ::
    "route_env \<Rightarrow> route_segment \<Rightarrow> route_segment \<Rightarrow> cryptde \<Rightarrow> wallet option \<Rightarrow> u32 \<Rightarrow> bytes option \<Rightarrow>
       (construct_error + route) run" where
  "round_trip env route_segment_over route_segment_back cryptde consuming_wallet return_route_id contract_opt =
     construct env route_segment_over (Some route_segment_back) cryptde consuming_wallet
       (Some return_route_id) contract_opt"

section \<open>Travelling a route\<close>

text \<open>Each node on the way shifts its hop off the route.\<close>

fun travel :: "route_env \<Rightarrow> cryptde list \<Rightarrow> route \<Rightarrow> route_error + live_hop list \<times> route" where
  "travel env [] r = Ok ([], r)"
| "travel env (node # nodes) r =
     (case shift env node r of
        (Inl e, _) \<Rightarrow> Err e
      | (Inr h, r') \<Rightarrow> bind_run (travel env nodes r') (\<lambda>(hs, r''). Ok (h # hs, r'')))"

section \<open>Lemmas\<close>

text \<open>The nodes \<open>ps\<close> are those that the hops are meant for, one by one: the first hop for the
  node with the given key, each further hop for the node named by the hop before it.\<close>

fun itinerary :: "public_key \<Rightarrow> cryptde list \<Rightarrow> live_hop list \<Rightarrow> bool" where
  "itinerary key (p # ps) (h # hs) \<longleftrightarrow> key = cd_public_key p \<and> itinerary (hop_public_key h) ps hs"
| "itinerary key [] [] \<longleftrightarrow> True"
| "itinerary key _ _ \<longleftrightarrow> False"

lemma itinerary_append:
  "itinerary key ps hs \<Longrightarrow> itinerary (if hs = [] then key else hop_public_key (last hs)) qs gs \<Longrightarrow>
     itinerary key (ps @ qs) (hs @ gs)"
  by (induction key ps hs rule: itinerary.induct) (auto split: if_splits)

lemma shift_readable [route_simps]:
  "decodex (hop_codec env) cd e = Ok h \<Longrightarrow>
     shift env cd \<lparr> route_hops = e # es \<rparr> = (Ok h, \<lparr> route_hops = es @ [cd_random cd (length e)] \<rparr>)"
  by (simp add: shift_def decode_hop_def live_hop_decode_def)

context cryptde_family
begin

text \<open>Sealed hops are read by the nodes of the itinerary, in order; what follows them on the route
  comes to the front.\<close>

lemma hops_travelled:
  assumes "family c" "\<And>p. p \<in> set ps \<Longrightarrow> family p" "\<And>h. h \<in> set hs \<Longrightarrow> codec_roundtrips (hop_codec env) h"
    and "itinerary key ps hs"
  shows "\<exists>es. encode_hops env hs key c = Ok es \<and> length es = length hs \<and>
    (\<forall>rest. \<exists>g. travel env ps \<lparr> route_hops = es @ rest \<rparr> = Ok (hs, \<lparr> route_hops = rest @ g \<rparr>) \<and>
       length g = length hs)"
  using assms
proof (induction hs arbitrary: key ps)
  case Nil
  then show ?case by (cases ps) auto
next
  case (Cons h hs)
  then obtain p qs where ps: "ps = p # qs" "key = cd_public_key p" "itinerary (hop_public_key h) qs hs"
    by (cases ps) auto
  obtain e where e: "encodex (hop_codec env) c key h = Ok e" "decodex (hop_codec env) p e = Ok h"
    using encodex_decodex [of c p "hop_codec env" h] Cons.prems ps by auto
  obtain es where es: "encode_hops env hs (hop_public_key h) c = Ok es" "length es = length hs"
    "\<And>rest. \<exists>g. travel env qs \<lparr> route_hops = es @ rest \<rparr> = Ok (hs, \<lparr> route_hops = rest @ g \<rparr>) \<and>
       length g = length hs"
    using Cons.IH [of qs "hop_public_key h"] Cons.prems ps by auto
  have "\<exists>g. travel env ps \<lparr> route_hops = (e # es) @ rest \<rparr> = Ok (h # hs, \<lparr> route_hops = rest @ g \<rparr>) \<and>
      length g = length (h # hs)" for rest
    using es(3) [of "rest @ [cd_random p (length e)]"] e(2) by (auto simp: ps route_simps)
  then show ?case
    using e(1) es(1, 2) by (auto simp: live_hop_encode_def)
qed

end

lemma route_segment_new_simps [simp]:
  "seg_keys (route_segment_new keys cmp) = keys"
  "seg_recipient (route_segment_new keys cmp) = cmp"
  by (simp_all add: route_segment_new_def)

text \<open>Payers for the nodes on the way.\<close>

definition route_contract :: "bytes option \<Rightarrow> bytes" where
  "route_contract contract_opt = (case contract_opt of Some a \<Rightarrow> a | None \<Rightarrow> replicate 20 0)"

definition wallet_pays :: "route_env \<Rightarrow> wallet option \<Rightarrow> bytes option \<Rightarrow> bool" where
  "wallet_pays env wallet_opt contract_opt \<longleftrightarrow>
     (case wallet_opt of
        None \<Rightarrow> True
      | Some w \<Rightarrow> \<exists>secret. w = wallet_from_key_pair (key_pair_from (rt_eth env) secret) \<and>
          length (eth_address (rt_eth env) (eth_public (rt_eth env) secret)) = 20 \<and>
          (\<forall>key. signs_recoverably (rt_eth env) secret
             (create_digest (rt_lib env) key (route_contract contract_opt))))"

text \<open>What the node with the given key finds in its hop about payment.\<close>

definition payment_ok :: "route_env \<Rightarrow> wallet option \<Rightarrow> bytes option \<Rightarrow> cryptde \<Rightarrow> live_hop \<Rightarrow> bool" where
  "payment_ok env wallet_opt contract_opt node h \<longleftrightarrow>
     (case wallet_opt of
        None \<Rightarrow> hop_payer h = None
      | Some w \<Rightarrow> \<exists>p a. hop_payer h = Some p \<and> wallet_address (rt_eth env) w = Ok a \<and>
          payer_wallet p = wallet_from_address a \<and>
          owns_secret_key (rt_eth env) p
            (create_digest (rt_lib env) (cd_public_key node) (route_contract contract_opt)) = Ok True)"

lemma payment_codec:
  assumes "hop_codec_law env" "wallet_pays env w c" "payment_ok env w c node h"
  shows "codec_roundtrips (hop_codec env) h"
proof (cases w)
  case None
  with assms show ?thesis
    by (simp add: payment_ok_def hop_codec_unpaid)
next
  case (Some w')
  with assms(2) obtain secret where w: "w' = wallet_from_key_pair (key_pair_from (rt_eth env) secret)"
    "length (eth_address (rt_eth env) (eth_public (rt_eth env) secret)) = 20"
    by (auto simp: wallet_pays_def)
  obtain p a where p: "hop_payer h = Some p" "wallet_address (rt_eth env) w' = Ok a" "payer_wallet p = wallet_from_address a"
    using assms(3) Some by (auto simp: payment_ok_def)
  then have "length a = 20"
    using w by (auto simp: wallet_address_def wallet_from_key_pair_def key_pair_address_def key_pair_from_def)
  with assms(1) p show ?thesis
    by (intro hop_codec_paid)
qed

lemma payer_for_total:
  assumes "wallet_pays env w c"
  obtains pay where "\<And>key. payer_for env w c key = Ok (pay key)" "w = None \<Longrightarrow> pay = (\<lambda>_. None)"
    "\<And>key next cmp node. cd_public_key node = key \<Longrightarrow> payment_ok env w c node (live_hop_new next (pay key) cmp)"
proof (cases w)
  case None
  then show thesis
    by (intro that [of "\<lambda>_. None"]) (simp_all add: payer_for_def payment_ok_def live_hop_new_def)
next
  case (Some w')
  then obtain secret where w: "w' = wallet_from_key_pair (key_pair_from (rt_eth env) secret)"
    "\<And>key. signs_recoverably (rt_eth env) secret (create_digest (rt_lib env) key (route_contract c))"
    using assms by (auto simp: wallet_pays_def)
  have addr: "wallet_address (rt_eth env) w' = Ok (eth_address (rt_eth env) (eth_public (rt_eth env) secret))"
    by (simp add: w(1) wallet_address_def wallet_from_key_pair_def key_pair_address_def key_pair_from_def)
  have "\<forall>key. \<exists>p. as_payer (rt_lib env) (rt_eth env) w' key (route_contract c) = Ok p \<and>
      payer_wallet p = wallet_from_address (eth_address (rt_eth env) (eth_public (rt_eth env) secret)) \<and>
      owns_secret_key (rt_eth env) p (create_digest (rt_lib env) key (route_contract c)) = Ok True"
    using as_payer_key_pair [OF w(2)] w(1) by blast
  then obtain p where "\<And>key. as_payer (rt_lib env) (rt_eth env) w' key (route_contract c) = Ok (p key) \<and>
      payer_wallet (p key) = wallet_from_address (eth_address (rt_eth env) (eth_public (rt_eth env) secret)) \<and>
      owns_secret_key (rt_eth env) (p key) (create_digest (rt_lib env) key (route_contract c)) = Ok True"
    by metis
  then show thesis
    using Some addr by (intro that [of "\<lambda>key. Some (p key)"])
      (simp_all add: payer_for_def route_contract_def payment_ok_def payer_owns_secret_key_def live_hop_new_def)
qed

text \<open>The hops that are laid out for the outward and the return leg.\<close>

definition relay_hops :: "(public_key \<Rightarrow> payer option) \<Rightarrow> public_key list \<Rightarrow> live_hop list" where
  "relay_hops pay keys = map (\<lambda>(k, n). live_hop_new n (pay k) Hopper) (tuple_windows keys)"

lemma relay_hops_simps [simp]:
  "relay_hops pay [k] = []"
  "relay_hops pay (k # n # ks) = live_hop_new n (pay k) Hopper # relay_hops pay (n # ks)"
  by (simp_all add: relay_hops_def tuple_windows_def)

lemma tuple_windows_Cons [simp]: "tuple_windows (k # n # ks) = (k, n) # tuple_windows (n # ks)"
  by (simp add: tuple_windows_def)

lemma tuple_windows_one [simp]: "tuple_windows [k] = []"
  by (simp add: tuple_windows_def)

lemma last_window: "ks \<noteq> [] \<Longrightarrow> snd (last (tuple_windows (k # ks))) = last ks"
  by (induction ks arbitrary: k) (auto simp: tuple_windows_def)

lemma over_segment_Ok:
  assumes "\<And>key. payer_for env w c key = Ok (pay key)"
  shows "over_segment env False w keys cmp c = Ok (relay_hops pay keys)"
    "keys = k # n # ks \<Longrightarrow>
      over_segment env True w keys cmp c = Ok (relay_hops pay keys @ [live_hop_new [] (pay (last keys)) cmp])"
proof -
  have m: "map_run (\<lambda>(current_key, next_key). bind_run (payer_for env w c current_key) (\<lambda>payer.
      Ok (live_hop_new next_key payer Hopper))) (tuple_windows keys) = Ok (relay_hops pay keys)"
    unfolding relay_hops_def by (rule map_run_total) (auto simp: assms)
  then show "over_segment env False w keys cmp c = Ok (relay_hops pay keys)"
    by (simp add: over_segment_def)
  assume "keys = k # n # ks"
  with m show "over_segment env True w keys cmp c = Ok (relay_hops pay keys @ [live_hop_new [] (pay (last keys)) cmp])"
    using last_window [of "n # ks" k] by (simp add: over_segment_def assms)
qed

lemma back_hops_Ok:
  assumes "\<And>key. payer_for env w c key = Ok (pay key)" "0 < i"
  shows "map_run (back_hop env w cmp c) (enumerate i (tuple_windows keys)) = Ok (relay_hops pay keys)"
  using assms(2)
proof (induction keys arbitrary: i)
  case (Cons k keys)
  then show ?case
    by (cases keys) (simp_all add: back_hop_def assms(1) Let_def)
qed (simp add: tuple_windows_def relay_hops_def)

lemma back_segment_Ok:
  assumes "\<And>key. payer_for env w c key = Ok (pay key)" "seg_keys back = k # n # ks"
  shows "back_segment env (Some back) w cmp hs c =
    Ok (hs @ live_hop_new n (pay k) cmp # relay_hops pay (n # ks) @
        [live_hop_new [] (pay (last (n # ks))) (seg_recipient back)])"
  using back_hops_Ok [OF assms(1), of 1 cmp "n # ks"] assms
  by (simp add: back_segment_def back_hop_def Let_def)

lemma relay_itinerary:
  "itinerary (cd_public_key p) (butlast (p # ps)) (relay_hops pay (map cd_public_key (p # ps)))"
  by (induction ps arbitrary: p) (auto simp: live_hop_new_def)

lemma relay_keys:
  "map hop_public_key (relay_hops pay (k # ks)) = ks"
  "map hop_component (relay_hops pay (k # ks)) = replicate (length ks) Hopper"
  by (induction ks arbitrary: k) (auto simp: live_hop_new_def)

lemma relay_payments:
  assumes "\<And>key next cmp node. cd_public_key node = key \<Longrightarrow> payment_ok env w c node (live_hop_new next (pay key) cmp)"
  shows "list_all2 (payment_ok env w c) (butlast (p # ps)) (relay_hops pay (map cd_public_key (p # ps)))"
  using assms by (induction ps arbitrary: p) auto

lemma relay_last: "ks \<noteq> [] \<Longrightarrow> hop_public_key (last (relay_hops pay (k # ks))) = last ks"
  by (induction ks arbitrary: k) (auto simp: live_hop_new_def relay_hops_def tuple_windows_def)

context cryptde_family
begin

lemma round_trip_travelled:
  assumes "\<And>n. n \<in> set over \<union> set bk \<Longrightarrow> family n" "over \<noteq> []" "2 \<le> length bk"
    and "hd bk = last over" "last bk = origin" "wallet_pays env w c"
    and "hop_codec_law env"
    and "codec_roundtrips (id_codec env) i"
  shows "\<exists>r hs r'. round_trip env (route_segment_new (map cd_public_key over) there)
      (route_segment_new (map cd_public_key bk) home) origin w i c = Ok (Ok r) \<and>
    travel env (over @ tl bk) r = Ok (hs, r') \<and>
    map hop_public_key hs = map cd_public_key (tl over @ tl bk) @ [[]] \<and>
    map hop_component hs = replicate (length over - 1) Hopper @ there # replicate (length bk - 2) Hopper @ [home] \<and>
    list_all2 (payment_ok env w c) (over @ tl bk) hs \<and>
    route_id env r' origin = Ok i"
proof -
  obtain p ps where over: "over = p # ps"
    using assms(2) by (cases over) auto
  obtain x y bs where bk: "bk = x # y # bs"
    using assms(3) by (cases bk; cases "tl bk") auto
  obtain pay where pay: "\<And>key. payer_for env w c key = Ok (pay key)" "w = None \<Longrightarrow> pay = (\<lambda>_. None)"
    "\<And>key next cmp node. cd_public_key node = key \<Longrightarrow> payment_ok env w c node (live_hop_new next (pay key) cmp)"
    using payer_for_total [OF assms(6)] by metis
  define out ret where "out = relay_hops pay (map cd_public_key over)"
    and "ret = relay_hops pay (map cd_public_key (y # bs))"
  define hs where "hs = out @ live_hop_new (cd_public_key y) (pay (cd_public_key x)) there # ret @
    [live_hop_new [] (pay (cd_public_key (last (y # bs)))) home]"
  have split: "over @ tl bk = butlast over @ x # butlast (y # bs) @ [last (y # bs)]"
    using assms(4) append_butlast_last_id [OF assms(2)] by (simp add: bk)
  have end_at: "hop_public_key (last out) = cd_public_key x" if "out \<noteq> []"
    using that relay_last [of "map cd_public_key ps" pay "cd_public_key p"] assms(4)
    by (cases "ps = []") (auto simp: out_def over bk relay_hops_def tuple_windows_def last_map)
  have start_at: "cd_public_key p = cd_public_key x" if "out = []"
    using that assms(4) by (cases ps) (auto simp: out_def over bk)
  have ret_itinerary: "itinerary (cd_public_key y) (butlast (y # bs) @ [last (y # bs)])
      (ret @ [live_hop_new [] (pay (cd_public_key (last (y # bs)))) home])"
  proof (rule itinerary_append)
    show "itinerary (cd_public_key y) (butlast (y # bs)) ret"
      unfolding ret_def by (rule relay_itinerary)
    show "itinerary (if ret = [] then cd_public_key y else hop_public_key (last ret)) [last (y # bs)]
        [live_hop_new [] (pay (cd_public_key (last (y # bs)))) home]"
      using relay_last [of "map cd_public_key bs" pay "cd_public_key y"]
      by (cases "bs = []") (auto simp: ret_def last_map relay_hops_def tuple_windows_def)
  qed
  have way: "itinerary (cd_public_key p) (over @ tl bk) hs"
    unfolding split hs_def
  proof (rule itinerary_append)
    show "itinerary (cd_public_key p) (butlast over) out"
      unfolding out_def over by (rule relay_itinerary)
  qed (use end_at start_at ret_itinerary in \<open>auto simp: live_hop_new_def\<close>)
  have paid: "list_all2 (payment_ok env w c) (over @ tl bk) hs"
    unfolding split hs_def
  proof (intro list_all2_appendI list_all2_Cons [THEN iffD2] conjI)
    show "list_all2 (payment_ok env w c) (butlast over) out"
      unfolding out_def over by (rule relay_payments [OF pay(3)])
    show "list_all2 (payment_ok env w c) (butlast (y # bs)) ret"
      unfolding ret_def by (rule relay_payments [OF pay(3)])
  qed (simp_all add: pay(3))
  have codec: "codec_roundtrips (hop_codec env) h" if "h \<in> set hs" for h
    using payment_codec [OF assms(7,6)] paid that by (auto simp: list_all2_conv_all_nth in_set_conv_nth)
  obtain es where es: "encode_hops env hs (cd_public_key p) origin = Ok es"
    "\<And>rest. \<exists>g. travel env (over @ tl bk) \<lparr> route_hops = es @ rest \<rparr> = Ok (hs, \<lparr> route_hops = rest @ g \<rparr>) \<and>
       length g = length hs"
  proof -
    have "origin \<in> set bk"
      using assms(5) by (auto simp: bk)
    then show thesis
      using hops_travelled [OF _ _ codec way, of origin] assms(1) that by (auto simp: bk)
  qed
  have origin: "family origin"
    using assms(1, 5) by (auto simp: bk)
  then obtain e where e: "encodex (id_codec env) origin (cd_public_key origin) i = Ok e"
    "decodex (id_codec env) origin e = Ok i"
    using encodex_decodex [OF origin origin assms(8)] by blast
  have out_leg: "over_segment env False w (map cd_public_key over) there c = Ok out"
    unfolding out_def by (rule over_segment_Ok(1) [OF pay(1)])
  have home_leg: "back_segment env (Some (route_segment_new (map cd_public_key bk) home)) w there out c = Ok hs"
    using back_segment_Ok [OF pay(1), of "route_segment_new (map cd_public_key bk) home" "cd_public_key x"
        "cd_public_key y" "map cd_public_key bs" there out] last_map [of "y # bs" cd_public_key]
    by (simp add: hs_def ret_def bk)
  have "validate_route_segments (route_segment_new (map cd_public_key over) there)
      (Some (route_segment_new (map cd_public_key bk) home)) = None"
    using assms(2, 4) by (auto simp: validate_route_segments_def bk last_map)
  then have built: "round_trip env (route_segment_new (map cd_public_key over) there)
      (route_segment_new (map cd_public_key bk) home) origin w i c = Ok (Ok \<lparr> route_hops = es @ [e] \<rparr>)"
    using out_leg home_leg es(1) e(1)
    by (simp add: round_trip_def construct_def hops_to_route_def encrypt_return_route_id_def over index_def)
  obtain g where g: "travel env (over @ tl bk) \<lparr> route_hops = es @ [e] \<rparr> = Ok (hs, \<lparr> route_hops = e # g \<rparr>)"
    using es(2) [of "[e]"] by auto
  have keys: "map hop_public_key hs = map cd_public_key (tl over @ tl bk) @ [[]]"
    by (simp add: hs_def out_def ret_def over bk relay_keys live_hop_new_def)
  have comps: "map hop_component hs = replicate (length over - 1) Hopper @ there # replicate (length bk - 2) Hopper @ [home]"
    by (simp add: hs_def out_def ret_def over bk relay_keys live_hop_new_def)
  have "route_id env \<lparr> route_hops = e # g \<rparr> origin = Ok i"
    by (simp add: route_id_def e(2))
  then show ?thesis
    using built g keys comps paid by blast
qed

end

section \<open>Properties\<close>

text \<open>C20. A round trip works: for either cryptographic implementation, a route over any nodes of the
  network and back to its origin is built without panic or error; travelling it, each node in turn
  reads its own hop and learns the key of the next node and the component to hand the payload to,
  which is the hopper on the way, the requested one at the far end and the requested one at home;
  if a consuming wallet pays, each node's hop carries a payer with that wallet's address that proves
  ownership of the wallet for that node, and otherwise none; and the origin finally reads its return route id.\<close>

theorem round_trip_travels:
  assumes "family = null_family lib \<or> family = real_family lib na chain_id"
    and "\<And>n. n \<in> set over \<union> set bk \<Longrightarrow> family n" "over \<noteq> []" "2 \<le> length bk"
    and "hd bk = last over" "last bk = origin" "wallet_pays env w c"
    and "hop_codec_law env"
    and "codec_roundtrips (id_codec env) i"
  shows "\<exists>r hs r'. round_trip env (route_segment_new (map cd_public_key over) there)
      (route_segment_new (map cd_public_key bk) home) origin w i c = Ok (Ok r) \<and>
    travel env (over @ tl bk) r = Ok (hs, r') \<and>
    map hop_public_key hs = map cd_public_key (tl over @ tl bk) @ [[]] \<and>
    map hop_component hs = replicate (length over - 1) Hopper @ there # replicate (length bk - 2) Hopper @ [home] \<and>
    list_all2 (payment_ok env w c) (over @ tl bk) hs \<and>
    route_id env r' origin = Ok i"
proof (rule disjE [OF assms(1)])
  assume "family = null_family lib"
  then show ?thesis
    using assms(2) by (intro null.round_trip_travelled [OF _ assms(3-9)]) simp
next
  assume "family = real_family lib na chain_id"
  then show ?thesis
    using assms(2) by (intro real.round_trip_travelled [OF _ assms(3-9)]) simp
qed

text \<open>Shifting a hop off a route hides how far the package has come: whenever it succeeds, the
  route has as many hops as before, with the lengths rotated by one, the hop that was read being
  replaced by random bytes of its length at the end; when the hop cannot be read it is dropped, and
  an empty route stays empty and is reported as such.\<close>

theorem shift_hides_progress:
  assumes "family = null_family lib \<or> family = real_family lib na chain_id" "family cryptde"
  shows "case shift env cryptde r of
      (Inr h, r') \<Rightarrow> map length (route_hops r') = rotate1 (map length (route_hops r)) \<and>
        next_hop env r cryptde = Ok h
    | (Inl e, r') \<Rightarrow> route_hops r' = tl (route_hops r) \<and> next_hop env r cryptde = Err e \<and>
        (e = EmptyRoute \<longleftrightarrow> route_hops r = [])"
proof -
  have len: "length (cd_random cryptde n) = n" for n
    using assms null.random_length [of lib cryptde n] real.random_length [of lib na chain_id cryptde n] by auto
  have "decode_hop env cryptde e \<noteq> Err EmptyRoute" for e
    by (simp add: decode_hop_def split: sum.split)
  then show ?thesis
    by (cases "route_hops r") (auto simp: shift_def next_hop_def len split: sum.splits)
qed

section \<open>Examples\<close>

text \<open>A serializer for hops without payers, and one for small route ids.\<close>

definition example_hop_codec :: "live_hop codec" where
  "example_hop_codec =
     \<lparr> to_vec = (\<lambda>h. if hop_payer h = None then Ok (serialize_component (hop_component h) # hop_public_key h)
         else Err ''payer''),
       from_slice = (\<lambda>b. case b of [] \<Rightarrow> Err ''empty''
         | x # k \<Rightarrow> bind_run (component_visit_u8 x) (\<lambda>c. Ok (live_hop_new k None c))) \<rparr>"

definition example_id_codec :: "u32 codec" where
  "example_id_codec = \<lparr> to_vec = (\<lambda>i. Ok [ucast i]), from_slice = (\<lambda>b. Ok (ucast (hd b))) \<rparr>"

definition example_route_env :: route_env where
  "example_route_env =
     \<lparr> hop_codec = example_hop_codec, id_codec = example_id_codec,
       rt_lib = example_libraries, rt_eth = example_ethsign \<rparr>"

definition example_node :: "u8 \<Rightarrow> cryptde" where
  "example_node x = null_cryptde example_libraries (null_new example_libraries [x] 1)"

lemma example_node_family: "null_family example_libraries (example_node x)"
  unfolding null_family_def example_node_def by (blast intro: null_keys_match_new list.distinct)

lemma example_id_codec_roundtrips: "codec_roundtrips example_id_codec 77"
  by (simp add: codec_roundtrips_def example_id_codec_def)

theorem shift_hides_progress_witness:
  "case shift example_route_env (example_node 1) \<lparr> route_hops = [[129, 1, 5], [9, 9]] \<rparr> of
      (Inr h, r') \<Rightarrow> map length (route_hops r') = [2, 3]
    | (Inl e, r') \<Rightarrow> route_hops r' = [[9, 9]]"
  using shift_hides_progress [where env = example_route_env and cryptde = "example_node 1"
      and r = "\<lparr> route_hops = [[129, 1, 5], [9, 9]] \<rparr>", OF disjI1 [OF refl] example_node_family]
  by (auto split: prod.splits sum.splits)

end
