(* ===== verification/NeighborhoodDb.thy ===== *)
theory NeighborhoodDb
  imports NodeTypes
begin

text \<open>
  Node records (\<open>neighborhood/node_record.rs\<close>), the gossip records they are built from
  (\<open>AccessibleGossipRecord\<close> of \<open>neighborhood/mod.rs\<close>, \<open>GossipNodeRecord\<close> of
  \<open>neighborhood/gossip.rs\<close>) and the neighborhood database
  (\<open>neighborhood/neighborhood_database.rs\<close>).

  The environment record \<open>nb_env\<close> holds what the code gets from outside: the node's \<open>CryptDE\<close>,
  the serde_cbor codec of \<open>NodeRecordInner\<close>, and \<open>key_order\<close>, the order in which a
  \<open>HashSet<&PublicKey>\<close> built from the given keys is iterated, which the standard library leaves
  unspecified. A method that takes \<open>&mut self\<close> returns the new value.

  The invariant \<open>db_ok\<close> says that both tables are proper maps, that every record is filed under
  its own key, that this node's own record is present and names only present nodes as its
  neighbors, never itself, and that the IP table points to records with that IP address.
\<close>

section \<open>Node records\<close>

record node_record_inner =
  nri_data_version :: data_version
  nri_public_key :: public_key
  nri_earning_wallet :: wallet
  nri_rate_pack :: rate_pack
  nri_neighbors :: "public_key btreeset"
  nri_accepts_connections :: bool
  nri_routes_data :: bool
  nri_version :: u32

record nb_env =
  env_cryptde :: cryptde
  inner_codec :: "node_record_inner codec"
  key_order :: "public_key list \<Rightarrow> public_key list"

record node_record_metadata =
  desirable :: bool
  md_node_addr_opt :: "node_addr option"

record node_record =
  nr_inner :: node_record_inner
  nr_metadata :: node_record_metadata
  nr_signed_gossip :: plain_data
  nr_signature :: crypt_data

record gossip_node_record =
  gnr_signed_data :: plain_data
  gnr_signature :: crypt_data
  gnr_node_addr_opt :: "node_addr option"

record accessible_gossip_record =
  agr_signed_gossip :: plain_data
  agr_signature :: crypt_data
  agr_node_addr_opt :: "node_addr option"
  agr_inner :: node_record_inner

datatype neighborhood_database_error =
    NodeKeyNotFound public_key
  | NodeKeyCollision public_key
  | DbSelfNeighborAttempt public_key
  | NodeAddrAlreadySet node_addr
  | EmptyPortList

datatype node_record_error = SelfNeighborAttempt public_key

datatype update_error = ChangedPublicKey | ChangedNodeAddr | ChangedRatePack

definition regenerate_signed_gossip_inner ::
    "nb_env \<Rightarrow> node_record_inner \<Rightarrow> (plain_data \<times> crypt_data) run" where
  "regenerate_signed_gossip_inner env inner =
     (case to_vec (inner_codec env) inner of
        Inl _ \<Rightarrow> Err ExpectFailed
      | Inr signed_gossip \<Rightarrow>
          (case cd_sign (env_cryptde env) signed_gossip of
             Inr sig \<Rightarrow> Ok (signed_gossip, sig)
           | Inl e \<Rightarrow> Err ExplicitPanic))"

definition inner_data_version :: "data_version run" where
  "inner_data_version = (case data_version_new 1 0 of Inr v \<Rightarrow> Ok v | Inl _ \<Rightarrow> Err ExpectFailed)"

definition inner_try_from :: "nb_env \<Rightarrow> gossip_node_record \<Rightarrow> string + node_record_inner" where
  "inner_try_from env gnr =
     (case from_slice (inner_codec env) (gnr_signed_data gnr) of
        Inr inner \<Rightarrow> Ok inner
      | Inl e \<Rightarrow> Err e)"

definition metadata_new :: node_record_metadata where
  "metadata_new = \<lparr> desirable = True, md_node_addr_opt = None \<rparr>"

definition nr_regenerate_signed_gossip :: "nb_env \<Rightarrow> node_record \<Rightarrow> node_record run" where
  "nr_regenerate_signed_gossip env self =
     bind_run (regenerate_signed_gossip_inner env (nr_inner self)) (\<lambda>(signed_gossip, signature).
     Ok (self\<lparr> nr_signed_gossip := signed_gossip, nr_signature := signature \<rparr>))"

definition node_record_new ::
    "nb_env \<Rightarrow> public_key \<Rightarrow> wallet \<Rightarrow> rate_pack \<Rightarrow> bool \<Rightarrow> bool \<Rightarrow> u32 \<Rightarrow> node_record run" where
  "node_record_new env public_key earning_wallet rate_pack accepts_connections routes_data version =
     bind_run inner_data_version (\<lambda>data_version.
     nr_regenerate_signed_gossip env
       \<lparr> nr_inner =
           \<lparr> nri_data_version = data_version, nri_public_key = public_key,
             nri_earning_wallet = earning_wallet, nri_rate_pack = rate_pack, nri_neighbors = [],
             nri_accepts_connections = accepts_connections, nri_routes_data = routes_data,
             nri_version = version \<rparr>,
         nr_metadata = metadata_new, nr_signed_gossip = [], nr_signature = [] \<rparr>)"

abbreviation nr_public_key :: "node_record \<Rightarrow> public_key" where
  "nr_public_key self \<equiv> nri_public_key (nr_inner self)"

abbreviation nr_version :: "node_record \<Rightarrow> u32" where
  "nr_version self \<equiv> nri_version (nr_inner self)"

definition nr_node_addr_opt :: "node_record \<Rightarrow> node_addr option" where
  "nr_node_addr_opt self = map_option node_addr_clone (md_node_addr_opt (nr_metadata self))"

definition set_node_addr ::
    "node_addr \<Rightarrow> node_record \<Rightarrow> neighborhood_database_error + bool \<times> node_record" where
  "set_node_addr node_addr self =
     (case md_node_addr_opt (nr_metadata self) of
        Some inner_node_addr \<Rightarrow>
          if node_addr = inner_node_addr then Ok (False, self)
          else Err (NodeAddrAlreadySet (node_addr_clone inner_node_addr))
      | None \<Rightarrow>
          Ok (True, self\<lparr> nr_metadata :=
            (nr_metadata self)\<lparr> md_node_addr_opt := Some (node_addr_clone node_addr) \<rparr> \<rparr>))"

definition unset_node_addr :: "node_record \<Rightarrow> node_record" where
  "unset_node_addr self =
     self\<lparr> nr_metadata := (nr_metadata self)\<lparr> md_node_addr_opt := None \<rparr> \<rparr>"

definition half_neighbor_keys :: "node_record \<Rightarrow> public_key list" where
  "half_neighbor_keys self = nri_neighbors (nr_inner self)"

definition nr_has_half_neighbor :: "node_record \<Rightarrow> public_key \<Rightarrow> bool" where
  "nr_has_half_neighbor self key \<longleftrightarrow> List.member (nri_neighbors (nr_inner self)) key"

definition add_half_neighbor_key :: "public_key \<Rightarrow> node_record \<Rightarrow> node_record_error + node_record" where
  "add_half_neighbor_key key self =
     (if key = nr_public_key self then Err (SelfNeighborAttempt (nr_public_key self))
      else Ok (self\<lparr> nr_inner :=
        (nr_inner self)\<lparr> nri_neighbors := bs_insert key (nri_neighbors (nr_inner self)) \<rparr> \<rparr>))"

definition remove_half_neighbor_key :: "public_key \<Rightarrow> node_record \<Rightarrow> bool \<times> node_record" where
  "remove_half_neighbor_key key self =
     (List.member (nri_neighbors (nr_inner self)) key,
      self\<lparr> nr_inner :=
        (nr_inner self)\<lparr> nri_neighbors := bs_remove key (nri_neighbors (nr_inner self)) \<rparr> \<rparr>)"

definition clear_half_neighbors :: "node_record \<Rightarrow> node_record" where
  "clear_half_neighbors self = self\<lparr> nr_inner := (nr_inner self)\<lparr> nri_neighbors := [] \<rparr> \<rparr>"

definition increment_version :: "node_record \<Rightarrow> node_record" where
  "increment_version self =
     self\<lparr> nr_inner := (nr_inner self)\<lparr> nri_version := nri_version (nr_inner self) + 1 \<rparr> \<rparr>"

definition set_version :: "u32 \<Rightarrow> node_record \<Rightarrow> node_record" where
  "set_version value self = self\<lparr> nr_inner := (nr_inner self)\<lparr> nri_version := value \<rparr> \<rparr>"

definition set_earning_wallet :: "wallet \<Rightarrow> node_record \<Rightarrow> bool \<times> node_record" where
  "set_earning_wallet earning_wallet self =
     (if wallet_eq (nri_earning_wallet (nr_inner self)) earning_wallet then (False, self)
      else (True, self\<lparr> nr_inner := (nr_inner self)\<lparr> nri_earning_wallet := earning_wallet \<rparr> \<rparr>))"

definition set_desirable :: "bool \<Rightarrow> node_record \<Rightarrow> node_record" where
  "set_desirable is_desirable self =
     self\<lparr> nr_metadata := (nr_metadata self)\<lparr> desirable := is_desirable \<rparr> \<rparr>"

definition nr_update :: "accessible_gossip_record \<Rightarrow> node_record \<Rightarrow> update_error + node_record" where
  "nr_update agr self =
     (if nri_public_key (agr_inner agr) \<noteq> nr_public_key self then Err ChangedPublicKey
      else if agr_node_addr_opt agr \<noteq> nr_node_addr_opt self then Err ChangedNodeAddr
      else if nri_rate_pack (agr_inner agr) \<noteq> nri_rate_pack (nr_inner self) then Err ChangedRatePack
      else Ok (self\<lparr> nr_metadata := (nr_metadata self)\<lparr> md_node_addr_opt := agr_node_addr_opt agr \<rparr>,
        nr_signed_gossip := agr_signed_gossip agr, nr_signature := agr_signature agr,
        nr_inner := agr_inner agr \<rparr>))"

definition node_record_from_agr :: "accessible_gossip_record \<Rightarrow> node_record" where
  "node_record_from_agr agr =
     \<lparr> nr_inner = agr_inner agr,
       nr_metadata = metadata_new\<lparr> md_node_addr_opt := agr_node_addr_opt agr \<rparr>,
       nr_signed_gossip = agr_signed_gossip agr,
       nr_signature = agr_signature agr \<rparr>"

definition agr_clone :: "accessible_gossip_record \<Rightarrow> accessible_gossip_record" where
  "agr_clone agr = agr\<lparr> agr_node_addr_opt := map_option node_addr_clone (agr_node_addr_opt agr) \<rparr>"

definition node_record_from_agr_ref :: "accessible_gossip_record \<Rightarrow> node_record" where
  "node_record_from_agr_ref agr_ref = node_record_from_agr (agr_clone agr_ref)"

definition node_record_try_from_gnr :: "nb_env \<Rightarrow> gossip_node_record \<Rightarrow> string + node_record" where
  "node_record_try_from_gnr env gnr =
     bind_run (inner_try_from env gnr) (\<lambda>inner.
     Ok \<lparr> nr_inner = inner,
          nr_metadata = metadata_new\<lparr> md_node_addr_opt :=
            map_option node_addr_clone (gnr_node_addr_opt gnr) \<rparr>,
          nr_signed_gossip = gnr_signed_data gnr,
          nr_signature = gnr_signature gnr \<rparr>)"

definition agr_try_from :: "nb_env \<Rightarrow> gossip_node_record \<Rightarrow> string + accessible_gossip_record" where
  "agr_try_from env value =
     (case from_slice (inner_codec env) (gnr_signed_data value) of
        Inr inner \<Rightarrow> Ok \<lparr> agr_signed_gossip = gnr_signed_data value, agr_signature = gnr_signature value,
          agr_node_addr_opt = gnr_node_addr_opt value, agr_inner = inner \<rparr>
      | Inl e \<Rightarrow> Err e)"

definition agr_regenerate_signed_gossip ::
    "nb_env \<Rightarrow> accessible_gossip_record \<Rightarrow> accessible_gossip_record run" where
  "agr_regenerate_signed_gossip env self =
     bind_run (regenerate_signed_gossip_inner env (agr_inner self)) (\<lambda>(signed_gossip, signature).
     Ok (self\<lparr> agr_signed_gossip := signed_gossip, agr_signature := signature \<rparr>))"

section \<open>The database\<close>

record neighborhood_database =
  this_node :: public_key
  by_public_key :: "(public_key, node_record) hashmap"
  by_ip_addr :: "(ip_addr, public_key) hashmap"

definition node_by_key :: "neighborhood_database \<Rightarrow> public_key \<Rightarrow> node_record option" where
  "node_by_key self public_key = hm_get (by_public_key self) public_key"

text \<open>\<open>node_by_key_mut\<close> with the change its caller makes through the reference.\<close>

definition node_by_key_mut ::
    "public_key \<Rightarrow> (node_record \<Rightarrow> node_record) \<Rightarrow> neighborhood_database \<Rightarrow> neighborhood_database" where
  "node_by_key_mut public_key change self =
     (case hm_get (by_public_key self) public_key of
        None \<Rightarrow> self
      | Some node \<Rightarrow> self\<lparr> by_public_key := hm_insert public_key (change node) (by_public_key self) \<rparr>)"

definition db_root :: "neighborhood_database \<Rightarrow> node_record run" where
  "db_root self = expect (node_by_key self (this_node self))"

definition root_mut ::
    "(node_record \<Rightarrow> node_record run) \<Rightarrow> neighborhood_database \<Rightarrow> neighborhood_database run" where
  "root_mut change self =
     bind_run (db_root self) (\<lambda>root. bind_run (change root) (\<lambda>root'.
     Ok (node_by_key_mut (this_node self) (\<lambda>_. root') self)))"

definition db_keys :: "neighborhood_database \<Rightarrow> public_key list" where
  "db_keys self = hm_keys (by_public_key self)"

definition node_by_ip :: "neighborhood_database \<Rightarrow> ip_addr \<Rightarrow> node_record option" where
  "node_by_ip self ip_addr =
     (case hm_get (by_ip_addr self) ip_addr of
        Some key \<Rightarrow> node_by_key self key
      | None \<Rightarrow> None)"

definition has_half_neighbor :: "neighborhood_database \<Rightarrow> public_key \<Rightarrow> public_key \<Rightarrow> bool" where
  "has_half_neighbor self from to =
     (case node_by_key self from of Some f \<Rightarrow> nr_has_half_neighbor f to | None \<Rightarrow> False)"

definition has_full_neighbor :: "neighborhood_database \<Rightarrow> public_key \<Rightarrow> public_key \<Rightarrow> bool" where
  "has_full_neighbor self from to \<longleftrightarrow> has_half_neighbor self from to \<and> has_half_neighbor self to from"

definition full_neighbor_keys :: "node_record \<Rightarrow> neighborhood_database \<Rightarrow> public_key list" where
  "full_neighbor_keys self db =
     filter (\<lambda>k. case node_by_key db k of
               Some node_record_ref \<Rightarrow> nr_has_half_neighbor node_record_ref (nr_public_key self)
             | None \<Rightarrow> False) (half_neighbor_keys self)"

definition full_neighbors ::
    "nb_env \<Rightarrow> node_record \<Rightarrow> neighborhood_database \<Rightarrow> node_record list run" where
  "full_neighbors env self db =
     map_run (\<lambda>k. case node_by_key db k of Some n \<Rightarrow> Ok n | None \<Rightarrow> Err ExplicitPanic)
       (key_order env (full_neighbor_keys self db))"

definition nr_has_full_neighbor :: "node_record \<Rightarrow> neighborhood_database \<Rightarrow> public_key \<Rightarrow> bool" where
  "nr_has_full_neighbor self db key =
     (if \<not> List.member (half_neighbor_keys self) key then False
      else case node_by_key db key of
             Some neighbor \<Rightarrow> List.member (half_neighbor_keys neighbor) (nr_public_key self)
           | None \<Rightarrow> False)"

definition gossip_target_degree :: "nb_env \<Rightarrow> neighborhood_database \<Rightarrow> public_key \<Rightarrow> nat run" where
  "gossip_target_degree env self target =
     (case node_by_key self target of
        None \<Rightarrow> Ok 0
      | Some target_node \<Rightarrow>
          bind_run (full_neighbors env target_node self) (\<lambda>neighbors.
          let full_accepting_degree =
                length (filter (\<lambda>n. nri_accepts_connections (nr_inner n)) neighbors);
              keys = db_keys self;
              nonexistent_degree =
                length (filter (\<lambda>k. \<not> List.member keys k) (half_neighbor_keys target_node))
          in Ok (full_accepting_degree + nonexistent_degree)))"

definition add_arbitrary_node :: "node_record \<Rightarrow> neighborhood_database \<Rightarrow> neighborhood_database" where
  "add_arbitrary_node node_record self =
     (let public_key = nr_public_key node_record;
          node_addr_opt = nr_node_addr_opt node_record;
          self' = self\<lparr> by_public_key := hm_insert public_key node_record (by_public_key self) \<rparr>
      in case node_addr_opt of
           Some node_addr \<Rightarrow>
             self'\<lparr> by_ip_addr := hm_insert (na_ip_addr node_addr) public_key (by_ip_addr self') \<rparr>
         | None \<Rightarrow> self')"

definition check_for_ports :: "node_addr option \<Rightarrow> neighborhood_database_error + unit" where
  "check_for_ports node_addr_opt =
     (case node_addr_opt of
        None \<Rightarrow> Ok ()
      | Some node_addr \<Rightarrow> if na_ports node_addr = [] then Err EmptyPortList else Ok ())"

definition check_for_collision ::
    "neighborhood_database \<Rightarrow> public_key \<Rightarrow> neighborhood_database_error + unit" where
  "check_for_collision self public_key =
     (if List.member (db_keys self) public_key then Err (NodeKeyCollision public_key) else Ok ())"

definition add_node ::
    "node_record \<Rightarrow> neighborhood_database \<Rightarrow>
       neighborhood_database_error + public_key \<times> neighborhood_database" where
  "add_node node_record self =
     (let public_key = nr_public_key node_record; node_addr_opt = nr_node_addr_opt node_record
      in bind_run (check_for_ports node_addr_opt) (\<lambda>_.
         bind_run (check_for_collision self public_key) (\<lambda>_.
         Ok (public_key, add_arbitrary_node node_record self))))"

definition add_half_neighbor ::
    "public_key \<Rightarrow> neighborhood_database \<Rightarrow>
       neighborhood_database_error + bool \<times> neighborhood_database" where
  "add_half_neighbor new_neighbor self =
     (if \<not> List.member (db_keys self) new_neighbor then Err (NodeKeyNotFound new_neighbor)
      else if has_half_neighbor self (this_node self) new_neighbor then Ok (False, self)
      else case node_by_key self (this_node self) of
             Some node \<Rightarrow>
               (case add_half_neighbor_key new_neighbor node of
                  Inl (SelfNeighborAttempt key) \<Rightarrow> Err (DbSelfNeighborAttempt key)
                | Inr node' \<Rightarrow> Ok (True, node_by_key_mut (this_node self) (\<lambda>_. node') self))
           | None \<Rightarrow> Err (NodeKeyNotFound (this_node self)))"

datatype remove_error = NonexistentNeighbor public_key

definition db_remove_neighbor ::
    "public_key \<Rightarrow> neighborhood_database \<Rightarrow> ((remove_error + bool) \<times> neighborhood_database) run" where
  "db_remove_neighbor node_key self =
     (case node_by_key self node_key of
        None \<Rightarrow> Ok (Err (NonexistentNeighbor node_key), self)
      | Some to_remove \<Rightarrow>
          let ip_addr = map_option na_ip_addr (nr_node_addr_opt to_remove);
              db1 = node_by_key_mut node_key unset_node_addr self;
              db2 = (case ip_addr of
                       Some addr \<Rightarrow> db1\<lparr> by_ip_addr := hm_remove addr (by_ip_addr db1) \<rparr>
                     | None \<Rightarrow> db1)
          in bind_run (db_root db2) (\<lambda>root.
             let (removed, root') = remove_half_neighbor_key node_key root;
                 db3 = node_by_key_mut (this_node db2) (\<lambda>_. root') db2
             in if removed
                then bind_run (root_mut (\<lambda>r. Ok (increment_version r)) db3) (\<lambda>db4.
                     Ok (Ok True, db4))
                else Ok (Ok False, db3)))"

definition database_new ::
    "nb_env \<Rightarrow> public_key \<Rightarrow> neighborhood_mode \<Rightarrow> wallet \<Rightarrow> neighborhood_database run" where
  "database_new env public_key neighborhood_mode earning_wallet =
     (let result = \<lparr> this_node = public_key, by_public_key = [], by_ip_addr = [] \<rparr>
      in bind_run (node_record_new env public_key earning_wallet (mode_rate_pack neighborhood_mode)
           (mode_accepts_connections neighborhood_mode) (mode_routes_data neighborhood_mode) 0)
         (\<lambda>node_record.
         bind_run (case mode_node_addr_opt neighborhood_mode of
                     Some node_addr \<Rightarrow>
                       (case set_node_addr node_addr node_record of
                          Inr (_, nr) \<Rightarrow> Ok nr
                        | Inl _ \<Rightarrow> Err ExpectFailed)
                   | None \<Rightarrow> Ok node_record) (\<lambda>node_record.
         bind_run (nr_regenerate_signed_gossip env node_record) (\<lambda>node_record.
         Ok (add_arbitrary_node node_record result)))))"

section \<open>The representation invariant\<close>

definition db_ok :: "neighborhood_database \<Rightarrow> bool" where
  "db_ok db \<longleftrightarrow>
     hm_ok (by_public_key db) \<and> hm_ok (by_ip_addr db) \<and>
     (\<forall>k n. node_by_key db k = Some n \<longrightarrow>
        nr_public_key n = k \<and> bs_ok (nri_neighbors (nr_inner n))) \<and>
     (\<exists>root. node_by_key db (this_node db) = Some root \<and>
        this_node db \<notin> set (half_neighbor_keys root) \<and>
        (\<forall>k \<in> set (half_neighbor_keys root). node_by_key db k \<noteq> None)) \<and>
     (\<forall>ip k. hm_get (by_ip_addr db) ip = Some k \<longrightarrow>
        (\<exists>n a. node_by_key db k = Some n \<and> nr_node_addr_opt n = Some a \<and> na_ip_addr a = ip))"

text \<open>What the standard library promises about iteration over a hash set: every element once.\<close>

definition key_order_ok :: "nb_env \<Rightarrow> bool" where
  "key_order_ok env \<longleftrightarrow>
     (\<forall>ks. set (key_order env ks) = set ks \<and> (distinct ks \<longrightarrow> distinct (key_order env ks)))"

named_theorems db_simps

lemma node_by_key_update [simp, db_simps]:
  "node_by_key (db\<lparr> by_ip_addr := m \<rparr>) k = node_by_key db k"
  "node_by_key (db\<lparr> by_public_key := hm_insert j n (by_public_key db) \<rparr>) k =
     (if k = j then Some n else node_by_key db k)"
  by (simp_all add: node_by_key_def)

lemma node_by_key_mut_simps [simp, db_simps]:
  "node_by_key (node_by_key_mut j change db) k =
     (if k = j then map_option change (node_by_key db k) else node_by_key db k)"
  "this_node (node_by_key_mut j change db) = this_node db"
  "by_ip_addr (node_by_key_mut j change db) = by_ip_addr db"
  by (auto simp: node_by_key_mut_def node_by_key_def split: option.splits)

lemma hm_ok_node_by_key_mut [simp]:
  "hm_ok (by_public_key db) \<Longrightarrow> hm_ok (by_public_key (node_by_key_mut j change db))"
  by (simp add: node_by_key_mut_def split: option.splits)

lemma db_keys_iff: "k \<in> set (db_keys db) \<longleftrightarrow> node_by_key db k \<noteq> None"
  by (simp add: db_keys_def node_by_key_def domIff)

lemma db_okI:
  assumes "hm_ok (by_public_key db)" "hm_ok (by_ip_addr db)"
    and "\<And>k n. node_by_key db k = Some n \<Longrightarrow> nr_public_key n = k \<and> bs_ok (half_neighbor_keys n)"
    and "\<exists>root. node_by_key db (this_node db) = Some root \<and>
        this_node db \<notin> set (half_neighbor_keys root) \<and>
        (\<forall>k \<in> set (half_neighbor_keys root). node_by_key db k \<noteq> None)"
    and "\<And>addr k. hm_get (by_ip_addr db) addr = Some k \<Longrightarrow>
        \<exists>n a. node_by_key db k = Some n \<and> nr_node_addr_opt n = Some a \<and> na_ip_addr a = addr"
  shows "db_ok db"
  unfolding db_ok_def using assms by (auto simp: half_neighbor_keys_def)

lemma db_ok_root:
  assumes "db_ok db"
  obtains root where "db_root db = Ok root" "node_by_key db (this_node db) = Some root"
    "nr_public_key root = this_node db" "this_node db \<notin> set (half_neighbor_keys root)"
    "\<And>k. k \<in> set (half_neighbor_keys root) \<Longrightarrow> node_by_key db k \<noteq> None"
    "bs_ok (half_neighbor_keys root)"
  using assms that by (auto simp: db_ok_def db_root_def half_neighbor_keys_def)

lemma db_ok_key: "db_ok db \<Longrightarrow> node_by_key db k = Some n \<Longrightarrow> nr_public_key n = k"
  by (simp add: db_ok_def)

lemma db_ok_neighbors: "db_ok db \<Longrightarrow> node_by_key db k = Some n \<Longrightarrow> bs_ok (half_neighbor_keys n)"
  by (simp add: db_ok_def half_neighbor_keys_def)

lemma db_ok_ip:
  "db_ok db \<Longrightarrow> hm_get (by_ip_addr db) addr = Some k \<Longrightarrow>
     \<exists>n a. node_by_key db k = Some n \<and> nr_node_addr_opt n = Some a \<and> na_ip_addr a = addr"
  by (simp add: db_ok_def)

lemma node_by_ip_eq:
  "db_ok db \<Longrightarrow> node_by_ip db addr = Some n \<Longrightarrow>
     node_by_key db (nr_public_key n) = Some n \<and> (\<exists>a. nr_node_addr_opt n = Some a \<and> na_ip_addr a = addr)"
  using db_ok_ip [of db addr] by (force simp: node_by_ip_def db_ok_key split: option.splits)

text \<open>Changing one record in place, when the change keeps what the invariant needs of it.\<close>

lemma db_ok_node_by_key_mut:
  assumes "db_ok db"
    and "\<And>n. node_by_key db j = Some n \<Longrightarrow>
           nr_public_key (change n) = j \<and> bs_ok (half_neighbor_keys (change n)) \<and>
           (nr_node_addr_opt n \<noteq> None \<longrightarrow>
              map_option na_ip_addr (nr_node_addr_opt (change n)) = map_option na_ip_addr (nr_node_addr_opt n)) \<and>
           (j = this_node db \<longrightarrow> this_node db \<notin> set (half_neighbor_keys (change n)) \<and>
              (\<forall>k \<in> set (half_neighbor_keys (change n)). node_by_key db k \<noteq> None))"
  shows "db_ok (node_by_key_mut j change db)"
proof -
  have ips: "\<exists>n a. node_by_key (node_by_key_mut j change db) k = Some n \<and>
      nr_node_addr_opt n = Some a \<and> na_ip_addr a = addr"
    if by_ip: "hm_get (by_ip_addr db) addr = Some k" for addr k
  proof -
    obtain n a where na: "node_by_key db k = Some n" "nr_node_addr_opt n = Some a" "na_ip_addr a = addr"
      using db_ok_ip [OF assms(1) by_ip] by blast
    show ?thesis
    proof (cases "k = j")
      case True
      then have "map_option na_ip_addr (nr_node_addr_opt (change n)) = Some addr"
        using assms(2) [of n] na by simp
      then show ?thesis
        using True na by auto
    qed (use na in auto)
  qed
  obtain root where root: "node_by_key db (this_node db) = Some root"
    "this_node db \<notin> set (half_neighbor_keys root)"
    "\<And>k. k \<in> set (half_neighbor_keys root) \<Longrightarrow> node_by_key db k \<noteq> None"
    using db_ok_root [OF assms(1)] by metis
  have "\<exists>root. node_by_key (node_by_key_mut j change db) (this_node db) = Some root \<and>
      this_node db \<notin> set (half_neighbor_keys root) \<and>
      (\<forall>k \<in> set (half_neighbor_keys root). node_by_key (node_by_key_mut j change db) k \<noteq> None)"
    using assms(2) root by (cases "j = this_node db") auto
  moreover have "nr_public_key n = k \<and> bs_ok (nri_neighbors (nr_inner n))"
    if "node_by_key (node_by_key_mut j change db) k = Some n" for k n
    using that assms(1) assms(2) by (auto simp: db_ok_def half_neighbor_keys_def split: if_splits)
  ultimately show ?thesis
    using assms(1) ips by (intro db_okI) (simp_all add: half_neighbor_keys_def db_ok_def)
qed


lemma nr_node_addr_opt_simps [simp]:
  "nr_node_addr_opt (n\<lparr> nr_inner := i \<rparr>) = nr_node_addr_opt n"
  "nr_node_addr_opt (n\<lparr> nr_signed_gossip := g \<rparr>) = nr_node_addr_opt n"
  "nr_node_addr_opt (n\<lparr> nr_signature := sg \<rparr>) = nr_node_addr_opt n"
  "nr_node_addr_opt (n\<lparr> nr_metadata := m\<lparr> md_node_addr_opt := None \<rparr> \<rparr>) = None"
  "nr_node_addr_opt (n\<lparr> nr_metadata := m\<lparr> desirable := d \<rparr> \<rparr>) = map_option node_addr_clone (md_node_addr_opt m)"
  by (simp_all add: nr_node_addr_opt_def)

lemma node_by_key_add_arbitrary_node [simp, db_simps]:
  "node_by_key (add_arbitrary_node n db) k = (if k = nr_public_key n then Some n else node_by_key db k)"
  "this_node (add_arbitrary_node n db) = this_node db"
  by (simp_all add: add_arbitrary_node_def Let_def split: option.splits)

lemma by_ip_add_arbitrary_node [db_simps]:
  "by_ip_addr (add_arbitrary_node n db) =
     (case nr_node_addr_opt n of
        Some a \<Rightarrow> hm_insert (na_ip_addr a) (nr_public_key n) (by_ip_addr db)
      | None \<Rightarrow> by_ip_addr db)"
  by (simp add: add_arbitrary_node_def Let_def split: option.splits)

lemma db_ok_add_arbitrary_node:
  assumes "db_ok db" "node_by_key db (nr_public_key n) = None" "bs_ok (half_neighbor_keys n)"
  shows "db_ok (add_arbitrary_node n db)"
proof -
  have hm: "hm_ok (by_public_key (add_arbitrary_node n db))" "hm_ok (by_ip_addr (add_arbitrary_node n db))"
    using assms(1) by (simp_all add: add_arbitrary_node_def Let_def db_ok_def split: option.splits)
  have "\<exists>n' a. node_by_key (add_arbitrary_node n db) k = Some n' \<and> nr_node_addr_opt n' = Some a \<and>
      na_ip_addr a = addr"
    if by_ip: "hm_get (by_ip_addr (add_arbitrary_node n db)) addr = Some k" for addr k
  proof (cases "nr_node_addr_opt n")
    case None
    then show ?thesis
      using that db_ok_ip [OF assms(1), of addr k] assms(2)
      by (auto simp: by_ip_add_arbitrary_node)
  next
    case (Some a)
    then show ?thesis
      using that db_ok_ip [OF assms(1), of addr k] assms(2)
      by (auto simp: by_ip_add_arbitrary_node split: if_splits)
  qed
  moreover have "\<exists>root. node_by_key (add_arbitrary_node n db) (this_node db) = Some root \<and>
      this_node db \<notin> set (half_neighbor_keys root) \<and>
      (\<forall>k \<in> set (half_neighbor_keys root). node_by_key (add_arbitrary_node n db) k \<noteq> None)"
  proof -
    obtain root where "node_by_key db (this_node db) = Some root"
      "this_node db \<notin> set (half_neighbor_keys root)"
      "\<And>k. k \<in> set (half_neighbor_keys root) \<Longrightarrow> node_by_key db k \<noteq> None"
      using db_ok_root [OF assms(1)] by metis
    moreover have "this_node db \<noteq> nr_public_key n"
      using \<open>node_by_key db (this_node db) = Some root\<close> assms(2) by auto
    ultimately show ?thesis
      by simp
  qed
  moreover have "nr_public_key n' = k \<and> bs_ok (nri_neighbors (nr_inner n'))"
    if "node_by_key (add_arbitrary_node n db) k = Some n'" for k n'
    using that assms by (auto simp: db_ok_def half_neighbor_keys_def split: if_splits)
  ultimately show ?thesis
    using hm by (intro db_okI) (simp_all only: half_neighbor_keys_def node_by_key_add_arbitrary_node)
qed

lemma add_node_Ok_iff:
  "add_node n db = Ok (k, db') \<longleftrightarrow>
     k = nr_public_key n \<and> node_by_key db k = None \<and>
     (\<forall>a. nr_node_addr_opt n = Some a \<longrightarrow> na_ports a \<noteq> []) \<and> db' = add_arbitrary_node n db"
  using db_keys_iff [of "nr_public_key n" db]
  by (auto simp: add_node_def check_for_ports_def check_for_collision_def bind_run_eq_Inr
      split: option.splits if_splits)

lemma db_ok_add_node:
  "db_ok db \<Longrightarrow> bs_ok (half_neighbor_keys n) \<Longrightarrow> add_node n db = Ok (k, db') \<Longrightarrow> db_ok db'"
  by (auto simp: add_node_Ok_iff db_ok_add_arbitrary_node)

lemma nr_has_half_neighbor_iff: "nr_has_half_neighbor n k \<longleftrightarrow> k \<in> set (half_neighbor_keys n)"
  by (simp add: nr_has_half_neighbor_def half_neighbor_keys_def)

text \<open>\<open>add_half_neighbor\<close>, completely: in a proper database it only fails for an absent node or
  for this node itself, and otherwise changes nothing but this node's neighbor set.\<close>

lemma add_half_neighbor_eq:
  assumes "db_ok db" "db_root db = Ok root"
  shows "add_half_neighbor k db =
    (if node_by_key db k = None then Err (NodeKeyNotFound k)
     else if k \<in> set (half_neighbor_keys root) then Ok (False, db)
     else if k = this_node db then Err (DbSelfNeighborAttempt k)
     else Ok (True, node_by_key_mut (this_node db) (\<lambda>_. root\<lparr> nr_inner := (nr_inner root)\<lparr>
       nri_neighbors := bs_insert k (half_neighbor_keys root) \<rparr> \<rparr>) db))"
proof -
  have root: "node_by_key db (this_node db) = Some root" "nr_public_key root = this_node db"
    using assms db_ok_root by (metis Inr_inject)+
  then have half: "has_half_neighbor db (this_node db) j \<longleftrightarrow> j \<in> set (nri_neighbors (nr_inner root))" for j
    by (simp add: has_half_neighbor_def nr_has_half_neighbor_iff half_neighbor_keys_def)
  show ?thesis
    using root db_keys_iff [of k db]
    by (simp add: add_half_neighbor_def half add_half_neighbor_key_def half_neighbor_keys_def)
qed

lemma db_ok_add_half_neighbor:
  assumes "db_ok db" "add_half_neighbor k db = Ok (b, db')"
  shows "db_ok db'"
proof -
  obtain root where root: "db_root db = Ok root" "node_by_key db (this_node db) = Some root"
    "nr_public_key root = this_node db" "this_node db \<notin> set (half_neighbor_keys root)"
    "\<And>k. k \<in> set (half_neighbor_keys root) \<Longrightarrow> node_by_key db k \<noteq> None"
    "bs_ok (half_neighbor_keys root)"
    using db_ok_root [OF assms(1)] by metis
  show ?thesis
  proof (cases "db' = db")
    case False
    then have "db' = node_by_key_mut (this_node db) (\<lambda>_. root\<lparr> nr_inner := (nr_inner root)\<lparr>
       nri_neighbors := bs_insert k (half_neighbor_keys root) \<rparr> \<rparr>) db"
      and "node_by_key db k \<noteq> None" "k \<noteq> this_node db"
      using assms(2) by (auto simp: add_half_neighbor_eq [OF assms(1) root(1)] split: if_splits)
    then show ?thesis
      using assms(1) root by (auto intro!: db_ok_node_by_key_mut simp: half_neighbor_keys_def)
  qed (use assms in simp)
qed

text \<open>\<open>remove_neighbor\<close> in a proper database.\<close>

definition forget_neighbor :: "public_key \<Rightarrow> node_record \<Rightarrow> node_record" where
  "forget_neighbor k root =
     (if k \<in> set (half_neighbor_keys root)
      then increment_version (snd (remove_half_neighbor_key k root)) else root)"

lemma remove_half_neighbor_key_absent:
  "k \<notin> set (half_neighbor_keys n) \<Longrightarrow> remove_half_neighbor_key k n = (False, n)"
  by (cases n) (simp add: remove_half_neighbor_key_def half_neighbor_keys_def bs_remove_def)

lemma remove_half_neighbor_key_present:
  "k \<in> set (half_neighbor_keys n) \<Longrightarrow>
     remove_half_neighbor_key k n = (True, snd (remove_half_neighbor_key k n))"
  by (simp add: remove_half_neighbor_key_def half_neighbor_keys_def)

definition unfile_ip :: "node_record \<Rightarrow> neighborhood_database \<Rightarrow> neighborhood_database" where
  "unfile_ip n db =
     (case nr_node_addr_opt n of
        Some a \<Rightarrow> db\<lparr> by_ip_addr := hm_remove (na_ip_addr a) (by_ip_addr db) \<rparr>
      | None \<Rightarrow> db)"

lemma unfile_ip_simps [simp, db_simps]:
  "node_by_key (unfile_ip n db) k = node_by_key db k"
  "this_node (unfile_ip n db) = this_node db"
  "by_public_key (unfile_ip n db) = by_public_key db"
  by (simp_all add: unfile_ip_def split: option.splits)

lemma node_by_key_mut_twice:
  "node_by_key_mut k (\<lambda>_. b) (node_by_key_mut k (\<lambda>_. a) db) = node_by_key_mut k (\<lambda>_. b) db"
proof (cases "hm_get (by_public_key db) k")
  case (Some n)
  then show ?thesis
    by (simp add: node_by_key_mut_def)
qed (simp add: node_by_key_mut_def)

lemma db_remove_neighbor_eq:
  assumes "db_ok db" "node_by_key db k = Some n"
    and "db1 = unfile_ip n (node_by_key_mut k unset_node_addr db)"
    and "node_by_key db1 (this_node db) = Some root"
  shows "\<exists>db'. db_remove_neighbor k db = Ok (Ok (k \<in> set (half_neighbor_keys root)), db') \<and>
    this_node db' = this_node db \<and> by_ip_addr db' = by_ip_addr db1 \<and>
    hm_ok (by_public_key db') \<and>
    (\<forall>j. node_by_key db' j =
       (if j = this_node db then Some (forget_neighbor k root) else node_by_key db1 j))"
proof -
  have r1: "db_root db1 = Ok root"
    using assms(3, 4) by (simp add: db_root_def)
  have "(case map_option na_ip_addr (nr_node_addr_opt n) of
       None \<Rightarrow> node_by_key_mut k unset_node_addr db
     | Some addr \<Rightarrow> (node_by_key_mut k unset_node_addr db)\<lparr> by_ip_addr :=
         hm_remove addr (by_ip_addr (node_by_key_mut k unset_node_addr db)) \<rparr>) = db1"
    by (simp add: assms(3) unfile_ip_def split: option.splits)
  then have eq: "db_remove_neighbor k db =
      (let (removed, root') = remove_half_neighbor_key k root;
           db3 = node_by_key_mut (this_node db1) (\<lambda>_. root') db1
       in if removed
          then bind_run (root_mut (\<lambda>r. Ok (increment_version r)) db3) (\<lambda>db4. Ok (Ok True, db4))
          else Ok (Ok False, db3))"
    using assms(2) r1 by (simp add: db_remove_neighbor_def)
  have ok: "hm_ok (by_public_key (node_by_key_mut j c db1))" for j c
    using assms(1, 3) by (simp add: db_ok_def)
  have this1: "this_node db1 = this_node db"
    using assms(3) by simp
  show ?thesis
  proof (cases "k \<in> set (half_neighbor_keys root)")
    case True
    then show ?thesis
      using assms(4) ok [of "this_node db"] this1
      by (subst eq, subst remove_half_neighbor_key_present)
         (auto simp: root_mut_def db_root_def node_by_key_mut_twice forget_neighbor_def)
  next
    case False
    then show ?thesis
      using assms(4) ok [of "this_node db"] this1
      by (auto simp: eq remove_half_neighbor_key_absent forget_neighbor_def)
  qed
qed

lemma unset_node_addr_simps [simp]:
  "nr_node_addr_opt (unset_node_addr n) = None"
  "nr_inner (unset_node_addr n) = nr_inner n"
  "half_neighbor_keys (unset_node_addr n) = half_neighbor_keys n"
  by (simp_all add: unset_node_addr_def half_neighbor_keys_def)

lemma forget_neighbor_simps [simp]:
  "nr_public_key (forget_neighbor k n) = nr_public_key n"
  "set (half_neighbor_keys (forget_neighbor k n)) = set (half_neighbor_keys n) - {k}"
  "nr_node_addr_opt (forget_neighbor k n) = nr_node_addr_opt n"
  "nr_version (forget_neighbor k n) = (if k \<in> set (half_neighbor_keys n) then nr_version n + 1 else nr_version n)"
  by (auto simp: forget_neighbor_def increment_version_def remove_half_neighbor_key_def
      half_neighbor_keys_def)

lemma bs_ok_forget_neighbor:
  "bs_ok (half_neighbor_keys n) \<Longrightarrow> bs_ok (half_neighbor_keys (forget_neighbor k n))"
  by (simp add: forget_neighbor_def increment_version_def remove_half_neighbor_key_def
      half_neighbor_keys_def)

lemma by_ip_unfile_ip:
  "by_ip_addr (unfile_ip n db) =
     (case nr_node_addr_opt n of Some a \<Rightarrow> hm_remove (na_ip_addr a) (by_ip_addr db) | None \<Rightarrow> by_ip_addr db)"
  by (simp add: unfile_ip_def split: option.splits)

text \<open>Removing a neighbor never panics, keeps the invariant, and its effect is: the record stays
  but loses its address, the address is unfiled, and this node no longer lists the key.\<close>

lemma db_remove_neighbor_effect:
  assumes ok: "db_ok db" and n: "node_by_key db k = Some n" and root: "db_root db = Ok root"
  obtains db' where
    "db_remove_neighbor k db = Ok (Ok (k \<in> set (half_neighbor_keys root)), db')"
    "db_ok db'" "this_node db' = this_node db"
    "\<And>j. node_by_key db' j =
       (if j = this_node db then Some (forget_neighbor k (if k = j then unset_node_addr root else root))
        else if j = k then Some (unset_node_addr n) else node_by_key db j)"
    "\<And>a. nr_node_addr_opt n = Some a \<Longrightarrow> node_by_ip db' (na_ip_addr a) = None"
proof -
  define db1 where "db1 = unfile_ip n (node_by_key_mut k unset_node_addr db)"
  define root1 where "root1 = (if k = this_node db then unset_node_addr root else root)"
  obtain root0 where "db_root db = Ok root0" "node_by_key db (this_node db) = Some root0"
    "nr_public_key root0 = this_node db" "this_node db \<notin> set (half_neighbor_keys root0)"
    "\<And>k. k \<in> set (half_neighbor_keys root0) \<Longrightarrow> node_by_key db k \<noteq> None" "bs_ok (half_neighbor_keys root0)"
    using db_ok_root [OF ok] by metis
  then have r: "node_by_key db (this_node db) = Some root" "nr_public_key root = this_node db"
    "this_node db \<notin> set (half_neighbor_keys root)" "bs_ok (half_neighbor_keys root)"
    "\<And>k. k \<in> set (half_neighbor_keys root) \<Longrightarrow> node_by_key db k \<noteq> None"
    using root by simp_all
  have r1: "node_by_key db1 (this_node db) = Some root1"
    using n r(1) by (auto simp: db1_def root1_def)
  have half1: "half_neighbor_keys root1 = half_neighbor_keys root"
    by (simp add: root1_def)
  obtain db' where eq: "db_remove_neighbor k db = Ok (Ok (k \<in> set (half_neighbor_keys root)), db')"
    and same: "this_node db' = this_node db" "by_ip_addr db' = by_ip_addr db1" "hm_ok (by_public_key db')"
    and nodes: "\<And>j. node_by_key db' j =
       (if j = this_node db then Some (forget_neighbor k root1) else node_by_key db1 j)"
    using db_remove_neighbor_eq [OF ok n db1_def r1] half1 by auto
  have nodes': "node_by_key db' j =
       (if j = this_node db then Some (forget_neighbor k (if k = j then unset_node_addr root else root))
        else if j = k then Some (unset_node_addr n) else node_by_key db j)" for j
    using n by (simp add: nodes db1_def root1_def)
  have ip: "by_ip_addr db' = (case nr_node_addr_opt n of
      Some a \<Rightarrow> hm_remove (na_ip_addr a) (by_ip_addr db) | None \<Rightarrow> by_ip_addr db)"
    by (simp add: same db1_def by_ip_unfile_ip split: option.split)
  have "db_ok db'"
  proof (rule db_okI, goal_cases)
    case 2
    then show ?case
      using ok by (simp add: ip db_ok_def split: option.splits)
  next
    case (3 j m)
    then show ?case
      using db_ok_key [OF ok, of j m] db_ok_neighbors [OF ok, of j m] db_ok_key [OF ok n]
        db_ok_neighbors [OF ok n] r
      by (auto simp: nodes' bs_ok_forget_neighbor split: if_splits)
  next
    case 4
    then show ?case
      using r by (auto simp: same nodes')
  next
    case (5 addr j)
    then have get: "hm_get (by_ip_addr db) addr = Some j" "\<And>a. nr_node_addr_opt n = Some a \<Longrightarrow> addr \<noteq> na_ip_addr a"
      by (auto simp: ip split: option.splits if_splits)
    then obtain m a where m: "node_by_key db j = Some m" "nr_node_addr_opt m = Some a" "na_ip_addr a = addr"
      using db_ok_ip [OF ok, of addr j] by blast
    then have "j \<noteq> k"
      using n get(2) by auto
    then show ?case
      using m r(1) by (auto simp: nodes')
  qed (rule same)
  moreover have "node_by_ip db' (na_ip_addr a) = None" if "nr_node_addr_opt n = Some a" for a
    using that by (simp add: node_by_ip_def ip)
  ultimately show ?thesis
    using that eq same(1) nodes' by blast
qed

lemma db_remove_neighbor_absent:
  "node_by_key db k = None \<Longrightarrow> db_remove_neighbor k db = Ok (Err (NonexistentNeighbor k), db)"
  by (simp add: db_remove_neighbor_def)

text \<open>Neighbor counts do not depend on the iteration order.\<close>

lemma full_neighbor_keys_mem:
  "k \<in> set (full_neighbor_keys n db) \<longleftrightarrow>
     k \<in> set (half_neighbor_keys n) \<and>
     (\<exists>m. node_by_key db k = Some m \<and> nr_public_key n \<in> set (half_neighbor_keys m))"
  by (auto simp: full_neighbor_keys_def nr_has_half_neighbor_iff split: option.splits)

lemma full_neighbors_Ok:
  assumes "key_order_ok env"
  shows "full_neighbors env n db =
    Ok (map (\<lambda>k. the (node_by_key db k)) (key_order env (full_neighbor_keys n db)))"
  unfolding full_neighbors_def
proof (rule map_run_total)
  fix k
  assume "k \<in> set (key_order env (full_neighbor_keys n db))"
  then have "k \<in> set (full_neighbor_keys n db)"
    using assms by (simp add: key_order_ok_def)
  then show "(case node_by_key db k of None \<Rightarrow> Err ExplicitPanic | Some n \<Rightarrow> Ok n) =
      Ok (the (node_by_key db k))"
    by (auto simp: full_neighbor_keys_mem)
qed

definition accepting_full_neighbors :: "neighborhood_database \<Rightarrow> node_record \<Rightarrow> public_key set" where
  "accepting_full_neighbors db n =
     {k \<in> set (full_neighbor_keys n db). \<exists>m. node_by_key db k = Some m \<and> nri_accepts_connections (nr_inner m)}"

definition unknown_neighbors :: "neighborhood_database \<Rightarrow> node_record \<Rightarrow> public_key set" where
  "unknown_neighbors db n = {k \<in> set (half_neighbor_keys n). node_by_key db k = None}"

definition target_degree :: "neighborhood_database \<Rightarrow> public_key \<Rightarrow> nat" where
  "target_degree db k =
     (case node_by_key db k of
        None \<Rightarrow> 0
      | Some n \<Rightarrow> card (accepting_full_neighbors db n) + card (unknown_neighbors db n))"

lemma length_filter_map_distinct:
  assumes "distinct xs"
  shows "length (filter P (map f xs)) = card {x \<in> set xs. P (f x)}"
  using assms distinct_card [of "filter (\<lambda>x. P (f x)) xs"] by (simp add: filter_map comp_def)

lemma gossip_target_degree_Ok:
  assumes "key_order_ok env" "db_ok db"
  shows "gossip_target_degree env db k = Ok (target_degree db k)"
proof (cases "node_by_key db k")
  case (Some n)
  let ?fk = "full_neighbor_keys n db"
  have dist: "distinct (half_neighbor_keys n)"
    using db_ok_neighbors [OF assms(2) Some] by (simp add: bs_ok_def)
  then have "distinct ?fk"
    by (simp add: full_neighbor_keys_def)
  then have o: "distinct (key_order env ?fk)" "set (key_order env ?fk) = set ?fk"
    using assms(1) by (simp_all add: key_order_ok_def)
  have "accepting_full_neighbors db n =
      {k \<in> set ?fk. nri_accepts_connections (nr_inner (the (node_by_key db k)))}"
    by (auto simp: accepting_full_neighbors_def full_neighbor_keys_mem)
  then have acc: "length (filter (\<lambda>n. nri_accepts_connections (nr_inner n))
      (map (\<lambda>k. the (node_by_key db k)) (key_order env ?fk))) = card (accepting_full_neighbors db n)"
    using o by (simp only: length_filter_map_distinct)
  have "unknown_neighbors db n = set (filter (\<lambda>k. \<not> List.member (db_keys db) k) (half_neighbor_keys n))"
    using db_keys_iff by (auto simp: unknown_neighbors_def)
  then have unk: "length (filter (\<lambda>k. \<not> List.member (db_keys db) k) (half_neighbor_keys n)) =
      card (unknown_neighbors db n)"
    using dist by (metis distinct_card distinct_filter)
  show ?thesis
    using Some acc unk by (simp add: gossip_target_degree_def full_neighbors_Ok [OF assms(1)] target_degree_def Let_def)
qed (simp add: gossip_target_degree_def target_degree_def)

section \<open>The initial database\<close>

text \<open>The codec serializes the records whose wallet is initialized, and these only: the serializer of a
  wallet panics on one that is not (\<open>wallet_serialize\<close>). The node's \<open>CryptDE\<close> signs the result.\<close>

definition has_wallet :: "node_record_inner \<Rightarrow> bool" where
  "has_wallet inner \<longleftrightarrow> kind (nri_earning_wallet inner) \<noteq> Uninitialized"

definition env_signs :: "nb_env \<Rightarrow> bool" where
  "env_signs env \<longleftrightarrow> (\<forall>inner.
     if has_wallet inner then \<exists>sg sig. to_vec (inner_codec env) inner = Inr sg \<and> cd_sign (env_cryptde env) sg = Inr sig
     else isl (to_vec (inner_codec env) inner))"

lemma env_signsD:
  assumes "env_signs env"
  shows "has_wallet inner \<Longrightarrow> \<exists>sg sig. to_vec (inner_codec env) inner = Inr sg \<and> cd_sign (env_cryptde env) sg = Inr sig"
    "to_vec (inner_codec env) inner = Inr sg \<Longrightarrow> has_wallet inner"
proof -
  have "if has_wallet inner then \<exists>sg sig. to_vec (inner_codec env) inner = Inr sg \<and> cd_sign (env_cryptde env) sg = Inr sig
      else isl (to_vec (inner_codec env) inner)"
    using spec [OF assms [unfolded env_signs_def]] .
  then show "has_wallet inner \<Longrightarrow> \<exists>sg sig. to_vec (inner_codec env) inner = Inr sg \<and> cd_sign (env_cryptde env) sg = Inr sig"
    "to_vec (inner_codec env) inner = Inr sg \<Longrightarrow> has_wallet inner"
    by (simp_all split: if_split_asm)
qed

lemma regenerate_Ok:
  assumes "env_signs env" "has_wallet (nr_inner n)"
  obtains sg sig where "nr_regenerate_signed_gossip env n =
      Ok (n\<lparr> nr_signed_gossip := sg, nr_signature := sig \<rparr>)"
    "to_vec (inner_codec env) (nr_inner n) = Inr sg" "cd_sign (env_cryptde env) sg = Inr sig"
proof -
  obtain sg sig where "to_vec (inner_codec env) (nr_inner n) = Inr sg" "cd_sign (env_cryptde env) sg = Inr sig"
    using env_signsD(1) [OF assms] by blast
  then show thesis
    by (intro that) (simp_all add: nr_regenerate_signed_gossip_def regenerate_signed_gossip_inner_def)
qed

lemma inner_data_version_Ok: "\<exists>v. inner_data_version = Ok v"
  by (simp add: inner_data_version_def data_version_new_def Let_def word_le_nat_alt)

lemma regenerate_has_wallet: "env_signs env \<Longrightarrow> nr_regenerate_signed_gossip env n = Ok n' \<Longrightarrow> has_wallet (nr_inner n)"
  by (auto simp: nr_regenerate_signed_gossip_def regenerate_signed_gossip_inner_def split: sum.split_asm dest: env_signsD(2))

text \<open>A node without an initialized wallet cannot make its database.\<close>

lemma database_new_wallet:
  assumes "env_signs env" "database_new env k mode w = Ok db"
  shows "kind w \<noteq> Uninitialized"
proof -
  obtain v n n' where "inner_data_version = Ok v" "nr_regenerate_signed_gossip env n = Ok n'" "nri_earning_wallet (nr_inner n) = w"
    using assms(2) by (auto simp: database_new_def node_record_new_def Let_def elim!: bind_run_InrE split: sum.split_asm)
  with regenerate_has_wallet [OF assms(1)] show ?thesis
    by (auto simp: has_wallet_def)
qed

lemma database_new_shape:
  assumes "env_signs env" "kind w \<noteq> Uninitialized"
  shows "\<exists>root. database_new env k mode w =
      Ok (add_arbitrary_node root \<lparr> this_node = k, by_public_key = [], by_ip_addr = [] \<rparr>) \<and>
    nr_public_key root = k \<and> half_neighbor_keys root = [] \<and> nr_version root = 0 \<and>
    nri_accepts_connections (nr_inner root) = mode_accepts_connections mode \<and>
    nr_node_addr_opt root = mode_node_addr_opt mode \<and> has_wallet (nr_inner root) \<and>
    to_vec (inner_codec env) (nr_inner root) = Inr (nr_signed_gossip root) \<and>
    cd_sign (env_cryptde env) (nr_signed_gossip root) = Inr (nr_signature root)"
proof -
  obtain v where v: "inner_data_version = Ok v"
    using inner_data_version_Ok by blast
  define n0 where "n0 = \<lparr> nr_inner = \<lparr> nri_data_version = v, nri_public_key = k,
      nri_earning_wallet = w, nri_rate_pack = mode_rate_pack mode, nri_neighbors = [],
      nri_accepts_connections = mode_accepts_connections mode, nri_routes_data = mode_routes_data mode,
      nri_version = 0 \<rparr>, nr_metadata = metadata_new, nr_signed_gossip = [], nr_signature = [] \<rparr>"
  have w0: "has_wallet (nr_inner n0)"
    using assms(2) by (simp add: n0_def has_wallet_def)
  obtain sg0 sig0 where "nr_regenerate_signed_gossip env n0 =
      Ok (n0\<lparr> nr_signed_gossip := sg0, nr_signature := sig0 \<rparr>)"
    using regenerate_Ok [OF assms(1) w0] by metis
  then obtain n where n: "node_record_new env k w (mode_rate_pack mode) (mode_accepts_connections mode)
      (mode_routes_data mode) 0 = Ok n"
    and props: "nr_public_key n = k" "half_neighbor_keys n = []" "nr_version n = 0"
      "nri_accepts_connections (nr_inner n) = mode_accepts_connections mode"
      "nr_metadata n = metadata_new" "has_wallet (nr_inner n)"
    using w0 by (auto simp: node_record_new_def v half_neighbor_keys_def n0_def)
  define n1 where "n1 = (case mode_node_addr_opt mode of
      None \<Rightarrow> n | Some a \<Rightarrow> n\<lparr> nr_metadata := metadata_new\<lparr> md_node_addr_opt := Some (node_addr_clone a) \<rparr> \<rparr>)"
  have step: "(case mode_node_addr_opt mode of
       None \<Rightarrow> Ok n
     | Some node_addr \<Rightarrow> (case set_node_addr node_addr n of Inl _ \<Rightarrow> Err ExpectFailed | Inr (_, nr) \<Rightarrow> Ok nr)) =
     Ok n1"
    using props(5) by (simp add: n1_def set_node_addr_def metadata_new_def split: option.splits)
  have inner: "nr_inner n1 = nr_inner n"
    by (simp add: n1_def split: option.splits)
  obtain sg sig where r: "nr_regenerate_signed_gossip env n1 = Ok (n1\<lparr> nr_signed_gossip := sg, nr_signature := sig \<rparr>)"
    "to_vec (inner_codec env) (nr_inner n1) = Inr sg" "cd_sign (env_cryptde env) sg = Inr sig"
    using regenerate_Ok [OF assms(1), of n1] props(6) inner by metis
  have addr: "nr_node_addr_opt n1 = mode_node_addr_opt mode"
    using props(5) by (cases mode) (auto simp: n1_def nr_node_addr_opt_def metadata_new_def)
  show ?thesis
    using r step n props addr
    by (intro exI [of _ "n1\<lparr> nr_signed_gossip := sg, nr_signature := sig \<rparr>"])
       (simp add: database_new_def inner half_neighbor_keys_def)
qed

lemma db_ok_new:
  assumes "env_signs env" "kind w \<noteq> Uninitialized"
  shows "\<exists>db. database_new env k mode w = Ok db \<and> db_ok db \<and> this_node db = k"
proof -
  obtain root where eq: "database_new env k mode w =
      Ok (add_arbitrary_node root \<lparr> this_node = k, by_public_key = [], by_ip_addr = [] \<rparr>)"
    and r: "nr_public_key root = k" "half_neighbor_keys root = []"
    using database_new_shape [OF assms] by metis
  have "db_ok (add_arbitrary_node root \<lparr> this_node = k, by_public_key = [], by_ip_addr = [] \<rparr>)"
  proof (rule db_okI, goal_cases)
    case 1
    then show ?case by (simp add: add_arbitrary_node_def Let_def split: option.splits)
  next
    case 2
    then show ?case by (simp add: by_ip_add_arbitrary_node split: option.splits)
  next
    case (3 j n)
    then show ?case using r by (auto simp: node_by_key_def [of "\<lparr> this_node = k, by_public_key = [], by_ip_addr = [] \<rparr>"] split: if_splits)
  next
    case 4
    then show ?case using r by simp
  next
    case (5 addr j)
    then show ?case using r by (auto simp: by_ip_add_arbitrary_node split: option.splits if_splits)
  qed
  with eq show ?thesis by simp
qed

section \<open>Properties\<close>

text \<open>C31. The neighborhood database keeps its representation invariant. The database a node starts with
  satisfies it; it can be made, by a node whose serializer and \<open>CryptDE\<close> work, exactly when the earning
  wallet is initialized, and the attempt panics otherwise. Adding a node and adding a half neighbor
  preserve the invariant whenever they succeed, and removing a neighbor, which never panics in such a
  database, preserves it too.\<close>

theorem database_invariant:
  assumes "env_signs env" "db_ok db" "bs_ok (half_neighbor_keys n)"
  shows "(if kind w = Uninitialized then isl (database_new env k mode w)
      else \<exists>db0. database_new env k mode w = Ok db0 \<and> db_ok db0) \<and>
    (case add_node n db of Inr (_, db') \<Rightarrow> db_ok db' | Inl _ \<Rightarrow> True) \<and>
    (case add_half_neighbor k db of Inr (_, db') \<Rightarrow> db_ok db' | Inl _ \<Rightarrow> True) \<and>
    (\<exists>r db'. db_remove_neighbor k db = Ok (r, db') \<and> db_ok db')"
proof (intro conjI)
  show "if kind w = Uninitialized then isl (database_new env k mode w)
      else \<exists>db0. database_new env k mode w = Ok db0 \<and> db_ok db0"
    using db_ok_new [OF assms(1), of w k mode] database_new_wallet [OF assms(1), of k mode w]
    by (cases "database_new env k mode w") auto
  show "case add_node n db of Inr (_, db') \<Rightarrow> db_ok db' | Inl _ \<Rightarrow> True"
    using db_ok_add_node [OF assms(2, 3)] by (auto split: sum.splits)
  show "case add_half_neighbor k db of Inr (_, db') \<Rightarrow> db_ok db' | Inl _ \<Rightarrow> True"
    using db_ok_add_half_neighbor [OF assms(2)] by (auto split: sum.splits)
  show "\<exists>r db'. db_remove_neighbor k db = Ok (r, db') \<and> db_ok db'"
    using assms(2) db_remove_neighbor_effect [OF assms(2)] db_remove_neighbor_absent [of db k]
      db_ok_root [OF assms(2)]
    by (cases "node_by_key db k") metis+
qed

text \<open>Removing a neighbor from a proper database: the result says whether this node listed
  the key; afterwards this node does not list it, its own version has gone up by one exactly when
  it did, the removed node's record survives without its address, lookups by that address find
  nothing, and no other record has changed.\<close>

theorem remove_neighbor_effect:
  assumes "db_ok db" "db_root db = Ok root" "node_by_key db k = Some n" "k \<noteq> this_node db"
  shows "\<exists>db' root'. db_remove_neighbor k db = Ok (Ok (k \<in> set (half_neighbor_keys root)), db') \<and>
    db_root db' = Ok root' \<and>
    set (half_neighbor_keys root') = set (half_neighbor_keys root) - {k} \<and>
    nr_version root' = (if k \<in> set (half_neighbor_keys root) then nr_version root + 1 else nr_version root) \<and>
    node_by_key db' k = Some (unset_node_addr n) \<and>
    (\<forall>a. nr_node_addr_opt n = Some a \<longrightarrow> node_by_ip db' (na_ip_addr a) = None) \<and>
    (\<forall>j. j \<noteq> k \<and> j \<noteq> this_node db \<longrightarrow> node_by_key db' j = node_by_key db j)"
proof -
  obtain db' where "db_remove_neighbor k db = Ok (Ok (k \<in> set (half_neighbor_keys root)), db')"
    "this_node db' = this_node db"
    and nodes: "\<And>j. node_by_key db' j =
       (if j = this_node db then Some (forget_neighbor k (if k = j then unset_node_addr root else root))
        else if j = k then Some (unset_node_addr n) else node_by_key db j)"
    and "\<And>a. nr_node_addr_opt n = Some a \<Longrightarrow> node_by_ip db' (na_ip_addr a) = None"
    using db_remove_neighbor_effect [OF assms(1, 3, 2)] by metis
  then show ?thesis
    using assms(4) by (intro exI [of _ db'] exI [of _ "forget_neighbor k root"]) (simp add: db_root_def)
qed

definition example_env :: nb_env where
  "example_env =
     \<lparr> env_cryptde = null_cryptde example_libraries (null_new example_libraries [1] 1),
       inner_codec = \<lparr> to_vec = (\<lambda>i. if has_wallet i then Ok [7] else Err ''wallet''), from_slice = (\<lambda>b. Err ''unreadable'') \<rparr>,
       key_order = rev \<rparr>"

lemma example_env_ok: "env_signs example_env" "key_order_ok example_env"
  by (simp_all add: env_signs_def key_order_ok_def example_env_def null_cryptde_def null_sign_def
      null_hash_def null_new_def encode_with_key_data_def example_libraries_def Let_def)

definition example_record :: "public_key \<Rightarrow> public_key list \<Rightarrow> node_addr option \<Rightarrow> node_record" where
  "example_record k ks addr =
     \<lparr> nr_inner = \<lparr> nri_data_version = DataVersion 0 16 0, nri_public_key = k,
         nri_earning_wallet = \<lparr> kind = Address [] \<rparr>, nri_rate_pack = DEFAULT_RATE_PACK,
         nri_neighbors = ks, nri_accepts_connections = True, nri_routes_data = True, nri_version = 3 \<rparr>,
       nr_metadata = \<lparr> desirable = True, md_node_addr_opt = addr \<rparr>,
       nr_signed_gossip = [], nr_signature = [] \<rparr>"

lemma example_has_wallet: "has_wallet (nr_inner (example_record k ks addr))"
  by (simp add: has_wallet_def example_record_def)

definition example_addr :: "u8 \<Rightarrow> node_addr" where
  "example_addr x = \<lparr> na_ip_addr = V4 1 2 3 x, na_ports = [1234] \<rparr>"

text \<open>A database with this node (key 1) and two others; this node lists node 2.\<close>

definition example_db :: neighborhood_database where
  "example_db =
     \<lparr> this_node = [1],
       by_public_key = [([1], example_record [1] [[2]] (Some (example_addr 1))),
         ([2], example_record [2] [[1], [3]] (Some (example_addr 2))),
         ([3], example_record [3] [[2]] None)],
       by_ip_addr = [(V4 1 2 3 1, [1]), (V4 1 2 3 2, [2])] \<rparr>"

lemma example_addr_opt:
  "nr_node_addr_opt (example_record k ks addr) = map_option node_addr_clone addr"
  "node_addr_clone (example_addr x) = example_addr x"
  by (simp_all add: example_record_def nr_node_addr_opt_def node_addr_normal_def example_addr_def)

lemma example_db_nodes:
  "node_by_key example_db k =
     (if k = [1] then Some (example_record [1] [[2]] (Some (example_addr 1)))
      else if k = [2] then Some (example_record [2] [[1], [3]] (Some (example_addr 2)))
      else if k = [3] then Some (example_record [3] [[2]] None) else None)"
  by (simp add: example_db_def node_by_key_def hm_get_def)

lemma example_record_simps [simp]:
  "nr_public_key (example_record k ks addr) = k"
  "half_neighbor_keys (example_record k ks addr) = ks"
  "nr_version (example_record k ks addr) = 3"
  "nri_accepts_connections (nr_inner (example_record k ks addr))"
  by (simp_all add: example_record_def half_neighbor_keys_def)

lemma example_db_ok: "db_ok example_db"
proof (rule db_okI, goal_cases)
  case (3 k n)
  then show ?case
    by (auto simp: example_db_nodes bs_ok_def split: if_splits)
next
  case 4
  then show ?case
    by (simp add: example_db_nodes) (simp add: example_db_def)
next
  case (5 addr k)
  then show ?case
    by (auto simp: example_db_def hm_get_def split: if_splits)
      (simp_all add: example_db_def [symmetric] example_db_nodes example_addr_opt,
       simp_all add: example_addr_def)
qed (simp_all add: example_db_def hm_ok_def)

theorem database_invariant_witness:
  "(\<exists>db0. database_new example_env [2] ZeroHop \<lparr> kind = Address (replicate 20 9) \<rparr> = Ok db0 \<and> db_ok db0) \<and>
   isl (database_new example_env [2] ZeroHop \<lparr> kind = Uninitialized \<rparr>) \<and>
   (\<exists>r db'. db_remove_neighbor [2] example_db = Ok (r, db') \<and> db_ok db')"
  using database_invariant [OF example_env_ok(1) example_db_ok, of "example_record [9] [] None" "\<lparr> kind = Uninitialized \<rparr>" "[2]" ZeroHop]
    database_invariant [OF example_env_ok(1) example_db_ok, of "example_record [9] [] None" "\<lparr> kind = Address (replicate 20 9) \<rparr>" "[2]" ZeroHop]
  by simp

theorem remove_neighbor_effect_witness:
  "\<exists>db' root'. db_remove_neighbor [2] example_db = Ok (Ok True, db') \<and>
    db_root db' = Ok root' \<and> nr_version root' = 4 \<and> set (half_neighbor_keys root') = {} \<and>
    node_by_ip db' (V4 1 2 3 2) = None"
proof -
  have "db_root example_db = Ok (example_record [1] [[2]] (Some (example_addr 1)))"
    by (simp add: db_root_def example_db_nodes) (simp add: example_db_def)
  moreover have "this_node example_db = [1]"
    by (simp add: example_db_def)
  ultimately show ?thesis
    using remove_neighbor_effect [OF example_db_ok, of "example_record [1] [[2]] (Some (example_addr 1))" "[2]"
        "example_record [2] [[1], [3]] (Some (example_addr 2))"]
    by (auto simp: example_db_nodes example_addr_opt example_addr_def)
qed

text \<open>\<open>gossip_target_degree\<close> does not depend on the unspecified iteration order of hash sets
  and never panics: it is the number of full neighbors that accept connections plus the number
  of listed neighbors that are not in the database.\<close>

theorem gossip_target_degree_counts:
  assumes "key_order_ok env" "db_ok db"
  shows "gossip_target_degree env db k =
    (case node_by_key db k of
       None \<Rightarrow> Ok 0
     | Some n \<Rightarrow> Ok (card (accepting_full_neighbors db n) + card (unknown_neighbors db n)))"
  using gossip_target_degree_Ok [OF assms] by (simp add: target_degree_def split: option.splits)

theorem gossip_target_degree_counts_witness:
  "gossip_target_degree example_env example_db [2] = Ok 2"
proof -
  have "accepting_full_neighbors example_db (example_record [2] [[1], [3]] (Some (example_addr 2))) = {[1], [3]}"
    by (auto simp: accepting_full_neighbors_def full_neighbor_keys_mem example_db_nodes)
  moreover have "unknown_neighbors example_db (example_record [2] [[1], [3]] (Some (example_addr 2))) = {}"
    by (auto simp: unknown_neighbors_def example_db_nodes)
  ultimately show ?thesis
    using gossip_target_degree_counts [OF example_env_ok(2) example_db_ok, of "[2]"]
    by (simp add: example_db_nodes)
qed

end
