(* ===== verification/Gossip.thy ===== *)
theory Gossip
  imports NeighborhoodDb
begin

text \<open>
  Gossip messages, the builder that assembles them (\<open>neighborhood/gossip.rs\<close>) and the producer
  that decides what a target node is told (\<open>neighborhood/gossip_producer.rs\<close>). The panics of the
  builder (a node added twice, a node not in the database) are values of type \<open>run\<close>; the lemmas
  show when they cannot occur. The rendering of gossip as a DOT graph, which only serves the
  trace log, is not modelled.
\<close>

record gossip =
  gossip_version :: data_version
  node_records :: "gossip_node_record list"

definition gossip_data_version :: "data_version run" where
  "gossip_data_version = (case data_version_new 0 0 of Inr v \<Rightarrow> Ok v | Inl _ \<Rightarrow> Err ExpectFailed)"

definition gossip_new :: "gossip_node_record list \<Rightarrow> gossip run" where
  "gossip_new records =
     bind_run gossip_data_version (\<lambda>version. Ok \<lparr> gossip_version = version, node_records = records \<rparr>)"

definition node_record_clone :: "node_record \<Rightarrow> node_record" where
  "node_record_clone n =
     n\<lparr> nr_metadata := (nr_metadata n)\<lparr> md_node_addr_opt := nr_node_addr_opt n \<rparr> \<rparr>"

definition gnr_from_node_record :: "node_record \<Rightarrow> gossip_node_record" where
  "gnr_from_node_record node_record =
     \<lparr> gnr_signed_data = nr_signed_gossip node_record, gnr_signature = nr_signature node_record,
       gnr_node_addr_opt = md_node_addr_opt (nr_metadata node_record) \<rparr>"

definition gnr_from_agr :: "accessible_gossip_record \<Rightarrow> gossip_node_record" where
  "gnr_from_agr agr =
     \<lparr> gnr_signed_data = agr_signed_gossip agr, gnr_signature = agr_signature agr,
       gnr_node_addr_opt = agr_node_addr_opt agr \<rparr>"

definition gnr_from_inner ::
    "nb_env \<Rightarrow> node_record_inner \<Rightarrow> node_addr option \<Rightarrow> gossip_node_record run" where
  "gnr_from_inner env inner node_addr_opt =
     (case to_vec (inner_codec env) inner of
        Inl _ \<Rightarrow> Err ExpectFailed
      | Inr signed_data \<Rightarrow>
          (case cd_sign (env_cryptde env) signed_data of
             Inl _ \<Rightarrow> Err ExpectFailed
           | Inr signature \<Rightarrow> Ok \<lparr> gnr_signed_data = signed_data, gnr_signature = signature,
               gnr_node_addr_opt = node_addr_opt \<rparr>))"

definition gnr_from_db ::
    "neighborhood_database \<Rightarrow> public_key \<Rightarrow> bool \<Rightarrow> gossip_node_record run" where
  "gnr_from_db database public_key_ref reveal_node_addr =
     bind_run (expect (node_by_key database public_key_ref)) (\<lambda>node_record_ref.
     let gnr = gnr_from_node_record (node_record_clone node_record_ref)
     in Ok (if \<not> reveal_node_addr then gnr\<lparr> gnr_node_addr_opt := None \<rparr> else gnr))"

definition gossip_try_into :: "nb_env \<Rightarrow> gossip \<Rightarrow> string + accessible_gossip_record list" where
  "gossip_try_into env self =
     (let results = map (agr_try_from env) (node_records self)
      in case find isl results of
           Some (Inl msg) \<Rightarrow> Err msg
         | _ \<Rightarrow> Ok (map projr results))"

section \<open>GossipBuilder\<close>

record gossip_builder =
  gb_gossip :: gossip
  keys_so_far :: "public_key list"

definition builder_new :: "gossip_builder run" where
  "builder_new = bind_run (gossip_new []) (\<lambda>g. Ok \<lparr> gb_gossip = g, keys_so_far = [] \<rparr>)"

definition builder_node ::
    "neighborhood_database \<Rightarrow> public_key \<Rightarrow> bool \<Rightarrow> gossip_builder \<Rightarrow> gossip_builder run" where
  "builder_node db public_key_ref reveal_node_addr self =
     (if List.member (keys_so_far self) public_key_ref then Err ExplicitPanic
      else case node_by_key db public_key_ref of
             None \<Rightarrow> Err ExplicitPanic
           | Some node_record_ref \<Rightarrow>
               let gnr = gnr_from_node_record (node_record_clone node_record_ref);
                   gnr' = (if \<not> reveal_node_addr \<or> \<not> nri_accepts_connections (nr_inner node_record_ref)
                           then gnr\<lparr> gnr_node_addr_opt := None \<rparr> else gnr)
               in Ok \<lparr> gb_gossip = (gb_gossip self)\<lparr> node_records := node_records (gb_gossip self) @ [gnr'] \<rparr>,
                       keys_so_far = List.insert (nr_public_key node_record_ref) (keys_so_far self) \<rparr>)"

definition builder_build :: "gossip_builder \<Rightarrow> gossip" where
  "builder_build self = gb_gossip self"

definition gossip_builder_empty :: "gossip run" where
  "gossip_builder_empty = gossip_new []"

section \<open>GossipProducer\<close>

definition reveal_to :: "neighborhood_database \<Rightarrow> node_record \<Rightarrow> node_record \<Rightarrow> bool run" where
  "reveal_to database target_node_ref node_record_ref =
     (if \<not> nri_accepts_connections (nr_inner node_record_ref) then Ok False
      else bind_run (db_root database) (\<lambda>root.
           Ok (nr_public_key node_record_ref = nr_public_key root \<or>
               nr_has_half_neighbor target_node_ref (nr_public_key node_record_ref))))"

definition produce :: "nb_env \<Rightarrow> neighborhood_database \<Rightarrow> public_key \<Rightarrow> gossip run" where
  "produce env database target =
     (case node_by_key database target of
        None \<Rightarrow> Err ExplicitPanic
      | Some target_node_ref \<Rightarrow>
          let records = List.map_filter (node_by_key database)
                (filter (\<lambda>k. k \<noteq> target) (key_order env (db_keys database)))
          in bind_run builder_new (\<lambda>builder.
             bind_run (fold_run (\<lambda>node_record_ref so_far.
                 bind_run (reveal_to database target_node_ref node_record_ref) (\<lambda>reveal_node_addr.
                 builder_node database (nr_public_key node_record_ref) reveal_node_addr so_far))
               records builder) (\<lambda>builder'.
             Ok (builder_build builder'))))"

definition produce_debut :: "neighborhood_database \<Rightarrow> gossip run" where
  "produce_debut database =
     bind_run builder_new (\<lambda>builder.
     bind_run (db_root database) (\<lambda>root.
     bind_run (builder_node database (nr_public_key root) True builder) (\<lambda>builder'.
     Ok (builder_build builder'))))"

section \<open>Building gossip\<close>

text \<open>The record of one node in a gossip message.\<close>

definition gossip_entry :: "neighborhood_database \<Rightarrow> bool \<Rightarrow> public_key \<Rightarrow> gossip_node_record" where
  "gossip_entry db reveal k =
     (let n = the (node_by_key db k)
      in \<lparr> gnr_signed_data = nr_signed_gossip n, gnr_signature = nr_signature n,
           gnr_node_addr_opt = (if reveal \<and> nri_accepts_connections (nr_inner n) then nr_node_addr_opt n else None) \<rparr>)"

lemma gossip_data_version_Ok: "gossip_data_version = Ok (DataVersion 0 0 0)"
  by (simp add: gossip_data_version_def data_version_new_def Let_def word_le_nat_alt)

definition empty_builder :: gossip_builder where
  "empty_builder = \<lparr> gb_gossip = \<lparr> gossip_version = DataVersion 0 0 0, node_records = [] \<rparr>, keys_so_far = [] \<rparr>"

lemma builder_new_Ok: "builder_new = Ok empty_builder"
  by (simp add: builder_new_def gossip_new_def gossip_data_version_Ok empty_builder_def)

definition add_entry :: "neighborhood_database \<Rightarrow> bool \<Rightarrow> public_key \<Rightarrow> gossip_builder \<Rightarrow> gossip_builder" where
  "add_entry db reveal k b =
     \<lparr> gb_gossip = (gb_gossip b)\<lparr> node_records := node_records (gb_gossip b) @ [gossip_entry db reveal k] \<rparr>,
       keys_so_far = List.insert k (keys_so_far b) \<rparr>"

lemma builder_node_Ok:
  assumes "db_ok db" "node_by_key db k = Some n" "k \<notin> set (keys_so_far b)"
  shows "builder_node db k reveal b = Ok (add_entry db reveal k b)"
  using assms db_ok_key [OF assms(1, 2)]
  by (simp add: builder_node_def add_entry_def gossip_entry_def gnr_from_node_record_def
      node_record_clone_def nr_node_addr_opt_def)

lemma fold_builder_nodes:
  assumes "db_ok db" "distinct ks" "\<And>k. k \<in> set ks \<Longrightarrow> node_by_key db k \<noteq> None"
    "set ks \<inter> set (keys_so_far b) = {}"
  shows "fold_run (\<lambda>n b. builder_node db (nr_public_key n) (reveal n) b)
      (map (\<lambda>k. the (node_by_key db k)) ks) b =
    Ok \<lparr> gb_gossip = (gb_gossip b)\<lparr> node_records :=
           node_records (gb_gossip b) @ map (\<lambda>k. gossip_entry db (reveal (the (node_by_key db k))) k) ks \<rparr>,
         keys_so_far = fold List.insert ks (keys_so_far b) \<rparr>"
  using assms(2-)
proof (induction ks arbitrary: b)
  case (Cons k ks)
  obtain n where n: "node_by_key db k = Some n"
    using Cons.prems(2) [of k] by auto
  have "builder_node db (nr_public_key n) (reveal n) b = Ok (add_entry db (reveal n) k b)"
    using builder_node_Ok [OF assms(1) n] Cons.prems db_ok_key [OF assms(1) n] by auto
  moreover have "set ks \<inter> set (keys_so_far (add_entry db (reveal n) k b)) = {}"
    using Cons.prems by (auto simp: add_entry_def)
  ultimately show ?case
    using Cons n by (simp add: add_entry_def)
qed simp

lemma single_node_gossip:
  assumes "db_ok db" "node_by_key db k \<noteq> None"
  shows "bind_run builder_new (\<lambda>b. bind_run (builder_node db k reveal b) (\<lambda>b. Ok (builder_build b))) =
    Ok \<lparr> gossip_version = DataVersion 0 0 0, node_records = [gossip_entry db reveal k] \<rparr>"
  using assms builder_node_Ok [OF assms(1), of k _ empty_builder reveal]
  by (auto simp: builder_new_Ok empty_builder_def add_entry_def builder_build_def)

lemma produce_debut_Ok:
  assumes "db_ok db"
  shows "produce_debut db =
    Ok \<lparr> gossip_version = DataVersion 0 0 0, node_records = [gossip_entry db True (this_node db)] \<rparr>"
proof -
  obtain root where "db_root db = Ok root" "nr_public_key root = this_node db"
    "node_by_key db (this_node db) = Some root"
    using db_ok_root [OF assms] by metis
  then show ?thesis
    using single_node_gossip [OF assms, of "this_node db" True]
    by (simp add: produce_debut_def builder_new_Ok)
qed

text \<open>Whether the address of node \<open>k\<close> is disclosed to a target record.\<close>

definition discloses :: "neighborhood_database \<Rightarrow> node_record \<Rightarrow> public_key \<Rightarrow> bool" where
  "discloses db target_node k \<longleftrightarrow>
     (k = this_node db \<or> k \<in> set (half_neighbor_keys target_node)) \<and>
     (\<exists>n. node_by_key db k = Some n \<and> nri_accepts_connections (nr_inner n))"

lemma reveal_to_Ok:
  assumes "db_ok db" "node_by_key db k = Some n"
  shows "reveal_to db target_node n = Ok (discloses db target_node k)"
proof -
  obtain root where "db_root db = Ok root" "nr_public_key root = this_node db"
    using db_ok_root [OF assms(1)] by metis
  then show ?thesis
    using assms(2) db_ok_key [OF assms] by (simp add: reveal_to_def discloses_def nr_has_half_neighbor_iff)
qed

lemma map_filter_node_by_key:
  "(\<And>k. k \<in> set ks \<Longrightarrow> node_by_key db k \<noteq> None) \<Longrightarrow>
     List.map_filter (node_by_key db) ks = map (\<lambda>k. the (node_by_key db k)) ks"
  by (induction ks) (auto simp: List.map_filter_def)

lemma produce_Ok:
  assumes ok: "db_ok db" and ord: "key_order_ok env" and t: "node_by_key db target = Some t"
  shows "produce env db target =
    Ok \<lparr> gossip_version = DataVersion 0 0 0,
         node_records = map (\<lambda>k. gossip_entry db (discloses db t k) k)
           (filter (\<lambda>k. k \<noteq> target) (key_order env (db_keys db))) \<rparr>"
proof -
  define ks where "ks = filter (\<lambda>k. k \<noteq> target) (key_order env (db_keys db))"
  have "distinct (db_keys db)"
    using ok by (simp add: db_ok_def db_keys_def distinct_hm_keys)
  then have ks: "distinct ks" "\<And>k. k \<in> set ks \<Longrightarrow> node_by_key db k \<noteq> None"
    using ord db_keys_iff by (auto simp: ks_def key_order_ok_def)
  define reveal where "reveal = (\<lambda>n. discloses db t (nr_public_key n))"
  have "fold_run (\<lambda>n b. bind_run (reveal_to db t n) (\<lambda>r. builder_node db (nr_public_key n) r b))
      (map (\<lambda>k. the (node_by_key db k)) ks) empty_builder =
    fold_run (\<lambda>n b. builder_node db (nr_public_key n) (reveal n) b)
      (map (\<lambda>k. the (node_by_key db k)) ks) empty_builder"
  proof (rule fold_run_cong)
    fix n b
    assume "n \<in> set (map (\<lambda>k. the (node_by_key db k)) ks)"
    then obtain k where "node_by_key db k = Some n"
      using ks(2) by auto
    then show "bind_run (reveal_to db t n) (\<lambda>r. builder_node db (nr_public_key n) r b) =
        builder_node db (nr_public_key n) (reveal n) b"
      using reveal_to_Ok [OF ok] db_ok_key [OF ok] by (simp add: reveal_def)
  qed
  also have "\<dots> = Ok \<lparr> gb_gossip = (gb_gossip empty_builder)\<lparr> node_records :=
      map (\<lambda>k. gossip_entry db (reveal (the (node_by_key db k))) k) ks \<rparr>,
      keys_so_far = fold List.insert ks [] \<rparr>"
    using fold_builder_nodes [OF ok ks, of empty_builder reveal] by (simp add: empty_builder_def)
  finally have "produce env db target = Ok ((gb_gossip empty_builder)\<lparr> node_records :=
      map (\<lambda>k. gossip_entry db (reveal (the (node_by_key db k))) k) ks \<rparr>)"
    using t ks(2)
    by (simp add: produce_def builder_new_Ok builder_build_def ks_def [symmetric] map_filter_node_by_key)
  moreover have "map (\<lambda>k. gossip_entry db (reveal (the (node_by_key db k))) k) ks =
      map (\<lambda>k. gossip_entry db (discloses db t k) k) ks"
    using ks(2) db_ok_key [OF ok] by (intro map_cong) (auto simp: reveal_def)
  ultimately show ?thesis
    by (simp add: empty_builder_def ks_def)
qed

section \<open>Properties\<close>

text \<open>What a gossip record may say about node \<open>k\<close> to the target \<open>t\<close>.\<close>

definition describes :: "neighborhood_database \<Rightarrow> node_record \<Rightarrow> public_key \<Rightarrow> gossip_node_record \<Rightarrow> bool" where
  "describes db t k gnr \<longleftrightarrow>
     (\<exists>n. node_by_key db k = Some n \<and> gnr_signed_data gnr = nr_signed_gossip n \<and>
        gnr_signature gnr = nr_signature n \<and>
        gnr_node_addr_opt gnr =
          (if nri_accepts_connections (nr_inner n) \<and> (k = this_node db \<or> k \<in> set (half_neighbor_keys t))
           then nr_node_addr_opt n else None))"

lemma gossip_entry_describes:
  "node_by_key db k \<noteq> None \<Longrightarrow> describes db t k (gossip_entry db (discloses db t k) k)"
proof -
  assume "node_by_key db k \<noteq> None"
  then obtain n where n: "node_by_key db k = Some n"
    by auto
  have "discloses db t k \<and> nri_accepts_connections (nr_inner n) \<longleftrightarrow>
      nri_accepts_connections (nr_inner n) \<and> (k = this_node db \<or> k \<in> set (half_neighbor_keys t))"
    using n by (auto simp: discloses_def)
  then show ?thesis
    using n by (simp add: describes_def gossip_entry_def Let_def)
qed

text \<open>C32. What \<open>produce\<close> tells a target: for any iteration order it contains exactly one record
  for every node of the database except the target, in the form that node signed; a record
  carries an address only if its node accepts connections and is either this node or a half
  neighbor of the target; and it panics only when the target is not in the database. So this node's
  own address is left out as well when it does not accept connections, where the comment of the function
  says that it never is.\<close>

theorem produce_tells_exactly:
  assumes "db_ok db" "key_order_ok env"
  shows "case node_by_key db target of
    None \<Rightarrow> produce env db target = Err ExplicitPanic
  | Some t \<Rightarrow> \<exists>g ks. produce env db target = Ok g \<and> distinct ks \<and>
      set ks = {k. node_by_key db k \<noteq> None} - {target} \<and>
      list_all2 (describes db t) ks (node_records g)"
proof (cases "node_by_key db target")
  case None
  then show ?thesis
    by (simp add: produce_def)
next
  case (Some t)
  define ks where "ks = filter (\<lambda>k. k \<noteq> target) (key_order env (db_keys db))"
  have "distinct (db_keys db)"
    using assms(1) by (simp add: db_ok_def db_keys_def distinct_hm_keys)
  then have ks: "distinct ks" "set ks = {k. node_by_key db k \<noteq> None} - {target}"
    using assms(2) db_keys_iff by (auto simp: ks_def key_order_ok_def)
  then have "list_all2 (describes db t) ks (map (\<lambda>k. gossip_entry db (discloses db t k) k) ks)"
    unfolding list_all2_map2 by (intro list.rel_refl_strong gossip_entry_describes) simp
  with ks show ?thesis
    using produce_Ok [OF assms Some] by (auto simp: Some ks_def [symmetric])
qed

theorem produce_tells_exactly_witness:
  "\<exists>g. produce example_env example_db [3] = Ok g \<and> length (node_records g) = 2"
proof -
  have keys: "{k. node_by_key example_db k \<noteq> None} - {[3]} = {[1 :: u8], [2]}"
    by (auto simp: example_db_nodes split: if_splits)
  have t: "node_by_key example_db [3] = Some (example_record [3] [[2]] None)"
    by (simp add: example_db_nodes)
  obtain g ks where g: "produce example_env example_db [3] = Ok g" "distinct ks"
    "set ks = {k. node_by_key example_db k \<noteq> None} - {[3]}"
    "list_all2 (describes example_db (example_record [3] [[2]] None)) ks (node_records g)"
    using produce_tells_exactly [OF example_db_ok example_env_ok(2), of "[3]"] unfolding t option.case by blast
  have "length ks = card {[1 :: u8], [2]}"
    using distinct_card [OF g(2)] g(3) keys by simp
  with g show ?thesis
    by (auto dest: list_all2_lengthD)
qed

end
