(* ===== verification/Cores.thy ===== *)
theory Cores
  imports Route Gossip SequenceBuffer
begin

text \<open>
  CORES packages, the envelopes that travel along routes: the payloads of \<open>sub_lib/proxy_server.rs\<close>,
  \<open>sub_lib/proxy_client.rs\<close> and \<open>sub_lib/stream_key.rs\<close>, the packages of \<open>sub_lib/hopper.rs\<close> and
  \<open>hopper/live_cores_package.rs\<close>, and the message to the dispatcher of
  \<open>sub_lib/stream_handler_pool.rs\<close>.
\<close>

section \<open>Payloads\<close>

type_synonym stream_key = bytes

definition stream_key_new :: "libraries \<Rightarrow> public_key \<Rightarrow> socket_addr \<Rightarrow> stream_key run" where
  "stream_key_new lib public_key peer_addr =
     (case ip peer_addr of
        V4 a b c d \<Rightarrow>
          Ok (sha1 lib ([a, b, c, d] @ [ucast (drop_bit 8 (port peer_addr)), ucast (port peer_addr AND 0xFF)] @ public_key))
      | V6 _ _ _ _ _ _ _ _ \<Rightarrow> Err ExplicitPanic)"

definition SHA1_DIGEST_LENGTH :: nat where
  "SHA1_DIGEST_LENGTH = 20"

definition stream_key_visit_bytes :: "bytes \<Rightarrow> string + stream_key" where
  "stream_key_visit_bytes v =
     (if length v \<noteq> SHA1_DIGEST_LENGTH then Err (''can't deserialize bytes from '' @ debug_bytes v) else Ok v)"

datatype proxy_protocol = HTTP | TLS

record client_request_payload =
  crq_version :: data_version
  crq_stream_key :: stream_key
  crq_sequenced_packet :: sequenced_packet
  target_hostname :: "string option"
  target_port :: u16
  protocol :: proxy_protocol
  originator_public_key :: public_key

record client_response_payload =
  crs_version :: data_version
  crs_stream_key :: stream_key
  crs_sequenced_packet :: sequenced_packet

record dns_resolve_failure =
  drf_version :: data_version
  drf_stream_key :: stream_key

definition dns_resolve_failure_version :: "data_version run" where
  "dns_resolve_failure_version = (case data_version_new 0 0 of Inr v \<Rightarrow> Ok v | Inl _ \<Rightarrow> Err ExpectFailed)"

definition dns_resolve_failure_new :: "stream_key \<Rightarrow> dns_resolve_failure run" where
  "dns_resolve_failure_new stream_key =
     bind_run dns_resolve_failure_version (\<lambda>v. Ok \<lparr> drf_version = v, drf_stream_key = stream_key \<rparr>)"

definition client_response_version :: "data_version run" where
  "client_response_version = (case data_version_new 0 0 of Inr v \<Rightarrow> Ok v | Inl _ \<Rightarrow> Err ExpectFailed)"

definition client_request_version :: "data_version run" where
  "client_request_version = (case data_version_new 0 0 of Inr v \<Rightarrow> Ok v | Inl _ \<Rightarrow> Err ExpectFailed)"

definition make_terminating_payload :: "stream_key \<Rightarrow> client_response_payload run" where
  "make_terminating_payload stream_key =
     bind_run client_response_version (\<lambda>v.
     Ok \<lparr> crs_version = v, crs_stream_key = stream_key,
          crs_sequenced_packet = \<lparr> sp_data = [], sequence_number = 0, last_data = True \<rparr> \<rparr>)"

datatype message_type =
    ClientRequest client_request_payload
  | ClientResponse client_response_payload
  | GossipMessage gossip
  | DnsResolveFailed dns_resolve_failure

section \<open>Packages\<close>

record no_lookup_incipient_cores_package =
  nl_public_key :: public_key
  nl_node_addr :: node_addr
  nl_payload :: crypt_data

record incipient_cores_package =
  icp_route :: route
  icp_payload :: crypt_data

record 'a expired_cores_package =
  immediate_neighbor :: socket_addr
  paying_wallet :: "wallet option"
  remaining_route :: route
  ecp_payload :: 'a
  payload_len :: nat

record live_cores_package =
  lcp_version :: data_version
  lcp_route :: route
  lcp_payload :: crypt_data

text \<open>The serializers of all that is sealed.\<close>

record cores_env =
  ce_route :: route_env
  message_codec :: "message_type codec"
  lcp_codec :: "live_cores_package codec"

definition no_lookup_new ::
    "cores_env \<Rightarrow> cryptde \<Rightarrow> public_key \<Rightarrow> node_addr \<Rightarrow> message_type \<Rightarrow>
       codex_error + no_lookup_incipient_cores_package" where
  "no_lookup_new env cryptde public_key node_addr payload =
     (case encodex (message_codec env) cryptde public_key payload of
        Inl e \<Rightarrow> Err e
      | Inr encrypted_payload \<Rightarrow>
          Ok \<lparr> nl_public_key = public_key, nl_node_addr = node_addr_clone node_addr, nl_payload = encrypted_payload \<rparr>)"

definition incipient_new ::
    "cores_env \<Rightarrow> cryptde \<Rightarrow> route \<Rightarrow> message_type \<Rightarrow> public_key \<Rightarrow> codex_error + incipient_cores_package" where
  "incipient_new env cryptde route payload payload_destination_key =
     (case encodex (message_codec env) cryptde payload_destination_key payload of
        Inl e \<Rightarrow> Err e
      | Inr encrypted_payload \<Rightarrow> Ok \<lparr> icp_route = route, icp_payload = encrypted_payload \<rparr>)"

definition expired_new ::
    "socket_addr \<Rightarrow> wallet option \<Rightarrow> route \<Rightarrow> 'a \<Rightarrow> nat \<Rightarrow> 'a expired_cores_package" where
  "expired_new neighbor wallet rest payload len =
     \<lparr> immediate_neighbor = neighbor, paying_wallet = wallet, remaining_route = rest,
       ecp_payload = payload, payload_len = len \<rparr>"

definition live_version :: "data_version run" where
  "live_version = (case data_version_new 0 0 of Inr v \<Rightarrow> Ok v | Inl _ \<Rightarrow> Err ExpectFailed)"

definition live_new :: "route \<Rightarrow> crypt_data \<Rightarrow> live_cores_package run" where
  "live_new route payload =
     bind_run live_version (\<lambda>v. Ok \<lparr> lcp_version = v, lcp_route = route, lcp_payload = payload \<rparr>)"

definition to_next_live ::
    "cores_env \<Rightarrow> live_cores_package \<Rightarrow> cryptde \<Rightarrow> (route_error + live_hop \<times> live_cores_package) run" where
  "to_next_live env self cryptde =
     (case shift (ce_route env) cryptde (lcp_route self) of
        (Inl e, _) \<Rightarrow> Ok (Err e)
      | (Inr hop, shifted) \<Rightarrow>
          bind_run (live_new shifted (lcp_payload self)) (\<lambda>next_live. Ok (Ok (hop, next_live))))"

datatype incipient_error =
    BadSingleHop construct_error
  | CouldNotDecryptNextHop route_error

definition from_no_lookup_incipient ::
    "cores_env \<Rightarrow> no_lookup_incipient_cores_package \<Rightarrow> cryptde \<Rightarrow>
       (incipient_error + live_cores_package \<times> public_key) run" where
  "from_no_lookup_incipient env no_lookup_incipient cryptde =
     bind_run (single_hop (ce_route env) (nl_public_key no_lookup_incipient) cryptde) (\<lambda>built.
     case built of
       Inl e \<Rightarrow> Ok (Err (BadSingleHop e))
     | Inr route \<Rightarrow>
         (case shift (ce_route env) cryptde route of
            (Inl _, _) \<Rightarrow> Err ExpectFailed
          | (Inr _, shifted) \<Rightarrow>
              bind_run (live_new shifted (nl_payload no_lookup_incipient)) (\<lambda>live.
              Ok (Ok (live, nl_public_key no_lookup_incipient)))))"

definition from_incipient ::
    "cores_env \<Rightarrow> incipient_cores_package \<Rightarrow> cryptde \<Rightarrow>
       (incipient_error + live_cores_package \<times> live_hop) run" where
  "from_incipient env incipient cryptde =
     (case shift (ce_route env) cryptde (icp_route incipient) of
        (Inl e, _) \<Rightarrow> Ok (Err (CouldNotDecryptNextHop e))
      | (Inr hop, shifted) \<Rightarrow>
          bind_run (live_new shifted (icp_payload incipient)) (\<lambda>live. Ok (Ok (live, hop))))"

datatype expire_error =
    BadTopHop route_error
  | BadPayload codex_error

definition to_expired ::
    "cores_env \<Rightarrow> live_cores_package \<Rightarrow> socket_addr \<Rightarrow> cryptde \<Rightarrow>
       expire_error + message_type expired_cores_package" where
  "to_expired env self immediate_neighbor_addr cryptde =
     (case next_hop (ce_route env) (lcp_route self) cryptde of
        Inl e \<Rightarrow> Err (BadTopHop e)
      | Inr top_hop \<Rightarrow>
          (case decodex (message_codec env) cryptde (lcp_payload self) of
             Inl e \<Rightarrow> Err (BadPayload e)
           | Inr decoded_payload \<Rightarrow>
               Ok (expired_new immediate_neighbor_addr (map_option payer_wallet (hop_payer top_hop))
                     (lcp_route self) decoded_payload (length (lcp_payload self)))))"

record transmit_data_msg =
  td_endpoint :: endpoint
  td_last_data :: bool
  td_sequence_number :: "u64 option"
  td_data :: bytes

end
