(* ===== verification/ExampleCodecs.thy ===== *)
theory ExampleCodecs
  imports Cores
begin

text \<open>
  A serializer for hops and packages that reads back what it has written, the wallet of a payer in
  its serialized form. It stands for serde_cbor where a theorem about sealed packages is applied to a concrete network.
\<close>

section \<open>Byte strings\<close>

fun put_bytes :: "bytes \<Rightarrow> bytes" where
  "put_bytes [] = [0]"
| "put_bytes (b # bs) = 1 # b # put_bytes bs"

fun get_bytes :: "bytes \<Rightarrow> (bytes \<times> bytes) option" where
  "get_bytes (x # rest) =
     (if x = 0 then Some ([], rest)
      else case rest of
             [] \<Rightarrow> None
           | b # tail \<Rightarrow> map_option (\<lambda>(bs, r). (b # bs, r)) (get_bytes tail))"
| "get_bytes [] = None"

lemma get_put_bytes [simp]: "get_bytes (put_bytes bs @ rest) = Some (bs, rest)"
  by (induction bs) simp_all

fun put_list :: "bytes list \<Rightarrow> bytes" where
  "put_list [] = [0]"
| "put_list (x # xs) = 1 # put_bytes x @ put_list xs"

lemma get_bytes_shorter: "get_bytes s = Some (bs, r) \<Longrightarrow> length r < length s"
  by (induction s arbitrary: bs rule: get_bytes.induct) (fastforce split: if_splits list.splits)+

function get_list :: "bytes \<Rightarrow> (bytes list \<times> bytes) option" where
  "get_list s =
     (case s of
        [] \<Rightarrow> None
      | x # rest \<Rightarrow>
          if x = 0 then Some ([], rest)
          else case get_bytes rest of
                 None \<Rightarrow> None
               | Some (b, tail) \<Rightarrow> map_option (\<lambda>(bs, r). (b # bs, r)) (get_list tail))"
  by pat_completeness auto
termination
  by (relation "measure length") (auto dest: get_bytes_shorter)

declare get_list.simps [simp del]

lemma get_put_list [simp]: "get_list (put_list xs @ rest) = Some (xs, rest)"
  by (induction xs) (subst get_list.simps, simp)+

section \<open>Hops\<close>

definition put_payer :: "payer option \<Rightarrow> bytes" where
  "put_payer p =
     (case p of
        None \<Rightarrow> [0]
      | Some q \<Rightarrow> 1 # put_bytes (case kind (payer_wallet q) of Address a \<Rightarrow> a | _ \<Rightarrow> []) @ sig_v (payer_proof q) #
          put_bytes (sig_r (payer_proof q)) @ put_bytes (sig_s (payer_proof q)))"

definition get_payer :: "bytes \<Rightarrow> payer option option" where
  "get_payer s =
     (case s of
        [] \<Rightarrow> None
      | x # rest \<Rightarrow>
          if x = 0 then Some None
          else case get_bytes rest of
                 Some (a, v # rest) \<Rightarrow>
                   (case get_bytes rest of
                      None \<Rightarrow> None
                    | Some (r, rest) \<Rightarrow>
                        map_option (\<lambda>(t, _). Some \<lparr> payer_wallet = wallet_from_address a,
                          payer_proof = \<lparr> sig_v = v, sig_r = r, sig_s = t \<rparr> \<rparr>) (get_bytes rest))
               | _ \<Rightarrow> None)"

lemma get_put_payer:
  assumes "\<And>q. p = Some q \<Longrightarrow> \<exists>a. payer_wallet q = wallet_from_address a"
  shows "get_payer (put_payer p) = Some p"
proof (cases p)
  case (Some q)
  have "get_bytes (put_bytes s) = Some (s, [])" for s
    using get_put_bytes [of s "[]"] by simp
  with Some assms [OF Some] show ?thesis
    by (cases q) (auto simp: put_payer_def get_payer_def wallet_from_address_def)
qed (simp add: put_payer_def get_payer_def)

definition demo_hop_codec :: "live_hop codec" where
  "demo_hop_codec =
     \<lparr> to_vec = (\<lambda>h. case hop_on_wire example_ethsign h of
           None \<Rightarrow> Err ''wallet''
         | Some g \<Rightarrow> Ok (serialize_component (hop_component g) # put_bytes (hop_public_key g) @ put_payer (hop_payer g))),
       from_slice = (\<lambda>s. case s of
           [] \<Rightarrow> Err ''empty''
         | c # rest \<Rightarrow>
             bind_run (component_visit_u8 c) (\<lambda>cmp.
             case get_bytes rest of
               None \<Rightarrow> Err ''key''
             | Some (k, rest) \<Rightarrow>
                 (case get_payer rest of None \<Rightarrow> Err ''payer'' | Some p \<Rightarrow> Ok (live_hop_new k p cmp)))) \<rparr>"

lemma on_wire_address:
  assumes "wallet_on_wire eth w = Ok (Ok w')"
  shows "\<exists>a. w' = wallet_from_address a"
proof (cases "wallet_address eth w")
  case (Inr a)
  with assms show ?thesis
    using wallet_on_wire_simps(2,3) [OF Inr] by (cases "length a = 20") auto
qed (use assms wallet_on_wire_simps(1) in \<open>auto\<close>)

lemma demo_hop_codec_carries: "hop_on_wire example_ethsign h = Some g \<Longrightarrow> codec_carries demo_hop_codec h g"
proof -
  assume w: "hop_on_wire example_ethsign h = Some g"
  have "\<exists>a. payer_wallet q = wallet_from_address a" if "hop_payer g = Some q" for q
  proof -
    from w that obtain p :: payer where "wallet_on_wire example_ethsign (payer_wallet p) = Ok (Ok (payer_wallet q))"
      by (auto simp: hop_on_wire_def split: option.split_asm sum.split_asm)
    then show ?thesis
      by (rule on_wire_address)
  qed
  then have "get_payer (put_payer (hop_payer g)) = Some (hop_payer g)"
    by (rule get_put_payer)
  with w show ?thesis
    by (cases g; cases "hop_component g")
      (simp_all add: codec_carries_def demo_hop_codec_def component_visit_u8_def live_hop_new_def)
qed

lemma demo_hop_codec_roundtrips: "hop_payer h = None \<Longrightarrow> codec_roundtrips demo_hop_codec h"
  using demo_hop_codec_carries [of h h] by (simp add: hop_on_wire_def codec_carries_same)

definition demo_wallet :: wallet where
  "demo_wallet = wallet_from_key_pair (key_pair_from example_ethsign (replicate 20 9))"

section \<open>Packages\<close>

definition demo_lcp_codec :: "live_cores_package codec" where
  "demo_lcp_codec =
     \<lparr> to_vec = (\<lambda>p. case lcp_version p of DataVersion a b c \<Rightarrow>
         Ok (a # b # c # put_list (route_hops (lcp_route p)) @ lcp_payload p)),
       from_slice = (\<lambda>s. case s of
           a # b # c # rest \<Rightarrow>
             (case get_list rest of
                None \<Rightarrow> Err ''route''
              | Some (hs, payload) \<Rightarrow>
                  Ok \<lparr> lcp_version = DataVersion a b c, lcp_route = \<lparr> route_hops = hs \<rparr>, lcp_payload = payload \<rparr>)
         | _ \<Rightarrow> Err ''version'') \<rparr>"

lemma demo_lcp_codec_roundtrips: "codec_roundtrips demo_lcp_codec p"
  by (cases p; cases "lcp_version p"; cases "lcp_route p")
     (simp add: codec_roundtrips_def demo_lcp_codec_def)

definition demo_request :: client_request_payload where
  "demo_request =
     \<lparr> crq_version = DataVersion 0 0 0, crq_stream_key = replicate 20 7,
       crq_sequenced_packet = \<lparr> sp_data = [71, 69, 84], sequence_number = 0, last_data = False \<rparr>,
       target_hostname = Some ''example.com'', target_port = 80, protocol = HTTP,
       originator_public_key = [129] \<rparr>"

definition demo_env :: cores_env where
  "demo_env =
     \<lparr> ce_route = \<lparr> hop_codec = demo_hop_codec, id_codec = example_id_codec,
         rt_lib = example_libraries, rt_eth = example_ethsign \<rparr>,
       message_codec = \<lparr> to_vec = (\<lambda>_. Ok [1]), from_slice = (\<lambda>_. Ok (ClientRequest demo_request)) \<rparr>,
       lcp_codec = demo_lcp_codec \<rparr>"

lemma demo_hop_codec_law: "hop_codec_law (ce_route demo_env)"
  using demo_hop_codec_carries by (simp add: hop_codec_law_def demo_env_def)

lemma demo_wallet_pays: "wallet_pays (ce_route demo_env) (Some demo_wallet) c"
  by (auto simp: wallet_pays_def demo_env_def demo_wallet_def wallet_from_key_pair_def key_pair_from_def
      example_ethsign_def intro!: exI [of _ "replicate 20 9"] example_ethsign_recoverable [unfolded example_ethsign_def])

text \<open>Four nodes, paid by a wallet.\<close>

theorem round_trip_travels_witness:
  "\<exists>r hs r'. round_trip (ce_route demo_env)
      (route_segment_new (map cd_public_key [example_node 1, example_node 2, example_node 3]) ProxyClient)
      (route_segment_new (map cd_public_key [example_node 3, example_node 4, example_node 1]) ProxyServer)
      (example_node 1) (Some demo_wallet) 77 None = Ok (Ok r) \<and>
    travel (ce_route demo_env) [example_node 1, example_node 2, example_node 3, example_node 4, example_node 1] r = Ok (hs, r') \<and>
    map hop_component hs = [Hopper, Hopper, ProxyClient, Hopper, ProxyServer] \<and>
    list_all2 (payment_ok (ce_route demo_env) (Some demo_wallet) None)
      [example_node 1, example_node 2, example_node 3, example_node 4, example_node 1] hs \<and>
    route_id (ce_route demo_env) r' (example_node 1) = Ok 77"
proof -
  have id: "codec_roundtrips (id_codec (ce_route demo_env)) 77"
    by (simp add: demo_env_def example_id_codec_roundtrips)
  have nodes: "n \<in> set [example_node 1, example_node 2, example_node 3] \<union>
      set [example_node 3, example_node 4, example_node 1] \<Longrightarrow> null_family example_libraries n" for n
    by (auto simp: example_node_family)
  show ?thesis
    using round_trip_travels [OF disjI1 [OF refl], of "[example_node 1, example_node 2, example_node 3]"
        "[example_node 3, example_node 4, example_node 1]" example_libraries "example_node 1" "ce_route demo_env"
        "Some demo_wallet" None 77 ProxyClient ProxyServer, OF nodes _ _ _ _ demo_wallet_pays demo_hop_codec_law id]
    by (force simp: numeral_2_eq_2)
qed

end
