(* ===== verification/HopperService.thy ===== *)
theory HopperService
  imports ExampleCodecs
begin

text \<open>
  The hopper: \<open>hopper/consuming_service.rs\<close> puts packages on the network,
  \<open>hopper/routing_service.rs\<close> relays those that arrive or hands them to a component of this node,
  and \<open>hopper/mod.rs\<close> is the actor around the two. Messages to other actors are values, in the
  order they are sent; a mailbox accepts every message. The set of banned wallets is the state of
  the global ban cache at the time of the call.
\<close>

section \<open>Messages\<close>

record report_routing_service_provided =
  rrp_paying_wallet :: wallet
  rrp_payload_size :: nat
  rrp_service_rate :: u64
  rrp_byte_rate :: u64

datatype hopper_message =
    ToDispatcher transmit_data_msg
  | ToHopper inbound_client_data
  | ToAccountant report_routing_service_provided
  | ToProxyClient "client_request_payload expired_cores_package"
  | ToProxyServer "client_response_payload expired_cores_package"
  | ToProxyServerDnsFailure "dns_resolve_failure expired_cores_package"
  | ToNeighborhood "gossip expired_cores_package"

section \<open>ConsumingService\<close>

record consuming_service =
  cs_cryptde :: cryptde

definition launch_lcp :: "crypt_data \<Rightarrow> endpoint \<Rightarrow> hopper_message list" where
  "launch_lcp encrypted_package next_stop =
     [ToDispatcher \<lparr> td_endpoint = next_stop, td_last_data = False, td_sequence_number = None,
        td_data = encrypted_package \<rparr>]"

definition zero_hop :: "crypt_data \<Rightarrow> hopper_message list" where
  "zero_hop encrypted_package =
     [ToHopper \<lparr> ibcd_peer_addr = \<lparr> ip = V4 127 0 0 1, port = 0 \<rparr>, reception_port = None,
        ibcd_last_data = False, is_clandestine = True, ibcd_sequence_number = None,
        ibcd_data = encrypted_package \<rparr>]"

definition consume_no_lookup ::
    "cores_env \<Rightarrow> consuming_service \<Rightarrow> no_lookup_incipient_cores_package \<Rightarrow> hopper_message list run" where
  "consume_no_lookup env self incipient =
     (let target_key = nl_public_key incipient;
          target_node_addr = node_addr_clone (nl_node_addr incipient)
      in bind_run (from_no_lookup_incipient env incipient (cs_cryptde self)) (\<lambda>result.
         case result of
           Inr (live_package, _) \<Rightarrow>
             (case encodex (lcp_codec env) (cs_cryptde self) target_key live_package of
                Inl _ \<Rightarrow> Ok []
              | Inr encrypted_package \<Rightarrow>
                  bind_run (index (node_addr_into_sockets target_node_addr) 0) (\<lambda>socket_addr.
                  Ok (launch_lcp encrypted_package (Socket socket_addr))))
         | Inl _ \<Rightarrow> Ok []))"

definition consume ::
    "cores_env \<Rightarrow> consuming_service \<Rightarrow> incipient_cores_package \<Rightarrow> hopper_message list run" where
  "consume env self incipient =
     bind_run (from_incipient env incipient (cs_cryptde self)) (\<lambda>result.
     case result of
       Inr (live_package, hop) \<Rightarrow>
         (case encodex (lcp_codec env) (cs_cryptde self) (hop_public_key hop) live_package of
            Inl _ \<Rightarrow> Ok []
          | Inr encrypted_package \<Rightarrow>
              Ok (if hop_public_key hop = cd_public_key (cs_cryptde self) then zero_hop encrypted_package
                  else launch_lcp encrypted_package (Key (hop_public_key hop))))
     | Inl _ \<Rightarrow> Ok [])"

section \<open>RoutingService\<close>

record routing_service =
  rs_cryptde :: cryptde
  per_routing_service :: u64
  per_routing_byte :: u64
  rs_is_decentralized :: bool

definition is_destined_for_here :: "routing_service \<Rightarrow> live_hop \<Rightarrow> bool" where
  "is_destined_for_here self hop \<longleftrightarrow> hop_public_key hop = cd_public_key (rs_cryptde self)"

datatype transmit_error =
    NoNextHop route_error
  | CouldNotSealOutgoing codex_error

definition to_transmit_data_msg ::
    "cores_env \<Rightarrow> routing_service \<Rightarrow> live_cores_package \<Rightarrow> bool \<Rightarrow> (transmit_error + transmit_data_msg) run" where
  "to_transmit_data_msg env self live_package last_data' =
     bind_run (to_next_live env live_package (rs_cryptde self)) (\<lambda>result.
     case result of
       Inl e \<Rightarrow> Ok (Err (NoNextHop e))
     | Inr (hop, next_live_package) \<Rightarrow>
         (case encodex (lcp_codec env) (rs_cryptde self) (hop_public_key hop) next_live_package of
            Inl e \<Rightarrow> Ok (Err (CouldNotSealOutgoing e))
          | Inr next_live_package_enc \<Rightarrow>
              Ok (Ok \<lparr> td_endpoint = Key (hop_public_key hop), td_last_data = last_data',
                       td_sequence_number = None, td_data = next_live_package_enc \<rparr>)))"

definition route_data_externally ::
    "cores_env \<Rightarrow> routing_service \<Rightarrow> banned_cache \<Rightarrow> live_cores_package \<Rightarrow> payer option \<Rightarrow> bool \<Rightarrow>
       hopper_message list run" where
  "route_data_externally env self bans live_package payer_opt last_data' =
     (let payload_size = length (lcp_payload live_package); eth = rt_eth (ce_route env)
      in case payer_opt of
           Some payer \<Rightarrow>
             bind_run (owns_secret_key eth payer (cd_digest (rs_cryptde self))) (\<lambda>owns.
             if \<not> owns then Ok []
             else bind_run (is_delinquent eth bans payer) (\<lambda>delinquent.
             if delinquent then Ok []
             else
               let report = ToAccountant \<lparr> rrp_paying_wallet = payer_wallet payer, rrp_payload_size = payload_size,
                     rrp_service_rate = per_routing_service self, rrp_byte_rate = per_routing_byte self \<rparr>
               in bind_run (to_transmit_data_msg env self live_package last_data') (\<lambda>result.
                  case result of
                    Inr transmit_msg \<Rightarrow> Ok [report, ToDispatcher transmit_msg]
                  | Inl _ \<Rightarrow> Ok [report])))
         | None \<Rightarrow> Ok [])"

definition route_data_around_again ::
    "cores_env \<Rightarrow> routing_service \<Rightarrow> live_cores_package \<Rightarrow> inbound_client_data \<Rightarrow> hopper_message list run" where
  "route_data_around_again env self live_package ibcd_but_data =
     bind_run (to_next_live env live_package (rs_cryptde self)) (\<lambda>result.
     case result of
       Inl _ \<Rightarrow> Ok []
     | Inr (_, next_lcp) \<Rightarrow>
         (case encodex (lcp_codec env) (rs_cryptde self) (cd_public_key (rs_cryptde self)) next_lcp of
            Inl _ \<Rightarrow> Err ExpectFailed
          | Inr payload \<Rightarrow>
              Ok [ToHopper \<lparr> ibcd_peer_addr = ibcd_peer_addr ibcd_but_data,
                     reception_port = reception_port ibcd_but_data,
                     ibcd_last_data = ibcd_last_data ibcd_but_data,
                     is_clandestine = is_clandestine ibcd_but_data,
                     ibcd_sequence_number = ibcd_sequence_number ibcd_but_data,
                     ibcd_data = payload \<rparr>]))"

definition repack :: "'a expired_cores_package \<Rightarrow> 'b \<Rightarrow> 'b expired_cores_package" where
  "repack expired_package payload =
     expired_new (immediate_neighbor expired_package) (paying_wallet expired_package)
       (remaining_route expired_package) payload (payload_len expired_package)"

definition route_data_to_peripheral_component ::
    "cores_env \<Rightarrow> routing_service \<Rightarrow> component \<Rightarrow> socket_addr \<Rightarrow> live_cores_package \<Rightarrow> bool \<Rightarrow>
       hopper_message list" where
  "route_data_to_peripheral_component env self component immediate_neighbor_addr live_package payer_owns =
     (case to_expired env live_package immediate_neighbor_addr (rs_cryptde self) of
        Inl _ \<Rightarrow> []
      | Inr expired_package \<Rightarrow>
          case (component, ecp_payload expired_package) of
               (ProxyClient, ClientRequest client_request) \<Rightarrow>
                 if \<not> rs_is_decentralized self \<or> payer_owns then [ToProxyClient (repack expired_package client_request)] else []
             | (ProxyServer, ClientResponse client_response) \<Rightarrow> [ToProxyServer (repack expired_package client_response)]
             | (ProxyServer, DnsResolveFailed dns_resolve_failure) \<Rightarrow>
                 [ToProxyServerDnsFailure (repack expired_package dns_resolve_failure)]
             | (Neighborhood, GossipMessage g) \<Rightarrow> [ToNeighborhood (repack expired_package g)]
             | _ \<Rightarrow> [])"

definition route_data_internally ::
    "cores_env \<Rightarrow> routing_service \<Rightarrow> banned_cache \<Rightarrow> live_hop \<Rightarrow> socket_addr \<Rightarrow> live_cores_package \<Rightarrow>
       inbound_client_data \<Rightarrow> hopper_message list run" where
  "route_data_internally env self bans hop immediate_neighbor_addr live_package ibcd_but_data =
     (if hop_component hop = Hopper then route_data_around_again env self live_package ibcd_but_data
      else bind_run (case hop_payer hop of
                       None \<Rightarrow> Ok False
                     | Some payer \<Rightarrow> is_delinquent (rt_eth (ce_route env)) bans payer) (\<lambda>delinquent.
           if delinquent then Ok []
           else bind_run (payer_owns_secret_key (ce_route env) hop (cd_digest (rs_cryptde self))) (\<lambda>owns.
                Ok (route_data_to_peripheral_component env self (hop_component hop) immediate_neighbor_addr
                      live_package owns))))"

definition route_data ::
    "cores_env \<Rightarrow> routing_service \<Rightarrow> banned_cache \<Rightarrow> socket_addr \<Rightarrow> live_hop \<Rightarrow> live_cores_package \<Rightarrow> bool \<Rightarrow>
       inbound_client_data \<Rightarrow> hopper_message list run" where
  "route_data env self bans sender_addr hop live_package last_data' ibcd_but_data =
     (if hop_component hop = Hopper \<and> \<not> is_destined_for_here self hop
      then route_data_externally env self bans live_package (hop_payer hop) last_data'
      else route_data_internally env self bans hop sender_addr live_package ibcd_but_data)"

definition route_inbound :: "cores_env \<Rightarrow> routing_service \<Rightarrow> banned_cache \<Rightarrow> inbound_client_data \<Rightarrow> hopper_message list run" where
  "route_inbound env self bans ibcd =
     (let ibcd_but_data = clone_but_data ibcd
      in case decodex (lcp_codec env) (rs_cryptde self) (ibcd_data ibcd) of
           Inl _ \<Rightarrow> Ok []
         | Inr live_package \<Rightarrow>
             (case next_hop (ce_route env) (lcp_route live_package) (rs_cryptde self) of
                Inl _ \<Rightarrow> Ok []
              | Inr hop \<Rightarrow>
                  route_data env self bans (ibcd_peer_addr ibcd) hop live_package (ibcd_last_data ibcd) ibcd_but_data))"

section \<open>The Hopper actor\<close>

record hopper =
  hp_cryptde :: cryptde
  hp_consuming_service :: "consuming_service option"
  hp_routing_service :: "routing_service option"
  hp_per_routing_service :: u64
  hp_per_routing_byte :: u64
  hp_is_decentralized :: bool

definition hopper_new :: "cryptde \<Rightarrow> u64 \<Rightarrow> u64 \<Rightarrow> bool \<Rightarrow> hopper" where
  "hopper_new cryptde per_service per_byte decentralized =
     \<lparr> hp_cryptde = cryptde, hp_consuming_service = None, hp_routing_service = None,
       hp_per_routing_service = per_service, hp_per_routing_byte = per_byte,
       hp_is_decentralized = decentralized \<rparr>"

definition handle_bind :: "hopper \<Rightarrow> hopper" where
  "handle_bind self =
     self\<lparr> hp_consuming_service := Some \<lparr> cs_cryptde = hp_cryptde self \<rparr>,
           hp_routing_service := Some \<lparr> rs_cryptde = hp_cryptde self,
             per_routing_service = hp_per_routing_service self,
             per_routing_byte = hp_per_routing_byte self,
             rs_is_decentralized = hp_is_decentralized self \<rparr> \<rparr>"

definition handle_no_lookup ::
    "cores_env \<Rightarrow> hopper \<Rightarrow> no_lookup_incipient_cores_package \<Rightarrow> hopper_message list run" where
  "handle_no_lookup env self msg =
     bind_run (expect (hp_consuming_service self)) (\<lambda>service. consume_no_lookup env service msg)"

definition handle_incipient :: "cores_env \<Rightarrow> hopper \<Rightarrow> incipient_cores_package \<Rightarrow> hopper_message list run" where
  "handle_incipient env self msg =
     bind_run (expect (hp_consuming_service self)) (\<lambda>service. consume env service msg)"

definition handle_inbound :: "cores_env \<Rightarrow> hopper \<Rightarrow> banned_cache \<Rightarrow> inbound_client_data \<Rightarrow> hopper_message list run" where
  "handle_inbound env self bans msg =
     bind_run (expect (hp_routing_service self)) (\<lambda>service. route_inbound env service bans msg)"

section \<open>Lemmas\<close>

lemma live_version_Ok: "live_version = Ok (DataVersion 0 0 0)"
  by (simp add: live_version_def data_version_new_def)

lemma live_new_Ok [simp]:
  "live_new r payload = Ok \<lparr> lcp_version = DataVersion 0 0 0, lcp_route = r, lcp_payload = payload \<rparr>"
  by (simp add: live_new_def live_version_Ok)

lemma shift_next_hop: "shift env cd r = (Ok h, r') \<Longrightarrow> next_hop env r cd = Ok h"
  by (auto simp: shift_def next_hop_def split: list.splits sum.splits)

lemma travel_append:
  "travel env (xs @ ys) r =
     bind_run (travel env xs r) (\<lambda>(hs, r'). bind_run (travel env ys r') (\<lambda>(gs, r''). Ok (hs @ gs, r'')))"
proof (induction xs arbitrary: r)
  case Nil
  show ?case by (cases "travel env ys r") auto
next
  case (Cons x xs)
  show ?case
  proof (cases "shift env x r")
    case (Pair res r1)
    show ?thesis
    proof (cases res)
      case (Inr h)
      with Pair show ?thesis
        by (cases "travel env xs r1") (auto simp: Cons.IH bind_run_def split: sum.split)
    qed (simp add: Pair)
  qed
qed

lemma travel_length: "travel env nodes r = Ok (hs, r') \<Longrightarrow> length hs = length nodes"
  by (induction nodes arbitrary: r hs) (auto simp: bind_run_eq_Inr split: sum.splits prod.splits)

lemma prefix_components:
  assumes "map f gs @ ys = replicate n x @ z # zs" "length gs = Suc n"
  shows "map f gs = replicate n x @ [z]"
  using append_eq_append_conv [of "map f gs" "replicate n x @ [z]" ys zs] assms by simp

lemma butlast_prefix_keys:
  assumes "map f gs @ ys = xs @ zs" "length gs = Suc (length xs)"
  shows "map f (butlast gs) = xs"
proof -
  have "map f (butlast gs) = take (length xs) (map f gs @ ys)"
    using assms(2) by (simp add: butlast_conv_take take_map)
  then show ?thesis
    using assms(1) by simp
qed

text \<open>A package that travels hopper by hopper: what each sends, until one does not pass it on.\<close>

definition inbound_from :: "socket_addr \<Rightarrow> bytes \<Rightarrow> inbound_client_data" where
  "inbound_from src dat =
     \<lparr> ibcd_peer_addr = src, reception_port = None, ibcd_last_data = False, is_clandestine = True,
       ibcd_sequence_number = None, ibcd_data = dat \<rparr>"

fun transmitted :: "hopper_message list \<Rightarrow> transmit_data_msg option" where
  "transmitted [] = None"
| "transmitted (ToDispatcher m # _) = Some m"
| "transmitted (_ # ms) = transmitted ms"

fun deliver :: "cores_env \<Rightarrow> banned_cache \<Rightarrow> socket_addr \<Rightarrow> routing_service list \<Rightarrow> bytes \<Rightarrow> hopper_message list list run" where
  "deliver env bans src [] dat = Ok []"
| "deliver env bans src (rs # rest) dat =
     bind_run (route_inbound env rs bans (inbound_from src dat)) (\<lambda>outs.
     case transmitted outs of
       None \<Rightarrow> Ok [outs]
     | Some m \<Rightarrow> bind_run (deliver env bans src rest (td_data m)) (\<lambda>more. Ok (outs # more)))"

text \<open>A hop that pays the node it is read by.\<close>

definition hop_pays :: "cores_env \<Rightarrow> banned_cache \<Rightarrow> wallet \<Rightarrow> routing_service \<Rightarrow> live_hop \<Rightarrow> bool" where
  "hop_pays env bans w rs h \<longleftrightarrow> (\<exists>p. hop_payer h = Some p \<and> payer_wallet p = w \<and>
     owns_secret_key (rt_eth (ce_route env)) p (cd_digest (rs_cryptde rs)) = Ok True \<and>
     is_delinquent (rt_eth (ce_route env)) bans p = Ok False)"

definition relayed :: "wallet \<Rightarrow> hopper_message list \<Rightarrow> bool" where
  "relayed w outs \<longleftrightarrow> (\<exists>rep m. outs = [ToAccountant rep, ToDispatcher m] \<and> rrp_paying_wallet rep = w)"

lemma payment_ok_pays:
  assumes "payment_ok (ce_route env) (Some wal) c (rs_cryptde rs) h"
    and "wallet_address (rt_eth (ce_route env)) wal = Ok a" "wallet_from_address a \<notin> set bans"
    and "cd_digest (rs_cryptde rs) =
      create_digest (rt_lib (ce_route env)) (cd_public_key (rs_cryptde rs)) (route_contract c)"
  shows "hop_pays env bans (wallet_from_address a) rs h"
  using assms
  by (auto simp: payment_ok_def hop_pays_def is_delinquent_def is_banned_def as_address_wallet_def
      wallet_address_def wallet_from_address_def)

context cryptde_family
begin

text \<open>One relay: it charges the payer and passes the package, without its top hop, to the node the
  hop names.\<close>

lemma relay_step:
  assumes "family (rs_cryptde rs)" "family next_cd" "cd_public_key next_cd \<noteq> cd_public_key (rs_cryptde rs)"
    and "decodex (lcp_codec env) (rs_cryptde rs) dat = Ok lcp"
    and "shift (ce_route env) (rs_cryptde rs) (lcp_route lcp) = (Ok h, r')"
    and "hop_component h = Hopper" "hop_public_key h = cd_public_key next_cd" "hop_pays env bans w rs h"
    and "\<And>p. codec_roundtrips (lcp_codec env) p"
  obtains outs m where "route_inbound env rs bans (inbound_from src dat) = Ok outs" "relayed w outs"
    "transmitted outs = Some m" "td_endpoint m = Key (cd_public_key next_cd)"
    "decodex (lcp_codec env) next_cd (td_data m) =
       Ok \<lparr> lcp_version = DataVersion 0 0 0, lcp_route = r', lcp_payload = lcp_payload lcp \<rparr>"
proof -
  define next_lcp where "next_lcp = \<lparr> lcp_version = DataVersion 0 0 0, lcp_route = r', lcp_payload = lcp_payload lcp \<rparr>"
  obtain d where d: "encodex (lcp_codec env) (rs_cryptde rs) (cd_public_key next_cd) next_lcp = Ok d"
    "decodex (lcp_codec env) next_cd d = Ok next_lcp"
    using encodex_decodex [OF assms(1, 2) assms(9)] by blast
  define m where "m = \<lparr> td_endpoint = Key (cd_public_key next_cd), td_last_data = False,
      td_sequence_number = None, td_data = d \<rparr>"
  have "to_transmit_data_msg env rs lcp False = Ok (Ok m)"
    using assms(5, 7) d(1) by (simp add: to_transmit_data_msg_def to_next_live_def m_def next_lcp_def)
  moreover obtain p where p: "hop_payer h = Some p" "payer_wallet p = w"
    "owns_secret_key (rt_eth (ce_route env)) p (cd_digest (rs_cryptde rs)) = Ok True"
    "is_delinquent (rt_eth (ce_route env)) bans p = Ok False"
    using assms(8) by (auto simp: hop_pays_def)
  ultimately have "route_inbound env rs bans (inbound_from src dat) = Ok [ToAccountant \<lparr> rrp_paying_wallet = w,
      rrp_payload_size = length (lcp_payload lcp), rrp_service_rate = per_routing_service rs,
      rrp_byte_rate = per_routing_byte rs \<rparr>, ToDispatcher m]"
    using assms(3, 4, 6, 7) shift_next_hop [OF assms(5)]
    by (simp add: route_inbound_def route_data_def inbound_from_def is_destined_for_here_def
        route_data_externally_def Let_def)
  then show thesis
    by (rule that [of _ m]) (use d(2) in \<open>simp_all add: relayed_def m_def next_lcp_def\<close>)
qed

text \<open>The exit node hands a client request to its proxy client.\<close>

lemma exit_step:
  assumes "decodex (lcp_codec env) (rs_cryptde rs) dat = Ok lcp"
    and "shift (ce_route env) (rs_cryptde rs) (lcp_route lcp) = (Ok h, r')"
    and "hop_component h = ProxyClient" "hop_pays env bans w rs h"
    and "decodex (message_codec env) (rs_cryptde rs) (lcp_payload lcp) = Ok (ClientRequest rq)"
  shows "route_inbound env rs bans (inbound_from src dat) =
    Ok [ToProxyClient (expired_new src (Some w) (lcp_route lcp) rq (length (lcp_payload lcp)))]"
  using assms shift_next_hop [OF assms(2)]
  by (auto simp: route_inbound_def route_data_def inbound_from_def route_data_internally_def hop_pays_def
      route_data_to_peripheral_component_def to_expired_def repack_def payer_owns_secret_key_def
      expired_new_def Let_def)

text \<open>A package on a route of paid hops reaches the node at its end.\<close>

lemma deliver_along_route:
  assumes "travel (ce_route env) (map rs_cryptde (rs # rss)) (lcp_route lcp) = Ok (hs, r')"
    and "\<And>n. n \<in> set (rs # rss) \<Longrightarrow> family (rs_cryptde n)"
    and "distinct_adj (map (\<lambda>n. cd_public_key (rs_cryptde n)) (rs # rss))"
    and "map hop_public_key (butlast hs) = map (\<lambda>n. cd_public_key (rs_cryptde n)) rss"
    and "map hop_component hs = replicate (length rss) Hopper @ [ProxyClient]"
    and "list_all2 (hop_pays env bans w) (rs # rss) hs"
    and "decodex (lcp_codec env) (rs_cryptde rs) dat = Ok lcp"
    and "decodex (message_codec env) (rs_cryptde (last (rs # rss))) (lcp_payload lcp) = Ok (ClientRequest rq)"
    and "\<And>p. codec_roundtrips (lcp_codec env) p"
  shows "\<exists>outs e. deliver env bans src (rs # rss) dat = Ok (outs @ [[ToProxyClient e]]) \<and>
    length outs = length rss \<and> list_all (relayed w) outs \<and>
    ecp_payload e = rq \<and> paying_wallet e = Some w"
  using assms(1-8)
proof (induction rss arbitrary: rs lcp dat hs)
  case Nil
  then obtain h r1 where h: "shift (ce_route env) (rs_cryptde rs) (lcp_route lcp) = (Ok h, r1)" "hs = [h]"
    by (auto split: sum.splits prod.splits)
  then have "route_inbound env rs bans (inbound_from src dat) =
      Ok [ToProxyClient (expired_new src (Some w) (lcp_route lcp) rq (length (lcp_payload lcp)))]"
    using Nil by (intro exit_step [OF Nil(7) h(1)]) auto
  then show ?case
    by (intro exI [of _ "[]"]) (auto simp: expired_new_def)
next
  case (Cons n rss)
  obtain h r1 where h: "shift (ce_route env) (rs_cryptde rs) (lcp_route lcp) = (Ok h, r1)"
    using Cons.prems(1) by (auto split: sum.splits prod.splits)
  then obtain gs where gs: "hs = h # gs" "travel (ce_route env) (map rs_cryptde (n # rss)) r1 = Ok (gs, r')"
    using Cons.prems(1) by (auto simp del: travel.simps(2) simp add: travel.simps(2) [of _ "rs_cryptde rs"] bind_run_eq_Inr)
  have "gs \<noteq> []"
    using Cons.prems(6) gs(1) by auto
  then have hop: "hop_public_key h = cd_public_key (rs_cryptde n)" "hop_component h = Hopper"
    "hop_pays env bans w rs h"
    using Cons.prems(4-6) gs(1) by auto
  have diff: "cd_public_key (rs_cryptde n) \<noteq> cd_public_key (rs_cryptde rs)"
    using Cons.prems(3) by auto
  have fam: "family (rs_cryptde rs)" "family (rs_cryptde n)"
    using Cons.prems(2) by simp_all
  define lcp' where "lcp' = \<lparr> lcp_version = DataVersion 0 0 0, lcp_route = r1, lcp_payload = lcp_payload lcp \<rparr>"
  obtain outs m where m: "route_inbound env rs bans (inbound_from src dat) = Ok outs" "relayed w outs"
    "transmitted outs = Some m" "decodex (lcp_codec env) (rs_cryptde n) (td_data m) = Ok lcp'"
    using relay_step [OF fam diff Cons.prems(7) h hop(2, 1, 3) assms(9)] unfolding lcp'_def by metis
  have "\<exists>outs e. deliver env bans src (n # rss) (td_data m) = Ok (outs @ [[ToProxyClient e]]) \<and>
      length outs = length rss \<and> list_all (relayed w) outs \<and> ecp_payload e = rq \<and> paying_wallet e = Some w"
  proof (rule Cons.IH [of n lcp' gs])
    show "travel (ce_route env) (map rs_cryptde (n # rss)) (lcp_route lcp') = Ok (gs, r')"
      using gs(2) by (simp add: lcp'_def)
  qed (use Cons.prems gs \<open>gs \<noteq> []\<close> m(4) in \<open>auto simp: lcp'_def\<close>)
  then obtain more e where e: "deliver env bans src (n # rss) (td_data m) = Ok (more @ [[ToProxyClient e]])"
    "length more = length rss" "list_all (relayed w) more" "ecp_payload e = rq" "paying_wallet e = Some w"
    by blast
  have "deliver env bans src (rs # n # rss) dat = Ok ((outs # more) @ [[ToProxyClient e]])"
    using m(1, 3) e(1) by simp
  then show ?case
    using e m(2) by (intro exI [of _ "outs # more"] exI [of _ e]) simp
qed

lemma request_delivered:
  assumes "\<And>n. n \<in> set (origin # map rs_cryptde rss) \<union> set bk \<Longrightarrow> family n" "rss \<noteq> []" "2 \<le> length bk"
    and "hd bk = rs_cryptde (last rss)" "last bk = origin"
    and "distinct_adj (map cd_public_key (origin # map rs_cryptde rss))"
    and "wallet_pays (ce_route env) (Some wal) c" "wallet_address (rt_eth (ce_route env)) wal = Ok a"
    and "wallet_from_address a \<notin> set bans"
    and "\<And>n. n \<in> set rss \<Longrightarrow> cd_digest (rs_cryptde n) =
      create_digest (rt_lib (ce_route env)) (cd_public_key (rs_cryptde n)) (route_contract c)"
    and "hop_codec_law (ce_route env)" "codec_roundtrips (id_codec (ce_route env)) i"
    and "\<And>p. codec_roundtrips (lcp_codec env) p" "codec_roundtrips (message_codec env) (ClientRequest rq)"
  shows "\<exists>r pkg m outs e.
    round_trip (ce_route env) (route_segment_new (map cd_public_key (origin # map rs_cryptde rss)) ProxyClient)
      (route_segment_new (map cd_public_key bk) ProxyServer) origin (Some wal) i c = Ok (Ok r) \<and>
    incipient_new env origin r (ClientRequest rq) (cd_public_key (rs_cryptde (last rss))) = Ok pkg \<and>
    consume env \<lparr> cs_cryptde = origin \<rparr> pkg = Ok [ToDispatcher m] \<and>
    td_endpoint m = Key (cd_public_key (rs_cryptde (hd rss))) \<and>
    deliver env bans src rss (td_data m) = Ok (outs @ [[ToProxyClient e]]) \<and>
    length outs = length rss - 1 \<and> list_all (relayed (wallet_from_address a)) outs \<and>
    ecp_payload e = rq \<and> paying_wallet e = Some (wallet_from_address a)"
proof -
  define over where "over = origin # map rs_cryptde rss"
  obtain n ns where rss: "rss = n # ns"
    using assms(2) by (cases rss) auto
  have last_over: "last over = rs_cryptde (last rss)"
    by (simp add: over_def rss last_map)
  obtain r hs r' where r: "round_trip (ce_route env) (route_segment_new (map cd_public_key over) ProxyClient)
      (route_segment_new (map cd_public_key bk) ProxyServer) origin (Some wal) i c = Ok (Ok r)"
    "travel (ce_route env) (over @ tl bk) r = Ok (hs, r')"
    "map hop_public_key hs = map cd_public_key (tl over @ tl bk) @ [[]]"
    "map hop_component hs = replicate (length over - 1) Hopper @ ProxyClient # replicate (length bk - 2) Hopper @ [ProxyServer]"
    "list_all2 (payment_ok (ce_route env) (Some wal) c) (over @ tl bk) hs"
  proof -
    have fams: "\<And>x. x \<in> set over \<union> set bk \<Longrightarrow> family x"
      using assms(1) by (auto simp: over_def)
    show thesis
      using round_trip_travelled [where over = over and there = ProxyClient and home = ProxyServer,
          OF fams _ assms(3) _ assms(5, 7, 11, 12)] assms(4) last_over that
      by (auto simp: over_def)
  qed
  obtain h r1 where h: "shift (ce_route env) origin r = (Ok h, r1)"
    using r(2) by (auto simp: over_def split: sum.splits prod.splits)
  obtain gs qs r2 where gs: "travel (ce_route env) (map rs_cryptde rss) r1 = Ok (gs, r2)" "hs = h # gs @ qs"
    using r(2) h by (auto simp: over_def travel_append bind_run_eq_Inr)
  have len: "length gs = length rss"
    using travel_length [OF gs(1)] by simp
  have key: "hop_public_key h = cd_public_key (rs_cryptde n)"
    using r(3) gs(2) by (simp add: over_def rss)
  have fam: "family origin" "\<And>x. x \<in> set rss \<Longrightarrow> family (rs_cryptde x)"
    using assms(1) by auto
  obtain pl where pl: "encodex (message_codec env) origin (cd_public_key (rs_cryptde (last rss))) (ClientRequest rq) = Ok pl"
    "decodex (message_codec env) (rs_cryptde (last rss)) pl = Ok (ClientRequest rq)"
    using encodex_decodex [OF fam(1) fam(2) assms(14), of "last rss"] assms(2) by auto
  define lcp where "lcp = \<lparr> lcp_version = DataVersion 0 0 0, lcp_route = r1, lcp_payload = pl \<rparr>"
  obtain d where d: "encodex (lcp_codec env) origin (cd_public_key (rs_cryptde n)) lcp = Ok d"
    "decodex (lcp_codec env) (rs_cryptde n) d = Ok lcp"
    using encodex_decodex [OF fam(1) fam(2) assms(13), of n lcp] by (auto simp: rss)
  define m where "m = \<lparr> td_endpoint = Key (cd_public_key (rs_cryptde n)), td_last_data = False,
      td_sequence_number = None, td_data = d \<rparr>"
  have "cd_public_key (rs_cryptde n) \<noteq> cd_public_key origin"
    using assms(6) by (auto simp: rss)
  then have consumed: "consume env \<lparr> cs_cryptde = origin \<rparr> \<lparr> icp_route = r, icp_payload = pl \<rparr> = Ok [ToDispatcher m]"
    using h key d(1) by (simp add: consume_def from_incipient_def launch_lcp_def m_def lcp_def)
  have keys: "map hop_public_key (butlast gs) = map (\<lambda>x. cd_public_key (rs_cryptde x)) ns"
    using r(3) gs(2) len butlast_prefix_keys [of hop_public_key gs "map hop_public_key qs"
        "map (\<lambda>x. cd_public_key (rs_cryptde x)) ns" "map cd_public_key (tl bk) @ [[]]"]
    by (simp add: over_def rss comp_def)
  have comps: "map hop_component gs = replicate (length ns) Hopper @ [ProxyClient]"
    using r(4) gs(2) len prefix_components [of hop_component gs "map hop_component qs" "length ns" Hopper
        ProxyClient "replicate (length bk - 2) Hopper @ [ProxyServer]"]
    by (simp add: over_def rss)
  have "list_all2 (payment_ok (ce_route env) (Some wal) c) (map rs_cryptde rss) gs"
    using r(5) gs(2) len by (simp add: over_def list_all2_append)
  then have pays: "list_all2 (hop_pays env bans (wallet_from_address a)) rss gs"
    using assms(8-10) by (auto simp: list_all2_conv_all_nth payment_ok_pays)
  obtain outs e where "deliver env bans src (n # ns) d = Ok (outs @ [[ToProxyClient e]])" "length outs = length ns"
    "list_all (relayed (wallet_from_address a)) outs" "ecp_payload e = rq" "paying_wallet e = Some (wallet_from_address a)"
    using deliver_along_route [of env n ns lcp gs r2 bans "wallet_from_address a" d rq src] gs(1) fam(2) assms(6, 13)
      keys comps pays d(2) pl(2)
    by (auto simp: rss lcp_def comp_def)
  then show ?thesis
    using r(1) pl(1) consumed
    by (intro exI [of _ r] exI [of _ "\<lparr> icp_route = r, icp_payload = pl \<rparr>"] exI [of _ m] exI [of _ outs] exI [of _ e])
       (simp add: incipient_new_def m_def rss over_def)
qed

end

text \<open>What the hopper can send, by kind of hop.\<close>

definition charge :: "routing_service \<Rightarrow> payer \<Rightarrow> live_cores_package \<Rightarrow> hopper_message" where
  "charge rs p lcp = ToAccountant \<lparr> rrp_paying_wallet = payer_wallet p, rrp_payload_size = length (lcp_payload lcp),
     rrp_service_rate = per_routing_service rs, rrp_byte_rate = per_routing_byte rs \<rparr>"

lemma externally_cases:
  assumes "route_data_externally env rs bans lcp (hop_payer h) l = Ok outs" "outs \<noteq> []"
  shows "\<exists>p. hop_payer h = Some p \<and> hop_pays env bans (payer_wallet p) rs h \<and>
    (outs = [charge rs p lcp] \<or>
     (\<exists>m. outs = [charge rs p lcp, ToDispatcher m] \<and> to_transmit_data_msg env rs lcp l = Ok (Ok m)))"
proof -
  obtain p where p: "hop_payer h = Some p"
    using assms by (cases "hop_payer h") (auto simp: route_data_externally_def Let_def)
  then have "hop_pays env bans (payer_wallet p) rs h \<and>
      bind_run (to_transmit_data_msg env rs lcp l) (\<lambda>result. case result of
        Inr m \<Rightarrow> Ok [charge rs p lcp, ToDispatcher m] | Inl _ \<Rightarrow> Ok [charge rs p lcp]) = Ok outs"
    using assms
    by (auto simp: route_data_externally_def hop_pays_def charge_def Let_def
        bind_run_eq_Inr [of "owns_secret_key _ _ _"] bind_run_eq_Inr [of "is_delinquent _ _ _"] split: if_splits)
  then have pays: "hop_pays env bans (payer_wallet p) rs h" and
    sent: "bind_run (to_transmit_data_msg env rs lcp l) (\<lambda>result. case result of
        Inr m \<Rightarrow> Ok [charge rs p lcp, ToDispatcher m] | Inl _ \<Rightarrow> Ok [charge rs p lcp]) = Ok outs"
    by simp_all
  obtain result where "to_transmit_data_msg env rs lcp l = Ok result"
    using sent by (auto simp: bind_run_eq_Inr)
  with p pays sent show ?thesis
    by (cases result) auto
qed

lemma shift_of_next_hop: "next_hop env r cd = Ok h \<Longrightarrow> \<exists>r'. shift env cd r = (Ok h, r')"
  by (cases "route_hops r") (auto simp: next_hop_def shift_def)

lemma transmit_endpoint:
  assumes "to_transmit_data_msg env rs lcp l = Ok (Ok m)" "next_hop (ce_route env) (lcp_route lcp) (rs_cryptde rs) = Ok h"
  shows "td_endpoint m = Key (hop_public_key h)"
  using assms(1) shift_of_next_hop [OF assms(2)]
  by (auto simp: to_transmit_data_msg_def to_next_live_def split: sum.splits)

lemma peripheral_cases:
  assumes "x \<in> set (route_data_to_peripheral_component env rs c src lcp owns)"
    and "next_hop (ce_route env) (lcp_route lcp) (rs_cryptde rs) = Ok h"
  shows "route_data_to_peripheral_component env rs c src lcp owns = [x] \<and> (\<nexists>m. x = ToDispatcher m) \<and>
    (\<forall>e. x = ToProxyClient e \<longrightarrow> (rs_is_decentralized rs \<longrightarrow> owns) \<and>
       paying_wallet e = map_option payer_wallet (hop_payer h))"
  using assms
  by (auto simp: route_data_to_peripheral_component_def to_expired_def repack_def expired_new_def
      split: sum.splits component.splits message_type.splits if_splits)

lemma around_again_cases:
  assumes "route_data_around_again env rs lcp ibcd = Ok outs"
  shows "outs = [] \<or> (\<exists>i. outs = [ToHopper i])"
proof -
  obtain result where r: "to_next_live env lcp (rs_cryptde rs) = Ok result"
    using assms by (auto simp: route_data_around_again_def bind_run_eq_Inr)
  show ?thesis
  proof (cases result)
    case (Inr p)
    then show ?thesis
      using assms r
      by (cases "encodex (lcp_codec env) (rs_cryptde rs) (cd_public_key (rs_cryptde rs)) (snd p)")
         (auto simp: route_data_around_again_def split: prod.splits)
  qed (use assms r in \<open>simp add: route_data_around_again_def\<close>)
qed

lemma internally_cases:
  assumes "route_data_internally env rs bans h src lcp ibcd = Ok outs"
    and "next_hop (ce_route env) (lcp_route lcp) (rs_cryptde rs) = Ok h"
  shows "(\<nexists>m. ToDispatcher m \<in> set outs) \<and>
    (\<forall>e. ToProxyClient e \<in> set outs \<and> rs_is_decentralized rs \<longrightarrow>
       (\<exists>p. hop_payer h = Some p \<and> hop_pays env bans (payer_wallet p) rs h \<and>
          paying_wallet e = Some (payer_wallet p) \<and> outs = [ToProxyClient e]))"
proof (cases "hop_component h = Hopper")
  case True
  then show ?thesis
    using assms(1) around_again_cases [of env rs lcp ibcd outs] by (auto simp: route_data_internally_def)
next
  case False
  then consider "outs = []" | owns where
    "payer_owns_secret_key (ce_route env) h (cd_digest (rs_cryptde rs)) = Ok owns"
    "\<And>p. hop_payer h = Some p \<Longrightarrow> is_delinquent (rt_eth (ce_route env)) bans p = Ok False"
    "outs = route_data_to_peripheral_component env rs (hop_component h) src lcp owns"
    using assms(1)
    by (auto simp: route_data_internally_def bind_run_eq_Inr split: if_splits option.splits)
  then show ?thesis
  proof cases
    case 2
    have "\<exists>p. hop_payer h = Some p \<and> hop_pays env bans (payer_wallet p) rs h" if owns
      using 2(1, 2) that by (auto simp: payer_owns_secret_key_def hop_pays_def split: option.splits)
    moreover have "outs = [x] \<and> (\<nexists>m. x = ToDispatcher m) \<and>
        (\<forall>e. x = ToProxyClient e \<longrightarrow> (rs_is_decentralized rs \<longrightarrow> owns) \<and>
           paying_wallet e = map_option payer_wallet (hop_payer h))" if "x \<in> set outs" for x
      using peripheral_cases [OF _ assms(2), of x "hop_component h" src owns] 2(3) that by simp
    ultimately show ?thesis
      by (metis option.simps(9))
  qed simp
qed

section \<open>Properties\<close>

text \<open>C3. A client request reaches its exit node, and everybody on the way is paid: for either
  cryptographic implementation, any relays and any way back, if the consuming wallet can sign, is
  not banned and no two successive nodes are the same, then the originating node builds the route,
  seals the request and launches the package at the first relay without panic or error; each relay
  in turn charges exactly that wallet and passes the package on; and the proxy client of the exit
  node gets the very request, with the address of that wallet as the one that pays. A hop is read back as
  the serializer of the wallets leaves it, without the key pair of the payer.\<close>

theorem client_request_delivered:
  assumes "family = null_family lib \<or> family = real_family lib na chain_id"
    and "\<And>n. n \<in> set (origin # map rs_cryptde rss) \<union> set bk \<Longrightarrow> family n" "rss \<noteq> []" "2 \<le> length bk"
    and "hd bk = rs_cryptde (last rss)" "last bk = origin"
    and "distinct_adj (map cd_public_key (origin # map rs_cryptde rss))"
    and "wallet_pays (ce_route env) (Some wal) c" "wallet_address (rt_eth (ce_route env)) wal = Ok a"
    and "wallet_from_address a \<notin> set bans"
    and "\<And>n. n \<in> set rss \<Longrightarrow> cd_digest (rs_cryptde n) =
      create_digest (rt_lib (ce_route env)) (cd_public_key (rs_cryptde n)) (route_contract c)"
    and "hop_codec_law (ce_route env)" "codec_roundtrips (id_codec (ce_route env)) i"
    and "\<And>p. codec_roundtrips (lcp_codec env) p" "codec_roundtrips (message_codec env) (ClientRequest rq)"
  shows "\<exists>r pkg m outs e.
    round_trip (ce_route env) (route_segment_new (map cd_public_key (origin # map rs_cryptde rss)) ProxyClient)
      (route_segment_new (map cd_public_key bk) ProxyServer) origin (Some wal) i c = Ok (Ok r) \<and>
    incipient_new env origin r (ClientRequest rq) (cd_public_key (rs_cryptde (last rss))) = Ok pkg \<and>
    consume env \<lparr> cs_cryptde = origin \<rparr> pkg = Ok [ToDispatcher m] \<and>
    td_endpoint m = Key (cd_public_key (rs_cryptde (hd rss))) \<and>
    deliver env bans src rss (td_data m) = Ok (outs @ [[ToProxyClient e]]) \<and>
    length outs = length rss - 1 \<and> list_all (relayed (wallet_from_address a)) outs \<and>
    ecp_payload e = rq \<and> paying_wallet e = Some (wallet_from_address a)"
proof (rule disjE [OF assms(1)])
  assume "family = null_family lib"
  then show ?thesis
    using assms(2) by (intro null.request_delivered [OF _ assms(3-15)]) simp
next
  assume "family = real_family lib na chain_id"
  then show ?thesis
    using assms(2) by (intro real.request_delivered [OF _ assms(3-15)]) simp
qed

text \<open>C12. No routing for free: whatever data arrive, if the hopper passes a package on to another
  node, then the package's top hop, readable by this node only, names that node and carries a payer
  that owns the secret key of its wallet for this node and whose wallet is not banned, and exactly
  this wallet has been charged for the payload at this node's rates just before. If the hopper hands
  a request to the proxy client of a decentralized node, the top hop carries such a payer as well.\<close>

theorem no_routing_without_payment:
  assumes "route_inbound env rs bans ibcd = Ok outs"
  shows "(\<forall>m. ToDispatcher m \<in> set outs \<longrightarrow> (\<exists>lcp h p.
      decodex (lcp_codec env) (rs_cryptde rs) (ibcd_data ibcd) = Ok lcp \<and>
      next_hop (ce_route env) (lcp_route lcp) (rs_cryptde rs) = Ok h \<and>
      td_endpoint m = Key (hop_public_key h) \<and> hop_public_key h \<noteq> cd_public_key (rs_cryptde rs) \<and>
      hop_payer h = Some p \<and> hop_pays env bans (payer_wallet p) rs h \<and>
      outs = [ToAccountant \<lparr> rrp_paying_wallet = payer_wallet p, rrp_payload_size = length (lcp_payload lcp),
          rrp_service_rate = per_routing_service rs, rrp_byte_rate = per_routing_byte rs \<rparr>, ToDispatcher m])) \<and>
    (\<forall>e. ToProxyClient e \<in> set outs \<and> rs_is_decentralized rs \<longrightarrow> (\<exists>lcp h p.
      decodex (lcp_codec env) (rs_cryptde rs) (ibcd_data ibcd) = Ok lcp \<and>
      next_hop (ce_route env) (lcp_route lcp) (rs_cryptde rs) = Ok h \<and>
      hop_payer h = Some p \<and> hop_pays env bans (payer_wallet p) rs h \<and>
      paying_wallet e = Some (payer_wallet p) \<and> outs = [ToProxyClient e]))"
proof (cases "outs = []")
  case False
  then obtain lcp h where l: "decodex (lcp_codec env) (rs_cryptde rs) (ibcd_data ibcd) = Ok lcp"
    "next_hop (ce_route env) (lcp_route lcp) (rs_cryptde rs) = Ok h"
    "route_data env rs bans (ibcd_peer_addr ibcd) h lcp (ibcd_last_data ibcd) (clone_but_data ibcd) = Ok outs"
    using assms by (auto simp: route_inbound_def Let_def split: sum.splits)
  show ?thesis
  proof (cases "hop_component h = Hopper \<and> \<not> is_destined_for_here rs h")
    case True
    then have "route_data_externally env rs bans lcp (hop_payer h) (ibcd_last_data ibcd) = Ok outs"
      using l(3) by (simp add: route_data_def)
    then obtain p where p: "hop_payer h = Some p" "hop_pays env bans (payer_wallet p) rs h"
      "outs = [charge rs p lcp] \<or> (\<exists>m. outs = [charge rs p lcp, ToDispatcher m] \<and>
         to_transmit_data_msg env rs lcp (ibcd_last_data ibcd) = Ok (Ok m))"
      using False externally_cases by metis
    have "td_endpoint m = Key (hop_public_key h)"
      if "to_transmit_data_msg env rs lcp (ibcd_last_data ibcd) = Ok (Ok m)" for m
      using transmit_endpoint [OF that l(2)] .
    with p l(1, 2) True show ?thesis
      by (auto simp: charge_def is_destined_for_here_def)
  next
    case False
    then have "route_data_internally env rs bans h (ibcd_peer_addr ibcd) lcp (clone_but_data ibcd) = Ok outs"
      using l(3) by (auto simp: route_data_def)
    from internally_cases [OF this l(2)] show ?thesis
      using l(1, 2) by blast
  qed
qed simp

section \<open>Examples\<close>

definition demo_node :: "u8 \<Rightarrow> routing_service" where
  "demo_node x = \<lparr> rs_cryptde = example_node x, per_routing_service = 5, per_routing_byte = 2, rs_is_decentralized = True \<rparr>"

lemma demo_facts:
  "rs_cryptde (demo_node x) = example_node x"
  "cd_public_key (example_node x) = [x + 128]"
  "cd_digest (example_node x) = create_digest example_libraries [x + 128] (contract_address 1)"
  "wallet_address example_ethsign demo_wallet = Ok (replicate 20 9)"
  "ce_route demo_env = \<lparr> hop_codec = demo_hop_codec, id_codec = example_id_codec,
     rt_lib = example_libraries, rt_eth = example_ethsign \<rparr>"
  "codec_roundtrips (message_codec demo_env) (ClientRequest demo_request)"
  "lcp_codec demo_env = demo_lcp_codec"
  by (simp_all add: demo_node_def example_node_def null_cryptde_def null_new_def public_from_private_def
      other_key_data_def Let_def demo_wallet_def wallet_from_key_pair_def key_pair_from_def example_ethsign_def
      demo_env_def codec_roundtrips_def)

text \<open>The hypotheses of the delivery theorem, for a network of three nodes.\<close>

lemma demo_hyps:
  "n \<in> set (example_node 1 # map rs_cryptde [demo_node 2, demo_node 3]) \<union>
     set [example_node 3, example_node 1] \<Longrightarrow> null_family example_libraries n"
  "distinct_adj (map cd_public_key (example_node 1 # map rs_cryptde [demo_node 2, demo_node 3]))"
  "hop_codec_law (ce_route demo_env)"
  "codec_roundtrips (lcp_codec demo_env) p"
  "codec_roundtrips (id_codec (ce_route demo_env)) 77"
  "wallet_address (rt_eth (ce_route demo_env)) demo_wallet = Ok (replicate 20 9)"
  "n' \<in> set [demo_node 2, demo_node 3] \<Longrightarrow> cd_digest (rs_cryptde n') =
     create_digest (rt_lib (ce_route demo_env)) (cd_public_key (rs_cryptde n')) (route_contract (Some (contract_address 1)))"
  "2 \<le> length [example_node 3, example_node 1]"
  by (auto simp: demo_facts(1-3,5-7) example_node_family demo_hop_codec_law [unfolded demo_facts(5)] demo_lcp_codec_roundtrips
      example_id_codec_roundtrips route_contract_def demo_facts(4))

theorem client_request_delivered_witness:
  "\<exists>r pkg m outs e.
    round_trip (ce_route demo_env) (route_segment_new (map cd_public_key [example_node 1, example_node 2, example_node 3]) ProxyClient)
      (route_segment_new (map cd_public_key [example_node 3, example_node 1]) ProxyServer) (example_node 1)
      (Some demo_wallet) 77 (Some (contract_address 1)) = Ok (Ok r) \<and>
    incipient_new demo_env (example_node 1) r (ClientRequest demo_request) (cd_public_key (example_node 3)) = Ok pkg \<and>
    consume demo_env \<lparr> cs_cryptde = example_node 1 \<rparr> pkg = Ok [ToDispatcher m] \<and>
    deliver demo_env [] \<lparr> ip = V4 1 2 3 4, port = 5 \<rparr> [demo_node 2, demo_node 3] (td_data m) = Ok (outs @ [[ToProxyClient e]]) \<and>
    length outs = 1 \<and> ecp_payload e = demo_request \<and> paying_wallet e = Some (wallet_from_address (replicate 20 9))"
  using client_request_delivered [where bans = "[]" and rss = "[demo_node 2, demo_node 3]"
      and bk = "[example_node 3, example_node 1]" and src = "\<lparr> ip = V4 1 2 3 4, port = 5 \<rparr>" and i = 77
      and wal = demo_wallet and rq = demo_request,
      OF disjI1 [OF refl] demo_hyps(1) _ demo_hyps(8) _ _ demo_hyps(2) demo_wallet_pays demo_hyps(6) _ demo_hyps(7, 3, 5, 4)
        demo_facts(6)]
  by (auto simp: demo_facts(1))

lemma demo_relayed:
  "\<exists>dat outs w. route_inbound demo_env (demo_node 2) [] (inbound_from \<lparr> ip = V4 1 2 3 4, port = 5 \<rparr> dat) = Ok outs \<and> relayed w outs"
proof -
  obtain m :: transmit_data_msg and outs e where d: "deliver demo_env [] \<lparr> ip = V4 1 2 3 4, port = 5 \<rparr> [demo_node 2, demo_node 3] (td_data m) =
      Ok (outs @ [[ToProxyClient e]])" "length outs = 1" "list_all (relayed (wallet_from_address (replicate 20 9))) outs"
    using null.request_delivered [where bans = "[]" and rss = "[demo_node 2, demo_node 3]"
      and bk = "[example_node 3, example_node 1]" and src = "\<lparr> ip = V4 1 2 3 4, port = 5 \<rparr>" and i = 77
      and wal = demo_wallet and rq = demo_request,
      OF demo_hyps(1) _ demo_hyps(8) _ _ demo_hyps(2) demo_wallet_pays demo_hyps(6) _ demo_hyps(7, 3, 5, 4) demo_facts(6)]
    by (auto simp: demo_facts(1) simp del: deliver.simps)
  obtain o1 where "outs = [o1]"
    using d(2) by (auto simp: length_Suc_conv)
  with d(1, 3) show ?thesis
    by (intro exI [of _ "td_data m"] exI [of _ o1] exI [of _ "wallet_from_address (replicate 20 9)"])
       (auto simp: bind_run_eq_Inr split: option.splits)
qed

theorem no_routing_without_payment_witness:
  "\<exists>dat outs h p. route_inbound demo_env (demo_node 2) [] (inbound_from \<lparr> ip = V4 1 2 3 4, port = 5 \<rparr> dat) = Ok outs \<and>
     length outs = 2 \<and> hop_payer h = Some p \<and> hop_pays demo_env [] (payer_wallet p) (demo_node 2) h"
proof -
  obtain dat outs w where r: "route_inbound demo_env (demo_node 2) [] (inbound_from \<lparr> ip = V4 1 2 3 4, port = 5 \<rparr> dat) = Ok outs"
    "relayed w outs"
    using demo_relayed by blast
  then obtain rep m where outs: "outs = [ToAccountant rep, ToDispatcher m]"
    by (auto simp: relayed_def)
  then have "ToDispatcher m \<in> set outs" "length outs = 2"
    by simp_all
  moreover from this obtain h p where "hop_payer h = Some p" "hop_pays demo_env [] (payer_wallet p) (demo_node 2) h"
    using no_routing_without_payment [OF r(1)] by metis
  ultimately show ?thesis
    using r(1) by blast
qed

end
