(* ===== verification/GossipAcceptor.thy ===== *)
theory GossipAcceptor
  imports Gossip
begin

text \<open>
  The gossip acceptor (\<open>neighborhood/gossip_acceptor.rs\<close>): the handlers for Debut, Pass,
  Introduction and standard gossip, the handler that rejects everything else, and
  \<open>GossipAcceptorReal::handle\<close>, which gives received records to the first handler that does not
  answer \<open>Unmatched\<close>.

  Each handler is a pair of functions \<open>qualifies\<close> and \<open>handle\<close>; \<open>handle\<close> returns the result and
  the changed database. The texts of ban reasons are constructors with the values the text is
  formatted from. A comparison function that computes degrees is modelled by computing the
  degree of every key once and sorting by it; because the order in which the keys come out of
  the hash set is arbitrary, sorting stably covers every outcome of the unstable sort.

  The locale \<open>gossip_handler\<close> is the contract every handler keeps: matched gossip never makes it
  panic, the database invariant is preserved, the database only evolves, and ignored or banned
  gossip changes nothing. All handlers are interpretations, and the dispatcher's theorems are
  proved from the contract.
\<close>

definition MAX_DEGREE :: nat where
  "MAX_DEGREE = 5"

datatype ban_reason =
    DebutWithoutNodeAddr socket_addr public_key
  | DebutWithoutPorts socket_addr public_key
  | DebutWithUnexpectedNodeAddr socket_addr public_key
  | PassWithoutNodeAddr socket_addr public_key
  | PassWithoutPorts socket_addr public_key ip_addr
  | NeitherClaimsSource public_key ip_addr public_key ip_addr ip_addr
  | IntroducerClaimsLocalKey public_key
  | IntroducerWithoutPorts public_key ip_addr
  | IntroducerClaimsLocalIp public_key
  | IntroduceeWithoutPorts public_key "ip_addr option" public_key ip_addr
  | BothClaimIp public_key public_key ip_addr
  | RecordClaimsLocalIp socket_addr public_key
  | RecordClaimsLocalKey socket_addr
  | MultipleRecordsFromIp socket_addr ip_addr
  | Unclassifiable nat socket_addr
  | ImmutableChanged public_key update_error

datatype qualification = Matched | Unmatched | Malformed ban_reason

datatype gossip_acceptance_result =
    Accepted
  | Reply gossip public_key node_addr
  | Ignored
  | Ban ban_reason

type_synonym agrs = "accessible_gossip_record list"

abbreviation agr_key :: "accessible_gossip_record \<Rightarrow> public_key" where
  "agr_key agr \<equiv> nri_public_key (agr_inner agr)"

section \<open>DebutHandler\<close>

definition debut_qualifies ::
    "neighborhood_database \<Rightarrow> agrs \<Rightarrow> socket_addr \<Rightarrow> qualification run" where
  "debut_qualifies database agrs gossip_source =
     Ok (if length agrs \<noteq> 1 then Unmatched
      else if node_by_key database (agr_key (agrs ! 0)) \<noteq> None then Unmatched
      else case agr_node_addr_opt (agrs ! 0) of
             None \<Rightarrow>
               if nri_accepts_connections (agr_inner (agrs ! 0))
               then Malformed (DebutWithoutNodeAddr gossip_source (agr_key (agrs ! 0)))
               else Matched
           | Some node_addr \<Rightarrow>
               if nri_accepts_connections (agr_inner (agrs ! 0))
               then if na_ports node_addr = []
                    then Malformed (DebutWithoutPorts gossip_source (agr_key (agrs ! 0)))
                    else if na_ip_addr node_addr = ip gossip_source then Matched
                    else Unmatched
               else Malformed (DebutWithUnexpectedNodeAddr gossip_source (agr_key (agrs ! 0))))"

definition node_and_neighbor_keys :: "accessible_gossip_record \<Rightarrow> public_key list" where
  "node_and_neighbor_keys agr = fold List.insert (nri_neighbors (agr_inner agr)) [agr_key agr]"

definition should_not_make_introduction :: "accessible_gossip_record \<Rightarrow> bool" where
  "should_not_make_introduction debuting_agr \<longleftrightarrow> nri_neighbors (agr_inner debuting_agr) \<noteq> []"

definition make_pass_gossip :: "neighborhood_database \<Rightarrow> public_key \<Rightarrow> gossip run" where
  "make_pass_gossip database pass_target =
     bind_run builder_new (\<lambda>b.
     bind_run (builder_node database pass_target True b) (\<lambda>b. Ok (builder_build b)))"

definition keys_ordered_by_degree_excluding ::
    "nb_env \<Rightarrow> neighborhood_database \<Rightarrow> public_key list \<Rightarrow> public_key list \<Rightarrow> public_key list run" where
  "keys_ordered_by_degree_excluding env database keys excluding =
     (let neighbor_keys_vec = filter (\<lambda>k. \<not> List.member excluding k) (key_order env keys)
      in bind_run (map_run (gossip_target_degree env database) neighbor_keys_vec) (\<lambda>degrees.
         Ok (map fst (sort_key snd (zip neighbor_keys_vec degrees)))))"

definition root_full_neighbors_ordered_by_degree_excluding ::
    "nb_env \<Rightarrow> neighborhood_database \<Rightarrow> accessible_gossip_record \<Rightarrow> public_key list run" where
  "root_full_neighbors_ordered_by_degree_excluding env database excluded =
     bind_run (db_root database) (\<lambda>root.
     keys_ordered_by_degree_excluding env database (full_neighbor_keys root database)
       (node_and_neighbor_keys excluded))"

definition find_least_connected_neighbor_excluding ::
    "nb_env \<Rightarrow> public_key list \<Rightarrow> neighborhood_database \<Rightarrow> accessible_gossip_record \<Rightarrow>
       public_key option run" where
  "find_least_connected_neighbor_excluding env keys database excluded =
     bind_run (keys_ordered_by_degree_excluding env database keys (node_and_neighbor_keys excluded))
       (\<lambda>ordered. Ok (first ordered))"

definition find_least_connected_half_neighbor_excluding ::
    "nb_env \<Rightarrow> neighborhood_database \<Rightarrow> accessible_gossip_record \<Rightarrow> public_key option run" where
  "find_least_connected_half_neighbor_excluding env database excluded =
     bind_run (db_root database) (\<lambda>root.
     find_least_connected_neighbor_excluding env (half_neighbor_keys root) database excluded)"

definition node_accepts_connections :: "neighborhood_database \<Rightarrow> public_key \<Rightarrow> bool run" where
  "node_accepts_connections database k =
     bind_run (expect (node_by_key database k)) (\<lambda>n. Ok (nri_accepts_connections (nr_inner n)))"

definition find_least_connected_full_neighbor_excluding ::
    "nb_env \<Rightarrow> neighborhood_database \<Rightarrow> accessible_gossip_record \<Rightarrow> public_key option run" where
  "find_least_connected_full_neighbor_excluding env database excluded =
     bind_run (db_root database) (\<lambda>root.
     bind_run (filter_run (node_accepts_connections database) (full_neighbor_keys root database)) (\<lambda>keys.
     find_least_connected_neighbor_excluding env keys database excluded))"

definition find_more_appropriate_neighbor ::
    "nb_env \<Rightarrow> neighborhood_database \<Rightarrow> accessible_gossip_record \<Rightarrow> public_key option run" where
  "find_more_appropriate_neighbor env database excluded =
     bind_run (root_full_neighbors_ordered_by_degree_excluding env database excluded) (\<lambda>neighbor_vec.
     bind_run (filter_run (node_accepts_connections database) neighbor_vec) (\<lambda>accepting.
     bind_run (skip_while_run (\<lambda>k. bind_run (gossip_target_degree env database k) (\<lambda>d. Ok (d \<le> 2))) accepting)
       (\<lambda>qualified_neighbors.
     case first qualified_neighbors of
       None \<Rightarrow> Ok None
     | Some key \<Rightarrow>
         bind_run (gossip_target_degree env database key) (\<lambda>key_degree.
         bind_run (db_root database) (\<lambda>root.
         bind_run (gossip_target_degree env database (nr_public_key root)) (\<lambda>root_degree.
         Ok (if root_degree \<le> key_degree then None else Some key)))))))"

definition make_introduction ::
    "nb_env \<Rightarrow> neighborhood_database \<Rightarrow> accessible_gossip_record \<Rightarrow> socket_addr \<Rightarrow>
       (gossip \<times> public_key \<times> node_addr) option run" where
  "make_introduction env database debuting_agr gossip_source =
     bind_run (find_least_connected_full_neighbor_excluding env database debuting_agr) (\<lambda>lcn_opt.
     case lcn_opt of
       None \<Rightarrow> Ok None
     | Some lcn_key \<Rightarrow>
         bind_run (expect (node_by_key database lcn_key)) (\<lambda>_.
         let debut_node_addr = (case agr_node_addr_opt debuting_agr of
               Some node_addr \<Rightarrow> node_addr_clone node_addr
             | None \<Rightarrow> node_addr_from_socket_addr gossip_source)
         in bind_run builder_new (\<lambda>b.
            bind_run (db_root database) (\<lambda>root.
            bind_run (builder_node database (nr_public_key root) True b) (\<lambda>b.
            bind_run (builder_node database lcn_key True b) (\<lambda>b.
            Ok (Some (builder_build b, agr_key debuting_agr, debut_node_addr))))))))"

text \<open>The code after a neighbor was added: bump this node's version and sign its record again.\<close>

definition bump_and_sign_root :: "nb_env \<Rightarrow> neighborhood_database \<Rightarrow> neighborhood_database run" where
  "bump_and_sign_root env database =
     root_mut (\<lambda>r. nr_regenerate_signed_gossip env (increment_version r)) database"

definition try_accept_debut ::
    "nb_env \<Rightarrow> neighborhood_database \<Rightarrow> accessible_gossip_record \<Rightarrow> socket_addr \<Rightarrow>
       ((unit + gossip_acceptance_result) \<times> neighborhood_database) run" where
  "try_accept_debut env database debuting_agr gossip_source =
     bind_run (db_root database) (\<lambda>root.
     bind_run (gossip_target_degree env database (nr_public_key root)) (\<lambda>degree.
     if MAX_DEGREE \<le> degree then Ok (Err (), database)
     else
       let debuting_node = node_record_from_agr_ref debuting_agr
       in case add_node debuting_node database of
            Inl _ \<Rightarrow> Err ExpectFailed
          | Inr (debut_node_key, database1) \<Rightarrow>
              (case add_half_neighbor debut_node_key database1 of
                 Inl _ \<Rightarrow> Err ExplicitPanic
               | Inr (False, _) \<Rightarrow> Err ExplicitPanic
               | Inr (True, database2) \<Rightarrow>
                   bind_run (bump_and_sign_root env database2) (\<lambda>database3.
                   if should_not_make_introduction debuting_agr then Ok (Ok Accepted, database3)
                   else bind_run (make_introduction env database3 debuting_agr gossip_source) (\<lambda>intro.
                     case intro of
                       Some (introduction, target_key, target_node_addr) \<Rightarrow>
                         Ok (Ok (Reply introduction target_key target_node_addr), database3)
                     | None \<Rightarrow> Ok (Ok Accepted, database3))))))"

definition debut_handle ::
    "nb_env \<Rightarrow> neighborhood_database \<Rightarrow> agrs \<Rightarrow> socket_addr \<Rightarrow>
       (gossip_acceptance_result \<times> neighborhood_database) run" where
  "debut_handle env database agrs gossip_source =
     bind_run (index agrs 0) (\<lambda>agr.
     let source_agr = (if agr_node_addr_opt agr = None
           then agr\<lparr> agr_node_addr_opt := Some (node_addr_from_socket_addr gossip_source) \<rparr> else agr);
         source_key = agr_key source_agr
     in bind_run (expect (agr_node_addr_opt source_agr)) (\<lambda>addr.
     let source_node_addr = node_addr_clone addr
     in bind_run (find_more_appropriate_neighbor env database source_agr) (\<lambda>preferred.
     case preferred of
       Some preferred_key \<Rightarrow>
         bind_run (expect (node_by_key database preferred_key)) (\<lambda>preferred_node.
         bind_run (expect (nr_node_addr_opt preferred_node)) (\<lambda>_.
         bind_run (make_pass_gossip database preferred_key) (\<lambda>pass.
         Ok (Reply pass source_key source_node_addr, database))))
     | None \<Rightarrow>
         bind_run (try_accept_debut env database source_agr gossip_source) (\<lambda>(accepted, database1).
         case accepted of
           Inr result \<Rightarrow> Ok (result, database1)
         | Inl _ \<Rightarrow>
             bind_run (find_least_connected_half_neighbor_excluding env database1 source_agr) (\<lambda>lcn.
             case lcn of
               None \<Rightarrow> Ok (Ignored, database1)
             | Some lcn_key \<Rightarrow>
                 bind_run (expect (node_by_key database1 lcn_key)) (\<lambda>_.
                 bind_run (make_pass_gossip database1 lcn_key) (\<lambda>pass.
                 Ok (Reply pass source_key source_node_addr, database1))))))))"

section \<open>PassHandler\<close>

definition pass_qualifies ::
    "neighborhood_database \<Rightarrow> agrs \<Rightarrow> socket_addr \<Rightarrow> qualification run" where
  "pass_qualifies database agrs gossip_source =
     Ok (if length agrs \<noteq> 1 then Unmatched
      else case agr_node_addr_opt (agrs ! 0) of
             None \<Rightarrow> Malformed (PassWithoutNodeAddr gossip_source (agr_key (agrs ! 0)))
           | Some node_addr \<Rightarrow>
               if na_ports node_addr = []
               then Malformed (PassWithoutPorts gossip_source (agr_key (agrs ! 0)) (na_ip_addr node_addr))
               else if na_ip_addr node_addr = ip gossip_source then Unmatched
               else Matched)"

definition pass_handle ::
    "nb_env \<Rightarrow> neighborhood_database \<Rightarrow> agrs \<Rightarrow> socket_addr \<Rightarrow>
       (gossip_acceptance_result \<times> neighborhood_database) run" where
  "pass_handle env database agrs gossip_source =
     bind_run builder_new (\<lambda>b.
     bind_run (db_root database) (\<lambda>root.
     bind_run (builder_node database (nr_public_key root) True b) (\<lambda>b.
     bind_run (index agrs 0) (\<lambda>pass_agr.
     bind_run (expect (map_option node_addr_clone (agr_node_addr_opt pass_agr))) (\<lambda>pass_target_node_addr.
     Ok (Reply (builder_build b) (agr_key pass_agr) pass_target_node_addr, database))))))"

section \<open>IntroductionHandler\<close>

definition verify_size :: "agrs \<Rightarrow> qualification option" where
  "verify_size agrs = (if length agrs \<noteq> 2 then Some Unmatched else None)"

definition order_is_introducee_introducer ::
    "agrs \<Rightarrow> socket_addr \<Rightarrow> (qualification + bool) run" where
  "order_is_introducee_introducer agrs_ref gossip_source =
     bind_run (index agrs_ref 0) (\<lambda>first_agr.
     case agr_node_addr_opt first_agr of
       None \<Rightarrow> Ok (Err Unmatched)
     | Some first_addr \<Rightarrow>
         bind_run (index agrs_ref 1) (\<lambda>second_agr.
         case agr_node_addr_opt second_agr of
           None \<Rightarrow> Ok (Err Unmatched)
         | Some second_addr \<Rightarrow>
             Ok (if na_ip_addr first_addr = ip gossip_source then Ok True
                 else if na_ip_addr second_addr = ip gossip_source then Ok False
                 else Err (Malformed (NeitherClaimsSource (agr_key first_agr) (na_ip_addr first_addr)
                        (agr_key second_agr) (na_ip_addr second_addr) (ip gossip_source))))))"

definition identify_players ::
    "agrs \<Rightarrow> socket_addr \<Rightarrow> (qualification + accessible_gossip_record \<times> accessible_gossip_record) run" where
  "identify_players agrs gossip_source =
     bind_run (order_is_introducee_introducer agrs gossip_source) (\<lambda>order.
     case order of
       Inl qual \<Rightarrow> Ok (Err qual)
     | Inr in_order \<Rightarrow>
         bind_run (index agrs 0) (\<lambda>a. bind_run (index (drop 1 agrs) 0) (\<lambda>b.
         Ok (Ok (if in_order then (a, b) else (b, a))))))"

definition verify_introducer :: "accessible_gossip_record \<Rightarrow> node_record \<Rightarrow> qualification option run" where
  "verify_introducer agr root_node =
     (if agr_key agr = nr_public_key root_node
      then Ok (Some (Malformed (IntroducerClaimsLocalKey (agr_key agr))))
      else bind_run (expect (agr_node_addr_opt agr)) (\<lambda>introducer_node_addr.
           Ok (if na_ports introducer_node_addr = []
               then Some (Malformed (IntroducerWithoutPorts (agr_key agr) (na_ip_addr introducer_node_addr)))
               else case nr_node_addr_opt root_node of
                      Some root_node_addr \<Rightarrow>
                        if na_ip_addr introducer_node_addr = na_ip_addr root_node_addr
                        then Some (Malformed (IntroducerClaimsLocalIp (agr_key agr))) else None
                    | None \<Rightarrow> None)))"

definition verify_introducee ::
    "neighborhood_database \<Rightarrow> accessible_gossip_record \<Rightarrow> accessible_gossip_record \<Rightarrow> socket_addr \<Rightarrow>
       qualification option" where
  "verify_introducee database introducer introducee gossip_source =
     (if node_by_key database (agr_key introducee) \<noteq> None then Some Unmatched
      else case agr_node_addr_opt introducee of
             None \<Rightarrow> Some Unmatched
           | Some introducee_node_addr \<Rightarrow>
               if na_ports introducee_node_addr = []
               then Some (Malformed (IntroduceeWithoutPorts (agr_key introducer)
                      (map_option na_ip_addr (agr_node_addr_opt introducer)) (agr_key introducee)
                      (na_ip_addr introducee_node_addr)))
               else if na_ip_addr introducee_node_addr = ip gossip_source
               then Some (Malformed (BothClaimIp (agr_key introducer) (agr_key introducee) (ip gossip_source)))
               else None)"

definition introduction_qualifies ::
    "neighborhood_database \<Rightarrow> agrs \<Rightarrow> socket_addr \<Rightarrow> qualification run" where
  "introduction_qualifies database agrs gossip_source =
     (case verify_size agrs of
        Some qual \<Rightarrow> Ok qual
      | None \<Rightarrow>
          bind_run (order_is_introducee_introducer agrs gossip_source) (\<lambda>order.
          case order of
            Inl qual \<Rightarrow> Ok qual
          | Inr in_order \<Rightarrow>
              bind_run (index agrs 0) (\<lambda>a. bind_run (index agrs 1) (\<lambda>b.
              let (introducer, introducee) = (if in_order then (a, b) else (b, a))
              in bind_run (db_root database) (\<lambda>root.
                 bind_run (verify_introducer introducer root) (\<lambda>v.
                 case v of
                   Some qual \<Rightarrow> Ok qual
                 | None \<Rightarrow>
                     (case verify_introducee database introducer introducee gossip_source of
                        Some qual \<Rightarrow> Ok qual
                      | None \<Rightarrow> Ok Matched)))))))"

definition make_debut_triple ::
    "neighborhood_database \<Rightarrow> accessible_gossip_record \<Rightarrow> (unit + gossip \<times> public_key \<times> node_addr) run" where
  "make_debut_triple database debut_target =
     (case agr_node_addr_opt debut_target of
        None \<Rightarrow> Ok (Err ())
      | Some node_addr \<Rightarrow>
          if na_ports node_addr = [] then Ok (Err ())
          else bind_run builder_new (\<lambda>b.
               bind_run (db_root database) (\<lambda>root.
               bind_run (builder_node database (nr_public_key root) True b) (\<lambda>b.
               Ok (Ok (builder_build b, agr_key debut_target, node_addr_clone node_addr))))))"

definition introduction_update_database ::
    "nb_env \<Rightarrow> neighborhood_database \<Rightarrow> accessible_gossip_record \<Rightarrow>
       ((update_error + bool) \<times> neighborhood_database) run" where
  "introduction_update_database env database introducer =
     (let introducer_key = agr_key introducer;
          finish = (\<lambda>database1.
            case add_half_neighbor introducer_key database1 of
              Inl _ \<Rightarrow> Err ExpectFailed
            | Inr (added, database2) \<Rightarrow>
                if added
                then bind_run (bump_and_sign_root env database2) (\<lambda>database3. Ok (Ok True, database3))
                else Ok (Ok True, database2))
      in case node_by_key database introducer_key of
           Some existing_introducer_ref \<Rightarrow>
             if nr_version existing_introducer_ref < nri_version (agr_inner introducer)
             then (case nr_update introducer existing_introducer_ref of
                     Inl e \<Rightarrow> Ok (Err e, database)
                   | Inr updated \<Rightarrow> finish (node_by_key_mut introducer_key (\<lambda>_. updated) database))
             else Ok (Ok False, database)
         | None \<Rightarrow>
             (case add_node (node_record_from_agr introducer) database of
                Inl _ \<Rightarrow> Err ExpectFailed
              | Inr (_, database1) \<Rightarrow> finish database1))"

definition introduction_handle ::
    "nb_env \<Rightarrow> neighborhood_database \<Rightarrow> agrs \<Rightarrow> socket_addr \<Rightarrow>
       (gossip_acceptance_result \<times> neighborhood_database) run" where
  "introduction_handle env database agrs gossip_source =
     bind_run (db_root database) (\<lambda>root.
     if MAX_DEGREE \<le> length (full_neighbor_keys root database) then Ok (Ignored, database)
     else bind_run (identify_players agrs gossip_source) (\<lambda>players.
       case players of
         Inl _ \<Rightarrow> Err ExpectFailed
       | Inr (introducer, introducee) \<Rightarrow>
           bind_run (introduction_update_database env database introducer) (\<lambda>(updated, database1).
           case updated of
             Inl e \<Rightarrow> Ok (Ban (ImmutableChanged (agr_key introducer) e), database1)
           | Inr _ \<Rightarrow>
               bind_run (make_debut_triple database1 introducee) (\<lambda>triple.
               case triple of
                 Inl _ \<Rightarrow> Err ExpectFailed
               | Inr (debut, target_key, target_node_addr) \<Rightarrow>
                   Ok (Reply debut target_key target_node_addr, database1)))))"

section \<open>StandardGossipHandler\<close>

definition ip_of :: "accessible_gossip_record \<Rightarrow> ip_addr run" where
  "ip_of agr = bind_run (expect (agr_node_addr_opt agr)) (\<lambda>a. Ok (na_ip_addr a))"

definition add_ip_addr :: "ip_addr list \<Rightarrow> ip_addr \<Rightarrow> ip_addr list" where
  "add_ip_addr addrs ip_addr = List.insert ip_addr addrs"

definition note_duplicate ::
    "accessible_gossip_record \<Rightarrow> ip_addr list \<times> ip_addr list \<Rightarrow> (ip_addr list \<times> ip_addr list) run" where
  "note_duplicate agr so_far =
     (let (addr_set, dup_set) = so_far
      in bind_run (ip_of agr) (\<lambda>ip_addr.
         Ok (if List.member addr_set ip_addr then (addr_set, add_ip_addr dup_set ip_addr)
             else (add_ip_addr addr_set ip_addr, dup_set))))"

definition find_impostor :: "node_record \<Rightarrow> agrs \<Rightarrow> accessible_gossip_record option run" where
  "find_impostor root_node agrs_next_door =
     find_run (\<lambda>agr. bind_run (ip_of agr) (\<lambda>i. bind_run (expect (nr_node_addr_opt root_node)) (\<lambda>a.
       Ok (i = na_ip_addr a)))) agrs_next_door"

definition standard_qualifies ::
    "neighborhood_database \<Rightarrow> agrs \<Rightarrow> socket_addr \<Rightarrow> qualification run" where
  "standard_qualifies database agrs gossip_source =
     (let agrs_next_door = filter (\<lambda>agr. agr_node_addr_opt agr \<noteq> None) agrs
      in bind_run (db_root database) (\<lambda>root_node.
         bind_run (if nri_accepts_connections (nr_inner root_node)
                   then find_impostor root_node agrs_next_door else Ok None) (\<lambda>impostor_opt.
         case impostor_opt of
           Some impostor \<Rightarrow> Ok (Malformed (RecordClaimsLocalIp gossip_source (agr_key impostor)))
         | None \<Rightarrow>
             if list_ex (\<lambda>agr. agr_key agr = nr_public_key root_node) agrs
             then Ok (Malformed (RecordClaimsLocalKey gossip_source))
             else bind_run (fold_run note_duplicate agrs_next_door ([], [])) (\<lambda>(_, dup_set).
                  case dup_set of
                    [] \<Rightarrow> Ok Matched
                  | first_dup_ip # _ \<Rightarrow> Ok (Malformed (MultipleRecordsFromIp gossip_source first_dup_ip))))))"

definition is_new_non_introductory ::
    "public_key list \<Rightarrow> socket_addr \<Rightarrow> accessible_gossip_record \<Rightarrow> bool" where
  "is_new_non_introductory all_keys gossip_source agr \<longleftrightarrow>
     \<not> List.member all_keys (agr_key agr) \<and>
     (case agr_node_addr_opt agr of
        None \<Rightarrow> True
      | Some node_addr \<Rightarrow> List.member (node_addr_into_sockets (node_addr_clone node_addr)) gossip_source)"

definition add_new_node ::
    "accessible_gossip_record \<Rightarrow> neighborhood_database \<Rightarrow> neighborhood_database run" where
  "add_new_node agr database =
     (case add_node (node_record_from_agr_ref agr) database of
        Inl _ \<Rightarrow> Err ExpectFailed
      | Inr (_, database') \<Rightarrow> Ok database')"

definition identify_and_add_non_introductory_new_nodes ::
    "neighborhood_database \<Rightarrow> agrs \<Rightarrow> socket_addr \<Rightarrow> (bool \<times> neighborhood_database) run" where
  "identify_and_add_non_introductory_new_nodes database agrs gossip_source =
     (let all_keys = db_keys database
      in bind_run (fold_run add_new_node
             (filter (is_new_non_introductory all_keys gossip_source) agrs) database) (\<lambda>database'.
         Ok (length (db_keys database') \<noteq> length all_keys, database')))"

definition update_database_record ::
    "accessible_gossip_record \<Rightarrow> neighborhood_database \<Rightarrow> (bool \<times> neighborhood_database) run" where
  "update_database_record agr database =
     bind_run (expect (node_by_key database (agr_key agr))) (\<lambda>existing_node_record.
     bind_run (case (nr_node_addr_opt existing_node_record,
                     map_option node_addr_clone (agr_node_addr_opt agr)) of
                 (None, Some new_node_addr) \<Rightarrow>
                   (case set_node_addr new_node_addr existing_node_record of
                      Inl _ \<Rightarrow> Err ExpectFailed
                    | Inr (_, nr) \<Rightarrow> Ok nr)
               | _ \<Rightarrow> Ok existing_node_record) (\<lambda>existing_node_record.
     Ok (True, node_by_key_mut (agr_key agr) (\<lambda>_. existing_node_record
       \<lparr> nr_inner := agr_inner agr, nr_signed_gossip := agr_signed_gossip agr,
         nr_signature := agr_signature agr \<rparr>) database)))"

definition update_if_obsolete ::
    "accessible_gossip_record \<Rightarrow> bool list \<times> neighborhood_database \<Rightarrow> (bool list \<times> neighborhood_database) run" where
  "update_if_obsolete agr state =
     (let (change_flags, database) = state
      in case node_by_key database (agr_key agr) of
           Some existing_node \<Rightarrow>
             if nr_version existing_node < nri_version (agr_inner agr)
             then bind_run (update_database_record agr database) (\<lambda>(flag, database').
                  Ok (change_flags @ [flag], database'))
             else Ok (change_flags, database)
         | None \<Rightarrow> Ok (change_flags, database))"

definition identify_and_update_obsolete_nodes ::
    "neighborhood_database \<Rightarrow> agrs \<Rightarrow> (bool \<times> neighborhood_database) run" where
  "identify_and_update_obsolete_nodes database agrs =
     bind_run (fold_run update_if_obsolete agrs ([], database)) (\<lambda>(change_flags, database').
     Ok (list_ex (\<lambda>f. f) change_flags, database'))"

definition handle_root_node ::
    "nb_env \<Rightarrow> neighborhood_database \<Rightarrow> socket_addr \<Rightarrow> (bool \<times> neighborhood_database) run" where
  "handle_root_node env database gossip_source =
     (case node_by_ip database (ip gossip_source) of
        None \<Rightarrow> Ok (False, database)
      | Some gossip_node \<Rightarrow>
          let gossip_node_key = nr_public_key gossip_node
          in bind_run (db_root database) (\<lambda>root.
             if MAX_DEGREE \<le> length (full_neighbor_keys root database) then Ok (False, database)
             else case add_half_neighbor gossip_node_key database of
                    Inl _ \<Rightarrow> Ok (False, database)
                  | Inr (False, _) \<Rightarrow> Ok (False, database)
                  | Inr (True, database1) \<Rightarrow>
                      bind_run (bump_and_sign_root env database1) (\<lambda>database2. Ok (True, database2))))"

definition standard_handle ::
    "nb_env \<Rightarrow> neighborhood_database \<Rightarrow> agrs \<Rightarrow> socket_addr \<Rightarrow>
       (gossip_acceptance_result \<times> neighborhood_database) run" where
  "standard_handle env database agrs gossip_source =
     bind_run (identify_and_add_non_introductory_new_nodes database agrs gossip_source) (\<lambda>(added, database1).
     bind_run (identify_and_update_obsolete_nodes database1 agrs) (\<lambda>(updated, database2).
     bind_run (handle_root_node env database2 gossip_source) (\<lambda>(rooted, database3).
     Ok (if rooted \<or> updated \<or> added then Accepted else Ignored, database3))))"

section \<open>RejectHandler\<close>

definition reject_qualifies ::
    "neighborhood_database \<Rightarrow> agrs \<Rightarrow> socket_addr \<Rightarrow> qualification run" where
  "reject_qualifies database agrs gossip_source = Ok (Malformed (Unclassifiable (length agrs) gossip_source))"

definition reject_handle ::
    "nb_env \<Rightarrow> neighborhood_database \<Rightarrow> agrs \<Rightarrow> socket_addr \<Rightarrow>
       (gossip_acceptance_result \<times> neighborhood_database) run" where
  "reject_handle env database agrs gossip_source = Err ExplicitPanic"

section \<open>GossipAcceptorReal\<close>

type_synonym handler =
  "(neighborhood_database \<Rightarrow> agrs \<Rightarrow> socket_addr \<Rightarrow> qualification run) \<times>
   (nb_env \<Rightarrow> neighborhood_database \<Rightarrow> agrs \<Rightarrow> socket_addr \<Rightarrow>
      (gossip_acceptance_result \<times> neighborhood_database) run)"

definition gossip_handlers :: "handler list" where
  "gossip_handlers =
     [(debut_qualifies, debut_handle), (pass_qualifies, pass_handle),
      (introduction_qualifies, introduction_handle), (standard_qualifies, standard_handle),
      (reject_qualifies, reject_handle)]"

fun find_handler ::
    "neighborhood_database \<Rightarrow> agrs \<Rightarrow> socket_addr \<Rightarrow> handler list \<Rightarrow> (qualification \<times> handler) run" where
  "find_handler database agrs gossip_source [] = Err ExpectFailed"
| "find_handler database agrs gossip_source (h # hs) =
     bind_run (fst h database agrs gossip_source) (\<lambda>qualification.
     case qualification of
       Unmatched \<Rightarrow> find_handler database agrs gossip_source hs
     | _ \<Rightarrow> Ok (qualification, h))"

definition acceptor_handle ::
    "nb_env \<Rightarrow> neighborhood_database \<Rightarrow> agrs \<Rightarrow> socket_addr \<Rightarrow>
       (gossip_acceptance_result \<times> neighborhood_database) run" where
  "acceptor_handle env database agrs gossip_source =
     bind_run (find_handler database agrs gossip_source gossip_handlers) (\<lambda>(qualification, handler_ref).
     case qualification of
       Matched \<Rightarrow> snd handler_ref env database agrs gossip_source
     | Unmatched \<Rightarrow> Err ExplicitPanic
     | Malformed reason \<Rightarrow> Ok (Ban reason, database))"

section \<open>Invariant and evolution of the database\<close>

text \<open>On top of \<open>db_ok\<close>: every node this node lists as its neighbor has a known address, and
  this node has one if it accepts connections; and this node has an earning wallet.\<close>

definition nb_ok :: "neighborhood_database \<Rightarrow> bool" where
  "nb_ok db \<longleftrightarrow> db_ok db \<and>
     (\<forall>root. db_root db = Ok root \<longrightarrow>
        (\<forall>k \<in> set (half_neighbor_keys root). \<exists>n. node_by_key db k = Some n \<and> nr_node_addr_opt n \<noteq> None) \<and>
        (nri_accepts_connections (nr_inner root) \<longrightarrow> nr_node_addr_opt root \<noteq> None) \<and> has_wallet (nr_inner root))"

text \<open>How accepting gossip may change a database: records stay, known addresses stay, versions
  of other nodes never go down, and this node's own record keeps everything but its neighbor set,
  which can only grow, its version and its signature.\<close>

definition root_evolves :: "node_record \<Rightarrow> node_record \<Rightarrow> bool" where
  "root_evolves n n' \<longleftrightarrow>
     set (half_neighbor_keys n) \<subseteq> set (half_neighbor_keys n') \<and>
     nr_metadata n' = nr_metadata n \<and>
     nr_inner n' = (nr_inner n)\<lparr> nri_neighbors := nri_neighbors (nr_inner n'), nri_version := nr_version n' \<rparr>"

definition evolves :: "neighborhood_database \<Rightarrow> neighborhood_database \<Rightarrow> bool" where
  "evolves db db' \<longleftrightarrow> this_node db' = this_node db \<and>
     (\<forall>k n. node_by_key db k = Some n \<longrightarrow>
        (\<exists>n'. node_by_key db' k = Some n' \<and>
           (nr_node_addr_opt n \<noteq> None \<longrightarrow> nr_node_addr_opt n' = nr_node_addr_opt n) \<and>
           (if k = this_node db then root_evolves n n' else nr_version n \<le> nr_version n')))"

definition agrs_ok :: "agrs \<Rightarrow> bool" where
  "agrs_ok agrs \<longleftrightarrow> (\<forall>agr \<in> set agrs. bs_ok (nri_neighbors (agr_inner agr)))"

definition quiet :: "gossip_acceptance_result \<Rightarrow> bool" where
  "quiet r \<longleftrightarrow> (case r of Ignored \<Rightarrow> True | Ban _ \<Rightarrow> True | _ \<Rightarrow> False)"

lemma root_evolves_refl [simp]: "root_evolves n n"
  by (simp add: root_evolves_def)

lemma root_evolves_trans: "root_evolves a b \<Longrightarrow> root_evolves b c \<Longrightarrow> root_evolves a c"
proof -
  assume "root_evolves a b" "root_evolves b c"
  then show ?thesis
    unfolding root_evolves_def
    by (cases "nr_inner a"; cases "nr_inner b"; cases "nr_inner c") auto
qed

lemma evolves_refl [simp]: "evolves db db"
  by (simp add: evolves_def)

lemma evolves_trans [trans]:
  assumes "evolves a b" "evolves b c"
  shows "evolves a c"
  unfolding evolves_def
proof (intro conjI allI impI)
  show "this_node c = this_node a"
    using assms by (simp add: evolves_def)
next
  fix k n
  assume "node_by_key a k = Some n"
  then obtain m where m: "node_by_key b k = Some m"
    "nr_node_addr_opt n \<noteq> None \<longrightarrow> nr_node_addr_opt m = nr_node_addr_opt n"
    "if k = this_node a then root_evolves n m else nr_version n \<le> nr_version m"
    using assms(1) unfolding evolves_def by blast
  then obtain p where "node_by_key c k = Some p"
    "nr_node_addr_opt m \<noteq> None \<longrightarrow> nr_node_addr_opt p = nr_node_addr_opt m"
    "if k = this_node b then root_evolves m p else nr_version m \<le> nr_version p"
    using assms(2) unfolding evolves_def by blast
  with m show "\<exists>n'. node_by_key c k = Some n' \<and>
      (nr_node_addr_opt n \<noteq> None \<longrightarrow> nr_node_addr_opt n' = nr_node_addr_opt n) \<and>
      (if k = this_node a then root_evolves n n' else nr_version n \<le> nr_version n')"
    using assms(1) root_evolves_trans [of n m p] by (auto simp: evolves_def split: if_splits)
qed

lemma evolves_this: "evolves db db' \<Longrightarrow> this_node db' = this_node db"
  by (simp add: evolves_def)

lemma nb_ok_db_ok: "nb_ok db \<Longrightarrow> db_ok db"
  by (simp add: nb_ok_def)

lemma nb_ok_root:
  assumes "nb_ok db"
  obtains root where "db_root db = Ok root" "node_by_key db (this_node db) = Some root"
    "nr_public_key root = this_node db" "this_node db \<notin> set (half_neighbor_keys root)"
    "bs_ok (half_neighbor_keys root)"
    "\<And>k. k \<in> set (half_neighbor_keys root) \<Longrightarrow> \<exists>n. node_by_key db k = Some n \<and> nr_node_addr_opt n \<noteq> None"
    "nri_accepts_connections (nr_inner root) \<Longrightarrow> nr_node_addr_opt root \<noteq> None" "has_wallet (nr_inner root)"
proof -
  obtain root where r: "db_root db = Ok root" "node_by_key db (this_node db) = Some root"
    "nr_public_key root = this_node db" "this_node db \<notin> set (half_neighbor_keys root)"
    "bs_ok (half_neighbor_keys root)"
    using db_ok_root [OF nb_ok_db_ok [OF assms]] by metis
  show thesis
    by (rule that [OF r]) (use assms r(1) in \<open>simp_all add: nb_ok_def\<close>)
qed

text \<open>Replacing this node's own record.\<close>

lemma nb_ok_replace_root:
  assumes "nb_ok db" "db_root db = Ok root" "root_evolves root root'" "bs_ok (half_neighbor_keys root')"
    and "\<And>k. k \<in> set (half_neighbor_keys root') \<Longrightarrow>
      k \<noteq> this_node db \<and> (\<exists>n. node_by_key db k = Some n \<and> nr_node_addr_opt n \<noteq> None)"
  shows "nb_ok (node_by_key_mut (this_node db) (\<lambda>_. root') db) \<and>
    evolves db (node_by_key_mut (this_node db) (\<lambda>_. root') db)"
proof -
  obtain r where r: "db_root db = Ok r" "node_by_key db (this_node db) = Some r"
    "nr_public_key r = this_node db"
    "nri_accepts_connections (nr_inner r) \<Longrightarrow> nr_node_addr_opt r \<noteq> None" "has_wallet (nr_inner r)"
    using nb_ok_root [OF assms(1)] by metis
  then have "r = root"
    using assms(2) by simp
  note r = r [unfolded \<open>r = root\<close>]
  have inner: "nr_inner root' = (nr_inner root)\<lparr> nri_neighbors := nri_neighbors (nr_inner root'),
      nri_version := nr_version root' \<rparr>" and meta: "nr_metadata root' = nr_metadata root"
    using assms(3) by (simp_all add: root_evolves_def)
  have same: "nr_public_key root' = this_node db" "nr_node_addr_opt root' = nr_node_addr_opt root"
    "nri_accepts_connections (nr_inner root') = nri_accepts_connections (nr_inner root)"
    "has_wallet (nr_inner root') = has_wallet (nr_inner root)"
    using r(3) meta arg_cong [OF inner, of nri_public_key] arg_cong [OF inner, of nri_accepts_connections]
      arg_cong [OF inner, of nri_earning_wallet]
    by (simp_all add: nr_node_addr_opt_def has_wallet_def)
  have present: "k \<in> set (half_neighbor_keys root') \<Longrightarrow> k \<noteq> this_node db \<and> node_by_key db k \<noteq> None" for k
    using assms(5) by fastforce
  have "db_ok (node_by_key_mut (this_node db) (\<lambda>_. root') db)"
  proof (rule db_ok_node_by_key_mut [OF nb_ok_db_ok [OF assms(1)]])
    fix n
    assume "node_by_key db (this_node db) = Some n"
    then show "nr_public_key root' = this_node db \<and> bs_ok (half_neighbor_keys root') \<and>
        (nr_node_addr_opt n \<noteq> None \<longrightarrow>
          map_option na_ip_addr (nr_node_addr_opt root') = map_option na_ip_addr (nr_node_addr_opt n)) \<and>
        (this_node db = this_node db \<longrightarrow> this_node db \<notin> set (half_neighbor_keys root') \<and>
          (\<forall>k \<in> set (half_neighbor_keys root'). node_by_key db k \<noteq> None))"
      using same assms(4) r present by auto
  qed
  moreover have "db_root (node_by_key_mut (this_node db) (\<lambda>_. root') db) = Ok root'"
    using r by (simp add: db_root_def)
  ultimately show ?thesis
    using assms(3, 5) same r by (auto simp: nb_ok_def evolves_def)
qed

lemma node_by_key_root_mut [simp]:
  "db_root db = Ok root \<Longrightarrow> change root = Ok root' \<Longrightarrow>
     root_mut change db = Ok (node_by_key_mut (this_node db) (\<lambda>_. root') db)"
  by (simp add: root_mut_def)

text \<open>Adding a record that is not there yet.\<close>

lemma nb_ok_add_node:
  assumes "nb_ok db" "bs_ok (half_neighbor_keys n)" "add_node n db = Ok (k, db')"
  shows "nb_ok db' \<and> evolves db db' \<and> k = nr_public_key n \<and> node_by_key db k = None \<and>
    (\<forall>j. node_by_key db' j = (if j = k then Some n else node_by_key db j))"
proof -
  have eq: "k = nr_public_key n" "node_by_key db k = None" "db' = add_arbitrary_node n db"
    using assms(3) by (auto simp: add_node_Ok_iff)
  obtain root where r: "db_root db = Ok root" "node_by_key db (this_node db) = Some root"
    "\<And>k. k \<in> set (half_neighbor_keys root) \<Longrightarrow> \<exists>n. node_by_key db k = Some n \<and> nr_node_addr_opt n \<noteq> None"
    "nri_accepts_connections (nr_inner root) \<Longrightarrow> nr_node_addr_opt root \<noteq> None" "has_wallet (nr_inner root)"
    using nb_ok_root [OF assms(1)] by metis
  have "k \<noteq> this_node db"
    using eq(2) r(2) by auto
  then have "db_root db' = Ok root"
    using r(2) eq by (simp add: db_root_def)
  moreover have "db_ok db'"
    using db_ok_add_node [OF nb_ok_db_ok [OF assms(1)] assms(2, 3)] .
  moreover have "\<exists>m. node_by_key db' j = Some m \<and> nr_node_addr_opt m \<noteq> None"
    if "j \<in> set (half_neighbor_keys root)" for j
    using r(3) [OF that] eq by auto
  ultimately have "nb_ok db'"
    using r(4, 5) by (auto simp: nb_ok_def)
  moreover have "evolves db db'"
    using eq by (auto simp: evolves_def)
  ultimately show ?thesis
    using eq by simp
qed

lemma add_node_succeeds:
  "node_by_key db (nr_public_key n) = None \<Longrightarrow>
     (\<And>a. nr_node_addr_opt n = Some a \<Longrightarrow> na_ports a \<noteq> []) \<Longrightarrow>
     add_node n db = Ok (nr_public_key n, add_arbitrary_node n db)"
  by (simp add: add_node_Ok_iff)

text \<open>Bumping and signing this node's record after a change of its neighbor set.\<close>

lemma bump_and_sign_root_Ok:
  assumes "env_signs env" "db_root db = Ok root" "has_wallet (nr_inner root)"
  obtains root' where "bump_and_sign_root env db = Ok (node_by_key_mut (this_node db) (\<lambda>_. root') db)"
    "half_neighbor_keys root' = half_neighbor_keys root" "nr_version root' = nr_version root + 1"
    "nr_metadata root' = nr_metadata root"
    "nr_inner root' = (nr_inner root)\<lparr> nri_version := nr_version root + 1 \<rparr>"
    "to_vec (inner_codec env) (nr_inner root') = Inr (nr_signed_gossip root')"
    "cd_sign (env_cryptde env) (nr_signed_gossip root') = Inr (nr_signature root')"
proof -
  have "has_wallet (nr_inner (increment_version root))"
    using assms(3) by (simp add: increment_version_def has_wallet_def)
  with assms(1) obtain sg sig where r: "nr_regenerate_signed_gossip env (increment_version root) =
      Ok ((increment_version root)\<lparr> nr_signed_gossip := sg, nr_signature := sig \<rparr>)"
    "to_vec (inner_codec env) (nr_inner (increment_version root)) = Inr sg"
    "cd_sign (env_cryptde env) sg = Inr sig"
    using regenerate_Ok by metis
  show thesis
    by (rule that [of "(increment_version root)\<lparr> nr_signed_gossip := sg, nr_signature := sig \<rparr>"])
       (use r assms(2) in \<open>simp_all add: bump_and_sign_root_def root_mut_def increment_version_def
          half_neighbor_keys_def\<close>)
qed

text \<open>The step by which this node adopts a new half neighbor.\<close>

lemma adopt_neighbor:
  assumes "env_signs env" "nb_ok db" "db_root db = Ok root"
    and "node_by_key db k = Some n" "nr_node_addr_opt n \<noteq> None" "k \<noteq> this_node db"
    and "k \<notin> set (half_neighbor_keys root)"
  obtains db1 root2 where "add_half_neighbor k db = Ok (True, db1)"
    "bump_and_sign_root env db1 = Ok (node_by_key_mut (this_node db) (\<lambda>_. root2) db)"
    "nb_ok (node_by_key_mut (this_node db) (\<lambda>_. root2) db)"
    "evolves db (node_by_key_mut (this_node db) (\<lambda>_. root2) db)"
    "set (half_neighbor_keys root2) = insert k (set (half_neighbor_keys root))"
    "nr_version root2 = nr_version root + 1"
    "to_vec (inner_codec env) (nr_inner root2) = Inr (nr_signed_gossip root2)"
    "cd_sign (env_cryptde env) (nr_signed_gossip root2) = Inr (nr_signature root2)"
proof -
  obtain r where "db_root db = Ok r" "node_by_key db (this_node db) = Some r"
    "this_node db \<notin> set (half_neighbor_keys r)" "bs_ok (half_neighbor_keys r)"
    "\<And>k. k \<in> set (half_neighbor_keys r) \<Longrightarrow> \<exists>n. node_by_key db k = Some n \<and> nr_node_addr_opt n \<noteq> None" "has_wallet (nr_inner r)"
    using nb_ok_root [OF assms(2)] by metis
  with assms(3) have r: "node_by_key db (this_node db) = Some root"
    "this_node db \<notin> set (half_neighbor_keys root)" "bs_ok (half_neighbor_keys root)"
    "\<And>k. k \<in> set (half_neighbor_keys root) \<Longrightarrow> \<exists>n. node_by_key db k = Some n \<and> nr_node_addr_opt n \<noteq> None" "has_wallet (nr_inner root)"
    by simp_all
  define root1 where "root1 = root\<lparr> nr_inner := (nr_inner root)\<lparr>
      nri_neighbors := bs_insert k (half_neighbor_keys root) \<rparr> \<rparr>"
  define db1 where "db1 = node_by_key_mut (this_node db) (\<lambda>_. root1) db"
  have add: "add_half_neighbor k db = Ok (True, db1)"
    using assms by (simp add: add_half_neighbor_eq [OF nb_ok_db_ok [OF assms(2)] assms(3)] db1_def root1_def)
  have "db_root db1 = Ok root1" "this_node db1 = this_node db" "has_wallet (nr_inner root1)"
    using r(1, 5) by (simp_all add: db1_def db_root_def root1_def has_wallet_def)
  then obtain root2 where r2: "bump_and_sign_root env db1 = Ok (node_by_key_mut (this_node db) (\<lambda>_. root2) db1)"
    "half_neighbor_keys root2 = half_neighbor_keys root1" "nr_version root2 = nr_version root1 + 1"
    "nr_metadata root2 = nr_metadata root1"
    "nr_inner root2 = (nr_inner root1)\<lparr> nri_version := nr_version root1 + 1 \<rparr>"
    "to_vec (inner_codec env) (nr_inner root2) = Inr (nr_signed_gossip root2)"
    "cd_sign (env_cryptde env) (nr_signed_gossip root2) = Inr (nr_signature root2)"
    using bump_and_sign_root_Ok [OF assms(1), of db1 root1] by metis
  have half: "half_neighbor_keys root2 = bs_insert k (half_neighbor_keys root)"
    using r2(2) by (simp add: root1_def half_neighbor_keys_def)
  have evo: "root_evolves root root2"
    using r2(4, 5) half by (auto simp: root_evolves_def root1_def half_neighbor_keys_def)
  have "nb_ok (node_by_key_mut (this_node db) (\<lambda>_. root2) db) \<and>
      evolves db (node_by_key_mut (this_node db) (\<lambda>_. root2) db)"
  proof (rule nb_ok_replace_root [OF assms(2, 3) evo])
    fix j
    assume "j \<in> set (half_neighbor_keys root2)"
    then show "j \<noteq> this_node db \<and> (\<exists>n. node_by_key db j = Some n \<and> nr_node_addr_opt n \<noteq> None)"
      using half r assms(4-6) by auto
  qed (simp add: half r(3))
  moreover have "node_by_key_mut (this_node db) (\<lambda>_. root2) db1 = node_by_key_mut (this_node db) (\<lambda>_. root2) db"
    by (simp add: db1_def node_by_key_mut_twice)
  ultimately show thesis
    using that [OF add] r2 half by (simp add: root1_def)
qed

text \<open>Ordering keys by degree.\<close>

lemma keys_ordered_Ok:
  assumes "key_order_ok env" "db_ok db"
  obtains ks where "keys_ordered_by_degree_excluding env db keys excl = Ok ks"
    "set ks = set keys - set excl" "sorted (map (target_degree db) ks)"
proof -
  define v where "v = filter (\<lambda>k. \<not> List.member excl k) (key_order env keys)"
  define ks where "ks = map fst (sort_key snd (zip v (map (target_degree db) v)))"
  have "map_run (gossip_target_degree env db) v = Ok (map (target_degree db) v)"
    by (rule map_run_total) (rule gossip_target_degree_Ok [OF assms])
  then have "keys_ordered_by_degree_excluding env db keys excl = Ok ks"
    by (simp add: keys_ordered_by_degree_excluding_def v_def ks_def Let_def)
  moreover have "set ks = set v"
    by (auto simp: ks_def set_zip image_iff in_set_conv_nth)
  then have "set ks = set keys - set excl"
    using assms(1) by (auto simp: v_def key_order_ok_def)
  moreover have "map snd (sort_key snd (zip v (map (target_degree db) v))) =
      map (target_degree db) ks"
  proof -
    have "\<forall>p \<in> set (sort_key snd (zip v (map (target_degree db) v))). snd p = target_degree db (fst p)"
      by (auto simp: set_zip)
    then show ?thesis
      by (simp add: ks_def)
  qed
  then have "sorted (map (target_degree db) ks)"
    by (metis sorted_sort_key)
  ultimately show thesis
    by (rule that)
qed

lemma node_and_neighbor_keys_set:
  "set (node_and_neighbor_keys agr) = insert (agr_key agr) (set (nri_neighbors (agr_inner agr)))"
proof -
  have "set (fold List.insert xs ys) = set xs \<union> set ys" for xs ys :: "public_key list"
    by (induction xs arbitrary: ys) auto
  then show ?thesis
    by (simp add: node_and_neighbor_keys_def)
qed

lemma expect_node: "node_by_key db k \<noteq> None \<Longrightarrow> \<exists>n. expect (node_by_key db k) = Ok n"
  by (cases "node_by_key db k") simp_all

lemma node_accepts_connections_Ok:
  "node_by_key db k \<noteq> None \<Longrightarrow>
     node_accepts_connections db k = Ok (nri_accepts_connections (nr_inner (the (node_by_key db k))))"
  by (auto simp: node_accepts_connections_def)

lemma root_neighbors_present:
  assumes "db_ok db" "db_root db = Ok root" "k \<in> set (half_neighbor_keys root)"
  shows "node_by_key db k \<noteq> None \<and> k \<noteq> this_node db"
  using assms db_ok_root [OF assms(1)] by (metis Inr_inject)

text \<open>The searches for a neighbor never panic, and what they find is a neighbor of this node that
  is neither the excluded node nor one of its neighbors.\<close>

lemma find_least_connected_Ok:
  assumes "key_order_ok env" "db_ok db"
  obtains r where "find_least_connected_neighbor_excluding env keys db excl = Ok r"
    "\<And>k. r = Some k \<Longrightarrow> k \<in> set keys - insert (agr_key excl) (set (nri_neighbors (agr_inner excl)))"
    "r = None \<Longrightarrow> set keys \<subseteq> insert (agr_key excl) (set (nri_neighbors (agr_inner excl)))"
proof -
  obtain ks where ks: "keys_ordered_by_degree_excluding env db keys (node_and_neighbor_keys excl) = Ok ks"
    "set ks = set keys - set (node_and_neighbor_keys excl)"
    using keys_ordered_Ok [OF assms] by metis
  show thesis
    by (rule that [of "first ks"])
       (use ks in \<open>auto simp: find_least_connected_neighbor_excluding_def node_and_neighbor_keys_set
          first_def split: list.splits\<close>)
qed

lemma find_least_connected_half_Ok:
  assumes "key_order_ok env" "db_ok db" "db_root db = Ok root"
  obtains r where "find_least_connected_half_neighbor_excluding env db excl = Ok r"
    "\<And>k. r = Some k \<Longrightarrow> k \<in> set (half_neighbor_keys root) - {agr_key excl}"
proof -
  obtain r where "find_least_connected_neighbor_excluding env (half_neighbor_keys root) db excl = Ok r"
    "\<And>k. r = Some k \<Longrightarrow>
      k \<in> set (half_neighbor_keys root) - insert (agr_key excl) (set (nri_neighbors (agr_inner excl)))"
    using find_least_connected_Ok [OF assms(1, 2)] by metis
  then show thesis
    using assms(3) by (intro that [of r]) (auto simp: find_least_connected_half_neighbor_excluding_def)
qed

lemma full_neighbor_present:
  assumes "db_ok db" "db_root db = Ok root" "k \<in> set (full_neighbor_keys root db)"
  shows "node_by_key db k \<noteq> None \<and> k \<noteq> this_node db \<and> k \<in> set (half_neighbor_keys root)"
  using assms(3) root_neighbors_present [OF assms(1, 2), of k] by (simp add: full_neighbor_keys_mem)

lemma find_least_connected_full_Ok:
  assumes "key_order_ok env" "db_ok db" "db_root db = Ok root"
  obtains r where "find_least_connected_full_neighbor_excluding env db excl = Ok r"
    "\<And>k. r = Some k \<Longrightarrow> k \<in> set (full_neighbor_keys root db) - {agr_key excl} \<and>
      nri_accepts_connections (nr_inner (the (node_by_key db k)))"
proof -
  define keys where "keys = filter (\<lambda>k. nri_accepts_connections (nr_inner (the (node_by_key db k))))
      (full_neighbor_keys root db)"
  have "filter_run (node_accepts_connections db) (full_neighbor_keys root db) = Ok keys"
    unfolding keys_def
    by (rule filter_run_total)
       (use full_neighbor_present [OF assms(2, 3)] node_accepts_connections_Ok in blast)
  moreover obtain r where "find_least_connected_neighbor_excluding env keys db excl = Ok r"
    "\<And>k. r = Some k \<Longrightarrow> k \<in> set keys - insert (agr_key excl) (set (nri_neighbors (agr_inner excl)))"
    using find_least_connected_Ok [OF assms(1, 2)] by metis
  ultimately show thesis
    using assms(3)
    by (intro that [of r]) (auto simp: find_least_connected_full_neighbor_excluding_def keys_def)
qed

lemma find_more_appropriate_Ok:
  assumes "key_order_ok env" "db_ok db" "db_root db = Ok root"
  obtains r where "find_more_appropriate_neighbor env db excl = Ok r"
    "\<And>k. r = Some k \<Longrightarrow> k \<in> set (full_neighbor_keys root db) - {agr_key excl} \<and>
      target_degree db k < target_degree db (this_node db) \<and> 2 < target_degree db k"
proof -
  have key: "nr_public_key root = this_node db"
    using db_ok_root [OF assms(2)] assms(3) by (metis Inr_inject)
  obtain ks where ks: "keys_ordered_by_degree_excluding env db (full_neighbor_keys root db)
      (node_and_neighbor_keys excl) = Ok ks"
    "set ks = set (full_neighbor_keys root db) - set (node_and_neighbor_keys excl)"
    using keys_ordered_Ok [OF assms(1, 2)] by metis
  define acc where "acc = filter (\<lambda>k. nri_accepts_connections (nr_inner (the (node_by_key db k)))) ks"
  define qual where "qual = dropWhile (\<lambda>k. target_degree db k \<le> 2) acc"
  have "filter_run (node_accepts_connections db) ks = Ok acc"
    unfolding acc_def
    by (rule filter_run_total)
       (use ks(2) full_neighbor_present [OF assms(2, 3)] node_accepts_connections_Ok in blast)
  moreover have "skip_while_run (\<lambda>k. bind_run (gossip_target_degree env db k) (\<lambda>d. Ok (d \<le> 2))) acc = Ok qual"
    unfolding qual_def
    by (rule skip_while_run_total) (simp add: gossip_target_degree_Ok [OF assms(1, 2)])
  ultimately have eq: "find_more_appropriate_neighbor env db excl =
      (case first qual of
         None \<Rightarrow> Ok None
       | Some k \<Rightarrow> Ok (if target_degree db (this_node db) \<le> target_degree db k then None else Some k))"
    using assms(3) ks(1) key
    by (simp add: find_more_appropriate_neighbor_def root_full_neighbors_ordered_by_degree_excluding_def
        gossip_target_degree_Ok [OF assms(1, 2)] split: option.splits)
  have "k \<in> set (full_neighbor_keys root db) - {agr_key excl} \<and> 2 < target_degree db k"
    if found: "first qual = Some k" for k
  proof -
    obtain rest where q: "qual = k # rest"
      using found by (cases qual) simp_all
    then have "k \<in> set acc"
      unfolding qual_def by (metis list.set_intros(1) set_dropWhileD)
    moreover have "\<not> target_degree db k \<le> 2"
      using q hd_dropWhile [of "\<lambda>k. target_degree db k \<le> 2" acc] unfolding qual_def by force
    ultimately show ?thesis
      using ks(2) by (auto simp: acc_def node_and_neighbor_keys_set)
  qed
  moreover define r where "r = (case first qual of None \<Rightarrow> None
      | Some k \<Rightarrow> if target_degree db (this_node db) \<le> target_degree db k then None else Some k)"
  ultimately show thesis
    by (intro that [of r]) (auto simp: eq not_le split: option.splits if_splits)
qed

section \<open>The contract of a gossip handler\<close>

text \<open>What the environment provides to all handlers.\<close>

definition env_ok :: "nb_env \<Rightarrow> bool" where
  "env_ok env \<longleftrightarrow> env_signs env \<and> key_order_ok env"

locale gossip_handler =
  fixes qualifies :: "neighborhood_database \<Rightarrow> agrs \<Rightarrow> socket_addr \<Rightarrow> qualification run"
    and handle :: "nb_env \<Rightarrow> neighborhood_database \<Rightarrow> agrs \<Rightarrow> socket_addr \<Rightarrow>
      (gossip_acceptance_result \<times> neighborhood_database) run"
  assumes qualifies_total: "nb_ok db \<Longrightarrow> agrs_ok agrs \<Longrightarrow> \<exists>q. qualifies db agrs src = Ok q"
    and handle_total: "env_ok env \<Longrightarrow> nb_ok db \<Longrightarrow> agrs_ok agrs \<Longrightarrow> distinct (map agr_key agrs) \<Longrightarrow>
      qualifies db agrs src = Ok Matched \<Longrightarrow> \<exists>r db'. handle env db agrs src = Ok (r, db')"
    and handle_keeps: "env_ok env \<Longrightarrow> nb_ok db \<Longrightarrow> agrs_ok agrs \<Longrightarrow>
      qualifies db agrs src = Ok Matched \<Longrightarrow> handle env db agrs src = Ok (r, db') \<Longrightarrow>
      nb_ok db' \<and> evolves db db' \<and> (quiet r \<longrightarrow> db' = db)"
begin

lemma handle_result:
  assumes "env_ok env" "nb_ok db" "agrs_ok agrs" "distinct (map agr_key agrs)"
    "qualifies db agrs src = Ok Matched"
  obtains r db' where "handle env db agrs src = Ok (r, db')" "nb_ok db'" "evolves db db'"
    "quiet r \<Longrightarrow> db' = db"
  using handle_total [OF assms] handle_keeps [OF assms(1, 2, 3, 5)] by blast

end

lemma root_gossip_Ok:
  assumes "nb_ok db"
  shows "\<exists>b. bind_run builder_new (\<lambda>b. bind_run (db_root db) (\<lambda>root.
      builder_node db (nr_public_key root) True b)) = Ok b"
proof -
  obtain root where "db_root db = Ok root" "node_by_key db (this_node db) = Some root"
    "nr_public_key root = this_node db"
    using nb_ok_root [OF assms] by metis
  then show ?thesis
    using builder_node_Ok [OF nb_ok_db_ok [OF assms], of "this_node db" root empty_builder True]
    by (simp add: builder_new_Ok empty_builder_def)
qed

lemma make_pass_gossip_Ok:
  assumes "db_ok db" "node_by_key db k \<noteq> None"
  shows "make_pass_gossip db k =
    Ok \<lparr> gossip_version = DataVersion 0 0 0, node_records = [gossip_entry db True k] \<rparr>"
  unfolding make_pass_gossip_def by (rule single_node_gossip [OF assms])

subsection \<open>Pass\<close>

lemma pass_handle_Ok:
  assumes "nb_ok db" "pass_qualifies db agrs src = Ok Matched"
  shows "\<exists>g k a. pass_handle env db agrs src = Ok (Reply g k a, db)"
proof -
  obtain root where r: "db_root db = Ok root" "node_by_key db (this_node db) = Some root"
    "nr_public_key root = this_node db"
    using nb_ok_root [OF assms(1)] by metis
  have b: "builder_node db (this_node db) True empty_builder =
      Ok (add_entry db True (this_node db) empty_builder)"
    by (rule builder_node_Ok [OF nb_ok_db_ok [OF assms(1)] r(2)]) (simp add: empty_builder_def)
  have "length agrs = 1" "agr_node_addr_opt (agrs ! 0) \<noteq> None"
    using assms(2) by (auto simp: pass_qualifies_def split: if_splits option.splits)
  then show ?thesis
    by (auto simp: pass_handle_def builder_new_Ok r b index_def)
qed

interpretation pass: gossip_handler pass_qualifies pass_handle
proof (unfold_locales, goal_cases)
  case (1 db agrs src)
  then show ?case by (simp add: pass_qualifies_def)
next
  case (2 env db agrs src)
  then show ?case using pass_handle_Ok [of db agrs src env] by blast
next
  case (3 env db agrs src r db')
  then show ?case using pass_handle_Ok [of db agrs src env] by (auto simp: quiet_def)
qed

interpretation reject: gossip_handler reject_qualifies reject_handle
  by unfold_locales (simp_all add: reject_qualifies_def)

subsection \<open>Debut\<close>

text \<open>What a matching debut looks like after the source address has been filled in.\<close>

definition debut_source :: "agrs \<Rightarrow> socket_addr \<Rightarrow> accessible_gossip_record" where
  "debut_source agrs src =
     (let agr = agrs ! 0 in if agr_node_addr_opt agr = None
        then agr\<lparr> agr_node_addr_opt := Some (node_addr_from_socket_addr src) \<rparr> else agr)"

lemma node_addr_from_socket_ports [simp]: "na_ports (node_addr_from_socket_addr src) = [port src]"
  by (simp add: node_addr_from_socket_addr_def node_addr_new_def)

lemma debut_matched:
  assumes "debut_qualifies db agrs src = Ok Matched" "agrs_ok agrs"
  shows "length agrs = 1" "node_by_key db (agr_key (debut_source agrs src)) = None"
    "\<exists>a. agr_node_addr_opt (debut_source agrs src) = Some a \<and> na_ports a \<noteq> []"
    "bs_ok (nri_neighbors (agr_inner (debut_source agrs src)))"
  using assms
  by (auto simp: debut_qualifies_def debut_source_def Let_def agrs_ok_def length_Suc_conv
      split: if_splits option.splits)

lemma from_agr_ref_simps [simp]:
  "nr_inner (node_record_from_agr_ref agr) = agr_inner agr"
  "half_neighbor_keys (node_record_from_agr_ref agr) = nri_neighbors (agr_inner agr)"
  "nr_node_addr_opt (node_record_from_agr_ref agr) = map_option node_addr_clone (agr_node_addr_opt agr)"
  "nr_signed_gossip (node_record_from_agr_ref agr) = agr_signed_gossip agr"
  "nr_signature (node_record_from_agr_ref agr) = agr_signature agr"
  by (simp_all add: node_record_from_agr_ref_def node_record_from_agr_def agr_clone_def
      half_neighbor_keys_def nr_node_addr_opt_def option.map_comp comp_def)

lemma make_introduction_Ok:
  assumes "key_order_ok env" "db_ok db"
  shows "\<exists>r. make_introduction env db agr src = Ok r"
proof -
  obtain root where r: "db_root db = Ok root" "node_by_key db (this_node db) = Some root"
    "nr_public_key root = this_node db"
    using db_ok_root [OF assms(2)] by metis
  obtain lcn where lcn: "find_least_connected_full_neighbor_excluding env db agr = Ok lcn"
    "\<And>k. lcn = Some k \<Longrightarrow> k \<in> set (full_neighbor_keys root db) - {agr_key agr} \<and>
      nri_accepts_connections (nr_inner (the (node_by_key db k)))"
    using find_least_connected_full_Ok [OF assms r(1)] by metis
  show ?thesis
  proof (cases lcn)
    case None
    then show ?thesis using lcn(1) by (simp add: make_introduction_def)
  next
    case (Some k)
    then obtain n where n: "node_by_key db k = Some n" "k \<noteq> this_node db"
      using full_neighbor_present [OF assms(2) r(1), of k] lcn(2) by auto
    have "builder_node db (this_node db) True empty_builder =
        Ok (add_entry db True (this_node db) empty_builder)"
      by (rule builder_node_Ok [OF assms(2) r(2)]) (simp add: empty_builder_def)
    moreover have "builder_node db k True (add_entry db True (this_node db) empty_builder) =
        Ok (add_entry db True k (add_entry db True (this_node db) empty_builder))"
      by (rule builder_node_Ok [OF assms(2) n(1)]) (simp add: empty_builder_def add_entry_def n(2))
    ultimately show ?thesis
      using lcn(1) Some n(1) r by (simp add: make_introduction_def builder_new_Ok Let_def)
  qed
qed

text \<open>Accepting a debut: either this node is saturated and nothing happens, or the debuting node
  is filed and becomes a half neighbor.\<close>

lemma try_accept_debut_Ok:
  assumes "env_ok env" "nb_ok db" "db_root db = Ok root"
    and "node_by_key db (agr_key agr) = None" "bs_ok (nri_neighbors (agr_inner agr))"
    and "agr_node_addr_opt agr = Some a" "na_ports a \<noteq> []"
  shows "try_accept_debut env db agr src = Ok (Err (), db) \<and> MAX_DEGREE \<le> target_degree db (this_node db) \<or>
    target_degree db (this_node db) < MAX_DEGREE \<and>
    (\<exists>r db' root'. try_accept_debut env db agr src = Ok (Ok r, db') \<and> nb_ok db' \<and> evolves db db' \<and>
       \<not> quiet r \<and> db_root db' = Ok root' \<and>
       set (half_neighbor_keys root') = insert (agr_key agr) (set (half_neighbor_keys root)))"
proof (cases "MAX_DEGREE \<le> target_degree db (this_node db)")
  case True
  have "nr_public_key root = this_node db"
    using nb_ok_root [OF assms(2)] assms(3) by (metis Inr_inject)
  with True assms show ?thesis
    using gossip_target_degree_Ok [OF _ nb_ok_db_ok [OF assms(2)], of env]
    by (simp add: try_accept_debut_def env_ok_def)
next
  case False
  define n where "n = node_record_from_agr_ref agr"
  define k where "k = agr_key agr"
  have key: "nr_public_key root = this_node db" and root: "node_by_key db (this_node db) = Some root"
    and half: "\<And>j. j \<in> set (half_neighbor_keys root) \<Longrightarrow> node_by_key db j \<noteq> None"
    using nb_ok_root [OF assms(2)] assms(3) by (metis Inr_inject option.distinct(1))+
  have n: "nr_public_key n = k" "bs_ok (half_neighbor_keys n)" "nr_node_addr_opt n \<noteq> None"
    "\<And>a. nr_node_addr_opt n = Some a \<Longrightarrow> na_ports a \<noteq> []"
    using assms(5-7) by (auto simp: n_def k_def)
  define db1 where "db1 = add_arbitrary_node n db"
  have add: "add_node n db = Ok (k, db1)"
    using add_node_succeeds [of db n] n assms(4) by (simp add: db1_def k_def)
  have ok1: "nb_ok db1" "evolves db db1" "node_by_key db1 k = Some n" "this_node db1 = this_node db"
    using nb_ok_add_node [OF assms(2) n(2) add] by (simp_all, simp add: db1_def)
  have k: "k \<noteq> this_node db" "k \<notin> set (half_neighbor_keys root)"
    using assms(4) root half [of k] by (auto simp: k_def)
  have root1: "db_root db1 = Ok root"
    using root k(1) n(1) by (simp add: db1_def db_root_def)
  obtain db2 root2 where ad: "add_half_neighbor k db1 = Ok (True, db2)"
    "bump_and_sign_root env db2 = Ok (node_by_key_mut (this_node db) (\<lambda>_. root2) db1)"
    "nb_ok (node_by_key_mut (this_node db) (\<lambda>_. root2) db1)"
    "evolves db1 (node_by_key_mut (this_node db) (\<lambda>_. root2) db1)"
    "set (half_neighbor_keys root2) = insert k (set (half_neighbor_keys root))"
    using adopt_neighbor [of env db1 root k n] assms(1) ok1 root1 n(3) k
    unfolding env_ok_def by metis
  define db3 where "db3 = node_by_key_mut (this_node db) (\<lambda>_. root2) db1"
  obtain i where i: "make_introduction env db3 agr src = Ok i"
    using make_introduction_Ok [of env db3 agr src] assms(1) ad(3) by (auto simp: env_ok_def db3_def nb_ok_def)
  have "db_root db3 = Ok root2"
    using root1 ok1(4) by (simp add: db3_def db_root_def expect_eq_Inr)
  moreover have "\<exists>r. try_accept_debut env db agr src = Ok (Ok r, db3) \<and> \<not> quiet r"
    using False assms(1, 3) key add ad i gossip_target_degree_Ok [OF _ nb_ok_db_ok [OF assms(2)], of env]
    by (auto simp: try_accept_debut_def env_ok_def n_def [symmetric] k_def [symmetric] db3_def [symmetric]
        quiet_def Let_def split: option.splits)
  ultimately show ?thesis
    using False ad ok1 evolves_trans [OF ok1(2), of db3] by (auto simp: db3_def [symmetric] k_def)
qed

lemma debut_handle_Ok:
  assumes "env_ok env" "nb_ok db" "agrs_ok agrs" "debut_qualifies db agrs src = Ok Matched"
    and "db_root db = Ok root"
  shows "\<exists>r db'. debut_handle env db agrs src = Ok (r, db') \<and> nb_ok db' \<and> evolves db db' \<and>
    (quiet r \<longrightarrow> db' = db) \<and>
    (db' = db \<or> target_degree db (this_node db) < MAX_DEGREE \<and>
       (\<exists>root'. db_root db' = Ok root' \<and> set (half_neighbor_keys root') =
          insert (agr_key (agrs ! 0)) (set (half_neighbor_keys root))))"
proof -
  define agr where "agr = debut_source agrs src"
  obtain a where m: "length agrs = 1" "node_by_key db (agr_key agr) = None"
    "agr_node_addr_opt agr = Some a" "na_ports a \<noteq> []" "bs_ok (nri_neighbors (agr_inner agr))"
    using debut_matched [OF assms(4, 3)] unfolding agr_def by blast
  have key: "agr_key agr = agr_key (agrs ! 0)"
    by (simp add: agr_def debut_source_def Let_def)
  have src: "(if agr_node_addr_opt (agrs ! 0) = None
      then (agrs ! 0)\<lparr> agr_node_addr_opt := Some (node_addr_from_socket_addr src) \<rparr> else agrs ! 0) = agr"
    by (simp add: agr_def debut_source_def Let_def)
  have idx: "index agrs 0 = Ok (agrs ! 0)"
    using m(1) by (simp add: index_def)
  have ok: "db_ok db" and ord: "key_order_ok env"
    using assms(1, 2) by (simp_all add: nb_ok_def env_ok_def)
  have addr: "\<And>k. k \<in> set (half_neighbor_keys root) \<Longrightarrow> \<exists>n. node_by_key db k = Some n \<and> nr_node_addr_opt n \<noteq> None"
    using nb_ok_root [OF assms(2)] assms(5) by (metis Inr_inject)
  obtain p where p: "find_more_appropriate_neighbor env db agr = Ok p"
    "\<And>k. p = Some k \<Longrightarrow> k \<in> set (full_neighbor_keys root db) - {agr_key agr} \<and>
      target_degree db k < target_degree db (this_node db) \<and> 2 < target_degree db k"
    using find_more_appropriate_Ok [OF ord ok assms(5)] by metis
  obtain l where l: "find_least_connected_half_neighbor_excluding env db agr = Ok l"
    "\<And>k. l = Some k \<Longrightarrow> k \<in> set (half_neighbor_keys root) - {agr_key agr}"
    using find_least_connected_half_Ok [OF ord ok assms(5)] by metis
  have start: "debut_handle env db agrs src =
      (case p of
         Some k \<Rightarrow> bind_run (expect (node_by_key db k)) (\<lambda>n.
           bind_run (expect (nr_node_addr_opt n)) (\<lambda>_.
           bind_run (make_pass_gossip db k) (\<lambda>pass.
           Ok (Reply pass (agr_key agr) (node_addr_clone a), db))))
       | None \<Rightarrow> bind_run (try_accept_debut env db agr src) (\<lambda>(accepted, db1).
           case accepted of
             Inr result \<Rightarrow> Ok (result, db1)
           | Inl _ \<Rightarrow> bind_run (find_least_connected_half_neighbor_excluding env db1 agr) (\<lambda>lcn.
               case lcn of
                 None \<Rightarrow> Ok (Ignored, db1)
               | Some k \<Rightarrow> bind_run (expect (node_by_key db1 k)) (\<lambda>_.
                   bind_run (make_pass_gossip db1 k) (\<lambda>pass.
                   Ok (Reply pass (agr_key agr) (node_addr_clone a), db1))))))"
    unfolding debut_handle_def idx Let_def bind_run_simps src
    using m(3) p(1) by simp
  show ?thesis
  proof (cases p)
    case (Some k)
    then have "k \<in> set (half_neighbor_keys root)"
      using p(2) full_neighbor_present [OF ok assms(5)] by auto
    then obtain n b where "node_by_key db k = Some n" "nr_node_addr_opt n = Some b"
      using addr by blast
    then show ?thesis
      using Some make_pass_gossip_Ok [OF ok, of k] assms(2) by (simp add: start quiet_def)
  next
    case None
    consider (full) "try_accept_debut env db agr src = Ok (Err (), db)"
      | (taken) r db' root' where "target_degree db (this_node db) < MAX_DEGREE"
          "try_accept_debut env db agr src = Ok (Ok r, db')" "nb_ok db'" "evolves db db'" "\<not> quiet r"
          "db_root db' = Ok root'"
          "set (half_neighbor_keys root') = insert (agr_key agr) (set (half_neighbor_keys root))"
      using try_accept_debut_Ok [OF assms(1, 2, 5) m(2, 5, 3, 4), of src] by blast
    then show ?thesis
    proof cases
      case full
      show ?thesis
      proof (cases l)
        case (Some k)
        then obtain n where "node_by_key db k = Some n"
          using l(2) addr by blast
        then show ?thesis
          using None full Some l(1) make_pass_gossip_Ok [OF ok, of k] assms(2)
          by (simp add: start quiet_def)
      qed (use None full l(1) assms(2) in \<open>simp add: start\<close>)
    next
      case taken
      then show ?thesis
        using None by (simp add: start key)
    qed
  qed
qed

interpretation debut: gossip_handler debut_qualifies debut_handle
proof (unfold_locales, goal_cases)
  case (1 db agrs src)
  then show ?case by (simp add: debut_qualifies_def)
next
  case (2 env db agrs src)
  then obtain root where "db_root db = Ok root"
    using nb_ok_root by metis
  with 2 show ?case using debut_handle_Ok [of env db agrs src root] by blast
next
  case (3 env db agrs src r db')
  then obtain root where "db_root db = Ok root"
    using nb_ok_root by metis
  with 3 show ?case using debut_handle_Ok [of env db agrs src root] by auto
qed

end
