(* ===== verification/GossipHandling.thy ===== *)
theory GossipHandling
  imports GossipAcceptor
begin

text \<open>
  The remaining gossip handlers of \<open>gossip_acceptor.rs\<close>, introductions and standard gossip, meet
  the contract of a handler, and so does the dispatcher \<open>GossipAcceptorReal::handle\<close> that tries
  them in order.
\<close>

section \<open>Replacing the record of another node\<close>

lemma nb_ok_replace_other:
  assumes "nb_ok db" "node_by_key db k = Some n" "k \<noteq> this_node db"
    and "nr_public_key n' = k" "bs_ok (half_neighbor_keys n')" "nr_version n \<le> nr_version n'"
    and "nr_node_addr_opt n \<noteq> None \<Longrightarrow> nr_node_addr_opt n' = nr_node_addr_opt n"
  shows "nb_ok (node_by_key_mut k (\<lambda>_. n') db) \<and> evolves db (node_by_key_mut k (\<lambda>_. n') db)"
proof -
  obtain root where r: "db_root db = Ok root" "node_by_key db (this_node db) = Some root"
    "\<And>j. j \<in> set (half_neighbor_keys root) \<Longrightarrow> \<exists>n. node_by_key db j = Some n \<and> nr_node_addr_opt n \<noteq> None"
    "nri_accepts_connections (nr_inner root) \<Longrightarrow> nr_node_addr_opt root \<noteq> None" "has_wallet (nr_inner root)"
    using nb_ok_root [OF assms(1)] by metis
  have "db_ok (node_by_key_mut k (\<lambda>_. n') db)"
    by (rule db_ok_node_by_key_mut [OF nb_ok_db_ok [OF assms(1)]]) (use assms in auto)
  moreover have root: "db_root (node_by_key_mut k (\<lambda>_. n') db) = Ok root"
    using r(2) assms(3) by (simp add: db_root_def)
  moreover have "\<exists>m. node_by_key (node_by_key_mut k (\<lambda>_. n') db) j = Some m \<and> nr_node_addr_opt m \<noteq> None"
    if "j \<in> set (half_neighbor_keys root)" for j
    using r(3) [OF that] assms(2, 7) by auto
  ultimately have "nb_ok (node_by_key_mut k (\<lambda>_. n') db)"
    using r(4, 5) by (auto simp: nb_ok_def)
  moreover have "evolves db (node_by_key_mut k (\<lambda>_. n') db)"
    using assms by (auto simp: evolves_def)
  ultimately show ?thesis ..
qed

text \<open>Adopting a neighbor that may already be one.\<close>

lemma adopt_known_node:
  assumes "env_ok env" "nb_ok db" "node_by_key db k = Some n" "nr_node_addr_opt n \<noteq> None"
    and "k \<noteq> this_node db" "db_root db = Ok root"
  shows "(k \<in> set (half_neighbor_keys root) \<and> add_half_neighbor k db = Ok (False, db)) \<or>
    (k \<notin> set (half_neighbor_keys root) \<and>
     (\<exists>db1 db2 root2. add_half_neighbor k db = Ok (True, db1) \<and> bump_and_sign_root env db1 = Ok db2 \<and>
        nb_ok db2 \<and> evolves db db2 \<and> db_root db2 = Ok root2 \<and>
        set (half_neighbor_keys root2) = insert k (set (half_neighbor_keys root))))"
proof (cases "k \<in> set (half_neighbor_keys root)")
  case True
  then show ?thesis
    using assms(3) by (simp add: add_half_neighbor_eq [OF nb_ok_db_ok [OF assms(2)] assms(6)])
next
  case False
  obtain db1 root2 where "add_half_neighbor k db = Ok (True, db1)"
    "bump_and_sign_root env db1 = Ok (node_by_key_mut (this_node db) (\<lambda>_. root2) db)"
    "nb_ok (node_by_key_mut (this_node db) (\<lambda>_. root2) db)"
    "evolves db (node_by_key_mut (this_node db) (\<lambda>_. root2) db)"
    "set (half_neighbor_keys root2) = insert k (set (half_neighbor_keys root))"
    using adopt_neighbor [of env db root k n] assms False unfolding env_ok_def by metis
  moreover have "db_root (node_by_key_mut (this_node db) (\<lambda>_. root2) db) = Ok root2"
    using assms(6) by (simp add: db_root_def expect_eq_Inr)
  ultimately show ?thesis
    using False by blast
qed

section \<open>Introductions\<close>

lemma order_of_two:
  assumes "index agrs 0 = Ok x" "index agrs 1 = Ok y"
  shows "\<exists>order. order_is_introducee_introducer agrs src = Ok order \<and> order \<noteq> Err Matched"
  using assms by (simp add: order_is_introducee_introducer_def split: option.split)

lemma verify_introducer_not_matched: "verify_introducer agr root \<noteq> Ok (Some Matched)"
  by (auto simp: verify_introducer_def bind_run_eq_Inr split: if_splits option.splits)

lemma verify_introducee_not_matched: "verify_introducee db a b src \<noteq> Some Matched"
  by (auto simp: verify_introducee_def split: option.splits)

lemma introduction_matched:
  assumes "introduction_qualifies db agrs src = Ok Matched" "nb_ok db" "agrs_ok agrs"
  obtains introducer introducee a b where
    "identify_players agrs src = Ok (Ok (introducer, introducee))"
    "agr_key introducer \<noteq> this_node db" "agr_node_addr_opt introducer = Some a" "na_ports a \<noteq> []"
    "bs_ok (nri_neighbors (agr_inner introducer))" "introducer \<in> set agrs"
    "node_by_key db (agr_key introducee) = None"
    "agr_node_addr_opt introducee = Some b" "na_ports b \<noteq> []"
proof -
  obtain root where r: "db_root db = Ok root" "nr_public_key root = this_node db"
    using nb_ok_root [OF assms(2)] by metis
  obtain x y where agrs: "agrs = [x, y]"
    using assms(1) by (auto simp: introduction_qualifies_def verify_size_def numeral_2_eq_2 length_Suc_conv
        split: if_splits)
  then have idx: "index agrs 0 = Ok x" "index agrs 1 = Ok y" "index (drop 1 agrs) 0 = Ok y"
    by (simp_all add: index_def)
  obtain order where order: "order_is_introducee_introducer agrs src = Ok order" "order \<noteq> Err Matched"
    using order_of_two [OF idx(1, 2)] by blast
  have "order \<noteq> Err qual" for qual
    using assms(1) order agrs by (auto simp: introduction_qualifies_def verify_size_def)
  then obtain in_order where o: "order_is_introducee_introducer agrs src = Ok (Ok in_order)"
    using order(1) by (cases order) auto
  define p q where "p = (if in_order then x else y)" and "q = (if in_order then y else x)"
  have players: "identify_players agrs src = Ok (Ok (p, q))"
    using o idx by (simp add: identify_players_def p_def q_def)
  have pair: "(if in_order then (x, y) else (y, x)) = (p, q)"
    by (simp add: p_def q_def)
  have "introduction_qualifies db agrs src =
      bind_run (verify_introducer p root) (\<lambda>v. case v of Some qual \<Rightarrow> Ok qual
        | None \<Rightarrow> (case verify_introducee db p q src of Some qual \<Rightarrow> Ok qual | None \<Rightarrow> Ok Matched))"
    using r(1) o idx(1, 2) agrs unfolding introduction_qualifies_def verify_size_def
    by (simp add: pair)
  then have "verify_introducer p root = Ok None \<and> verify_introducee db p q src = None"
    using assms(1) verify_introducer_not_matched [of p root] verify_introducee_not_matched [of db p q src]
    by (cases "verify_introducer p root") (auto split: option.splits)
  then have v: "verify_introducer p root = Ok None" "verify_introducee db p q src = None"
    by simp_all
  have "bs_ok (nri_neighbors (agr_inner p))" "p \<in> set agrs"
    using assms(3) agrs by (simp_all add: agrs_ok_def p_def)
  moreover obtain a where "agr_key p \<noteq> this_node db" "agr_node_addr_opt p = Some a" "na_ports a \<noteq> []"
    using v(1) r by (auto simp: verify_introducer_def bind_run_eq_Inr expect_eq_Inr split: if_splits option.splits)
  moreover obtain b where "node_by_key db (agr_key q) = None" "agr_node_addr_opt q = Some b" "na_ports b \<noteq> []"
    using v(2) by (auto simp: verify_introducee_def split: if_splits option.splits)
  ultimately show thesis
    using players that by blast
qed

lemma from_agr_simps [simp]:
  "nr_inner (node_record_from_agr agr) = agr_inner agr"
  "half_neighbor_keys (node_record_from_agr agr) = nri_neighbors (agr_inner agr)"
  "nr_node_addr_opt (node_record_from_agr agr) = map_option node_addr_clone (agr_node_addr_opt agr)"
  by (simp_all add: node_record_from_agr_def half_neighbor_keys_def nr_node_addr_opt_def)

text \<open>The last step of an introduction: adopting the introducer.\<close>

definition adopt_introducer ::
    "nb_env \<Rightarrow> public_key \<Rightarrow> neighborhood_database \<Rightarrow> ((update_error + bool) \<times> neighborhood_database) run" where
  "adopt_introducer env k db =
     (case add_half_neighbor k db of
        Inl _ \<Rightarrow> Err ExpectFailed
      | Inr (added, db2) \<Rightarrow>
          if added then bind_run (bump_and_sign_root env db2) (\<lambda>db3. Ok (Ok True, db3)) else Ok (Ok True, db2))"

lemma adopt_introducer_Ok:
  assumes "env_ok env" "nb_ok db" "node_by_key db k = Some n" "nr_node_addr_opt n \<noteq> None"
    and "k \<noteq> this_node db" "db_root db = Ok root"
  shows "\<exists>db' root'. adopt_introducer env k db = Ok (Ok True, db') \<and> nb_ok db' \<and> evolves db db' \<and>
    db_root db' = Ok root' \<and> set (half_neighbor_keys root') = insert k (set (half_neighbor_keys root))"
  using adopt_known_node [OF assms]
proof (elim disjE conjE exE)
  assume "k \<in> set (half_neighbor_keys root)" "add_half_neighbor k db = Ok (False, db)"
  then show ?thesis
    using assms(2, 6) by (intro exI [of _ db] exI [of _ root]) (auto simp: adopt_introducer_def)
next
  fix db1 db2 root2
  assume "add_half_neighbor k db = Ok (True, db1)" "bump_and_sign_root env db1 = Ok db2"
    "nb_ok db2" "evolves db db2" "db_root db2 = Ok root2"
    "set (half_neighbor_keys root2) = insert k (set (half_neighbor_keys root))"
  then show ?thesis
    by (intro exI [of _ db2] exI [of _ root2]) (simp add: adopt_introducer_def)
qed

text \<open>Updating the database from the introducer's record: refused, unnecessary, or done.\<close>

lemma introduction_update_Ok:
  assumes "env_ok env" "nb_ok db" "db_root db = Ok root"
    and "agr_key agr \<noteq> this_node db" "agr_node_addr_opt agr = Some a" "na_ports a \<noteq> []"
    and "bs_ok (nri_neighbors (agr_inner agr))"
  shows "\<exists>r db' root'. introduction_update_database env db agr = Ok (r, db') \<and> nb_ok db' \<and> evolves db db' \<and>
    db_root db' = Ok root' \<and>
    (r = Ok True \<and> set (half_neighbor_keys root') = insert (agr_key agr) (set (half_neighbor_keys root)) \<or>
     r \<noteq> Ok True \<and> db' = db)"
proof (cases "node_by_key db (agr_key agr)")
  case None
  define n where "n = node_record_from_agr agr"
  define db1 where "db1 = add_arbitrary_node n db"
  have add: "add_node n db = Ok (agr_key agr, db1)"
    using add_node_succeeds [of db n] None assms(5, 6) by (simp add: n_def db1_def)
  have "nb_ok db1 \<and> evolves db db1 \<and> (\<forall>j. node_by_key db1 j = (if j = agr_key agr then Some n else node_by_key db j))"
    using nb_ok_add_node [OF assms(2) _ add] assms(7) by (simp add: n_def)
  moreover have same_root: "this_node db1 = this_node db"
    by (simp add: db1_def)
  ultimately have ok1: "nb_ok db1" "evolves db db1" "node_by_key db1 (agr_key agr) = Some n"
    "db_root db1 = Ok root" "this_node db1 = this_node db"
    using assms(3, 4) by (simp_all add: db_root_def)
  have start: "introduction_update_database env db agr = adopt_introducer env (agr_key agr) db1"
    using None add by (simp add: introduction_update_database_def adopt_introducer_def n_def Let_def)
  obtain db' root' where "adopt_introducer env (agr_key agr) db1 = Ok (Ok True, db')" "nb_ok db'" "evolves db1 db'"
    "db_root db' = Ok root'" "set (half_neighbor_keys root') = insert (agr_key agr) (set (half_neighbor_keys root))"
    using adopt_introducer_Ok [OF assms(1) ok1(1, 3) _ _ ok1(4)] assms(4, 5) ok1(5) by (auto simp: n_def)
  then show ?thesis
    using start evolves_trans [OF ok1(2)] by (intro exI [of _ "Ok True"] exI [of _ db'] exI [of _ root']) simp
next
  case (Some n)
  show ?thesis
  proof (cases "nr_version n < nri_version (agr_inner agr)")
    case newer: True
    show ?thesis
    proof (cases "nr_update agr n")
      case (Inl e)
      then show ?thesis
        using Some newer assms(2, 3)
        by (intro exI [of _ "Err e"] exI [of _ db] exI [of _ root]) (simp add: introduction_update_database_def)
    next
      case (Inr n')
      define db1 where "db1 = node_by_key_mut (agr_key agr) (\<lambda>_. n') db"
      have eq: "agr_node_addr_opt agr = nr_node_addr_opt n" and n': "nr_inner n' = agr_inner agr"
        "nr_node_addr_opt n' = map_option node_addr_clone (agr_node_addr_opt agr)"
        using Inr by (auto simp: nr_update_def nr_node_addr_opt_def split: if_splits)
      have addr: "nr_node_addr_opt n' = nr_node_addr_opt n"
        using eq n'(2) by (simp add: nr_node_addr_opt_def option.map_comp comp_def)
      have "nb_ok db1 \<and> evolves db db1"
        unfolding db1_def
        by (rule nb_ok_replace_other [OF assms(2) Some assms(4)])
           (use n' addr newer assms(7) in \<open>simp_all add: half_neighbor_keys_def\<close>)
      then have ok1: "nb_ok db1" "evolves db db1" "node_by_key db1 (agr_key agr) = Some n'"
        "db_root db1 = Ok root" "this_node db1 = this_node db"
        using Some assms(3, 4) by (simp_all add: db1_def db_root_def)
      have start: "introduction_update_database env db agr = adopt_introducer env (agr_key agr) db1"
        using Some newer Inr
        by (simp add: introduction_update_database_def adopt_introducer_def db1_def Let_def)
      obtain db' root' where "adopt_introducer env (agr_key agr) db1 = Ok (Ok True, db')" "nb_ok db'" "evolves db1 db'"
        "db_root db' = Ok root'" "set (half_neighbor_keys root') = insert (agr_key agr) (set (half_neighbor_keys root))"
        using adopt_introducer_Ok [OF assms(1) ok1(1, 3) _ _ ok1(4)] assms(4, 5) ok1(5) addr eq by auto
      then show ?thesis
        using start evolves_trans [OF ok1(2)] by (intro exI [of _ "Ok True"] exI [of _ db'] exI [of _ root']) simp
    qed
  next
    case False
    then show ?thesis
      using Some assms(2, 3)
      by (intro exI [of _ "Ok False"] exI [of _ db] exI [of _ root]) (simp add: introduction_update_database_def)
  qed
qed

lemma make_debut_triple_Ok:
  assumes "nb_ok db" "agr_node_addr_opt agr = Some b" "na_ports b \<noteq> []"
  shows "\<exists>g. make_debut_triple db agr = Ok (Ok (g, agr_key agr, node_addr_clone b))"
  using root_gossip_Ok [OF assms(1)] assms(2, 3)
  by (auto simp: make_debut_triple_def bind_run_eq_Inr)

text \<open>Handling an introduction: ignored when this node has enough neighbors; otherwise the
  introducer is adopted, left as it is, or banned, and the introducee gets a debut.\<close>

lemma introduction_handle_Ok:
  assumes "env_ok env" "nb_ok db" "agrs_ok agrs" "introduction_qualifies db agrs src = Ok Matched"
    and "db_root db = Ok root"
  shows "\<exists>r db' root'. introduction_handle env db agrs src = Ok (r, db') \<and> nb_ok db' \<and> evolves db db' \<and>
    (quiet r \<longrightarrow> db' = db) \<and> db_root db' = Ok root' \<and>
    (db' = db \<or> length (full_neighbor_keys root db) < MAX_DEGREE \<and>
       (\<exists>agr \<in> set agrs. set (half_neighbor_keys root') = insert (agr_key agr) (set (half_neighbor_keys root))))"
proof (cases "MAX_DEGREE \<le> length (full_neighbor_keys root db)")
  case True
  then show ?thesis
    using assms(2, 5) by (simp add: introduction_handle_def)
next
  case False
  obtain introducer introducee a b where p: "identify_players agrs src = Ok (Ok (introducer, introducee))"
    "agr_key introducer \<noteq> this_node db" "agr_node_addr_opt introducer = Some a" "na_ports a \<noteq> []"
    "bs_ok (nri_neighbors (agr_inner introducer))" "introducer \<in> set agrs"
    "agr_node_addr_opt introducee = Some b" "na_ports b \<noteq> []"
    using introduction_matched [OF assms(4, 2, 3)] by metis
  obtain u db' root' where u: "introduction_update_database env db introducer = Ok (u, db')" "nb_ok db'"
    "evolves db db'" "db_root db' = Ok root'"
    "u = Ok True \<and> set (half_neighbor_keys root') = insert (agr_key introducer) (set (half_neighbor_keys root)) \<or>
     u \<noteq> Ok True \<and> db' = db"
    using introduction_update_Ok [OF assms(1, 2, 5) p(2-5)] by blast
  obtain g where g: "make_debut_triple db' introducee = Ok (Ok (g, agr_key introducee, node_addr_clone b))"
    using make_debut_triple_Ok [OF u(2) p(7, 8)] by blast
  have start: "introduction_handle env db agrs src =
      (case u of Inl e \<Rightarrow> Ok (Ban (ImmutableChanged (agr_key introducer) e), db')
       | Inr _ \<Rightarrow> Ok (Reply g (agr_key introducee) (node_addr_clone b), db'))"
    using False assms(5) p(1) u(1) g by (simp add: introduction_handle_def split: sum.split)
  show ?thesis
  proof (cases u)
    case (Inl e)
    then show ?thesis
      using start u assms(2) by (auto simp: quiet_def)
  next
    case (Inr x)
    then show ?thesis
      using start u(2-5) False p(6) by (auto simp: quiet_def)
  qed
qed

lemma introduction_qualifies_total:
  assumes "nb_ok db"
  shows "\<exists>q. introduction_qualifies db agrs src = Ok q"
proof (cases "length agrs = 2")
  case True
  then obtain x y where agrs: "agrs = [x, y]"
    by (auto simp: numeral_2_eq_2 length_Suc_conv)
  obtain root where r: "db_root db = Ok root"
    using nb_ok_root [OF assms] by metis
  have v: "agr_node_addr_opt p \<noteq> None \<Longrightarrow> \<exists>v. verify_introducer p root = Ok v" for p
    by (auto simp: verify_introducer_def)
  show ?thesis
    using v [of x] v [of y] r agrs
    by (auto simp: introduction_qualifies_def verify_size_def order_is_introducee_introducer_def
        index_def Let_def split: option.splits)
qed (simp add: introduction_qualifies_def verify_size_def)

interpretation introduction: gossip_handler introduction_qualifies introduction_handle
proof (unfold_locales, goal_cases)
  case (1 db agrs src)
  then show ?case using introduction_qualifies_total by blast
next
  case (2 env db agrs src)
  then obtain root where "db_root db = Ok root"
    using nb_ok_root by metis
  with 2 show ?case using introduction_handle_Ok [of env db agrs src root] by blast
next
  case (3 env db agrs src r db')
  then obtain root where "db_root db = Ok root"
    using nb_ok_root by metis
  with 3 show ?case using introduction_handle_Ok [of env db agrs src root] by auto
qed

section \<open>Standard gossip\<close>

lemma standard_qualifies_total:
  assumes "nb_ok db"
  shows "\<exists>q. standard_qualifies db agrs src = Ok q"
proof -
  obtain root where r: "db_root db = Ok root"
    "nri_accepts_connections (nr_inner root) \<Longrightarrow> nr_node_addr_opt root \<noteq> None"
    using nb_ok_root [OF assms] by metis
  define near where "near = filter (\<lambda>agr. agr_node_addr_opt agr \<noteq> None) agrs"
  have ip: "ip_of agr = Ok (na_ip_addr (the (agr_node_addr_opt agr)))" if "agr \<in> set near" for agr
    using that by (auto simp: near_def ip_of_def)
  have impostor: "\<exists>i. (if nri_accepts_connections (nr_inner root) then find_impostor root near else Ok None) = Ok i"
  proof (cases "nri_accepts_connections (nr_inner root)")
    case True
    then obtain a where a: "nr_node_addr_opt root = Some a"
      using r(2) by blast
    have "find_impostor root near =
        Ok (find (\<lambda>agr. na_ip_addr (the (agr_node_addr_opt agr)) = na_ip_addr a) near)"
      unfolding find_impostor_def by (rule find_run_total) (simp add: ip a)
    then show ?thesis
      using True by simp
  qed simp
  have "\<exists>s. fold_run note_duplicate near ([], []) = Ok s \<and> True"
    by (rule fold_run_total_invariant) (auto simp: note_duplicate_def ip)
  then obtain addrs dups where "fold_run note_duplicate near ([], []) = Ok (addrs, dups)"
    by auto
  moreover obtain i where imp: "(if nri_accepts_connections (nr_inner root) then find_impostor root near else Ok None) = Ok i"
    using impostor ..
  ultimately show ?thesis
    unfolding standard_qualifies_def Let_def near_def [symmetric] r(1) bind_run_simps imp
    by (simp split: option.split list.split)
qed

lemma standard_matched_keys:
  assumes "standard_qualifies db agrs src = Ok Matched" "nb_ok db" "agr \<in> set agrs"
  shows "agr_key agr \<noteq> this_node db"
proof -
  obtain root where "db_root db = Ok root" "nr_public_key root = this_node db"
    using nb_ok_root [OF assms(2)] by metis
  then show ?thesis
    using assms(1, 3)
    by (auto simp: standard_qualifies_def Let_def bind_run_eq_Inr list_ex_iff split: option.splits if_splits)
qed

text \<open>Adding the new nodes.\<close>

lemma new_node_ports:
  assumes "is_new_non_introductory keys src agr" "agr_node_addr_opt agr = Some a"
  shows "na_ports a \<noteq> []"
proof
  assume "na_ports a = []"
  then have "node_addr_into_sockets (node_addr_clone a) = []"
    by (simp add: node_addr_into_sockets_def)
  then show False
    using assms by (simp add: is_new_non_introductory_def)
qed

lemma add_new_node_eq:
  assumes "agr_node_addr_opt agr = None \<or> (\<exists>a. agr_node_addr_opt agr = Some a \<and> na_ports a \<noteq> [])"
  shows "add_new_node agr db =
    (if node_by_key db (agr_key agr) = None then Ok (add_arbitrary_node (node_record_from_agr_ref agr) db)
     else Err ExpectFailed)"
proof (cases "node_by_key db (agr_key agr)")
  case None
  then show ?thesis
    using add_node_succeeds [of db "node_record_from_agr_ref agr"] assms by (auto simp: add_new_node_def)
next
  case (Some n)
  then have "\<nexists>r. add_node (node_record_from_agr_ref agr) db = Ok r"
    by (auto simp: add_node_Ok_iff)
  with Some show ?thesis
    by (auto simp: add_new_node_def split: sum.split)
qed

definition can_be_new :: "accessible_gossip_record \<Rightarrow> bool" where
  "can_be_new agr \<longleftrightarrow> bs_ok (nri_neighbors (agr_inner agr)) \<and>
     (agr_node_addr_opt agr = None \<or> (\<exists>a. agr_node_addr_opt agr = Some a \<and> na_ports a \<noteq> []))"

lemma update_new_key: "k \<notin> fst ` set m \<Longrightarrow> AList.update k v m = m @ [(k, v)]"
  by (induction m) auto

lemma db_keys_add_new:
  "node_by_key db (nr_public_key n) = None \<Longrightarrow>
     length (db_keys (add_arbitrary_node n db)) = Suc (length (db_keys db))"
  by (auto simp: db_keys_def add_arbitrary_node_def hm_keys_def hm_insert_def node_by_key_def hm_get_def
      update_new_key Let_def map_of_eq_None_iff split: option.splits)

lemma add_new_node_collides:
  assumes "k \<in> agr_key ` set agrs" "node_by_key db k \<noteq> None" "\<And>agr. agr \<in> set agrs \<Longrightarrow> can_be_new agr"
  shows "fold_run add_new_node agrs db = Err ExpectFailed"
  using assms
proof (induction agrs arbitrary: db)
  case (Cons agr agrs)
  then have "can_be_new agr"
    by simp
  then have step: "add_new_node agr db =
      (if node_by_key db (agr_key agr) = None then Ok (add_arbitrary_node (node_record_from_agr_ref agr) db)
       else Err ExpectFailed)"
    by (intro add_new_node_eq) (simp add: can_be_new_def)
  show ?case
  proof (cases "node_by_key db (agr_key agr) = None")
    case True
    then have "k \<noteq> agr_key agr"
      using Cons.prems(2) by auto
    then have "fold_run add_new_node agrs (add_arbitrary_node (node_record_from_agr_ref agr) db) = Err ExpectFailed"
      using Cons.prems by (intro Cons.IH) auto
    with True show ?thesis
      by (simp add: step)
  qed (auto simp: step)
qed simp

lemma add_new_nodes:
  assumes "nb_ok db" "\<And>agr. agr \<in> set agrs \<Longrightarrow> can_be_new agr \<and> node_by_key db (agr_key agr) = None"
  shows "if distinct (map agr_key agrs)
    then \<exists>db'. fold_run add_new_node agrs db = Ok db' \<and> nb_ok db' \<and> evolves db db' \<and> db_root db' = db_root db \<and>
           length (db_keys db') = length (db_keys db) + length agrs
    else fold_run add_new_node agrs db = Err ExpectFailed"
  using assms
proof (induction agrs arbitrary: db)
  case (Cons agr agrs)
  define n where "n = node_record_from_agr_ref agr"
  define db1 where "db1 = add_arbitrary_node n db"
  have new: "can_be_new agr" "node_by_key db (agr_key agr) = None"
    using Cons.prems(2) by simp_all
  have step: "add_new_node agr db = Ok db1"
    using new add_new_node_eq [of agr db] by (simp add: can_be_new_def db1_def n_def)
  have "add_node n db = Ok (agr_key agr, db1)"
    using add_node_succeeds [of db n] new by (auto simp: n_def db1_def can_be_new_def)
  then have ok: "nb_ok db1" "evolves db db1"
    "\<And>j. node_by_key db1 j = (if j = agr_key agr then Some n else node_by_key db j)"
    using nb_ok_add_node [OF Cons.prems(1), of n "agr_key agr" db1] new by (simp_all add: n_def can_be_new_def)
  have same_root: "this_node db1 = this_node db"
    by (simp add: db1_def)
  obtain root where "node_by_key db (this_node db) = Some root"
    using nb_ok_root [OF Cons.prems(1)] by metis
  then have root: "db_root db1 = db_root db"
    using new(2) same_root ok(3) by (auto simp: db_root_def)
  have len: "length (db_keys db1) = Suc (length (db_keys db))"
    using new(2) by (simp add: db1_def db_keys_add_new n_def)
  show ?case
  proof (cases "agr_key agr \<in> agr_key ` set agrs")
    case True
    then have "fold_run add_new_node agrs db1 = Err ExpectFailed"
      using add_new_node_collides [of "agr_key agr" agrs db1] ok(3) Cons.prems(2)
      by (simp add: can_be_new_def)
    with True step show ?thesis
      by simp
  next
    case False
    have "can_be_new x \<and> node_by_key db1 (agr_key x) = None" if "x \<in> set agrs" for x
    proof -
      have "agr_key x \<noteq> agr_key agr"
        using that False by (metis imageI)
      then show ?thesis
        using Cons.prems(2) [of x] that ok(3) by simp
    qed
    note IH = Cons.IH [OF ok(1) this]
    show ?thesis
      using IH False step ok(2) root len evolves_trans [OF ok(2)]
      by (auto split: if_splits)
  qed
qed simp

text \<open>Replacing obsolete records.\<close>

lemma update_database_record_Ok:
  assumes "nb_ok db" "node_by_key db (agr_key agr) = Some n" "agr_key agr \<noteq> this_node db"
    and "nr_version n < nri_version (agr_inner agr)" "bs_ok (nri_neighbors (agr_inner agr))"
  shows "\<exists>db'. update_database_record agr db = Ok (True, db') \<and> nb_ok db' \<and> evolves db db' \<and>
    db_root db' = db_root db"
proof -
  define m where "m = (case (nr_node_addr_opt n, map_option node_addr_clone (agr_node_addr_opt agr)) of
      (None, Some a) \<Rightarrow> n\<lparr> nr_metadata := (nr_metadata n)\<lparr> md_node_addr_opt := Some (node_addr_clone a) \<rparr> \<rparr>
    | _ \<Rightarrow> n)"
  define n' where "n' = m\<lparr> nr_inner := agr_inner agr, nr_signed_gossip := agr_signed_gossip agr,
      nr_signature := agr_signature agr \<rparr>"
  define db' where "db' = node_by_key_mut (agr_key agr) (\<lambda>_. n') db"
  have "nr_node_addr_opt n = None \<longleftrightarrow> md_node_addr_opt (nr_metadata n) = None"
    by (simp add: nr_node_addr_opt_def)
  then have "update_database_record agr db = Ok (True, db')"
    using assms(2)
    by (auto simp: update_database_record_def db'_def n'_def m_def set_node_addr_def split: option.splits)
  moreover have "nr_node_addr_opt n \<noteq> None \<Longrightarrow> nr_node_addr_opt n' = nr_node_addr_opt n"
    by (auto simp: n'_def m_def)
  then have "nb_ok db' \<and> evolves db db'"
    unfolding db'_def using assms(4, 5)
    by (intro nb_ok_replace_other [OF assms(1, 2, 3)]) (simp_all add: n'_def half_neighbor_keys_def)
  moreover have "db_root db' = db_root db"
    using assms(3) by (simp add: db'_def db_root_def)
  ultimately show ?thesis
    by blast
qed

definition updates_so_far :: "neighborhood_database \<Rightarrow> bool list \<times> neighborhood_database \<Rightarrow> bool" where
  "updates_so_far db s \<longleftrightarrow> nb_ok (snd s) \<and> evolves db (snd s) \<and> db_root (snd s) = db_root db \<and>
     (\<not> list_ex (\<lambda>f. f) (fst s) \<longrightarrow> snd s = db)"

lemma update_if_obsolete_Ok:
  assumes "updates_so_far db s" "agr_key agr \<noteq> this_node db" "bs_ok (nri_neighbors (agr_inner agr))"
  shows "\<exists>s'. update_if_obsolete agr s = Ok s' \<and> updates_so_far db s'"
proof -
  obtain fs d where s: "s = (fs, d)"
    by (cases s)
  have d: "nb_ok d" "evolves db d" "db_root d = db_root db" "agr_key agr \<noteq> this_node d"
    using assms(1, 2) evolves_this [of db d] by (simp_all add: updates_so_far_def s)
  show ?thesis
  proof (cases "\<exists>n. node_by_key d (agr_key agr) = Some n \<and> nr_version n < nri_version (agr_inner agr)")
    case True
    then obtain n where n: "node_by_key d (agr_key agr) = Some n" "nr_version n < nri_version (agr_inner agr)"
      by blast
    then obtain d' where "update_database_record agr d = Ok (True, d')" "nb_ok d'" "evolves d d'"
      "db_root d' = db_root d"
      using update_database_record_Ok [OF d(1) n(1) d(4) n(2) assms(3)] by blast
    then show ?thesis
      using n d evolves_trans [OF d(2)] by (simp add: update_if_obsolete_def updates_so_far_def s)
  next
    case False
    then show ?thesis
      using assms(1) by (auto simp: update_if_obsolete_def s split: option.split)
  qed
qed

lemma identify_and_update_Ok:
  assumes "nb_ok db" "agrs_ok agrs" "\<And>agr. agr \<in> set agrs \<Longrightarrow> agr_key agr \<noteq> this_node db"
  shows "\<exists>b db'. identify_and_update_obsolete_nodes db agrs = Ok (b, db') \<and> nb_ok db' \<and> evolves db db' \<and>
    db_root db' = db_root db \<and> (\<not> b \<longrightarrow> db' = db)"
proof -
  have "\<exists>s. fold_run update_if_obsolete agrs ([], db) = Ok s \<and> updates_so_far db s"
    using assms update_if_obsolete_Ok
    by (intro fold_run_total_invariant) (auto simp: updates_so_far_def agrs_ok_def)
  then obtain fs db' where "fold_run update_if_obsolete agrs ([], db) = Ok (fs, db')" "updates_so_far db (fs, db')"
    by auto
  then show ?thesis
    by (simp add: identify_and_update_obsolete_nodes_def updates_so_far_def)
qed

text \<open>Adopting the sender.\<close>

lemma handle_root_node_Ok:
  assumes "env_ok env" "nb_ok db" "db_root db = Ok root"
  shows "\<exists>b db' root'. handle_root_node env db src = Ok (b, db') \<and> nb_ok db' \<and> evolves db db' \<and>
    db_root db' = Ok root' \<and>
    (if b then length (full_neighbor_keys root db) < MAX_DEGREE \<and>
         (\<exists>n. node_by_ip db (ip src) = Some n \<and>
            set (half_neighbor_keys root') = insert (nr_public_key n) (set (half_neighbor_keys root)))
     else db' = db)"
proof (cases "node_by_ip db (ip src)")
  case None
  then show ?thesis
    using assms(2, 3) by (intro exI [of _ False]) (simp add: handle_root_node_def)
next
  case (Some n)
  have ok: "db_ok db"
    by (rule nb_ok_db_ok [OF assms(2)])
  then obtain a where n: "node_by_key db (nr_public_key n) = Some n" "nr_node_addr_opt n = Some a"
    using Some db_ok_key [OF ok] db_ok_ip [OF ok]
    by (fastforce simp: node_by_ip_def split: option.splits)
  show ?thesis
  proof (cases "MAX_DEGREE \<le> length (full_neighbor_keys root db) \<or> nr_public_key n = this_node db")
    case True
    then have "handle_root_node env db src = Ok (False, db)"
      using Some assms(3) n(1) add_half_neighbor_eq [OF ok assms(3), of "nr_public_key n"]
      by (auto simp: handle_root_node_def Let_def split: sum.splits)
    then show ?thesis
      using assms(2, 3) by (intro exI [of _ False]) simp
  next
    case False
    then have start: "handle_root_node env db src =
        (case add_half_neighbor (nr_public_key n) db of
           Inl _ \<Rightarrow> Ok (False, db)
         | Inr (False, _) \<Rightarrow> Ok (False, db)
         | Inr (True, db1) \<Rightarrow> bind_run (bump_and_sign_root env db1) (\<lambda>db2. Ok (True, db2)))"
      using Some assms(3) by (simp add: handle_root_node_def Let_def)
    have "nr_node_addr_opt n \<noteq> None" "nr_public_key n \<noteq> this_node db"
      using n(2) False by simp_all
    from adopt_known_node [OF assms(1, 2) n(1) this assms(3)]
    show ?thesis
    proof (elim disjE conjE exE)
      assume "add_half_neighbor (nr_public_key n) db = Ok (False, db)"
      then show ?thesis
        using start assms(2, 3) by (intro exI [of _ False]) simp
    next
      fix db1 db2 root2
      assume "add_half_neighbor (nr_public_key n) db = Ok (True, db1)" "bump_and_sign_root env db1 = Ok db2"
        "nb_ok db2" "evolves db db2" "db_root db2 = Ok root2"
        "set (half_neighbor_keys root2) = insert (nr_public_key n) (set (half_neighbor_keys root))"
      then show ?thesis
        using start Some False by (intro exI [of _ True] exI [of _ db2] exI [of _ root2]) simp
    qed
  qed
qed

text \<open>Handling standard gossip: the outcome, and the one way it can panic.\<close>

definition new_nodes :: "neighborhood_database \<Rightarrow> agrs \<Rightarrow> socket_addr \<Rightarrow> agrs" where
  "new_nodes db agrs src = filter (is_new_non_introductory (db_keys db) src) agrs"

lemma new_nodes_new:
  assumes "agrs_ok agrs" "agr \<in> set (new_nodes db agrs src)"
  shows "can_be_new agr \<and> node_by_key db (agr_key agr) = None"
proof -
  have a: "agr \<in> set agrs" "is_new_non_introductory (db_keys db) src agr"
    using assms(2) by (simp_all add: new_nodes_def)
  then have "agr_node_addr_opt agr = None \<or> (\<exists>a. agr_node_addr_opt agr = Some a \<and> na_ports a \<noteq> [])"
    using new_node_ports [OF a(2)] by (cases "agr_node_addr_opt agr") simp_all
  moreover have "node_by_key db (agr_key agr) = None"
    using a(2) db_keys_iff [of "agr_key agr" db] by (auto simp: is_new_non_introductory_def)
  ultimately show ?thesis
    using assms(1) a(1) by (simp add: can_be_new_def agrs_ok_def)
qed

lemma standard_handle_Ok:
  assumes "env_ok env" "nb_ok db" "agrs_ok agrs" "standard_qualifies db agrs src = Ok Matched"
    and "db_root db = Ok root" "distinct (map agr_key (new_nodes db agrs src))"
  shows "\<exists>r db' root'. standard_handle env db agrs src = Ok (r, db') \<and> nb_ok db' \<and> evolves db db' \<and>
    (quiet r \<longrightarrow> db' = db) \<and> db_root db' = Ok root' \<and>
    (root' = root \<or> (\<exists>k. node_by_key db' k \<noteq> None \<and>
       set (half_neighbor_keys root') = insert k (set (half_neighbor_keys root))))"
proof -
  have "if distinct (map agr_key (new_nodes db agrs src))
    then \<exists>db'. fold_run add_new_node (new_nodes db agrs src) db = Ok db' \<and> nb_ok db' \<and> evolves db db' \<and>
           db_root db' = db_root db \<and> length (db_keys db') = length (db_keys db) + length (new_nodes db agrs src)
    else fold_run add_new_node (new_nodes db agrs src) db = Err ExpectFailed"
    by (rule add_new_nodes [OF assms(2)]) (rule new_nodes_new [OF assms(3)])
  then obtain db1 where db1: "fold_run add_new_node (new_nodes db agrs src) db = Ok db1" "nb_ok db1"
    "evolves db db1" "db_root db1 = Ok root"
    "length (db_keys db1) = length (db_keys db) + length (new_nodes db agrs src)"
    using assms(5, 6) by auto
  define added where "added \<longleftrightarrow> length (db_keys db1) \<noteq> length (db_keys db)"
  have first_phase: "identify_and_add_non_introductory_new_nodes db agrs src = Ok (added, db1)"
    using db1(1) by (simp add: identify_and_add_non_introductory_new_nodes_def new_nodes_def added_def)
  have unchanged: "\<not> added \<Longrightarrow> db1 = db"
    using db1(1, 5) by (simp add: added_def)
  have "agr_key agr \<noteq> this_node db1" if "agr \<in> set agrs" for agr
    using standard_matched_keys [OF assms(4, 2) that] db1(3) by (simp add: evolves_this)
  then obtain updated db2 where db2: "identify_and_update_obsolete_nodes db1 agrs = Ok (updated, db2)"
    "nb_ok db2" "evolves db1 db2" "db_root db2 = Ok root" "\<not> updated \<Longrightarrow> db2 = db1"
    using identify_and_update_Ok [OF db1(2) assms(3)] db1(4) by metis
  obtain b db' root' where db': "handle_root_node env db2 src = Ok (b, db')" "nb_ok db'" "evolves db2 db'"
    "db_root db' = Ok root'"
    "if b then length (full_neighbor_keys root db2) < MAX_DEGREE \<and>
        (\<exists>n. node_by_ip db2 (ip src) = Some n \<and>
          set (half_neighbor_keys root') = insert (nr_public_key n) (set (half_neighbor_keys root)))
     else db' = db2"
    using handle_root_node_Ok [OF assms(1) db2(2, 4), of src] by blast
  have handle: "standard_handle env db agrs src = Ok (if b \<or> updated \<or> added then Accepted else Ignored, db')"
    using first_phase db2(1) db'(1) by (simp add: standard_handle_def)
  have evo: "evolves db db'"
    by (rule evolves_trans [OF evolves_trans [OF db1(3) db2(3)] db'(3)])
  have "db' = db" if "\<not> (b \<or> updated \<or> added)"
    using that db'(5) db2(5) unchanged by simp
  moreover have "root' = root" if "\<not> b"
    using that db'(4, 5) db2(4) by simp
  moreover have "\<exists>k. node_by_key db' k \<noteq> None \<and> set (half_neighbor_keys root') = insert k (set (half_neighbor_keys root))"
    if adopted: b
  proof -
    obtain n where "set (half_neighbor_keys root') = insert (nr_public_key n) (set (half_neighbor_keys root))"
      using db'(5) adopted by auto
    then show ?thesis
      using root_neighbors_present [OF nb_ok_db_ok [OF db'(2)] db'(4), of "nr_public_key n"] by auto
  qed
  ultimately show ?thesis
    using handle db'(2, 4) evo by (auto simp: quiet_def)
qed

lemma standard_handle_panics:
  assumes "nb_ok db" "agrs_ok agrs" "\<not> distinct (map agr_key (new_nodes db agrs src))"
  shows "standard_handle env db agrs src = Err ExpectFailed"
  using add_new_nodes [OF assms(1), of "new_nodes db agrs src"] new_nodes_new [OF assms(2)] assms(3)
  by (simp add: standard_handle_def identify_and_add_non_introductory_new_nodes_def new_nodes_def [symmetric])

lemma distinct_new_nodes: "distinct (map agr_key agrs) \<Longrightarrow> distinct (map agr_key (new_nodes db agrs src))"
  by (induction agrs) (auto simp: new_nodes_def)

interpretation standard: gossip_handler standard_qualifies standard_handle
proof (unfold_locales, goal_cases)
  case (1 db agrs src)
  then show ?case using standard_qualifies_total by blast
next
  case (2 env db agrs src)
  then obtain root where "db_root db = Ok root"
    using nb_ok_root by metis
  with 2 distinct_new_nodes show ?case
    using standard_handle_Ok [of env db agrs src root] by blast
next
  case (3 env db agrs src r db')
  then obtain root where "db_root db = Ok root"
    using nb_ok_root by metis
  moreover have "distinct (map agr_key (new_nodes db agrs src))"
    using 3 standard_handle_panics [of db agrs src env] by fastforce
  ultimately show ?case
    using 3 standard_handle_Ok [of env db agrs src root] by auto
qed

section \<open>The dispatcher\<close>

lemma handler_of_gossip:
  assumes "nb_ok db" "agrs_ok agrs"
  obtains q h where "find_handler db agrs src gossip_handlers = Ok (q, h)" "h \<in> set gossip_handlers"
    "fst h db agrs src = Ok q" "q \<noteq> Unmatched"
proof -
  obtain q1 q2 q3 q4 where q: "debut_qualifies db agrs src = Ok q1" "pass_qualifies db agrs src = Ok q2"
    "introduction_qualifies db agrs src = Ok q3" "standard_qualifies db agrs src = Ok q4"
    using debut.qualifies_total [OF assms] pass.qualifies_total [OF assms]
      introduction.qualifies_total [OF assms] standard.qualifies_total [OF assms] by blast
  have "\<exists>q h. find_handler db agrs src gossip_handlers = Ok (q, h) \<and> h \<in> set gossip_handlers \<and>
      fst h db agrs src = Ok q \<and> q \<noteq> Unmatched"
    using q by (cases q1; cases q2; cases q3; cases q4)
      (simp_all add: gossip_handlers_def reject_qualifies_def)
  then show thesis
    using that by blast
qed

lemma acceptor_handle_eq:
  assumes "nb_ok db" "agrs_ok agrs"
  obtains (malformed) reason where "acceptor_handle env db agrs src = Ok (Ban reason, db)"
  | (matched) h where "h \<in> {(debut_qualifies, debut_handle), (pass_qualifies, pass_handle),
      (introduction_qualifies, introduction_handle), (standard_qualifies, standard_handle)}"
    "fst h db agrs src = Ok Matched" "acceptor_handle env db agrs src = snd h env db agrs src"
proof -
  obtain q h where h: "find_handler db agrs src gossip_handlers = Ok (q, h)" "h \<in> set gossip_handlers"
    "fst h db agrs src = Ok q" "q \<noteq> Unmatched"
    using handler_of_gossip [OF assms] by metis
  show thesis
  proof (cases q)
    case Matched
    then have "h \<noteq> (reject_qualifies, reject_handle)"
      using h(3) by (auto simp: reject_qualifies_def)
    then show thesis
      using matched [of h] h Matched by (auto simp: acceptor_handle_def gossip_handlers_def)
  next
    case (Malformed reason)
    then show thesis
      using malformed [of reason] h by (simp add: acceptor_handle_def)
  qed (use h(4) in simp)
qed

lemma acceptor_handle_Ok:
  assumes "env_ok env" "nb_ok db" "agrs_ok agrs" "distinct (map agr_key agrs)"
  shows "\<exists>r db'. acceptor_handle env db agrs src = Ok (r, db') \<and> nb_ok db' \<and> evolves db db' \<and>
    (quiet r \<longrightarrow> db' = db)"
  using assms(2, 3)
proof (cases rule: acceptor_handle_eq [of db agrs env src])
  case (malformed reason)
  with assms(2) show ?thesis by simp
next
  case (matched h)
  from matched(1) show ?thesis
  proof (elim insertE emptyE)
    assume "h = (debut_qualifies, debut_handle)"
    with matched assms show ?thesis
      by (metis debut.handle_result fst_conv snd_conv)
  next
    assume "h = (pass_qualifies, pass_handle)"
    with matched assms show ?thesis
      by (metis pass.handle_result fst_conv snd_conv)
  next
    assume "h = (introduction_qualifies, introduction_handle)"
    with matched assms show ?thesis
      by (metis introduction.handle_result fst_conv snd_conv)
  next
    assume "h = (standard_qualifies, standard_handle)"
    with matched assms show ?thesis
      by (metis standard.handle_result fst_conv snd_conv)
  qed
qed

text \<open>C16. Accepting gossip is safe: whatever well-formed records arrive, if no two of them have the
  same public key, \<open>GossipAcceptorReal::handle\<close> does not panic; the neighborhood database keeps
  its invariant; no record and no known address is lost, no version of another node goes back, and
  of its own record a node changes only the neighbor set, which can only grow, the version and the
  signature; and when the gossip is ignored or its sender banned, the database is left as it was.\<close>

theorem acceptor_safe:
  assumes "env_ok env" "nb_ok db" "agrs_ok agrs" "distinct (map agr_key agrs)"
  shows "\<exists>r db'. acceptor_handle env db agrs src = Ok (r, db') \<and> nb_ok db' \<and> evolves db db' \<and>
    (quiet r \<longrightarrow> db' = db)"
  using assms by (rule acceptor_handle_Ok)

text \<open>C34. The one way gossip can crash the node: standard gossip with well-formed records panics
  exactly when two of the records it would add as new nodes have the same public key.\<close>

theorem standard_gossip_panics_iff:
  assumes "env_ok env" "nb_ok db" "agrs_ok agrs" "standard_qualifies db agrs src = Ok Matched"
  shows "(\<exists>p. standard_handle env db agrs src = Err p) \<longleftrightarrow>
    \<not> distinct (map agr_key (filter (is_new_non_introductory (db_keys db) src) agrs))"
proof -
  obtain root where "db_root db = Ok root"
    using nb_ok_root [OF assms(2)] by metis
  then show ?thesis
    using standard_handle_Ok [OF assms] standard_handle_panics [OF assms(2, 3), of src env]
    by (fastforce simp: new_nodes_def)
qed

text \<open>C33. Gossip makes a node adopt at most one new neighbor: after gossip has been accepted, the
  neighbor set of this node is the old one or the old one with a single known node added.\<close>

theorem acceptor_adopts_at_most_one:
  assumes "env_ok env" "nb_ok db" "agrs_ok agrs" "db_root db = Ok root"
    and "acceptor_handle env db agrs src = Ok (r, db')"
  shows "\<exists>root'. db_root db' = Ok root' \<and>
    (set (half_neighbor_keys root') = set (half_neighbor_keys root) \<or>
     (\<exists>k. k \<notin> set (half_neighbor_keys root) \<and> node_by_key db' k \<noteq> None \<and>
        set (half_neighbor_keys root') = insert k (set (half_neighbor_keys root))))"
proof -
  have "(\<exists>root'. db_root db' = Ok root' \<and> (set (half_neighbor_keys root') = set (half_neighbor_keys root) \<or>
      (\<exists>k. set (half_neighbor_keys root') = insert k (set (half_neighbor_keys root))))) \<and> nb_ok db'"
    using assms(2, 3)
  proof (cases rule: acceptor_handle_eq [of db agrs env src])
    case (malformed reason)
    with assms show ?thesis by auto
  next
    case (matched h)
    from matched(1) show ?thesis
    proof (elim insertE emptyE)
      assume "h = (debut_qualifies, debut_handle)"
      with matched assms show ?thesis
        using debut_handle_Ok [OF assms(1, 2, 3) _ assms(4), of src] by auto
    next
      assume "h = (pass_qualifies, pass_handle)"
      with matched assms show ?thesis
        using pass_handle_Ok [OF assms(2), of agrs src env] by auto
    next
      assume "h = (introduction_qualifies, introduction_handle)"
      with matched assms show ?thesis
        using introduction_handle_Ok [OF assms(1, 2, 3) _ assms(4), of src] by auto
    next
      assume "h = (standard_qualifies, standard_handle)"
      with matched assms show ?thesis
        using standard_handle_Ok [OF assms(1, 2, 3) _ assms(4), of src]
          standard_handle_panics [OF assms(2, 3), of src env] by fastforce
    qed
  qed
  then obtain root' where r: "db_root db' = Ok root'" "nb_ok db'"
    "set (half_neighbor_keys root') = set (half_neighbor_keys root) \<or>
      (\<exists>k. set (half_neighbor_keys root') = insert k (set (half_neighbor_keys root)))"
    by blast
  then show ?thesis
    using root_neighbors_present [OF nb_ok_db_ok [OF r(2)] r(1)] by (metis insertI1 insert_absorb)
qed

section \<open>Examples\<close>

definition example_agr :: "public_key \<Rightarrow> node_addr option \<Rightarrow> accessible_gossip_record" where
  "example_agr k addr =
     \<lparr> agr_signed_gossip = [], agr_signature = [], agr_node_addr_opt = addr,
       agr_inner = (nr_inner (example_record k [] addr)) \<rparr>"

definition example_source :: socket_addr where
  "example_source = \<lparr> ip = V4 1 2 3 2, port = 1234 \<rparr>"

lemma example_agr_simps [simp]:
  "agr_key (example_agr k addr) = k" "agr_node_addr_opt (example_agr k addr) = addr"
  "nri_neighbors (agr_inner (example_agr k addr)) = []"
  by (simp_all add: example_agr_def example_record_def)

lemma example_nb_ok: "nb_ok example_db" "env_ok example_env" "db_root example_db = Ok (example_record [1] [[2]] (Some (example_addr 1)))"
proof -
  show root: "db_root example_db = Ok (example_record [1] [[2]] (Some (example_addr 1)))"
    by (simp add: db_root_def example_db_nodes) (simp add: example_db_def)
  show "nb_ok example_db" "env_ok example_env"
    by (simp_all add: nb_ok_def env_ok_def example_env_ok example_db_ok root example_db_nodes example_addr_opt example_has_wallet)
qed

lemma example_agrs_ok: "agrs_ok [example_agr k a, example_agr j b]"
  by (simp add: agrs_ok_def bs_ok_def)

theorem acceptor_safe_witness:
  "\<exists>r db'. acceptor_handle example_env example_db
      [example_agr [8] (Some (example_addr 2)), example_agr [9] None] example_source = Ok (r, db') \<and>
    nb_ok db' \<and> evolves example_db db' \<and> (quiet r \<longrightarrow> db' = example_db)"
  by (rule acceptor_safe) (simp_all add: example_nb_ok example_agrs_ok)

lemma example_standard: "standard_qualifies example_db [example_agr [9] None, example_agr [9] None] example_source = Ok Matched"
  by (simp add: standard_qualifies_def example_nb_ok find_impostor_def)

theorem standard_gossip_panics_iff_witness:
  "\<exists>p. standard_handle example_env example_db [example_agr [9] None, example_agr [9] None] example_source = Err p"
  using standard_gossip_panics_iff [OF example_nb_ok(2, 1) example_agrs_ok example_standard]
  by (simp add: is_new_non_introductory_def db_keys_def hm_keys_def example_db_def)

theorem acceptor_adopts_at_most_one_witness:
  "\<exists>r db' root'. acceptor_handle example_env example_db
      [example_agr [8] (Some (example_addr 2)), example_agr [9] None] example_source = Ok (r, db') \<and>
    db_root db' = Ok root' \<and> (set (half_neighbor_keys root') = {[2]} \<or>
      (\<exists>k. k \<noteq> [2] \<and> set (half_neighbor_keys root') = {k, [2]}))"
proof -
  have ok: "agrs_ok [example_agr [8] (Some (example_addr 2)), example_agr [9] None]"
    by (rule example_agrs_ok)
  obtain r db' where h: "acceptor_handle example_env example_db
      [example_agr [8] (Some (example_addr 2)), example_agr [9] None] example_source = Ok (r, db')"
    using acceptor_handle_Ok [OF example_nb_ok(2, 1) ok, of example_source] by auto
  show ?thesis
    using acceptor_adopts_at_most_one [OF example_nb_ok(2, 1) ok example_nb_ok(3) h] h by auto
qed

end
