(* ===== verification/Routing.thy ===== *)
theory Routing
  imports GossipHandling Route
begin

text \<open>
  The routing engine of \<open>neighborhood/mod.rs\<close>: \<open>complete_routes\<close>, the recursive search for node
  sequences, its tests, and the choice among the sequences found. The search terminates on every
  database; on a proper one it never panics and finds exactly the simple paths of full neighbors
  that a route may take.
\<close>

section \<open>Operations\<close>

datatype route_direction = Over | Back

definition last_key_qualifies :: "node_record \<Rightarrow> public_key option \<Rightarrow> bool" where
  "last_key_qualifies last_node_ref target_key_ref_opt =
     (case target_key_ref_opt of
        Some target_key_ref \<Rightarrow> nr_public_key last_node_ref = target_key_ref
      | None \<Rightarrow> True)"

definition route_length_qualifies :: "nat \<Rightarrow> bool" where
  "route_length_qualifies hops_remaining \<longleftrightarrow> hops_remaining = 0"

definition validate_last_node_not_too_close_to_first_node ::
    "neighborhood_database \<Rightarrow> nat \<Rightarrow> public_key \<Rightarrow> public_key \<Rightarrow> bool" where
  "validate_last_node_not_too_close_to_first_node db prefix_len first_node_key candidate_node_key =
     (if prefix_len \<le> 2 then True else \<not> has_half_neighbor db candidate_node_key first_node_key)"

definition is_orig_node_on_back_leg :: "node_record \<Rightarrow> public_key option \<Rightarrow> route_direction \<Rightarrow> bool" where
  "is_orig_node_on_back_leg node target_key_opt direction =
     (case direction of
        Over \<Rightarrow> False
      | Back \<Rightarrow> (case target_key_opt of
                   None \<Rightarrow> False
                 | Some target_key \<Rightarrow> nr_public_key node = target_key))"

lemma map_run_cong [fundef_cong]:
  "xs = ys \<Longrightarrow> (\<And>x. x \<in> set ys \<Longrightarrow> f x = g x) \<Longrightarrow> map_run f xs = map_run g ys"
proof -
  assume "xs = ys" "\<And>x. x \<in> set ys \<Longrightarrow> f x = g x"
  then show ?thesis
    by (induction ys arbitrary: xs) simp_all
qed

lemma bind_run_cong [fundef_cong]:
  "m = m' \<Longrightarrow> (\<And>x. m' = Inr x \<Longrightarrow> f x = g x) \<Longrightarrow> bind_run m f = bind_run m' g"
  by (cases m') simp_all

function complete_routes ::
    "nb_env \<Rightarrow> neighborhood_database \<Rightarrow> public_key list \<Rightarrow> public_key option \<Rightarrow> nat \<Rightarrow> route_direction \<Rightarrow>
       public_key list list run" where
  "complete_routes env db pref target_opt hops_remaining direction =
     bind_run (expect (first pref)) (\<lambda>first_node_key.
     bind_run (expect (first (rev pref))) (\<lambda>last_node_key.
     bind_run (expect (node_by_key db last_node_key)) (\<lambda>previous_node.
     if route_length_qualifies hops_remaining \<and> last_key_qualifies previous_node target_opt \<and>
        validate_last_node_not_too_close_to_first_node db (length pref) first_node_key (nr_public_key previous_node)
     then Ok [pref]
     else if hops_remaining = 0 \<and> target_opt = None then Ok []
     else
       bind_run (full_neighbors env previous_node db) (\<lambda>neighbors.
       bind_run (map_run (\<lambda>node_record.
           complete_routes env db (pref @ [nr_public_key node_record]) target_opt
             (if hops_remaining = 0 then 0 else hops_remaining - 1) direction)
         (filter (\<lambda>node_record. nri_routes_data (nr_inner node_record) \<or>
              is_orig_node_on_back_leg node_record target_opt direction)
            (filter (\<lambda>node_record. \<not> List.member pref (nr_public_key node_record)) neighbors))) (\<lambda>routes.
       Ok (concat routes))))))"
  by pat_completeness auto

text \<open>Every call either uses up a key of the database or, if the new key is not in it, fails at once.\<close>

definition search_measure :: "neighborhood_database \<Rightarrow> public_key list \<Rightarrow> nat" where
  "search_measure db pref =
     2 * card (set (db_keys db) - set pref) + (if last pref \<in> set (db_keys db) then 1 else 0)"

lemma search_measure_less:
  assumes "first (rev pref) = Some l" "node_by_key db l = Some n" "k \<notin> set pref"
  shows "search_measure db (pref @ [k]) < search_measure db pref"
proof -
  have l: "last pref \<in> set (db_keys db)"
    using assms(1, 2) db_keys_iff [of l db] by (cases pref rule: rev_cases) auto
  show ?thesis
  proof (cases "k \<in> set (db_keys db)")
    case True
    then have "set (db_keys db) - set (pref @ [k]) \<subset> set (db_keys db) - set pref"
      using assms(3) by auto
    then have "card (set (db_keys db) - set (pref @ [k])) < card (set (db_keys db) - set pref)"
      by (intro psubset_card_mono) auto
    then show ?thesis
      using l by (simp add: search_measure_def)
  next
    case False
    then have "set (db_keys db) - set (pref @ [k]) = set (db_keys db) - set pref"
      by auto
    then show ?thesis
      using l False by (simp add: search_measure_def)
  qed
qed

termination complete_routes
  by (relation "measure (\<lambda>(env, db, pref, _). search_measure db pref)")
     (auto simp: expect_eq_Inr intro: search_measure_less)

declare complete_routes.simps [simp del]

definition exit_desirable :: "neighborhood_database \<Rightarrow> public_key list \<Rightarrow> bool option run" where
  "exit_desirable db node_seq =
     (case first (rev node_seq) of
        None \<Rightarrow> Ok None
      | Some pk \<Rightarrow>
          (case node_by_key db pk of
             Some node \<Rightarrow> Ok (Some (desirable (nr_metadata node)))
           | None \<Rightarrow> Err ExplicitPanic))"

text \<open>The stable sort does not call its comparison on fewer than two routes.\<close>

definition sort_routes_by_desirable_exit_nodes ::
    "neighborhood_database \<Rightarrow> public_key list list \<Rightarrow> public_key list list run" where
  "sort_routes_by_desirable_exit_nodes db node_seqs =
     (if node_seqs = [] then Err ExplicitPanic
      else if length node_seqs = 1 then Ok node_seqs
      else if list_ex (\<lambda>s. s = []) node_seqs then Err ExplicitPanic
      else bind_run (map_run (exit_desirable db) node_seqs) (\<lambda>flags.
           Ok (map snd (sort_key (\<lambda>(flag, _). if flag = Some True then 0 else (1 :: nat)) (zip flags node_seqs)))))"

datatype route_query_error =
    CouldNotFindRoutes nat public_key component "public_key option"
  | NoSegmentKeys
  | NoConsumingWallet
  | NoKeysInSegment
  | UnknownNeighbor

definition make_route_segment ::
    "nb_env \<Rightarrow> neighborhood_database \<Rightarrow> public_key \<Rightarrow> public_key option \<Rightarrow> nat \<Rightarrow> component \<Rightarrow> route_direction \<Rightarrow>
       (route_query_error + route_segment) run" where
  "make_route_segment env db origin target minimum_hop_count target_component direction =
     bind_run (complete_routes env db [origin] target minimum_hop_count direction) (\<lambda>node_seqs.
     if node_seqs = []
     then Ok (Err (CouldNotFindRoutes minimum_hop_count origin target_component target))
     else
       bind_run (if target = None then sort_routes_by_desirable_exit_nodes db node_seqs else Ok node_seqs) (\<lambda>sorted.
       bind_run (index sorted 0) (\<lambda>chosen_node_seq.
       Ok (Ok (route_segment_new chosen_node_seq target_component)))))"

section \<open>Which routes there are\<close>

text \<open>A path of full neighbors.\<close>

fun full_path :: "neighborhood_database \<Rightarrow> public_key list \<Rightarrow> bool" where
  "full_path db (a # b # ks) \<longleftrightarrow> has_full_neighbor db a b \<and> full_path db (b # ks)"
| "full_path db _ \<longleftrightarrow> True"

text \<open>A node may be entered if it routes data, or if it is the origin a response returns to.\<close>

definition may_enter :: "neighborhood_database \<Rightarrow> public_key option \<Rightarrow> route_direction \<Rightarrow> public_key \<Rightarrow> bool" where
  "may_enter db target direction k \<longleftrightarrow>
     (\<exists>n. node_by_key db k = Some n \<and>
        (nri_routes_data (nr_inner n) \<or> direction = Back \<and> target = Some k))"

text \<open>The routes that extend a prefix: simple paths of full neighbors over nodes that may be
  entered, with at least the requested number of further hops, or exactly that many when there is
  no target; with a target they end there; and the last node of a route of more than two nodes does
  not have the first one as its neighbor.\<close>

definition routes_from ::
    "neighborhood_database \<Rightarrow> public_key option \<Rightarrow> nat \<Rightarrow> route_direction \<Rightarrow> public_key list \<Rightarrow> public_key list set" where
  "routes_from db target hops direction pref =
     {pref @ q |q. distinct (pref @ q) \<and> full_path db (last pref # q) \<and>
        (\<forall>k \<in> set q. may_enter db target direction k) \<and>
        (case target of None \<Rightarrow> length q = hops | Some t \<Rightarrow> hops \<le> length q \<and> last (pref @ q) = t) \<and>
        (length (pref @ q) \<le> 2 \<or> \<not> has_half_neighbor db (last (pref @ q)) (hd pref))}"

lemma has_full_neighbor_iff:
  assumes "db_ok db" "node_by_key db a = Some n"
  shows "has_full_neighbor db a b \<longleftrightarrow> b \<in> set (full_neighbor_keys n db)"
  using assms db_ok_key [OF assms]
  by (auto simp: has_full_neighbor_def has_half_neighbor_def full_neighbor_keys_mem nr_has_half_neighbor_iff
      split: option.splits)

text \<open>The neighbors that the search goes on with.\<close>

definition next_keys ::
    "nb_env \<Rightarrow> neighborhood_database \<Rightarrow> public_key option \<Rightarrow> route_direction \<Rightarrow> public_key list \<Rightarrow> node_record \<Rightarrow> public_key list" where
  "next_keys env db target direction pref n =
     filter (\<lambda>k. k \<notin> set pref \<and> may_enter db target direction k) (key_order env (full_neighbor_keys n db))"

lemma next_keys_set:
  assumes "db_ok db" "key_order_ok env" "node_by_key db (last pref) = Some n"
  shows "k \<in> set (next_keys env db target direction pref n) \<longleftrightarrow>
    has_full_neighbor db (last pref) k \<and> k \<notin> set pref \<and> may_enter db target direction k"
  using has_full_neighbor_iff [OF assms(1, 3)] assms(2) by (auto simp: next_keys_def key_order_ok_def)

text \<open>One step of the search.\<close>

definition search_done :: "neighborhood_database \<Rightarrow> public_key option \<Rightarrow> nat \<Rightarrow> public_key list \<Rightarrow> bool" where
  "search_done db target hops pref \<longleftrightarrow> hops = 0 \<and> (target = None \<or> target = Some (last pref)) \<and>
     (length pref \<le> 2 \<or> \<not> has_half_neighbor db (last pref) (hd pref))"

lemma complete_routes_step:
  assumes "db_ok db" "key_order_ok env" "pref \<noteq> []" "node_by_key db (last pref) = Some n"
  shows "complete_routes env db pref target hops direction =
    (if search_done db target hops pref then Ok [pref]
     else if hops = 0 \<and> target = None then Ok []
     else bind_run (map_run (\<lambda>k. complete_routes env db (pref @ [k]) target (hops - 1) direction)
       (next_keys env db target direction pref n)) (\<lambda>rs. Ok (concat rs)))"
proof -
  have firsts: "first pref = Some (hd pref)" "first (rev pref) = Some (last pref)"
    using assms(3) by (auto simp: first_def hd_rev split: list.splits)
  have key: "nr_public_key n = last pref"
    by (rule db_ok_key [OF assms(1, 4)])
  have keys: "nr_public_key (the (node_by_key db k)) = k \<and> node_by_key db k \<noteq> None"
    if "k \<in> set (key_order env (full_neighbor_keys n db))" for k
    using that assms(2) db_ok_key [OF assms(1)] by (auto simp: key_order_ok_def full_neighbor_keys_mem)
  have cands: "filter (\<lambda>m. nri_routes_data (nr_inner m) \<or> is_orig_node_on_back_leg m target direction)
      (filter (\<lambda>m. \<not> List.member pref (nr_public_key m))
        (map (\<lambda>k. the (node_by_key db k)) (key_order env (full_neighbor_keys n db)))) =
      map (\<lambda>k. the (node_by_key db k)) (next_keys env db target direction pref n)"
    unfolding next_keys_def filter_map filter_filter comp_def
  proof (intro arg_cong [where f = "map _"] filter_cong refl)
    fix k
    assume "k \<in> set (key_order env (full_neighbor_keys n db))"
    then obtain m where "node_by_key db k = Some m" "nr_public_key m = k"
      using keys by fastforce
    then show "(\<not> List.member pref (nr_public_key (the (node_by_key db k))) \<and>
        (nri_routes_data (nr_inner (the (node_by_key db k))) \<or>
         is_orig_node_on_back_leg (the (node_by_key db k)) target direction)) =
        (k \<notin> set pref \<and> may_enter db target direction k)"
      by (auto simp: may_enter_def is_orig_node_on_back_leg_def split: route_direction.splits option.splits)
  qed
  have same: "map_run (\<lambda>m. complete_routes env db (pref @ [nr_public_key m]) target
        (if hops = 0 then 0 else hops - 1) direction)
      (map (\<lambda>k. the (node_by_key db k)) (next_keys env db target direction pref n)) =
      map_run (\<lambda>k. complete_routes env db (pref @ [k]) target (hops - 1) direction)
        (next_keys env db target direction pref n)"
    unfolding map_run_map using keys
    by (intro map_run_cong refl) (auto simp: next_keys_def)
  have done_iff: "(route_length_qualifies hops \<and> last_key_qualifies n target \<and>
      validate_last_node_not_too_close_to_first_node db (length pref) (hd pref) (nr_public_key n)) =
      search_done db target hops pref"
    by (auto simp: key search_done_def route_length_qualifies_def last_key_qualifies_def
        validate_last_node_not_too_close_to_first_node_def split: option.split)
  show ?thesis
    by (subst complete_routes.simps)
       (simp only: firsts expect_simps bind_run_simps assms(4) done_iff full_neighbors_Ok [OF assms(2)] cands same)
qed

lemma map_run_union:
  assumes "\<And>x. x \<in> set xs \<Longrightarrow> \<exists>ys. f x = Inr ys \<and> set ys = R x"
  shows "\<exists>yss. map_run f xs = Inr yss \<and> set (concat yss) = (\<Union>x \<in> set xs. R x)"
  using assms
proof (induction xs)
  case (Cons x xs)
  then obtain ys yss where "f x = Inr ys" "set ys = R x" "map_run f xs = Inr yss"
    "set (concat yss) = (\<Union>x \<in> set xs. R x)"
    by (metis list.set_intros(1) list.set_intros(2))
  then show ?case
    by simp
qed simp

text \<open>How the routes that extend a prefix arise from those that extend it by one node.\<close>

lemma routes_from_done:
  assumes "search_done db target hops pref" "distinct pref" "pref \<noteq> []"
  shows "routes_from db target hops direction pref = {pref}"
proof -
  have "q = []" if "distinct (pref @ q)"
    "case target of None \<Rightarrow> length q = hops | Some t \<Rightarrow> hops \<le> length q \<and> last (pref @ q) = t" for q
  proof (cases target)
    case None
    with that assms(1) show ?thesis
      by (simp add: search_done_def)
  next
    case (Some t)
    then have "last pref = last (pref @ q)"
      using that(2) assms(1) by (simp add: search_done_def)
    then show ?thesis
      using that(1) assms(3) by (cases "q = []") (auto dest: last_in_set)
  qed
  then have "routes_from db target hops direction pref \<subseteq> {pref}"
    unfolding routes_from_def by blast
  moreover have "pref \<in> routes_from db target hops direction pref"
    unfolding routes_from_def using assms
    by (auto simp: search_done_def intro!: exI [of _ "[]"])
  ultimately show ?thesis
    by blast
qed

lemma routes_from_exhausted:
  "\<not> search_done db None 0 pref \<Longrightarrow> routes_from db None 0 direction pref = {}"
  by (auto simp: routes_from_def search_done_def)

lemma routes_from_step:
  assumes "\<not> search_done db target hops pref" "\<not> (hops = 0 \<and> target = None)" "pref \<noteq> []"
  shows "routes_from db target hops direction pref =
    (\<Union>k \<in> {k. has_full_neighbor db (last pref) k \<and> k \<notin> set pref \<and> may_enter db target direction k}.
       routes_from db target (hops - 1) direction (pref @ [k]))"
    (is "?L = (\<Union>k \<in> ?K. ?R k)")
proof (intro equalityI subsetI)
  fix p
  assume "p \<in> ?L"
  then obtain q where q: "p = pref @ q" "distinct (pref @ q)" "full_path db (last pref # q)"
    "\<forall>k \<in> set q. may_enter db target direction k"
    "case target of None \<Rightarrow> length q = hops | Some t \<Rightarrow> hops \<le> length q \<and> last (pref @ q) = t"
    "length (pref @ q) \<le> 2 \<or> \<not> has_half_neighbor db (last (pref @ q)) (hd pref)"
    unfolding routes_from_def by blast
  have "q \<noteq> []"
    using q(5, 6) assms(1) by (auto simp: search_done_def split: option.splits)
  then obtain k r where r: "q = k # r"
    by (cases q) auto
  have "k \<in> ?K"
    using q r by simp
  moreover have "p \<in> ?R k"
    unfolding routes_from_def using q r assms(2, 3)
    by (auto simp: hd_append intro!: exI [of _ r] split: option.splits)
  ultimately show "p \<in> (\<Union>k \<in> ?K. ?R k)"
    by blast
next
  fix p
  assume "p \<in> (\<Union>k \<in> ?K. ?R k)"
  then obtain k where k: "k \<in> ?K" "p \<in> ?R k"
    by blast
  then obtain r where r: "p = (pref @ [k]) @ r" "distinct ((pref @ [k]) @ r)" "full_path db (last (pref @ [k]) # r)"
    "\<forall>k \<in> set r. may_enter db target direction k"
    "case target of None \<Rightarrow> length r = hops - 1 | Some t \<Rightarrow> hops - 1 \<le> length r \<and> last ((pref @ [k]) @ r) = t"
    "length ((pref @ [k]) @ r) \<le> 2 \<or> \<not> has_half_neighbor db (last ((pref @ [k]) @ r)) (hd (pref @ [k]))"
    unfolding routes_from_def by blast
  show "p \<in> ?L"
    unfolding routes_from_def using k(1) r assms(2, 3)
    by (auto simp: hd_append intro!: exI [of _ "k # r"] split: option.splits)
qed

lemma complete_routes_finds:
  assumes "db_ok db" "key_order_ok env"
  shows "pref \<noteq> [] \<Longrightarrow> distinct pref \<Longrightarrow> node_by_key db (last pref) \<noteq> None \<Longrightarrow>
    \<exists>rs. complete_routes env db pref target hops direction = Ok rs \<and>
      set rs = routes_from db target hops direction pref"
proof (induction "search_measure db pref" arbitrary: pref hops rule: less_induct)
  case less
  then obtain n where n: "node_by_key db (last pref) = Some n"
    by blast
  note step = complete_routes_step [OF assms less.prems(1) n, of target hops direction]
  consider "search_done db target hops pref"
    | "\<not> search_done db target hops pref" "hops = 0 \<and> target = None"
    | "\<not> search_done db target hops pref" "\<not> (hops = 0 \<and> target = None)"
    by blast
  then show ?case
  proof cases
    case 1
    then show ?thesis
      using step routes_from_done [OF 1 less.prems(2, 1)] by simp
  next
    case 2
    then show ?thesis
      using step routes_from_exhausted [of db pref direction] by simp
  next
    case 3
    define ks where "ks = next_keys env db target direction pref n"
    have each: "\<exists>rs. complete_routes env db (pref @ [k]) target (hops - 1) direction = Ok rs \<and>
        set rs = routes_from db target (hops - 1) direction (pref @ [k])" if "k \<in> set ks" for k
    proof (rule less.hyps)
      have k: "k \<notin> set pref" "may_enter db target direction k"
        using that next_keys_set [OF assms n] by (auto simp: ks_def)
      have "first (rev pref) = Some (last pref)"
        using less.prems(1) by (auto simp: first_def hd_rev split: list.splits)
      then show "search_measure db (pref @ [k]) < search_measure db pref"
        using n k(1) by (rule search_measure_less)
      show "distinct (pref @ [k])" "node_by_key db (last (pref @ [k])) \<noteq> None"
        using less.prems k by (auto simp: may_enter_def)
    qed simp
    obtain rss where "map_run (\<lambda>k. complete_routes env db (pref @ [k]) target (hops - 1) direction) ks = Inr rss"
      "set (concat rss) = (\<Union>k \<in> set ks. routes_from db target (hops - 1) direction (pref @ [k]))"
      using map_run_union [of ks "\<lambda>k. complete_routes env db (pref @ [k]) target (hops - 1) direction"
          "\<lambda>k. routes_from db target (hops - 1) direction (pref @ [k])", OF each] by blast
    moreover have "set ks = {k. has_full_neighbor db (last pref) k \<and> k \<notin> set pref \<and> may_enter db target direction k}"
      using next_keys_set [OF assms n] by (auto simp: ks_def)
    moreover have "complete_routes env db pref target hops direction =
        bind_run (map_run (\<lambda>k. complete_routes env db (pref @ [k]) target (hops - 1) direction) ks) (\<lambda>rs. Ok (concat rs))"
      by (simp only: step 3 if_False ks_def)
    ultimately show ?thesis
      using routes_from_step [OF 3 less.prems(1), of direction] by simp
  qed
qed

lemma complete_routes_Ok:
  assumes "db_ok db" "key_order_ok env" "node_by_key db origin \<noteq> None"
  obtains rs where "complete_routes env db [origin] target hops direction = Ok rs"
    "set rs = routes_from db target hops direction [origin]"
  using complete_routes_finds [OF assms(1, 2), of "[origin]" target hops direction] assms(3) by auto

lemma routes_from_ends:
  assumes "p \<in> routes_from db target hops direction [origin]"
  shows "p \<noteq> []" "hd p = origin" "distinct p" "full_path db p"
    "\<And>k. k \<in> set (tl p) \<Longrightarrow> may_enter db target direction k"
    "\<And>t. target = Some t \<Longrightarrow> last p = t"
  using assms by (auto simp: routes_from_def)

text \<open>Choosing a segment.\<close>

lemma sorted_routes:
  assumes "node_seqs \<noteq> []" "\<And>s. s \<in> set node_seqs \<Longrightarrow> s \<noteq> [] \<and> node_by_key db (last s) \<noteq> None"
  shows "\<exists>s rest. sort_routes_by_desirable_exit_nodes db node_seqs = Ok (s # rest) \<and> s \<in> set node_seqs \<and>
    (\<forall>s' \<in> set node_seqs. desirable (nr_metadata (the (node_by_key db (last s')))) \<longrightarrow>
       desirable (nr_metadata (the (node_by_key db (last s)))))"
proof (cases "length node_seqs = 1")
  case True
  then show ?thesis
    by (auto simp: sort_routes_by_desirable_exit_nodes_def length_Suc_conv)
next
  case False
  define flag where "flag = (\<lambda>s. desirable (nr_metadata (the (node_by_key db (last s)))))"
  define ranked where "ranked = sort_key (\<lambda>(fl, _). if fl = Some True then 0 else (1 :: nat))
      (zip (map (\<lambda>s. Some (flag s)) node_seqs) node_seqs)"
  have "exit_desirable db s = Ok (Some (flag s))" if "s \<in> set node_seqs" for s
    using assms(2) [OF that] by (auto simp: exit_desirable_def flag_def first_def hd_rev split: list.splits option.splits)
  then have "map_run (exit_desirable db) node_seqs = Ok (map (\<lambda>s. Some (flag s)) node_seqs)"
    by (rule map_run_total)
  moreover have "\<not> list_ex (\<lambda>s. s = []) node_seqs"
    using assms(2) by (auto simp: list_ex_iff)
  ultimately have eq: "sort_routes_by_desirable_exit_nodes db node_seqs = Ok (map snd ranked)"
    using False assms(1) by (simp add: sort_routes_by_desirable_exit_nodes_def ranked_def)
  have members: "set ranked = (\<lambda>s. (Some (flag s), s)) ` set node_seqs"
    by (auto simp: ranked_def zip_map1 zip_same_conv_map)
  then obtain s rest where s: "ranked = (Some (flag s), s) # rest" "s \<in> set node_seqs"
    using assms(1) by (cases ranked) auto
  have "sorted (map (\<lambda>(fl, _). if fl = Some True then 0 else (1 :: nat)) ranked)"
    by (simp add: ranked_def)
  then have least: "(if flag s then 0 else (1 :: nat)) \<le> (case x of (fl, _) \<Rightarrow> if fl = Some True then 0 else 1)"
    if "x \<in> set ranked" for x
    using that by (simp add: s(1)) (cases "flag s"; auto)
  have "flag s" if "s' \<in> set node_seqs" "flag s'" for s'
    using least [of "(Some (flag s'), s')"] that members by (simp split: if_splits)
  then show ?thesis
    using eq s by (auto simp: flag_def)
qed

lemma make_route_segment_Ok:
  assumes "db_ok db" "key_order_ok env" "node_by_key db origin \<noteq> None"
  shows "if routes_from db target hops direction [origin] = {}
    then make_route_segment env db origin target hops cmp direction = Ok (Err (CouldNotFindRoutes hops origin cmp target))
    else \<exists>p. make_route_segment env db origin target hops cmp direction = Ok (Ok (route_segment_new p cmp)) \<and>
      p \<in> routes_from db target hops direction [origin] \<and>
      (target = None \<longrightarrow> (\<forall>p' \<in> routes_from db target hops direction [origin].
         desirable (nr_metadata (the (node_by_key db (last p')))) \<longrightarrow>
         desirable (nr_metadata (the (node_by_key db (last p))))))"
proof -
  obtain rs where rs: "complete_routes env db [origin] target hops direction = Ok rs"
    "set rs = routes_from db target hops direction [origin]"
    using complete_routes_Ok [OF assms] by metis
  have present: "s \<noteq> [] \<and> node_by_key db (last s) \<noteq> None" if "s \<in> set rs" for s
  proof -
    have s: "s \<noteq> []" "hd s = origin" "\<And>k. k \<in> set (tl s) \<Longrightarrow> may_enter db target direction k"
      using routes_from_ends [of s db target hops direction origin] that rs(2) by simp_all
    then have "last s = origin \<or> last s \<in> set (tl s)"
      by (cases s) auto
    with s assms(3) show ?thesis
      by (auto simp: may_enter_def)
  qed
  show ?thesis
  proof (cases "rs = []")
    case True
    then show ?thesis
      using rs by (simp add: make_route_segment_def)
  next
    case False
    have "\<exists>s rest. (if target = None then sort_routes_by_desirable_exit_nodes db rs else Ok rs) = Ok (s # rest) \<and>
        s \<in> set rs \<and> (target = None \<longrightarrow> (\<forall>s' \<in> set rs. desirable (nr_metadata (the (node_by_key db (last s')))) \<longrightarrow>
          desirable (nr_metadata (the (node_by_key db (last s))))))"
      using sorted_routes [OF False present] False by (cases "target = None"; cases rs) auto
    then show ?thesis
      using False rs by (auto simp: make_route_segment_def index_def)
  qed
qed

section \<open>Properties\<close>

text \<open>C11. The routing engine finds exactly the right routes: on a proper neighborhood database the
  recursive search terminates without panic, and the node sequences it returns are exactly the
  simple paths of mutual neighbors from the origin over nodes that route data (a response may also
  end at its own origin) that have the requested number of hops, or at least that many and end at
  the target if one is given, and whose last node, beyond one hop, is not a neighbor of the first.\<close>

theorem complete_routes_exact:
  assumes "db_ok db" "key_order_ok env" "node_by_key db origin \<noteq> None"
  shows "\<exists>rs. complete_routes env db [origin] target hops direction = Ok rs \<and>
    set rs = {p. p \<noteq> [] \<and> hd p = origin \<and> distinct p \<and> full_path db p \<and>
      (\<forall>k \<in> set (tl p). may_enter db target direction k) \<and>
      (case target of None \<Rightarrow> length p = hops + 1 | Some t \<Rightarrow> hops + 1 \<le> length p \<and> last p = t) \<and>
      (length p \<le> 2 \<or> \<not> has_half_neighbor db (last p) origin)}"
    (is "\<exists>rs. _ \<and> set rs = ?P")
proof -
  have "?P = routes_from db target hops direction [origin]"
  proof (intro equalityI subsetI)
    fix p
    assume "p \<in> ?P"
    then obtain q where "p = [origin] @ q"
      by (cases p) auto
    with \<open>p \<in> ?P\<close> show "p \<in> routes_from db target hops direction [origin]"
      unfolding routes_from_def by (intro CollectI exI [of _ q]) (auto split: option.splits)
  next
    fix p
    assume "p \<in> routes_from db target hops direction [origin]"
    then show "p \<in> ?P"
      unfolding routes_from_def by (auto split: option.splits)
  qed
  then show ?thesis
    using complete_routes_Ok [OF assms] by metis
qed

text \<open>Two hops from node 1 of the example database lead to node 3.\<close>

theorem complete_routes_exact_witness:
  "\<exists>rs. complete_routes example_env example_db [[1]] None 2 Over = Ok rs \<and> [[1], [2], [3]] \<in> set rs"
proof -
  have full: "has_full_neighbor example_db [1] [2]" "has_full_neighbor example_db [2] [3]"
    "\<not> has_half_neighbor example_db [3] [1]"
    by (simp_all add: has_full_neighbor_def has_half_neighbor_def example_db_nodes nr_has_half_neighbor_iff)
  have "may_enter example_db None Over [2]" "may_enter example_db None Over [3]"
    by (simp_all add: may_enter_def example_db_nodes) (simp_all add: example_record_def)
  moreover have "node_by_key example_db [1] \<noteq> None"
    by (simp add: example_db_nodes)
  ultimately show ?thesis
    using complete_routes_exact [OF example_db_ok example_env_ok(2), of "[1]" None 2 Over] full by auto
qed

end
