(* ===== verification/NeighborhoodActor.thy ===== *)
theory NeighborhoodActor
  imports Routing ExampleCodecs
begin

text \<open>
  The neighborhood actor of \<open>neighborhood/mod.rs\<close> with the messages of \<open>sub_lib/neighborhood.rs\<close>:
  its state, its construction, one definition per message handler, and the functions the handlers
  share. Each handler returns the packages it sends, in order, and the new state; a panic is an
  \<open>Inl\<close>. A mailbox accepts every message. Logging is left out, and with it the DOT rendering of
  gossip and of the database.
\<close>

section \<open>Messages\<close>

record node_query_response_metadata =
  nq_public_key :: public_key
  nq_node_addr_opt :: "node_addr option"
  nq_rate_pack :: rate_pack

datatype node_query_message = ByIpAddress ip_addr | ByPublicKey public_key

record dispatcher_node_query_response =
  dq_result :: "node_query_response_metadata option"
  dq_context :: transmit_data_msg

record route_query_message =
  target_key_opt :: "public_key option"
  target_component :: component
  minimum_hop_count :: nat
  return_component_opt :: "component option"

definition data_indefinite_route_request :: "nat \<Rightarrow> route_query_message" where
  "data_indefinite_route_request hops =
     \<lparr> target_key_opt = None, target_component = ProxyClient, minimum_hop_count = hops,
       return_component_opt = Some ProxyServer \<rparr>"

record route_query_response =
  rqr_route :: route
  rqr_expected_services :: expected_services

record non_clandestine_attributes =
  nca_reception_port :: u16
  nca_sequence_number :: u64

datatype removed_stream_type = Clandestine | NonClandestine non_clandestine_attributes

record stream_shutdown_msg =
  ssm_peer_addr :: socket_addr
  ssm_stream_type :: removed_stream_type
  report_to_counterpart :: bool

datatype neighborhood_output =
    SendPackage incipient_cores_package
  | SendNoLookup no_lookup_incipient_cores_package

section \<open>State\<close>

text \<open>The libraries: node records are serialized with the first, packages with the second.\<close>

record actor_env =
  ae_records :: nb_env
  ae_cores :: cores_env

abbreviation ae_cryptde :: "actor_env \<Rightarrow> cryptde" where
  "ae_cryptde env \<equiv> env_cryptde (ae_records env)"

record neighborhood =
  hopper_bound :: bool
  hopper_no_lookup_bound :: bool
  nh_database :: neighborhood_database
  consuming_wallet_opt :: "wallet option"
  next_return_route_id :: u32
  initial_neighbors :: "string list"
  nh_chain_id :: u8

definition neighborhood_new ::
    "actor_env \<Rightarrow> neighborhood_mode \<Rightarrow> wallet \<Rightarrow> wallet option \<Rightarrow> u8 \<Rightarrow> neighborhood run" where
  "neighborhood_new env mode earning_wallet consuming_wallet chain_id =
     (if is_zero_hop mode \<and> neighbor_configs mode \<noteq> [] then Err ExplicitPanic
      else bind_run (database_new (ae_records env) (cd_public_key (ae_cryptde env)) mode earning_wallet) (\<lambda>db.
           Ok \<lparr> hopper_bound = False, hopper_no_lookup_bound = False, nh_database = db,
                consuming_wallet_opt = consuming_wallet, next_return_route_id = 0,
                initial_neighbors = neighbor_configs mode, nh_chain_id = chain_id \<rparr>))"

definition neighborhood_bind :: "neighborhood \<Rightarrow> neighborhood" where
  "neighborhood_bind self = self\<lparr> hopper_bound := True, hopper_no_lookup_bound := True \<rparr>"

definition handle_set_consuming_wallet :: "wallet \<Rightarrow> neighborhood \<Rightarrow> neighborhood" where
  "handle_set_consuming_wallet wallet self = self\<lparr> consuming_wallet_opt := Some wallet \<rparr>"

section \<open>Starting\<close>

definition debut_to ::
    "actor_env \<Rightarrow> neighborhood \<Rightarrow> gossip \<Rightarrow> string \<Rightarrow> neighborhood_output run" where
  "debut_to env self gossip neighbor =
     bind_run (node_descriptor_from_str (ae_cryptde env) neighbor (nh_chain_id self)) (\<lambda>parsed.
     case parsed of
       Inl _ \<Rightarrow> Err ExplicitPanic
     | Inr node_descriptor \<Rightarrow>
         (case nd_node_addr_opt node_descriptor of
            None \<Rightarrow> Err ExplicitPanic
          | Some node_addr \<Rightarrow>
              if \<not> hopper_no_lookup_bound self then Err ExpectFailed
              else case no_lookup_new (ae_cores env) (ae_cryptde env) (nd_public_key node_descriptor) node_addr
                          (GossipMessage gossip) of
                     Inl _ \<Rightarrow> Err ExpectFailed
                   | Inr package \<Rightarrow> Ok (SendNoLookup package)))"

definition handle_start :: "actor_env \<Rightarrow> neighborhood \<Rightarrow> neighborhood_output list run" where
  "handle_start env self =
     (if initial_neighbors self = [] then Ok []
      else bind_run (produce_debut (nh_database self)) (\<lambda>gossip.
           map_run (debut_to env self gossip) (initial_neighbors self)))"

section \<open>Queries\<close>

definition node_query_lookup :: "neighborhood_database \<Rightarrow> node_query_message \<Rightarrow> node_record option" where
  "node_query_lookup db query =
     (case query of
        ByIpAddress ip_addr \<Rightarrow> node_by_ip db ip_addr
      | ByPublicKey key \<Rightarrow> node_by_key db key)"

definition handle_node_query :: "neighborhood \<Rightarrow> node_query_message \<Rightarrow> node_query_response_metadata option" where
  "handle_node_query self msg =
     (case node_query_lookup (nh_database self) msg of
        Some node_record_ref \<Rightarrow>
          Some \<lparr> nq_public_key = nr_public_key node_record_ref,
                 nq_node_addr_opt = map_option node_addr_clone (nr_node_addr_opt node_record_ref),
                 nq_rate_pack = nri_rate_pack (nr_inner node_record_ref) \<rparr>
      | None \<Rightarrow> None)"

definition handle_dispatcher_node_query ::
    "neighborhood \<Rightarrow> node_query_message \<Rightarrow> transmit_data_msg \<Rightarrow> dispatcher_node_query_response" where
  "handle_dispatcher_node_query self query context' =
     (let node_descriptor =
        (case node_query_lookup (nh_database self) query of
           Some node_record_ref \<Rightarrow>
             Some \<lparr> nq_public_key = nr_public_key node_record_ref,
                    nq_node_addr_opt = map_option node_addr_clone (nr_node_addr_opt node_record_ref),
                    nq_rate_pack = nri_rate_pack (nr_inner node_record_ref) \<rparr>
         | None \<Rightarrow> None)
      in \<lparr> dq_result = node_descriptor, dq_context = context' \<rparr>)"

section \<open>Routes\<close>

definition advance_return_route_id :: "neighborhood \<Rightarrow> u32 \<times> neighborhood" where
  "advance_return_route_id self =
     (let return_route_id = next_return_route_id self
      in (return_route_id, self\<lparr> next_return_route_id := return_route_id + 1 \<rparr>))"

definition calculate_expected_service ::
    "neighborhood \<Rightarrow> public_key \<Rightarrow> public_key option \<Rightarrow> public_key option \<Rightarrow>
       (route_query_error + expected_service) run" where
  "calculate_expected_service self route_segment_key originator_key exit_key =
     (case node_by_key (nh_database self) route_segment_key of
        Some node \<Rightarrow>
          bind_run (db_root (nh_database self)) (\<lambda>root.
          Ok (if route_segment_key = nr_public_key root then Ok Nothing
              else case (originator_key, exit_key) of
                     (Some originator, Some exit) \<Rightarrow>
                       if route_segment_key = originator \<or> route_segment_key = exit
                       then Ok (Exit route_segment_key (nri_earning_wallet (nr_inner node)) (nri_rate_pack (nr_inner node)))
                       else Ok (Routing route_segment_key (nri_earning_wallet (nr_inner node)) (nri_rate_pack (nr_inner node)))
                   | _ \<Rightarrow> Err NoKeysInSegment))
      | None \<Rightarrow> Ok (Err UnknownNeighbor))"

text \<open>\<open>collect\<close> stops at the first error.\<close>

fun collect_services ::
    "neighborhood \<Rightarrow> public_key option \<Rightarrow> public_key option \<Rightarrow> public_key list \<Rightarrow>
       (route_query_error + expected_service list) run" where
  "collect_services self originator_key exit_key [] = Ok (Ok [])"
| "collect_services self originator_key exit_key (key # keys) =
     bind_run (calculate_expected_service self key originator_key exit_key) (\<lambda>result.
     case result of
       Inl e \<Rightarrow> Ok (Err e)
     | Inr service \<Rightarrow>
         bind_run (collect_services self originator_key exit_key keys) (\<lambda>rest.
         Ok (case rest of Inl e \<Rightarrow> Err e | Inr services \<Rightarrow> Ok (service # services))))"

definition make_expected_services ::
    "neighborhood \<Rightarrow> route_segment \<Rightarrow> (route_query_error + expected_service list) run" where
  "make_expected_services self segment =
     collect_services self (first (seg_keys segment)) (first (rev (seg_keys segment))) (seg_keys segment)"

definition zero_hop_route_response :: "actor_env \<Rightarrow> neighborhood \<Rightarrow> (route_query_response \<times> neighborhood) run" where
  "zero_hop_route_response env self =
     (let (return_route_id, self') = advance_return_route_id self;
          key = cd_public_key (ae_cryptde env)
      in bind_run (round_trip (ce_route (ae_cores env)) (route_segment_new [key, key] ProxyClient)
           (route_segment_new [key, key] ProxyServer) (ae_cryptde env) None return_route_id None) (\<lambda>result.
         case result of
           Inl _ \<Rightarrow> Err ExpectFailed
         | Inr route \<Rightarrow>
             Ok (\<lparr> rqr_route = route,
                   rqr_expected_services = RoundTrip [Nothing, Nothing] [Nothing, Nothing] return_route_id \<rparr>, self')))"

definition compose_route_query_response ::
    "actor_env \<Rightarrow> neighborhood \<Rightarrow> route_segment \<Rightarrow> route_segment \<Rightarrow>
       ((route_query_error + route_query_response) \<times> neighborhood) run" where
  "compose_route_query_response env self over bk =
     (if list_ex (\<lambda>rs. seg_keys rs = []) [over, bk] then Ok (Err NoSegmentKeys, self)
      else
        let has_long_segment = list_ex (\<lambda>segment. length (seg_keys segment) > 2) [over, bk]
        in if consuming_wallet_opt self = None \<and> has_long_segment then Ok (Err NoConsumingWallet, self)
        else
          bind_run (make_expected_services self over) (\<lambda>request_services.
          case request_services of
            Inl e \<Rightarrow> Ok (Err e, self)
          | Inr expected_request_services \<Rightarrow>
              bind_run (make_expected_services self bk) (\<lambda>response_services.
              case response_services of
                Inl e \<Rightarrow> Ok (Err e, self)
              | Inr expected_response_services \<Rightarrow>
                  let (return_route_id, self') = advance_return_route_id self
                  in bind_run (round_trip (ce_route (ae_cores env)) over bk (ae_cryptde env)
                       (consuming_wallet_opt self') return_route_id (Some (contract_address (nh_chain_id self')))) (\<lambda>result.
                     case result of
                       Inl _ \<Rightarrow> Err ExpectFailed
                     | Inr route \<Rightarrow>
                         Ok (Ok \<lparr> rqr_route = route,
                                  rqr_expected_services = RoundTrip expected_request_services
                                    expected_response_services return_route_id \<rparr>, self')))))"

definition make_round_trip_route ::
    "actor_env \<Rightarrow> neighborhood \<Rightarrow> route_query_message \<Rightarrow>
       ((route_query_error + route_query_response) \<times> neighborhood) run" where
  "make_round_trip_route env self msg =
     (let db = nh_database self; me = cd_public_key (ae_cryptde env)
      in bind_run (make_route_segment (ae_records env) db me (target_key_opt msg) (minimum_hop_count msg)
           (target_component msg) Over) (\<lambda>over_result.
         case over_result of
           Inl e \<Rightarrow> Ok (Err e, self)
         | Inr over \<Rightarrow>
             bind_run (expect (first (rev (seg_keys over)))) (\<lambda>exit_key.
             bind_run (expect (return_component_opt msg)) (\<lambda>return_component.
             bind_run (make_route_segment (ae_records env) db exit_key (Some me) (minimum_hop_count msg)
                 return_component Back) (\<lambda>back_result.
             case back_result of
               Inl e \<Rightarrow> Ok (Err e, self)
             | Inr bk \<Rightarrow> compose_route_query_response env self over bk)))))"

definition handle_route_query ::
    "actor_env \<Rightarrow> neighborhood \<Rightarrow> route_query_message \<Rightarrow> (route_query_response option \<times> neighborhood) run" where
  "handle_route_query env self msg =
     bind_run (if minimum_hop_count msg = 0
               then bind_run (zero_hop_route_response env self) (\<lambda>(response, self'). Ok (Ok response, self'))
               else make_round_trip_route env self msg) (\<lambda>(result, self').
     Ok (case result of Inr response \<Rightarrow> (Some response, self') | Inl _ \<Rightarrow> (None, self')))"

section \<open>Gossip\<close>

definition create_single_hop_route :: "actor_env \<Rightarrow> public_key \<Rightarrow> route run" where
  "create_single_hop_route env destination =
     bind_run (one_way (ce_route (ae_cores env))
         (route_segment_new [cd_public_key (ae_cryptde env), destination] Neighborhood)
         (ae_cryptde env) None None) (\<lambda>result.
     case result of Inl _ \<Rightarrow> Err ExpectFailed | Inr route \<Rightarrow> Ok route)"

definition gossip_to_neighbor :: "actor_env \<Rightarrow> neighborhood \<Rightarrow> public_key \<Rightarrow> neighborhood_output run" where
  "gossip_to_neighbor env self neighbor =
     bind_run (produce (ae_records env) (nh_database self) neighbor) (\<lambda>gossip.
     bind_run (create_single_hop_route env neighbor) (\<lambda>route.
     case incipient_new (ae_cores env) (ae_cryptde env) route (GossipMessage gossip) neighbor of
       Inl _ \<Rightarrow> Err ExpectFailed
     | Inr package \<Rightarrow> if hopper_bound self then Ok (SendPackage package) else Err ExpectFailed))"

definition gossip_to_neighbors :: "actor_env \<Rightarrow> neighborhood \<Rightarrow> (neighborhood_output list \<times> neighborhood) run" where
  "gossip_to_neighbors env self =
     bind_run (root_mut (nr_regenerate_signed_gossip (ae_records env)) (nh_database self)) (\<lambda>db.
     let self' = self\<lparr> nh_database := db \<rparr>
     in bind_run (db_root db) (\<lambda>root.
        bind_run (map_run (gossip_to_neighbor env self') (key_order (ae_records env) (half_neighbor_keys root))) (\<lambda>outs.
        Ok (outs, self'))))"

definition send_gossip ::
    "actor_env \<Rightarrow> neighborhood \<Rightarrow> gossip \<Rightarrow> public_key \<Rightarrow> node_addr \<Rightarrow> neighborhood_output list run" where
  "send_gossip env self gossip target_key target_node_addr =
     (case no_lookup_new (ae_cores env) (ae_cryptde env) target_key target_node_addr (GossipMessage gossip) of
        Inl _ \<Rightarrow> Ok []
      | Inr package \<Rightarrow>
          if hopper_no_lookup_bound self then Ok [SendNoLookup package] else Err ExpectFailed)"

definition handle_gossip_reply ::
    "actor_env \<Rightarrow> neighborhood \<Rightarrow> gossip \<Rightarrow> public_key \<Rightarrow> node_addr \<Rightarrow> neighborhood_output list run" where
  "handle_gossip_reply env self next_debut_gossip relay_target relay_node_addr =
     send_gossip env self next_debut_gossip relay_target relay_node_addr"

definition handle_agrs ::
    "actor_env \<Rightarrow> neighborhood \<Rightarrow> agrs \<Rightarrow> socket_addr \<Rightarrow> (neighborhood_output list \<times> neighborhood) run" where
  "handle_agrs env self agrs gossip_source =
     bind_run (acceptor_handle (ae_records env) (nh_database self) agrs gossip_source) (\<lambda>(result, db).
     let self' = self\<lparr> nh_database := db \<rparr>
     in case result of
          Accepted \<Rightarrow> gossip_to_neighbors env self'
        | Reply next_debut relay_target relay_node_addr \<Rightarrow>
            bind_run (handle_gossip_reply env self' next_debut relay_target relay_node_addr) (\<lambda>outs.
            Ok (outs, self'))
        | Ignored \<Rightarrow> Ok ([], self')
        | Ban _ \<Rightarrow> Ok ([], self'))"

definition signature_invalid :: "actor_env \<Rightarrow> accessible_gossip_record \<Rightarrow> bool run" where
  "signature_invalid env agr =
     bind_run (cd_verify_signature (ae_cryptde env) (agr_signed_gossip agr) (agr_signature agr) (agr_key agr)) (\<lambda>valid.
     Ok (\<not> valid))"

definition handle_gossip ::
    "actor_env \<Rightarrow> neighborhood \<Rightarrow> gossip \<Rightarrow> socket_addr \<Rightarrow> (neighborhood_output list \<times> neighborhood) run" where
  "handle_gossip env self incoming_gossip gossip_source =
     (let record_count = length (node_records incoming_gossip);
          agrs = List.map_filter (\<lambda>gnr. case agr_try_from (ae_records env) gnr of Inr agr \<Rightarrow> Some agr | Inl _ \<Rightarrow> None)
            (node_records incoming_gossip)
      in if length agrs < record_count then Ok ([], self)
         else bind_run (find_run (signature_invalid env) agrs) (\<lambda>invalid.
              if invalid \<noteq> None then Ok ([], self)
              else handle_agrs env self agrs gossip_source))"

section \<open>Losing a neighbor, and the user's preferences\<close>

definition handle_remove_neighbor ::
    "actor_env \<Rightarrow> neighborhood \<Rightarrow> public_key \<Rightarrow> (neighborhood_output list \<times> neighborhood) run" where
  "handle_remove_neighbor env self public_key =
     bind_run (db_remove_neighbor public_key (nh_database self)) (\<lambda>(result, db).
     let self' = self\<lparr> nh_database := db \<rparr>
     in case result of
          Inl _ \<Rightarrow> Ok ([], self')
        | Inr db_changed \<Rightarrow> if db_changed then gossip_to_neighbors env self' else Ok ([], self'))"

definition handle_node_record_metadata :: "public_key \<Rightarrow> bool \<Rightarrow> neighborhood \<Rightarrow> neighborhood" where
  "handle_node_record_metadata public_key flag self =
     self\<lparr> nh_database := node_by_key_mut public_key (set_desirable flag) (nh_database self) \<rparr>"

definition nh_remove_neighbor ::
    "actor_env \<Rightarrow> neighborhood \<Rightarrow> public_key \<Rightarrow> (neighborhood_output list \<times> neighborhood) run" where
  "nh_remove_neighbor env self neighbor_key =
     bind_run (db_remove_neighbor neighbor_key (nh_database self)) (\<lambda>(result, db).
     let self' = self\<lparr> nh_database := db \<rparr>
     in case result of
          Inl _ \<Rightarrow> Err ExplicitPanic
        | Inr db_changed \<Rightarrow> if db_changed then gossip_to_neighbors env self' else Ok ([], self'))"

definition handle_stream_shutdown_msg ::
    "actor_env \<Rightarrow> neighborhood \<Rightarrow> stream_shutdown_msg \<Rightarrow> (neighborhood_output list \<times> neighborhood) run" where
  "handle_stream_shutdown_msg env self msg =
     (if ssm_stream_type msg \<noteq> Clandestine then Err ExplicitPanic
      else case node_by_ip (nh_database self) (ip (ssm_peer_addr msg)) of
             None \<Rightarrow> Ok ([], self)
           | Some n \<Rightarrow> nh_remove_neighbor env self (nr_public_key n))"

end
