(* ===== verification/GossipProvenance.thy ===== *)
theory GossipProvenance
  imports GossipHandling
begin

text \<open>
  Where the records of the database come from. Every record of another node that the database holds
  after gossip has been handled was there before, with the same signed data, or carries the inner
  record, signed data and signature of one of the records received.
\<close>

section \<open>Signed data\<close>

type_synonym attestation = "public_key \<times> node_record_inner \<times> plain_data \<times> crypt_data"

definition signed_part :: "node_record \<Rightarrow> node_record_inner \<times> plain_data \<times> crypt_data" where
  "signed_part n = (nr_inner n, nr_signed_gossip n, nr_signature n)"

definition attestation :: "accessible_gossip_record \<Rightarrow> attestation" where
  "attestation agr = (agr_key agr, agr_inner agr, agr_signed_gossip agr, agr_signature agr)"

text \<open>No record is lost, and every record of another node in \<open>db'\<close> is attested by \<open>db\<close> or by \<open>T\<close>.\<close>

definition attests :: "attestation set \<Rightarrow> neighborhood_database \<Rightarrow> neighborhood_database \<Rightarrow> bool" where
  "attests T db db' \<longleftrightarrow> this_node db' = this_node db \<and>
     (\<forall>k. node_by_key db k \<noteq> None \<longrightarrow> node_by_key db' k \<noteq> None) \<and>
     (\<forall>k n'. node_by_key db' k = Some n' \<longrightarrow>
        (if k = this_node db then node_by_key db k \<noteq> None
         else (\<exists>n. node_by_key db k = Some n \<and> signed_part n' = signed_part n) \<or> (k, signed_part n') \<in> T))"

named_theorems attest_intros \<open>steps that attest\<close>

lemma attests_refl [simp, attest_intros]: "attests T db db"
  by (auto simp: attests_def)

lemma attests_trans [trans]:
  assumes "attests T a b" "attests T b c"
  shows "attests T a c"
  unfolding attests_def
proof (intro conjI allI impI)
  show "this_node c = this_node a"
    using assms by (simp add: attests_def)
  show "node_by_key a k \<noteq> None \<Longrightarrow> node_by_key c k \<noteq> None" for k
    using assms by (simp add: attests_def)
next
  fix k p
  assume p: "node_by_key c k = Some p"
  have b: "if k = this_node b then node_by_key b k \<noteq> None
      else (\<exists>n. node_by_key b k = Some n \<and> signed_part p = signed_part n) \<or> (k, signed_part p) \<in> T"
    using assms(2) p unfolding attests_def by blast
  have a: "node_by_key b k = Some n \<Longrightarrow> if k = this_node a then node_by_key a k \<noteq> None
      else (\<exists>m. node_by_key a k = Some m \<and> signed_part n = signed_part m) \<or> (k, signed_part n) \<in> T" for n
    using assms(1) unfolding attests_def by blast
  have "this_node b = this_node a"
    using assms(1) by (simp add: attests_def)
  with a b show "if k = this_node a then node_by_key a k \<noteq> None
      else (\<exists>n. node_by_key a k = Some n \<and> signed_part p = signed_part n) \<or> (k, signed_part p) \<in> T"
    by (auto split: if_splits)
qed

lemma attests_mut:
  assumes "\<And>n. node_by_key db k = Some n \<Longrightarrow> k \<noteq> this_node db \<Longrightarrow>
    signed_part (change n) = signed_part n \<or> (k, signed_part (change n)) \<in> T"
  shows "attests T db (node_by_key_mut k change db)"
  using assms by (auto simp: attests_def)

lemma attests_mut_this [attest_intros]: "attests T db (node_by_key_mut (this_node db) change db)"
  by (rule attests_mut) simp

section \<open>The operations of the database\<close>

lemma attests_add_node:
  assumes "add_node n db = Ok (k, db')" "(nr_public_key n, signed_part n) \<in> T" "this_node db \<noteq> nr_public_key n"
  shows "attests T db db'"
  using assms by (auto simp: attests_def add_node_Ok_iff)

lemma attests_add_half_neighbor [attest_intros]:
  assumes "add_half_neighbor k db = Ok (b, db')"
  shows "attests T db db'"
  using assms
  by (auto simp: add_half_neighbor_def attests_mut_this split: if_splits option.splits sum.splits node_record_error.splits)

lemma attests_root_mut [attest_intros]:
  assumes "root_mut change db = Ok db'"
  shows "attests T db db'"
  using assms by (auto simp: root_mut_def bind_run_eq_Inr attests_mut_this)

lemma attests_bump_and_sign [attest_intros]:
  "bump_and_sign_root env db = Ok db' \<Longrightarrow> attests T db db'"
  unfolding bump_and_sign_root_def by (rule attests_root_mut)

lemma from_agr_signed [simp]:
  "signed_part (node_record_from_agr agr) = snd (attestation agr)"
  "signed_part (node_record_from_agr_ref agr) = snd (attestation agr)"
  "fst (attestation agr) = agr_key agr"
  by (simp_all add: signed_part_def attestation_def node_record_from_agr_def node_record_from_agr_ref_def agr_clone_def)

lemma attests_add_agr:
  assumes "add_node (node_record_from_agr_ref agr) db = Ok (k, db') \<or> add_node (node_record_from_agr agr) db = Ok (k, db')"
    and "attestation agr \<in> T" "node_by_key db (this_node db) \<noteq> None"
  shows "attests T db db'"
proof -
  have key: "nr_public_key (node_record_from_agr agr) = agr_key agr"
      "nr_public_key (node_record_from_agr_ref agr) = agr_key agr"
    by (simp_all add: node_record_from_agr_def node_record_from_agr_ref_def agr_clone_def)
  have "(agr_key agr, snd (attestation agr)) \<in> T"
    using assms(2) by (metis from_agr_signed(3) prod.collapse)
  moreover have "this_node db \<noteq> agr_key agr"
    using assms(1, 3) by (auto simp: add_node_Ok_iff key)
  ultimately show ?thesis
    using assms(1) attests_add_node [of "node_record_from_agr agr" db k db' T]
      attests_add_node [of "node_record_from_agr_ref agr" db k db' T]
    by (auto simp: key)
qed

section \<open>The gossip handlers\<close>

lemma attests_try_accept_debut:
  assumes "try_accept_debut env db agr src = Ok (r, db')" "attestation agr \<in> T"
    "node_by_key db (this_node db) \<noteq> None"
  shows "attests T db db'"
proof (cases "\<exists>k db1. add_node (node_record_from_agr_ref agr) db = Ok (k, db1)")
  case True
  then obtain k db1 where k: "add_node (node_record_from_agr_ref agr) db = Ok (k, db1)"
    by blast
  have step1: "attests T db db1"
    using attests_add_agr k assms(2, 3) by blast
  have "db' = db \<or> (\<exists>db2. add_half_neighbor k db1 = Ok (True, db2) \<and> bump_and_sign_root env db2 = Ok db')"
    using assms(1) k
    by (auto simp: try_accept_debut_def bind_run_eq_Inr Let_def split: if_splits sum.splits prod.splits bool.splits option.splits)
  then show ?thesis
    using step1 attests_add_half_neighbor attests_bump_and_sign attests_trans by (metis attests_refl)
next
  case False
  then have "db' = db"
    using assms(1)
    by (auto simp: try_accept_debut_def bind_run_eq_Inr Let_def split: if_splits sum.splits)
  then show ?thesis by simp
qed

lemma attests_debut_handle:
  assumes "debut_handle env db agrs src = Ok (r, db')" "node_by_key db (this_node db) \<noteq> None"
  shows "attests (attestation ` set agrs) db db'"
proof -
  obtain agr where agr: "index agrs 0 = Ok agr"
    using assms(1) by (auto simp: debut_handle_def bind_run_eq_Inr)
  define source where "source = (if agr_node_addr_opt agr = None
      then agr\<lparr> agr_node_addr_opt := Some (node_addr_from_socket_addr src) \<rparr> else agr)"
  have "agr \<in> set agrs"
    using agr by (cases agrs) (auto simp: index_def)
  then have att: "attestation source \<in> attestation ` set agrs"
    by (auto simp: source_def attestation_def)
  have "db' = db \<or> (\<exists>acc. try_accept_debut env db source src = Ok (acc, db'))"
    using assms(1) agr
    by (auto simp: debut_handle_def Let_def source_def [symmetric] elim!: bind_run_InrE
        split: option.split_asm sum.split_asm)
  then show ?thesis
    using attests_try_accept_debut att assms(2) by (metis attests_refl)
qed

lemma attests_pass_handle:
  "pass_handle env db agrs src = Ok (r, db') \<Longrightarrow> attests T db db'"
  by (auto simp: pass_handle_def bind_run_eq_Inr)

lemma attests_introduction_update:
  assumes "introduction_update_database env db agr = Ok (r, db')" "attestation agr \<in> T"
    "node_by_key db (this_node db) \<noteq> None"
  shows "attests T db db'"
proof -
  have finish: "attests T db1 db'"
    if "(case add_half_neighbor (agr_key agr) db1 of
           Inl _ \<Rightarrow> Err ExpectFailed
         | Inr (added, db2) \<Rightarrow>
             if added then bind_run (bump_and_sign_root env db2) (\<lambda>db3. Ok (Ok True, db3))
             else Ok (Ok True, db2)) = Ok (r, db')" for db1
    using that
    by (auto simp: bind_run_eq_Inr split: sum.splits prod.splits if_splits
        intro: attests_trans [OF attests_add_half_neighbor attests_bump_and_sign] attests_add_half_neighbor)
  have changed: "(agr_key agr, signed_part n') \<in> T" if "nr_update agr n = Ok n'" for n n'
    using that assms(2) by (auto simp: nr_update_def signed_part_def attestation_def split: if_splits)
  show ?thesis
  proof (cases "node_by_key db (agr_key agr)")
    case None
    then obtain k db1 where k: "add_node (node_record_from_agr agr) db = Ok (k, db1)"
      using assms(1) by (auto simp: introduction_update_database_def Let_def split: sum.splits)
    then have "attests T db db1"
      using attests_add_agr assms(2, 3) by blast
    moreover have "attests T db1 db'"
      by (rule finish) (use assms(1) None k in \<open>simp add: introduction_update_database_def Let_def\<close>)
    ultimately show ?thesis
      by (rule attests_trans)
  next
    case (Some n)
    show ?thesis
    proof (cases "nr_version n < nri_version (agr_inner agr)")
      case True
      show ?thesis
      proof (cases "nr_update agr n")
        case (Inl e)
        then show ?thesis
          using assms(1) Some True by (simp add: introduction_update_database_def Let_def)
      next
        case (Inr n')
        have "attests T db (node_by_key_mut (agr_key agr) (\<lambda>_. n') db)"
          by (rule attests_mut) (simp add: changed [OF Inr])
        moreover have "attests T (node_by_key_mut (agr_key agr) (\<lambda>_. n') db) db'"
          by (rule finish) (use assms(1) Some True Inr in \<open>simp add: introduction_update_database_def Let_def\<close>)
        ultimately show ?thesis
          by (rule attests_trans)
      qed
    qed (use assms(1) Some in \<open>simp add: introduction_update_database_def Let_def\<close>)
  qed
qed

lemma identify_players_mem:
  "identify_players agrs src = Ok (Ok (a, b)) \<Longrightarrow> a \<in> set agrs \<and> b \<in> set agrs"
  by (cases agrs; cases "tl agrs")
     (auto simp: identify_players_def index_def elim!: bind_run_InrE split: sum.split_asm if_split_asm)

lemma attests_introduction_handle:
  assumes "introduction_handle env db agrs src = Ok (r, db')" "node_by_key db (this_node db) \<noteq> None"
  shows "attests (attestation ` set agrs) db db'"
proof -
  have "db' = db \<or> (\<exists>a b u. identify_players agrs src = Ok (Ok (a, b)) \<and>
      introduction_update_database env db a = Ok (u, db'))"
    using assms(1)
    by (auto simp: introduction_handle_def elim!: bind_run_InrE split: if_split_asm sum.split_asm prod.split_asm)
  then show ?thesis
    using identify_players_mem attests_introduction_update assms(2) by (metis attests_refl image_eqI)
qed

lemma attests_keeps_root: "attests T db db' \<Longrightarrow> this_node db' = this_node db"
  by (simp add: attests_def)

text \<open>This node's own record is there, and stays.\<close>

definition rooted :: "neighborhood_database \<Rightarrow> bool" where
  "rooted db \<longleftrightarrow> node_by_key db (this_node db) \<noteq> None"

lemma rooted_attested: "attests T db db' \<Longrightarrow> rooted db \<Longrightarrow> rooted db'"
  by (simp add: attests_def rooted_def)

lemma attests_by_ip [simp]: "attests T db (db'\<lparr> by_ip_addr := m \<rparr>) \<longleftrightarrow> attests T db db'"
  by (simp add: attests_def)

lemma attests_add_new_nodes:
  assumes "fold_run add_new_node agrs db = Ok db'" "attestation ` set agrs \<subseteq> T" "rooted db"
  shows "attests T db db'"
proof -
  have "attests T db db' \<and> rooted db'" if "fold_run add_new_node agrs db0 = Ok db'" "attests T db db0" "rooted db0" for db0
    using that(1)
  proof (rule fold_run_invariant [where P = "\<lambda>d. attests T db d \<and> rooted d"])
    show "attests T db db0 \<and> rooted db0"
      using that by simp
  next
    fix agr s t
    assume s: "agr \<in> set agrs" "attests T db s \<and> rooted s" "add_new_node agr s = Ok t"
    then obtain k where k: "add_node (node_record_from_agr_ref agr) s = Ok (k, t)"
      by (auto simp: add_new_node_def split: sum.splits)
    then have "attests T s t"
      using attests_add_agr [of agr s k t T] s assms(2) by (auto simp: rooted_def)
    then show "attests T db t \<and> rooted t"
      using s k attests_trans [of T db s t] by (auto simp: rooted_def add_node_Ok_iff)
  qed
  then show ?thesis
    using assms by simp
qed

lemma attests_update_record:
  assumes "update_database_record agr db = Ok (b, db')" "attestation agr \<in> T"
  shows "attests T db db'"
proof -
  obtain n where "db' = node_by_key_mut (agr_key agr) (\<lambda>_. n\<lparr> nr_inner := agr_inner agr,
      nr_signed_gossip := agr_signed_gossip agr, nr_signature := agr_signature agr \<rparr>) db"
    using assms(1) by (auto simp: update_database_record_def bind_run_eq_Inr)
  then show ?thesis
    using assms(2) by (auto simp: signed_part_def attestation_def intro: attests_mut)
qed

lemma attests_update_obsolete:
  assumes "identify_and_update_obsolete_nodes db agrs = Ok (b, db')" "attestation ` set agrs \<subseteq> T"
  shows "attests T db db'"
proof -
  obtain flags where fold: "fold_run update_if_obsolete agrs ([], db) = Ok (flags, db')"
    using assms(1) by (auto simp: identify_and_update_obsolete_nodes_def bind_run_eq_Inr)
  have "attests T db (snd (flags, db'))"
    using fold
  proof (rule fold_run_invariant [where P = "\<lambda>s. attests T db (snd s)"])
    fix agr and s t :: "bool list \<times> neighborhood_database"
    assume s: "agr \<in> set agrs" "attests T db (snd s)" "update_if_obsolete agr s = Ok t"
    then have "snd t = snd s \<or> (\<exists>f. update_database_record agr (snd s) = Ok (f, snd t))"
      by (auto simp: update_if_obsolete_def bind_run_eq_Inr split: prod.splits option.splits if_splits)
    then show "attests T db (snd t)"
      using s assms(2) attests_update_record attests_trans by (metis image_subset_iff)
  qed simp
  then show ?thesis by simp
qed

lemma attests_handle_root:
  assumes "handle_root_node env db src = Ok (b, db')"
  shows "attests T db db'"
  using assms
  by (auto simp: handle_root_node_def bind_run_eq_Inr Let_def split: option.splits if_splits sum.splits prod.splits bool.splits
      intro: attests_trans [OF attests_add_half_neighbor attests_bump_and_sign])

lemma attests_standard_handle:
  assumes "standard_handle env db agrs src = Ok (r, db')" "rooted db"
  shows "attests (attestation ` set agrs) db db'"
proof -
  obtain a b c db1 db2 where steps: "identify_and_add_non_introductory_new_nodes db agrs src = Ok (a, db1)"
    "identify_and_update_obsolete_nodes db1 agrs = Ok (b, db2)" "handle_root_node env db2 src = Ok (c, db')"
    using assms(1) by (auto simp: standard_handle_def bind_run_eq_Inr)
  have "attests (attestation ` set agrs) db db1"
    using steps(1) attests_add_new_nodes [of "filter (is_new_non_introductory (db_keys db) src) agrs" db db1
        "attestation ` set agrs"] assms(2)
    by (auto simp: identify_and_add_non_introductory_new_nodes_def bind_run_eq_Inr Let_def)
  also have "attests (attestation ` set agrs) db1 db2"
    using attests_update_obsolete [OF steps(2)] by simp
  also have "attests (attestation ` set agrs) db2 db'"
    by (rule attests_handle_root [OF steps(3)])
  finally show ?thesis .
qed

lemma find_handler_mem:
  "find_handler db agrs src hs = Ok (q, h) \<Longrightarrow> h \<in> set hs"
  by (induction hs) (auto elim!: bind_run_InrE split: qualification.split_asm)

lemma attests_acceptor:
  assumes "acceptor_handle env db agrs src = Ok (r, db')" "rooted db"
  shows "attests (attestation ` set agrs) db db'"
proof -
  obtain q h where h: "find_handler db agrs src gossip_handlers = Ok (q, h)"
    "db' = db \<or> snd h env db agrs src = Ok (r, db')"
    using assms(1) by (auto simp: acceptor_handle_def elim!: bind_run_InrE split: qualification.split_asm)
  have "h \<in> set gossip_handlers"
    using h(1) by (rule find_handler_mem)
  with h(2) show ?thesis
    using assms(2) attests_debut_handle [of env db agrs src r db'] attests_pass_handle [of env db agrs src r db']
      attests_introduction_handle [of env db agrs src r db'] attests_standard_handle [of env db agrs src r db']
    by (auto simp: gossip_handlers_def rooted_def reject_handle_def)
qed

lemma attests_keys:
  assumes "attests (attestation ` set agrs) db db'" "node_by_key db' k \<noteq> None"
  shows "node_by_key db k \<noteq> None \<or> k \<in> agr_key ` set agrs"
  using assms by (fastforce simp: attests_def attestation_def split: if_splits)

end
