(* ===== verification/NeighborhoodSafety.thy ===== *)
theory NeighborhoodSafety
  imports NeighborhoodActor GossipProvenance
begin

text \<open>
  The neighborhood actor as a state machine: one step for each message that can change it. The
  theory shows what holds in every state that can be reached: the records of other nodes are all
  signed by their nodes, and the database keeps its invariant. It also shows when handling gossip
  cannot panic and what is sent then, and what becomes of an actor that loses its own address.
\<close>

section \<open>The state machine\<close>

datatype neighborhood_event =
    Bind
  | SetConsumingWallet wallet
  | Start
  | RouteQuery route_query_message
  | IncomingGossip gossip socket_addr
  | RemoveNeighbor public_key
  | Desirable public_key bool
  | StreamShutdown stream_shutdown_msg

text \<open>The handler of each message; \<open>Start\<close> and \<open>RouteQuery\<close> leave the database alone.\<close>

inductive neighborhood_step ::
    "actor_env \<Rightarrow> neighborhood \<Rightarrow> neighborhood_event \<Rightarrow> neighborhood_output list \<Rightarrow> neighborhood \<Rightarrow> bool"
  for env :: actor_env where
  bind: "neighborhood_step env s Bind [] (neighborhood_bind s)"
| set_wallet: "neighborhood_step env s (SetConsumingWallet w) [] (handle_set_consuming_wallet w s)"
| start: "handle_start env s = Ok outs \<Longrightarrow> neighborhood_step env s Start outs s"
| route_query: "handle_route_query env s msg = Ok (answer, s') \<Longrightarrow> neighborhood_step env s (RouteQuery msg) [] s'"
| gossip: "handle_gossip env s g src = Ok (outs, s') \<Longrightarrow> neighborhood_step env s (IncomingGossip g src) outs s'"
| remove: "handle_remove_neighbor env s k = Ok (outs, s') \<Longrightarrow> neighborhood_step env s (RemoveNeighbor k) outs s'"
| desirable: "neighborhood_step env s (Desirable k flag) [] (handle_node_record_metadata k flag s)"
| shutdown: "handle_stream_shutdown_msg env s msg = Ok (outs, s') \<Longrightarrow>
    neighborhood_step env s (StreamShutdown msg) outs s'"

inductive_cases neighborhood_stepE: "neighborhood_step env s e outs s'"

text \<open>A history of the actor: the events in order and the state they lead to.\<close>

inductive history :: "actor_env \<Rightarrow> neighborhood \<Rightarrow> (neighborhood \<times> neighborhood_event) list \<Rightarrow> neighborhood \<Rightarrow> bool"
  for env :: actor_env and s0 :: neighborhood where
  begins: "history env s0 [] s0"
| continues: "history env s0 es s \<Longrightarrow> neighborhood_step env s e outs s' \<Longrightarrow> history env s0 (es @ [(s, e)]) s'"

lemma history_invariant:
  assumes "history env s0 es s" "P s0"
    and "\<And>s e outs s'. (s, e) \<in> set es \<Longrightarrow> P s \<Longrightarrow> neighborhood_step env s e outs s' \<Longrightarrow> P s'"
  shows "P s"
  using assms by (induction rule: history.induct) auto

section \<open>What the shared functions change\<close>

lemma gossip_to_neighbors_database:
  assumes "gossip_to_neighbors env s = Ok (outs, s')"
  obtains db where "root_mut (nr_regenerate_signed_gossip (ae_records env)) (nh_database s) = Ok db"
    "s' = s\<lparr> nh_database := db \<rparr>"
  using assms by (auto simp: gossip_to_neighbors_def Let_def elim!: bind_run_InrE)

lemma handle_agrs_database:
  assumes "handle_agrs env s agrs src = Ok (outs, s')"
  obtains r db where "acceptor_handle (ae_records env) (nh_database s) agrs src = Ok (r, db)"
    "nh_database s' = db \<or> root_mut (nr_regenerate_signed_gossip (ae_records env)) db = Ok (nh_database s')"
  using assms that
  by (auto simp: handle_agrs_def Let_def elim!: bind_run_InrE gossip_to_neighbors_database
      split: gossip_acceptance_result.split_asm)

lemma remove_database:
  assumes "nh_remove_neighbor env s k = Ok (outs, s') \<or> handle_remove_neighbor env s k = Ok (outs, s')"
  obtains r db where "db_remove_neighbor k (nh_database s) = Ok (r, db)"
    "nh_database s' = db \<or> root_mut (nr_regenerate_signed_gossip (ae_records env)) db = Ok (nh_database s')"
  using assms that
  by (auto simp: nh_remove_neighbor_def handle_remove_neighbor_def Let_def
      elim!: bind_run_InrE gossip_to_neighbors_database split: sum.split_asm if_split_asm)

lemma shutdown_database:
  assumes "handle_stream_shutdown_msg env s msg = Ok (outs, s')"
  obtains "s' = s" | n where "node_by_ip (nh_database s) (ip (ssm_peer_addr msg)) = Some n"
    "nh_remove_neighbor env s (nr_public_key n) = Ok (outs, s')"
  using assms by (auto simp: handle_stream_shutdown_msg_def split: if_split_asm option.split_asm)

lemma compose_database:
  "compose_route_query_response env s over bk = Ok (r, s') \<Longrightarrow> nh_database s' = nh_database s"
  by (auto simp: compose_route_query_response_def Let_def advance_return_route_id_def
      elim!: bind_run_InrE split: sum.split_asm if_split_asm)

lemma round_trip_route_database:
  assumes "make_round_trip_route env s msg = Ok (r, s')"
  shows "nh_database s' = nh_database s"
proof -
  have "s' = s \<or> (\<exists>over bk. compose_route_query_response env s over bk = Ok (r, s'))"
    using assms by (auto simp: make_round_trip_route_def Let_def elim!: bind_run_InrE split: sum.split_asm)
  then show ?thesis
    using compose_database by metis
qed

lemma zero_hop_database:
  "zero_hop_route_response env s = Ok (r, s') \<Longrightarrow> nh_database s' = nh_database s"
  by (auto simp: zero_hop_route_response_def Let_def advance_return_route_id_def
      elim!: bind_run_InrE split: sum.split_asm)

lemma route_query_database:
  assumes "handle_route_query env s msg = Ok (r, s')"
  shows "nh_database s' = nh_database s"
  using assms
  by (auto simp: handle_route_query_def elim!: bind_run_InrE
      dest: zero_hop_database round_trip_route_database split: sum.split_asm if_split_asm)

lemmas keeps_database = route_query_database neighborhood_bind_def handle_set_consuming_wallet_def

section \<open>Decoding gossip\<close>

text \<open>The records that are decoded, and that they are all there and all signed if the gossip is
  handed to the acceptor.\<close>

definition decoded :: "actor_env \<Rightarrow> gossip \<Rightarrow> agrs" where
  "decoded env g = List.map_filter (\<lambda>gnr. case agr_try_from (ae_records env) gnr of Inr agr \<Rightarrow> Some agr | Inl _ \<Rightarrow> None)
     (node_records g)"

definition signed_by_owner :: "actor_env \<Rightarrow> accessible_gossip_record \<Rightarrow> bool" where
  "signed_by_owner env agr \<longleftrightarrow>
     from_slice (inner_codec (ae_records env)) (agr_signed_gossip agr) = Ok (agr_inner agr) \<and>
     cd_verify_signature (ae_cryptde env) (agr_signed_gossip agr) (agr_signature agr) (agr_key agr) = Ok True"

lemma find_run_None:
  "find_run p xs = Inr None \<longleftrightarrow> (\<forall>x \<in> set xs. p x = Inr False)"
  by (induction xs) (auto simp: bind_run_def split: sum.split)

lemma decoded_from:
  "agr \<in> set (decoded env g) \<Longrightarrow>
     from_slice (inner_codec (ae_records env)) (agr_signed_gossip agr) = Ok (agr_inner agr)"
  by (auto simp: decoded_def List.map_filter_def agr_try_from_def split: sum.splits)

lemma handle_gossip_eq:
  "handle_gossip env s g src =
     (if length (decoded env g) < length (node_records g) then Ok ([], s)
      else bind_run (find_run (signature_invalid env) (decoded env g)) (\<lambda>invalid.
           if invalid \<noteq> None then Ok ([], s) else handle_agrs env s (decoded env g) src))"
  unfolding handle_gossip_def decoded_def Let_def by (rule refl)

text \<open>Gossip either does nothing, or all of it is decodable and signed and goes to the acceptor.\<close>

lemma handle_gossip_cases:
  assumes "handle_gossip env s g src = Ok (outs, s')"
  obtains (dropped) "outs = []" "s' = s"
  | (accepted) "handle_agrs env s (decoded env g) src = Ok (outs, s')"
    "length (decoded env g) = length (node_records g)" "\<And>agr. agr \<in> set (decoded env g) \<Longrightarrow> signed_by_owner env agr"
proof (cases "length (decoded env g) < length (node_records g)")
  case True
  then show thesis
    using assms dropped by (simp add: handle_gossip_eq)
next
  case False
  moreover have "length (decoded env g) \<le> length (node_records g)"
    by (simp add: decoded_def List.map_filter_def length_filter_le)
  ultimately have len: "length (decoded env g) = length (node_records g)"
    by simp
  obtain invalid where i: "find_run (signature_invalid env) (decoded env g) = Ok invalid"
    "if invalid \<noteq> None then Ok ([], s) = Ok (outs, s') else handle_agrs env s (decoded env g) src = Ok (outs, s')"
    using assms False by (auto simp: handle_gossip_eq bind_run_eq_Inr split: if_splits)
  show thesis
  proof (cases invalid)
    case None
    have "signed_by_owner env agr" if "agr \<in> set (decoded env g)" for agr
      using i(1) None that decoded_from [OF that]
      by (auto simp: find_run_None signature_invalid_def bind_run_eq_Inr signed_by_owner_def)
    then show thesis
      using accepted i(2) None len by simp
  qed (use i(2) dropped in auto)
qed

section \<open>Authentic records\<close>

text \<open>Every record of another node carries data that decodes to it, signed by that node.\<close>

definition authentic :: "actor_env \<Rightarrow> neighborhood_database \<Rightarrow> bool" where
  "authentic env db \<longleftrightarrow> rooted db \<and> this_node db = cd_public_key (ae_cryptde env) \<and>
     (\<forall>k n. node_by_key db k = Some n \<longrightarrow> k \<noteq> this_node db \<longrightarrow>
        from_slice (inner_codec (ae_records env)) (nr_signed_gossip n) = Ok (nr_inner n) \<and>
        cd_verify_signature (ae_cryptde env) (nr_signed_gossip n) (nr_signature n) k = Ok True)"

text \<open>Operations that leave the signed part of other nodes' records alone keep them authentic, and
  so do those that only bring in attested records.\<close>

definition attested_ok :: "actor_env \<Rightarrow> attestation \<Rightarrow> bool" where
  "attested_ok env t = (case t of (k, inner, sg, sig) \<Rightarrow>
     from_slice (inner_codec (ae_records env)) sg = Ok inner \<and> cd_verify_signature (ae_cryptde env) sg sig k = Ok True)"

lemma authentic_attests:
  assumes "authentic env db" "attests T db db'" "rooted db'" "\<And>t. t \<in> T \<Longrightarrow> attested_ok env t"
  shows "authentic env db'"
  unfolding authentic_def
proof (intro conjI allI impI)
  show "rooted db'" by fact
  show this: "this_node db' = cd_public_key (ae_cryptde env)"
    using assms(1, 2) by (simp add: authentic_def attests_def)
  fix k n'
  assume k: "node_by_key db' k = Some n'" "k \<noteq> this_node db'"
  have "attested_ok env (k, signed_part n')"
  proof (cases "(k, signed_part n') \<in> T")
    case False
    then obtain n where "node_by_key db k = Some n" "signed_part n' = signed_part n" "k \<noteq> this_node db"
      using assms(2) k unfolding attests_def by fastforce
    then show ?thesis
      using assms(1) by (auto simp: authentic_def attested_ok_def signed_part_def)
  qed (rule assms(4))
  then show "from_slice (inner_codec (ae_records env)) (nr_signed_gossip n') = Ok (nr_inner n')"
    "cd_verify_signature (ae_cryptde env) (nr_signed_gossip n') (nr_signature n') k = Ok True"
    by (simp_all add: attested_ok_def signed_part_def)
qed

lemma rooted_root_mut: "root_mut change db = Ok db' \<Longrightarrow> rooted db'"
  by (auto simp: root_mut_def bind_run_eq_Inr rooted_def db_root_def expect_eq_Inr)

lemma attests_remove:
  assumes "db_remove_neighbor k db = Ok (r, db')" "rooted db"
  shows "attests {} db db' \<and> rooted db'"
proof (cases "node_by_key db k")
  case None
  then show ?thesis
    using assms by (simp add: db_remove_neighbor_absent)
next
  case (Some n)
  define db1 where "db1 = (let ip_addr = map_option na_ip_addr (nr_node_addr_opt n);
      db1 = node_by_key_mut k unset_node_addr db
      in case ip_addr of Some addr \<Rightarrow> db1\<lparr> by_ip_addr := hm_remove addr (by_ip_addr db1) \<rparr> | None \<Rightarrow> db1)"
  have "attests {} db (node_by_key_mut k unset_node_addr db)"
    by (rule attests_mut) (simp add: signed_part_def unset_node_addr_def)
  then have one: "attests {} db db1"
    by (simp add: db1_def Let_def split: option.split)
  have eq: "db_remove_neighbor k db = bind_run (db_root db1) (\<lambda>root.
      let (removed, root') = remove_half_neighbor_key k root;
          db3 = node_by_key_mut (this_node db1) (\<lambda>_. root') db1
      in if removed then bind_run (root_mut (\<lambda>r. Ok (increment_version r)) db3) (\<lambda>db4. Ok (Ok True, db4))
         else Ok (Ok False, db3))"
    unfolding db_remove_neighbor_def db1_def Some option.case Let_def by (rule refl)
  obtain root where root: "db_root db1 = Ok root"
    using assms(1) unfolding eq by (auto elim!: bind_run_InrE)
  define removed root' where "removed = fst (remove_half_neighbor_key k root)"
    and "root' = snd (remove_half_neighbor_key k root)"
  define db2 where "db2 = node_by_key_mut (this_node db1) (\<lambda>_. root') db1"
  have two: "attests {} db1 db2"
    unfolding db2_def by (rule attests_mut_this)
  have rest: "if removed then root_mut (\<lambda>r. Ok (increment_version r)) db2 = Ok db' else db' = db2"
    using assms(1) root unfolding eq
    by (auto simp: Let_def removed_def root'_def db2_def case_prod_beta elim!: bind_run_InrE split: if_split_asm)
  have "attests {} db2 db'"
    using rest attests_root_mut [of "\<lambda>r. Ok (increment_version r)" db2 db'] by (auto split: if_splits)
  moreover have "rooted db'"
    using rest rooted_root_mut [of "\<lambda>r. Ok (increment_version r)" db2 db'] root
    by (auto simp: rooted_def db2_def db_root_def expect_eq_Inr split: if_splits)
  ultimately show ?thesis
    using attests_trans [OF attests_trans [OF one two]] by simp
qed

lemma authentic_mut_root:
  assumes "authentic env db" "root_mut change db = Ok db'"
  shows "authentic env db'"
  using authentic_attests [OF assms(1) attests_root_mut [OF assms(2), of "{}"] rooted_root_mut [OF assms(2)]]
  by simp

lemma authentic_remove:
  assumes "authentic env (nh_database s)"
    "nh_remove_neighbor env s k = Ok (outs, s') \<or> handle_remove_neighbor env s k = Ok (outs, s')"
  shows "authentic env (nh_database s')"
proof -
  obtain r db where db: "db_remove_neighbor k (nh_database s) = Ok (r, db)"
    "nh_database s' = db \<or> root_mut (nr_regenerate_signed_gossip (ae_records env)) db = Ok (nh_database s')"
    using remove_database [OF assms(2)] by metis
  have "rooted (nh_database s)"
    using assms(1) by (simp add: authentic_def)
  then have "authentic env db"
    using attests_remove [OF db(1)] authentic_attests [OF assms(1), of "{}" db] by simp
  then show ?thesis
    using db(2) authentic_mut_root by metis
qed

lemma authentic_gossip:
  assumes "authentic env (nh_database s)" "handle_gossip env s g src = Ok (outs, s')"
  shows "authentic env (nh_database s')"
  using assms(2)
proof (cases rule: handle_gossip_cases)
  case accepted
  obtain r db where db: "acceptor_handle (ae_records env) (nh_database s) (decoded env g) src = Ok (r, db)"
    "nh_database s' = db \<or> root_mut (nr_regenerate_signed_gossip (ae_records env)) db = Ok (nh_database s')"
    using handle_agrs_database [OF accepted(1)] by metis
  have rooted: "rooted (nh_database s)"
    using assms(1) by (simp add: authentic_def)
  have att: "attests (attestation ` set (decoded env g)) (nh_database s) db"
    by (rule attests_acceptor [OF db(1) rooted])
  have "attested_ok env t" if "t \<in> attestation ` set (decoded env g)" for t
    using that accepted(3) by (auto simp: attested_ok_def attestation_def signed_by_owner_def)
  then have "authentic env db"
    using authentic_attests [OF assms(1) att rooted_attested [OF att rooted]] by blast
  then show ?thesis
    using db(2) authentic_mut_root by metis
qed (use assms(1) in simp)

lemma authentic_step:
  assumes "neighborhood_step env s e outs s'" "authentic env (nh_database s)"
  shows "authentic env (nh_database s')"
  using assms(1)
proof cases
  case (gossip g src)
  then show ?thesis using assms(2) authentic_gossip by blast
next
  case (remove k)
  then show ?thesis using assms(2) authentic_remove by blast
next
  case (shutdown msg)
  then show ?thesis
    using assms(2) by (elim shutdown_database) (auto intro: authentic_remove)
next
  case (desirable k flag)
  have "attests {} (nh_database s) (node_by_key_mut k (set_desirable flag) (nh_database s))"
    by (rule attests_mut) (simp add: signed_part_def set_desirable_def)
  then show ?thesis
    using authentic_attests [OF assms(2), of "{}"] rooted_attested desirable assms(2)
    by (simp add: handle_node_record_metadata_def authentic_def)
next
  case (route_query msg answer)
  then show ?thesis using assms(2) route_query_database by metis
qed (use assms(2) in \<open>simp_all add: neighborhood_bind_def handle_set_consuming_wallet_def\<close>)

lemma database_new_root:
  assumes "database_new env k mode w = Ok db"
  obtains root where "db = add_arbitrary_node root \<lparr> this_node = k, by_public_key = [], by_ip_addr = [] \<rparr>"
    "nr_public_key root = k"
proof -
  have key: "nr_public_key n' = nr_public_key n" if "nr_regenerate_signed_gossip e n = Ok n'" for e n n'
    using that by (auto simp: nr_regenerate_signed_gossip_def elim!: bind_run_InrE)
  have key2: "nr_public_key n' = nr_public_key n" if "set_node_addr a n = Ok (b, n')" for a b n n'
    using that by (auto simp: set_node_addr_def split: option.splits if_splits)
  have key3: "nr_public_key n = k" if "node_record_new e k w2 rp ac rd v = Ok n" for e w2 rp ac rd v n
    using that by (auto simp: node_record_new_def elim!: bind_run_InrE dest: key)
  obtain n0 n1 root where "node_record_new env k w (mode_rate_pack mode) (mode_accepts_connections mode)
      (mode_routes_data mode) 0 = Ok n0" "n1 = n0 \<or> (\<exists>a b. set_node_addr a n0 = Ok (b, n1))"
    "nr_regenerate_signed_gossip env n1 = Ok root"
    "db = add_arbitrary_node root \<lparr> this_node = k, by_public_key = [], by_ip_addr = [] \<rparr>"
    using assms by (auto simp: database_new_def Let_def elim!: bind_run_InrE split: option.split_asm sum.split_asm) blast+
  then show thesis
    using that key key2 key3 by metis
qed

lemma authentic_new:
  assumes "neighborhood_new env mode w cw chain = Ok s"
  shows "authentic env (nh_database s)"
proof -
  obtain db where db: "database_new (ae_records env) (cd_public_key (ae_cryptde env)) mode w = Ok db"
    "nh_database s = db"
    using assms by (auto simp: neighborhood_new_def elim!: bind_run_InrE split: if_split_asm)
  obtain root where root: "db = add_arbitrary_node root
      \<lparr> this_node = cd_public_key (ae_cryptde env), by_public_key = [], by_ip_addr = [] \<rparr>"
    "nr_public_key root = cd_public_key (ae_cryptde env)"
    using database_new_root [OF db(1)] by metis
  have "node_by_key \<lparr> this_node = k, by_public_key = [], by_ip_addr = [] \<rparr> j = None" for k j
    by (simp add: node_by_key_def hm_get_def)
  then show ?thesis
    by (simp add: db(2) authentic_def rooted_def root)
qed

section \<open>The database invariant\<close>

text \<open>A decoder gives neighbor sets that are sets; see serde's \<open>BTreeSet\<close>.\<close>

definition decodes_sets :: "actor_env \<Rightarrow> bool" where
  "decodes_sets env \<longleftrightarrow> (\<forall>bytes inner. from_slice (inner_codec (ae_records env)) bytes = Ok inner \<longrightarrow>
     bs_ok (nri_neighbors inner))"

text \<open>Events that do not take this node's own address away.\<close>

definition keeps_own_address :: "neighborhood \<Rightarrow> neighborhood_event \<Rightarrow> bool" where
  "keeps_own_address s e =
     (case e of
        RemoveNeighbor k \<Rightarrow> k \<noteq> this_node (nh_database s)
      | StreamShutdown msg \<Rightarrow>
          (case node_by_ip (nh_database s) (ip (ssm_peer_addr msg)) of
             Some n \<Rightarrow> nr_public_key n \<noteq> this_node (nh_database s) | None \<Rightarrow> True)
      | _ \<Rightarrow> True)"

lemma nb_ok_resign:
  assumes "env_signs env" "nb_ok db" "root_mut (nr_regenerate_signed_gossip env) db = Ok db'"
  shows "nb_ok db' \<and> evolves db db'"
proof -
  obtain root where r: "db_root db = Ok root" "node_by_key db (this_node db) = Some root"
    "this_node db \<notin> set (half_neighbor_keys root)" "bs_ok (half_neighbor_keys root)"
    "\<And>k. k \<in> set (half_neighbor_keys root) \<Longrightarrow> \<exists>n. node_by_key db k = Some n \<and> nr_node_addr_opt n \<noteq> None" "has_wallet (nr_inner root)"
    using nb_ok_root [OF assms(2)] by metis
  obtain sg sig where sg: "nr_regenerate_signed_gossip env root = Ok (root\<lparr> nr_signed_gossip := sg, nr_signature := sig \<rparr>)"
    using regenerate_Ok [OF assms(1) r(6)] by metis
  have "db' = node_by_key_mut (this_node db) (\<lambda>_. root\<lparr> nr_signed_gossip := sg, nr_signature := sig \<rparr>) db"
    using assms(3) r(1) sg by simp
  moreover have "nb_ok (node_by_key_mut (this_node db) (\<lambda>_. root\<lparr> nr_signed_gossip := sg, nr_signature := sig \<rparr>) db) \<and>
      evolves db (node_by_key_mut (this_node db) (\<lambda>_. root\<lparr> nr_signed_gossip := sg, nr_signature := sig \<rparr>) db)"
    by (rule nb_ok_replace_root [OF assms(2) r(1)])
       (use r(3-5) in \<open>auto simp: root_evolves_def half_neighbor_keys_def\<close>)
  ultimately show ?thesis by simp
qed

lemma acceptor_keeps:
  assumes "env_ok env" "nb_ok db" "agrs_ok agrs" "acceptor_handle env db agrs src = Ok (r, db')"
  shows "nb_ok db' \<and> evolves db db' \<and> (quiet r \<longrightarrow> db' = db)"
  using assms(2, 3)
proof (cases rule: acceptor_handle_eq [of db agrs env src])
  case (matched h)
  then have matched: "fst h db agrs src = Ok Matched" "snd h env db agrs src = Ok (r, db')"
    using assms(4) by simp_all
  from matched(1) \<open>h \<in> _\<close> show ?thesis
  proof (elim insertE emptyE)
    assume "h = (debut_qualifies, debut_handle)"
    with matched show ?thesis
      using debut.handle_keeps [OF assms(1-3)] by simp
  next
    assume "h = (pass_qualifies, pass_handle)"
    with matched show ?thesis
      using pass.handle_keeps [OF assms(1-3)] by simp
  next
    assume "h = (introduction_qualifies, introduction_handle)"
    with matched show ?thesis
      using introduction.handle_keeps [OF assms(1-3)] by simp
  next
    assume "h = (standard_qualifies, standard_handle)"
    with matched show ?thesis
      using standard.handle_keeps [OF assms(1-3)] by simp
  qed
qed (use assms in auto)

lemma nb_ok_remove:
  assumes "nb_ok db" "k \<noteq> this_node db" "db_remove_neighbor k db = Ok (r, db')"
  shows "nb_ok db'"
proof (cases "node_by_key db k")
  case None
  then show ?thesis
    using assms by (simp add: db_remove_neighbor_absent)
next
  case (Some n)
  obtain root where r: "db_root db = Ok root" "node_by_key db (this_node db) = Some root"
    "bs_ok (half_neighbor_keys root)"
    "\<And>k. k \<in> set (half_neighbor_keys root) \<Longrightarrow> \<exists>n. node_by_key db k = Some n \<and> nr_node_addr_opt n \<noteq> None"
    "nri_accepts_connections (nr_inner root) \<Longrightarrow> nr_node_addr_opt root \<noteq> None"
    "this_node db \<notin> set (half_neighbor_keys root)" "has_wallet (nr_inner root)"
    using nb_ok_root [OF assms(1)] by metis
  obtain d where d: "db_remove_neighbor k db = Ok (Ok (k \<in> set (half_neighbor_keys root)), d)"
    "db_ok d" "this_node d = this_node db"
    "\<And>j. node_by_key d j =
       (if j = this_node db then Some (forget_neighbor k (if k = j then unset_node_addr root else root))
        else if j = k then Some (unset_node_addr n) else node_by_key db j)"
    using db_remove_neighbor_effect [OF nb_ok_db_ok [OF assms(1)] Some r(1)] by metis
  have root': "db_root d = Ok (forget_neighbor k root)"
    using d(3, 4) assms(2) by (simp add: db_root_def)
  have "db' = d"
    using assms(3) d(1) by simp
  moreover have "\<exists>m. node_by_key d j = Some m \<and> nr_node_addr_opt m \<noteq> None"
    if "j \<in> set (half_neighbor_keys (forget_neighbor k root))" for j
    using that r(4) [of j] r(6) d(4) [of j] by auto
  moreover have "nri_accepts_connections (nr_inner (forget_neighbor k root)) = nri_accepts_connections (nr_inner root)"
    "has_wallet (nr_inner (forget_neighbor k root)) = has_wallet (nr_inner root)"
    by (simp_all add: has_wallet_def forget_neighbor_def increment_version_def remove_half_neighbor_key_def)
  ultimately show ?thesis
    using d(2) root' r(5, 7) by (simp add: nb_ok_def)
qed

lemma nb_ok_mut_metadata:
  assumes "nb_ok db" "\<And>n. nr_inner (change n) = nr_inner n" "\<And>n. nr_node_addr_opt (change n) = nr_node_addr_opt n"
  shows "nb_ok (node_by_key_mut k change db)"
proof -
  have half: "half_neighbor_keys (change n) = half_neighbor_keys n" for n
    by (simp add: half_neighbor_keys_def assms(2))
  obtain root where r: "db_root db = Ok root" "node_by_key db (this_node db) = Some root"
    "\<And>k. k \<in> set (half_neighbor_keys root) \<Longrightarrow> \<exists>n. node_by_key db k = Some n \<and> nr_node_addr_opt n \<noteq> None"
    "nri_accepts_connections (nr_inner root) \<Longrightarrow> nr_node_addr_opt root \<noteq> None"
    "this_node db \<notin> set (half_neighbor_keys root)" "has_wallet (nr_inner root)"
    using nb_ok_root [OF assms(1)] by metis
  have present: "\<exists>n. node_by_key db j = Some n" if "j \<in> set (half_neighbor_keys root)" for j
    using r(3) [OF that] by blast
  have "db_ok (node_by_key_mut k change db)"
    by (rule db_ok_node_by_key_mut [OF nb_ok_db_ok [OF assms(1)]])
       (use r(2, 5) present db_ok_key [OF nb_ok_db_ok [OF assms(1)]]
          db_ok_neighbors [OF nb_ok_db_ok [OF assms(1)]] in \<open>auto simp: assms(2, 3) half\<close>)
  moreover have "db_root (node_by_key_mut k change db) = Ok (if k = this_node db then change root else root)"
    using r(2) by (simp add: db_root_def)
  moreover have "\<exists>m. node_by_key (node_by_key_mut k change db) j = Some m \<and> nr_node_addr_opt m \<noteq> None"
    if "j \<in> set (half_neighbor_keys root)" for j
    using r(3) [OF that] by (auto simp: assms(3))
  ultimately show ?thesis
    using r(4, 6) by (auto simp add: nb_ok_def half assms(2, 3) simp del: node_by_key_mut_simps)
qed

lemma nb_ok_new:
  assumes "env_signs (ae_records env)" "neighborhood_new env mode w cw chain = Ok s"
  shows "nb_ok (nh_database s)"
proof -
  let ?k = "cd_public_key (ae_cryptde env)"
  obtain db where db: "database_new (ae_records env) ?k mode w = Ok db" "nh_database s = db"
    using assms by (auto simp: neighborhood_new_def elim!: bind_run_InrE split: if_split_asm)
  note wallet = database_new_wallet [OF assms(1) db(1)]
  obtain root where root: "db = add_arbitrary_node root \<lparr> this_node = ?k, by_public_key = [], by_ip_addr = [] \<rparr>"
    "nr_public_key root = ?k" "half_neighbor_keys root = []"
    "nri_accepts_connections (nr_inner root) = mode_accepts_connections mode" "nr_node_addr_opt root = mode_node_addr_opt mode"
    "has_wallet (nr_inner root)"
    using database_new_shape [OF assms(1) wallet, of ?k mode] db(1) by auto
  moreover have "db_ok db"
    using db_ok_new [OF assms(1) wallet, of ?k mode] db(1) by auto
  moreover have "mode_accepts_connections mode \<Longrightarrow> mode_node_addr_opt mode \<noteq> None"
    by (cases mode) auto
  moreover have "db_root db = Ok root"
    using root by (simp add: db_root_def)
  ultimately show ?thesis
    by (simp add: nb_ok_def db(2))
qed

lemma nb_ok_after_remove:
  assumes "env_ok (ae_records env)" "nb_ok (nh_database s)" "k \<noteq> this_node (nh_database s)"
    "nh_remove_neighbor env s k = Ok (outs, s') \<or> handle_remove_neighbor env s k = Ok (outs, s')"
  shows "nb_ok (nh_database s')"
proof -
  obtain r db where db: "db_remove_neighbor k (nh_database s) = Ok (r, db)"
    "nh_database s' = db \<or> root_mut (nr_regenerate_signed_gossip (ae_records env)) db = Ok (nh_database s')"
    using remove_database [OF assms(4)] by metis
  have "nb_ok db"
    by (rule nb_ok_remove [OF assms(2, 3) db(1)])
  then show ?thesis
    using db(2) nb_ok_resign assms(1) unfolding env_ok_def by metis
qed

lemma decoded_ok: "decodes_sets env \<Longrightarrow> agrs_ok (decoded env g)"
  using decoded_from by (fastforce simp: agrs_ok_def decodes_sets_def)

lemma nb_ok_gossip:
  assumes "env_ok (ae_records env)" "decodes_sets env" "nb_ok (nh_database s)"
    "handle_gossip env s g src = Ok (outs, s')"
  shows "nb_ok (nh_database s') \<and> evolves (nh_database s) (nh_database s')"
  using assms(4)
proof (cases rule: handle_gossip_cases)
  case accepted
  obtain r db where db: "acceptor_handle (ae_records env) (nh_database s) (decoded env g) src = Ok (r, db)"
    "nh_database s' = db \<or> root_mut (nr_regenerate_signed_gossip (ae_records env)) db = Ok (nh_database s')"
    using handle_agrs_database [OF accepted(1)] by metis
  have "nb_ok db \<and> evolves (nh_database s) db"
    using acceptor_keeps [OF assms(1, 3) decoded_ok [OF assms(2)] db(1)] by simp
  then show ?thesis
    using db(2) nb_ok_resign [of "ae_records env" db "nh_database s'"] assms(1) evolves_trans
    by (auto simp: env_ok_def)
qed (use assms(3) in simp)

lemma nb_ok_step:
  assumes "env_ok (ae_records env)" "decodes_sets env" "nb_ok (nh_database s)"
    "neighborhood_step env s e outs s'" "keeps_own_address s e"
  shows "nb_ok (nh_database s')"
  using assms(4)
proof cases
  case (gossip g src)
  then show ?thesis using nb_ok_gossip [OF assms(1-3)] by blast
next
  case (remove k)
  then show ?thesis
    using nb_ok_after_remove [OF assms(1, 3), of k outs s'] assms(5) by (simp add: keeps_own_address_def)
next
  case (shutdown msg)
  from shutdown(2) show ?thesis
  proof (cases rule: shutdown_database)
    case (2 n)
    then show ?thesis
      using nb_ok_after_remove [OF assms(1, 3), of "nr_public_key n" outs s'] assms(5) shutdown
      by (simp add: keeps_own_address_def)
  qed (use assms(3) in simp)
next
  case (desirable k flag)
  then show ?thesis
    using nb_ok_mut_metadata [OF assms(3), of "set_desirable flag" k]
    by (simp add: handle_node_record_metadata_def set_desirable_def nr_node_addr_opt_def)
next
  case (route_query msg answer)
  then show ?thesis using assms(3) route_query_database by metis
qed (use assms(3) in \<open>simp_all add: neighborhood_bind_def handle_set_consuming_wallet_def\<close>)

section \<open>Properties\<close>

text \<open>C2. The neighborhood never holds a forged record: whatever messages the actor has handled since
  it was created, the record it keeps of any other node carries signed data that decodes to just that
  record, with a signature that is valid for the key of that node.\<close>

theorem records_authentic:
  assumes "neighborhood_new env mode earning_wallet consuming_wallet chain_id = Ok s0"
    and "history env s0 es s" "node_by_key (nh_database s) k = Some n" "k \<noteq> cd_public_key (ae_cryptde env)"
  shows "from_slice (inner_codec (ae_records env)) (nr_signed_gossip n) = Ok (nr_inner n) \<and>
    cd_verify_signature (ae_cryptde env) (nr_signed_gossip n) (nr_signature n) k = Ok True"
proof -
  have "authentic env (nh_database s)"
    using assms(2) authentic_new [OF assms(1)]
    by (rule history_invariant [where P = "\<lambda>s. authentic env (nh_database s)"]) (rule authentic_step)
  then show ?thesis
    using assms(3, 4) by (simp add: authentic_def)
qed

text \<open>C14. The neighborhood keeps its database in order: in every state the actor reaches from its
  creation, as long as no removal or stream shutdown was about its own key or address, the database
  satisfies its representation invariant, every listed neighbor is known with its address, and the
  node itself has an address if it accepts connections.\<close>

theorem neighborhood_invariant:
  assumes "neighborhood_new env mode earning_wallet consuming_wallet chain_id = Ok s0"
    and "history env s0 es s" "\<And>r e. (r, e) \<in> set es \<Longrightarrow> keeps_own_address r e"
    and "env_ok (ae_records env)" "decodes_sets env"
  shows "nb_ok (nh_database s)"
  using assms(2)
proof (rule history_invariant [where P = "\<lambda>s. nb_ok (nh_database s)"])
  show "nb_ok (nh_database s0)"
    using nb_ok_new [OF _ assms(1)] assms(4) by (simp add: env_ok_def)
qed (use nb_ok_step [OF assms(4, 5)] assms(3) in blast)

text \<open>C36. A stream shutdown reported for the node's own address disables the node: the shutdown itself is
  handled quietly, but it takes the node's own address away, and from then on gossip about three or
  more nodes, one of them with an address, panics.\<close>

theorem own_shutdown_disables:
  assumes "nb_ok (nh_database s)" "db_root (nh_database s) = Ok root" "nri_accepts_connections (nr_inner root)"
    and "node_by_ip (nh_database s) (ip peer) = Some root"
    and "3 \<le> length agrs" "\<exists>agr \<in> set agrs. agr_node_addr_opt agr \<noteq> None"
  shows "\<exists>s'. handle_stream_shutdown_msg env s
        \<lparr> ssm_peer_addr = peer, ssm_stream_type = Clandestine, report_to_counterpart = report \<rparr> = Ok ([], s') \<and>
      handle_agrs env s' agrs src = Err ExpectFailed"
proof -
  let ?db = "nh_database s"
  obtain r where r: "db_root ?db = Ok r" "node_by_key ?db (this_node ?db) = Some r"
    "nr_public_key r = this_node ?db" "this_node ?db \<notin> set (half_neighbor_keys r)"
    using nb_ok_root [OF assms(1)] by metis
  then have "r = root"
    using assms(2) by simp
  note r = r [unfolded this]
  obtain db where db: "db_remove_neighbor (this_node ?db) ?db = Ok (Ok False, db)" "this_node db = this_node ?db"
    "node_by_key db (this_node ?db) = Some (forget_neighbor (this_node ?db) (unset_node_addr root))"
    by (rule db_remove_neighbor_effect [OF nb_ok_db_ok [OF assms(1)] r(2) assms(2)]) (simp add: r(4))
  have root': "db_root db = Ok (unset_node_addr root)"
    using db(2, 3) r(4) by (simp add: db_root_def forget_neighbor_def)
  obtain first rest where agrs: "filter (\<lambda>agr. agr_node_addr_opt agr \<noteq> None) agrs = first # rest"
    using assms(6) by (cases "filter (\<lambda>agr. agr_node_addr_opt agr \<noteq> None) agrs") (auto simp: filter_empty_conv)
  then obtain a where a: "agr_node_addr_opt first = Some a"
    by (metis (mono_tags, lifting) filter_eq_ConsD not_None_eq)
  have "find_impostor (unset_node_addr root) (first # rest) = Err ExpectFailed"
    by (simp add: find_impostor_def ip_of_def a)
  then have "standard_qualifies db agrs src = Err ExpectFailed"
    using assms(3) root' unfolding standard_qualifies_def Let_def agrs by simp
  then have "acceptor_handle (ae_records env) db agrs src = Err ExpectFailed"
    using assms(5)
    by (auto simp: acceptor_handle_def gossip_handlers_def debut_qualifies_def pass_qualifies_def
        introduction_qualifies_def verify_size_def)
  then have "handle_agrs env (s\<lparr> nh_database := db \<rparr>) agrs src = Err ExpectFailed"
    by (simp add: handle_agrs_def)
  moreover have "handle_stream_shutdown_msg env s
      \<lparr> ssm_peer_addr = peer, ssm_stream_type = Clandestine, report_to_counterpart = report \<rparr> =
      Ok ([], s\<lparr> nh_database := db \<rparr>)"
    using assms(4) r(3) db(1) by (simp add: handle_stream_shutdown_msg_def nh_remove_neighbor_def)
  ultimately show ?thesis by blast
qed

section \<open>Examples\<close>

text \<open>A node with key 129 that starts alone and gets the debut of a node with key 137.\<close>

definition demo_inner :: node_record_inner where
  "demo_inner = nr_inner (example_record [137] [] None)"

definition demo_actor_env :: actor_env where
  "demo_actor_env =
     \<lparr> ae_records = \<lparr> env_cryptde = example_node 1,
         inner_codec = \<lparr> to_vec = (\<lambda>i. if has_wallet i then Ok (1 # nri_public_key i) else Err ''wallet''),
           from_slice = (\<lambda>b. if b = [1, 137] then Ok demo_inner else Err ''unreadable'') \<rparr>,
         key_order = id \<rparr>,
       ae_cores = demo_env \<rparr>"

definition demo_mode :: neighborhood_mode where
  "demo_mode = Standard (example_addr 1) [] DEFAULT_RATE_PACK"

definition demo_earning_wallet :: wallet where
  "demo_earning_wallet = \<lparr> kind = Address (replicate 20 1) \<rparr>"

definition demo_start :: neighborhood where
  "demo_start = neighborhood_bind (projr (neighborhood_new demo_actor_env demo_mode demo_earning_wallet None 1))"

definition demo_gossip :: gossip where
  "demo_gossip = \<lparr> gossip_version = DataVersion 0 0 0, node_records =
     [\<lparr> gnr_signed_data = [1, 137], gnr_signature = projr (cd_sign (example_node 9) [1, 137]),
        gnr_node_addr_opt = Some (example_addr 9) \<rparr>] \<rparr>"

definition demo_source :: socket_addr where
  "demo_source = \<lparr> ip = V4 1 2 3 9, port = 1234 \<rparr>"

lemma demo_gossip_adopted:
  "case handle_gossip demo_actor_env demo_start demo_gossip demo_source of
     Inl _ \<Rightarrow> False
   | Inr (outs, s) \<Rightarrow> (case node_by_key (nh_database s) [137] of Some n \<Rightarrow> nr_inner n = demo_inner | None \<Rightarrow> False)"
  by code_simp

lemma demo_new:
  "neighborhood_new demo_actor_env demo_mode demo_earning_wallet None 1 =
     Ok (projr (neighborhood_new demo_actor_env demo_mode demo_earning_wallet None 1))"
proof -
  have "\<not> isl (neighborhood_new demo_actor_env demo_mode demo_earning_wallet None 1)"
    by code_simp
  then show ?thesis by simp
qed

lemma demo_history:
  obtains outs s n where "handle_gossip demo_actor_env demo_start demo_gossip demo_source = Ok (outs, s)"
    "history demo_actor_env (projr (neighborhood_new demo_actor_env demo_mode demo_earning_wallet None 1))
       [(projr (neighborhood_new demo_actor_env demo_mode demo_earning_wallet None 1), Bind),
        (demo_start, IncomingGossip demo_gossip demo_source)] s"
    "node_by_key (nh_database s) [137] = Some n" "nr_inner n = demo_inner"
proof -
  obtain outs s n where s: "handle_gossip demo_actor_env demo_start demo_gossip demo_source = Ok (outs, s)"
    "node_by_key (nh_database s) [137] = Some n" "nr_inner n = demo_inner"
    using demo_gossip_adopted by (auto split: sum.splits option.splits)
  have "history demo_actor_env (projr (neighborhood_new demo_actor_env demo_mode demo_earning_wallet None 1))
      [(projr (neighborhood_new demo_actor_env demo_mode demo_earning_wallet None 1), Bind)] demo_start"
    unfolding demo_start_def using history.continues [OF history.begins neighborhood_step.bind] by simp
  then have "history demo_actor_env (projr (neighborhood_new demo_actor_env demo_mode demo_earning_wallet None 1))
      ([(projr (neighborhood_new demo_actor_env demo_mode demo_earning_wallet None 1), Bind)] @
       [(demo_start, IncomingGossip demo_gossip demo_source)]) s"
    by (rule history.continues) (rule neighborhood_step.gossip [OF s(1)])
  then show thesis
    using that s by simp
qed

lemma demo_key: "cd_public_key (ae_cryptde demo_actor_env) = [129]"
  by code_simp

theorem records_authentic_witness:
  "\<exists>outs s n. handle_gossip demo_actor_env demo_start demo_gossip demo_source = Ok (outs, s) \<and>
     node_by_key (nh_database s) [137] = Some n \<and>
     cd_verify_signature (ae_cryptde demo_actor_env) (nr_signed_gossip n) (nr_signature n) [137] = Ok True"
proof -
  obtain outs s n where s: "handle_gossip demo_actor_env demo_start demo_gossip demo_source = Ok (outs, s)"
    "history demo_actor_env (projr (neighborhood_new demo_actor_env demo_mode demo_earning_wallet None 1))
       [(projr (neighborhood_new demo_actor_env demo_mode demo_earning_wallet None 1), Bind),
        (demo_start, IncomingGossip demo_gossip demo_source)] s"
    "node_by_key (nh_database s) [137] = Some n"
    using demo_history by metis
  have "[137] \<noteq> cd_public_key (ae_cryptde demo_actor_env)"
    by (simp add: demo_key)
  from records_authentic [OF demo_new s(2, 3) this] show ?thesis
    using s by blast
qed

lemma demo_env_ok: "env_ok (ae_records demo_actor_env)" "decodes_sets demo_actor_env"
proof -
  have "\<exists>sig. cd_sign (example_node 1) sg = Inr sig" for sg
    by (simp add: example_node_def null_cryptde_def null_sign_def null_hash_def null_new_def encode_with_key_data_def
        example_libraries_def Let_def)
  then show "env_ok (ae_records demo_actor_env)"
    by (simp add: env_ok_def env_signs_def key_order_ok_def demo_actor_env_def)
  show "decodes_sets demo_actor_env"
    by (auto simp: decodes_sets_def demo_actor_env_def demo_inner_def example_record_def bs_ok_def split: if_splits)
qed

theorem neighborhood_invariant_witness:
  "\<exists>outs s. handle_gossip demo_actor_env demo_start demo_gossip demo_source = Ok (outs, s) \<and> nb_ok (nh_database s)"
proof -
  obtain outs s where s: "handle_gossip demo_actor_env demo_start demo_gossip demo_source = Ok (outs, s)"
    "history demo_actor_env (projr (neighborhood_new demo_actor_env demo_mode demo_earning_wallet None 1))
       [(projr (neighborhood_new demo_actor_env demo_mode demo_earning_wallet None 1), Bind),
        (demo_start, IncomingGossip demo_gossip demo_source)] s"
    using demo_history by metis
  have "keeps_own_address r e" if "(r, e) \<in> set [(projr (neighborhood_new demo_actor_env demo_mode demo_earning_wallet None 1), Bind),
        (demo_start, IncomingGossip demo_gossip demo_source)]" for r e
    using that by (auto simp: keeps_own_address_def)
  from neighborhood_invariant [OF demo_new s(2) this demo_env_ok] show ?thesis
    using s(1) by blast
qed

definition demo_lone :: neighborhood where
  "demo_lone =
     \<lparr> hopper_bound = True, hopper_no_lookup_bound = True, nh_database = example_db,
       consuming_wallet_opt = None, next_return_route_id = 0, initial_neighbors = [], nh_chain_id = 1 \<rparr>"

theorem own_shutdown_disables_witness:
  "\<exists>s'. handle_stream_shutdown_msg demo_actor_env demo_lone
        \<lparr> ssm_peer_addr = \<lparr> ip = V4 1 2 3 1, port = 4000 \<rparr>, ssm_stream_type = Clandestine,
          report_to_counterpart = True \<rparr> = Ok ([], s') \<and>
      handle_agrs demo_actor_env s' [example_agr [2] None, example_agr [3] None, example_agr [4] (Some (example_addr 4))]
        example_source = Err ExpectFailed"
proof (rule own_shutdown_disables)
  show "nb_ok (nh_database demo_lone)"
    "db_root (nh_database demo_lone) = Ok (example_record [1] [[2]] (Some (example_addr 1)))"
    by (simp_all add: demo_lone_def example_nb_ok)
  show "node_by_ip (nh_database demo_lone) (ip \<lparr> ip = V4 1 2 3 1, port = 4000 \<rparr>) =
      Some (example_record [1] [[2]] (Some (example_addr 1)))"
    by (simp add: demo_lone_def node_by_ip_def example_db_nodes) (simp add: example_db_def hm_get_def node_by_key_def)
qed simp_all

end
