(* ===== verification/GossipTransport.thy ===== *)
theory GossipTransport
  imports NeighborhoodSafety HopperService
begin

text \<open>
  The neighborhood and the hopper together: the gossip that a node sends to its neighbors after its
  database has changed arrives at their neighborhood actors.
\<close>

text \<open>The hopper of this node sends the package to the node with the given cryptographic unit, and the
  hopper there, whatever its rates and bans, hands the gossip to its neighborhood actor.\<close>

definition delivers :: "actor_env \<Rightarrow> cryptde \<Rightarrow> incipient_cores_package \<Rightarrow> gossip \<Rightarrow> bool" where
  "delivers env b p g \<longleftrightarrow>
     (\<exists>m. consume (ae_cores env) \<lparr> cs_cryptde = ae_cryptde env \<rparr> p = Ok [ToDispatcher m] \<and>
        td_endpoint m = Key (cd_public_key b) \<and>
        (\<forall>rs bans src. rs_cryptde rs = b \<longrightarrow>
          (\<exists>e. route_inbound (ae_cores env) rs bans (inbound_from src (td_data m)) = Ok [ToNeighborhood e] \<and>
             ecp_payload e = g \<and> immediate_neighbor e = src \<and> paying_wallet e = None)))"

section \<open>One neighbor\<close>

context cryptde_family
begin

lemma single_hop_travelled:
  assumes "family (ae_cryptde env)" "family b"
    and "\<And>h. hop_payer h = None \<Longrightarrow> codec_roundtrips (hop_codec (ce_route (ae_cores env))) h"
  obtains r r1 r2 where "create_single_hop_route env (cd_public_key b) = Ok r"
    "shift (ce_route (ae_cores env)) (ae_cryptde env) r = (Ok (live_hop_new (cd_public_key b) None Hopper), r1)"
    "shift (ce_route (ae_cores env)) b r1 = (Ok (live_hop_new [] None Neighborhood), r2)"
proof -
  define renv where "renv = ce_route (ae_cores env)"
  define own where "own = ae_cryptde env"
  define hs where "hs = [live_hop_new (cd_public_key b) None Hopper, live_hop_new [] None Neighborhood]"
  have way: "itinerary (cd_public_key own) [own, b] hs"
    by (simp add: hs_def live_hop_new_def)
  have codecs: "codec_roundtrips (hop_codec renv) h" if "h \<in> set hs" for h
    using that assms(3) by (auto simp: hs_def live_hop_new_def renv_def)
  obtain es where es: "encode_hops renv hs (cd_public_key own) own = Ok es"
    "\<And>rest. \<exists>g. travel renv [own, b] \<lparr> route_hops = es @ rest \<rparr> = Ok (hs, \<lparr> route_hops = rest @ g \<rparr>)"
  proof -
    have fam: "family own" "\<And>p. p \<in> set [own, b] \<Longrightarrow> family p"
      using assms(1, 2) by (auto simp: own_def)
    show thesis
      using hops_travelled [OF fam codecs way] that by blast
  qed
  have pay: "payer_for renv None None key = Ok ((\<lambda>_. None) key)" for key
    by (simp add: payer_for_def)
  have "over_segment renv True None [cd_public_key own, cd_public_key b] Neighborhood None = Ok hs"
    using over_segment_Ok(2) [OF pay refl, of "cd_public_key own" "cd_public_key b" "[]"] by (simp add: hs_def)
  then have built: "create_single_hop_route env (cd_public_key b) = Ok \<lparr> route_hops = es \<rparr>"
    using es(1)
    by (simp add: create_single_hop_route_def one_way_def construct_def validate_route_segments_def
        back_segment_def index_def hops_to_route_def renv_def own_def)
  obtain g where "travel renv [own, b] \<lparr> route_hops = es \<rparr> = Ok (hs, \<lparr> route_hops = g \<rparr>)"
    using es(2) [of "[]"] by auto
  then obtain r1 r2 where "shift renv own \<lparr> route_hops = es \<rparr> = (Ok (live_hop_new (cd_public_key b) None Hopper), r1)"
    "shift renv b r1 = (Ok (live_hop_new [] None Neighborhood), r2)"
    by (auto simp: hs_def bind_run_eq_Inr split: prod.splits sum.splits)
  then show thesis
    using that built by (simp add: renv_def own_def)
qed

lemma gossip_to_neighbor_delivered:
  assumes "family (ae_cryptde env)" "family b" "cd_public_key b \<noteq> cd_public_key (ae_cryptde env)"
    and "\<And>h. hop_payer h = None \<Longrightarrow> codec_roundtrips (hop_codec (ce_route (ae_cores env))) h"
    and "\<And>p. codec_roundtrips (lcp_codec (ae_cores env)) p"
    and "codec_roundtrips (message_codec (ae_cores env)) (GossipMessage g)"
    and "produce (ae_records env) (nh_database s) (cd_public_key b) = Ok g" "hopper_bound s"
  shows "\<exists>p. gossip_to_neighbor env s (cd_public_key b) = Ok (SendPackage p) \<and> delivers env b p g"
proof -
  obtain r r1 r2 where r: "create_single_hop_route env (cd_public_key b) = Ok r"
    "shift (ce_route (ae_cores env)) (ae_cryptde env) r = (Ok (live_hop_new (cd_public_key b) None Hopper), r1)"
    "shift (ce_route (ae_cores env)) b r1 = (Ok (live_hop_new [] None Neighborhood), r2)"
    using single_hop_travelled [OF assms(1, 2, 4)] by metis
  obtain payload where payload:
    "encodex (message_codec (ae_cores env)) (ae_cryptde env) (cd_public_key b) (GossipMessage g) = Ok payload"
    "decodex (message_codec (ae_cores env)) b payload = Ok (GossipMessage g)"
    using encodex_decodex [OF assms(1, 2, 6)] by blast
  define lcp where "lcp = \<lparr> lcp_version = DataVersion 0 0 0, lcp_route = r1, lcp_payload = payload \<rparr>"
  obtain d where d: "encodex (lcp_codec (ae_cores env)) (ae_cryptde env) (cd_public_key b) lcp = Ok d"
    "decodex (lcp_codec (ae_cores env)) b d = Ok lcp"
    using encodex_decodex [OF assms(1, 2, 5)] by blast
  define m where "m = \<lparr> td_endpoint = Key (cd_public_key b), td_last_data = False,
      td_sequence_number = None, td_data = d \<rparr>"
  have package: "gossip_to_neighbor env s (cd_public_key b) = Ok (SendPackage \<lparr> icp_route = r, icp_payload = payload \<rparr>)"
    using r(1) payload(1) assms(7, 8) by (simp add: gossip_to_neighbor_def incipient_new_def)
  have launched: "consume (ae_cores env) \<lparr> cs_cryptde = ae_cryptde env \<rparr> \<lparr> icp_route = r, icp_payload = payload \<rparr> =
      Ok [ToDispatcher m]"
    using r(2) d(1) assms(3)
    by (simp add: consume_def from_incipient_def launch_lcp_def lcp_def m_def live_hop_new_def)
  have arrived: "\<exists>e. route_inbound (ae_cores env) rs bans (inbound_from src (td_data m)) = Ok [ToNeighborhood e] \<and>
      ecp_payload e = g \<and> immediate_neighbor e = src \<and> paying_wallet e = None" if "rs_cryptde rs = b" for rs bans src
    using that d(2) payload(2) shift_next_hop [OF r(3)]
    by (simp add: m_def route_inbound_def inbound_from_def route_data_def route_data_internally_def
        payer_owns_secret_key_def route_data_to_peripheral_component_def to_expired_def repack_def expired_new_def
        live_hop_new_def lcp_def Let_def)
  have "delivers env b \<lparr> icp_route = r, icp_payload = payload \<rparr> g"
    unfolding delivers_def by (intro exI [of _ m]) (use launched arrived in \<open>simp add: m_def\<close>)
  with package show ?thesis by blast
qed

section \<open>All neighbors\<close>

lemma gossip_delivered:
  assumes "env_ok (ae_records env)" "nb_ok (nh_database s)" "db_root (nh_database s) = Ok root" "hopper_bound s"
    and "this_node (nh_database s) = cd_public_key (ae_cryptde env)" "family (ae_cryptde env)"
    and "\<And>k. k \<in> set (half_neighbor_keys root) \<Longrightarrow> family (node k) \<and> cd_public_key (node k) = k"
    and "\<And>h. hop_payer h = None \<Longrightarrow> codec_roundtrips (hop_codec (ce_route (ae_cores env))) h"
    and "\<And>p. codec_roundtrips (lcp_codec (ae_cores env)) p"
    and "\<And>db k g. root_mut (nr_regenerate_signed_gossip (ae_records env)) (nh_database s) = Ok db \<Longrightarrow>
      k \<in> set (half_neighbor_keys root) \<Longrightarrow> produce (ae_records env) db k = Ok g \<Longrightarrow>
      codec_roundtrips (message_codec (ae_cores env)) (GossipMessage g)"
  shows "\<exists>outs s'. gossip_to_neighbors env s = Ok (outs, s') \<and> length outs = length (half_neighbor_keys root) \<and>
    nb_ok (nh_database s') \<and>
    (\<forall>k \<in> set (half_neighbor_keys root). \<exists>g p. produce (ae_records env) (nh_database s') k = Ok g \<and>
       SendPackage p \<in> set outs \<and> delivers env (node k) p g)"
proof -
  let ?db = "nh_database s"
  have signs: "env_signs (ae_records env)" "key_order_ok (ae_records env)"
    using assms(1) by (simp_all add: env_ok_def)
  obtain sg sig where resigned: "nr_regenerate_signed_gossip (ae_records env) root =
      Ok (root\<lparr> nr_signed_gossip := sg, nr_signature := sig \<rparr>)"
    using regenerate_Ok [OF signs(1)] nb_ok_root [OF assms(2)] assms(3) by (metis Inr_inject)
  define root' where "root' = root\<lparr> nr_signed_gossip := sg, nr_signature := sig \<rparr>"
  define db where "db = node_by_key_mut (this_node ?db) (\<lambda>_. root') ?db"
  define s' where "s' = s\<lparr> nh_database := db \<rparr>"
  have db: "root_mut (nr_regenerate_signed_gossip (ae_records env)) ?db = Ok db"
    using assms(3) resigned by (simp add: db_def root'_def)
  have ok: "nb_ok db"
    using nb_ok_resign [OF signs(1) assms(2) db] by simp
  have root': "db_root db = Ok root'" "half_neighbor_keys root' = half_neighbor_keys root"
    using assms(3) by (auto simp: db_def root'_def db_root_def expect_eq_Inr half_neighbor_keys_def)
  have known: "\<exists>n. node_by_key db k = Some n" "k \<noteq> cd_public_key (ae_cryptde env)"
    if "k \<in> set (half_neighbor_keys root)" for k
    using that root_neighbors_present [OF nb_ok_db_ok [OF ok] root'(1), of k] root'(2)
      db_ok_root [OF nb_ok_db_ok [OF assms(2)]] assms(3, 5) by auto
  have "\<exists>p g. gossip_to_neighbor env s' k = Ok (SendPackage p) \<and>
      produce (ae_records env) db k = Ok g \<and> delivers env (node k) p g"
    if k: "k \<in> set (half_neighbor_keys root)" for k
  proof -
    obtain n where "node_by_key db k = Some n"
      using known(1) [OF k] by blast
    then obtain g where g: "produce (ae_records env) db k = Ok g"
      using produce_Ok [OF nb_ok_db_ok [OF ok] signs(2)] by blast
    have node: "family (node k)" "cd_public_key (node k) = k"
      using assms(7) [OF k] by simp_all
    have "\<exists>p. gossip_to_neighbor env s' (cd_public_key (node k)) = Ok (SendPackage p) \<and> delivers env (node k) p g"
      by (rule gossip_to_neighbor_delivered [OF assms(6) node(1) _ assms(8, 9) assms(10) [OF db k g]])
         (use node(2) known(2) [OF k] g assms(4) in \<open>simp_all add: s'_def\<close>)
    with g node(2) show ?thesis by auto
  qed
  then obtain p g where out: "\<And>k. k \<in> set (half_neighbor_keys root) \<Longrightarrow>
      gossip_to_neighbor env s' k = Ok (SendPackage (p k)) \<and>
      produce (ae_records env) db k = Ok (g k) \<and> delivers env (node k) (p k) (g k)"
    by metis
  define ks where "ks = key_order (ae_records env) (half_neighbor_keys root)"
  have "bs_ok (half_neighbor_keys root)"
    using db_ok_root [OF nb_ok_db_ok [OF assms(2)]] assms(3) by auto
  then have "distinct (half_neighbor_keys root)"
    by (simp add: bs_ok_def)
  then have ks: "set ks = set (half_neighbor_keys root)" "length ks = length (half_neighbor_keys root)"
    using signs(2) distinct_card [of ks] distinct_card [of "half_neighbor_keys root"]
    by (simp_all add: ks_def key_order_ok_def)
  have "map_run (gossip_to_neighbor env s') ks = Ok (map (\<lambda>k. SendPackage (p k)) ks)"
    by (rule map_run_total) (use out ks in auto)
  then have sent: "gossip_to_neighbors env s = Ok (map (\<lambda>k. SendPackage (p k)) ks, s')"
    using db root' by (simp add: gossip_to_neighbors_def s'_def ks_def Let_def)
  show ?thesis
  proof (intro exI conjI ballI)
    show "gossip_to_neighbors env s = Ok (map (\<lambda>k. SendPackage (p k)) ks, s')"
      by (rule sent)
    show "length (map (\<lambda>k. SendPackage (p k)) ks) = length (half_neighbor_keys root)"
      using ks(2) by simp
    show "nb_ok (nh_database s')"
      using ok by (simp add: s'_def)
    fix k
    assume k: "k \<in> set (half_neighbor_keys root)"
    show "produce (ae_records env) (nh_database s') k = Ok (g k)" "delivers env (node k) (p k) (g k)"
      using out [OF k] by (simp_all add: s'_def)
    show "SendPackage (p k) \<in> set (map (\<lambda>k. SendPackage (p k)) ks)"
      using k ks(1) by simp
  qed
qed

end

section \<open>Properties\<close>

text \<open>C4. News travels: when a node tells its neighbors about its database, with either cryptographic
  implementation, nothing panics, exactly one package is sent for each neighbor, and each package,
  put on the network by this node's hopper and received by the hopper of the neighbor, delivers to the
  neighborhood actor there exactly the gossip that was produced for it, from the sender's address and
  free of charge.\<close>

theorem gossip_update_delivered:
  assumes "family = null_family lib \<or> family = real_family lib na chain_id"
    and "env_ok (ae_records env)" "nb_ok (nh_database s)" "db_root (nh_database s) = Ok root" "hopper_bound s"
    and "this_node (nh_database s) = cd_public_key (ae_cryptde env)" "family (ae_cryptde env)"
    and "\<And>k. k \<in> set (half_neighbor_keys root) \<Longrightarrow> family (node k) \<and> cd_public_key (node k) = k"
    and "\<And>h. hop_payer h = None \<Longrightarrow> codec_roundtrips (hop_codec (ce_route (ae_cores env))) h"
    and "\<And>p. codec_roundtrips (lcp_codec (ae_cores env)) p"
    and "\<And>db k g. root_mut (nr_regenerate_signed_gossip (ae_records env)) (nh_database s) = Ok db \<Longrightarrow>
      k \<in> set (half_neighbor_keys root) \<Longrightarrow> produce (ae_records env) db k = Ok g \<Longrightarrow>
      codec_roundtrips (message_codec (ae_cores env)) (GossipMessage g)"
  shows "\<exists>outs s'. gossip_to_neighbors env s = Ok (outs, s') \<and> length outs = length (half_neighbor_keys root) \<and>
    nb_ok (nh_database s') \<and>
    (\<forall>k \<in> set (half_neighbor_keys root). \<exists>g p. produce (ae_records env) (nh_database s') k = Ok g \<and>
       SendPackage p \<in> set outs \<and> delivers env (node k) p g)"
proof (rule disjE [OF assms(1)])
  assume "family = null_family lib"
  note members = assms(7, 8) [unfolded this]
  show ?thesis
    by (rule null.gossip_delivered [OF assms(2-6) members assms(9-11)])
next
  assume "family = real_family lib na chain_id"
  note members = assms(7, 8) [unfolded this]
  show ?thesis
    by (rule real.gossip_delivered [OF assms(2-6) members assms(9-11)])
qed

section \<open>Examples\<close>

text \<open>The node of the earlier example after the debut of node 137, with a serializer for the gossip
  it has to tell.\<close>

definition demo_after :: neighborhood where
  "demo_after = snd (projr (handle_gossip demo_actor_env demo_start demo_gossip demo_source))"

definition demo_told :: gossip where
  "demo_told = projr (produce (ae_records demo_actor_env)
     (projr (root_mut (nr_regenerate_signed_gossip (ae_records demo_actor_env)) (nh_database demo_after))) [137])"

definition demo_gossip_env :: actor_env where
  "demo_gossip_env = demo_actor_env\<lparr> ae_cores := demo_env\<lparr> message_codec :=
     \<lparr> to_vec = (\<lambda>_. Ok [1]), from_slice = (\<lambda>_. Ok (GossipMessage demo_told)) \<rparr> \<rparr> \<rparr>"

lemma demo_gossip_env_simps [simp]:
  "ae_records demo_gossip_env = ae_records demo_actor_env"
  "ce_route (ae_cores demo_gossip_env) = ce_route demo_env"
  "lcp_codec (ae_cores demo_gossip_env) = demo_lcp_codec"
  "env_cryptde (ae_records demo_actor_env) = example_node 1"
  "hop_codec (ce_route demo_env) = demo_hop_codec"
  by (simp_all add: demo_gossip_env_def demo_actor_env_def demo_env_def)

lemma demo_after_facts:
  "hopper_bound demo_after" "this_node (nh_database demo_after) = [129]"
  "case db_root (nh_database demo_after) of Inr root \<Rightarrow> half_neighbor_keys root = [[137]] | Inl _ \<Rightarrow> False"
  "cd_public_key (example_node 9) = [137]" "cd_public_key (example_node 1) = [129]"
  by code_simp+

lemma demo_after_ok: "nb_ok (nh_database demo_after)"
proof -
  obtain outs where h: "handle_gossip demo_actor_env demo_start demo_gossip demo_source = Ok (outs, demo_after)"
    using demo_gossip_adopted by (auto simp: demo_after_def split: sum.splits)
  have "nb_ok (nh_database demo_start)"
    using nb_ok_new [OF _ demo_new] demo_env_ok(1) by (simp add: demo_start_def neighborhood_bind_def env_ok_def)
  then show ?thesis
    using nb_ok_gossip [OF demo_env_ok _ h] by simp
qed

theorem gossip_update_delivered_witness:
  "\<exists>outs s' p g. gossip_to_neighbors demo_gossip_env demo_after = Ok (outs, s') \<and>
    SendPackage p \<in> set outs \<and> length outs = 1 \<and> delivers demo_gossip_env (example_node 9) p g"
proof -
  obtain root where root: "db_root (nh_database demo_after) = Ok root" "half_neighbor_keys root = [[137]]"
    using demo_after_facts(3) by (auto split: sum.splits)
  have told: "codec_roundtrips (message_codec (ae_cores demo_gossip_env)) (GossipMessage g)"
    if "root_mut (nr_regenerate_signed_gossip (ae_records demo_gossip_env)) (nh_database demo_after) = Ok db"
      "k \<in> set (half_neighbor_keys root)" "produce (ae_records demo_gossip_env) db k = Ok g" for db k g
  proof -
    have "demo_told = g"
      using that root(2) by (simp add: demo_told_def)
    then show ?thesis
      by (simp add: demo_gossip_env_def demo_env_def codec_roundtrips_def)
  qed
  have "\<exists>outs s'. gossip_to_neighbors demo_gossip_env demo_after = Ok (outs, s') \<and>
      length outs = length (half_neighbor_keys root) \<and> nb_ok (nh_database s') \<and>
      (\<forall>k \<in> set (half_neighbor_keys root). \<exists>g p. produce (ae_records demo_gossip_env) (nh_database s') k = Ok g \<and>
         SendPackage p \<in> set outs \<and> delivers demo_gossip_env (example_node 9) p g)"
  proof (rule gossip_update_delivered [where node = "\<lambda>_. example_node 9" and family = "null_family example_libraries",
        OF disjI1 [OF refl] _ demo_after_ok root(1) demo_after_facts(1) _ _ _ _ _ told])
    show "codec_roundtrips (hop_codec (ce_route (ae_cores demo_gossip_env))) h" if "hop_payer h = None" for h
      using that by (simp add: demo_hop_codec_roundtrips)
    show "codec_roundtrips (lcp_codec (ae_cores demo_gossip_env)) p" for p
      by (simp add: demo_lcp_codec_roundtrips)
  qed (use demo_env_ok(1) root(2) in \<open>simp_all add: demo_after_facts example_node_family\<close>)
  then show ?thesis
    using root(2) by auto
qed

end
