(* ===== verification/RouteQuery.thy ===== *)
theory RouteQuery
  imports NeighborhoodSafety
begin

text \<open>
  What the neighborhood answers to a route query: the routing engine, the expected services and the
  sealed route together. An answer is a route that the nodes of the two legs can travel, with the
  services to expect from each of them, under a fresh return route id.
\<close>

section \<open>Expected services\<close>

text \<open>Nothing is expected of this node, exit service of the other end of a leg, and routing of the
  nodes in between.\<close>

definition services_for :: "neighborhood_database \<Rightarrow> public_key list \<Rightarrow> expected_service list" where
  "services_for db keys = map (\<lambda>k. let inner = nr_inner (the (node_by_key db k)) in
     if k = this_node db then Nothing
     else if k = hd keys \<or> k = last keys then Exit k (nri_earning_wallet inner) (nri_rate_pack inner)
     else Routing k (nri_earning_wallet inner) (nri_rate_pack inner)) keys"

lemma collect_services_Ok:
  assumes "db_ok (nh_database s)" "\<And>k. k \<in> set keys \<Longrightarrow> node_by_key (nh_database s) k \<noteq> None"
  shows "collect_services s (Some a) (Some z) keys = Ok (Ok (map (\<lambda>k. let inner = nr_inner (the (node_by_key (nh_database s) k)) in
     if k = this_node (nh_database s) then Nothing
     else if k = a \<or> k = z then Exit k (nri_earning_wallet inner) (nri_rate_pack inner)
     else Routing k (nri_earning_wallet inner) (nri_rate_pack inner)) keys))"
  using assms(2)
proof (induction keys)
  case (Cons k keys)
  obtain root where "db_root (nh_database s) = Ok root" "nr_public_key root = this_node (nh_database s)"
    using db_ok_root [OF assms(1)] by metis
  moreover obtain n where "node_by_key (nh_database s) k = Some n"
    using Cons.prems [of k] by auto
  ultimately show ?case
    using Cons
    by (simp add: calculate_expected_service_def Let_def)
qed simp

lemma make_expected_services_Ok:
  assumes "db_ok (nh_database s)" "\<And>k. k \<in> set (seg_keys seg) \<Longrightarrow> node_by_key (nh_database s) k \<noteq> None" "seg_keys seg \<noteq> []"
  shows "make_expected_services s seg = Ok (Ok (services_for (nh_database s) (seg_keys seg)))"
proof -
  have "first (seg_keys seg) = Some (hd (seg_keys seg))" "first (rev (seg_keys seg)) = Some (last (seg_keys seg))"
    using assms(3) by (auto simp: first_def hd_rev split: list.splits)
  then show ?thesis
    using collect_services_Ok [OF assms(1, 2)] by (simp add: make_expected_services_def services_for_def)
qed

lemma routes_from_known:
  assumes "p \<in> routes_from db target hops direction [origin]" "node_by_key db origin \<noteq> None" "k \<in> set p"
  shows "node_by_key db k \<noteq> None"
proof -
  have "k = origin \<or> k \<in> set (tl p)"
    using routes_from_ends(1, 2) [OF assms(1)] assms(3) by (cases p) auto
  then show ?thesis
    using routes_from_ends(5) [OF assms(1), of k] assms(2) by (auto simp: may_enter_def)
qed

lemma routes_from_length:
  assumes "p \<in> routes_from db (Some t) hops direction [origin]"
  shows "hops + 1 \<le> length p"
  using assms by (auto simp: routes_from_def)

section \<open>The answer\<close>

text \<open>The two legs of an answer.\<close>

definition legs :: "neighborhood_database \<Rightarrow> route_query_message \<Rightarrow> public_key list \<Rightarrow> public_key list \<Rightarrow> bool" where
  "legs db msg over bk \<longleftrightarrow>
     over \<in> routes_from db (target_key_opt msg) (minimum_hop_count msg) Over [this_node db] \<and>
     bk \<in> routes_from db (Some (this_node db)) (minimum_hop_count msg) Back [last over]"

context cryptde_family
begin

lemma route_composed:
  assumes "db_ok (nh_database s)" "this_node (nh_database s) = cd_public_key (ae_cryptde env)"
    and "\<And>k. node_by_key (nh_database s) k \<noteq> None \<Longrightarrow> family (node k) \<and> cd_public_key (node k) = k"
    and "node (this_node (nh_database s)) = ae_cryptde env"
    and "legs (nh_database s) msg over bk" "0 < minimum_hop_count msg"
    and "consuming_wallet_opt s \<noteq> None \<or> length over \<le> 2 \<and> length bk \<le> 2"
    and "wallet_pays (ce_route (ae_cores env)) (consuming_wallet_opt s) (Some (contract_address (nh_chain_id s)))"
    and "hop_codec_law (ce_route (ae_cores env))"
    and "codec_roundtrips (id_codec (ce_route (ae_cores env))) (next_return_route_id s)"
  shows "\<exists>r hs r'. compose_route_query_response env s (route_segment_new over there) (route_segment_new bk home) =
      Ok (Ok \<lparr> rqr_route = r, rqr_expected_services = RoundTrip (services_for (nh_database s) over)
          (services_for (nh_database s) bk) (next_return_route_id s) \<rparr>,
        s\<lparr> next_return_route_id := next_return_route_id s + 1 \<rparr>) \<and>
    travel (ce_route (ae_cores env)) (map node (over @ tl bk)) r = Ok (hs, r') \<and>
    map hop_public_key hs = tl over @ tl bk @ [[]] \<and>
    map hop_component hs = replicate (length over - 1) Hopper @ there # replicate (length bk - 2) Hopper @ [home] \<and>
    list_all2 (payment_ok (ce_route (ae_cores env)) (consuming_wallet_opt s) (Some (contract_address (nh_chain_id s))))
      (map node (over @ tl bk)) hs \<and>
    route_id (ce_route (ae_cores env)) r' (ae_cryptde env) = Ok (next_return_route_id s)"
proof -
  let ?db = "nh_database s"
  have here: "node_by_key ?db (this_node ?db) \<noteq> None"
    using db_ok_root [OF assms(1)] by (metis option.distinct(1))
  have over: "over \<noteq> []" "hd over = this_node ?db" "\<And>k. k \<in> set over \<Longrightarrow> node_by_key ?db k \<noteq> None"
    using assms(5) routes_from_ends(1, 2) [of over] routes_from_known [OF _ here] unfolding legs_def by metis+
  then have "node_by_key ?db (last over) \<noteq> None"
    by simp
  then have bk: "bk \<noteq> []" "hd bk = last over" "last bk = this_node ?db" "2 \<le> length bk"
    "\<And>k. k \<in> set bk \<Longrightarrow> node_by_key ?db k \<noteq> None"
    using assms(5, 6) routes_from_ends [of bk ?db "Some (this_node ?db)" "minimum_hop_count msg" Back "last over"]
      routes_from_length [of bk] routes_from_known [of bk ?db "Some (this_node ?db)" "minimum_hop_count msg" Back "last over"]
    unfolding legs_def by fastforce+
  have keys: "map cd_public_key (map node ks) = ks" if "\<And>k. k \<in> set ks \<Longrightarrow> node_by_key ?db k \<noteq> None" for ks
    using that assms(3) by (induction ks) auto
  obtain r hs r' where r: "round_trip (ce_route (ae_cores env)) (route_segment_new over there)
      (route_segment_new bk home) (ae_cryptde env) (consuming_wallet_opt s) (next_return_route_id s)
      (Some (contract_address (nh_chain_id s))) = Ok (Ok r)"
    "travel (ce_route (ae_cores env)) (map node over @ tl (map node bk)) r = Ok (hs, r')"
    "map hop_public_key hs = map cd_public_key (tl (map node over) @ tl (map node bk)) @ [[]]"
    "map hop_component hs = replicate (length over - 1) Hopper @ there # replicate (length bk - 2) Hopper @ [home]"
    "list_all2 (payment_ok (ce_route (ae_cores env)) (consuming_wallet_opt s) (Some (contract_address (nh_chain_id s))))
      (map node over @ tl (map node bk)) hs"
    "route_id (ce_route (ae_cores env)) r' (ae_cryptde env) = Ok (next_return_route_id s)"
  proof -
    have fam: "family n" if "n \<in> set (map node over) \<union> set (map node bk)" for n
      using that assms(3) over(3) bk(5) by auto
    have ends: "hd (map node bk) = last (map node over)" "last (map node bk) = ae_cryptde env"
      using over(1) bk(1-3) assms(4) by (simp_all add: hd_map last_map)
    have len: "2 \<le> length (map node bk)" "map node over \<noteq> []"
      using bk(4) over(1) by simp_all
    show thesis
      using round_trip_travelled [OF fam len(2, 1) ends assms(8-10), of there home] that keys [OF over(3)] keys [OF bk(5)]
      by auto
  qed
  have "compose_route_query_response env s (route_segment_new over there) (route_segment_new bk home) =
      Ok (Ok \<lparr> rqr_route = r, rqr_expected_services = RoundTrip (services_for ?db over) (services_for ?db bk)
          (next_return_route_id s) \<rparr>, s\<lparr> next_return_route_id := next_return_route_id s + 1 \<rparr>)"
    using r(1) over(1) bk(1) assms(7) make_expected_services_Ok [OF assms(1), of "route_segment_new over there"] over(3)
      make_expected_services_Ok [OF assms(1), of "route_segment_new bk home"] bk(5)
    by (auto simp: compose_route_query_response_def advance_return_route_id_def Let_def)
  moreover have "map cd_public_key (tl (map node over) @ tl (map node bk)) @ [[]] = tl over @ tl bk @ [[]]"
  proof -
    have "map cd_public_key (map node (tl over)) = tl over" "map cd_public_key (map node (tl bk)) = tl bk"
      by (rule keys, meson over(1, 3) bk(1, 5) list.set_sel(2))+
    then show ?thesis by (simp add: map_tl)
  qed
  ultimately show ?thesis
    using r by (intro exI [of _ r] exI [of _ hs] exI [of _ r']) (simp add: map_tl)
qed

end

lemma route_segments:
  assumes "db_ok (nh_database s)" "key_order_ok (ae_records env)" "this_node (nh_database s) = cd_public_key (ae_cryptde env)"
    and "return_component_opt msg = Some home"
  shows "(\<exists>e. make_round_trip_route env s msg = Ok (Err e, s) \<and>
      (routes_from (nh_database s) (target_key_opt msg) (minimum_hop_count msg) Over [this_node (nh_database s)] = {} \<or>
       (\<exists>over \<in> routes_from (nh_database s) (target_key_opt msg) (minimum_hop_count msg) Over [this_node (nh_database s)].
          routes_from (nh_database s) (Some (this_node (nh_database s))) (minimum_hop_count msg) Back [last over] = {}))) \<or>
    (\<exists>over bk. legs (nh_database s) msg over bk \<and> make_round_trip_route env s msg =
      compose_route_query_response env s (route_segment_new over (target_component msg)) (route_segment_new bk home))"
proof -
  let ?db = "nh_database s" and ?h = "minimum_hop_count msg" and ?t = "target_key_opt msg"
  have here: "node_by_key ?db (this_node ?db) \<noteq> None"
    using db_ok_root [OF assms(1)] by (metis option.distinct(1))
  show ?thesis
  proof (cases "routes_from ?db ?t ?h Over [this_node ?db] = {}")
    case True
    then have "make_route_segment (ae_records env) ?db (this_node ?db) ?t ?h (target_component msg) Over =
        Ok (Err (CouldNotFindRoutes ?h (this_node ?db) (target_component msg) ?t))"
      using make_route_segment_Ok [OF assms(1, 2) here, of ?t ?h Over "target_component msg"] by simp
    with True show ?thesis
      by (simp add: make_round_trip_route_def assms(3) [symmetric])
  next
    case False
    then obtain over where over: "over \<in> routes_from ?db ?t ?h Over [this_node ?db]"
      "make_route_segment (ae_records env) ?db (this_node ?db) ?t ?h (target_component msg) Over =
        Ok (Ok (route_segment_new over (target_component msg)))"
      using make_route_segment_Ok [OF assms(1, 2) here, of ?t ?h Over "target_component msg"] by auto
    have "over \<noteq> []"
      using routes_from_ends(1) [OF over(1)] .
    then have exit: "first (rev over) = Some (last over)" "node_by_key ?db (last over) \<noteq> None"
      using routes_from_known [OF over(1) here, of "last over"] by (auto simp: first_def hd_rev split: list.splits)
    note home_leg = make_route_segment_Ok [OF assms(1, 2) exit(2), of "Some (this_node ?db)" ?h Back home]
    show ?thesis
    proof (cases "routes_from ?db (Some (this_node ?db)) ?h Back [last over] = {}")
      case True
      then show ?thesis
        using home_leg over exit(1) assms(4) by (auto simp: make_round_trip_route_def assms(3) [symmetric])
    next
      case False
      then obtain bk where "bk \<in> routes_from ?db (Some (this_node ?db)) ?h Back [last over]"
        "make_route_segment (ae_records env) ?db (last over) (Some (this_node ?db)) ?h home Back =
          Ok (Ok (route_segment_new bk home))"
        using home_leg by auto
      then show ?thesis
        using over exit(1) assms(4) by (auto simp: make_round_trip_route_def assms(3) [symmetric] legs_def)
    qed
  qed
qed

text \<open>Without an answer the actor is unchanged, and there is no route out, or none back from the end
  of a route out, or no consuming wallet although a leg is longer than one hop. An answer has two legs
  as asked for; its route can be travelled by their nodes in order, each of which learns the next node,
  the component to hand the payload to, and the payment.\<close>

definition route_answer ::
    "actor_env \<Rightarrow> neighborhood \<Rightarrow> route_query_message \<Rightarrow> (public_key \<Rightarrow> cryptde) \<Rightarrow> component \<Rightarrow>
       route_query_response option \<Rightarrow> neighborhood \<Rightarrow> bool" where
  "route_answer env s msg node home answer s' \<longleftrightarrow>
     (let db = nh_database s; me = this_node db; hops = minimum_hop_count msg; out = routes_from db (target_key_opt msg) hops Over [me];
          renv = ce_route (ae_cores env)
      in case answer of
       None \<Rightarrow> s' = s \<and>
         (out = {} \<or> (\<exists>over \<in> out. routes_from db (Some me) hops Back [last over] = {}) \<or>
          consuming_wallet_opt s = None \<and> (\<exists>over bk. legs db msg over bk \<and> (2 < length over \<or> 2 < length bk)))
     | Some response \<Rightarrow> \<exists>over bk hs r'. legs db msg over bk \<and>
         rqr_expected_services response = RoundTrip (services_for db over) (services_for db bk) (next_return_route_id s) \<and>
         s' = s\<lparr> next_return_route_id := next_return_route_id s + 1 \<rparr> \<and>
         travel renv (map node (over @ tl bk)) (rqr_route response) = Ok (hs, r') \<and>
         map hop_public_key hs = tl over @ tl bk @ [[]] \<and>
         map hop_component hs = replicate (length over - 1) Hopper @ target_component msg #
           replicate (length bk - 2) Hopper @ [home] \<and>
         list_all2 (payment_ok renv (consuming_wallet_opt s) (Some (contract_address (nh_chain_id s))))
           (map node (over @ tl bk)) hs \<and>
         route_id renv r' (ae_cryptde env) = Ok (next_return_route_id s))"

context cryptde_family
begin

lemma route_query_answer:
  assumes "db_ok (nh_database s)" "key_order_ok (ae_records env)" "this_node (nh_database s) = cd_public_key (ae_cryptde env)"
    and "\<And>k. node_by_key (nh_database s) k \<noteq> None \<Longrightarrow> family (node k) \<and> cd_public_key (node k) = k"
    and "node (this_node (nh_database s)) = ae_cryptde env"
    and "return_component_opt msg = Some home" "0 < minimum_hop_count msg"
    and "wallet_pays (ce_route (ae_cores env)) (consuming_wallet_opt s) (Some (contract_address (nh_chain_id s)))"
    and "hop_codec_law (ce_route (ae_cores env))"
    and "codec_roundtrips (id_codec (ce_route (ae_cores env))) (next_return_route_id s)"
  shows "\<exists>answer s'. handle_route_query env s msg = Ok (answer, s') \<and> route_answer env s msg node home answer s'"
  using route_segments [OF assms(1-3, 6)]
proof (rule disjE, goal_cases)
  case 1
  then obtain e where e: "make_round_trip_route env s msg = Ok (Err e, s)"
    by blast
  then show ?case
    using 1 assms(7)
    by (intro exI [of _ None] exI [of _ s]) (auto simp: handle_route_query_def route_answer_def Let_def)
next
  case 2
  then obtain over bk where legs: "legs (nh_database s) msg over bk" and eq: "make_round_trip_route env s msg =
      compose_route_query_response env s (route_segment_new over (target_component msg)) (route_segment_new bk home)"
    by blast
  show ?case
  proof (cases "consuming_wallet_opt s = None \<and> (2 < length over \<or> 2 < length bk)")
    case True
    have "over \<noteq> []" "bk \<noteq> []"
      using legs routes_from_ends(1) unfolding legs_def by metis+
    then have "make_round_trip_route env s msg = Ok (Err NoConsumingWallet, s)"
      using True by (auto simp: eq compose_route_query_response_def)
    with True legs assms(7) show ?thesis
      by (intro exI [of _ None] exI [of _ s]) (auto simp: handle_route_query_def route_answer_def Let_def)
  next
    case False
    then have pays: "consuming_wallet_opt s \<noteq> None \<or> length over \<le> 2 \<and> length bk \<le> 2"
      by linarith
    obtain response s' where response: "make_round_trip_route env s msg = Ok (Ok response, s')"
      "route_answer env s msg node home (Some response) s'"
      using route_composed [OF assms(1, 3-5) legs assms(7) pays assms(8-10), of "target_component msg" home] legs
      unfolding eq route_answer_def Let_def option.case by fastforce
    then have "handle_route_query env s msg = Ok (Some response, s')"
      using assms(7) by (simp add: handle_route_query_def)
    with response(2) show ?thesis by blast
  qed
qed

end

section \<open>Properties\<close>

text \<open>C1. A route query is answered correctly: on a proper database whose nodes the node can seal for,
  the query does not panic. Without an answer the actor is unchanged, and then there is no route out,
  or none back from the end of a route out, or no consuming wallet although one of the legs is longer
  than one hop. Otherwise the answer has an outward leg and a return leg as asked for, its route can
  be travelled by the nodes of the two legs in their order, who learn the next node, the component to hand
  the payload to and a payment by the consuming wallet; the expected services name every node of each
  leg with its own wallet and rates, exit service at the far end and nothing of this node; and the
  return route id is the next one of the actor's counter, which wraps around.\<close>

theorem route_query_answered:
  assumes "family = null_family lib \<or> family = real_family lib na chain_id"
    and "db_ok (nh_database s)" "key_order_ok (ae_records env)" "this_node (nh_database s) = cd_public_key (ae_cryptde env)"
    and "\<And>k. node_by_key (nh_database s) k \<noteq> None \<Longrightarrow> family (node k) \<and> cd_public_key (node k) = k"
    and "node (this_node (nh_database s)) = ae_cryptde env"
    and "return_component_opt msg = Some home" "0 < minimum_hop_count msg"
    and "wallet_pays (ce_route (ae_cores env)) (consuming_wallet_opt s) (Some (contract_address (nh_chain_id s)))"
    and "hop_codec_law (ce_route (ae_cores env))"
    and "codec_roundtrips (id_codec (ce_route (ae_cores env))) (next_return_route_id s)"
  shows "\<exists>answer s'. handle_route_query env s msg = Ok (answer, s') \<and> route_answer env s msg node home answer s'"
proof (rule disjE [OF assms(1)])
  assume "family = null_family lib"
  note nodes = assms(5) [unfolded this]
  show ?thesis
    by (rule null.route_query_answer [OF assms(2-4) nodes assms(6-11)])
next
  assume "family = real_family lib na chain_id"
  note nodes = assms(5) [unfolded this]
  show ?thesis
    by (rule real.route_query_answer [OF assms(2-4) nodes assms(6-11)])
qed

section \<open>Examples\<close>

text \<open>Three nodes in a line, 129, 137 and 145, the first of which has a consuming wallet with a key
  pair: it asks for a route of two hops.\<close>

definition demo_line :: neighborhood where
  "demo_line =
     \<lparr> hopper_bound = True, hopper_no_lookup_bound = True,
       nh_database = \<lparr> this_node = [129],
         by_public_key = [([129], example_record [129] [[137]] (Some (example_addr 1))),
           ([137], example_record [137] [[129], [145]] (Some (example_addr 9))),
           ([145], example_record [145] [[137]] (Some (example_addr 17)))],
         by_ip_addr = [(V4 1 2 3 1, [129]), (V4 1 2 3 9, [137]), (V4 1 2 3 17, [145])] \<rparr>,
       consuming_wallet_opt = Some demo_wallet, next_return_route_id = 77, initial_neighbors = [], nh_chain_id = 1 \<rparr>"

lemma demo_line_nodes:
  "node_by_key (nh_database demo_line) k =
     (if k = [129] then Some (example_record [129] [[137]] (Some (example_addr 1)))
      else if k = [137] then Some (example_record [137] [[129], [145]] (Some (example_addr 9)))
      else if k = [145] then Some (example_record [145] [[137]] (Some (example_addr 17))) else None)"
  by (simp add: demo_line_def node_by_key_def hm_get_def)

lemma demo_line_simps [simp]:
  "this_node (nh_database demo_line) = [129]" "consuming_wallet_opt demo_line = Some demo_wallet"
  "next_return_route_id demo_line = 77"
  by (simp_all add: demo_line_def)

lemma demo_line_ok: "db_ok (nh_database demo_line)"
proof (rule db_okI, goal_cases)
  case (3 k n)
  then show ?case
    by (auto simp: demo_line_nodes bs_ok_def split: if_splits)
next
  case 4
  then show ?case
    by (simp add: demo_line_nodes)
next
  case (5 addr k)
  then have "addr = V4 1 2 3 1 \<and> k = [129] \<or> addr = V4 1 2 3 9 \<and> k = [137] \<or> addr = V4 1 2 3 17 \<and> k = [145]"
    by (simp add: demo_line_def hm_get_def split: if_splits)
  then show ?case
    by (elim disjE conjE) (simp_all add: demo_line_nodes example_addr_opt, simp_all add: example_addr_def)
qed (simp_all add: demo_line_def hm_ok_def)

lemma demo_line_answer:
  "case handle_route_query demo_actor_env demo_line (data_indefinite_route_request 2) of
     Inr (Some response, s') \<Rightarrow> next_return_route_id s' = 78
   | _ \<Rightarrow> False"
  by code_simp

theorem route_query_answered_witness:
  "\<exists>response s' over bk hs r'.
     handle_route_query demo_actor_env demo_line (data_indefinite_route_request 2) = Ok (Some response, s') \<and>
     legs (nh_database demo_line) (data_indefinite_route_request 2) over bk \<and>
     rqr_expected_services response = RoundTrip (services_for (nh_database demo_line) over)
       (services_for (nh_database demo_line) bk) 77 \<and>
     travel (ce_route demo_env)
       (map (\<lambda>k. if k = [129] then example_node 1 else if k = [137] then example_node 9 else example_node 17) (over @ tl bk))
       (rqr_route response) = Ok (hs, r') \<and>
     list_all2 (payment_ok (ce_route demo_env) (Some demo_wallet) (Some (contract_address 1)))
       (map (\<lambda>k. if k = [129] then example_node 1 else if k = [137] then example_node 9 else example_node 17) (over @ tl bk)) hs \<and>
     route_id (ce_route demo_env) r' (example_node 1) = Ok 77"
proof -
  let ?node = "\<lambda>k. if k = [129] then example_node 1 else if k = [137] then example_node 9 else example_node 17"
  have keys: "cd_public_key (example_node 9) = [137]" "cd_public_key (example_node 1) = [129]"
    "cd_public_key (example_node 17) = [145]"
    by code_simp+
  have crypt: "ae_cryptde demo_actor_env = example_node 1" "ce_route (ae_cores demo_actor_env) = ce_route demo_env"
    "id_codec (ce_route demo_env) = example_id_codec" "nh_chain_id demo_line = 1"
    by (simp_all add: demo_actor_env_def demo_env_def demo_line_def)
  have "\<exists>answer s'. handle_route_query demo_actor_env demo_line (data_indefinite_route_request 2) = Ok (answer, s') \<and>
      route_answer demo_actor_env demo_line (data_indefinite_route_request 2) ?node ProxyServer answer s'"
  proof (rule route_query_answered [where family = "null_family example_libraries", OF disjI1 [OF refl] demo_line_ok])
    show "key_order_ok (ae_records demo_actor_env)"
      using demo_env_ok(1) by (simp add: env_ok_def)
    show "null_family example_libraries (?node k) \<and> cd_public_key (?node k) = k"
      if "node_by_key (nh_database demo_line) k \<noteq> None" for k
      using that by (auto simp: demo_line_nodes keys example_node_family split: if_splits)
  qed (simp_all add: crypt keys demo_hop_codec_law example_id_codec_roundtrips demo_wallet_pays
      data_indefinite_route_request_def)
  moreover obtain response s' where "handle_route_query demo_actor_env demo_line (data_indefinite_route_request 2) =
      Ok (Some response, s')"
    using demo_line_answer by (auto split: sum.splits option.splits prod.splits)
  ultimately show ?thesis
    by (fastforce simp: route_answer_def crypt Let_def)
qed

end
