(* ===== verification/Accountant.thy ===== *)
theory Accountant
  imports HopperService "HOL-Library.Log_Nat"
begin

text \<open>
  The accountant: \<open>accountant/mod.rs\<close> with the tables \<open>payable\<close> and \<open>receivable\<close> behind
  \<open>accountant/payable_dao.rs\<close> and \<open>accountant/receivable_dao.rs\<close>, the table \<open>banned\<close> behind
  \<open>banned_dao.rs\<close>, and the start block of \<open>persistent_configuration.rs\<close>.

  A table is an association list by its primary key, the wallet address; each SQL statement of the
  source is a definition on it. Statements are taken to succeed: failures of the disk are not
  modelled. Sums in SQL are a parameter, since SQLite turns a sum that leaves the 64-bit range into
  a floating-point number; \<open>sqlite_adds\<close> says that it is exact within the range. Times are whole
  seconds since the epoch, and the current time is an argument.
\<close>

section \<open>Numbers\<close>

definition i64_ok :: "int \<Rightarrow> bool" where
  "i64_ok n \<longleftrightarrow> - (2 ^ 63) \<le> n \<and> n < 2 ^ 63"

text \<open>A 64-bit float as the rational number it stands for: the operations round to 53 bits, ties to
  even. All operands here come from 64-bit integers, so that overflow and subnormal numbers do not
  occur.\<close>

definition pow2 :: "int \<Rightarrow> rat" where
  "pow2 e = (if 0 \<le> e then 2 ^ nat e else 1 / 2 ^ nat (- e))"

definition rat_exponent :: "rat \<Rightarrow> int" where
  "rat_exponent x =
     (let (p, q) = quotient_of x; e = bitlen p - bitlen q
      in if pow2 e \<le> x then e else e - 1)"

definition round_half_even :: "rat \<Rightarrow> int" where
  "round_half_even x =
     (let f = \<lfloor>x\<rfloor>; d = x - of_int f
      in if d < 1 / 2 then f else if 1 / 2 < d then f + 1 else if even f then f else f + 1)"

definition f64_round :: "rat \<Rightarrow> rat" where
  "f64_round x =
     (if x = 0 then 0
      else let e = rat_exponent \<bar>x\<bar> - 52 in of_int (round_half_even (x / pow2 e)) * pow2 e)"

definition as_f64 :: "int \<Rightarrow> rat" where
  "as_f64 n = f64_round (of_int n)"

section \<open>Payment curves\<close>

record payment_curves =
  payment_suggested_after_sec :: int
  payment_grace_before_ban_sec :: int
  permanent_debt_allowed_gwub :: int
  balance_to_decrease_from_gwub :: int
  balance_decreases_for_sec :: int
  unban_when_balance_below_gwub :: int

definition SECONDS_PER_DAY :: int where
  "SECONDS_PER_DAY = 86400"

definition PAYMENT_CURVES :: payment_curves where
  "PAYMENT_CURVES =
     \<lparr> payment_suggested_after_sec = SECONDS_PER_DAY,
       payment_grace_before_ban_sec = SECONDS_PER_DAY,
       permanent_debt_allowed_gwub = 10000000,
       balance_to_decrease_from_gwub = 1000000000,
       balance_decreases_for_sec = 30 * SECONDS_PER_DAY,
       unban_when_balance_below_gwub = 10000000 \<rparr>"

definition sugg_and_grace :: "payment_curves \<Rightarrow> int \<Rightarrow> int" where
  "sugg_and_grace self now = now - payment_suggested_after_sec self - payment_grace_before_ban_sec self"

definition sugg_thru_decreasing :: "payment_curves \<Rightarrow> int \<Rightarrow> int" where
  "sugg_thru_decreasing self now = sugg_and_grace self now - balance_decreases_for_sec self"

section \<open>Tables\<close>

datatype sql_number = SqlInteger int | SqlReal rat

fun sql_value :: "sql_number \<Rightarrow> rat" where
  "sql_value (SqlInteger n) = of_int n"
| "sql_value (SqlReal x) = x"

record sqlite =
  sql_plus :: "sql_number \<Rightarrow> int \<Rightarrow> sql_number"
  sql_minus :: "sql_number \<Rightarrow> int \<Rightarrow> sql_number"

definition sqlite_adds :: "sqlite \<Rightarrow> bool" where
  "sqlite_adds sql \<longleftrightarrow>
     (\<forall>a b. i64_ok (a + b) \<longrightarrow> sql_plus sql (SqlInteger a) b = SqlInteger (a + b)) \<and>
     (\<forall>a b. i64_ok (a - b) \<longrightarrow> sql_minus sql (SqlInteger a) b = SqlInteger (a - b))"

text \<open>\<open>row.get\<close> of an integer column.\<close>

definition get_integer :: "sql_number \<Rightarrow> int run" where
  "get_integer n = (case n of SqlInteger i \<Rightarrow> Ok i | SqlReal _ \<Rightarrow> Err ExplicitPanic)"

definition from_time_t :: "int \<Rightarrow> int run" where
  "from_time_t time_t = (if time_t < 0 then Err ExplicitPanic else Ok time_t)"

record payable_row =
  p_balance :: sql_number
  p_last_paid :: int
  p_pending :: "bytes option"

record receivable_row =
  r_balance :: sql_number
  r_last_received :: int

record payable_account =
  pa_wallet :: wallet
  pa_balance :: int
  pa_last_paid_timestamp :: int
  pa_pending_payment_transaction :: "bytes option"

record receivable_account =
  ra_wallet :: wallet
  ra_balance :: int
  ra_last_received_timestamp :: int

record payment =
  pay_to :: wallet
  pay_amount :: u64
  pay_timestamp :: int
  pay_transaction :: bytes

record transaction =
  block_number :: u64
  tx_from :: wallet
  gwei_amount :: u64

datatype blockchain_error = InvalidUrl | BadAddress | InvalidResponse | QueryFailed | TransactionFailed string

type_synonym payable_table = "(bytes, payable_row) hashmap"
type_synonym receivable_table = "(bytes, receivable_row) hashmap"

record acct_env =
  ac_eth :: ethsign
  ac_sql :: sqlite

section \<open>PayableDao\<close>

definition i64_try_from :: "u64 \<Rightarrow> int run" where
  "i64_try_from amount = (if 2 ^ 63 \<le> uint amount then Err ExplicitPanic else Ok (uint amount))"

definition try_increase_balance ::
    "acct_env \<Rightarrow> int \<Rightarrow> wallet \<Rightarrow> u64 \<Rightarrow> payable_table \<Rightarrow> payable_table run" where
  "try_increase_balance env now wallet amount t =
     bind_run (i64_try_from amount) (\<lambda>balance.
     bind_run (wallet_address (ac_eth env) wallet) (\<lambda>address.
     Ok (case hm_get t address of
           None \<Rightarrow> hm_insert address \<lparr> p_balance = SqlInteger balance, p_last_paid = now, p_pending = None \<rparr> t
         | Some row \<Rightarrow> hm_insert address (row\<lparr> p_balance := sql_plus (ac_sql env) (p_balance row) balance \<rparr>) t)))"

definition try_decrease_balance ::
    "acct_env \<Rightarrow> wallet \<Rightarrow> u64 \<Rightarrow> int \<Rightarrow> bytes \<Rightarrow> payable_table \<Rightarrow> payable_table run" where
  "try_decrease_balance env wallet amount last_paid transaction_hash t =
     bind_run (i64_try_from amount) (\<lambda>balance.
     bind_run (wallet_address (ac_eth env) wallet) (\<lambda>address.
     Ok (case hm_get t address of
           None \<Rightarrow> hm_insert address \<lparr> p_balance = SqlInteger (0 - balance), p_last_paid = last_paid,
                     p_pending = Some transaction_hash \<rparr> t
         | Some row \<Rightarrow> hm_insert address (row\<lparr> p_balance := sql_minus (ac_sql env) (p_balance row) balance,
                         p_last_paid := last_paid, p_pending := Some transaction_hash \<rparr>) t)))"

definition more_money_payable :: "acct_env \<Rightarrow> int \<Rightarrow> wallet \<Rightarrow> u64 \<Rightarrow> payable_table \<Rightarrow> payable_table run" where
  "more_money_payable env now wallet amount t = try_increase_balance env now wallet amount t"

definition payment_sent :: "acct_env \<Rightarrow> payment \<Rightarrow> payable_table \<Rightarrow> payable_table run" where
  "payment_sent env payment t =
     try_decrease_balance env (pay_to payment) (pay_amount payment) (pay_timestamp payment) (pay_transaction payment) t"

definition payable_account_status :: "acct_env \<Rightarrow> payable_table \<Rightarrow> wallet \<Rightarrow> payable_account option run" where
  "payable_account_status env t wallet =
     bind_run (wallet_address (ac_eth env) wallet) (\<lambda>address.
     case hm_get t address of
       None \<Rightarrow> Ok None
     | Some row \<Rightarrow>
         bind_run (get_integer (p_balance row)) (\<lambda>balance.
         bind_run (from_time_t (p_last_paid row)) (\<lambda>last_paid.
         Ok (Some \<lparr> pa_wallet = wallet, pa_balance = balance, pa_last_paid_timestamp = last_paid,
                    pa_pending_payment_transaction = p_pending row \<rparr>))))"

definition non_pending_payables :: "payable_table \<Rightarrow> payable_account list run" where
  "non_pending_payables t =
     map_run (\<lambda>(address, row).
         bind_run (get_integer (p_balance row)) (\<lambda>balance.
         bind_run (from_time_t (p_last_paid row)) (\<lambda>last_paid.
         Ok \<lparr> pa_wallet = wallet_from_address address, pa_balance = balance, pa_last_paid_timestamp = last_paid,
              pa_pending_payment_transaction = None \<rparr>)))
       (filter (\<lambda>(_, row). p_pending row = None) t)"

section \<open>ReceivableDao\<close>

definition try_update :: "acct_env \<Rightarrow> wallet \<Rightarrow> u64 \<Rightarrow> receivable_table \<Rightarrow> (bool \<times> receivable_table) run" where
  "try_update env wallet amount t =
     bind_run (wallet_address (ac_eth env) wallet) (\<lambda>address.
     Ok (case hm_get t address of
           None \<Rightarrow> (False, t)
         | Some row \<Rightarrow> (True, hm_insert address (row\<lparr> r_balance := sql_plus (ac_sql env) (r_balance row) (sint amount) \<rparr>) t)))"

definition try_insert :: "acct_env \<Rightarrow> int \<Rightarrow> wallet \<Rightarrow> u64 \<Rightarrow> receivable_table \<Rightarrow> receivable_table run" where
  "try_insert env now wallet amount t =
     bind_run (wallet_address (ac_eth env) wallet) (\<lambda>address.
     Ok (hm_insert address \<lparr> r_balance = SqlInteger (sint amount), r_last_received = now \<rparr> t))"

definition more_money_receivable ::
    "acct_env \<Rightarrow> int \<Rightarrow> wallet \<Rightarrow> u64 \<Rightarrow> receivable_table \<Rightarrow> receivable_table run" where
  "more_money_receivable env now wallet amount t =
     bind_run (try_update env wallet amount t) (\<lambda>(updated, t').
     if updated then Ok t' else try_insert env now wallet amount t')"

definition pay_in :: "acct_env \<Rightarrow> int \<Rightarrow> transaction \<Rightarrow> receivable_table \<Rightarrow> receivable_table run" where
  "pay_in env now tx t =
     bind_run (wallet_address (ac_eth env) (tx_from tx)) (\<lambda>address.
     Ok (case hm_get t address of
           None \<Rightarrow> t
         | Some row \<Rightarrow> hm_insert address (row\<lparr> r_balance := sql_minus (ac_sql env) (r_balance row) (sint (gwei_amount tx)),
                         r_last_received := now \<rparr>) t))"

text \<open>Without payments the transaction is dropped and nothing is written.\<close>

definition try_multi_insert_payment ::
    "acct_env \<Rightarrow> int \<Rightarrow> transaction list \<Rightarrow> u64 \<times> receivable_table \<Rightarrow> (string + u64 \<times> receivable_table) run" where
  "try_multi_insert_payment env now payments state =
     (if payments = [] then Ok (Err ''no payments given'')
      else bind_run (fold_run (pay_in env now) payments (snd state)) (\<lambda>t.
           Ok (Ok (Max (set (map block_number payments)), t))))"

definition more_money_received ::
    "acct_env \<Rightarrow> int \<Rightarrow> transaction list \<Rightarrow> u64 \<times> receivable_table \<Rightarrow> (u64 \<times> receivable_table) run" where
  "more_money_received env now payments state =
     bind_run (try_multi_insert_payment env now payments state) (\<lambda>result.
     Ok (case result of Inl _ \<Rightarrow> state | Inr state' \<Rightarrow> state'))"

definition row_to_account :: "bytes \<times> receivable_row \<Rightarrow> receivable_account run" where
  "row_to_account entry =
     bind_run (get_integer (r_balance (snd entry))) (\<lambda>balance.
     bind_run (from_time_t (r_last_received (snd entry))) (\<lambda>last_received.
     Ok \<lparr> ra_wallet = wallet_from_address (fst entry), ra_balance = balance,
          ra_last_received_timestamp = last_received \<rparr>))"

definition receivable_account_status :: "acct_env \<Rightarrow> receivable_table \<Rightarrow> wallet \<Rightarrow> receivable_account option run" where
  "receivable_account_status env t wallet =
     bind_run (wallet_address (ac_eth env) wallet) (\<lambda>address.
     case hm_get t address of
       None \<Rightarrow> Ok None
     | Some row \<Rightarrow> bind_run (row_to_account (address, row)) (\<lambda>account. Ok (Some account)))"

definition receivables :: "receivable_table \<Rightarrow> receivable_account list run" where
  "receivables t = map_run row_to_account t"

definition new_delinquencies ::
    "int \<Rightarrow> payment_curves \<Rightarrow> bytes list \<Rightarrow> receivable_table \<Rightarrow> receivable_account list run" where
  "new_delinquencies now curves banned t =
     (let slope = f64_round (f64_round (as_f64 (permanent_debt_allowed_gwub curves) - as_f64 (balance_to_decrease_from_gwub curves)) /
            as_f64 (balance_decreases_for_sec curves));
          sg = sugg_and_grace curves now
      in map_run row_to_account
           (filter (\<lambda>(address, r).
               r_last_received r < sg \<and>
               f64_round (as_f64 (balance_to_decrease_from_gwub curves) +
                 f64_round (slope * as_f64 (sg - r_last_received r))) < sql_value (r_balance r) \<and>
               of_int (permanent_debt_allowed_gwub curves) < sql_value (r_balance r) \<and>
               \<not> List.member banned address) t))"

definition paid_delinquencies ::
    "payment_curves \<Rightarrow> bytes list \<Rightarrow> receivable_table \<Rightarrow> receivable_account list run" where
  "paid_delinquencies curves banned t =
     map_run row_to_account
       (filter (\<lambda>(address, r). List.member banned address \<and>
           sql_value (r_balance r) \<le> of_int (unban_when_balance_below_gwub curves)) t)"

section \<open>BannedDao\<close>

text \<open>The table \<open>banned\<close> and the cache. A row that is already there is a constraint violation, after
  which the cache is updated all the same.\<close>

definition dao_ban :: "acct_env \<Rightarrow> wallet \<Rightarrow> bytes list \<times> banned_cache \<Rightarrow> (bytes list \<times> banned_cache) run" where
  "dao_ban env wallet state =
     (let (table, cache) = state
      in bind_run (is_banned (ac_eth env) cache wallet) (\<lambda>already.
         if already then Ok state
         else bind_run (wallet_address (ac_eth env) wallet) (\<lambda>address.
              bind_run (ban_insert (ac_eth env) wallet cache) (\<lambda>cache'.
              Ok (List.insert address table, cache')))))"

definition dao_unban :: "acct_env \<Rightarrow> wallet \<Rightarrow> bytes list \<times> banned_cache \<Rightarrow> (bytes list \<times> banned_cache) run" where
  "dao_unban env wallet state =
     (let (table, cache) = state
      in bind_run (is_banned (ac_eth env) cache wallet) (\<lambda>already.
         if \<not> already then Ok state
         else bind_run (wallet_address (ac_eth env) wallet) (\<lambda>address.
              bind_run (ban_remove (ac_eth env) wallet cache) (\<lambda>cache'.
              Ok (removeAll address table, cache')))))"

definition ban_list :: "bytes list \<Rightarrow> wallet list" where
  "ban_list table = map wallet_from_address table"

definition load_cache :: "acct_env \<Rightarrow> bytes list \<Rightarrow> banned_cache \<Rightarrow> banned_cache run" where
  "load_cache env table cache = fold_run (ban_insert (ac_eth env)) (map wallet_from_address table) cache"

section \<open>The Accountant actor\<close>

record accountant =
  ac_consuming_wallet :: "wallet option"
  ac_earning_wallet :: wallet
  payable :: payable_table
  receivable :: receivable_table
  banned :: "bytes list"
  ban_cache :: banned_cache
  start_block :: u64
  ac_bound :: bool

datatype accountant_output =
    ReportAccountsPayable "payable_account list"
  | RetrieveTransactions u64 wallet
  | FinancialStatistics int int

definition accountant_new ::
    "wallet option \<Rightarrow> wallet \<Rightarrow> payable_table \<Rightarrow> receivable_table \<Rightarrow> bytes list \<Rightarrow> banned_cache \<Rightarrow> u64 \<Rightarrow> accountant" where
  "accountant_new consuming earning payable_rows receivable_rows banned_rows cache block =
     \<lparr> ac_consuming_wallet = consuming, ac_earning_wallet = earning, payable = payable_rows,
       receivable = receivable_rows, banned = banned_rows, ban_cache = cache, start_block = block,
       ac_bound = False \<rparr>"

definition our_wallet :: "acct_env \<Rightarrow> accountant \<Rightarrow> wallet \<Rightarrow> bool run" where
  "our_wallet env self wallet =
     bind_run (case ac_consuming_wallet self of
                 Some consuming \<Rightarrow>
                   bind_run (wallet_address (ac_eth env) consuming) (\<lambda>a.
                   bind_run (wallet_address (ac_eth env) wallet) (\<lambda>b. Ok (a = b)))
               | None \<Rightarrow> Ok False) (\<lambda>is_consuming.
     if is_consuming then Ok True
     else bind_run (wallet_address (ac_eth env) wallet) (\<lambda>a.
          bind_run (wallet_address (ac_eth env) (ac_earning_wallet self)) (\<lambda>b. Ok (a = b))))"

definition total_charge :: "u64 \<Rightarrow> u64 \<Rightarrow> nat \<Rightarrow> u64" where
  "total_charge service_rate byte_rate payload_size =
     (let byte_charge = byte_rate * of_nat payload_size in service_rate + byte_charge)"

definition record_service_provided ::
    "acct_env \<Rightarrow> int \<Rightarrow> u64 \<Rightarrow> u64 \<Rightarrow> nat \<Rightarrow> wallet \<Rightarrow> accountant \<Rightarrow> accountant run" where
  "record_service_provided env now service_rate byte_rate payload_size wallet self =
     bind_run (our_wallet env self wallet) (\<lambda>ours.
     if \<not> ours
     then bind_run (more_money_receivable env now wallet (total_charge service_rate byte_rate payload_size)
            (receivable self)) (\<lambda>t. Ok (self\<lparr> receivable := t \<rparr>))
     else Ok self)"

definition record_service_consumed ::
    "acct_env \<Rightarrow> int \<Rightarrow> u64 \<Rightarrow> u64 \<Rightarrow> nat \<Rightarrow> wallet \<Rightarrow> accountant \<Rightarrow> accountant run" where
  "record_service_consumed env now service_rate byte_rate payload_size wallet self =
     bind_run (our_wallet env self wallet) (\<lambda>ours.
     if \<not> ours
     then bind_run (more_money_payable env now wallet (total_charge service_rate byte_rate payload_size)
            (payable self)) (\<lambda>t. Ok (self\<lparr> payable := t \<rparr>))
     else Ok self)"

record report_exit_service_provided =
  xsp_paying_wallet :: wallet
  xsp_payload_size :: nat
  xsp_service_rate :: u64
  xsp_byte_rate :: u64

record report_routing_service_consumed =
  rsc_earning_wallet :: wallet
  rsc_payload_size :: nat
  rsc_service_rate :: u64
  rsc_byte_rate :: u64

record report_exit_service_consumed =
  xsc_earning_wallet :: wallet
  xsc_payload_size :: nat
  xsc_service_rate :: u64
  xsc_byte_rate :: u64

definition handle_routing_provided ::
    "acct_env \<Rightarrow> int \<Rightarrow> report_routing_service_provided \<Rightarrow> accountant \<Rightarrow> accountant run" where
  "handle_routing_provided env now msg self =
     record_service_provided env now (rrp_service_rate msg) (rrp_byte_rate msg) (rrp_payload_size msg)
       (rrp_paying_wallet msg) self"

definition handle_exit_provided ::
    "acct_env \<Rightarrow> int \<Rightarrow> report_exit_service_provided \<Rightarrow> accountant \<Rightarrow> accountant run" where
  "handle_exit_provided env now msg self =
     record_service_provided env now (xsp_service_rate msg) (xsp_byte_rate msg) (xsp_payload_size msg)
       (xsp_paying_wallet msg) self"

definition handle_routing_consumed ::
    "acct_env \<Rightarrow> int \<Rightarrow> report_routing_service_consumed \<Rightarrow> accountant \<Rightarrow> accountant run" where
  "handle_routing_consumed env now msg self =
     record_service_consumed env now (rsc_service_rate msg) (rsc_byte_rate msg) (rsc_payload_size msg)
       (rsc_earning_wallet msg) self"

definition handle_exit_consumed ::
    "acct_env \<Rightarrow> int \<Rightarrow> report_exit_service_consumed \<Rightarrow> accountant \<Rightarrow> accountant run" where
  "handle_exit_consumed env now msg self =
     record_service_consumed env now (xsc_service_rate msg) (xsc_byte_rate msg) (xsc_payload_size msg)
       (xsc_earning_wallet msg) self"

definition handle_received_payments :: "acct_env \<Rightarrow> int \<Rightarrow> transaction list \<Rightarrow> accountant \<Rightarrow> accountant run" where
  "handle_received_payments env now payments self =
     bind_run (more_money_received env now payments (start_block self, receivable self)) (\<lambda>(block, t).
     Ok (self\<lparr> start_block := block, receivable := t \<rparr>))"

definition handle_sent_payments ::
    "acct_env \<Rightarrow> (blockchain_error + payment) list \<Rightarrow> accountant \<Rightarrow> accountant run" where
  "handle_sent_payments env payments self =
     bind_run (fold_run (\<lambda>payment t. case payment of
           Inr p \<Rightarrow> payment_sent env p t
         | Inl _ \<Rightarrow> Ok t) payments (payable self)) (\<lambda>t.
     Ok (self\<lparr> payable := t \<rparr>))"

definition calculate_payout_threshold :: "int \<Rightarrow> rat" where
  "calculate_payout_threshold x =
     (let m = - f64_round (f64_round (as_f64 (balance_to_decrease_from_gwub PAYMENT_CURVES) -
              as_f64 (permanent_debt_allowed_gwub PAYMENT_CURVES)) /
            f64_round (as_f64 (balance_decreases_for_sec PAYMENT_CURVES) - as_f64 (payment_suggested_after_sec PAYMENT_CURVES)));
          b = f64_round (as_f64 (balance_to_decrease_from_gwub PAYMENT_CURVES) -
            f64_round (m * as_f64 (payment_suggested_after_sec PAYMENT_CURVES)))
      in f64_round (f64_round (m * as_f64 x) + b))"

definition should_pay :: "int \<Rightarrow> payable_account \<Rightarrow> bool run" where
  "should_pay now account =
     (if now < pa_last_paid_timestamp account then Err ExpectFailed
      else
        let time_since_last_paid = now - pa_last_paid_timestamp account
        in Ok (if time_since_last_paid \<le> payment_suggested_after_sec PAYMENT_CURVES then False
               else if pa_balance account \<le> permanent_debt_allowed_gwub PAYMENT_CURVES then False
               else calculate_payout_threshold time_since_last_paid < as_f64 (pa_balance account)))"

definition scan_for_payables :: "int \<Rightarrow> accountant \<Rightarrow> accountant_output list run" where
  "scan_for_payables now self =
     bind_run (non_pending_payables (payable self)) (\<lambda>accounts.
     bind_run (filter_run (should_pay now) accounts) (\<lambda>payables.
     if payables \<noteq> []
     then (if ac_bound self then Ok [ReportAccountsPayable payables] else Err ExpectFailed)
     else Ok []))"

definition scan_for_delinquencies :: "acct_env \<Rightarrow> int \<Rightarrow> accountant \<Rightarrow> accountant run" where
  "scan_for_delinquencies env now self =
     bind_run (new_delinquencies now PAYMENT_CURVES (banned self) (receivable self)) (\<lambda>delinquent.
     bind_run (fold_run (\<lambda>account. dao_ban env (ra_wallet account)) delinquent (banned self, ban_cache self)) (\<lambda>(table, cache).
     bind_run (paid_delinquencies PAYMENT_CURVES table (receivable self)) (\<lambda>paid.
     bind_run (fold_run (\<lambda>account. dao_unban env (ra_wallet account)) paid (table, cache)) (\<lambda>(table, cache).
     Ok (self\<lparr> banned := table, ban_cache := cache \<rparr>)))))"

definition scan_for_received_payments :: "accountant \<Rightarrow> accountant_output list run" where
  "scan_for_received_payments self =
     (if ac_bound self then Ok [RetrieveTransactions (start_block self) (ac_earning_wallet self)] else Err ExpectFailed)"

definition accountant_start :: "acct_env \<Rightarrow> int \<Rightarrow> accountant \<Rightarrow> (accountant_output list \<times> accountant) run" where
  "accountant_start env now self =
     bind_run (scan_for_payables now self) (\<lambda>outs1.
     bind_run (scan_for_received_payments self) (\<lambda>outs2.
     bind_run (scan_for_delinquencies env now self) (\<lambda>self'.
     Ok (outs1 @ outs2, self'))))"

definition accountant_bind :: "accountant \<Rightarrow> accountant" where
  "accountant_bind self = self\<lparr> ac_bound := True \<rparr>"

text \<open>The sums of the statistics wrap around in 64 bits.\<close>

definition i64_sum :: "int list \<Rightarrow> int" where
  "i64_sum ns = signed_take_bit 63 (sum_list ns)"

definition handle_get_financial_statistics :: "accountant \<Rightarrow> accountant_output list run" where
  "handle_get_financial_statistics self =
     bind_run (receivables (receivable self)) (\<lambda>credits.
     bind_run (non_pending_payables (payable self)) (\<lambda>debts.
     if ac_bound self
     then Ok [FinancialStatistics (i64_sum (map ra_balance credits)) (i64_sum (map pa_balance debts))]
     else Err ExpectFailed))"

end
