(* ===== verification/AccountantLedger.thy ===== *)
theory AccountantLedger
  imports Accountant
begin

text \<open>
  The accountant against an abstract ledger: credits and debts as maps from addresses to unbounded
  integers, and the entries each message makes. As long as the amounts fit into the columns, the
  tables of the accountant hold exactly the ledger; and a payment that has been sent is never
  followed by another one to the same wallet. A scan for delinquencies leaves exactly the right
  wallets banned, in the table and in the cache that the hopper reads.
\<close>

section \<open>The abstract ledger\<close>

record ledger =
  credit :: "bytes \<rightharpoonup> int"
  debt :: "bytes \<rightharpoonup> int"

datatype entry = Earn bytes int | Receive bytes int | Owe bytes int | Pay bytes int

fun post :: "entry \<Rightarrow> ledger \<Rightarrow> ledger" where
  "post (Earn a n) l = l\<lparr> credit := (credit l)(a \<mapsto> (case credit l a of Some b \<Rightarrow> b + n | None \<Rightarrow> n)) \<rparr>"
| "post (Receive a n) l = (case credit l a of Some b \<Rightarrow> l\<lparr> credit := (credit l)(a \<mapsto> b - n) \<rparr> | None \<Rightarrow> l)"
| "post (Owe a n) l = l\<lparr> debt := (debt l)(a \<mapsto> (case debt l a of Some b \<Rightarrow> b + n | None \<Rightarrow> n)) \<rparr>"
| "post (Pay a n) l = l\<lparr> debt := (debt l)(a \<mapsto> (case debt l a of Some b \<Rightarrow> b - n | None \<Rightarrow> 0 - n)) \<rparr>"

fun entry_amount :: "entry \<Rightarrow> int" where
  "entry_amount (Earn a n) = n"
| "entry_amount (Receive a n) = n"
| "entry_amount (Owe a n) = n"
| "entry_amount (Pay a n) = n"

text \<open>Every amount and every balance on the way fits into a signed 64-bit column.\<close>

definition in_range :: "ledger \<Rightarrow> bool" where
  "in_range l \<longleftrightarrow> (\<forall>a n. credit l a = Some n \<longrightarrow> i64_ok n) \<and> (\<forall>a n. debt l a = Some n \<longrightarrow> i64_ok n)"

fun fits :: "entry list \<Rightarrow> ledger \<Rightarrow> bool" where
  "fits [] l \<longleftrightarrow> in_range l"
| "fits (e # es) l \<longleftrightarrow> in_range l \<and> 0 \<le> entry_amount e \<and> entry_amount e < 2 ^ 63 \<and> fits es (post e l)"

lemma fits_append: "fits (xs @ ys) l \<longleftrightarrow> fits xs l \<and> fits ys (fold post xs l)"
  by (induction xs arbitrary: l) (use fits.elims in auto)

lemma fits_in_range: "fits es l \<Longrightarrow> in_range l"
  by (cases es) auto

section \<open>The messages\<close>

datatype accountant_event =
    RoutingProvided report_routing_service_provided
  | ExitProvided report_exit_service_provided
  | RoutingConsumed report_routing_service_consumed
  | ExitConsumed report_exit_service_consumed
  | PaymentsReceived "transaction list"
  | PaymentsSent "(blockchain_error + payment) list"
  | DelinquencyScan

fun accountant_step :: "acct_env \<Rightarrow> int \<times> accountant_event \<Rightarrow> accountant \<Rightarrow> accountant run" where
  "accountant_step env (now, RoutingProvided msg) st = handle_routing_provided env now msg st"
| "accountant_step env (now, ExitProvided msg) st = handle_exit_provided env now msg st"
| "accountant_step env (now, RoutingConsumed msg) st = handle_routing_consumed env now msg st"
| "accountant_step env (now, ExitConsumed msg) st = handle_exit_consumed env now msg st"
| "accountant_step env (now, PaymentsReceived txs) st = handle_received_payments env now txs st"
| "accountant_step env (now, PaymentsSent ps) st = handle_sent_payments env ps st"
| "accountant_step env (now, DelinquencyScan) st = scan_for_delinquencies env now st"

definition addr_of :: "acct_env \<Rightarrow> wallet \<Rightarrow> bytes" where
  "addr_of env w = (case wallet_address (ac_eth env) w of Inr a \<Rightarrow> a | Inl _ \<Rightarrow> [])"

definition known :: "acct_env \<Rightarrow> wallet \<Rightarrow> bool" where
  "known env w \<longleftrightarrow> wallet_address (ac_eth env) w = Ok (addr_of env w)"

text \<open>The true price, in unbounded arithmetic.\<close>

definition price :: "u64 \<Rightarrow> u64 \<Rightarrow> nat \<Rightarrow> int" where
  "price service_rate byte_rate payload_size = uint service_rate + uint byte_rate * int payload_size"

definition unless_own :: "bytes set \<Rightarrow> bytes \<Rightarrow> entry \<Rightarrow> entry list" where
  "unless_own own a e = (if a \<in> own then [] else [e])"

definition earn :: "acct_env \<Rightarrow> bytes set \<Rightarrow> u64 \<Rightarrow> u64 \<Rightarrow> nat \<Rightarrow> wallet \<Rightarrow> entry list" where
  "earn env own sr br n w = unless_own own (addr_of env w) (Earn (addr_of env w) (price sr br n))"

definition owe :: "acct_env \<Rightarrow> bytes set \<Rightarrow> u64 \<Rightarrow> u64 \<Rightarrow> nat \<Rightarrow> wallet \<Rightarrow> entry list" where
  "owe env own sr br n w = unless_own own (addr_of env w) (Owe (addr_of env w) (price sr br n))"

definition receive :: "acct_env \<Rightarrow> transaction \<Rightarrow> entry" where
  "receive env t = Receive (addr_of env (tx_from t)) (uint (gwei_amount t))"

fun sent :: "acct_env \<Rightarrow> (blockchain_error + payment) \<Rightarrow> entry list" where
  "sent env (Inl e) = []"
| "sent env (Inr p) = [Pay (addr_of env (pay_to p)) (uint (pay_amount p))]"

fun entries :: "acct_env \<Rightarrow> bytes set \<Rightarrow> int \<times> accountant_event \<Rightarrow> entry list" where
  "entries env own (now, RoutingProvided m) =
     earn env own (rrp_service_rate m) (rrp_byte_rate m) (rrp_payload_size m) (rrp_paying_wallet m)"
| "entries env own (now, ExitProvided m) =
     earn env own (xsp_service_rate m) (xsp_byte_rate m) (xsp_payload_size m) (xsp_paying_wallet m)"
| "entries env own (now, RoutingConsumed m) =
     owe env own (rsc_service_rate m) (rsc_byte_rate m) (rsc_payload_size m) (rsc_earning_wallet m)"
| "entries env own (now, ExitConsumed m) =
     owe env own (xsc_service_rate m) (xsc_byte_rate m) (xsc_payload_size m) (xsc_earning_wallet m)"
| "entries env own (now, PaymentsReceived txs) = map (receive env) txs"
| "entries env own (now, PaymentsSent ps) = concat (map (sent env) ps)"
| "entries env own (now, DelinquencyScan) = []"

text \<open>The wallets of an event have addresses, and its times are after the epoch.\<close>

fun sent_payment_ok :: "acct_env \<Rightarrow> (blockchain_error + payment) \<Rightarrow> bool" where
  "sent_payment_ok env (Inl e) = True"
| "sent_payment_ok env (Inr p) = (known env (pay_to p) \<and> 0 \<le> pay_timestamp p)"

fun event_ok :: "acct_env \<Rightarrow> int \<times> accountant_event \<Rightarrow> bool" where
  "event_ok env (now, RoutingProvided m) = (0 \<le> now \<and> known env (rrp_paying_wallet m))"
| "event_ok env (now, ExitProvided m) = (0 \<le> now \<and> known env (xsp_paying_wallet m))"
| "event_ok env (now, RoutingConsumed m) = (0 \<le> now \<and> known env (rsc_earning_wallet m))"
| "event_ok env (now, ExitConsumed m) = (0 \<le> now \<and> known env (xsc_earning_wallet m))"
| "event_ok env (now, PaymentsReceived txs) = (0 \<le> now \<and> list_all (\<lambda>t. known env (tx_from t)) txs)"
| "event_ok env (now, PaymentsSent ps) = (0 \<le> now \<and> list_all (sent_payment_ok env) ps)"
| "event_ok env (now, DelinquencyScan) = (0 \<le> now)"

definition own_addresses :: "acct_env \<Rightarrow> accountant \<Rightarrow> bytes set" where
  "own_addresses env st = insert (addr_of env (ac_earning_wallet st))
     (case ac_consuming_wallet st of Some w \<Rightarrow> {addr_of env w} | None \<Rightarrow> {})"

definition own_known :: "acct_env \<Rightarrow> accountant \<Rightarrow> bool" where
  "own_known env st \<longleftrightarrow> known env (ac_earning_wallet st) \<and>
     (case ac_consuming_wallet st of Some w \<Rightarrow> known env w | None \<Rightarrow> True)"

section \<open>Abstraction\<close>

fun integer_of :: "sql_number \<Rightarrow> int option" where
  "integer_of (SqlInteger n) = Some n"
| "integer_of (SqlReal x) = None"

definition abs_receivable :: "receivable_table \<Rightarrow> bytes \<rightharpoonup> int" where
  "abs_receivable t a = Option.bind (hm_get t a) (\<lambda>r. integer_of (r_balance r))"

definition abs_payable :: "payable_table \<Rightarrow> bytes \<rightharpoonup> int" where
  "abs_payable t a = Option.bind (hm_get t a) (\<lambda>r. integer_of (p_balance r))"

definition abs_ledger :: "accountant \<Rightarrow> ledger" where
  "abs_ledger st = \<lparr> credit = abs_receivable (receivable st), debt = abs_payable (payable st) \<rparr>"

definition receivable_ok :: "receivable_table \<Rightarrow> bool" where
  "receivable_ok t \<longleftrightarrow> hm_ok t \<and>
     (\<forall>a r. hm_get t a = Some r \<longrightarrow> (\<exists>n. r_balance r = SqlInteger n) \<and> 0 \<le> r_last_received r)"

definition payable_ok :: "payable_table \<Rightarrow> bool" where
  "payable_ok t \<longleftrightarrow> hm_ok t \<and>
     (\<forall>a r. hm_get t a = Some r \<longrightarrow> (\<exists>n. p_balance r = SqlInteger n) \<and> 0 \<le> p_last_paid r)"

definition tables_ok :: "accountant \<Rightarrow> bool" where
  "tables_ok st \<longleftrightarrow> receivable_ok (receivable st) \<and> payable_ok (payable st)"

text \<open>The ban cache holds the wallets of the ban table.\<close>

definition cache_synced :: "bytes list \<times> banned_cache \<Rightarrow> bool" where
  "cache_synced state \<longleftrightarrow> set (snd state) = wallet_from_address ` set (fst state)"

section \<open>One entry\<close>

lemma sint_small:
  assumes "uint (w :: u64) < 2 ^ 63"
  shows "sint w = uint w"
proof -
  have "- (2 ^ 63) \<le> uint w"
    by (rule order_trans [OF _ uint_ge_0]) simp
  then have "signed_take_bit 63 (uint w) = uint w"
    using assms by (rule signed_take_bit_int_eq_self)
  then show ?thesis
    by (simp add: sint_uint)
qed

lemma sint_large:
  assumes "2 ^ 63 \<le> uint (w :: u64)"
  shows "sint w = uint w - 2 ^ 64"
proof -
  have "uint w < 2 ^ 64"
    using uint_lt2p [of w] by simp
  with assms have "signed_take_bit 63 (uint w) = uint w - 2 ^ 64"
    by (simp add: signed_take_bit_eq_take_bit_shift take_bit_eq_mod mod_pos_geq)
  then show ?thesis
    by (simp add: sint_uint)
qed

lemma price_fits:
  assumes "price sr br n < 2 ^ 63"
  shows "uint (total_charge sr br n) = price sr br n"
proof -
  have word: "uint (of_nat n :: u64) = int n mod 2 ^ 64"
    by (simp add: uint_nat unat_of_nat zmod_int)
  have "uint (total_charge sr br n) = (uint sr + uint br * int n) mod 2 ^ 64"
    by (simp add: total_charge_def Let_def uint_word_arith_bintrs word uint_word_of_int mod_simps take_bit_eq_mod)
  moreover have "0 \<le> price sr br n"
    by (simp add: price_def)
  ultimately show ?thesis
    using assms by (simp add: price_def)
qed

lemma our_wallet_known:
  assumes "own_known env st" "known env w"
  shows "our_wallet env st w = Ok (addr_of env w \<in> own_addresses env st)"
  using assms by (auto simp: our_wallet_def own_known_def known_def own_addresses_def split: option.split)

lemma abs_receivable_Some:
  "receivable_ok t \<Longrightarrow> hm_get t a = Some r \<Longrightarrow> r_balance r = SqlInteger n \<Longrightarrow> abs_receivable t a = Some n"
  by (simp add: abs_receivable_def)

lemma receivable_earn:
  assumes ok: "receivable_ok t" "sqlite_adds (ac_sql env)" "0 \<le> now"
    and w: "known env w" and a: "a = addr_of env w"
    and fit: "uint amount < 2 ^ 63"
      "\<And>n. abs_receivable t a = Some n \<Longrightarrow> i64_ok (n + uint amount)"
  shows "\<exists>t'. more_money_receivable env now w amount t = Ok t' \<and> receivable_ok t' \<and>
    abs_receivable t' = (abs_receivable t)(a \<mapsto> (case abs_receivable t a of Some b \<Rightarrow> b + uint amount | None \<Rightarrow> uint amount))"
proof (cases "hm_get t a")
  case None
  with ok w a fit(1) show ?thesis
    by (auto simp: more_money_receivable_def try_update_def try_insert_def known_def receivable_ok_def
        sint_small abs_receivable_def fun_eq_iff)
next
  case (Some r)
  with ok(1) obtain n where n: "r_balance r = SqlInteger n"
    by (auto simp: receivable_ok_def)
  then have "i64_ok (n + uint amount)"
    using Some fit(2) by (simp add: abs_receivable_def)
  with ok w a fit(1) Some n show ?thesis
    by (auto simp: more_money_receivable_def try_update_def known_def receivable_ok_def
        sint_small abs_receivable_def fun_eq_iff sqlite_adds_def)
qed

lemma receivable_receive:
  assumes ok: "receivable_ok t" "sqlite_adds (ac_sql env)" "0 \<le> now"
    and w: "known env (tx_from tx)" and a: "a = addr_of env (tx_from tx)"
    and fit: "uint (gwei_amount tx) < 2 ^ 63"
      "\<And>n. abs_receivable t a = Some n \<Longrightarrow> i64_ok (n - uint (gwei_amount tx))"
  shows "\<exists>t'. pay_in env now tx t = Ok t' \<and> receivable_ok t' \<and>
    abs_receivable t' = (case abs_receivable t a of
      Some b \<Rightarrow> (abs_receivable t)(a \<mapsto> b - uint (gwei_amount tx)) | None \<Rightarrow> abs_receivable t)"
proof (cases "hm_get t a")
  case None
  with ok w a show ?thesis
    by (auto simp: pay_in_def known_def abs_receivable_def)
next
  case (Some r)
  with ok(1) obtain n where n: "r_balance r = SqlInteger n"
    by (auto simp: receivable_ok_def)
  then have "i64_ok (n - uint (gwei_amount tx))"
    using Some fit(2) by (simp add: abs_receivable_def)
  with ok w a fit(1) Some n show ?thesis
    by (auto simp: pay_in_def known_def receivable_ok_def sint_small abs_receivable_def fun_eq_iff sqlite_adds_def)
qed

lemma payable_owe:
  assumes ok: "payable_ok t" "sqlite_adds (ac_sql env)" "0 \<le> now"
    and w: "known env w" and a: "a = addr_of env w"
    and fit: "uint amount < 2 ^ 63"
      "\<And>n. abs_payable t a = Some n \<Longrightarrow> i64_ok (n + uint amount)"
  shows "\<exists>t'. more_money_payable env now w amount t = Ok t' \<and> payable_ok t' \<and>
    abs_payable t' = (abs_payable t)(a \<mapsto> (case abs_payable t a of Some b \<Rightarrow> b + uint amount | None \<Rightarrow> uint amount))"
proof (cases "hm_get t a")
  case None
  with ok w a fit(1) show ?thesis
    by (auto simp: more_money_payable_def try_increase_balance_def i64_try_from_def known_def payable_ok_def
        abs_payable_def fun_eq_iff)
next
  case (Some r)
  with ok(1) obtain n where n: "p_balance r = SqlInteger n"
    by (auto simp: payable_ok_def)
  then have "i64_ok (n + uint amount)"
    using Some fit(2) by (simp add: abs_payable_def)
  with ok w a fit(1) Some n show ?thesis
    by (auto simp: more_money_payable_def try_increase_balance_def i64_try_from_def known_def payable_ok_def
        abs_payable_def fun_eq_iff sqlite_adds_def)
qed

lemma payable_pay:
  assumes ok: "payable_ok t" "sqlite_adds (ac_sql env)" "0 \<le> pay_timestamp p"
    and w: "known env (pay_to p)" and a: "a = addr_of env (pay_to p)"
    and fit: "uint (pay_amount p) < 2 ^ 63"
      "\<And>n. abs_payable t a = Some n \<Longrightarrow> i64_ok (n - uint (pay_amount p))"
  shows "\<exists>t'. payment_sent env p t = Ok t' \<and> payable_ok t' \<and>
    abs_payable t' = (abs_payable t)(a \<mapsto>
      (case abs_payable t a of Some b \<Rightarrow> b - uint (pay_amount p) | None \<Rightarrow> 0 - uint (pay_amount p)))"
proof (cases "hm_get t a")
  case None
  with ok w a fit(1) show ?thesis
    by (auto simp: payment_sent_def try_decrease_balance_def i64_try_from_def known_def payable_ok_def
        abs_payable_def fun_eq_iff)
next
  case (Some r)
  with ok(1) obtain n where n: "p_balance r = SqlInteger n"
    by (auto simp: payable_ok_def)
  then have "i64_ok (n - uint (pay_amount p))"
    using Some fit(2) by (simp add: abs_payable_def)
  with ok w a fit(1) Some n show ?thesis
    by (auto simp: payment_sent_def try_decrease_balance_def i64_try_from_def known_def payable_ok_def
        abs_payable_def fun_eq_iff sqlite_adds_def)
qed

section \<open>The handlers refine the ledger\<close>

definition implements :: "entry list \<Rightarrow> accountant \<Rightarrow> accountant run \<Rightarrow> bool" where
  "implements es st r \<longleftrightarrow> (\<exists>st'. r = Ok st' \<and> tables_ok st' \<and> abs_ledger st' = fold post es (abs_ledger st) \<and>
     ac_earning_wallet st' = ac_earning_wallet st \<and> ac_consuming_wallet st' = ac_consuming_wallet st \<and>
     (cache_synced (banned st, ban_cache st) \<longrightarrow> cache_synced (banned st', ban_cache st')))"

lemma implements_skip: "tables_ok st \<Longrightarrow> implements [] st (Ok st)"
  by (simp add: implements_def)

lemma abs_ledger_simps [simp]:
  "credit (abs_ledger st) = abs_receivable (receivable st)"
  "debt (abs_ledger st) = abs_payable (payable st)"
  by (simp_all add: abs_ledger_def)

lemma in_range_post:
  "in_range (post (Earn a n) l) \<Longrightarrow> credit l a = Some b \<Longrightarrow> i64_ok (b + n)"
  "in_range (post (Receive a n) l) \<Longrightarrow> credit l a = Some b \<Longrightarrow> i64_ok (b - n)"
  "in_range (post (Owe a n) l) \<Longrightarrow> debt l a = Some b \<Longrightarrow> i64_ok (b + n)"
  "in_range (post (Pay a n) l) \<Longrightarrow> debt l a = Some b \<Longrightarrow> i64_ok (b - n)"
  by (auto simp: in_range_def dest!: spec [of _ a])

lemma implements_provided:
  assumes st: "tables_ok st" "own_known env st" "sqlite_adds (ac_sql env)" "0 \<le> now" "known env w"
    and fit: "fits (earn env (own_addresses env st) sr br n w) (abs_ledger st)"
  shows "implements (earn env (own_addresses env st) sr br n w) st (record_service_provided env now sr br n w st)"
proof (cases "addr_of env w \<in> own_addresses env st")
  case True
  with st show ?thesis
    by (simp add: record_service_provided_def our_wallet_known earn_def unless_own_def implements_skip)
next
  case False
  let ?a = "addr_of env w"
  have p: "price sr br n < 2 ^ 63" "in_range (post (Earn ?a (price sr br n)) (abs_ledger st))"
    using False fit by (simp_all add: earn_def unless_own_def)
  note u = price_fits [OF p(1)]
  obtain t' where "more_money_receivable env now w (total_charge sr br n) (receivable st) = Ok t'" "receivable_ok t'"
    "abs_receivable t' = (abs_receivable (receivable st))(?a \<mapsto>
      (case abs_receivable (receivable st) ?a of Some b \<Rightarrow> b + price sr br n | None \<Rightarrow> price sr br n))"
    using receivable_earn [of "receivable st" env now w ?a "total_charge sr br n"] st p(1) in_range_post(1) [OF p(2)]
    unfolding u tables_ok_def abs_ledger_simps by blast
  with False st show ?thesis
    by (simp add: implements_def record_service_provided_def our_wallet_known earn_def unless_own_def
        tables_ok_def abs_ledger_def)
qed

lemma implements_consumed:
  assumes st: "tables_ok st" "own_known env st" "sqlite_adds (ac_sql env)" "0 \<le> now" "known env w"
    and fit: "fits (owe env (own_addresses env st) sr br n w) (abs_ledger st)"
  shows "implements (owe env (own_addresses env st) sr br n w) st (record_service_consumed env now sr br n w st)"
proof (cases "addr_of env w \<in> own_addresses env st")
  case True
  with st show ?thesis
    by (simp add: record_service_consumed_def our_wallet_known owe_def unless_own_def implements_skip)
next
  case False
  let ?a = "addr_of env w"
  have p: "price sr br n < 2 ^ 63" "in_range (post (Owe ?a (price sr br n)) (abs_ledger st))"
    using False fit by (simp_all add: owe_def unless_own_def)
  note u = price_fits [OF p(1)]
  obtain t' where "more_money_payable env now w (total_charge sr br n) (payable st) = Ok t'" "payable_ok t'"
    "abs_payable t' = (abs_payable (payable st))(?a \<mapsto>
      (case abs_payable (payable st) ?a of Some b \<Rightarrow> b + price sr br n | None \<Rightarrow> price sr br n))"
    using payable_owe [of "payable st" env now w ?a "total_charge sr br n"] st p(1) in_range_post(3) [OF p(2)]
    unfolding u tables_ok_def abs_ledger_simps by blast
  with False st show ?thesis
    by (simp add: implements_def record_service_consumed_def our_wallet_known owe_def unless_own_def
        tables_ok_def abs_ledger_def)
qed

lemma receive_amount [simp]: "entry_amount (receive env t) = uint (gwei_amount t)"
  by (simp add: receive_def)

lemma fold_pay_in:
  assumes "receivable_ok (receivable st)" "payable_ok (payable st)" "sqlite_adds (ac_sql env)" "0 \<le> now"
    and "list_all (\<lambda>t. known env (tx_from t)) txs" "fits (map (receive env) txs) (abs_ledger st)"
  shows "\<exists>t'. fold_run (pay_in env now) txs (receivable st) = Ok t' \<and> receivable_ok t' \<and>
    abs_ledger (st\<lparr> receivable := t' \<rparr>) = fold post (map (receive env) txs) (abs_ledger st)"
  using assms
proof (induction txs arbitrary: st)
  case (Cons tx txs)
  let ?a = "addr_of env (tx_from tx)" and ?n = "uint (gwei_amount tx)"
  have r: "?n < 2 ^ 63" "in_range (post (receive env tx) (abs_ledger st))"
    "fits (map (receive env) txs) (post (receive env tx) (abs_ledger st))"
    using Cons.prems(6) fits_in_range [of "map (receive env) txs"] by (simp_all add: receive_amount)
  obtain t' where t: "pay_in env now tx (receivable st) = Ok t'" "receivable_ok t'"
    "abs_receivable t' = (case abs_receivable (receivable st) ?a of
      Some b \<Rightarrow> (abs_receivable (receivable st))(?a \<mapsto> b - ?n) | None \<Rightarrow> abs_receivable (receivable st))"
    using receivable_receive [of "receivable st" env now tx ?a] Cons.prems r(1)
      in_range_post(2) [OF r(2) [unfolded receive_def]]
    by auto
  then have post: "abs_ledger (st\<lparr> receivable := t' \<rparr>) = post (receive env tx) (abs_ledger st)"
    by (simp add: receive_def abs_ledger_def split: option.split)
  show ?case
    using Cons.IH [of "st\<lparr> receivable := t' \<rparr>"] Cons.prems t(1,2) r(3) by (simp add: post)
qed simp

lemma fold_sent:
  assumes "receivable_ok (receivable st)" "payable_ok (payable st)" "sqlite_adds (ac_sql env)"
    and "list_all (sent_payment_ok env) ps" "fits (concat (map (sent env) ps)) (abs_ledger st)"
  shows "\<exists>t'. fold_run (\<lambda>payment t. case payment of Inr p \<Rightarrow> payment_sent env p t | Inl _ \<Rightarrow> Ok t) ps (payable st) = Ok t' \<and>
    payable_ok t' \<and> abs_ledger (st\<lparr> payable := t' \<rparr>) = fold post (concat (map (sent env) ps)) (abs_ledger st)"
  using assms
proof (induction ps arbitrary: st)
  case (Cons r ps)
  show ?case
  proof (cases r)
    case (Inl e)
    with Cons show ?thesis
      by simp
  next
    case (Inr p)
    let ?a = "addr_of env (pay_to p)" and ?n = "uint (pay_amount p)"
    have r: "?n < 2 ^ 63" "in_range (post (Pay ?a ?n) (abs_ledger st))"
      "fits (concat (map (sent env) ps)) (post (Pay ?a ?n) (abs_ledger st))"
      using Cons.prems(5) fits_in_range [of "concat (map (sent env) ps)"] Inr by simp_all
    obtain t' where t: "payment_sent env p (payable st) = Ok t'" "payable_ok t'"
      "abs_payable t' = (abs_payable (payable st))(?a \<mapsto>
        (case abs_payable (payable st) ?a of Some b \<Rightarrow> b - ?n | None \<Rightarrow> 0 - ?n))"
      using payable_pay [of "payable st" env p ?a] Cons.prems r(1) in_range_post(4) [OF r(2)] Inr
      by auto
    then have post: "abs_ledger (st\<lparr> payable := t' \<rparr>) = post (Pay ?a ?n) (abs_ledger st)"
      by (simp add: abs_ledger_def)
    show ?thesis
      using Cons.IH [of "st\<lparr> payable := t' \<rparr>"] Cons.prems t(1,2) r(3) Inr by (simp add: post)
  qed
qed simp

lemma implements_received:
  assumes "tables_ok st" "sqlite_adds (ac_sql env)" "0 \<le> now" "list_all (\<lambda>t. known env (tx_from t)) txs"
    "fits (map (receive env) txs) (abs_ledger st)"
  shows "implements (map (receive env) txs) st (handle_received_payments env now txs st)"
proof (cases "txs = []")
  case True
  with assms show ?thesis
    by (simp add: implements_def handle_received_payments_def more_money_received_def try_multi_insert_payment_def)
next
  case False
  then show ?thesis
    using fold_pay_in [of st env now txs] assms
    by (auto simp: implements_def handle_received_payments_def more_money_received_def
        try_multi_insert_payment_def tables_ok_def abs_ledger_def)
qed

lemma implements_sent:
  assumes "tables_ok st" "sqlite_adds (ac_sql env)" "list_all (sent_payment_ok env) ps"
    "fits (concat (map (sent env) ps)) (abs_ledger st)"
  shows "implements (concat (map (sent env) ps)) st (handle_sent_payments env ps st)"
  using fold_sent [of st env ps] assms
  by (auto simp: implements_def handle_sent_payments_def tables_ok_def)

section \<open>The scan for delinquencies\<close>

text \<open>A row read back: total on a well-formed table.\<close>

fun account_of :: "bytes \<times> receivable_row \<Rightarrow> receivable_account" where
  "account_of (a, r) = \<lparr> ra_wallet = wallet_from_address a, ra_balance = the (integer_of (r_balance r)),
     ra_last_received_timestamp = r_last_received r \<rparr>"

definition over_curve :: "int \<Rightarrow> receivable_row \<Rightarrow> bool" where
  "over_curve now r \<longleftrightarrow> r_last_received r < sugg_and_grace PAYMENT_CURVES now \<and>
     f64_round (as_f64 (balance_to_decrease_from_gwub PAYMENT_CURVES) +
       f64_round (f64_round (f64_round (as_f64 (permanent_debt_allowed_gwub PAYMENT_CURVES) -
           as_f64 (balance_to_decrease_from_gwub PAYMENT_CURVES)) / as_f64 (balance_decreases_for_sec PAYMENT_CURVES)) *
         as_f64 (sugg_and_grace PAYMENT_CURVES now - r_last_received r))) < sql_value (r_balance r) \<and>
     of_int (permanent_debt_allowed_gwub PAYMENT_CURVES) < sql_value (r_balance r)"

definition overdue :: "int \<Rightarrow> receivable_table \<Rightarrow> bytes \<Rightarrow> bool" where
  "overdue now t a \<longleftrightarrow> (\<exists>r. hm_get t a = Some r \<and> over_curve now r)"

definition settled :: "receivable_table \<Rightarrow> bytes \<Rightarrow> bool" where
  "settled t a \<longleftrightarrow> (\<exists>r. hm_get t a = Some r \<and>
     sql_value (r_balance r) \<le> of_int (unban_when_balance_below_gwub PAYMENT_CURVES))"

lemma wallet_from_address_inj [simp]: "wallet_from_address a = wallet_from_address b \<longleftrightarrow> a = b"
  by (simp add: wallet_from_address_def)

lemma wallet_address_from_address [simp]: "wallet_address eth (wallet_from_address a) = Ok a"
  by (simp add: wallet_from_address_def)

lemma row_to_account_ok:
  assumes "receivable_ok t" "x \<in> set t"
  shows "row_to_account x = Ok (account_of x)"
proof -
  obtain a r where x: "x = (a, r)"
    by force
  then have "hm_get t a = Some r"
    using assms by (auto simp: receivable_ok_def intro: hm_mem_get)
  with assms(1) obtain n where "r_balance r = SqlInteger n" "0 \<le> r_last_received r"
    by (auto simp: receivable_ok_def)
  with x show ?thesis
    by (simp add: row_to_account_def get_integer_def from_time_t_def)
qed

lemma new_delinquencies_ok:
  "receivable_ok t \<Longrightarrow> new_delinquencies now PAYMENT_CURVES bans t =
     Ok (map account_of (filter (\<lambda>(a, r). over_curve now r \<and> a \<notin> set bans) t))"
  unfolding new_delinquencies_def over_curve_def
  by (auto simp: Let_def case_prod_unfold conj_assoc intro!: map_run_total row_to_account_ok)

lemma paid_delinquencies_ok:
  "receivable_ok t \<Longrightarrow> paid_delinquencies PAYMENT_CURVES bans t =
     Ok (map account_of (filter (\<lambda>(a, r). a \<in> set bans \<and>
       sql_value (r_balance r) \<le> of_int (unban_when_balance_below_gwub PAYMENT_CURVES)) t))"
  unfolding paid_delinquencies_def by (auto simp: case_prod_unfold intro!: map_run_total row_to_account_ok)

lemma dao_ban_synced:
  assumes "cache_synced s"
  shows "\<exists>s'. dao_ban env (wallet_from_address a) s = Ok s' \<and> cache_synced s' \<and> set (fst s') = insert a (set (fst s))"
  using assms
  by (cases s) (auto simp: dao_ban_def is_banned_def as_address_wallet_def ban_insert_def cache_synced_def)

lemma dao_unban_synced:
  assumes "cache_synced s"
  shows "\<exists>s'. dao_unban env (wallet_from_address a) s = Ok s' \<and> cache_synced s' \<and> set (fst s') = set (fst s) - {a}"
  using assms
  by (cases s) (auto simp: dao_unban_def is_banned_def as_address_wallet_def ban_remove_def cache_synced_def)

lemma ban_all:
  "cache_synced s \<Longrightarrow> \<exists>s'. fold_run (\<lambda>account. dao_ban env (ra_wallet account)) (map account_of rs) s = Ok s' \<and>
     cache_synced s' \<and> set (fst s') = set (fst s) \<union> fst ` set rs"
proof (induction rs arbitrary: s)
  case (Cons x rs)
  obtain s1 where "dao_ban env (wallet_from_address (fst x)) s = Ok s1" "cache_synced s1"
    "set (fst s1) = insert (fst x) (set (fst s))"
    using dao_ban_synced [OF Cons.prems] by blast
  moreover obtain s2 where "fold_run (\<lambda>account. dao_ban env (ra_wallet account)) (map account_of rs) s1 = Ok s2"
    "cache_synced s2" "set (fst s2) = set (fst s1) \<union> fst ` set rs"
    using Cons.IH [OF \<open>cache_synced s1\<close>] by blast
  ultimately show ?case
    by (cases x) auto
qed simp

lemma unban_all:
  "cache_synced s \<Longrightarrow> \<exists>s'. fold_run (\<lambda>account. dao_unban env (ra_wallet account)) (map account_of rs) s = Ok s' \<and>
     cache_synced s' \<and> set (fst s') = set (fst s) - fst ` set rs"
proof (induction rs arbitrary: s)
  case (Cons x rs)
  obtain s1 where "dao_unban env (wallet_from_address (fst x)) s = Ok s1" "cache_synced s1"
    "set (fst s1) = set (fst s) - {fst x}"
    using dao_unban_synced [OF Cons.prems] by blast
  moreover obtain s2 where "fold_run (\<lambda>account. dao_unban env (ra_wallet account)) (map account_of rs) s1 = Ok s2"
    "cache_synced s2" "set (fst s2) = set (fst s1) - fst ` set rs"
    using Cons.IH [OF \<open>cache_synced s1\<close>] by blast
  ultimately show ?case
    by (cases x) auto
qed simp

lemma keys_of_filter:
  "hm_ok t \<Longrightarrow> fst ` set (filter (\<lambda>(a, r). P a r) t) = {a. \<exists>r. hm_get t a = Some r \<and> P a r}"
  by (force dest: hm_mem_get hm_get_Some_mem)

lemma overdue_not_settled: "overdue now t a \<Longrightarrow> \<not> settled t a"
  by (auto simp: overdue_def settled_def over_curve_def PAYMENT_CURVES_def)

lemma scan_result:
  assumes ok: "receivable_ok (receivable st)" and sync: "cache_synced (banned st, ban_cache st)"
  shows "\<exists>table cache. scan_for_delinquencies env now st = Ok (st\<lparr> banned := table, ban_cache := cache \<rparr>) \<and>
    cache_synced (table, cache) \<and>
    set table = {a. a \<in> set (banned st) \<and> \<not> settled (receivable st) a \<or> overdue now (receivable st) a}"
proof -
  let ?t = "receivable st"
  let ?new = "filter (\<lambda>(a, r). over_curve now r \<and> a \<notin> set (banned st)) ?t"
  have hm: "hm_ok ?t"
    using ok by (simp add: receivable_ok_def)
  obtain s1 where s1: "fold_run (\<lambda>account. dao_ban env (ra_wallet account)) (map account_of ?new) (banned st, ban_cache st) = Ok s1"
    "cache_synced s1" "set (fst s1) = set (banned st) \<union> fst ` set ?new"
    using ban_all [OF sync] by fastforce
  let ?paid = "filter (\<lambda>(a, r). a \<in> set (fst s1) \<and>
       sql_value (r_balance r) \<le> of_int (unban_when_balance_below_gwub PAYMENT_CURVES)) ?t"
  obtain s2 where s2: "fold_run (\<lambda>account. dao_unban env (ra_wallet account)) (map account_of ?paid) s1 = Ok s2"
    "cache_synced s2" "set (fst s2) = set (fst s1) - fst ` set ?paid"
    using unban_all [OF s1(2)] by blast
  have "set (fst s2) = {a. a \<in> set (banned st) \<and> \<not> settled ?t a \<or> overdue now ?t a}"
    unfolding s2(3) s1(3) keys_of_filter [OF hm]
    using overdue_not_settled [of now ?t] by (auto simp: settled_def overdue_def)
  moreover have "scan_for_delinquencies env now st = Ok (st\<lparr> banned := fst s2, ban_cache := snd s2 \<rparr>)"
    using s1(1) s2(1) by (simp add: scan_for_delinquencies_def new_delinquencies_ok paid_delinquencies_ok ok case_prod_unfold)
  ultimately show ?thesis
    using s2(2) by (metis prod.collapse)
qed

section \<open>An example\<close>

text \<open>SQLite's arithmetic: exact within 64 bits, floating point outside.\<close>

fun example_sum :: "sql_number \<Rightarrow> int \<Rightarrow> sql_number" where
  "example_sum (SqlInteger a) b = (if i64_ok (a + b) then SqlInteger (a + b) else SqlReal (f64_round (of_int (a + b))))"
| "example_sum (SqlReal x) b = SqlReal (f64_round (x + as_f64 b))"

definition example_sqlite :: sqlite where
  "example_sqlite = \<lparr> sql_plus = example_sum, sql_minus = (\<lambda>a b. example_sum a (- b)) \<rparr>"

definition example_acct_env :: acct_env where
  "example_acct_env = \<lparr> ac_eth = example_ethsign, ac_sql = example_sqlite \<rparr>"

definition example_accountant :: accountant where
  "example_accountant = accountant_new (Some (wallet_from_address [1])) (wallet_from_address [2])
     [([7], \<lparr> p_balance = SqlInteger 20, p_last_paid = 5, p_pending = Some [9] \<rparr>)]
     [([8], \<lparr> r_balance = SqlInteger 2000000000, r_last_received = 0 \<rparr>)] [] [] 0"

definition example_events :: "(int \<times> accountant_event) list" where
  "example_events =
     [(10, RoutingProvided \<lparr> rrp_paying_wallet = wallet_from_address [5], rrp_payload_size = 4,
         rrp_service_rate = 3, rrp_byte_rate = 2 \<rparr>),
      (11, ExitConsumed \<lparr> xsc_earning_wallet = wallet_from_address [7], xsc_payload_size = 10,
         xsc_service_rate = 5, xsc_byte_rate = 1 \<rparr>),
      (12, PaymentsReceived [\<lparr> block_number = 77, tx_from = wallet_from_address [5], gwei_amount = 6 \<rparr>]),
      (13, PaymentsSent [Inr \<lparr> pay_to = wallet_from_address [7], pay_amount = 15, pay_timestamp = 12, pay_transaction = [1] \<rparr>]),
      (14, DelinquencyScan)]"

lemma example_adds: "sqlite_adds (ac_sql example_acct_env)"
  by (simp add: sqlite_adds_def example_acct_env_def example_sqlite_def)

lemma example_known [simp]: "known env (wallet_from_address a)" "addr_of env (wallet_from_address a) = a"
  by (simp_all add: known_def addr_of_def)

lemma example_ok:
  "tables_ok example_accountant" "own_known env example_accountant"
  "cache_synced (banned example_accountant, ban_cache example_accountant)"
  "own_addresses env example_accountant = {[1], [2]}"
  by (auto simp: example_accountant_def accountant_new_def tables_ok_def receivable_ok_def payable_ok_def hm_ok_def
      hm_get_def own_known_def cache_synced_def own_addresses_def)

lemma example_abs:
  "abs_ledger example_accountant = \<lparr> credit = [[8] \<mapsto> 2000000000], debt = [[7] \<mapsto> 20] \<rparr>"
  by (auto simp: abs_ledger_def example_accountant_def accountant_new_def abs_receivable_def abs_payable_def hm_get_def)

lemma example_entries:
  "concat (map (entries env {[1], [2]}) example_events) = [Earn [5] 11, Owe [7] 15, Receive [5] 6, Pay [7] 15]"
  by (simp add: example_events_def earn_def owe_def unless_own_def receive_def price_def)

lemma example_fits:
  "fits [Earn [5] 11, Owe [7] 15, Receive [5] 6, Pay [7] 15] (abs_ledger example_accountant)"
  by (simp add: example_abs in_range_def i64_ok_def)

section \<open>Properties\<close>

lemma own_same:
  assumes "ac_earning_wallet st' = ac_earning_wallet st" "ac_consuming_wallet st' = ac_consuming_wallet st"
  shows "own_addresses env st' = own_addresses env st" "own_known env st' = own_known env st"
  using assms by (simp_all add: own_addresses_def own_known_def)

lemma implements_scan:
  assumes "tables_ok st" "cache_synced (banned st, ban_cache st)"
  shows "implements [] st (scan_for_delinquencies env now st)"
proof -
  obtain table cache where "scan_for_delinquencies env now st = Ok (st\<lparr> banned := table, ban_cache := cache \<rparr>)"
    "cache_synced (table, cache)"
    using scan_result assms unfolding tables_ok_def by blast
  with assms(1) show ?thesis
    by (simp add: implements_def tables_ok_def abs_ledger_def)
qed

lemma implements_step:
  assumes "tables_ok st" "own_known env st" "cache_synced (banned st, ban_cache st)" "sqlite_adds (ac_sql env)"
    and "event_ok env ev" "fits (entries env (own_addresses env st) ev) (abs_ledger st)"
  shows "implements (entries env (own_addresses env st) ev) st (accountant_step env ev st)"
  using assms
  by (cases ev, cases "snd ev")
    (auto simp: handle_routing_provided_def handle_exit_provided_def handle_routing_consumed_def
      handle_exit_consumed_def
      intro: implements_provided implements_consumed implements_received implements_sent implements_scan)

lemma implements_history:
  assumes "tables_ok st" "own_known env st" "cache_synced (banned st, ban_cache st)" "sqlite_adds (ac_sql env)"
    and "list_all (event_ok env) events"
    and "fits (concat (map (entries env (own_addresses env st)) events)) (abs_ledger st)"
  shows "implements (concat (map (entries env (own_addresses env st)) events)) st
    (fold_run (accountant_step env) events st)"
  using assms
proof (induction events arbitrary: st)
  case Nil
  then show ?case
    by (simp add: implements_skip)
next
  case (Cons ev events)
  obtain st1 where st1: "accountant_step env ev st = Ok st1" "tables_ok st1"
      "abs_ledger st1 = fold post (entries env (own_addresses env st) ev) (abs_ledger st)"
      "ac_earning_wallet st1 = ac_earning_wallet st" "ac_consuming_wallet st1 = ac_consuming_wallet st"
      "cache_synced (banned st1, ban_cache st1)"
    using implements_step [of st env ev] Cons.prems by (auto simp: implements_def fits_append)
  note own = own_same [OF st1(4,5)]
  have "implements (concat (map (entries env (own_addresses env st1)) events)) st1
      (fold_run (accountant_step env) events st1)"
    using Cons.prems st1 by (intro Cons.IH) (simp_all add: own fits_append)
  then show ?case
    using st1 by (auto simp: implements_def own fits_append)
qed

text \<open>C7. The accountant refines a ledger of unbounded integers. As long as every amount and every
  balance on the way fits into a signed 64-bit column, every sequence of reports of services
  provided and consumed, received payments, sent payments and scans for delinquencies is handled
  without a panic, the tables stay well formed, and the balances in them are exactly those of the
  ledger with one entry per service and per payment: a service at its true price, in unbounded
  arithmetic, and none for services between the node's own wallets.\<close>

theorem ledger_refined:
  assumes "tables_ok st" "own_known env st" "cache_synced (banned st, ban_cache st)" "sqlite_adds (ac_sql env)"
    and "list_all (event_ok env) events"
    and "fits (concat (map (entries env (own_addresses env st)) events)) (abs_ledger st)"
  shows "\<exists>st'. fold_run (accountant_step env) events st = Ok st' \<and> tables_ok st' \<and>
    abs_ledger st' = fold post (concat (map (entries env (own_addresses env st)) events)) (abs_ledger st)"
  using implements_history [OF assms] by (auto simp: implements_def)

theorem ledger_refined_witness:
  "\<exists>st'. fold_run (accountant_step example_acct_env) example_events example_accountant = Ok st' \<and>
    abs_ledger st' = \<lparr> credit = [[8] \<mapsto> 2000000000, [5] \<mapsto> 5], debt = [[7] \<mapsto> 20] \<rparr>"
proof -
  have "list_all (event_ok example_acct_env) example_events"
    by (simp add: example_events_def)
  from ledger_refined [OF example_ok(1,2,3) example_adds this] show ?thesis
    using example_fits by (auto simp: example_ok(4) example_entries example_abs)
qed

text \<open>C21. A scan for delinquencies always succeeds on well-formed tables and leaves exactly the right
  wallets banned: those that were banned and have not come down to the unban balance, and those
  whose balance lies above the payment curve. What the hopper is told about any wallet afterwards is
  exactly that, and the accounts themselves are untouched.\<close>

theorem delinquency_scan_exact:
  assumes "receivable_ok (receivable st)" "cache_synced (banned st, ban_cache st)"
  shows "\<exists>st'. scan_for_delinquencies env now st = Ok st' \<and> cache_synced (banned st', ban_cache st') \<and>
    receivable st' = receivable st \<and> payable st' = payable st \<and>
    (\<forall>w a. wallet_address (ac_eth env) w = Ok a \<longrightarrow>
       is_banned (ac_eth env) (ban_cache st') w =
       Ok (a \<in> set (banned st) \<and> \<not> settled (receivable st) a \<or> overdue now (receivable st) a))"
proof -
  obtain table cache where scan: "scan_for_delinquencies env now st = Ok (st\<lparr> banned := table, ban_cache := cache \<rparr>)"
    "cache_synced (table, cache)"
    and table: "set table = {a. a \<in> set (banned st) \<and> \<not> settled (receivable st) a \<or> overdue now (receivable st) a}"
    using scan_result [OF assms] by blast
  have "is_banned (ac_eth env) cache w = Ok (a \<in> set table)" if "wallet_address (ac_eth env) w = Ok a" for w a
    using that scan(2) by (auto simp: is_banned_def as_address_wallet_def cache_synced_def)
  with scan table show ?thesis
    by simp
qed

theorem delinquency_scan_exact_witness:
  "\<exists>st'. scan_for_delinquencies example_acct_env 1000000 example_accountant = Ok st' \<and>
    is_banned example_ethsign (ban_cache st') (wallet_from_address [8]) = Ok True"
proof -
  have "overdue 1000000 (receivable example_accountant) [8]"
    unfolding overdue_def
    by (rule exI [of _ "\<lparr> r_balance = SqlInteger 2000000000, r_last_received = 0 \<rparr>"]) code_simp
  moreover have "receivable_ok (receivable example_accountant)"
    using example_ok(1) by (simp add: tables_ok_def)
  moreover have "ac_eth example_acct_env = example_ethsign"
    by (simp add: example_acct_env_def)
  ultimately show ?thesis
    using delinquency_scan_exact [OF _ example_ok(3), of example_acct_env 1000000] by fastforce
qed

section \<open>Payments in flight\<close>

lemma non_pending_wallets:
  assumes "non_pending_payables t = Ok accounts" "account \<in> set accounts"
  shows "\<exists>a row. (a, row) \<in> set t \<and> p_pending row = None \<and> pa_wallet account = wallet_from_address a"
  using map_run_mem [OF assms(1) [unfolded non_pending_payables_def] assms(2)]
  by (auto elim!: bind_run_InrE)

definition in_flight :: "bytes \<Rightarrow> payable_table \<Rightarrow> bool" where
  "in_flight a t \<longleftrightarrow> hm_ok t \<and> (\<exists>row. hm_get t a = Some row \<and> p_pending row \<noteq> None)"

lemma in_flight_owe: "more_money_payable env now w n t = Ok t' \<Longrightarrow> in_flight a t \<Longrightarrow> in_flight a t'"
  by (auto simp: more_money_payable_def try_increase_balance_def in_flight_def elim!: bind_run_InrE split: option.split_asm)

lemma in_flight_pay: "payment_sent env p t = Ok t' \<Longrightarrow> in_flight a t \<Longrightarrow> in_flight a t'"
  by (auto simp: payment_sent_def try_decrease_balance_def in_flight_def elim!: bind_run_InrE split: option.split_asm)

lemma in_flight_sent:
  "fold_run (\<lambda>payment t. case payment of Inr p \<Rightarrow> payment_sent env p t | Inl _ \<Rightarrow> Ok t) ps t = Ok t' \<Longrightarrow>
     in_flight a t \<Longrightarrow> in_flight a t'"
  by (erule fold_run_invariant) (auto split: sum.split_asm intro: in_flight_pay)

lemma in_flight_consumed:
  assumes "record_service_consumed env now sr br n w st = Ok st'" "in_flight a (payable st)"
  shows "in_flight a (payable st')"
proof (cases "our_wallet env st w")
  case (Inr ours)
  show ?thesis
  proof (cases "ours \<or> (\<exists>e. more_money_payable env now w (total_charge sr br n) (payable st) = Err e)")
    case False
    then obtain t where "more_money_payable env now w (total_charge sr br n) (payable st) = Ok t" "\<not> ours"
      by (metis old.sum.exhaust)
    with assms Inr show ?thesis
      by (auto simp: record_service_consumed_def intro: in_flight_owe)
  qed (use assms Inr in \<open>auto simp: record_service_consumed_def split: if_split_asm\<close>)
qed (use assms in \<open>simp add: record_service_consumed_def\<close>)

lemma in_flight_step:
  assumes "accountant_step env ev st = Ok st'" "in_flight a (payable st)"
  shows "in_flight a (payable st')"
  using assms
  by (cases ev, cases "snd ev")
    (auto simp: handle_routing_provided_def handle_exit_provided_def handle_routing_consumed_def
      handle_exit_consumed_def record_service_provided_def
      handle_received_payments_def handle_sent_payments_def scan_for_delinquencies_def
      elim!: bind_run_InrE split: if_split_asm prod.split_asm dest: in_flight_consumed in_flight_sent)

text \<open>Recording a payment that was sent sets the mark.\<close>

lemma paid_in_flight:
  "payment_sent env p t = Ok t' \<Longrightarrow> hm_ok t \<Longrightarrow>
     hm_ok t' \<and> (wallet_address (ac_eth env) (pay_to p) = Ok a \<longrightarrow> in_flight a t')"
  by (auto simp: payment_sent_def try_decrease_balance_def in_flight_def elim!: bind_run_InrE split: option.split)

lemma sent_in_flight:
  "fold_run (\<lambda>payment t. case payment of Inr p \<Rightarrow> payment_sent env p t | Inl _ \<Rightarrow> Ok t) ps t = Ok t' \<Longrightarrow> hm_ok t \<Longrightarrow>
     Inr p \<in> set ps \<Longrightarrow> wallet_address (ac_eth env) (pay_to p) = Ok a \<Longrightarrow> in_flight a t'"
proof (induction ps arbitrary: t)
  case (Cons x ps)
  then obtain t1 where t1: "(case x of Inr p \<Rightarrow> payment_sent env p t | Inl _ \<Rightarrow> Ok t) = Ok t1"
    "fold_run (\<lambda>payment t. case payment of Inr p \<Rightarrow> payment_sent env p t | Inl _ \<Rightarrow> Ok t) ps t1 = Ok t'"
    by (auto elim!: bind_run_InrE)
  show ?case
  proof (cases "x = Inr p")
    case True
    with t1(1) Cons.prems(2,4) paid_in_flight [of env p t t1 a] have "in_flight a t1"
      by simp
    then show ?thesis
      by (rule in_flight_sent [OF t1(2)])
  next
    case False
    have "hm_ok t1"
      using t1(1) Cons.prems(2) paid_in_flight by (auto split: sum.split_asm)
    with False Cons.prems t1(2) show ?thesis
      by (intro Cons.IH [of t1]) auto
  qed
qed simp

text \<open>C35. Once a payment to a wallet has been reported as sent, the scan for payables never proposes
  another payment to that wallet, whatever is reported with it and afterwards and however large the debt
  grows: recording the payment marks the account as pending, and the mark is never taken back.\<close>

theorem sent_payment_is_last:
  assumes "hm_ok (payable st)" "Inr p \<in> set ps" "wallet_address (ac_eth env) (pay_to p) = Ok a"
    and "fold_run (accountant_step env) ((t, PaymentsSent ps) # events) st = Ok st'"
    and "scan_for_payables now st' = Ok outs" "ReportAccountsPayable accounts \<in> set outs"
  shows "wallet_from_address a \<notin> pa_wallet ` set accounts"
proof -
  obtain st1 where st1: "handle_sent_payments env ps st = Ok st1" "fold_run (accountant_step env) events st1 = Ok st'"
    using assms(4) by (auto elim!: bind_run_InrE)
  then have "in_flight a (payable st1)"
    using sent_in_flight [OF _ assms(1-3)] by (auto simp: handle_sent_payments_def elim!: bind_run_InrE)
  with st1(2) have fl: "in_flight a (payable st')"
    by (rule fold_run_invariant) (auto intro: in_flight_step)
  obtain all where all: "non_pending_payables (payable st') = Ok all" "filter_run (should_pay now) all = Ok accounts"
    using assms(5,6) by (auto simp: scan_for_payables_def elim!: bind_run_InrE split: if_split_asm)
  have "wallet_from_address a \<notin> pa_wallet ` set all"
    using fl by (auto simp: in_flight_def dest!: non_pending_wallets [OF all(1)] hm_mem_get)
  then show ?thesis
    using filter_run_subset [OF all(2)] by blast
qed

text \<open>Two debts, both due; one of them is paid, and grows again by more than before: the next scan proposes
  the other one alone.\<close>

definition demo_debtor :: accountant where
  "demo_debtor = accountant_bind (example_accountant
     \<lparr> payable := [([7], \<lparr> p_balance = SqlInteger 9000000000, p_last_paid = 5, p_pending = None \<rparr>),
                  ([6], \<lparr> p_balance = SqlInteger 8000000000, p_last_paid = 5, p_pending = None \<rparr>)] \<rparr>)"

definition demo_sent :: payment where
  "demo_sent = \<lparr> pay_to = wallet_from_address [7], pay_amount = 9000000000, pay_timestamp = 12, pay_transaction = [1] \<rparr>"

definition demo_later :: "(int \<times> accountant_event) list" where
  "demo_later = [(14, ExitConsumed \<lparr> xsc_earning_wallet = wallet_from_address [7], xsc_payload_size = 10,
     xsc_service_rate = 9000000000, xsc_byte_rate = 1 \<rparr>)]"

theorem sent_payment_is_last_witness:
  "\<exists>st' outs accounts. fold_run (accountant_step example_acct_env) ((13, PaymentsSent [Inr demo_sent]) # demo_later) demo_debtor = Ok st' \<and>
    scan_for_payables 1000000 st' = Ok outs \<and> ReportAccountsPayable accounts \<in> set outs \<and>
    wallet_from_address [6] \<in> pa_wallet ` set accounts \<and> wallet_from_address [7] \<notin> pa_wallet ` set accounts"
proof -
  let ?accounts = "[\<lparr> pa_wallet = wallet_from_address [6], pa_balance = 8000000000, pa_last_paid_timestamp = 5,
     pa_pending_payment_transaction = None \<rparr>]"
  have "case fold_run (accountant_step example_acct_env) ((13, PaymentsSent [Inr demo_sent]) # demo_later) demo_debtor of
      Inl _ \<Rightarrow> False | Inr st' \<Rightarrow> scan_for_payables 1000000 st' = Ok [ReportAccountsPayable ?accounts]"
    by code_simp
  then obtain st' where run: "fold_run (accountant_step example_acct_env) ((13, PaymentsSent [Inr demo_sent]) # demo_later) demo_debtor = Ok st'"
    and scan: "scan_for_payables 1000000 st' = Ok [ReportAccountsPayable ?accounts]"
    by (auto split: sum.split_asm)
  have "hm_ok (payable demo_debtor)" "wallet_address (ac_eth example_acct_env) (pay_to demo_sent) = Ok [7]"
    by (simp_all add: demo_debtor_def demo_sent_def accountant_bind_def hm_ok_def)
  from sent_payment_is_last [OF this(1) _ this(2) run scan, of ?accounts]
  have "wallet_from_address [7] \<notin> pa_wallet ` set ?accounts"
    by simp
  moreover have "wallet_from_address [6] \<in> pa_wallet ` set ?accounts"
    by simp
  moreover have "ReportAccountsPayable ?accounts \<in> set [ReportAccountsPayable ?accounts]"
    by simp
  ultimately show ?thesis
    using run scan by blast
qed

section \<open>Amounts beyond the columns\<close>

text \<open>For a service consumed from another wallet, the accountant panics exactly when the 64-bit
  charge has its top bit set (the amount does not fit the signed column). The same charge for a
  service provided is taken for a negative number and added to the balance, which lowers the debt of
  the customer.\<close>

theorem oversized_charge:
  assumes "own_known env st" "known env w" "addr_of env w \<notin> own_addresses env st"
  shows "((\<exists>e. record_service_consumed env now sr br n w st = Err e) \<longleftrightarrow> 2 ^ 63 \<le> uint (total_charge sr br n)) \<and>
    (\<forall>row. hm_get (receivable st) (addr_of env w) = Some row \<longrightarrow> 2 ^ 63 \<le> uint (total_charge sr br n) \<longrightarrow>
       record_service_provided env now sr br n w st =
       Ok (st\<lparr> receivable := hm_insert (addr_of env w)
         (row\<lparr> r_balance := sql_plus (ac_sql env) (r_balance row) (uint (total_charge sr br n) - 2 ^ 64) \<rparr>)
         (receivable st) \<rparr>))"
proof -
  have "sint (total_charge sr br n) = uint (total_charge sr br n) - 2 ^ 64" if "2 ^ 63 \<le> uint (total_charge sr br n)"
    by (rule sint_large [OF that])
  with assms show ?thesis
    by (simp add: record_service_consumed_def record_service_provided_def our_wallet_known more_money_payable_def
        try_increase_balance_def i64_try_from_def more_money_receivable_def try_update_def known_def)
qed

theorem oversized_charge_witness:
  "(\<exists>e. record_service_consumed example_acct_env 10 (2 ^ 63) 0 0 (wallet_from_address [7]) example_accountant = Err e) \<and>
    (\<exists>st'. record_service_provided example_acct_env 10 (2 ^ 63) 0 0 (wallet_from_address [8]) example_accountant = Ok st' \<and>
       credit (abs_ledger st') [8] = Some (2000000000 - 2 ^ 63))"
proof -
  have charge: "uint (total_charge 9223372036854775808 0 0) = 9223372036854775808"
    by (simp add: total_charge_def)
  have "hm_get (receivable example_accountant) [8] = Some \<lparr> r_balance = SqlInteger 2000000000, r_last_received = 0 \<rparr>"
    by (simp add: example_accountant_def accountant_new_def hm_get_def)
  then show ?thesis
    using oversized_charge [OF example_ok(2) example_known(1) [of _ "[7]"], of example_acct_env 10 "2 ^ 63" 0 0]
      oversized_charge [OF example_ok(2) example_known(1) [of _ "[8]"], of example_acct_env 10 "2 ^ 63" 0 0]
    by (simp add: example_ok(4) charge abs_receivable_def example_acct_env_def example_sqlite_def i64_ok_def)
qed

end
