(* ===== verification/ProtocolPack.thy ===== *)
theory ProtocolPack
  imports Cores HttpFraming
begin

text \<open>
  What the proxy server knows about HTTP and TLS: the traverser of \<open>sub_lib/binary_traverser.rs\<close>,
  the protocol packs \<open>proxy_server/protocol_pack.rs\<close>, \<open>http_protocol_pack.rs\<close> and
  \<open>tls_protocol_pack.rs\<close>, the error answers of \<open>server_impersonator_http.rs\<close> and
  \<open>server_impersonator_tls.rs\<close>, and \<open>client_request_payload_factory.rs\<close>.

  A trait object is a record of functions. Text is a list of characters that stand for its bytes.
  The host pattern (crate regex) and the parser of HTTP methods (crate http) are parameters.
\<close>

section \<open>BinaryTraverser\<close>

record binary_traverser =
  bt_plain_data :: plain_data
  bt_position :: nat

type_synonym 'a traversed = "(unit + 'a) \<times> binary_traverser"

text \<open>The operator \<open>?\<close> on a call that moves the traverser.\<close>

definition and_then :: "'a traversed \<Rightarrow> ('a \<Rightarrow> binary_traverser \<Rightarrow> 'b traversed) \<Rightarrow> 'b traversed" where
  "and_then r f = (case r of (Inl e, x) \<Rightarrow> (Inl e, x) | (Inr a, x) \<Rightarrow> f a x)"

definition bt_new :: "plain_data \<Rightarrow> binary_traverser" where
  "bt_new plain_data = \<lparr> bt_plain_data = plain_data, bt_position = 0 \<rparr>"

definition bt_offset :: "binary_traverser \<Rightarrow> nat" where
  "bt_offset self = bt_position self"

definition bt_is_valid :: "binary_traverser \<Rightarrow> bool" where
  "bt_is_valid self \<longleftrightarrow> bt_position self < length (bt_plain_data self)"

definition bt_advance :: "nat \<Rightarrow> binary_traverser \<Rightarrow> unit traversed" where
  "bt_advance bytes_to_go self =
     (let self' = self\<lparr> bt_position := bt_position self + bytes_to_go \<rparr>
      in (if length (bt_plain_data self') < bt_position self' then Err () else Ok (), self'))"

definition next_bytes :: "nat \<Rightarrow> binary_traverser \<Rightarrow> bytes traversed" where
  "next_bytes how_many self =
     (let position = bt_offset self
      in and_then (bt_advance how_many self) (\<lambda>_ self'.
         (Ok (take how_many (drop position (bt_plain_data self'))), self')))"

definition convert_result :: "'a option \<Rightarrow> unit + 'a" where
  "convert_result x = (case x of Some v \<Rightarrow> Ok v | None \<Rightarrow> Err ())"

definition bt_get_u8 :: "binary_traverser \<Rightarrow> u8 traversed" where
  "bt_get_u8 self =
     and_then (bt_advance 1 self) (\<lambda>_ self'.
     (convert_result (get_u8 (bt_plain_data self') (bt_position self' - 1)), self'))"

definition bt_get_u16 :: "binary_traverser \<Rightarrow> u16 traversed" where
  "bt_get_u16 self =
     and_then (bt_advance 2 self) (\<lambda>_ self'.
     (convert_result (get_u16 (bt_plain_data self') (bt_position self' - 2)), self'))"

definition bt_get_u24 :: "binary_traverser \<Rightarrow> u32 traversed" where
  "bt_get_u24 self =
     and_then (bt_advance 3 self) (\<lambda>_ self'.
     (convert_result (get_u24 (bt_plain_data self') (bt_position self' - 3)), self'))"

definition bt_get_u32 :: "binary_traverser \<Rightarrow> u32 traversed" where
  "bt_get_u32 self =
     and_then (bt_advance 4 self) (\<lambda>_ self'.
     (convert_result (get_u32 (bt_plain_data self') (bt_position self' - 4)), self'))"

section \<open>Protocol packs\<close>

record host =
  host_name :: string
  host_port :: "u16 option"

record server_impersonator =
  route_query_failure_response :: "string \<Rightarrow> bytes"
  dns_resolution_failure_response :: "public_key \<Rightarrow> string option \<Rightarrow> bytes"
  consuming_wallet_absent :: bytes

record protocol_pack =
  pp_proxy_protocol :: proxy_protocol
  standard_port :: u16
  find_host :: "plain_data \<Rightarrow> host option run"
  impersonator :: server_impersonator

definition HTTP_PORT :: u16 where
  "HTTP_PORT = 80"

definition TLS_PORT :: u16 where
  "TLS_PORT = 443"

text \<open>Third-party parameters: the capture of the host pattern in a text, and which bytes the crate
  http reads as the method CONNECT.\<close>

record web_env =
  we_libraries :: libraries
  host_pattern :: "string \<Rightarrow> string option"
  connect_method :: "bytes \<Rightarrow> bool"

section \<open>HttpProtocolPack\<close>

definition port_from_string :: "string \<Rightarrow> u16 option" where
  "port_from_string port_str = parse_u16 port_str"

definition host_from_host_name_and_port :: "string \<Rightarrow> host option" where
  "host_from_host_name_and_port host_and_port =
     (case split_on CHR '':'' host_and_port of
        [name] \<Rightarrow> Some \<lparr> host_name = name, host_port = None \<rparr>
      | [name, port_str] \<Rightarrow> Some \<lparr> host_name = name, host_port = port_from_string port_str \<rparr>
      | _ \<Rightarrow> None)"

definition from_utf8 :: "bytes \<Rightarrow> string option" where
  "from_utf8 b = (if valid_utf8 b then Some (text_of b) else None)"

definition find_url_host :: "web_env \<Rightarrow> bytes \<Rightarrow> host option" where
  "find_url_host env dat =
     Option.bind (index_of dat CRLF) (\<lambda>idx.
     let first_line = take idx dat
     in Option.bind (index_of first_line (ascii '' '')) (\<lambda>space.
     let path_begin = space + 1
     in Option.bind (index_of (drop path_begin dat) (ascii '' '')) (\<lambda>gap.
     let path_end = gap + path_begin
     in Option.bind (from_utf8 (take (path_end - path_begin) (drop path_begin dat))) (\<lambda>path.
     Option.bind (host_pattern env path) (\<lambda>host_name_and_port.
     case host_from_host_name_and_port host_name_and_port of
       Some h \<Rightarrow> if host_name h \<noteq> [] then Some h else None
     | None \<Rightarrow> None)))))"

definition find_header_host :: "bytes \<Rightarrow> host option" where
  "find_header_host dat =
     Option.bind (index_of dat (CRLF @ CRLF)) (\<lambda>idx.
     let headers = take (idx + 2) dat; needle = CRLF @ ascii ''Host: ''
     in Option.bind (index_of headers needle) (\<lambda>found.
     let begin_pos = found + length needle
     in Option.bind (index_of (drop begin_pos headers) CRLF) (\<lambda>len.
     let host_header_value = take len (drop begin_pos headers)
     in Option.bind (from_utf8 host_header_value) host_from_host_name_and_port)))"

definition http_find_host :: "web_env \<Rightarrow> plain_data \<Rightarrow> host option" where
  "http_find_host env dat =
     (case find_url_host env dat of
        Some h \<Rightarrow> Some h
      | None \<Rightarrow> find_header_host dat)"

definition is_connect :: "web_env \<Rightarrow> bytes \<Rightarrow> bool" where
  "is_connect env dat =
     (let method_bytes = takeWhile (\<lambda>c. c \<noteq> of_char CHR '' '') (take 8 dat)
      in connect_method env method_bytes)"

section \<open>TlsProtocolPack\<close>

definition is_handshake :: "binary_traverser \<Rightarrow> bool \<times> binary_traverser" where
  "is_handshake xvsr = (let (r, xvsr') = bt_get_u8 xvsr in (r = Ok 22, xvsr'))"

definition is_client_hello :: "binary_traverser \<Rightarrow> (bool \<times> binary_traverser) run" where
  "is_client_hello xvsr =
     (case bt_advance (5 - bt_offset xvsr) xvsr of
        (Inl _, _) \<Rightarrow> Err ExpectFailed
      | (Inr _, xvsr') \<Rightarrow> (let (r, xvsr'') = bt_get_u8 xvsr' in Ok (r = Ok 1, xvsr'')))"

definition host_name_from_list_entry :: "binary_traverser \<Rightarrow> string traversed" where
  "host_name_from_list_entry xvsr =
     and_then (bt_get_u16 xvsr) (\<lambda>server_name_length x1.
     and_then (next_bytes (unat server_name_length) x1) (\<lambda>server_name_bytes x2.
     (case from_utf8 server_name_bytes of Some hostname \<Rightarrow> Ok hostname | None \<Rightarrow> Err (), x2)))"

text \<open>A loop over a list of entries: its body either ends the search (\<open>Inl\<close>) or goes on from where
  the traverser then stands (\<open>Inr\<close>).\<close>

definition server_name_entry :: "binary_traverser \<Rightarrow> string traversed + binary_traverser" where
  "server_name_entry xvsr =
     (case bt_get_u8 xvsr of
        (Inl e, x) \<Rightarrow> Inl (Inl e, x)
      | (Inr server_name_type, x1) \<Rightarrow>
          if server_name_type = 0 then Inl (host_name_from_list_entry x1)
          else (case and_then (bt_get_u16 x1) (\<lambda>server_name_length. bt_advance (unat server_name_length)) of
                  (Inl e, x) \<Rightarrow> Inl (Inl e, x)
                | (Inr _, x) \<Rightarrow> Inr x))"

lemma bt_advance_position: "bt_advance n x = (r, x') \<Longrightarrow> bt_position x' = bt_position x + n \<and> bt_plain_data x' = bt_plain_data x"
  by (auto simp: bt_advance_def Let_def)

lemma bt_get_position:
  "bt_get_u8 x = (r, x') \<Longrightarrow> bt_position x' = bt_position x + 1"
  "bt_get_u16 x = (s, x') \<Longrightarrow> bt_position x' = bt_position x + 2"
  by (auto simp: bt_get_u8_def bt_get_u16_def and_then_def bt_advance_def Let_def split: if_split_asm)

lemma server_name_entry_moves: "server_name_entry x = Inr x' \<Longrightarrow> bt_position x < bt_position x'"
  by (auto simp: server_name_entry_def and_then_def split: prod.split_asm sum.split_asm if_split_asm
      dest!: bt_get_position bt_advance_position)

function server_name_list_loop :: "nat \<Rightarrow> binary_traverser \<Rightarrow> string traversed" where
  "server_name_list_loop stop xvsr =
     (if bt_offset xvsr < stop
      then (case server_name_entry xvsr of
              Inl result \<Rightarrow> result
            | Inr xvsr' \<Rightarrow> server_name_list_loop stop xvsr')
      else (Err (), xvsr))"
  by pat_completeness auto
termination
  by (relation "measure (\<lambda>(stop, x). stop - bt_position x)")
    (auto simp: bt_offset_def dest!: server_name_entry_moves)

definition host_name_from_extension :: "binary_traverser \<Rightarrow> string traversed" where
  "host_name_from_extension xvsr =
     and_then (bt_advance 2 xvsr) (\<lambda>_ x1.
     and_then (bt_get_u16 x1) (\<lambda>server_name_list_length x2.
     let server_name_list_end = bt_offset x2 + unat server_name_list_length
     in server_name_list_loop server_name_list_end x2))"

definition extension_entry :: "binary_traverser \<Rightarrow> string traversed + binary_traverser" where
  "extension_entry xvsr =
     (case bt_get_u16 xvsr of
        (Inl e, x) \<Rightarrow> Inl (Inl e, x)
      | (Inr extension_type, x1) \<Rightarrow>
          if extension_type = 0 then Inl (host_name_from_extension x1)
          else (case and_then (bt_get_u16 x1) (\<lambda>extension_length. bt_advance (unat extension_length)) of
                  (Inl e, x) \<Rightarrow> Inl (Inl e, x)
                | (Inr _, x) \<Rightarrow> Inr x))"

lemma extension_entry_moves: "extension_entry x = Inr x' \<Longrightarrow> bt_position x < bt_position x'"
  by (auto simp: extension_entry_def and_then_def split: prod.split_asm sum.split_asm if_split_asm
      dest!: bt_get_position bt_advance_position)

function extensions_loop :: "nat \<Rightarrow> binary_traverser \<Rightarrow> string traversed" where
  "extensions_loop stop xvsr =
     (if bt_offset xvsr < stop
      then (case extension_entry xvsr of
              Inl result \<Rightarrow> result
            | Inr xvsr' \<Rightarrow> extensions_loop stop xvsr')
      else (Err (), xvsr))"
  by pat_completeness auto
termination
  by (relation "measure (\<lambda>(stop, x). stop - bt_position x)")
    (auto simp: bt_offset_def dest!: extension_entry_moves)

declare server_name_list_loop.simps [simp del] extensions_loop.simps [simp del]

definition host_name_from_client_hello :: "binary_traverser \<Rightarrow> string traversed" where
  "host_name_from_client_hello xvsr =
     and_then (bt_advance (43 - bt_offset xvsr) xvsr) (\<lambda>_ x1.
     and_then (bt_get_u8 x1) (\<lambda>session_id_length x2.
     and_then (bt_advance (unat session_id_length) x2) (\<lambda>_ x3.
     and_then (bt_get_u16 x3) (\<lambda>cipher_suites_length x4.
     and_then (bt_advance (unat cipher_suites_length) x4) (\<lambda>_ x5.
     and_then (bt_get_u8 x5) (\<lambda>compression_methods_length x6.
     and_then (bt_advance (unat compression_methods_length) x6) (\<lambda>_ x7.
     and_then (bt_get_u16 x7) (\<lambda>extensions_length x8.
     let extensions_offset = bt_offset x8
     in extensions_loop (extensions_offset + unat extensions_length) x8))))))))"

definition tls_find_host :: "plain_data \<Rightarrow> host option run" where
  "tls_find_host dat =
     (let (handshake, x1) = is_handshake (bt_new dat)
      in if \<not> handshake then Ok None
         else bind_run (is_client_hello x1) (\<lambda>(client_hello, x2).
              if \<not> client_hello then Ok None
              else case host_name_from_client_hello x2 of
                     (Inr name, _) \<Rightarrow> Ok (Some \<lparr> host_name = name, host_port = None \<rparr>)
                   | (Inl _, _) \<Rightarrow> Ok None))"

section \<open>Server impersonators\<close>

text \<open>\<open>str::replace\<close> for a nonempty pattern.\<close>

function replace_all :: "string \<Rightarrow> string \<Rightarrow> string \<Rightarrow> string" where
  "replace_all pat new s =
     (if pat \<noteq> [] \<and> take (length pat) s = pat then new @ replace_all pat new (drop (length pat) s)
      else case s of [] \<Rightarrow> [] | c # cs \<Rightarrow> c # replace_all pat new cs)"
  by pat_completeness auto
termination
proof (relation "measure (\<lambda>(p, n, s). length s)", goal_cases)
  case (2 pat new s)
  then show ?case
    by (cases s) auto
qed auto

declare replace_all.simps [simp del]

abbreviation LF :: string where
  "LF \<equiv> [CHR 0x0A]"

abbreviation CR_LF :: string where
  "CR_LF \<equiv> [CHR 0x0D, CHR 0x0A]"

definition ERROR_TEMPLATE :: string where
  "ERROR_TEMPLATE =
     ''<html>'' @ LF @ ''<body>'' @ LF @ ''<h1>Error {status}</h1>'' @ LF @ ''<h2>Title: {title}</h2>'' @ LF @
     ''<h3>Subtitle: {subtitle}</h3>'' @ LF @ ''<p>{content}</p>'' @ LF @ ''</body>'' @ LF @ ''</html>'' @ LF"

definition HTTP_RESPONSE_TEMPLATE :: string where
  "HTTP_RESPONSE_TEMPLATE =
     ''HTTP/1.1 {status} Routing Error'' @ CR_LF @ ''Content-Type: text/html'' @ CR_LF @
     ''Content-Length: {length}'' @ CR_LF @ CR_LF @ ''{body}''"

definition make_error_page :: "u16 \<Rightarrow> string \<Rightarrow> string \<Rightarrow> string \<Rightarrow> string" where
  "make_error_page status title subtitle content =
     replace_all ''{content}'' content
       (replace_all ''{subtitle}'' subtitle
         (replace_all ''{title}'' title
           (replace_all ''{status}'' (show_nat (unat status)) ERROR_TEMPLATE)))"

definition make_error_response :: "u16 \<Rightarrow> string \<Rightarrow> string \<Rightarrow> string \<Rightarrow> bytes" where
  "make_error_response status title subtitle content =
     (let html = make_error_page status title subtitle content
      in ascii (replace_all ''{body}'' html
           (replace_all ''{length}'' (show_nat (length html))
             (replace_all ''{status}'' (show_nat (unat status)) HTTP_RESPONSE_TEMPLATE))))"

definition http_route_query_failure_response :: "string \<Rightarrow> bytes" where
  "http_route_query_failure_response server_name =
     make_error_response 503 ''Routing Problem'' (''Can't find a route to '' @ server_name)
       (''Prometheus can't find a route through the Network yet to a Node that knows where to find '' @ server_name @
        ''. Maybe later enough will be known about the Network to find that Node, but we can't guarantee it. We're sorry.'')"

definition http_dns_resolution_failure_response :: "libraries \<Rightarrow> public_key \<Rightarrow> string option \<Rightarrow> bytes" where
  "http_dns_resolution_failure_response lib exit_key server_name_opt =
     (let (server_name, quoted_server_name) = (case server_name_opt of
             Some name \<Rightarrow> (name, [CHR 0x22] @ name @ [CHR 0x22])
           | None \<Rightarrow> (''<unspecified>'', ''<unspecified>''))
      in make_error_response 503 ''DNS Resolution Problem'' (''Exit Node couldn't resolve '' @ quoted_server_name)
           (''We chose the exit Node '' @ libraries.base64_encode lib exit_key @ '' for your request to '' @ server_name @
            ''; but when it asked its DNS server to look up the IP address for '' @ server_name @
            '', it wasn't found. If '' @ server_name @
            '' exists, it will need to be looked up by a different exit Node. We've deprioritized this exit Node. '' @
            ''Reload the page, and we'll try to find another.''))"

definition http_consuming_wallet_absent :: bytes where
  "http_consuming_wallet_absent =
     make_error_response 402 ''Consuming Wallet Required'' ''Can't consume without wallet to pay from''
       (''You're trying to consume routing and exit services from other Nodes, but you haven't '' @
        ''specified a consuming wallet from which your Node can pay the bills you're about to incur. '' @
        ''Set up a funded consuming wallet and try again.'')"

definition server_impersonator_http :: "libraries \<Rightarrow> server_impersonator" where
  "server_impersonator_http lib =
     \<lparr> route_query_failure_response = http_route_query_failure_response,
       dns_resolution_failure_response = http_dns_resolution_failure_response lib,
       consuming_wallet_absent = http_consuming_wallet_absent \<rparr>"

definition TLS_INTERNAL_ERROR_ALERT :: bytes where
  "TLS_INTERNAL_ERROR_ALERT = [0x15, 0x03, 0x03, 0x00, 0x02, 0x02, 0x50]"

definition TLS_UNRECOGNIZED_NAME_ALERT :: bytes where
  "TLS_UNRECOGNIZED_NAME_ALERT = [0x15, 0x03, 0x03, 0x00, 0x02, 0x02, 0x70]"

definition server_impersonator_tls :: server_impersonator where
  "server_impersonator_tls =
     \<lparr> route_query_failure_response = (\<lambda>_. TLS_INTERNAL_ERROR_ALERT),
       dns_resolution_failure_response = (\<lambda>_ _. TLS_UNRECOGNIZED_NAME_ALERT),
       consuming_wallet_absent = TLS_INTERNAL_ERROR_ALERT \<rparr>"

section \<open>Choice of the pack\<close>

definition http_protocol_pack :: "web_env \<Rightarrow> protocol_pack" where
  "http_protocol_pack env =
     \<lparr> pp_proxy_protocol = HTTP, standard_port = HTTP_PORT, find_host = (\<lambda>dat. Ok (http_find_host env dat)),
       impersonator = server_impersonator_http (we_libraries env) \<rparr>"

definition tls_protocol_pack :: protocol_pack where
  "tls_protocol_pack =
     \<lparr> pp_proxy_protocol = TLS, standard_port = 443, find_host = tls_find_host,
       impersonator = server_impersonator_tls \<rparr>"

fun from_protocol :: "web_env \<Rightarrow> proxy_protocol \<Rightarrow> protocol_pack" where
  "from_protocol env HTTP = http_protocol_pack env"
| "from_protocol env TLS = tls_protocol_pack"

definition from_standard_port :: "web_env \<Rightarrow> u16 \<Rightarrow> protocol_pack option" where
  "from_standard_port env port_number =
     (if port_number = HTTP_PORT then Some (http_protocol_pack env)
      else if port_number = TLS_PORT then Some tls_protocol_pack
      else None)"

definition from_ibcd :: "web_env \<Rightarrow> inbound_client_data \<Rightarrow> protocol_pack option" where
  "from_ibcd env ibcd =
     (case reception_port ibcd of
        None \<Rightarrow> None
      | Some origin_port \<Rightarrow> from_standard_port env origin_port)"

section \<open>ClientRequestPayloadFactory\<close>

definition make_client_request ::
    "web_env \<Rightarrow> cryptde \<Rightarrow> inbound_client_data \<Rightarrow> stream_key \<Rightarrow> client_request_payload option run" where
  "make_client_request env cryptde ibcd stream_key =
     (case from_ibcd env ibcd of
        None \<Rightarrow> Ok None
      | Some pack \<Rightarrow>
          (case ibcd_sequence_number ibcd of
             None \<Rightarrow> Ok None
           | Some number \<Rightarrow>
               bind_run (find_host pack (ibcd_data ibcd)) (\<lambda>target_host.
               bind_run client_request_version (\<lambda>version.
               let (hostname, port_number) = (case target_host of
                     Some h \<Rightarrow> (case host_port h of
                         Some p \<Rightarrow> (Some (host_name h), p)
                       | None \<Rightarrow> (Some (host_name h), standard_port pack))
                   | None \<Rightarrow> (None, standard_port pack))
               in Ok (Some \<lparr> crq_version = version, crq_stream_key = stream_key,
                    crq_sequenced_packet = \<lparr> sp_data = ibcd_data ibcd, sequence_number = number,
                      last_data = ibcd_last_data ibcd \<rparr>,
                    target_hostname = hostname, target_port = port_number, protocol = pp_proxy_protocol pack,
                    originator_public_key = cd_public_key cryptde \<rparr>)))))"

section \<open>The server name of a TLS client\<close>

text \<open>A client hello message as the TLS standard lays it out, with the extensions before and after
  the one that names the server.\<close>

definition u16_bytes :: "nat \<Rightarrow> bytes" where
  "u16_bytes n = [of_nat (n div 256), of_nat (n mod 256)]"

definition opaque8 :: "bytes \<Rightarrow> bytes" where
  "opaque8 b = of_nat (length b) # b"

definition opaque16 :: "bytes \<Rightarrow> bytes" where
  "opaque16 b = u16_bytes (length b) @ b"

definition extension :: "nat \<times> bytes \<Rightarrow> bytes" where
  "extension e = u16_bytes (fst e) @ opaque16 (snd e)"

definition server_name_extension :: "bytes \<Rightarrow> bytes" where
  "server_name_extension name = u16_bytes 0 @ opaque16 (opaque16 (0 # opaque16 name))"

definition hello_extensions :: "(nat \<times> bytes) list \<Rightarrow> bytes \<Rightarrow> bytes \<Rightarrow> bytes" where
  "hello_extensions before name after = concat (map extension before) @ server_name_extension name @ after"

definition client_hello :: "bytes \<Rightarrow> bytes \<Rightarrow> bytes \<Rightarrow> bytes \<Rightarrow> bytes \<Rightarrow> bytes" where
  "client_hello header session_id cipher_suites compression_methods extensions =
     header @ opaque8 session_id @ opaque16 cipher_suites @ opaque8 compression_methods @ opaque16 extensions"

definition at :: "binary_traverser \<Rightarrow> bytes \<Rightarrow> bool" where
  "at x rest \<longleftrightarrow> bt_position x \<le> length (bt_plain_data x) \<and> drop (bt_position x) (bt_plain_data x) = rest"

definition moved :: "nat \<Rightarrow> binary_traverser \<Rightarrow> binary_traverser" where
  "moved n x = x\<lparr> bt_position := bt_position x + n \<rparr>"

lemma bt_position_moved [simp]: "bt_position (moved n x) = bt_position x + n"
  by (simp add: moved_def)

lemma u16_of_bytes:
  assumes "n < 65536"
  shows "(push_bit 8 (ucast (of_nat (n div 256) :: u8)) OR ucast (of_nat (n mod 256) :: u8) :: u16) = of_nat n"
proof (rule bit_eqI)
  fix k
  assume "possible_bit TYPE(u16) k"
  then have k: "k < 16"
    by simp
  have "bit (n div 256) j \<longleftrightarrow> bit n (j + 8)" "bit (n mod 256) j \<longleftrightarrow> j < 8 \<and> bit n j" for j
    using bit_drop_bit_eq [of 8 n] bit_take_bit_iff [of 8 n j]
    by (simp_all add: drop_bit_eq_div take_bit_eq_mod add.commute)
  then show "bit (push_bit 8 (ucast (of_nat (n div 256) :: u8)) OR ucast (of_nat (n mod 256) :: u8) :: u16) k \<longleftrightarrow>
      bit (of_nat n :: u16) k"
    using k by (auto simp: bit_simps)
qed

lemma length_at: "at x rest \<Longrightarrow> length (bt_plain_data x) = bt_position x + length rest"
  unfolding at_def by (metis le_add_diff_inverse length_drop)

lemma advance_at:
  assumes "at x (a @ b)" "length a = n"
  shows "bt_advance n x = (Ok (), moved n x) \<and> at (moved n x) b"
proof -
  have "bt_position x + n \<le> length (bt_plain_data x)"
    using length_at [OF assms(1)] assms(2) by simp
  moreover have "drop (bt_position x + n) (bt_plain_data x) = b"
    using assms by (simp add: at_def add.commute flip: drop_drop)
  ultimately show ?thesis
    by (simp add: bt_advance_def moved_def at_def Let_def)
qed

lemma nth_at: "at x (a @ b) \<Longrightarrow> k < length a \<Longrightarrow> bt_plain_data x ! (bt_position x + k) = a ! k"
  unfolding at_def by (metis nth_append nth_drop)

lemma get_u8_at:
  assumes "at x (c # b)"
  shows "bt_get_u8 x = (Ok c, moved 1 x) \<and> at (moved 1 x) b"
proof -
  have adv: "bt_advance 1 x = (Ok (), moved 1 x)" "at (moved 1 x) b"
    using advance_at [of x "[c]" b 1] assms by auto
  have "bt_plain_data x ! bt_position x = c" "bt_position x < length (bt_plain_data x)"
    using nth_at [of x "[c]" b 0] length_at [OF assms] assms by simp_all
  with adv show ?thesis
    by (simp add: bt_get_u8_def and_then_def get_u8_def convert_result_def moved_def)
qed

lemma get_u16_at:
  assumes "at x (u16_bytes n @ b)" "n < 65536"
  shows "bt_get_u16 x = (Ok (of_nat n), moved 2 x) \<and> at (moved 2 x) b"
proof -
  have adv: "bt_advance 2 x = (Ok (), moved 2 x)" "at (moved 2 x) b"
    using advance_at [of x "u16_bytes n" b 2] assms(1) by (auto simp: u16_bytes_def)
  have "bt_plain_data x ! bt_position x = of_nat (n div 256)"
    "bt_plain_data x ! (bt_position x + 1) = of_nat (n mod 256)"
    using nth_at [OF assms(1), of 0] nth_at [OF assms(1), of 1] by (simp_all add: u16_bytes_def)
  moreover have "bt_position x + 1 < length (bt_plain_data x)"
    using length_at [OF assms(1)] by (simp add: u16_bytes_def)
  ultimately show ?thesis
    using adv by (simp add: bt_get_u16_def and_then_def get_u16_def convert_result_def moved_def u16_of_bytes [OF assms(2)])
qed

lemma and_then_Ok [simp]: "and_then (Ok a, x) f = f a x"
  by (simp add: and_then_def)

lemma unat_lengths [simp]:
  "n < 65536 \<Longrightarrow> unat (of_nat n :: u16) = n"
  "n < 256 \<Longrightarrow> unat (of_nat n :: u8) = n"
  by (simp_all add: unat_of_nat)

lemma next_bytes_at:
  assumes "at x (a @ b)" "length a = n"
  shows "next_bytes n x = (Ok a, moved n x)"
  using advance_at [OF assms] assms
  by (simp add: next_bytes_def bt_offset_def Let_def moved_def at_def)

lemma opaque16_at:
  assumes "at x (opaque16 a @ b)" "length a < 65536"
  shows "bt_get_u16 x = (Ok (of_nat (length a)), moved 2 x) \<and> at (moved 2 x) (a @ b)"
  using get_u16_at [of x "length a" "a @ b"] assms by (simp add: opaque16_def)

lemma opaque8_at:
  assumes "at x (opaque8 a @ b)"
  shows "bt_get_u8 x = (Ok (of_nat (length a)), moved 1 x) \<and> at (moved 1 x) (a @ b)"
  using get_u8_at [of x "of_nat (length a)" "a @ b"] assms by (simp add: opaque8_def)

lemma list_entry_at:
  assumes "at x (opaque16 name @ b)" "length name < 65536" "valid_utf8 name"
  shows "fst (host_name_from_list_entry x) = Ok (text_of name)"
proof -
  have get: "bt_get_u16 x = (Ok (of_nat (length name)), moved 2 x)" "at (moved 2 x) (name @ b)"
    using opaque16_at [OF assms(1,2)] by auto
  then show ?thesis
    using next_bytes_at [OF get(2), of "length name"] assms(2,3) by (simp add: host_name_from_list_entry_def from_utf8_def)
qed

lemma server_name_at:
  assumes "at x (opaque16 (opaque16 (0 # opaque16 name)) @ b)" "length name < 65000" "valid_utf8 name"
  shows "fst (host_name_from_extension x) = Ok (text_of name)"
proof -
  let ?list = "0 # opaque16 name"
  have len: "length ?list < 65536" "0 < length ?list"
    using assms(2) by (simp_all add: opaque16_def u16_bytes_def)
  have "at x (u16_bytes (length (opaque16 ?list)) @ opaque16 ?list @ b)"
    using assms(1) by (simp add: opaque16_def)
  then have adv: "bt_advance 2 x = (Ok (), moved 2 x)" "at (moved 2 x) (opaque16 ?list @ b)"
    using advance_at [of x "u16_bytes (length (opaque16 ?list))" "opaque16 ?list @ b" 2] by (auto simp: u16_bytes_def)
  have l: "bt_get_u16 (moved 2 x) = (Ok (of_nat (length ?list)), moved 2 (moved 2 x))"
    "at (moved 2 (moved 2 x)) (0 # opaque16 name @ b)"
    using opaque16_at [OF adv(2) len(1)] by auto
  note e = get_u8_at [OF l(2)]
  have "fst (server_name_list_loop (bt_offset (moved 2 (moved 2 x)) + length ?list) (moved 2 (moved 2 x))) = Ok (text_of name)"
    using e list_entry_at [of _ name b] assms(2,3) len
    by (subst server_name_list_loop.simps) (simp add: server_name_entry_def bt_offset_def)
  then show ?thesis
    using adv(1) l(1) len(1) by (simp add: host_name_from_extension_def Let_def del: of_nat_Suc length_Cons)
qed

lemma other_extension_at:
  assumes "at x (extension e @ b)" "fst e \<noteq> 0" "fst e < 65536" "length (snd e) < 65536"
  shows "\<exists>x'. extension_entry x = Inr x' \<and> at x' b \<and> bt_position x' = bt_position x + length (extension e)"
proof -
  have t: "bt_get_u16 x = (Ok (of_nat (fst e)), moved 2 x)" "at (moved 2 x) (opaque16 (snd e) @ b)"
    using get_u16_at [of x "fst e" "opaque16 (snd e) @ b"] assms(1,3) by (auto simp: extension_def)
  have l: "bt_get_u16 (moved 2 x) = (Ok (of_nat (length (snd e))), moved 2 (moved 2 x))"
    "at (moved 2 (moved 2 x)) (snd e @ b)"
    using opaque16_at [OF t(2) assms(4)] by auto
  have "(of_nat (fst e) :: u16) \<noteq> 0"
    using assms(2,3) by (metis unat_0 unat_lengths(1))
  then show ?thesis
    using t l advance_at [OF l(2), of "length (snd e)"] assms(4)
    by (auto simp: extension_entry_def extension_def opaque16_def u16_bytes_def)
qed

definition other_extension :: "nat \<times> bytes \<Rightarrow> bool" where
  "other_extension e \<longleftrightarrow> fst e \<noteq> 0 \<and> fst e < 65536 \<and> length (snd e) < 65536"

lemma extensions_at:
  assumes "at x (hello_extensions before name after @ b)" "list_all other_extension before"
    "length name < 65000" "valid_utf8 name"
    "bt_position x + length (concat (map extension before)) < stop"
  shows "fst (extensions_loop stop x) = Ok (text_of name)"
  using assms
proof (induction before arbitrary: x)
  case Nil
  then have "bt_get_u16 x = (Ok 0, moved 2 x)" "at (moved 2 x) (opaque16 (opaque16 (0 # opaque16 name)) @ after @ b)"
    using get_u16_at [of x 0] by (auto simp: hello_extensions_def server_name_extension_def)
  with Nil show ?case
    using server_name_at [of "moved 2 x" name "after @ b"]
    by (subst extensions_loop.simps) (simp add: extension_entry_def bt_offset_def)
next
  case (Cons e before)
  obtain x' where x': "extension_entry x = Inr x'" "at x' (hello_extensions before name after @ b)"
    "bt_position x' = bt_position x + length (extension e)"
    using other_extension_at [of x e] Cons.prems(1,2) by (auto simp: hello_extensions_def other_extension_def)
  have "fst (extensions_loop stop x') = Ok (text_of name)"
    using Cons.prems x' by (intro Cons.IH) auto
  then show ?case
    using x'(1) Cons.prems(5) by (subst extensions_loop.simps) (simp add: bt_offset_def)
qed

lemma client_hello_host:
  assumes "at x (opaque8 sid @ opaque16 suites @ opaque8 cms @ opaque16 (hello_extensions before name after) @ b)"
    "length sid < 256" "length suites < 65536" "length cms < 256" "length (hello_extensions before name after) < 65536"
    "list_all other_extension before" "length name < 65000" "valid_utf8 name"
    and y: "bt_advance (43 - bt_offset y) y = (Ok (), x)"
  shows "fst (host_name_from_client_hello y) = Ok (text_of name)"
proof -
  have 1: "bt_get_u8 x = (Ok (of_nat (length sid)), moved 1 x)"
      "at (moved 1 x) (sid @ opaque16 suites @ opaque8 cms @ opaque16 (hello_extensions before name after) @ b)"
    using opaque8_at [OF assms(1)] by auto
  let ?x3 = "moved (length sid) (moved 1 x)"
  have 2: "bt_advance (length sid) (moved 1 x) = (Ok (), ?x3)"
      "at ?x3 (opaque16 suites @ opaque8 cms @ opaque16 (hello_extensions before name after) @ b)"
    using advance_at [OF 1(2) refl] by auto
  have 3: "bt_get_u16 ?x3 = (Ok (of_nat (length suites)), moved 2 ?x3)"
      "at (moved 2 ?x3) (suites @ opaque8 cms @ opaque16 (hello_extensions before name after) @ b)"
    using opaque16_at [OF 2(2) assms(3)] by auto
  let ?x5 = "moved (length suites) (moved 2 ?x3)"
  have 4: "bt_advance (length suites) (moved 2 ?x3) = (Ok (), ?x5)"
      "at ?x5 (opaque8 cms @ opaque16 (hello_extensions before name after) @ b)"
    using advance_at [OF 3(2) refl] by auto
  have 5: "bt_get_u8 ?x5 = (Ok (of_nat (length cms)), moved 1 ?x5)"
      "at (moved 1 ?x5) (cms @ opaque16 (hello_extensions before name after) @ b)"
    using opaque8_at [OF 4(2)] by auto
  let ?x7 = "moved (length cms) (moved 1 ?x5)"
  have 6: "bt_advance (length cms) (moved 1 ?x5) = (Ok (), ?x7)"
      "at ?x7 (opaque16 (hello_extensions before name after) @ b)"
    using advance_at [OF 5(2) refl] by auto
  have 7: "bt_get_u16 ?x7 = (Ok (of_nat (length (hello_extensions before name after))), moved 2 ?x7)"
      "at (moved 2 ?x7) (hello_extensions before name after @ b)"
    using opaque16_at [OF 6(2) assms(5)] by auto
  have "fst (extensions_loop (bt_offset (moved 2 ?x7) + length (hello_extensions before name after)) (moved 2 ?x7)) =
      Ok (text_of name)"
    by (rule extensions_at [OF 7(2) assms(6,7,8)])
      (simp add: bt_offset_def hello_extensions_def server_name_extension_def u16_bytes_def)
  then show ?thesis
    using 1(1) 2(1) 3(1) 4(1) 5(1) 6(1) 7(1) assms(2-5) y by (simp add: host_name_from_client_hello_def Let_def)
qed

lemma at_new: "at (bt_new d) d"
  by (simp add: at_def bt_new_def)

lemma is_handshake_new:
  "is_handshake (bt_new d) = (d \<noteq> [] \<and> hd d = 22, moved (Suc 0) (bt_new d))"
proof (cases d)
  case Nil
  then show ?thesis
    by (simp add: is_handshake_def bt_get_u8_def bt_advance_def and_then_def bt_new_def moved_def)
next
  case (Cons c r)
  then show ?thesis
    using get_u8_at [of "bt_new d" c r] at_new [of d] by (simp add: is_handshake_def)
qed

lemma is_client_hello_new:
  "is_client_hello (moved (Suc 0) (bt_new d)) =
     (if length d < 5 then Err ExpectFailed
      else Ok (5 < length d \<and> d ! 5 = 1, moved 6 (bt_new d)))"
  by (auto simp: is_client_hello_def bt_advance_def bt_offset_def moved_def bt_new_def bt_get_u8_def and_then_def
      get_u8_def convert_result_def)

text \<open>C30. The server name of a TLS connection is found: for every client hello laid out as the TLS
  standard says, with any session id, cipher suites, compression methods, with any extensions before
  and after the server name extension and anything after the message, the host is the name in that
  extension, with no port. The loops over the extensions terminate.\<close>

theorem tls_server_name_found:
  assumes "length header = 43" "header ! 0 = 22" "header ! 5 = 1"
    and "length sid < 256" "length suites < 65536" "length cms < 256"
    and "length (hello_extensions before name after) < 65536" "list_all other_extension before"
    and "length name < 65000" "valid_utf8 name"
  shows "tls_find_host (client_hello header sid suites cms (hello_extensions before name after) @ rest) =
    Ok (Some \<lparr> host_name = text_of name, host_port = None \<rparr>)"
proof -
  let ?tail = "opaque8 sid @ opaque16 suites @ opaque8 cms @ opaque16 (hello_extensions before name after) @ rest"
  let ?d = "header @ ?tail"
  have hs: "is_handshake (bt_new ?d) = (True, moved (Suc 0) (bt_new ?d))"
    using assms(1,2) by (cases header) (auto simp: is_handshake_new)
  have ch: "is_client_hello (moved (Suc 0) (bt_new ?d)) = Ok (True, moved 6 (bt_new ?d))"
    using assms(1,3) by (simp add: is_client_hello_new nth_append)
  have "at (bt_new ?d) (header @ ?tail)"
    by (rule at_new)
  from advance_at [OF this assms(1)] have "at (moved 43 (bt_new ?d)) ?tail"
    by simp
  moreover have "bt_advance (43 - bt_offset (moved 6 (bt_new ?d))) (moved 6 (bt_new ?d)) = (Ok (), moved 43 (bt_new ?d))"
    using assms(1) by (simp add: bt_advance_def bt_offset_def moved_def bt_new_def Let_def)
  ultimately have "fst (host_name_from_client_hello (moved 6 (bt_new ?d))) = Ok (text_of name)"
    by (rule client_hello_host [OF _ assms(4-10)])
  then show ?thesis
    using hs ch by (cases "host_name_from_client_hello (moved 6 (bt_new ?d))")
      (simp add: tls_find_host_def client_hello_def)
qed

theorem tls_server_name_found_witness:
  "tls_find_host (client_hello (22 # [3, 1, 0, 90, 1] @ replicate 37 0) [7] [0, 47] [0]
      (hello_extensions [(10, [0, 29])] (ascii ''a.org'') []) @ []) =
    Ok (Some \<lparr> host_name = ''a.org'', host_port = None \<rparr>)"
proof -
  have "text_of (ascii ''a.org'') = ''a.org''"
    by code_simp
  moreover have "valid_utf8 (ascii ''a.org'')"
    by code_simp
  moreover have "length (hello_extensions [(10, [0, 29])] (ascii ''a.org'') []) < 65536"
    by code_simp
  ultimately show ?thesis
    using tls_server_name_found [of "22 # [3, 1, 0, 90, 1] @ replicate 37 0" "[7]" "[0, 47]" "[0]" "[(10, [0, 29])]"
        "ascii ''a.org''" "[]" "[]"]
    by (simp add: other_extension_def ascii_def)
qed

text \<open>Looking for the server name panics exactly for nonempty data of fewer than five bytes
  that begin like a handshake record, and on no other data, however malformed: the function relies on
  being given whole records, and every frame of the TLS framer is at least as long as its header.\<close>

theorem tls_find_host_panics_iff:
  "(\<exists>e. tls_find_host dat = Err e) \<longleftrightarrow> dat \<noteq> [] \<and> hd dat = 22 \<and> length dat < 5"
  by (auto simp: tls_find_host_def is_handshake_new is_client_hello_new split: prod.split sum.split)

section \<open>Error answers\<close>

lemma replace_all_skip:
  assumes "pat \<noteq> []" "hd pat \<notin> set xs"
  shows "replace_all pat new (xs @ ys) = xs @ replace_all pat new ys"
  using assms(2)
proof (induction xs)
  case (Cons x xs)
  then have "take (length pat) ((x # xs) @ ys) \<noteq> pat"
    using assms(1) by (cases pat) auto
  with Cons show ?case
    by (subst replace_all.simps) simp
qed simp

lemma replace_all_hit:
  "pat \<noteq> [] \<Longrightarrow> replace_all pat new (pat @ ys) = new @ replace_all pat new ys"
  by (subst replace_all.simps) simp

lemma replace_all_once:
  assumes "pat \<noteq> []" "hd pat \<notin> set xs" "hd pat \<notin> set ys"
  shows "replace_all pat new (xs @ pat @ ys) = xs @ new @ ys"
proof -
  have "replace_all pat new (ys @ []) = ys @ replace_all pat new []"
    by (rule replace_all_skip) (use assms in auto)
  moreover have "replace_all pat new [] = []"
    using assms(1) by (subst replace_all.simps) simp
  ultimately show ?thesis
    using assms by (simp add: replace_all_skip replace_all_hit)
qed

lemma no_brace_show_nat [simp]: "CHR ''{'' \<notin> set (show_nat n)"
  using show_nat_digits [of "CHR ''{''" n] by (auto simp: is_digit_char_def)

lemma error_page:
  assumes "CHR ''{'' \<notin> set title" "CHR ''{'' \<notin> set subtitle"
  shows "make_error_page status title subtitle content =
    (''<html>'' @ LF @ ''<body>'' @ LF @ ''<h1>Error '') @ show_nat (unat status) @ (''</h1>'' @ LF @ ''<h2>Title: '') @ title @
    (''</h2>'' @ LF @ ''<h3>Subtitle: '') @ subtitle @ (''</h3>'' @ LF @ ''<p>'') @ content @
    (''</p>'' @ LF @ ''</body>'' @ LF @ ''</html>'' @ LF)"
proof -
  let ?a = "''<html>'' @ LF @ ''<body>'' @ LF @ ''<h1>Error ''" and ?b = "''</h1>'' @ LF @ ''<h2>Title: ''"
    and ?c = "''</h2>'' @ LF @ ''<h3>Subtitle: ''" and ?d = "''</h3>'' @ LF @ ''<p>''"
    and ?e = "''</p>'' @ LF @ ''</body>'' @ LF @ ''</html>'' @ LF" and ?s = "show_nat (unat status)"
  have 1: "replace_all ''{status}'' ?s ERROR_TEMPLATE = ?a @ ?s @ ?b @ ''{title}'' @ ?c @ ''{subtitle}'' @ ?d @ ''{content}'' @ ?e"
    unfolding ERROR_TEMPLATE_def by (simp add: replace_all.simps)
  have 2: "replace_all ''{title}'' title (?a @ ?s @ ?b @ ''{title}'' @ ?c @ ''{subtitle}'' @ ?d @ ''{content}'' @ ?e) =
      ?a @ ?s @ ?b @ title @ ?c @ ''{subtitle}'' @ ?d @ ''{content}'' @ ?e"
    using replace_all_skip [of "''{title}''" "?a @ ?s @ ?b" title] by (simp add: replace_all.simps)
  have 3: "replace_all ''{subtitle}'' subtitle (?a @ ?s @ ?b @ title @ ?c @ ''{subtitle}'' @ ?d @ ''{content}'' @ ?e) =
      ?a @ ?s @ ?b @ title @ ?c @ subtitle @ ?d @ ''{content}'' @ ?e"
    using replace_all_skip [of "''{subtitle}''" "?a @ ?s @ ?b @ title @ ?c" subtitle] assms(1) by (simp add: replace_all.simps)
  have 4: "replace_all ''{content}'' content (?a @ ?s @ ?b @ title @ ?c @ subtitle @ ?d @ ''{content}'' @ ?e) =
      ?a @ ?s @ ?b @ title @ ?c @ subtitle @ ?d @ content @ ?e"
    using replace_all_skip [of "''{content}''" "?a @ ?s @ ?b @ title @ ?c @ subtitle @ ?d" content] assms
    by (simp add: replace_all.simps)
  show ?thesis
    unfolding make_error_page_def 1 2 3 4 by simp
qed

text \<open>The error answers to browsers are well-formed HTTP: whatever the status, the texts and the
  host name in them, the answer is a header that announces exactly the length of the page in bytes,
  followed by the page; and when no brace occurs in title and subtitle, the page is the template with
  every placeholder replaced once.\<close>

theorem error_response_well_formed:
  "make_error_response status title subtitle content =
     ascii (''HTTP/1.1 '' @ show_nat (unat status) @ '' Routing Error'' @ CR_LF @ ''Content-Type: text/html'' @ CR_LF @
       ''Content-Length: '' @ show_nat (length (ascii (make_error_page status title subtitle content))) @ CR_LF @ CR_LF) @
     ascii (make_error_page status title subtitle content) \<and>
   (CHR ''{'' \<notin> set title \<longrightarrow> CHR ''{'' \<notin> set subtitle \<longrightarrow>
     make_error_page status title subtitle content =
     ''<html>'' @ LF @ ''<body>'' @ LF @ ''<h1>Error '' @ show_nat (unat status) @ ''</h1>'' @ LF @ ''<h2>Title: '' @ title @
     ''</h2>'' @ LF @ ''<h3>Subtitle: '' @ subtitle @ ''</h3>'' @ LF @ ''<p>'' @ content @
     ''</p>'' @ LF @ ''</body>'' @ LF @ ''</html>'' @ LF)"
proof -
  let ?html = "make_error_page status title subtitle content" and ?s = "show_nat (unat status)"
  let ?a = "''HTTP/1.1 ''" and ?b = "'' Routing Error'' @ CR_LF @ ''Content-Type: text/html'' @ CR_LF @ ''Content-Length: ''"
  have 1: "replace_all ''{status}'' ?s HTTP_RESPONSE_TEMPLATE = ?a @ ?s @ ?b @ ''{length}'' @ CR_LF @ CR_LF @ ''{body}''"
    unfolding HTTP_RESPONSE_TEMPLATE_def by (simp add: replace_all.simps)
  have 2: "replace_all ''{length}'' (show_nat (length ?html)) (?a @ ?s @ ?b @ ''{length}'' @ CR_LF @ CR_LF @ ''{body}'') =
      ?a @ ?s @ ?b @ show_nat (length ?html) @ CR_LF @ CR_LF @ ''{body}''"
    using replace_all_skip [of "''{length}''" "?a @ ?s @ ?b" "show_nat (length ?html)"] by (simp add: replace_all.simps)
  have 3: "replace_all ''{body}'' ?html (?a @ ?s @ ?b @ show_nat (length ?html) @ CR_LF @ CR_LF @ ''{body}'') =
      ?a @ ?s @ ?b @ show_nat (length ?html) @ CR_LF @ CR_LF @ ?html"
    using replace_all_skip [of "''{body}''" "?a @ ?s @ ?b @ show_nat (length ?html) @ CR_LF @ CR_LF" ?html]
    by (simp add: replace_all.simps)
  have "make_error_response status title subtitle content =
      ascii (?a @ ?s @ ?b @ show_nat (length ?html) @ CR_LF @ CR_LF @ ?html)"
    unfolding make_error_response_def Let_def 1 2 3 by (rule refl)
  then show ?thesis
    using error_page [of title subtitle status content] by (simp add: ascii_def)
qed

theorem error_response_well_formed_witness:
  "make_error_page 503 ''Routing Problem'' ''No route'' ''Sorry'' =
     ''<html>'' @ LF @ ''<body>'' @ LF @ ''<h1>Error 503</h1>'' @ LF @ ''<h2>Title: Routing Problem</h2>'' @ LF @
     ''<h3>Subtitle: No route</h3>'' @ LF @ ''<p>Sorry</p>'' @ LF @ ''</body>'' @ LF @ ''</html>'' @ LF"
proof -
  have "show_nat (unat (503 :: u16)) = ''503''"
    by code_simp
  then show ?thesis
    using error_response_well_formed [of 503 "''Routing Problem''" "''No route''" "''Sorry''"] by simp
qed

end
