(* ===== verification/ProxyServerActor.thy ===== *)
theory ProxyServerActor
  imports ProtocolPack NeighborhoodActor Accountant Containers
begin

text \<open>
  The proxy server: \<open>proxy_server/mod.rs\<close>. It takes the data of local browsers from the dispatcher,
  asks the neighborhood for a route, sends the request to the hopper and reports what it consumes to
  the accountant; and it takes responses from the hopper back to the dispatcher.

  Messages to other actors, and to the proxy server itself, are outputs in the order in which they
  are sent. The question for a route is an output that carries what the code's closure captures; its
  answer is handled by \<open>route_answered\<close>. The clock readings of the table of return routes are
  arguments. Logging is not modelled.
\<close>

section \<open>State and messages\<close>

record proxy_env =
  pe_web :: web_env
  pe_cores :: cores_env
  pe_cryptde :: cryptde

record add_return_route_message =
  arr_return_route_id :: u32
  arr_expected_services :: "expected_service list"
  arr_protocol :: proxy_protocol
  arr_server_name :: "string option"

record add_route_message =
  ar_stream_key :: stream_key
  ar_route :: route_query_response

record proxy_server =
  ps_bound :: bool
  keys_and_addrs :: "(stream_key, socket_addr) bidi_hashmap"
  tunneled_hosts :: "(stream_key, string) hashmap"
  stream_key_routes :: "(stream_key, route_query_response) hashmap"
  ps_is_decentralized :: bool
  consuming_wallet_balance :: "int option"
  route_ids_to_return_routes :: "(u32, add_return_route_message) ttl_hashmap"
  browser_proxy_sequence_offset :: bool

record pending_transmission =
  pt_stream_key :: stream_key
  pt_payload :: client_request_payload
  pt_source_addr :: socket_addr
  pt_retire :: bool

datatype proxy_output =
    PsToDispatcher transmit_data_msg
  | PsToHopper incipient_cores_package
  | PsReportExit report_exit_service_consumed
  | PsReportRouting report_routing_service_consumed
  | PsDesirable public_key bool
  | PsAddReturnRoute add_return_route_message
  | PsAddRoute add_route_message
  | PsStreamShutdown stream_shutdown_msg
  | PsRouteQuery route_query_message pending_transmission

definition RETURN_ROUTE_TTL :: nat where
  "RETURN_ROUTE_TTL = 120"

definition proxy_server_new :: "instant \<Rightarrow> bool \<Rightarrow> int option \<Rightarrow> proxy_server" where
  "proxy_server_new now decentralized balance =
     \<lparr> ps_bound = False, keys_and_addrs = bidi_new, tunneled_hosts = [], stream_key_routes = [],
       ps_is_decentralized = decentralized, consuming_wallet_balance = balance,
       route_ids_to_return_routes = ttl_new now RETURN_ROUTE_TTL, browser_proxy_sequence_offset = False \<rparr>"

definition ps_bind :: "proxy_server \<Rightarrow> proxy_server" where
  "ps_bind self = self\<lparr> ps_bound := True \<rparr>"

definition ps_set_consuming_wallet :: "proxy_server \<Rightarrow> proxy_server" where
  "ps_set_consuming_wallet self = self\<lparr> consuming_wallet_balance := Some 0 \<rparr>"

text \<open>\<open>self.subs.as_ref().expect(..)\<close>.\<close>

definition out_subs :: "proxy_server \<Rightarrow> unit run" where
  "out_subs self = (if ps_bound self then Ok () else Err ExplicitPanic)"

section \<open>Expected services\<close>

definition find_map :: "('a \<Rightarrow> 'b option) \<Rightarrow> 'a list \<Rightarrow> 'b option" where
  "find_map f xs = first (List.map_filter f xs)"

fun exit_key_of :: "expected_service \<Rightarrow> public_key option" where
  "exit_key_of (Exit public_key _ _) = Some public_key"
| "exit_key_of (Routing _ _ _) = None"
| "exit_key_of Nothing = None"

definition find_exit_node_key :: "add_return_route_message \<Rightarrow> public_key option" where
  "find_exit_node_key self = find_map exit_key_of (arr_expected_services self)"

definition arr_is_zero_hop :: "add_return_route_message \<Rightarrow> bool" where
  "arr_is_zero_hop self \<longleftrightarrow> arr_expected_services self = [Nothing, Nothing]"

fun routing_wallet_of :: "expected_service \<Rightarrow> wallet option" where
  "routing_wallet_of (Routing _ earning_wallet _) = Some earning_wallet"
| "routing_wallet_of (Exit _ _ _) = None"
| "routing_wallet_of Nothing = None"

fun exit_wallet_of :: "expected_service \<Rightarrow> wallet option" where
  "exit_wallet_of (Exit _ earning_wallet _) = Some earning_wallet"
| "exit_wallet_of (Routing _ _ _) = None"
| "exit_wallet_of Nothing = None"

definition routing_report :: "nat \<Rightarrow> wallet \<Rightarrow> proxy_output" where
  "routing_report payload_size earning_wallet =
     PsReportRouting \<lparr> rsc_earning_wallet = earning_wallet, rsc_payload_size = payload_size,
       rsc_service_rate = routing_service_rate DEFAULT_RATE_PACK, rsc_byte_rate = routing_byte_rate DEFAULT_RATE_PACK \<rparr>"

definition exit_report :: "nat \<Rightarrow> wallet \<Rightarrow> proxy_output" where
  "exit_report payload_size earning_wallet =
     PsReportExit \<lparr> xsc_earning_wallet = earning_wallet, xsc_payload_size = payload_size,
       xsc_service_rate = exit_service_rate DEFAULT_RATE_PACK, xsc_byte_rate = exit_byte_rate DEFAULT_RATE_PACK \<rparr>"

definition report_routing_service :: "expected_service list \<Rightarrow> nat \<Rightarrow> proxy_output list" where
  "report_routing_service expected_services payload_size =
     map (routing_report payload_size) (List.map_filter routing_wallet_of expected_services)"

definition report_exit_service :: "expected_service list \<Rightarrow> client_request_payload \<Rightarrow> proxy_output list" where
  "report_exit_service expected_services payload =
     (case find_map exit_wallet_of expected_services of
        Some earning_wallet \<Rightarrow> [exit_report (length (sp_data (crq_sequenced_packet payload))) earning_wallet]
      | None \<Rightarrow> [])"

fun report_response_service :: "proxy_server \<Rightarrow> nat \<Rightarrow> nat \<Rightarrow> expected_service \<Rightarrow> proxy_output list run" where
  "report_response_service self exit_size routing_size Nothing = Ok []"
| "report_response_service self exit_size routing_size (Exit _ wallet _) =
     bind_run (out_subs self) (\<lambda>_. Ok [exit_report exit_size wallet])"
| "report_response_service self exit_size routing_size (Routing _ wallet _) =
     bind_run (out_subs self) (\<lambda>_. Ok [routing_report routing_size wallet])"

definition report_response_services_consumed ::
    "proxy_server \<Rightarrow> add_return_route_message \<Rightarrow> nat \<Rightarrow> nat \<Rightarrow> proxy_output list run" where
  "report_response_services_consumed self return_route_info exit_size routing_size =
     bind_run (map_run (report_response_service self exit_size routing_size) (arr_expected_services return_route_info))
       (\<lambda>outs. Ok (concat outs))"

section \<open>Streams\<close>

definition make_stream_key :: "proxy_env \<Rightarrow> inbound_client_data \<Rightarrow> proxy_server \<Rightarrow> (stream_key \<times> proxy_server) run" where
  "make_stream_key env ibcd self =
     (case b_to_a (keys_and_addrs self) (ibcd_peer_addr ibcd) of
        Some stream_key \<Rightarrow> Ok (stream_key, self)
      | None \<Rightarrow>
          bind_run (stream_key_new (we_libraries (pe_web env)) (cd_public_key (pe_cryptde env)) (ibcd_peer_addr ibcd)) (\<lambda>stream_key.
          Ok (stream_key, self\<lparr> keys_and_addrs := bidi_insert stream_key (ibcd_peer_addr ibcd) (keys_and_addrs self) \<rparr>)))"

definition purge_stream_key :: "stream_key \<Rightarrow> proxy_server \<Rightarrow> proxy_server" where
  "purge_stream_key stream_key self =
     self\<lparr> keys_and_addrs := snd (remove_a stream_key (keys_and_addrs self)),
           stream_key_routes := hm_remove stream_key (stream_key_routes self),
           tunneled_hosts := hm_remove stream_key (tunneled_hosts self) \<rparr>"

definition make_payload ::
    "proxy_env \<Rightarrow> proxy_server \<Rightarrow> inbound_client_data \<Rightarrow> stream_key \<Rightarrow> client_request_payload option run" where
  "make_payload env self ibcd stream_key =
     (let tunnelled_host = hm_get (tunneled_hosts self) stream_key;
          new_ibcd = (case tunnelled_host of Some _ \<Rightarrow> ibcd\<lparr> reception_port := Some 443 \<rparr> | None \<Rightarrow> ibcd)
      in bind_run (make_client_request (pe_web env) (pe_cryptde env) new_ibcd stream_key) (\<lambda>made.
         case made of
           None \<Rightarrow> Ok None
         | Some payload \<Rightarrow>
             (case tunnelled_host of
                Some hostname \<Rightarrow>
                  bind_run client_request_version (\<lambda>version.
                  Ok (Some (payload\<lparr> crq_version := version, target_hostname := Some hostname \<rparr>)))
              | None \<Rightarrow> Ok (Some payload))))"

section \<open>Requests\<close>

definition hostname :: "client_request_payload \<Rightarrow> string" where
  "hostname payload = (case target_hostname payload of Some thn \<Rightarrow> thn | None \<Rightarrow> ''<unknown>'')"

definition send_route_failure :: "proxy_env \<Rightarrow> client_request_payload \<Rightarrow> socket_addr \<Rightarrow> proxy_output list" where
  "send_route_failure env payload source_addr =
     [PsToDispatcher \<lparr> td_endpoint = Socket source_addr, td_last_data = True, td_sequence_number = Some 0,
        td_data = route_query_failure_response (impersonator (from_protocol (pe_web env) (protocol payload))) (hostname payload) \<rparr>]"

definition handle_route_failure :: "proxy_env \<Rightarrow> client_request_payload \<Rightarrow> socket_addr \<Rightarrow> proxy_output list" where
  "handle_route_failure env payload source_addr = send_route_failure env payload source_addr"

definition payload_destination :: "expected_service list \<Rightarrow> client_request_payload \<Rightarrow> public_key option" where
  "payload_destination expected_services payload =
     (if expected_services \<noteq> [] \<and> list_all (\<lambda>s. s = Nothing) expected_services
      then Some (originator_public_key payload)
      else find_map exit_key_of expected_services)"

definition transmit_to_hopper ::
    "proxy_env \<Rightarrow> client_request_payload \<Rightarrow> route \<Rightarrow> expected_service list \<Rightarrow> socket_addr \<Rightarrow> bool \<Rightarrow>
       proxy_output list run" where
  "transmit_to_hopper env payload route expected_services source_addr retire_stream_key =
     (case payload_destination expected_services payload of
        None \<Rightarrow> Ok (handle_route_failure env payload source_addr)
      | Some payload_destination_key \<Rightarrow>
          (case incipient_new (pe_cores env) (pe_cryptde env) route (ClientRequest payload) payload_destination_key of
             Inl _ \<Rightarrow> Err ExpectFailed
           | Inr pkg \<Rightarrow>
               Ok (report_routing_service expected_services (length (icp_payload pkg)) @ [PsToHopper pkg] @
                   (if retire_stream_key
                    then [PsStreamShutdown \<lparr> ssm_peer_addr = source_addr,
                            ssm_stream_type = NonClandestine \<lparr> nca_reception_port = 0, nca_sequence_number = 0 \<rparr>,
                            report_to_counterpart = False \<rparr>]
                    else []))))"

definition try_transmit_to_hopper ::
    "proxy_env \<Rightarrow> route_query_response \<Rightarrow> client_request_payload \<Rightarrow> socket_addr \<Rightarrow> bool \<Rightarrow> proxy_output list run" where
  "try_transmit_to_hopper env response payload source_addr retire_stream_key =
     (case rqr_expected_services response of
        RoundTrip over back_services return_route_id \<Rightarrow>
          bind_run (transmit_to_hopper env payload (rqr_route response) over source_addr retire_stream_key) (\<lambda>outs.
          Ok ([PsAddReturnRoute \<lparr> arr_return_route_id = return_route_id, arr_expected_services = back_services,
                 arr_protocol = protocol payload, arr_server_name = target_hostname payload \<rparr>] @
              report_exit_service over payload @ outs))
      | OneWay _ \<Rightarrow> Err ExplicitPanic)"

text \<open>The answer of the neighborhood: \<open>Inl\<close> when the neighborhood actor is gone.\<close>

definition route_answered ::
    "proxy_env \<Rightarrow> pending_transmission \<Rightarrow> unit + route_query_response option \<Rightarrow> proxy_output list run" where
  "route_answered env pending route_result =
     (case route_result of
        Inr (Some response) \<Rightarrow>
          bind_run (try_transmit_to_hopper env response (pt_payload pending) (pt_source_addr pending) (pt_retire pending)) (\<lambda>outs.
          Ok ([PsAddRoute \<lparr> ar_stream_key = pt_stream_key pending, ar_route = response \<rparr>] @ outs))
      | Inr None \<Rightarrow> Ok (handle_route_failure env (pt_payload pending) (pt_source_addr pending))
      | Inl _ \<Rightarrow> Ok [])"

definition handle_normal_client_data ::
    "proxy_env \<Rightarrow> inbound_client_data \<Rightarrow> bool \<Rightarrow> proxy_server \<Rightarrow> (proxy_output list \<times> proxy_server) run" where
  "handle_normal_client_data env msg retire_stream_key self =
     bind_run (out_subs self) (\<lambda>_.
     let source_addr = ibcd_peer_addr msg
     in if consuming_wallet_balance self = None \<and> ps_is_decentralized self
        then (case from_ibcd (pe_web env) msg of
                None \<Rightarrow> Ok ([], self)
              | Some protocol_pack \<Rightarrow>
                  Ok ([PsToDispatcher \<lparr> td_endpoint = Socket source_addr, td_last_data = True,
                         td_sequence_number = Some 0, td_data = consuming_wallet_absent (impersonator protocol_pack) \<rparr>], self))
        else bind_run (make_stream_key env msg self) (\<lambda>(stream_key, self).
             bind_run (make_payload env self msg stream_key) (\<lambda>made.
             case made of
               None \<Rightarrow> Ok ([], self)
             | Some payload \<Rightarrow>
                 (let minimum_hop_count = (if ps_is_decentralized self then 3 else 0)
                  in case hm_get (stream_key_routes self) stream_key of
                       Some response \<Rightarrow>
                         bind_run (try_transmit_to_hopper env response payload source_addr retire_stream_key) (\<lambda>outs.
                         Ok (outs, self))
                     | None \<Rightarrow>
                         Ok ([PsRouteQuery (data_indefinite_route_request minimum_hop_count)
                                \<lparr> pt_stream_key = stream_key, pt_payload = payload, pt_source_addr = source_addr,
                                  pt_retire = retire_stream_key \<rparr>], self)))))"

definition tls_connect :: "proxy_env \<Rightarrow> inbound_client_data \<Rightarrow> proxy_server \<Rightarrow> (proxy_output list \<times> proxy_server) run" where
  "tls_connect env msg self =
     (case http_find_host (pe_web env) (ibcd_data msg) of
        Some h \<Rightarrow>
          if host_port h = Some 443
          then bind_run (make_stream_key env msg self) (\<lambda>(stream_key, self).
               bind_run (out_subs self) (\<lambda>_.
               Ok ([PsToDispatcher \<lparr> td_endpoint = Socket (ibcd_peer_addr msg), td_last_data = False,
                      td_sequence_number = ibcd_sequence_number msg,
                      td_data = ascii ''HTTP/1.1 200 OK'' @ CRLF @ CRLF \<rparr>],
                   self\<lparr> tunneled_hosts := hm_insert stream_key (host_name h) (tunneled_hosts self) \<rparr>)))
          else bind_run (out_subs self) (\<lambda>_.
               Ok ([PsToDispatcher \<lparr> td_endpoint = Socket (ibcd_peer_addr msg), td_last_data = True,
                      td_sequence_number = ibcd_sequence_number msg,
                      td_data = ascii ''HTTP/1.1 400 Bad Request'' @ CRLF @ ascii ''Content-Length: 0'' @ CRLF @ CRLF \<rparr>], self))
      | None \<Rightarrow>
          bind_run (out_subs self) (\<lambda>_.
          Ok ([PsToDispatcher \<lparr> td_endpoint = Socket (ibcd_peer_addr msg), td_last_data = True,
                 td_sequence_number = ibcd_sequence_number msg,
                 td_data = ascii ''HTTP/1.1 400 Bad Request'' @ CRLF @ ascii ''Content-Length: 0'' @ CRLF @ CRLF \<rparr>], self)))"

definition handle_inbound_client_data ::
    "proxy_env \<Rightarrow> inbound_client_data \<Rightarrow> proxy_server \<Rightarrow> (proxy_output list \<times> proxy_server) run" where
  "handle_inbound_client_data env msg self =
     (if is_connect (pe_web env) (ibcd_data msg)
      then bind_run (tls_connect env msg self) (\<lambda>(outs, self).
           Ok (outs, self\<lparr> browser_proxy_sequence_offset := True \<rparr>))
      else handle_normal_client_data env msg False self)"

section \<open>Messages to itself\<close>

definition handle_add_return_route ::
    "instant \<Rightarrow> instant \<Rightarrow> add_return_route_message \<Rightarrow> proxy_server \<Rightarrow> proxy_server run" where
  "handle_add_return_route now1 now2 msg self =
     bind_run (ttl_insert now1 now2 (arr_return_route_id msg) msg (route_ids_to_return_routes self)) (\<lambda>m.
     Ok (self\<lparr> route_ids_to_return_routes := m \<rparr>))"

definition handle_add_route :: "add_route_message \<Rightarrow> proxy_server \<Rightarrow> proxy_server" where
  "handle_add_route msg self =
     self\<lparr> stream_key_routes := hm_insert (ar_stream_key msg) (ar_route msg) (stream_key_routes self) \<rparr>"

definition ps_handle_stream_shutdown_msg ::
    "proxy_env \<Rightarrow> stream_shutdown_msg \<Rightarrow> proxy_server \<Rightarrow> (proxy_output list \<times> proxy_server) run" where
  "ps_handle_stream_shutdown_msg env msg self =
     (case ssm_stream_type msg of
        Clandestine \<Rightarrow> Err ExplicitPanic
      | NonClandestine nca \<Rightarrow>
          (case b_to_a (keys_and_addrs self) (ssm_peer_addr msg) of
             None \<Rightarrow> Ok ([], self)
           | Some stream_key \<Rightarrow>
               if report_to_counterpart msg
               then handle_normal_client_data env
                      \<lparr> ibcd_peer_addr = ssm_peer_addr msg, reception_port = Some (nca_reception_port nca),
                        ibcd_last_data = True, is_clandestine = False,
                        ibcd_sequence_number = Some (nca_sequence_number nca), ibcd_data = [] \<rparr> True self
               else Ok ([], purge_stream_key stream_key self)))"

section \<open>Responses\<close>

definition get_return_route_info ::
    "proxy_env \<Rightarrow> instant \<Rightarrow> instant \<Rightarrow> route \<Rightarrow> proxy_server \<Rightarrow>
       (add_return_route_message option \<times> proxy_server) run" where
  "get_return_route_info env now1 now2 route_left self =
     (case shift (ce_route (pe_cores env)) (pe_cryptde env) route_left of
        (Inl _, _) \<Rightarrow> Err ExpectFailed
      | (Inr _, mut_remaining_route) \<Rightarrow>
          (case route_id (ce_route (pe_cores env)) mut_remaining_route (pe_cryptde env) of
             Inl _ \<Rightarrow> Ok (None, self)
           | Inr return_route_id \<Rightarrow>
               bind_run (ttl_get now1 now2 return_route_id (route_ids_to_return_routes self)) (\<lambda>(info, m).
               Ok (info, self\<lparr> route_ids_to_return_routes := m \<rparr>))))"

definition handle_dns_resolve_failure ::
    "proxy_env \<Rightarrow> instant \<Rightarrow> instant \<Rightarrow> dns_resolve_failure expired_cores_package \<Rightarrow> proxy_server \<Rightarrow>
       (proxy_output list \<times> proxy_server) run" where
  "handle_dns_resolve_failure env now1 now2 msg self =
     bind_run (get_return_route_info env now1 now2 (remaining_route msg) self) (\<lambda>(found, self).
     case found of
       None \<Rightarrow> Ok ([], self)
     | Some return_route_info \<Rightarrow>
         bind_run (case find_exit_node_key return_route_info of
                     Some k \<Rightarrow> Ok k
                   | None \<Rightarrow> if arr_is_zero_hop return_route_info then Ok (cd_public_key (pe_cryptde env))
                             else Err ExplicitPanic) (\<lambda>exit_public_key.
         let response = ecp_payload msg
         in case a_to_b (keys_and_addrs self) (drf_stream_key response) of
              None \<Rightarrow> Ok ([], self)
            | Some addr \<Rightarrow>
                bind_run (out_subs self) (\<lambda>_.
                bind_run (report_response_services_consumed self return_route_info 0 (payload_len msg)) (\<lambda>reports.
                Ok ([PsDesirable exit_public_key False] @ reports @
                    [PsToDispatcher \<lparr> td_endpoint = Socket addr, td_last_data = True, td_sequence_number = Some 0,
                       td_data = dns_resolution_failure_response
                         (impersonator (from_protocol (pe_web env) (arr_protocol return_route_info)))
                         exit_public_key (arr_server_name return_route_info) \<rparr>],
                    purge_stream_key (drf_stream_key response) self)))))"

definition handle_client_response_payload ::
    "proxy_env \<Rightarrow> instant \<Rightarrow> instant \<Rightarrow> client_response_payload expired_cores_package \<Rightarrow> proxy_server \<Rightarrow>
       (proxy_output list \<times> proxy_server) run" where
  "handle_client_response_payload env now1 now2 msg self =
     (let response = ecp_payload msg; packet = crs_sequenced_packet response
      in bind_run (get_return_route_info env now1 now2 (remaining_route msg) self) (\<lambda>(found, self).
         case found of
           None \<Rightarrow> Ok ([], self)
         | Some return_route_info \<Rightarrow>
             (case a_to_b (keys_and_addrs self) (crs_stream_key response) of
                None \<Rightarrow> Ok ([], self)
              | Some addr \<Rightarrow>
                  bind_run (report_response_services_consumed self return_route_info
                    (length (sp_data packet)) (payload_len msg)) (\<lambda>reports.
                  bind_run (out_subs self) (\<lambda>_.
                  Ok (reports @
                      [PsToDispatcher \<lparr> td_endpoint = Socket addr, td_last_data = last_data packet,
                         td_sequence_number = Some (sequence_number packet +
                           (if browser_proxy_sequence_offset self then 1 else 0)),
                         td_data = sp_data packet \<rparr>],
                      if last_data packet then purge_stream_key (crs_stream_key response) self else self))))))"

end
