(* ===== verification/ProxyServerSafety.thy ===== *)
theory ProxyServerSafety
  imports ProxyServerActor
begin

text \<open>
  What the proxy server guarantees, over every history of messages: responses go to the client for
  which the stream was opened, the table of streams stays a bijection, and a browser's request
  travels to the hopper and its response back to the same browser, with every service reported.
\<close>

section \<open>Histories\<close>

datatype proxy_event =
    FromDispatcher inbound_client_data
  | RouteAnswered pending_transmission "unit + route_query_response option"
  | AddReturnRoute add_return_route_message
  | AddRoute add_route_message
  | StreamShutdown stream_shutdown_msg
  | ResponseFromHopper "client_response_payload expired_cores_package"
  | DnsFailureFromHopper "dns_resolve_failure expired_cores_package"
  | SetConsumingWallet

fun proxy_step ::
    "proxy_env \<Rightarrow> instant \<times> instant \<times> proxy_event \<Rightarrow> proxy_server \<Rightarrow> (proxy_output list \<times> proxy_server) run" where
  "proxy_step env (t1, t2, FromDispatcher msg) st = handle_inbound_client_data env msg st"
| "proxy_step env (t1, t2, RouteAnswered pending result) st =
     bind_run (route_answered env pending result) (\<lambda>outs. Ok (outs, st))"
| "proxy_step env (t1, t2, AddReturnRoute msg) st =
     bind_run (handle_add_return_route t1 t2 msg st) (\<lambda>st'. Ok ([], st'))"
| "proxy_step env (t1, t2, AddRoute msg) st = Ok ([], handle_add_route msg st)"
| "proxy_step env (t1, t2, StreamShutdown msg) st = ps_handle_stream_shutdown_msg env msg st"
| "proxy_step env (t1, t2, ResponseFromHopper msg) st = handle_client_response_payload env t1 t2 msg st"
| "proxy_step env (t1, t2, DnsFailureFromHopper msg) st = handle_dns_resolve_failure env t1 t2 msg st"
| "proxy_step env (t1, t2, SetConsumingWallet) st = Ok ([], ps_set_consuming_wallet st)"

fun proxy_run ::
    "proxy_env \<Rightarrow> (instant \<times> instant \<times> proxy_event) list \<Rightarrow> proxy_server \<Rightarrow> (proxy_output list list \<times> proxy_server) run" where
  "proxy_run env [] st = Ok ([], st)"
| "proxy_run env (ev # evs) st =
     bind_run (proxy_step env ev st) (\<lambda>(outs, st').
     bind_run (proxy_run env evs st') (\<lambda>(rest, st''). Ok (outs # rest, st'')))"

text \<open>The stream key the proxy server makes for a client.\<close>

definition key_for :: "proxy_env \<Rightarrow> socket_addr \<Rightarrow> stream_key run" where
  "key_for env addr = stream_key_new (we_libraries (pe_web env)) (cd_public_key (pe_cryptde env)) addr"

definition streams_named :: "proxy_env \<Rightarrow> proxy_server \<Rightarrow> bool" where
  "streams_named env st \<longleftrightarrow> hm_ok (bidi_a_to_b (keys_and_addrs st)) \<and>
     (\<forall>k a. a_to_b (keys_and_addrs st) k = Some a \<longrightarrow> key_for env a = Ok k)"

definition keys_distinct :: "proxy_env \<Rightarrow> bool" where
  "keys_distinct env \<longleftrightarrow> (\<forall>a b k. key_for env a = Ok k \<longrightarrow> key_for env b = Ok k \<longrightarrow> a = b)"

lemma a_to_b_insert [simp]:
  "a_to_b (bidi_insert k a m) k' = (if k' = k then Some a else a_to_b m k')"
  "b_to_a (bidi_insert k a m) a' = (if a' = a then Some k else b_to_a m a')"
  by (simp_all add: a_to_b_def b_to_a_def bidi_insert_def)

lemma a_to_b_remove [simp]: "a_to_b (snd (remove_a k m)) k' = (if k' = k then None else a_to_b m k')"
  by (simp add: a_to_b_def remove_a_def Let_def split: option.split)

lemma bidi_ok_insert_fresh:
  assumes ok: "bidi_ok m" and "a_to_b m k = None" "b_to_a m a = None"
  shows "bidi_ok (bidi_insert k a m)"
proof -
  have "b_to_a m b \<noteq> Some k" "a_to_b m j \<noteq> Some a" for b j
    using assms unfolding bidi_ok_def by (metis option.distinct(1))+
  with ok show ?thesis
    unfolding bidi_ok_def a_to_b_insert by (auto simp: bidi_insert_def)
qed

lemma hm_ok_bidi [simp]:
  "hm_ok (bidi_a_to_b m) \<Longrightarrow> hm_ok (bidi_a_to_b (bidi_insert k a m))"
  "hm_ok (bidi_a_to_b m) \<Longrightarrow> hm_ok (bidi_a_to_b (snd (remove_a k m)))"
  by (simp_all add: bidi_insert_def remove_a_def Let_def split: option.split)

text \<open>How each handler changes the table of streams.\<close>

lemma make_stream_key_keys:
  assumes "make_stream_key env msg st = Ok (k, st')"
  shows "st' = st\<lparr> keys_and_addrs := keys_and_addrs st' \<rparr>"
    and "(keys_and_addrs st' = keys_and_addrs st \<and> b_to_a (keys_and_addrs st) (ibcd_peer_addr msg) = Some k) \<or>
      (b_to_a (keys_and_addrs st) (ibcd_peer_addr msg) = None \<and> key_for env (ibcd_peer_addr msg) = Ok k \<and>
       keys_and_addrs st' = bidi_insert k (ibcd_peer_addr msg) (keys_and_addrs st))"
  using assms by (auto simp: make_stream_key_def key_for_def elim!: bind_run_InrE split: option.split_asm)

definition stream_move :: "proxy_env \<Rightarrow> proxy_server \<Rightarrow> proxy_server \<Rightarrow> bool" where
  "stream_move env st st' \<longleftrightarrow>
     keys_and_addrs st' = keys_and_addrs st \<or>
     (\<exists>a k. b_to_a (keys_and_addrs st) a = None \<and> key_for env a = Ok k \<and> keys_and_addrs st' = bidi_insert k a (keys_and_addrs st)) \<or>
     (\<exists>k. keys_and_addrs st' = snd (remove_a k (keys_and_addrs st)))"

lemma stream_moveI:
  "keys_and_addrs st' = keys_and_addrs st \<Longrightarrow> stream_move env st st'"
  "keys_and_addrs st' = snd (remove_a k (keys_and_addrs st)) \<Longrightarrow> stream_move env st st'"
  "make_stream_key env msg st = Ok (k, st1) \<Longrightarrow> keys_and_addrs st' = keys_and_addrs st1 \<Longrightarrow> stream_move env st st'"
  using make_stream_key_keys [of env msg st k st1] unfolding stream_move_def by auto

lemma normal_data_moves:
  assumes "handle_normal_client_data env msg retire st = Ok (outs, st')"
  shows "stream_move env st st'"
  using assms unfolding handle_normal_client_data_def Let_def
  by (auto elim!: bind_run_InrE split: if_split_asm option.split_asm prod.split_asm intro: stream_moveI)

lemma tls_connect_moves:
  assumes "tls_connect env msg st = Ok (outs, st')"
  shows "stream_move env st st'"
  using assms unfolding tls_connect_def
  by (auto elim!: bind_run_InrE split: if_split_asm option.split_asm prod.split_asm intro: stream_moveI)

lemma info_keeps_keys:
  assumes "get_return_route_info env t1 t2 r st = Ok (info, st')"
  shows "st' = st\<lparr> route_ids_to_return_routes := route_ids_to_return_routes st' \<rparr>"
  using assms unfolding get_return_route_info_def
  by (auto elim!: bind_run_InrE split: sum.split_asm prod.split_asm)

lemma info_keys:
  "get_return_route_info env t1 t2 r st = Ok (info, st') \<Longrightarrow> keys_and_addrs st' = keys_and_addrs st"
  using info_keeps_keys [of env t1 t2 r st info st'] by (metis proxy_server.ext_inject proxy_server.surjective
      proxy_server.update_convs(7))

lemma purge_keys [simp]: "keys_and_addrs (purge_stream_key k st) = snd (remove_a k (keys_and_addrs st))"
  by (simp add: purge_stream_key_def)

lemma response_cases:
  assumes "handle_client_response_payload env t1 t2 msg st = Ok (outs, st')"
  obtains (ignored) "outs = []" "keys_and_addrs st' = keys_and_addrs st"
  | (relayed) info st1 addr reports where
      "get_return_route_info env t1 t2 (remaining_route msg) st = Ok (Some info, st1)"
      "a_to_b (keys_and_addrs st) (crs_stream_key (ecp_payload msg)) = Some addr"
      "report_response_services_consumed st1 info (length (sp_data (crs_sequenced_packet (ecp_payload msg)))) (payload_len msg) =
        Ok reports"
      "outs = reports @ [PsToDispatcher \<lparr> td_endpoint = Socket addr,
         td_last_data = last_data (crs_sequenced_packet (ecp_payload msg)),
         td_sequence_number = Some (sequence_number (crs_sequenced_packet (ecp_payload msg)) +
           (if browser_proxy_sequence_offset st1 then 1 else 0)),
         td_data = sp_data (crs_sequenced_packet (ecp_payload msg)) \<rparr>]"
      "st' = (if last_data (crs_sequenced_packet (ecp_payload msg))
         then purge_stream_key (crs_stream_key (ecp_payload msg)) st1 else st1)"
proof -
  obtain found st1 where info: "get_return_route_info env t1 t2 (remaining_route msg) st = Ok (found, st1)"
    using assms by (cases "get_return_route_info env t1 t2 (remaining_route msg) st")
      (auto simp: handle_client_response_payload_def)
  note keys = info_keys [OF info]
  show thesis
  proof (cases "found = None \<or> a_to_b (keys_and_addrs st1) (crs_stream_key (ecp_payload msg)) = None")
    case True
    then have "outs = []" "st' = st1"
      using assms info by (auto simp: handle_client_response_payload_def Let_def split: option.split_asm)
    with keys show thesis
      by (intro ignored) auto
  next
    case False
    then obtain rri addr where some: "found = Some rri"
        "a_to_b (keys_and_addrs st1) (crs_stream_key (ecp_payload msg)) = Some addr"
      by auto
    then obtain reports where "report_response_services_consumed st1 rri
        (length (sp_data (crs_sequenced_packet (ecp_payload msg)))) (payload_len msg) = Ok reports"
      using assms info by (auto simp: handle_client_response_payload_def Let_def elim!: bind_run_InrE)
    moreover have "out_subs st1 = Ok ()"
      using assms info some by (auto simp: handle_client_response_payload_def Let_def elim!: bind_run_InrE)
    ultimately show thesis
      using assms info some keys by (intro relayed) (auto simp: handle_client_response_payload_def Let_def)
  qed
qed

lemma dns_moves:
  assumes "handle_dns_resolve_failure env t1 t2 msg st = Ok (outs, st')"
  shows "stream_move env st st'"
proof -
  obtain found st1 where info: "get_return_route_info env t1 t2 (remaining_route msg) st = Ok (found, st1)"
    using assms by (cases "get_return_route_info env t1 t2 (remaining_route msg) st")
      (auto simp: handle_dns_resolve_failure_def)
  then have "st' = st1 \<or> st' = purge_stream_key (drf_stream_key (ecp_payload msg)) st1"
    using assms by (auto simp: handle_dns_resolve_failure_def Let_def elim!: bind_run_InrE split: option.split_asm)
  then show ?thesis
    using info_keys [OF info] by (auto simp: stream_move_def)
qed

lemma response_moves:
  assumes "handle_client_response_payload env t1 t2 msg st = Ok (outs, st')"
  shows "stream_move env st st'"
  using assms by (cases rule: response_cases) (auto simp: stream_move_def dest!: info_keys)

lemma proxy_step_moves:
  assumes "proxy_step env ev st = Ok (outs, st')"
  shows "stream_move env st st'"
proof -
  obtain t1 t2 e where ev: "ev = (t1, t2, e)"
    by (cases ev)
  show ?thesis
  proof (cases e)
    case (FromDispatcher msg)
    with assms ev show ?thesis
      by (auto simp: handle_inbound_client_data_def elim!: bind_run_InrE split: if_split_asm prod.split_asm
          dest!: tls_connect_moves normal_data_moves) (auto simp: stream_move_def)
  next
    case (StreamShutdown msg)
    with assms ev show ?thesis
      by (auto simp: ps_handle_stream_shutdown_msg_def elim!: bind_run_InrE
          split: if_split_asm prod.split_asm option.split_asm removed_stream_type.split_asm
          intro: stream_moveI dest!: normal_data_moves)
  qed (use assms ev in \<open>auto simp: handle_add_return_route_def handle_add_route_def ps_set_consuming_wallet_def
      elim!: bind_run_InrE intro: stream_moveI dest: response_moves dns_moves\<close>)
qed

lemma stream_move_named: "stream_move env st st' \<Longrightarrow> streams_named env st \<Longrightarrow> streams_named env st'"
  unfolding stream_move_def streams_named_def by (auto split: if_split_asm)

lemma stream_move_bijection:
  assumes "keys_distinct env" "stream_move env st st'" "streams_named env st" "bidi_ok (keys_and_addrs st)"
  shows "bidi_ok (keys_and_addrs st')"
proof -
  have "bidi_ok (bidi_insert k a (keys_and_addrs st))" if "b_to_a (keys_and_addrs st) a = None" "key_for env a = Ok k" for a k
  proof -
    have "a_to_b (keys_and_addrs st) k = None"
      using that assms(1,3,4) unfolding streams_named_def keys_distinct_def bidi_ok_def by (metis option.exhaust option.distinct(1))
    with that assms(4) show ?thesis
      by (intro bidi_ok_insert_fresh) auto
  qed
  with assms(2,4) show ?thesis
    unfolding stream_move_def by (auto intro: bidi_ok_remove_a)
qed

lemma proxy_run_invariant:
  assumes "proxy_run env evs st = Ok (trace, st')" "P st"
    and "\<And>ev st outs st'. P st \<Longrightarrow> proxy_step env ev st = Ok (outs, st') \<Longrightarrow> P st'"
  shows "P st'"
  using assms(1,2)
proof (induction evs arbitrary: st trace)
  case (Cons ev evs)
  then obtain outs st1 rest where "proxy_step env ev st = Ok (outs, st1)" "proxy_run env evs st1 = Ok (rest, st')"
    by (auto elim!: bind_run_InrE split: prod.split_asm)
  with Cons assms(3) show ?case
    by blast
qed simp

section \<open>Reports\<close>

fun response_report :: "nat \<Rightarrow> nat \<Rightarrow> expected_service \<Rightarrow> proxy_output list" where
  "response_report exit_size routing_size Nothing = []"
| "response_report exit_size routing_size (Exit _ wallet _) = [exit_report exit_size wallet]"
| "response_report exit_size routing_size (Routing _ wallet _) = [routing_report routing_size wallet]"

lemma report_response_ok:
  assumes "ps_bound st"
  shows "report_response_services_consumed st info x r = Ok (concat (map (response_report x r) (arr_expected_services info)))"
proof -
  have "report_response_service st x r s = Ok (response_report x r s)" for s
    using assms by (cases s) (simp_all add: out_subs_def)
  then show ?thesis
    by (simp add: report_response_services_consumed_def map_run_total)
qed

lemma reports_not_dispatched:
  assumes "report_response_services_consumed st info x r = Ok reports"
  shows "PsToDispatcher td \<notin> set reports"
proof -
  have "PsToDispatcher td \<notin> set outs" if "report_response_service st x r s = Ok outs" for s outs
    using that by (cases s) (auto simp: exit_report_def routing_report_def elim!: bind_run_InrE)
  moreover obtain outss where "map_run (report_response_service st x r) (arr_expected_services info) = Ok outss"
    "reports = concat outss"
    using assms by (auto simp: report_response_services_consumed_def elim!: bind_run_InrE)
  ultimately show ?thesis
    by (metis map_run_mem in_set_conv_nth UN_iff set_concat)
qed

section \<open>A request and its response\<close>

lemma ttl_insert_ok: "ttl_ok now m \<Longrightarrow> \<exists>m'. ttl_insert now now' k v m = Ok m'"
  using remove_expired_entries_eq [of now m] by (simp add: ttl_insert_def)

lemma ttl_insert_then_get:
  assumes "ttl_ok t1 m" "t1 \<le> t2" "ttl_insert t1 t2 k v m = Ok m'" "t2 \<le> t3" "t3 \<le> t2 + ttl m" "t3 \<le> t4"
  shows "\<exists>m''. ttl_get t3 t4 k m' = Ok (Some v, m'')"
proof -
  have ok: "ttl_ok t3 m'" and same: "ttl m' = ttl m"
    using ttl_ok_insert [OF assms(1-3)] ttl_ok_mono [of t2 m' t3] assms(4) by auto
  have get: "hm_get (ttl_data m') k = Some (v, t2)"
    using assms(3) by (auto simp: ttl_insert_def elim!: bind_run_InrE)
  obtain m'' r where "ttl_get t3 t4 k m' = Ok (r, m'')"
    "r = (if t3 - last_check m' < ttl m' then map_option fst (hm_get (ttl_data m') k)
          else map_option fst (hm_get (live_entries t3 (ttl m') (ttl_data m')) k))"
    using ttl_get_reachable [OF ok assms(6)] by blast
  moreover have "hm_ok (ttl_data m')"
    using ok by (simp add: ttl_ok_def)
  ultimately show ?thesis
    using get assms(4,5) by (auto simp: hm_get_live same)
qed

definition request_of :: "proxy_env \<Rightarrow> stream_key \<Rightarrow> inbound_client_data \<Rightarrow> u64 \<Rightarrow> client_request_payload" where
  "request_of env k msg n =
     \<lparr> crq_version = DataVersion 0 0 0, crq_stream_key = k,
       crq_sequenced_packet = \<lparr> sp_data = ibcd_data msg, sequence_number = n, last_data = ibcd_last_data msg \<rparr>,
       target_hostname = map_option host_name (http_find_host (pe_web env) (ibcd_data msg)),
       target_port = (case Option.bind (http_find_host (pe_web env) (ibcd_data msg)) host_port of Some p \<Rightarrow> p | None \<Rightarrow> HTTP_PORT),
       protocol = HTTP, originator_public_key = cd_public_key (pe_cryptde env) \<rparr>"

lemma client_request_version_ok: "client_request_version = Ok (DataVersion 0 0 0)"
  by code_simp

lemma http_payload:
  assumes "reception_port msg = Some HTTP_PORT" "ibcd_sequence_number msg = Some n" "hm_get (tunneled_hosts st) k = None"
  shows "make_payload env st msg k = Ok (Some (request_of env k msg n))"
  using assms
  by (auto simp: make_payload_def make_client_request_def from_ibcd_def from_standard_port_def http_protocol_pack_def
      client_request_version_ok request_of_def Let_def split: option.split)

definition opened :: "stream_key \<Rightarrow> socket_addr \<Rightarrow> proxy_server \<Rightarrow> proxy_server" where
  "opened k addr st = st\<lparr> keys_and_addrs := bidi_insert k addr (keys_and_addrs st) \<rparr>"

lemma opened_simps [simp]:
  "ps_is_decentralized (opened k addr st) = ps_is_decentralized st"
  "stream_key_routes (opened k addr st) = stream_key_routes st"
  "tunneled_hosts (opened k addr st) = tunneled_hosts st"
  by (simp_all add: opened_def)

lemma http_request_asks_for_route:
  assumes "ps_bound st" "consuming_wallet_balance st \<noteq> None \<or> \<not> ps_is_decentralized st"
    and "\<not> is_connect (pe_web env) (ibcd_data msg)" "reception_port msg = Some HTTP_PORT" "ibcd_sequence_number msg = Some n"
    and "b_to_a (keys_and_addrs st) (ibcd_peer_addr msg) = None" "key_for env (ibcd_peer_addr msg) = Ok k"
    and "hm_get (tunneled_hosts st) k = None" "hm_get (stream_key_routes st) k = None"
  shows "handle_inbound_client_data env msg st =
    Ok ([PsRouteQuery (data_indefinite_route_request (if ps_is_decentralized st then 3 else 0))
           \<lparr> pt_stream_key = k, pt_payload = request_of env k msg n, pt_source_addr = ibcd_peer_addr msg, pt_retire = False \<rparr>],
        opened k (ibcd_peer_addr msg) st)"
proof -
  have "make_stream_key env msg st = Ok (k, opened k (ibcd_peer_addr msg) st)"
    using assms(6,7) by (simp add: make_stream_key_def key_for_def opened_def)
  moreover have "make_payload env (opened k (ibcd_peer_addr msg) st) msg k = Ok (Some (request_of env k msg n))"
    using assms(4,5,8) by (intro http_payload) simp_all
  ultimately show ?thesis
    using assms(1-3,9) by (auto simp: handle_inbound_client_data_def handle_normal_client_data_def out_subs_def Let_def)
qed

lemma answered_route_transmits:
  assumes "rqr_expected_services response = RoundTrip over home return_id"
    and "find_map exit_key_of over = Some exit_key" "find_map exit_wallet_of over = Some exit_wallet"
    and "encodex (message_codec (pe_cores env)) (pe_cryptde env) exit_key (ClientRequest (pt_payload pending)) = Ok sealed"
    and "\<not> pt_retire pending"
  shows "route_answered env pending (Ok (Some response)) =
    Ok ([PsAddRoute \<lparr> ar_stream_key = pt_stream_key pending, ar_route = response \<rparr>,
         PsAddReturnRoute \<lparr> arr_return_route_id = return_id, arr_expected_services = home,
           arr_protocol = protocol (pt_payload pending), arr_server_name = target_hostname (pt_payload pending) \<rparr>,
         exit_report (length (sp_data (crq_sequenced_packet (pt_payload pending)))) exit_wallet] @
        map (routing_report (length sealed)) (List.map_filter routing_wallet_of over) @
        [PsToHopper \<lparr> icp_route = rqr_route response, icp_payload = sealed \<rparr>])"
proof -
  have "\<not> list_all (\<lambda>s. s = Nothing) over"
  proof
    assume "list_all (\<lambda>s. s = Nothing) over"
    then have "List.map_filter exit_key_of over = []"
      by (induction over) (auto simp: List.map_filter_simps)
    then show False
      using assms(2) by (simp add: find_map_def)
  qed
  then show ?thesis
    using assms by (simp add: route_answered_def try_transmit_to_hopper_def transmit_to_hopper_def payload_destination_def
        incipient_new_def report_exit_service_def report_routing_service_def)
qed

lemma response_relayed:
  assumes "ps_bound st" "a_to_b (keys_and_addrs st) (crs_stream_key (ecp_payload msg)) = Some addr"
    and "shift (ce_route (pe_cores env)) (pe_cryptde env) (remaining_route msg) = (Ok hop, rest)"
    and "route_id (ce_route (pe_cores env)) rest (pe_cryptde env) = Ok return_id"
    and "ttl_get t1 t2 return_id (route_ids_to_return_routes st) = Ok (Some info, m)"
  shows "\<exists>st'. handle_client_response_payload env t1 t2 msg st =
    Ok (concat (map (response_report (length (sp_data (crs_sequenced_packet (ecp_payload msg)))) (payload_len msg))
          (arr_expected_services info)) @
        [PsToDispatcher \<lparr> td_endpoint = Socket addr, td_last_data = last_data (crs_sequenced_packet (ecp_payload msg)),
           td_sequence_number = Some (sequence_number (crs_sequenced_packet (ecp_payload msg)) +
             (if browser_proxy_sequence_offset st then 1 else 0)),
           td_data = sp_data (crs_sequenced_packet (ecp_payload msg)) \<rparr>], st')"
  using assms
  by (simp add: handle_client_response_payload_def get_return_route_info_def report_response_ok out_subs_def Let_def)

section \<open>An example\<close>

definition demo_web :: web_env where
  "demo_web =
     \<lparr> we_libraries = example_libraries\<lparr> sha1 := id \<rparr>, host_pattern = (\<lambda>_. None),
       connect_method = (\<lambda>m. m = ascii ''CONNECT'') \<rparr>"

definition demo_proxy_env :: proxy_env where
  "demo_proxy_env =
     \<lparr> pe_web = demo_web, pe_cores = demo_env\<lparr> ce_route := example_route_env \<rparr>, pe_cryptde = example_node 1 \<rparr>"

definition demo_client :: socket_addr where
  "demo_client = \<lparr> ip = V4 127 0 0 1, port = 5000 \<rparr>"

definition demo_data :: inbound_client_data where
  "demo_data = \<lparr> ibcd_peer_addr = demo_client, reception_port = Some 80, ibcd_last_data = False,
     is_clandestine = False, ibcd_sequence_number = Some 0, ibcd_data = [71] \<rparr>"

definition demo_key :: stream_key where
  "demo_key = [127, 0, 0, 1, 19, 136, 129]"

definition demo_note :: add_return_route_message where
  "demo_note = \<lparr> arr_return_route_id = 77,
     arr_expected_services = [Exit [131] (wallet_from_address [3]) DEFAULT_RATE_PACK, Nothing],
     arr_protocol = HTTP, arr_server_name = None \<rparr>"

definition demo_reply :: "client_response_payload expired_cores_package" where
  "demo_reply =
     \<lparr> immediate_neighbor = demo_client, paying_wallet = None, remaining_route = \<lparr> route_hops = [[1, 2, 5], [1, 77]] \<rparr>,
       ecp_payload = \<lparr> crs_version = DataVersion 0 0 0, crs_stream_key = demo_key,
         crs_sequenced_packet = \<lparr> sp_data = [72, 84], sequence_number = 0, last_data = False \<rparr> \<rparr>,
       payload_len = 100 \<rparr>"

definition demo_proxy :: proxy_server where
  "demo_proxy = ps_bind (proxy_server_new 0 True (Some 0))"

abbreviation demo_over :: "expected_service list" where
  "demo_over \<equiv> [Nothing, Exit [131] (wallet_from_address [3]) DEFAULT_RATE_PACK]"

lemmas demo_defs = demo_proxy_def demo_data_def demo_reply_def demo_note_def demo_client_def demo_key_def
  demo_proxy_env_def demo_web_def ps_bind_def proxy_server_new_def ttl_new_def bidi_new_def

lemma demo_state:
  "ps_bound demo_proxy" "consuming_wallet_balance demo_proxy \<noteq> None \<or> \<not> ps_is_decentralized demo_proxy"
  "ttl_ok 1 (route_ids_to_return_routes demo_proxy)" "ttl (route_ids_to_return_routes demo_proxy) = RETURN_ROUTE_TTL"
  "b_to_a (keys_and_addrs demo_proxy) (ibcd_peer_addr demo_data) = None"
  "hm_get (tunneled_hosts demo_proxy) demo_key = None" "hm_get (stream_key_routes demo_proxy) demo_key = None"
  "\<not> browser_proxy_sequence_offset demo_proxy"
  by (simp_all add: demo_defs ttl_ok_def b_to_a_def)

lemma demo_request_facts:
  "\<not> is_connect (pe_web demo_proxy_env) (ibcd_data demo_data)"
  "reception_port demo_data = Some HTTP_PORT" "ibcd_sequence_number demo_data = Some 0"
  "crs_stream_key (ecp_payload demo_reply) = demo_key"
  "http_find_host (pe_web demo_proxy_env) (ibcd_data demo_data) = None"
  by (simp_all add: demo_defs is_connect_def ascii_def HTTP_PORT_def http_find_host_def find_url_host_def find_header_host_def
      index_of_find_sub CRLF_def)

lemma demo_keyed: "key_for demo_proxy_env (ibcd_peer_addr demo_data) = Ok demo_key"
  by code_simp

lemma demo_way_back:
  "\<exists>hop rest. shift (ce_route (pe_cores demo_proxy_env)) (pe_cryptde demo_proxy_env) (remaining_route demo_reply) = (Ok hop, rest) \<and>
    route_id (ce_route (pe_cores demo_proxy_env)) rest (pe_cryptde demo_proxy_env) = Ok 77"
proof -
  let ?s = "shift (ce_route (pe_cores demo_proxy_env)) (pe_cryptde demo_proxy_env) (remaining_route demo_reply)"
  have "\<not> isl (fst ?s)" and home: "route_id (ce_route (pe_cores demo_proxy_env)) (snd ?s) (pe_cryptde demo_proxy_env) = Ok 77"
    by code_simp+
  then have "?s = (Ok (projr (fst ?s)), snd ?s)"
    by (simp add: prod_eq_iff)
  with home show ?thesis
    by blast
qed

lemma demo_sealed:
  "encodex (message_codec (pe_cores demo_proxy_env)) (pe_cryptde demo_proxy_env) [131]
     (ClientRequest (request_of demo_proxy_env demo_key demo_data 0)) = Ok [3, 1]"
  by code_simp

lemmas demo_asks = http_request_asks_for_route [OF demo_state(1,2) demo_request_facts(1,2,3) demo_state(5) demo_keyed demo_state(6,7)]

section \<open>Properties\<close>

text \<open>C15. Responses reach the right client: after any history of messages, whatever response comes
  from the hopper, the proxy server sends data on only to the client for whose address the stream key
  in the response was made, with the data of the response unchanged; and unless two addresses have
  the same stream key, the table of streams is a bijection.\<close>

theorem responses_to_the_right_client:
  assumes "proxy_run env history (ps_bind (proxy_server_new now decentralized balance)) = Ok (trace, st)"
    and "handle_client_response_payload env t1 t2 msg st = Ok (outs, st')" "PsToDispatcher td \<in> set outs"
  shows "(\<exists>addr. td_endpoint td = Socket addr \<and> key_for env addr = Ok (crs_stream_key (ecp_payload msg)) \<and>
      td_data td = sp_data (crs_sequenced_packet (ecp_payload msg))) \<and>
    (keys_distinct env \<longrightarrow> bidi_ok (keys_and_addrs st'))"
proof (rule conjI)
  let ?P = "\<lambda>st. streams_named env st \<and> (keys_distinct env \<longrightarrow> bidi_ok (keys_and_addrs st))"
  have init: "?P (ps_bind (proxy_server_new now decentralized balance))"
    by (simp add: streams_named_def ps_bind_def proxy_server_new_def bidi_new_def a_to_b_def bidi_ok_new [unfolded bidi_new_def])
  have P: "?P st"
    by (rule proxy_run_invariant [where P = ?P, OF assms(1) init]) (use proxy_step_moves stream_move_named stream_move_bijection in blast)
  show "\<exists>addr. td_endpoint td = Socket addr \<and> key_for env addr = Ok (crs_stream_key (ecp_payload msg)) \<and>
      td_data td = sp_data (crs_sequenced_packet (ecp_payload msg))"
    using assms(2)
  proof (cases rule: response_cases)
    case (relayed info st1 addr reports)
    with assms(3) P reports_not_dispatched [OF relayed(3)] show ?thesis
      by (auto simp: streams_named_def)
  qed (use assms(3) in simp)
  show "keys_distinct env \<longrightarrow> bidi_ok (keys_and_addrs st')"
    using P response_moves [OF assms(2)] stream_move_bijection by blast
qed

theorem responses_to_the_right_client_witness:
  "\<exists>trace st outs st' td. proxy_run demo_proxy_env [(0, 0, FromDispatcher demo_data), (1, 1, AddReturnRoute demo_note)] demo_proxy = Ok (trace, st) \<and>
    handle_client_response_payload demo_proxy_env 2 2 demo_reply st = Ok (outs, st') \<and> PsToDispatcher td \<in> set outs \<and>
    (\<exists>addr. td_endpoint td = Socket addr \<and> key_for demo_proxy_env addr = Ok demo_key)"
proof -
  let ?h = "[(0, 0, FromDispatcher demo_data), (1, 1, AddReturnRoute demo_note)]"
  obtain m where m: "ttl_insert 1 1 77 demo_note (route_ids_to_return_routes demo_proxy) = Ok m"
    using ttl_insert_ok [OF demo_state(3)] by blast
  let ?st = "(opened demo_key (ibcd_peer_addr demo_data) demo_proxy)\<lparr> route_ids_to_return_routes := m \<rparr>"
  have "arr_return_route_id demo_note = 77"
    by (simp add: demo_note_def)
  then obtain trace where run: "proxy_run demo_proxy_env ?h demo_proxy = Ok (trace, ?st)"
    using m by (simp add: demo_asks handle_add_return_route_def opened_def)
  obtain m' where "ttl_get 2 2 77 m = Ok (Some demo_note, m')"
    using ttl_insert_then_get [OF demo_state(3) order_refl m, of 2 2] by (auto simp: demo_state(4) RETURN_ROUTE_TTL_def)
  then have stream: "ps_bound ?st" "a_to_b (keys_and_addrs ?st) (crs_stream_key (ecp_payload demo_reply)) = Some (ibcd_peer_addr demo_data)"
      "ttl_get 2 2 77 (route_ids_to_return_routes ?st) = Ok (Some demo_note, m')"
    using demo_state(1) by (simp_all add: opened_def demo_request_facts(4))
  obtain hop rest where home: "shift (ce_route (pe_cores demo_proxy_env)) (pe_cryptde demo_proxy_env) (remaining_route demo_reply) = (Ok hop, rest)"
      "route_id (ce_route (pe_cores demo_proxy_env)) rest (pe_cryptde demo_proxy_env) = Ok 77"
    using demo_way_back by blast
  have "\<exists>reports td st'. handle_client_response_payload demo_proxy_env 2 2 demo_reply ?st = Ok (reports @ [PsToDispatcher td], st')"
    using response_relayed [OF stream(1,2) home stream(3)] by blast
  then obtain outs td st' where reply: "handle_client_response_payload demo_proxy_env 2 2 demo_reply ?st = Ok (outs, st')"
      "PsToDispatcher td \<in> set outs"
    by (metis in_set_conv_decomp)
  with responses_to_the_right_client [OF run [unfolded demo_proxy_def] reply [unfolded demo_proxy_def]] run show ?thesis
    unfolding demo_request_facts(4) by blast
qed

text \<open>C5. A browser's request and its response. For a plain HTTP request from a new client, with a
  wallet to pay from, the proxy server asks for a route; when the neighborhood answers with a round
  trip, the request goes to the hopper sealed for the exit node of that route, the exit and every
  relay of the way out are reported to the accountant, and the return route is noted; and when a
  response for that stream comes back over that return route within the lifetime of the note, it is
  sent to the very address the request came from, and the exit and every relay of the way back are
  reported.\<close>

theorem browser_round_trip:
  assumes "ps_bound st" "consuming_wallet_balance st \<noteq> None \<or> \<not> ps_is_decentralized st"
    and "\<not> is_connect (pe_web env) (ibcd_data msg)" "reception_port msg = Some HTTP_PORT" "ibcd_sequence_number msg = Some n"
    and "b_to_a (keys_and_addrs st) (ibcd_peer_addr msg) = None" "key_for env (ibcd_peer_addr msg) = Ok k"
    and "hm_get (tunneled_hosts st) k = None" "hm_get (stream_key_routes st) k = None"
    and "rqr_expected_services answer = RoundTrip over home return_id"
    and "find_map exit_key_of over = Some exit_key" "find_map exit_wallet_of over = Some exit_wallet"
    and "encodex (message_codec (pe_cores env)) (pe_cryptde env) exit_key (ClientRequest (request_of env k msg n)) = Ok sealed"
    and "ttl_ok t1 (route_ids_to_return_routes st)" "ttl (route_ids_to_return_routes st) = RETURN_ROUTE_TTL"
    and "t1 \<le> t2" "t2 \<le> t3" "t3 \<le> t2 + RETURN_ROUTE_TTL" "t3 \<le> t4"
    and "crs_stream_key (ecp_payload reply) = k"
    and "shift (ce_route (pe_cores env)) (pe_cryptde env) (remaining_route reply) = (Ok hop, rest)"
    and "route_id (ce_route (pe_cores env)) rest (pe_cryptde env) = Ok return_id"
  shows "\<exists>query pending st1 note st2 st3.
    handle_inbound_client_data env msg st = Ok ([PsRouteQuery query pending], st1) \<and>
    route_answered env pending (Ok (Some answer)) =
      Ok ([PsAddRoute \<lparr> ar_stream_key = k, ar_route = answer \<rparr>, PsAddReturnRoute note,
           exit_report (length (ibcd_data msg)) exit_wallet] @
          map (routing_report (length sealed)) (List.map_filter routing_wallet_of over) @
          [PsToHopper \<lparr> icp_route = rqr_route answer, icp_payload = sealed \<rparr>]) \<and>
    handle_add_return_route t1 t2 note (handle_add_route \<lparr> ar_stream_key = k, ar_route = answer \<rparr> st1) = Ok st2 \<and>
    handle_client_response_payload env t3 t4 reply st2 =
      Ok (concat (map (response_report (length (sp_data (crs_sequenced_packet (ecp_payload reply)))) (payload_len reply)) home) @
          [PsToDispatcher \<lparr> td_endpoint = Socket (ibcd_peer_addr msg),
             td_last_data = last_data (crs_sequenced_packet (ecp_payload reply)),
             td_sequence_number = Some (sequence_number (crs_sequenced_packet (ecp_payload reply)) +
               (if browser_proxy_sequence_offset st then 1 else 0)),
             td_data = sp_data (crs_sequenced_packet (ecp_payload reply)) \<rparr>], st3)"
proof -
  let ?p = "request_of env k msg n"
  let ?pending = "\<lparr> pt_stream_key = k, pt_payload = ?p, pt_source_addr = ibcd_peer_addr msg, pt_retire = False \<rparr>"
  let ?note = "\<lparr> arr_return_route_id = return_id, arr_expected_services = home, arr_protocol = protocol ?p,
     arr_server_name = target_hostname ?p \<rparr>"
  let ?st1 = "handle_add_route \<lparr> ar_stream_key = k, ar_route = answer \<rparr> (opened k (ibcd_peer_addr msg) st)"
  note asks = http_request_asks_for_route [OF assms(1-9)]
  have sends: "route_answered env ?pending (Ok (Some answer)) =
      Ok ([PsAddRoute \<lparr> ar_stream_key = k, ar_route = answer \<rparr>, PsAddReturnRoute ?note,
           exit_report (length (ibcd_data msg)) exit_wallet] @
          map (routing_report (length sealed)) (List.map_filter routing_wallet_of over) @
          [PsToHopper \<lparr> icp_route = rqr_route answer, icp_payload = sealed \<rparr>])"
    using answered_route_transmits [OF assms(10-12), of env ?pending sealed] assms(13) by (simp add: request_of_def)
  obtain m where m: "ttl_insert t1 t2 return_id ?note (route_ids_to_return_routes st) = Ok m"
    using ttl_insert_ok [OF assms(14)] by blast
  let ?st2 = "?st1\<lparr> route_ids_to_return_routes := m \<rparr>"
  have noted: "handle_add_return_route t1 t2 ?note ?st1 = Ok ?st2"
    using m by (simp add: handle_add_return_route_def handle_add_route_def opened_def)
  obtain m' where "ttl_get t3 t4 return_id m = Ok (Some ?note, m')"
    using ttl_insert_then_get [OF assms(14,16) m assms(17)] assms(15,18,19) by auto
  then obtain st3 where "handle_client_response_payload env t3 t4 reply ?st2 =
      Ok (concat (map (response_report (length (sp_data (crs_sequenced_packet (ecp_payload reply)))) (payload_len reply)) home) @
          [PsToDispatcher \<lparr> td_endpoint = Socket (ibcd_peer_addr msg),
             td_last_data = last_data (crs_sequenced_packet (ecp_payload reply)),
             td_sequence_number = Some (sequence_number (crs_sequenced_packet (ecp_payload reply)) +
               (if browser_proxy_sequence_offset st then 1 else 0)),
             td_data = sp_data (crs_sequenced_packet (ecp_payload reply)) \<rparr>], st3)"
    using response_relayed [of ?st2 reply "ibcd_peer_addr msg" env hop rest return_id t3 t4 ?note m'] assms(1,20-22)
    by (auto simp: handle_add_route_def opened_def)
  then show ?thesis
    using asks sends noted by blast
qed

theorem browser_round_trip_witness:
  "\<exists>query pending st1 st2 outs st3.
    handle_inbound_client_data demo_proxy_env demo_data demo_proxy = Ok ([PsRouteQuery query pending], st1) \<and>
    handle_add_return_route 1 2 demo_note (handle_add_route \<lparr> ar_stream_key = demo_key,
      ar_route = \<lparr> rqr_route = \<lparr> route_hops = [] \<rparr>, rqr_expected_services = RoundTrip demo_over (arr_expected_services demo_note) 77 \<rparr> \<rparr> st1) = Ok st2 \<and>
    handle_client_response_payload demo_proxy_env 3 4 demo_reply st2 = Ok (outs, st3) \<and>
    last outs = PsToDispatcher \<lparr> td_endpoint = Socket demo_client, td_last_data = False, td_sequence_number = Some 0,
      td_data = [72, 84] \<rparr>"
proof -
  let ?answer = "\<lparr> rqr_route = \<lparr> route_hops = [] \<rparr>, rqr_expected_services = RoundTrip demo_over (arr_expected_services demo_note) 77 \<rparr>"
  have exit: "find_map exit_key_of demo_over = Some [131]" "find_map exit_wallet_of demo_over = Some (wallet_from_address [3])"
    by (simp_all add: find_map_def List.map_filter_simps)
  have times: "(1 :: nat) \<le> 2" "(2 :: nat) \<le> 3" "(3 :: nat) \<le> 2 + RETURN_ROUTE_TTL" "(3 :: nat) \<le> 4"
    by (simp_all add: RETURN_ROUTE_TTL_def)
  obtain hop rest where home: "shift (ce_route (pe_cores demo_proxy_env)) (pe_cryptde demo_proxy_env) (remaining_route demo_reply) = (Ok hop, rest)"
      "route_id (ce_route (pe_cores demo_proxy_env)) rest (pe_cryptde demo_proxy_env) = Ok 77"
    using demo_way_back by blast
  have "rqr_expected_services ?answer = RoundTrip demo_over (arr_expected_services demo_note) 77"
    by simp
  note trip = browser_round_trip [OF demo_state(1,2) demo_request_facts(1,2,3) demo_state(5) demo_keyed demo_state(6,7) this exit
      demo_sealed demo_state(3,4) times demo_request_facts(4) home]
  then show ?thesis
  proof (elim exE conjE, goal_cases)
    case (1 query pending st1 noted st2 st3)
    have "pending = \<lparr> pt_stream_key = demo_key, pt_payload = request_of demo_proxy_env demo_key demo_data 0,
        pt_source_addr = ibcd_peer_addr demo_data, pt_retire = False \<rparr>"
      using 1(1) demo_asks by simp
    then have "noted = demo_note"
      using 1(2) demo_request_facts(5)
      by (auto simp: route_answered_def try_transmit_to_hopper_def demo_note_def request_of_def elim!: bind_run_InrE)
    then show ?case
      using 1(1,3,4) demo_state(8) by (intro exI conjI) (assumption | simp add: demo_reply_def demo_data_def)+
  qed
qed

end
