(* ===== verification/StreamWriters.thy ===== *)
theory StreamWriters
  imports SequenceBuffer
begin

text \<open>
  The two tasks that write to sockets: \<open>stream_writer_sorted.rs\<close> for clear data, which puts packets
  into order, and \<open>stream_writer_unsorted.rs\<close> for clandestine data.

  The channel and the socket are given by the answers they have yet to give, in order; when there is
  none left they are not ready. What the socket has accepted is collected in the state.
\<close>

section \<open>The world outside\<close>

datatype channel_answer = Received sequenced_packet | ChannelNotReady | ChannelClosed | ChannelError

datatype write_answer = Wrote nat | WriteNotReady | WriteError io_error_kind

datatype shutdown_answer = ShutdownDone | ShutdownNotReady | ShutdownError

datatype async_result = NotReady | Ready | Failed

record socket =
  write_answers :: "write_answer list"
  shutdown_answers :: "shutdown_answer list"
  accepted :: bytes

definition socket_shutdown :: "socket \<Rightarrow> shutdown_answer \<times> socket" where
  "socket_shutdown s =
     (case shutdown_answers s of
        [] \<Rightarrow> (ShutdownNotReady, s)
      | a # rest \<Rightarrow> (a, s\<lparr> shutdown_answers := rest \<rparr>))"

definition socket_accept :: "nat \<Rightarrow> bytes \<Rightarrow> socket \<Rightarrow> socket" where
  "socket_accept len dat s = s\<lparr> accepted := accepted s @ take len dat \<rparr>"

section \<open>StreamWriterSorted\<close>

record stream_writer_sorted =
  sws_stream :: socket
  sws_rx_to_write :: "channel_answer list"
  sequence_buffer :: sequence_buffer
  shutting_down :: bool

datatype read_channel_status = StillOpen | Closed

datatype write_buffer_status = StreamInError | BufferNotEmpty | BufferEmpty

definition sorted_new :: "socket \<Rightarrow> channel_answer list \<Rightarrow> stream_writer_sorted" where
  "sorted_new stream rx =
     \<lparr> sws_stream = stream, sws_rx_to_write = rx, sequence_buffer = new_buffer, shutting_down = False \<rparr>"

definition sorted_shutdown :: "stream_writer_sorted \<Rightarrow> async_result \<times> stream_writer_sorted" where
  "sorted_shutdown self =
     (let (answer, stream) = socket_shutdown (sws_stream self); self' = self\<lparr> sws_stream := stream \<rparr>
      in case answer of
           ShutdownNotReady \<Rightarrow> (NotReady, self')
         | ShutdownDone \<Rightarrow> (Ready, self')
         | ShutdownError \<Rightarrow> (Failed, self'))"

fun read_answers :: "channel_answer list \<Rightarrow> sequence_buffer \<Rightarrow> (read_channel_status \<times> channel_answer list \<times> sequence_buffer) run" where
  "read_answers [] b = Ok (StillOpen, [], b)"
| "read_answers (Received sequenced_packet # rest) b = read_answers rest (push b sequenced_packet)"
| "read_answers (ChannelClosed # rest) b = Ok (Closed, rest, b)"
| "read_answers (ChannelNotReady # rest) b = Ok (StillOpen, rest, b)"
| "read_answers (ChannelError # rest) b = Err ExplicitPanic"

definition read_data_from_channel :: "stream_writer_sorted \<Rightarrow> (read_channel_status \<times> stream_writer_sorted) run" where
  "read_data_from_channel self =
     bind_run (read_answers (sws_rx_to_write self) (sequence_buffer self)) (\<lambda>(status, rx, b).
     Ok (status, self\<lparr> sws_rx_to_write := rx, sequence_buffer := b \<rparr>))"

text \<open>The loop of \<open>write_from_buffer_to_stream\<close>, by the answers of the socket.\<close>

fun write_loop :: "write_answer list \<Rightarrow> stream_writer_sorted \<Rightarrow> (write_buffer_status \<times> stream_writer_sorted) run" where
  "write_loop [] self =
     bind_run (poll (sequence_buffer self)) (\<lambda>(packet_opt, b).
     let self = self\<lparr> sws_stream := (sws_stream self)\<lparr> write_answers := [] \<rparr>, sequence_buffer := b \<rparr>
     in case packet_opt of
          None \<Rightarrow> Ok (BufferEmpty, self)
        | Some packet \<Rightarrow>
            bind_run (repush b packet) (\<lambda>b'. Ok (BufferNotEmpty, self\<lparr> sequence_buffer := b' \<rparr>)))"
| "write_loop (answer # answers) self =
     bind_run (poll (sequence_buffer self)) (\<lambda>(packet_opt, b).
     case packet_opt of
       None \<Rightarrow> Ok (BufferEmpty, self\<lparr> sws_stream := (sws_stream self)\<lparr> write_answers := answer # answers \<rparr>, sequence_buffer := b \<rparr>)
     | Some packet \<Rightarrow>
         (let self = self\<lparr> sws_stream := (sws_stream self)\<lparr> write_answers := answers \<rparr>, sequence_buffer := b \<rparr>
          in case answer of
               WriteError kind \<Rightarrow>
                 if indicates_dead_stream kind then Ok (StreamInError, self)
                 else bind_run (repush b packet) (\<lambda>b'. write_loop answers (self\<lparr> sequence_buffer := b' \<rparr>))
             | WriteNotReady \<Rightarrow>
                 bind_run (repush b packet) (\<lambda>b'. Ok (BufferNotEmpty, self\<lparr> sequence_buffer := b' \<rparr>))
             | Wrote len \<Rightarrow>
                 (let self = self\<lparr> sws_stream := socket_accept len (sp_data packet) (sws_stream self) \<rparr>
                  in if len \<noteq> length (sp_data packet)
                     then bind_run (repush b (new_packet (drop len (sp_data packet)) (sequence_number packet) (last_data packet))) (\<lambda>b'.
                          write_loop answers (self\<lparr> sequence_buffer := b' \<rparr>))
                     else if last_data packet
                     then (let (shut, stream) = socket_shutdown (sws_stream self);
                               self = self\<lparr> sws_stream := stream, shutting_down := True \<rparr>
                           in Ok (case shut of
                                    ShutdownNotReady \<Rightarrow> BufferNotEmpty
                                  | ShutdownDone \<Rightarrow> BufferEmpty
                                  | ShutdownError \<Rightarrow> StreamInError, self))
                     else write_loop answers self)))"

definition write_from_buffer_to_stream :: "stream_writer_sorted \<Rightarrow> (write_buffer_status \<times> stream_writer_sorted) run" where
  "write_from_buffer_to_stream self = write_loop (write_answers (sws_stream self)) self"

definition sorted_poll :: "stream_writer_sorted \<Rightarrow> (async_result \<times> stream_writer_sorted) run" where
  "sorted_poll self =
     (if shutting_down self then Ok (sorted_shutdown self)
      else bind_run (read_data_from_channel self) (\<lambda>(read_result, self).
           bind_run (write_from_buffer_to_stream self) (\<lambda>(write_result, self).
           Ok (case (read_result, write_result) of
                 (_, StreamInError) \<Rightarrow> Failed
               | (StillOpen, _) \<Rightarrow> NotReady
               | (Closed, BufferNotEmpty) \<Rightarrow> NotReady
               | (Closed, BufferEmpty) \<Rightarrow> Ready, self))))"

section \<open>StreamWriterUnsorted\<close>

record stream_writer_unsorted =
  swu_stream :: socket
  swu_rx_to_write :: "channel_answer list"
  buf :: "sequenced_packet option"

definition unsorted_new :: "socket \<Rightarrow> channel_answer list \<Rightarrow> stream_writer_unsorted" where
  "unsorted_new stream rx = \<lparr> swu_stream = stream, swu_rx_to_write = rx, buf = None \<rparr>"

function unsorted_poll :: "stream_writer_unsorted \<Rightarrow> (async_result \<times> stream_writer_unsorted) run" where
  "unsorted_poll self =
     (case buf self of
        None \<Rightarrow>
          (case swu_rx_to_write self of
             [] \<Rightarrow> Ok (NotReady, self)
           | Received dat # rest \<Rightarrow> unsorted_poll (self\<lparr> swu_rx_to_write := rest, buf := Some dat \<rparr>)
           | ChannelClosed # rest \<Rightarrow> Ok (Ready, self\<lparr> swu_rx_to_write := rest \<rparr>)
           | ChannelNotReady # rest \<Rightarrow> Ok (NotReady, self\<lparr> swu_rx_to_write := rest \<rparr>)
           | ChannelError # rest \<Rightarrow> Err ExplicitPanic)
      | Some packet \<Rightarrow>
          (case write_answers (swu_stream self) of
             [] \<Rightarrow> Ok (NotReady, self)
           | answer # answers \<Rightarrow>
               (let stream = (swu_stream self)\<lparr> write_answers := answers \<rparr>
                in case answer of
                     WriteError kind \<Rightarrow>
                       if indicates_dead_stream kind then Ok (Failed, self\<lparr> swu_stream := stream, buf := None \<rparr>)
                       else unsorted_poll (self\<lparr> swu_stream := stream \<rparr>)
                   | WriteNotReady \<Rightarrow> Ok (NotReady, self\<lparr> swu_stream := stream \<rparr>)
                   | Wrote len \<Rightarrow>
                       unsorted_poll (self\<lparr> swu_stream := socket_accept len (sp_data packet) stream,
                         buf := (if len \<noteq> length (sp_data packet)
                                 then Some (new_packet (drop len (sp_data packet)) (sequence_number packet) False)
                                 else None) \<rparr>))))"
  by pat_completeness auto
termination
  by (relation "measure (\<lambda>self. length (write_answers (swu_stream self)) + length (swu_rx_to_write self))")
    (auto simp: socket_accept_def)

declare unsorted_poll.simps [simp del]

section \<open>The sorted writer\<close>

text \<open>A packet that has been taken out, or what is left of it, can be put back.\<close>

lemma poll_Some:
  assumes "buffer_inv s" "poll s = Ok (Some p, t)"
  shows "sequence_number p = next_expected_sequence_number s"
    and "next_expected_sequence_number t = next_expected_sequence_number s + 1"
    and "mset (buffer s) = add_mset p (mset (buffer t))" and "buffer_inv t"
proof -
  have "next_expected_sequence_number s \<in> set (seqs s)"
    using poll_waiting [OF assms(1)] assms(2) by fastforce
  then show "sequence_number p = next_expected_sequence_number s"
    and "next_expected_sequence_number t = next_expected_sequence_number s + 1"
    and "mset (buffer s) = add_mset p (mset (buffer t))" and "buffer_inv t"
    using poll_delivers [OF assms(1)] assms(2) by (metis Inr_inject option.inject prod.inject)+
qed

lemma others_differ:
  assumes "buffer_inv b" "poll b = Ok (Some p, t)" "q \<in> set (buffer t)"
  shows "sequence_number q \<noteq> next_expected_sequence_number b"
proof -
  note t = poll_Some [OF assms(1,2)]
  have "mset (seqs b) = mset (sequence_number p # seqs t)"
    using t(3) by (simp add: seqs_def)
  then have "sequence_number p \<notin> set (seqs t)"
    using assms(1) mset_eq_imp_distinct_iff by (fastforce simp: buffer_inv_def)
  moreover have "sequence_number q \<in> set (seqs t)"
    using assms(3) by (simp add: seqs_def)
  ultimately show ?thesis
    using t(1) by metis
qed

lemma repush_rest:
  assumes inv: "buffer_inv s" and poll: "poll s = Ok (Some p, t)" and same: "sequence_number p' = sequence_number p"
  shows "\<exists>u. repush t p' = Ok u \<and> buffer_inv u \<and> next_expected_sequence_number u = next_expected_sequence_number s \<and>
    buffer u = p' # buffer t"
proof -
  note t = poll_Some [OF inv poll]
  have "mset (seqs s) = add_mset (sequence_number p') (mset (seqs t))"
    using t(3) same by (simp add: seqs_def)
  then have "distinct (sequence_number p' # seqs t)" "\<forall>sn \<in> set (seqs t). next_expected_sequence_number s \<le> sn"
    using inv mset_eq_imp_distinct_iff [of "seqs s" "sequence_number p' # seqs t"] mset_eq_setD [of "seqs s" "sequence_number p' # seqs t"]
    by (auto simp: buffer_inv_def)
  moreover have "mset (seen_sequence_numbers t) = mset (seqs t)"
    using t(4) by (simp add: buffer_inv_def)
  ultimately show ?thesis
    using t same by (simp add: repush_def heap_push_def buffer_inv_def seqs_def)
qed

text \<open>Packets \<open>finished\<close> have been written and \<open>part\<close> of the next one.\<close>

definition in_sequence :: "sequenced_packet list \<Rightarrow> bool" where
  "in_sequence ps \<longleftrightarrow> map sequence_number ps = map of_nat [0..<length ps]"

definition progress :: "sequenced_packet list \<Rightarrow> bytes \<Rightarrow> sequenced_packet set \<Rightarrow> sequence_buffer \<Rightarrow> bytes \<Rightarrow> bool" where
  "progress finished part received b written \<longleftrightarrow>
     buffer_inv b \<and> in_sequence finished \<and> next_expected_sequence_number b = of_nat (length finished) \<and>
     set finished \<subseteq> received \<and>
     (\<forall>q \<in> set (buffer b). (if sequence_number q = next_expected_sequence_number b
        then q\<lparr> sp_data := part @ sp_data q \<rparr> else q) \<in> received) \<and>
     (part \<noteq> [] \<longrightarrow> next_expected_sequence_number b \<in> set (seqs b)) \<and>
     sequence_number ` received \<subseteq> sequence_number ` set finished \<union> set (seqs b) \<and>
     written = concat (map sp_data finished) @ part"

lemma progress_finish:
  assumes pr: "progress finished part received b written" and poll: "poll b = Ok (Some p, t)"
  shows "progress (finished @ [p\<lparr> sp_data := part @ sp_data p \<rparr>]) [] received t (written @ sp_data p)"
proof -
  have inv: "buffer_inv b"
    using pr by (simp add: progress_def)
  note t = poll_Some [OF inv poll]
  have set: "set (buffer b) = insert p (set (buffer t))"
    using seqs_mset [OF t(3)] .
  have "set (seqs b) = insert (sequence_number p) (set (seqs t))"
    by (simp add: seqs_def set)
  with pr t set others_differ [OF inv poll] show ?thesis
    by (auto simp: progress_def in_sequence_def add.commute)
qed

lemma progress_part:
  assumes pr: "progress finished part received b written" and poll: "poll b = Ok (Some p, t)"
  shows "\<exists>u. repush t (p\<lparr> sp_data := drop len (sp_data p) \<rparr>) = Ok u \<and>
    progress finished (part @ take len (sp_data p)) received u (written @ take len (sp_data p))"
proof -
  let ?p = "p\<lparr> sp_data := drop len (sp_data p) \<rparr>"
  have inv: "buffer_inv b"
    using pr by (simp add: progress_def)
  note t = poll_Some [OF inv poll]
  have set: "set (buffer b) = insert p (set (buffer t))"
    using seqs_mset [OF t(3)] .
  obtain u where u: "repush t ?p = Ok u" "buffer_inv u" "next_expected_sequence_number u = next_expected_sequence_number b"
      "buffer u = ?p # buffer t"
    using repush_rest [OF inv poll, of ?p] by auto
  have "progress finished (part @ take len (sp_data p)) received u (written @ take len (sp_data p))"
    using pr u t(1) set others_differ [OF inv poll] by (auto simp: progress_def seqs_def)
  with u(1) show ?thesis
    by blast
qed

lemma progress_back:
  assumes pr: "progress finished part received b written" and poll: "poll b = Ok (Some p, t)"
  shows "\<exists>u. repush t p = Ok u \<and> progress finished part received u written"
  using progress_part [OF assms, of 0] by simp

definition delivered :: "sequenced_packet set \<Rightarrow> bytes \<Rightarrow> bool" where
  "delivered received written \<longleftrightarrow> (\<exists>ps. in_sequence ps \<and> set ps \<subseteq> received \<and> prefix written (concat (map sp_data ps)))"

definition complete :: "sequenced_packet set \<Rightarrow> bytes \<Rightarrow> bool" where
  "complete received written \<longleftrightarrow> (\<exists>ps. in_sequence ps \<and> set ps \<subseteq> received \<and>
     of_nat (length ps) \<notin> sequence_number ` received \<and> written = concat (map sp_data ps))"

lemma progress_delivered:
  assumes pr: "progress finished part received b written"
  shows "delivered received written"
proof (cases "part = []")
  case True
  with pr show ?thesis
    by (auto simp: progress_def delivered_def)
next
  case False
  then obtain q where q: "q \<in> set (buffer b)" "sequence_number q = next_expected_sequence_number b"
    using pr by (auto simp: progress_def seqs_def)
  then have "q\<lparr> sp_data := part @ sp_data q \<rparr> \<in> received"
    using pr by (auto simp: progress_def)
  with pr q show ?thesis
    unfolding delivered_def
    by (intro exI [of _ "finished @ [q\<lparr> sp_data := part @ sp_data q \<rparr>]"]) (auto simp: progress_def in_sequence_def)
qed

text \<open>Fewer than \<open>2 ^ 64\<close> packets: their numbers do not wrap around.\<close>

definition few :: "sequenced_packet set \<Rightarrow> bool" where
  "few received \<longleftrightarrow> finite received \<and> card received < 2 ^ 64"

lemma unat_of_nat_u64: "i < 2 ^ 64 \<Longrightarrow> unat (of_nat i :: u64) = i"
  by (simp add: unat_of_nat)

lemma of_nat_u64_eq: "i < 2 ^ 64 \<Longrightarrow> j < 2 ^ 64 \<Longrightarrow> (of_nat i :: u64) = of_nat j \<longleftrightarrow> i = j"
  by (metis unat_of_nat_u64)

lemma in_sequence_nth: "in_sequence ps \<Longrightarrow> i < length ps \<Longrightarrow> sequence_number (ps ! i) = of_nat i"
  unfolding in_sequence_def by (metis (no_types, lifting) length_map nth_map nth_upt add_0 diff_zero length_upt)

lemma in_sequence_short:
  assumes "in_sequence ps" "set ps \<subseteq> received" "few received"
  shows "length ps < 2 ^ 64"
proof (rule ccontr)
  define N :: nat where "N = 2 ^ 64"
  assume "\<not> length ps < 2 ^ 64"
  then have le: "N \<le> length ps"
    by (simp add: N_def)
  have "distinct (take N ps)"
  proof (subst distinct_conv_nth, intro allI impI)
    fix i j
    assume "i < length (take N ps)" "j < length (take N ps)" "i \<noteq> j"
    then show "take N ps ! i \<noteq> take N ps ! j"
      using in_sequence_nth [OF assms(1), of i] in_sequence_nth [OF assms(1), of j] of_nat_u64_eq [of i j]
      by (auto simp: N_def)
  qed
  then have "card (set (take N ps)) = N"
    using le by (simp add: distinct_card)
  moreover have "set (take N ps) \<subseteq> received"
    using assms(2) set_take_subset by fastforce
  ultimately show False
    using assms(3) card_mono [of received "set (take N ps)"] by (simp add: few_def N_def)
qed

lemma in_sequence_numbers:
  assumes "in_sequence ps" "length ps < 2 ^ 64"
  shows "n \<in> sequence_number ` set ps \<longleftrightarrow> n < of_nat (length ps)"
proof
  assume "n \<in> sequence_number ` set ps"
  then obtain i where "i < length ps" "n = of_nat i"
    using in_sequence_nth [OF assms(1)] by (metis image_iff in_set_conv_nth)
  then show "n < of_nat (length ps)"
    using assms(2) unat_of_nat_u64 [of i] unat_of_nat_u64 [of "length ps"] by (simp add: word_less_nat_alt)
next
  assume "n < of_nat (length ps)"
  then have "unat n < length ps"
    using unat_of_nat_u64 [OF assms(2)] by (simp add: word_less_nat_alt)
  moreover from this have "sequence_number (ps ! unat n) = n"
    using in_sequence_nth [OF assms(1)] by simp
  ultimately show "n \<in> sequence_number ` set ps"
    by (metis image_eqI nth_mem)
qed

lemma progress_waiting:
  assumes "progress finished part received b written" "next_expected_sequence_number b \<notin> set (seqs b)" "few received"
  shows "complete received written"
proof -
  have seq: "in_sequence finished" "set finished \<subseteq> received" "next_expected_sequence_number b = of_nat (length finished)"
    "sequence_number ` received \<subseteq> sequence_number ` set finished \<union> set (seqs b)"
    "written = concat (map sp_data finished)"
    using assms by (auto simp: progress_def)
  note short = in_sequence_short [OF seq(1,2) assms(3)]
  have "of_nat (length finished) \<notin> sequence_number ` received"
    using seq(3,4) in_sequence_numbers [OF seq(1) short, of "of_nat (length finished)"] assms(2) by auto
  with seq show ?thesis
    by (auto simp: complete_def)
qed

lemma progress_push:
  assumes pr: "progress finished part received b written" and few: "few received"
  shows "progress finished part (insert p received) (push b p) written"
proof -
  have seq: "in_sequence finished" "set finished \<subseteq> received" "next_expected_sequence_number b = of_nat (length finished)"
    "buffer_inv b"
    using pr by (auto simp: progress_def)
  note short = in_sequence_short [OF seq(1,2) few]
  have numbers: "sequence_number p \<in> sequence_number ` set finished" if "\<not> next_expected_sequence_number b \<le> sequence_number p"
    using that in_sequence_numbers [OF seq(1) short] seq(3) by simp
  show ?thesis
  proof (cases "next_expected_sequence_number b \<le> sequence_number p \<and> sequence_number p \<notin> set (seen_sequence_numbers b)")
    case True
    then have "push b p = b\<lparr> seen_sequence_numbers := seen_sequence_numbers b @ [sequence_number p], buffer := p # buffer b \<rparr>"
      by (simp add: push_def heap_push_def)
    moreover have "part = []" if "sequence_number p = next_expected_sequence_number b"
      using that True pr set_seen [OF seq(4)] by (auto simp: progress_def)
    moreover from calculation(1) have "set (seqs (push b p)) = insert (sequence_number p) (set (seqs b))"
      by (simp add: seqs_def)
    ultimately show ?thesis
      using pr push_inv [OF seq(4), of p] by (auto simp: progress_def)
  next
    case False
    then have "push b p = b"
      by (auto simp: push_def)
    moreover have "sequence_number p \<in> sequence_number ` set finished \<union> set (seqs b)"
      using False numbers set_seen [OF seq(4)] by blast
    ultimately show ?thesis
      using pr by (auto simp: progress_def)
  qed
qed

definition writer_progress :: "sequenced_packet set \<Rightarrow> stream_writer_sorted \<Rightarrow> bool" where
  "writer_progress received w \<longleftrightarrow>
     (\<exists>finished part. progress finished part received (sequence_buffer w) (accepted (sws_stream w)))"

definition write_outcome :: "sequenced_packet set \<Rightarrow> stream_writer_sorted \<Rightarrow> (write_buffer_status \<times> stream_writer_sorted) run \<Rightarrow> bool" where
  "write_outcome received w r \<longleftrightarrow> (\<exists>status w'. r = Ok (status, w') \<and> sws_rx_to_write w' = sws_rx_to_write w \<and>
     delivered received (accepted (sws_stream w')) \<and>
     (status \<noteq> StreamInError \<longrightarrow> writer_progress received w') \<and>
     (status = BufferEmpty \<longrightarrow> shutting_down w' \<or> complete received (accepted (sws_stream w'))))"

lemma write_outcome_same:
  assumes "write_outcome received w' r" "sws_rx_to_write w' = sws_rx_to_write w"
  shows "write_outcome received w r"
  using assms by (simp add: write_outcome_def)

lemma socket_shutdown_accepted [simp]: "accepted (snd (socket_shutdown s)) = accepted s"
  by (simp add: socket_shutdown_def split: list.split)

lemma packet_rest:
  "new_packet (drop len (sp_data p)) (sequence_number p) (last_data p) = p\<lparr> sp_data := drop len (sp_data p) \<rparr>"
  by (simp add: new_packet_def)

lemma progress_poll:
  assumes "progress finished part received b written"
  obtains (wait) "poll b = Ok (None, b)" "next_expected_sequence_number b \<notin> set (seqs b)"
  | (packet) p t where "poll b = Ok (Some p, t)"
proof (cases "next_expected_sequence_number b \<in> set (seqs b)")
  case False
  with assms show thesis
    by (intro wait poll_waiting) (simp_all add: progress_def)
next
  case True
  have "buffer_inv b"
    using assms by (simp add: progress_def)
  then show thesis
    using poll_delivers [OF _ True] packet by metis
qed

lemma write_loop_outcome:
  assumes "progress finished part received (sequence_buffer w) (accepted (sws_stream w))" "few received"
  shows "write_outcome received w (write_loop answers w)"
  using assms(1)
proof (induction answers arbitrary: w finished part)
  case Nil
  note pr = Nil.prems
  show ?case
    using pr
  proof (cases rule: progress_poll)
    case wait
    then show ?thesis
      using progress_waiting [OF pr wait(2) assms(2)] progress_delivered [OF pr] pr
      by (auto simp: write_outcome_def writer_progress_def)
  next
    case (packet p t)
    obtain u where "repush t p = Ok u" "progress finished part received u (accepted (sws_stream w))"
      using progress_back [OF pr packet] by blast
    with packet progress_delivered [OF pr] show ?thesis
      by (auto simp: write_outcome_def writer_progress_def)
  qed
next
  case (Cons answer answers)
  note pr = Cons.prems
  show ?case
    using pr
  proof (cases rule: progress_poll)
    case wait
    then show ?thesis
      using progress_waiting [OF pr wait(2) assms(2)] progress_delivered [OF pr] pr
      by (auto simp: write_outcome_def writer_progress_def)
  next
    case (packet p t)
    let ?s = "(sws_stream w)\<lparr> write_answers := answers \<rparr>"
    obtain u where u: "repush t p = Ok u" "progress finished part received u (accepted (sws_stream w))"
      using progress_back [OF pr packet] by blast
    have again: "write_outcome received w (write_loop answers (w\<lparr> sws_stream := ?s, sequence_buffer := u \<rparr>))"
      by (rule write_outcome_same [OF Cons.IH]) (use u in simp_all)
    show ?thesis
    proof (cases answer)
      case (WriteError kind)
      show ?thesis
      proof (cases "indicates_dead_stream kind")
        case True
        with WriteError packet progress_delivered [OF pr] show ?thesis
          by (auto simp: write_outcome_def Let_def)
      next
        case False
        with WriteError packet u again show ?thesis
          by (simp add: Let_def)
      qed
    next
      case WriteNotReady
      with packet u progress_delivered [OF pr] show ?thesis
        by (auto simp: write_outcome_def writer_progress_def)
    next
      case (Wrote len)
      let ?s' = "socket_accept len (sp_data p) ?s"
      obtain v where v: "repush t (p\<lparr> sp_data := drop len (sp_data p) \<rparr>) = Ok v"
          "progress finished (part @ take len (sp_data p)) received v (accepted (sws_stream w) @ take len (sp_data p))"
        using progress_part [OF pr packet] by blast
      have more: "write_outcome received w (write_loop answers (w\<lparr> sws_stream := ?s', sequence_buffer := v \<rparr>))"
        by (rule write_outcome_same [OF Cons.IH]) (use v in \<open>simp_all add: socket_accept_def\<close>)
      have all_written: "progress (finished @ [p\<lparr> sp_data := part @ sp_data p \<rparr>]) [] received t (accepted ?s')"
        if "len = length (sp_data p)"
        using progress_finish [OF pr packet] that by (simp add: socket_accept_def)
      have next_packet: "write_outcome received w (write_loop answers (w\<lparr> sequence_buffer := t, sws_stream := ?s' \<rparr>))"
        if "len = length (sp_data p)"
        by (rule write_outcome_same [OF Cons.IH]) (use all_written [OF that] in simp_all)
      show ?thesis
      proof (cases "len = length (sp_data p) \<and> last_data p")
        case True
        then show ?thesis
          using Wrote packet all_written progress_delivered [OF all_written]
          by (auto simp: write_outcome_def writer_progress_def split: prod.split shutdown_answer.split)
             (metis socket_shutdown_accepted snd_conv)+
      next
        case False
        then show ?thesis
          using Wrote packet v(1) more next_packet by (auto simp: packet_rest Let_def)
      qed
    qed
  qed
qed

definition packets :: "channel_answer list \<Rightarrow> sequenced_packet set" where
  "packets answers = {p. Received p \<in> set answers}"

lemma packets_simps [simp]:
  "packets [] = {}"
  "packets (Received p # rest) = insert p (packets rest)"
  "packets (ChannelNotReady # rest) = packets rest"
  "packets (ChannelClosed # rest) = packets rest"
  "packets (xs @ ys) = packets xs \<union> packets ys"
  by (auto simp: packets_def)

lemma few_packets:
  assumes "length answers < 2 ^ 64"
  shows "few (packets answers)"
proof -
  have sub: "Received ` packets answers \<subseteq> set answers"
    by (auto simp: packets_def)
  then have "finite (Received ` packets answers)"
    using finite_subset by blast
  then have fin: "finite (packets answers)"
    by (rule finite_imageD) (simp add: inj_on_def)
  have "card (packets answers) = card (Received ` packets answers)"
    by (simp add: card_image inj_on_def)
  also have "\<dots> \<le> length answers"
    using card_mono [OF _ sub] card_length [of answers] by simp
  finally show ?thesis
    using assms fin by (simp add: few_def)
qed

lemma few_mono: "few b \<Longrightarrow> a \<subseteq> b \<Longrightarrow> few a"
  unfolding few_def by (meson card_mono finite_subset le_less_trans)

lemma read_answers_progress:
  assumes "progress finished part received b written" "few (received \<union> packets answers)" "ChannelError \<notin> set answers"
  shows "\<exists>status taken rest b'. read_answers answers b = Ok (status, rest, b') \<and> answers = taken @ rest \<and>
    progress finished part (received \<union> packets taken) b' written"
  using assms
proof (induction answers b arbitrary: received rule: read_answers.induct)
  case (2 p rest b)
  have "few received"
    using "2.prems"(2) by (rule few_mono) auto
  then have "progress finished part (insert p received) (push b p) written"
    using "2.prems"(1) progress_push by blast
  with "2.IH" [of "insert p received"] "2.prems"(2,3) obtain status taken rest' b' where
    "read_answers rest (push b p) = Ok (status, rest', b')" "rest = taken @ rest'"
    "progress finished part (insert p received \<union> packets taken) b' written"
    by auto
  then show ?case
    by (intro exI [of _ status] exI [of _ "Received p # taken"] exI [of _ rest'] exI [of _ b']) simp
next
  case (3 rest b)
  then show ?case
    by (intro exI [of _ Closed] exI [of _ "[ChannelClosed]"] exI [of _ rest] exI [of _ b]) simp
next
  case (4 rest b)
  then show ?case
    by (intro exI [of _ StillOpen] exI [of _ "[ChannelNotReady]"] exI [of _ rest] exI [of _ b]) simp
qed auto

text \<open>The task is polled until it is done or has failed.\<close>

fun run_sorted :: "nat \<Rightarrow> stream_writer_sorted \<Rightarrow> (async_result \<times> stream_writer_sorted) run" where
  "run_sorted 0 w = Ok (NotReady, w)"
| "run_sorted (Suc n) w =
     bind_run (sorted_poll w) (\<lambda>(r, w'). if r = NotReady then run_sorted n w' else Ok (r, w'))"

text \<open>What holds after any number of polls: \<open>taken\<close> is what has been read from the channel.\<close>

definition sorted_outcome :: "channel_answer list \<Rightarrow> async_result \<Rightarrow> stream_writer_sorted \<Rightarrow> bool" where
  "sorted_outcome rx r w \<longleftrightarrow> (\<exists>taken. rx = taken @ sws_rx_to_write w \<and>
     delivered (packets taken) (accepted (sws_stream w)) \<and>
     (r = NotReady \<longrightarrow> writer_progress (packets taken) w) \<and>
     (r = Ready \<longrightarrow> shutting_down w \<or> complete (packets taken) (accepted (sws_stream w))))"

lemma sorted_shutdown_same:
  assumes "sorted_shutdown w = (r, w')"
  shows "sequence_buffer w' = sequence_buffer w" "accepted (sws_stream w') = accepted (sws_stream w)"
    "sws_rx_to_write w' = sws_rx_to_write w" "shutting_down w' = shutting_down w"
  using assms
  by (auto simp: sorted_shutdown_def socket_shutdown_def Let_def split: prod.split_asm list.split_asm shutdown_answer.split_asm)

lemma sorted_poll_outcome:
  assumes out: "sorted_outcome rx NotReady w" and rx: "length rx < 2 ^ 64" "ChannelError \<notin> set rx"
  shows "\<exists>r w'. sorted_poll w = Ok (r, w') \<and> sorted_outcome rx r w'"
proof -
  obtain taken where taken: "rx = taken @ sws_rx_to_write w" "delivered (packets taken) (accepted (sws_stream w))"
      "writer_progress (packets taken) w"
    using out by (auto simp: sorted_outcome_def)
  then obtain finished part where pr: "progress finished part (packets taken) (sequence_buffer w) (accepted (sws_stream w))"
    by (auto simp: writer_progress_def)
  show ?thesis
  proof (cases "shutting_down w")
    case True
    obtain r w' where sh: "sorted_shutdown w = (r, w')"
      by force
    with True taken show ?thesis
      using sorted_shutdown_same [OF sh]
      by (auto simp: sorted_poll_def sorted_outcome_def writer_progress_def)
  next
    case False
    have all: "few (packets taken \<union> packets (sws_rx_to_write w))"
      using few_packets [OF rx(1)] taken(1) by simp
    then obtain status more rest b where read: "read_answers (sws_rx_to_write w) (sequence_buffer w) = Ok (status, rest, b)"
        "sws_rx_to_write w = more @ rest" "progress finished part (packets taken \<union> packets more) b (accepted (sws_stream w))"
      using read_answers_progress [OF pr, of "sws_rx_to_write w"] rx(2) taken(1) by auto
    let ?w = "w\<lparr> sws_rx_to_write := rest, sequence_buffer := b \<rparr>" and ?R = "packets (taken @ more)"
    have "few ?R"
      by (rule few_mono [OF all]) (auto simp: read(2))
    then have "write_outcome ?R ?w (write_from_buffer_to_stream ?w)"
      unfolding write_from_buffer_to_stream_def
      by (rule write_loop_outcome [rotated]) (use read(3) in simp)
    then obtain ws w' where w': "write_from_buffer_to_stream ?w = Ok (ws, w')" "sws_rx_to_write w' = rest"
        "delivered ?R (accepted (sws_stream w'))" "ws \<noteq> StreamInError \<longrightarrow> writer_progress ?R w'"
        "ws = BufferEmpty \<longrightarrow> shutting_down w' \<or> complete ?R (accepted (sws_stream w'))"
      by (auto simp: write_outcome_def)
    then show ?thesis
      using False read taken(1)
      by (auto simp: sorted_poll_def read_data_from_channel_def sorted_outcome_def
          split: read_channel_status.split write_buffer_status.split intro!: exI [of _ "taken @ more"])
  qed
qed

lemma run_sorted_outcome:
  assumes "sorted_outcome rx NotReady w" "length rx < 2 ^ 64" "ChannelError \<notin> set rx"
  shows "\<exists>r w'. run_sorted n w = Ok (r, w') \<and> sorted_outcome rx r w'"
  using assms(1)
proof (induction n arbitrary: w)
  case (Suc n)
  obtain r w1 where p: "sorted_poll w = Ok (r, w1)" "sorted_outcome rx r w1"
    using sorted_poll_outcome [OF Suc.prems assms(2,3)] by blast
  then show ?case
    using Suc.IH [of w1] by (cases r) auto
qed auto

section \<open>Properties\<close>

lemma sorted_outcome_new:
  assumes "accepted stream = []"
  shows "sorted_outcome rx NotReady (sorted_new stream rx)"
  using assms
  by (auto simp: sorted_outcome_def sorted_new_def delivered_def in_sequence_def writer_progress_def progress_def
      new_buffer_def seqs_def buffer_inv_def intro!: exI [of _ "[]"])

lemma delivered_needs_first:
  assumes "delivered rs written" "0 \<notin> sequence_number ` rs"
  shows "written = []"
proof -
  obtain ps where ps: "in_sequence ps" "set ps \<subseteq> rs" "prefix written (concat (map sp_data ps))"
    using assms(1) by (auto simp: delivered_def)
  show ?thesis
  proof (cases ps)
    case (Cons p qs)
    then have "sequence_number p = 0"
      using ps(1) in_sequence_nth [OF ps(1), of 0] by simp
    with Cons ps(2) assms(2) show ?thesis
      by force
  qed (use ps in simp)
qed

text \<open>A writer that never gets packet number zero writes nothing, however long it runs.\<close>

lemma sorted_without_first:
  assumes "accepted stream = []" "length rx < 2 ^ 64" "ChannelError \<notin> set rx" "0 \<notin> sequence_number ` packets rx"
  shows "\<exists>r w. run_sorted n (sorted_new stream rx) = Ok (r, w) \<and> accepted (sws_stream w) = []"
proof -
  obtain r w where run: "run_sorted n (sorted_new stream rx) = Ok (r, w)" "sorted_outcome rx r w"
    using run_sorted_outcome [OF sorted_outcome_new [OF assms(1)] assms(2,3)] by blast
  then obtain taken where taken: "rx = taken @ sws_rx_to_write w" "delivered (packets taken) (accepted (sws_stream w))"
    by (auto simp: sorted_outcome_def)
  have "0 \<notin> sequence_number ` packets taken"
    using assms(4) taken(1) by fastforce
  with taken(2) run(1) show ?thesis
    using delivered_needs_first by blast
qed

text \<open>C24. The writer of clear data delivers in order, once, and everything: whatever the order in which
  the packets arrive, with duplicates and gaps, and however the socket takes the data (in part, not
  at all for a while, or with errors), it never panics, and at every moment the bytes the socket has
  accepted are a prefix of the data of packets 0, 1, 2 and so on in this order. When the task ends
  because the channel is closed, the data of all packets up to the first missing number has been
  written completely.\<close>

theorem sorted_writer_in_order:
  assumes "accepted stream = []" "length rx < 2 ^ 64" "ChannelError \<notin> set rx"
  shows "\<exists>r w taken. run_sorted n (sorted_new stream rx) = Ok (r, w) \<and> rx = taken @ sws_rx_to_write w \<and>
    delivered (packets taken) (accepted (sws_stream w)) \<and>
    (r = Ready \<longrightarrow> shutting_down w \<or> complete (packets taken) (accepted (sws_stream w)))"
  using run_sorted_outcome [OF sorted_outcome_new [OF assms(1)] assms(2,3)]
  unfolding sorted_outcome_def by blast

definition demo_socket :: socket where
  "demo_socket = \<lparr> write_answers = [Wrote 1, WriteNotReady, Wrote 1, WriteError Interrupted, Wrote 1],
     shutdown_answers = [], accepted = [] \<rparr>"

definition demo_rx :: "channel_answer list" where
  "demo_rx = [Received (new_packet [3] 1 False), ChannelNotReady, Received (new_packet [1, 2] 0 False),
     Received (new_packet [9] 0 False), ChannelClosed, ChannelClosed]"

theorem sorted_writer_in_order_witness:
  "\<exists>w. run_sorted 3 (sorted_new demo_socket demo_rx) = Ok (Ready, w) \<and> accepted (sws_stream w) = [1, 2, 3] \<and>
    delivered (packets demo_rx) [1, 2, 3]"
proof -
  let ?r = "run_sorted 3 (sorted_new demo_socket demo_rx)"
  have "\<not> isl ?r" "fst (projr ?r) = Ready" "accepted (sws_stream (snd (projr ?r))) = [1, 2, 3]" "sws_rx_to_write (snd (projr ?r)) = []"
    by code_simp+
  moreover have "ChannelError \<notin> set demo_rx" "length demo_rx < 2 ^ 64" "accepted demo_socket = []"
    by (simp_all add: demo_rx_def demo_socket_def)
  ultimately show ?thesis
    using sorted_writer_in_order [of demo_socket demo_rx 3] by (cases ?r) auto
qed

section \<open>The unsorted writer\<close>

fun packet_data :: "channel_answer list \<Rightarrow> bytes" where
  "packet_data [] = []"
| "packet_data (Received p # rest) = sp_data p @ packet_data rest"
| "packet_data (_ # rest) = packet_data rest"

definition unsorted_ok :: "bytes \<Rightarrow> stream_writer_unsorted \<Rightarrow> bool" where
  "unsorted_ok whole w \<longleftrightarrow>
     accepted (swu_stream w) @ (case buf w of Some p \<Rightarrow> sp_data p | None \<Rightarrow> []) @ packet_data (swu_rx_to_write w) = whole"

lemma unsorted_poll_ok:
  assumes "unsorted_ok whole w" "ChannelError \<notin> set (swu_rx_to_write w)"
  shows "\<exists>r w'. unsorted_poll w = Ok (r, w') \<and> prefix (accepted (swu_stream w')) whole \<and>
    (r \<noteq> Failed \<longrightarrow> unsorted_ok whole w' \<and> ChannelError \<notin> set (swu_rx_to_write w')) \<and>
    (r = Ready \<longrightarrow> buf w' = None \<and> whole = accepted (swu_stream w') @ packet_data (swu_rx_to_write w'))"
  using assms
proof (induction w rule: unsorted_poll.induct)
  case (1 w)
  have pre: "prefix (accepted (swu_stream w)) whole"
    using "1.prems"(1) by (auto simp: unsorted_ok_def)
  show ?case
  proof (cases "buf w")
    case None
    show ?thesis
    proof (cases "swu_rx_to_write w")
      case Nil
      with None pre "1.prems" show ?thesis
        by (subst unsorted_poll.simps) (simp add: unsorted_ok_def)
    next
      case (Cons a rest)
      show ?thesis
      proof (cases a)
        case (Received p)
        have "unsorted_ok whole (w\<lparr> swu_rx_to_write := rest, buf := Some p \<rparr>)"
          using "1.prems"(1) None Cons Received by (simp add: unsorted_ok_def)
        with "1.IH"(1) [OF None Cons Received] "1.prems"(2) None Cons Received show ?thesis
          by (subst unsorted_poll.simps) simp
      qed (use "1.prems" None Cons pre in \<open>subst unsorted_poll.simps, simp add: unsorted_ok_def\<close>)+
    qed
  next
    case (Some p)
    show ?thesis
    proof (cases "write_answers (swu_stream w)")
      case Nil
      with Some pre "1.prems" show ?thesis
        by (subst unsorted_poll.simps) simp
    next
      case (Cons a rest)
      let ?s = "(swu_stream w)\<lparr> write_answers := rest \<rparr>"
      show ?thesis
      proof (cases a)
        case (Wrote len)
        let ?w = "w\<lparr> swu_stream := socket_accept len (sp_data p) ?s,
           buf := (if len \<noteq> length (sp_data p) then Some (new_packet (drop len (sp_data p)) (sequence_number p) False) else None) \<rparr>"
        have "unsorted_ok whole ?w"
          using "1.prems"(1) Some by (auto simp: unsorted_ok_def socket_accept_def new_packet_def)
        with "1.IH"(2) [OF Some Cons refl Wrote] "1.prems"(2) Some Cons Wrote show ?thesis
          by (subst unsorted_poll.simps) (simp add: Let_def)
      next
        case WriteNotReady
        with "1.prems" Some Cons pre show ?thesis
          by (subst unsorted_poll.simps) (simp add: unsorted_ok_def Let_def)
      next
        case (WriteError kind)
        have "unsorted_ok whole (w\<lparr> swu_stream := ?s \<rparr>)"
          using "1.prems"(1) by (simp add: unsorted_ok_def)
        with "1.IH"(3) [OF Some Cons refl WriteError] "1.prems"(2) Some Cons WriteError pre show ?thesis
          by (subst unsorted_poll.simps) (simp add: Let_def)
      qed
    qed
  qed
qed

fun run_unsorted :: "nat \<Rightarrow> stream_writer_unsorted \<Rightarrow> (async_result \<times> stream_writer_unsorted) run" where
  "run_unsorted 0 w = Ok (NotReady, w)"
| "run_unsorted (Suc n) w =
     bind_run (unsorted_poll w) (\<lambda>(r, w'). if r = NotReady then run_unsorted n w' else Ok (r, w'))"

lemma run_unsorted_ok:
  assumes "unsorted_ok whole w" "ChannelError \<notin> set (swu_rx_to_write w)"
  shows "\<exists>r w'. run_unsorted n w = Ok (r, w') \<and> prefix (accepted (swu_stream w')) whole \<and>
    (r = Ready \<longrightarrow> whole = accepted (swu_stream w') @ packet_data (swu_rx_to_write w'))"
  using assms
proof (induction n arbitrary: w)
  case 0
  then show ?case
    by (auto simp: unsorted_ok_def)
next
  case (Suc n)
  obtain r w1 where p: "unsorted_poll w = Ok (r, w1)" "prefix (accepted (swu_stream w1)) whole"
    "r \<noteq> Failed \<longrightarrow> unsorted_ok whole w1 \<and> ChannelError \<notin> set (swu_rx_to_write w1)"
    "r = Ready \<longrightarrow> buf w1 = None \<and> whole = accepted (swu_stream w1) @ packet_data (swu_rx_to_write w1)"
    using unsorted_poll_ok [OF Suc.prems] by blast
  then show ?case
    using Suc.IH [of w1] by (cases r) auto
qed

text \<open>The writer of clandestine data writes exactly what it is given: it never panics, the bytes
  the socket has accepted are at every moment a prefix of the data of the packets in the order in
  which they were sent into the channel, and when the task ends because the channel is closed, all
  that was read from the channel has been written.\<close>

theorem unsorted_writer_exact:
  assumes "accepted stream = []" "ChannelError \<notin> set rx"
  shows "\<exists>r w. run_unsorted n (unsorted_new stream rx) = Ok (r, w) \<and> prefix (accepted (swu_stream w)) (packet_data rx) \<and>
    (r = Ready \<longrightarrow> packet_data rx = accepted (swu_stream w) @ packet_data (swu_rx_to_write w))"
  by (rule run_unsorted_ok) (use assms in \<open>simp_all add: unsorted_ok_def unsorted_new_def\<close>)

theorem unsorted_writer_exact_witness:
  "\<exists>w. run_unsorted 2 (unsorted_new demo_socket demo_rx) = Ok (NotReady, w) \<and> prefix (accepted (swu_stream w)) [3, 1, 2, 9]"
proof -
  let ?r = "run_unsorted 2 (unsorted_new demo_socket demo_rx)"
  have "\<not> isl ?r" "fst (projr ?r) = NotReady" "packet_data demo_rx = [3, 1, 2, 9]"
    by code_simp+
  moreover have "ChannelError \<notin> set demo_rx" "accepted demo_socket = []"
    by (simp_all add: demo_rx_def demo_socket_def)
  ultimately show ?thesis
    using unsorted_writer_exact [of demo_socket demo_rx 2] by (cases ?r) auto
qed

end
