(* ===== verification/ProxyStreams.thy ===== *)
theory ProxyStreams
  imports ProxyServerSafety StreamWriters
begin

text \<open>
  The proxy server and the writer of clear data together: what the offset that the proxy server adds
  to sequence numbers does to the streams of its clients.
\<close>

section \<open>The offset\<close>

lemma make_stream_key_offset:
  "make_stream_key env msg st = Ok (k, st') \<Longrightarrow> browser_proxy_sequence_offset st' = browser_proxy_sequence_offset st"
  by (auto simp: make_stream_key_def elim!: bind_run_InrE split: option.split_asm)

lemma normal_data_offset:
  "handle_normal_client_data env msg retire st = Ok (outs, st') \<Longrightarrow>
     browser_proxy_sequence_offset st' = browser_proxy_sequence_offset st"
  unfolding handle_normal_client_data_def Let_def
  by (auto elim!: bind_run_InrE split: if_split_asm option.split_asm prod.split_asm dest: make_stream_key_offset)

lemma info_offset:
  "get_return_route_info env t1 t2 r st = Ok (info, st') \<Longrightarrow>
     browser_proxy_sequence_offset st' = browser_proxy_sequence_offset st"
  unfolding get_return_route_info_def by (auto elim!: bind_run_InrE split: sum.split_asm prod.split_asm)

lemma purge_offset [simp]: "browser_proxy_sequence_offset (purge_stream_key k st) = browser_proxy_sequence_offset st"
  by (simp add: purge_stream_key_def)

lemma dns_offset:
  assumes "handle_dns_resolve_failure env t1 t2 msg st = Ok (outs, st')"
  shows "browser_proxy_sequence_offset st' = browser_proxy_sequence_offset st"
proof -
  obtain found st1 where info: "get_return_route_info env t1 t2 (remaining_route msg) st = Ok (found, st1)"
    using assms by (cases "get_return_route_info env t1 t2 (remaining_route msg) st")
      (auto simp: handle_dns_resolve_failure_def)
  then have "st' = st1 \<or> st' = purge_stream_key (drf_stream_key (ecp_payload msg)) st1"
    using assms by (auto simp: handle_dns_resolve_failure_def Let_def elim!: bind_run_InrE split: option.split_asm)
  then show ?thesis
    using info_offset [OF info] by auto
qed

lemma response_offset:
  assumes "handle_client_response_payload env t1 t2 msg st = Ok (outs, st')"
  shows "browser_proxy_sequence_offset st' = browser_proxy_sequence_offset st"
proof -
  obtain found st1 where info: "get_return_route_info env t1 t2 (remaining_route msg) st = Ok (found, st1)"
    using assms by (cases "get_return_route_info env t1 t2 (remaining_route msg) st")
      (auto simp: handle_client_response_payload_def)
  then have "st' = st1 \<or> st' = purge_stream_key (crs_stream_key (ecp_payload msg)) st1"
    using assms by (auto simp: handle_client_response_payload_def Let_def elim!: bind_run_InrE split: option.split_asm if_split_asm)
  then show ?thesis
    using info_offset [OF info] by auto
qed

lemma offset_stays:
  assumes "proxy_step env ev st = Ok (outs, st')" "browser_proxy_sequence_offset st"
  shows "browser_proxy_sequence_offset st'"
proof -
  obtain t1 t2 e where ev: "ev = (t1, t2, e)"
    by (cases ev)
  show ?thesis
  proof (cases e)
    case (FromDispatcher msg)
    with assms ev show ?thesis
      by (auto simp: handle_inbound_client_data_def elim!: bind_run_InrE split: if_split_asm prod.split_asm
          dest: normal_data_offset)
  next
    case (StreamShutdown msg)
    with assms ev show ?thesis
      by (auto simp: ps_handle_stream_shutdown_msg_def split: if_split_asm option.split_asm removed_stream_type.split_asm
          dest: normal_data_offset)
  qed (use assms ev in \<open>auto simp: handle_add_return_route_def handle_add_route_def ps_set_consuming_wallet_def
      elim!: bind_run_InrE dest: response_offset dns_offset\<close>)
qed

lemma connect_sets_offset:
  assumes "proxy_step env (t1, t2, FromDispatcher msg) st = Ok (outs, st')" "is_connect (pe_web env) (ibcd_data msg)"
  shows "browser_proxy_sequence_offset st'"
  using assms by (auto simp: handle_inbound_client_data_def elim!: bind_run_InrE split: prod.split_asm)

lemma proxy_run_append:
  "proxy_run env (xs @ ys) st = bind_run (proxy_run env xs st) (\<lambda>(outs, st').
     bind_run (proxy_run env ys st') (\<lambda>(outs', st''). Ok (outs @ outs', st'')))"
  by (induction xs arbitrary: st) (auto simp: bind_run_def split: sum.split)

lemma offset_after_connect:
  assumes "proxy_run env history st = Ok (trace, st')" "(t1, t2, FromDispatcher msg) \<in> set history"
    and "is_connect (pe_web env) (ibcd_data msg)"
  shows "browser_proxy_sequence_offset st'"
proof -
  obtain xs ys where "history = xs @ (t1, t2, FromDispatcher msg) # ys"
    using assms(2) by (meson split_list)
  then obtain outs1 st1 outs2 st2 outs3 where "proxy_step env (t1, t2, FromDispatcher msg) st1 = Ok (outs2, st2)"
      and run: "proxy_run env ys st2 = Ok (outs3, st')"
    using assms(1) by (auto simp: proxy_run_append elim!: bind_run_InrE split: prod.split_asm)
  then have "browser_proxy_sequence_offset st2"
    using connect_sets_offset assms(3) by blast
  with run show ?thesis
    by (rule proxy_run_invariant) (rule offset_stays)
qed

definition packet_of :: "transmit_data_msg \<Rightarrow> sequenced_packet" where
  "packet_of td = packet_from_transmit_data (td_data td) (td_sequence_number td) (td_last_data td)"

definition responses :: "(instant \<times> instant \<times> client_response_payload expired_cores_package) list \<Rightarrow> (instant \<times> instant \<times> proxy_event) list" where
  "responses replies = map (\<lambda>(t1, t2, reply). (t1, t2, ResponseFromHopper reply)) replies"

definition number_of :: "client_response_payload expired_cores_package \<Rightarrow> u64" where
  "number_of reply = sequence_number (crs_sequenced_packet (ecp_payload reply))"

lemma response_shifted:
  assumes "handle_client_response_payload env t1 t2 reply st = Ok (outs, st')" "browser_proxy_sequence_offset st"
    and "PsToDispatcher td \<in> set outs"
  shows "td_sequence_number td = Some (number_of reply + 1)"
  using assms(1)
proof (cases rule: response_cases)
  case (relayed info st1 addr reports)
  with assms(2,3) reports_not_dispatched [OF relayed(3)] info_offset [OF relayed(1)] show ?thesis
    by (auto simp: number_of_def)
qed (use assms(3) in simp)

lemma responses_shifted:
  assumes "proxy_run env (responses replies) st = Ok (trace, st')" "browser_proxy_sequence_offset st"
    and "PsToDispatcher td \<in> \<Union> (set ` set trace)"
  shows "\<exists>(t1, t2, reply) \<in> set replies. td_sequence_number td = Some (number_of reply + 1)"
  using assms
proof (induction replies arbitrary: st trace)
  case (Cons x replies)
  obtain t1 t2 reply where x: "x = (t1, t2, reply)"
    by (cases x)
  then obtain outs st1 rest where step: "handle_client_response_payload env t1 t2 reply st = Ok (outs, st1)"
      "proxy_run env (responses replies) st1 = Ok (rest, st')" "trace = outs # rest"
    using Cons.prems(1) by (auto simp: responses_def elim!: bind_run_InrE split: prod.split_asm)
  show ?case
  proof (cases "PsToDispatcher td \<in> set outs")
    case True
    with response_shifted [OF step(1) Cons.prems(2)] x show ?thesis
      by auto
  next
    case False
    then have "\<exists>(t1, t2, reply) \<in> set replies. td_sequence_number td = Some (number_of reply + 1)"
      using Cons.prems(2,3) step response_offset [OF step(1)] by (intro Cons.IH [OF step(2)]) auto
    then show ?thesis
      by auto
  qed
qed (simp add: responses_def)

text \<open>C37. After one CONNECT request of any browser, clients that then open a plain stream get no
  answer: whatever responses the proxy server relays from then on, they leave it with sequence
  numbers of at least one, and the writer of a new stream, which waits for number zero, writes
  nothing of them to the socket, however long it runs. The offset is right only for the stream of
  that browser, on which the answer to CONNECT has taken number zero.\<close>

theorem connect_starves_other_streams:
  assumes "proxy_run env history st0 = Ok (trace0, st)" "(c1, c2, FromDispatcher msg) \<in> set history"
    and "is_connect (pe_web env) (ibcd_data msg)"
    and "proxy_run env (responses replies) st = Ok (trace, st')"
    and "\<forall>(t1, t2, reply) \<in> set replies. number_of reply + 1 \<noteq> 0"
    and "packets rx \<subseteq> {packet_of td | td. PsToDispatcher td \<in> \<Union> (set ` set trace)}"
    and "accepted stream = []" "length rx < 2 ^ 64" "ChannelError \<notin> set rx"
  shows "\<exists>r w. run_sorted n (sorted_new stream rx) = Ok (r, w) \<and> accepted (sws_stream w) = []"
proof -
  have "browser_proxy_sequence_offset st"
    by (rule offset_after_connect [OF assms(1-3)])
  note shifted = responses_shifted [OF assms(4) this]
  have nonzero: "sequence_number p \<noteq> 0" if mem: "p \<in> packets rx" for p
  proof -
    obtain td where "p = packet_of td" "PsToDispatcher td \<in> \<Union> (set ` set trace)"
      using mem assms(6) by blast
    then show ?thesis
      using shifted assms(5) by (fastforce simp: packet_of_def packet_from_transmit_data_def new_packet_def)
  qed
  then have "0 \<notin> sequence_number ` packets rx"
    by force
  then show ?thesis
    by (rule sorted_without_first [OF assms(7-9)])
qed

definition demo_connect :: inbound_client_data where
  "demo_connect = \<lparr> ibcd_peer_addr = \<lparr> ip = V4 127 0 0 1, port = 6000 \<rparr>, reception_port = Some 80, ibcd_last_data = False,
     is_clandestine = False, ibcd_sequence_number = Some 0, ibcd_data = ascii ''CONNECT'' \<rparr>"

lemma demo_connect_handled:
  "\<exists>outs. handle_inbound_client_data demo_proxy_env demo_connect demo_proxy =
     Ok (outs, demo_proxy\<lparr> browser_proxy_sequence_offset := True \<rparr>)"
  by (simp add: handle_inbound_client_data_def tls_connect_def demo_connect_def demo_defs is_connect_def ascii_def out_subs_def
      http_find_host_def find_url_host_def find_header_host_def index_of_find_sub CRLF_def)

theorem connect_starves_other_streams_witness:
  "\<exists>trace0 st trace st' td r w.
    proxy_run demo_proxy_env [(0, 0, FromDispatcher demo_connect), (0, 0, FromDispatcher demo_data), (1, 1, AddReturnRoute demo_note)]
      demo_proxy = Ok (trace0, st) \<and>
    proxy_run demo_proxy_env (responses [(2, 2, demo_reply)]) st = Ok (trace, st') \<and> PsToDispatcher td \<in> \<Union> (set ` set trace) \<and>
    run_sorted 5 (sorted_new demo_socket [Received (packet_of td), ChannelClosed]) = Ok (r, w) \<and> accepted (sws_stream w) = []"
proof -
  let ?h = "[(0, 0, FromDispatcher demo_connect), (0, 0, FromDispatcher demo_data), (1, 1, AddReturnRoute demo_note)]"
  let ?p = "demo_proxy\<lparr> browser_proxy_sequence_offset := True \<rparr>"
  obtain m where m: "ttl_insert 1 1 77 demo_note (route_ids_to_return_routes demo_proxy) = Ok m"
    using ttl_insert_ok [OF demo_state(3)] by blast
  let ?st = "(opened demo_key (ibcd_peer_addr demo_data) ?p)\<lparr> route_ids_to_return_routes := m \<rparr>"
  obtain outs1 where c: "handle_inbound_client_data demo_proxy_env demo_connect demo_proxy = Ok (outs1, ?p)"
    using demo_connect_handled by blast
  obtain outs2 where d: "handle_inbound_client_data demo_proxy_env demo_data ?p = Ok (outs2, opened demo_key (ibcd_peer_addr demo_data) ?p)"
    using http_request_asks_for_route [of ?p demo_proxy_env demo_data 0 demo_key] demo_state demo_request_facts demo_keyed by simp
  have "arr_return_route_id demo_note = 77"
    by (simp add: demo_note_def)
  then obtain trace0 where run: "proxy_run demo_proxy_env ?h demo_proxy = Ok (trace0, ?st)"
    using m by (simp add: c d handle_add_return_route_def opened_def)
  obtain m' where "ttl_get 2 2 77 m = Ok (Some demo_note, m')"
    using ttl_insert_then_get [OF demo_state(3) order_refl m, of 2 2] by (auto simp: demo_state(4) RETURN_ROUTE_TTL_def)
  then have stream: "ps_bound ?st" "a_to_b (keys_and_addrs ?st) (crs_stream_key (ecp_payload demo_reply)) = Some (ibcd_peer_addr demo_data)"
      "ttl_get 2 2 77 (route_ids_to_return_routes ?st) = Ok (Some demo_note, m')"
    using demo_state(1) by (simp_all add: opened_def demo_request_facts(4))
  obtain hop rest where home: "shift (ce_route (pe_cores demo_proxy_env)) (pe_cryptde demo_proxy_env) (remaining_route demo_reply) = (Ok hop, rest)"
      "route_id (ce_route (pe_cores demo_proxy_env)) rest (pe_cryptde demo_proxy_env) = Ok 77"
    using demo_way_back by blast
  obtain reports td st' where "handle_client_response_payload demo_proxy_env 2 2 demo_reply ?st = Ok (reports @ [PsToDispatcher td], st')"
    using response_relayed [OF stream(1,2) home stream(3)] by blast
  then have reply: "proxy_run demo_proxy_env (responses [(2, 2, demo_reply)]) ?st = Ok ([reports @ [PsToDispatcher td]], st')"
      "PsToDispatcher td \<in> \<Union> (set ` set [reports @ [PsToDispatcher td]])"
    by (simp_all add: responses_def)
  have small: "\<forall>(t1, t2, reply) \<in> set [(2, 2, demo_reply)]. number_of reply + 1 \<noteq> 0"
    by (simp add: number_of_def demo_reply_def)
  have "is_connect (pe_web demo_proxy_env) (ibcd_data demo_connect)"
    by (simp add: demo_connect_def demo_defs is_connect_def ascii_def)
  with connect_starves_other_streams [OF run _ _ reply(1) small, of 0 0 demo_connect "[Received (packet_of td), ChannelClosed]" demo_socket 5]
    run reply show ?thesis
    by (fastforce simp: demo_socket_def)
qed

end
