(* ===== verification/DnsPacket.thy ===== *)
theory DnsPacket
  imports ProtocolPack
begin

text \<open>
  DNS messages in a buffer: \<open>entry_dns/packet_facade.rs\<close>. The facade reads and changes a message of
  \<open>pf_length\<close> bytes at the front of a larger buffer. Offsets are \<open>nat\<close>; reading outside the buffer
  panics, and a function that fails half-way leaves what it has already written in the buffer.
\<close>

section \<open>Bytes and words\<close>

text \<open>The macro \<open>try_opt!\<close>.\<close>

definition try_opt :: "'a option run \<Rightarrow> ('a \<Rightarrow> 'b option run) \<Rightarrow> 'b option run" where
  "try_opt m f = bind_run m (\<lambda>r. case r of None \<Rightarrow> Ok None | Some x \<Rightarrow> f x)"

definition pf_u16_from :: "bytes \<Rightarrow> nat \<Rightarrow> nat \<Rightarrow> u16 option run" where
  "pf_u16_from buf start buflen =
     (if buflen < start + 2 then Ok None
      else bind_run (index buf start) (\<lambda>high. bind_run (index buf (start + 1)) (\<lambda>low.
           Ok (Some (push_bit 8 (ucast high) + ucast low)))))"

definition pf_u16_to :: "u16 \<Rightarrow> bytes \<Rightarrow> nat \<Rightarrow> bool \<times> bytes" where
  "pf_u16_to value buf start =
     (if start + 2 > length buf then (False, buf)
      else (True, buf[start := ucast (drop_bit 8 value), start + 1 := ucast (value AND 0xFF)]))"

definition pf_u32_from :: "bytes \<Rightarrow> nat \<Rightarrow> nat \<Rightarrow> u32 option run" where
  "pf_u32_from buf start buflen =
     try_opt (pf_u16_from buf start buflen) (\<lambda>high_word.
     try_opt (pf_u16_from buf (start + 2) buflen) (\<lambda>low_word.
     Ok (Some (push_bit 16 (ucast high_word) OR ucast low_word))))"

definition pf_u32_to :: "u32 \<Rightarrow> bytes \<Rightarrow> nat \<Rightarrow> bool \<times> bytes" where
  "pf_u32_to value buf start =
     (let (_, buf1) = pf_u16_to (ucast (drop_bit 16 value)) buf start;
          (_, buf2) = pf_u16_to (ucast (value AND 0xFFFF)) buf1 (start + 2)
      in (True, buf2))"

section \<open>Names\<close>

function find_string_seq_end :: "bytes \<Rightarrow> nat \<Rightarrow> nat \<Rightarrow> nat option run" where
  "find_string_seq_end buf local_offset buflen =
     (if buflen < local_offset then Ok None
      else case index buf local_offset of
             Inl e \<Rightarrow> Inl e
           | Inr len \<Rightarrow>
               if len = 0 then Ok (Some (local_offset + 1))
               else find_string_seq_end buf (local_offset + unat len + 1) buflen)"
  by pat_completeness auto
termination
  by (relation "measure (\<lambda>(buf, off, buflen). Suc buflen - off)") auto

text \<open>The loop of \<open>extract_string_seq\<close>; \<open>result\<close> is the name read so far.\<close>

function extract_string_loop :: "bytes \<Rightarrow> nat \<Rightarrow> nat \<Rightarrow> string \<Rightarrow> (string \<times> nat) option run" where
  "extract_string_loop buf local_offset buflen result =
     (if buflen \<le> local_offset then Ok None
      else case index buf local_offset of
             Inl e \<Rightarrow> Inl e
           | Inr len \<Rightarrow>
               if len = 0 then Ok (Some (result, local_offset + 1))
               else let result1 = (if result \<noteq> [] then result @ ''.'' else result);
                        stop = local_offset + 1 + unat len
                    in if buflen < stop then Ok None
                       else case slice (local_offset + 1) stop buf of
                              Inl e \<Rightarrow> Inl e
                            | Inr label_bytes \<Rightarrow>
                                (case from_utf8 label_bytes of
                                   None \<Rightarrow> Ok None
                                 | Some s \<Rightarrow> extract_string_loop buf stop buflen (result1 @ s)))"
  by pat_completeness auto
termination
  by (relation "measure (\<lambda>(buf, off, buflen, result). buflen - off)") auto

declare find_string_seq_end.simps [simp del] extract_string_loop.simps [simp del]

definition extract_string_seq :: "bytes \<Rightarrow> nat \<Rightarrow> nat \<Rightarrow> (string \<times> nat) option run" where
  "extract_string_seq buf offset buflen = extract_string_loop buf offset buflen []"

text \<open>Bytes written one after the other from a position on, where they all fit.\<close>

definition overwrite :: "nat \<Rightarrow> bytes \<Rightarrow> bytes \<Rightarrow> bytes" where
  "overwrite start xs buf = take start buf @ xs @ drop (start + length xs) buf"

fun add_parts :: "string list \<Rightarrow> bytes \<Rightarrow> nat \<Rightarrow> nat option \<times> bytes" where
  "add_parts [] buf local_offset = (Some local_offset, buf)"
| "add_parts (part # parts) buf local_offset =
     (let b = ascii part
      in if local_offset + length b + 1 > length buf then (None, buf)
         else add_parts parts (overwrite local_offset (of_nat (length b) # b) buf) (local_offset + (1 + length b)))"

definition add_string_seq :: "bytes \<Rightarrow> nat \<Rightarrow> string \<Rightarrow> nat option \<times> bytes" where
  "add_string_seq buf offset s =
     (case (if s \<noteq> [] then add_parts (split_on CHR ''.'' s) buf offset else (Some offset, buf)) of
        (None, buf1) \<Rightarrow> (None, buf1)
      | (Some local_offset, buf1) \<Rightarrow>
          if length buf1 \<le> local_offset then (None, buf1)
          else (Some (local_offset + 1), buf1[local_offset := 0]))"

section \<open>Queries and resource records\<close>

record query =
  q_name :: string
  qtype :: u16
  qclass :: u16
  q_length :: nat

definition query_new :: "bytes \<Rightarrow> nat \<Rightarrow> nat \<Rightarrow> query option run" where
  "query_new buf offset len =
     try_opt (extract_string_seq buf offset len) (\<lambda>(name, name_end).
     try_opt (pf_u16_from buf name_end len) (\<lambda>qt.
     try_opt (pf_u16_from buf (name_end + 2) len) (\<lambda>qc.
     Ok (Some \<lparr> q_name = name, qtype = qt, qclass = qc, q_length = name_end + 4 - offset \<rparr>))))"

definition query_find_end :: "bytes \<Rightarrow> nat \<Rightarrow> nat \<Rightarrow> nat option run" where
  "query_find_end buf offset len =
     try_opt (find_string_seq_end buf offset len) (\<lambda>name_end.
     let query_end = name_end + 4
     in if len < query_end then Ok None else Ok (Some query_end))"

record resource_record =
  rr_name :: string
  rtype :: u16
  rclass :: u16
  time_to_live :: u32
  rdata :: bytes
  rr_length :: nat

definition resource_record_new :: "bytes \<Rightarrow> nat \<Rightarrow> nat \<Rightarrow> resource_record option run" where
  "resource_record_new buf offset buflen =
     try_opt (extract_string_seq buf offset buflen) (\<lambda>(name, name_end).
     try_opt (pf_u16_from buf name_end buflen) (\<lambda>rt.
     try_opt (pf_u16_from buf (name_end + 2) buflen) (\<lambda>rc.
     try_opt (pf_u32_from buf (name_end + 4) buflen) (\<lambda>ttl.
     try_opt (pf_u16_from buf (name_end + 8) buflen) (\<lambda>rdata_length.
     let rdata_begin = name_end + 10; rdata_end = rdata_begin + unat rdata_length; len = rdata_end - offset
     in if buflen < offset + len then Ok None
        else bind_run (slice rdata_begin rdata_end buf) (\<lambda>dat.
             Ok (Some \<lparr> rr_name = name, rtype = rt, rclass = rc, time_to_live = ttl, rdata = dat, rr_length = len \<rparr>)))))))"

definition record_find_end :: "bytes \<Rightarrow> nat \<Rightarrow> nat \<Rightarrow> nat option run" where
  "record_find_end buf offset len =
     try_opt (find_string_seq_end buf offset len) (\<lambda>name_end.
     try_opt (pf_u16_from buf (name_end + 8) len) (\<lambda>rdata_length.
     let record_end = name_end + 10 + unat rdata_length
     in if len < record_end then Ok None else Ok (Some record_end)))"

section \<open>The facade\<close>

record packet_facade =
  pf_buf :: bytes
  pf_length :: nat

definition facade_new :: "bytes \<Rightarrow> nat \<Rightarrow> packet_facade" where
  "facade_new buf len = \<lparr> pf_buf = buf, pf_length = len \<rparr>"

definition get_transaction_id :: "packet_facade \<Rightarrow> u16 option run" where
  "get_transaction_id self = pf_u16_from (pf_buf self) 0 (pf_length self)"

definition set_transaction_id :: "u16 \<Rightarrow> packet_facade \<Rightarrow> bool \<times> packet_facade" where
  "set_transaction_id v self = (let (ok, b) = pf_u16_to v (pf_buf self) 0 in (ok, self\<lparr> pf_buf := b \<rparr>))"

definition req_len_opt :: "packet_facade \<Rightarrow> nat \<Rightarrow> 'a \<Rightarrow> 'a option" where
  "req_len_opt self len x = (if pf_length self < len \<or> length (pf_buf self) < len then None else Some x)"

text \<open>The setters of single bits: the buffer must reach the byte, whatever the length of the message.\<close>

definition set_byte :: "nat \<Rightarrow> (u8 \<Rightarrow> u8) \<Rightarrow> packet_facade \<Rightarrow> bool \<times> packet_facade" where
  "set_byte i f self =
     (if length (pf_buf self) < i + 1 then (False, self)
      else (True, self\<lparr> pf_buf := (pf_buf self)[i := f (pf_buf self ! i)] \<rparr>))"

definition is_query :: "packet_facade \<Rightarrow> bool option" where
  "is_query self = req_len_opt self 3 (pf_buf self ! 2 AND 0x80 = 0)"

definition set_query :: "bool \<Rightarrow> packet_facade \<Rightarrow> bool \<times> packet_facade" where
  "set_query v = set_byte 2 (\<lambda>b. (b AND 0x7F) OR (if v then 0 else 0x80))"

definition get_opcode :: "packet_facade \<Rightarrow> u8 option" where
  "get_opcode self = req_len_opt self 3 (drop_bit 3 (pf_buf self ! 2 AND 0x78))"

definition set_opcode :: "u8 \<Rightarrow> packet_facade \<Rightarrow> bool \<times> packet_facade" where
  "set_opcode v = set_byte 2 (\<lambda>b. (b AND 0x87) OR push_bit 3 v)"

definition is_authoritative_answer :: "packet_facade \<Rightarrow> bool option" where
  "is_authoritative_answer self = req_len_opt self 3 (0 < pf_buf self ! 2 AND 0x04)"

definition set_authoritative_answer :: "bool \<Rightarrow> packet_facade \<Rightarrow> bool \<times> packet_facade" where
  "set_authoritative_answer v = set_byte 2 (\<lambda>b. (b AND 0xFB) OR (if v then 0x04 else 0))"

definition is_truncated :: "packet_facade \<Rightarrow> bool option" where
  "is_truncated self = req_len_opt self 3 (0 < pf_buf self ! 2 AND 0x02)"

definition set_truncated :: "bool \<Rightarrow> packet_facade \<Rightarrow> bool \<times> packet_facade" where
  "set_truncated v = set_byte 2 (\<lambda>b. (b AND 0xFD) OR (if v then 0x02 else 0))"

definition is_recursion_desired :: "packet_facade \<Rightarrow> bool option" where
  "is_recursion_desired self = req_len_opt self 3 (0 < pf_buf self ! 2 AND 0x01)"

definition set_recursion_desired :: "bool \<Rightarrow> packet_facade \<Rightarrow> bool \<times> packet_facade" where
  "set_recursion_desired v = set_byte 2 (\<lambda>b. (b AND 0xFE) OR (if v then 0x01 else 0))"

definition is_recursion_available :: "packet_facade \<Rightarrow> bool option" where
  "is_recursion_available self = req_len_opt self 4 (0 < pf_buf self ! 3 AND 0x80)"

definition set_recursion_available :: "bool \<Rightarrow> packet_facade \<Rightarrow> bool \<times> packet_facade" where
  "set_recursion_available v = set_byte 3 (\<lambda>b. (b AND 0x7F) OR (if v then 0x80 else 0))"

definition get_z :: "packet_facade \<Rightarrow> bool option" where
  "get_z self = req_len_opt self 4 (0 < pf_buf self ! 3 AND 0x40)"

definition set_z :: "bool \<Rightarrow> packet_facade \<Rightarrow> bool \<times> packet_facade" where
  "set_z v = set_byte 3 (\<lambda>b. (b AND 0xBF) OR (if v then 0x40 else 0))"

definition is_authenticated_data :: "packet_facade \<Rightarrow> bool option" where
  "is_authenticated_data self = req_len_opt self 4 (0 < pf_buf self ! 3 AND 0x20)"

definition set_authenticated_data :: "bool \<Rightarrow> packet_facade \<Rightarrow> bool \<times> packet_facade" where
  "set_authenticated_data v = set_byte 3 (\<lambda>b. (b AND 0xDF) OR (if v then 0x20 else 0))"

definition is_checking_disabled :: "packet_facade \<Rightarrow> bool option" where
  "is_checking_disabled self = req_len_opt self 4 (0 < pf_buf self ! 3 AND 0x10)"

definition set_checking_disabled :: "bool \<Rightarrow> packet_facade \<Rightarrow> bool \<times> packet_facade" where
  "set_checking_disabled v = set_byte 3 (\<lambda>b. (b AND 0xEF) OR (if v then 0x10 else 0))"

definition get_rcode :: "packet_facade \<Rightarrow> u8 option" where
  "get_rcode self = req_len_opt self 4 (pf_buf self ! 3 AND 0x0F)"

definition set_rcode :: "u8 \<Rightarrow> packet_facade \<Rightarrow> bool \<times> packet_facade" where
  "set_rcode v = set_byte 3 (\<lambda>b. (b AND 0xF0) OR (v AND 0x0F))"

section \<open>Sections of a message\<close>

text \<open>The loops over the counts; the first argument is the number of rounds left.\<close>

fun queries_loop :: "nat \<Rightarrow> bytes \<Rightarrow> nat \<Rightarrow> nat \<Rightarrow> query list option run" where
  "queries_loop 0 buf offset len = Ok (Some [])"
| "queries_loop (Suc n) buf offset len =
     try_opt (query_new buf offset len) (\<lambda>q.
     try_opt (queries_loop n buf (offset + q_length q) len) (\<lambda>qs. Ok (Some (q # qs))))"

fun ends_loop :: "(bytes \<Rightarrow> nat \<Rightarrow> nat \<Rightarrow> nat option run) \<Rightarrow> nat \<Rightarrow> bytes \<Rightarrow> nat \<Rightarrow> nat \<Rightarrow> nat option run" where
  "ends_loop find_end 0 buf offset len = Ok (Some offset)"
| "ends_loop find_end (Suc n) buf offset len =
     try_opt (find_end buf offset len) (\<lambda>next. ends_loop find_end n buf next len)"

fun records_loop :: "nat \<Rightarrow> bytes \<Rightarrow> nat \<Rightarrow> nat \<Rightarrow> resource_record list option run" where
  "records_loop 0 buf offset len = Ok (Some [])"
| "records_loop (Suc n) buf offset len =
     try_opt (resource_record_new buf offset len) (\<lambda>r.
     try_opt (records_loop n buf (offset + rr_length r) len) (\<lambda>rs. Ok (Some (r # rs))))"

definition count_at :: "nat \<Rightarrow> packet_facade \<Rightarrow> u16 option run" where
  "count_at position self = pf_u16_from (pf_buf self) position (pf_length self)"

definition get_queries :: "packet_facade \<Rightarrow> query list option run" where
  "get_queries self =
     try_opt (count_at 4 self) (\<lambda>n. queries_loop (unat n) (pf_buf self) 12 (pf_length self))"

definition find_queries_end :: "packet_facade \<Rightarrow> nat option run" where
  "find_queries_end self =
     try_opt (count_at 4 self) (\<lambda>n. ends_loop query_find_end (unat n) (pf_buf self) 12 (pf_length self))"

definition get_answers :: "packet_facade \<Rightarrow> resource_record list option run" where
  "get_answers self =
     try_opt (find_queries_end self) (\<lambda>offset.
     try_opt (count_at 6 self) (\<lambda>n. records_loop (unat n) (pf_buf self) offset (pf_length self)))"

definition find_answers_end :: "packet_facade \<Rightarrow> nat option run" where
  "find_answers_end self =
     try_opt (count_at 6 self) (\<lambda>n.
     try_opt (find_queries_end self) (\<lambda>offset. ends_loop record_find_end (unat n) (pf_buf self) offset (pf_length self)))"

definition get_authorities :: "packet_facade \<Rightarrow> resource_record list option run" where
  "get_authorities self =
     try_opt (find_answers_end self) (\<lambda>offset.
     try_opt (count_at 8 self) (\<lambda>n. records_loop (unat n) (pf_buf self) offset (pf_length self)))"

definition find_authorities_end :: "packet_facade \<Rightarrow> nat option run" where
  "find_authorities_end self =
     try_opt (count_at 8 self) (\<lambda>n.
     try_opt (find_answers_end self) (\<lambda>offset. ends_loop record_find_end (unat n) (pf_buf self) offset (pf_length self)))"

definition get_additionals :: "packet_facade \<Rightarrow> resource_record list option run" where
  "get_additionals self =
     try_opt (find_authorities_end self) (\<lambda>offset.
     try_opt (count_at 10 self) (\<lambda>n. records_loop (unat n) (pf_buf self) offset (pf_length self)))"

definition find_additionals_end :: "packet_facade \<Rightarrow> nat option run" where
  "find_additionals_end self =
     try_opt (count_at 10 self) (\<lambda>n.
     try_opt (find_authorities_end self) (\<lambda>offset. ends_loop record_find_end (unat n) (pf_buf self) offset (pf_length self)))"

definition establish_high_water :: "nat \<Rightarrow> packet_facade \<Rightarrow> packet_facade" where
  "establish_high_water candidate self = self\<lparr> pf_length := max (pf_length self) candidate \<rparr>"

definition write_resource_record ::
    "nat \<Rightarrow> string \<Rightarrow> u16 \<Rightarrow> u16 \<Rightarrow> u32 \<Rightarrow> bytes \<Rightarrow> packet_facade \<Rightarrow> nat option \<times> packet_facade" where
  "write_resource_record start name resource_type resource_class ttl dat self =
     (case add_string_seq (pf_buf self) start name of
        (None, buf1) \<Rightarrow> (None, self\<lparr> pf_buf := buf1 \<rparr>)
      | (Some string_end, buf1) \<Rightarrow>
          (let (ok2, buf2) = pf_u16_to resource_type buf1 string_end
           in if \<not> ok2 then (None, self\<lparr> pf_buf := buf2 \<rparr>)
         else let (ok3, buf3) = pf_u16_to resource_class buf2 (string_end + 2)
           in if \<not> ok3 then (None, self\<lparr> pf_buf := buf3 \<rparr>)
         else let (ok4, buf4) = pf_u32_to ttl buf3 (string_end + 4)
           in if \<not> ok4 then (None, self\<lparr> pf_buf := buf4 \<rparr>)
         else let (ok5, buf5) = pf_u16_to (of_nat (length dat)) buf4 (string_end + 8)
           in if \<not> ok5 then (None, self\<lparr> pf_buf := buf5 \<rparr>)
         else let rdata_begin = string_end + 10; rdata_end = rdata_begin + length dat
           in if length buf5 < rdata_end then (None, self\<lparr> pf_buf := buf5 \<rparr>)
         else (Some (rdata_end - start),
               establish_high_water rdata_end (self\<lparr> pf_buf := overwrite rdata_begin dat buf5 \<rparr>))))"

text \<open>The end of the four functions that add to a section: the count of the section goes up by one.\<close>

definition bump_count :: "nat \<Rightarrow> packet_facade \<Rightarrow> (bool \<times> packet_facade) run" where
  "bump_count position self =
     bind_run (count_at position self) (\<lambda>c. case c of
       None \<Rightarrow> Ok (False, self)
     | Some n \<Rightarrow> (let (_, b) = pf_u16_to (n + 1) (pf_buf self) position in Ok (True, self\<lparr> pf_buf := b \<rparr>)))"

definition add_query :: "string \<Rightarrow> u16 \<Rightarrow> u16 \<Rightarrow> packet_facade \<Rightarrow> (bool \<times> packet_facade) run" where
  "add_query name query_type query_class self =
     bind_run (find_queries_end self) (\<lambda>r. case r of
       None \<Rightarrow> Ok (False, self)
     | Some begin_offset \<Rightarrow>
         (case add_string_seq (pf_buf self) begin_offset name of
            (None, buf1) \<Rightarrow> Ok (False, self\<lparr> pf_buf := buf1 \<rparr>)
          | (Some offset, buf1) \<Rightarrow>
              (let (ok2, buf2) = pf_u16_to query_type buf1 offset
               in if \<not> ok2 then Ok (False, self\<lparr> pf_buf := buf2 \<rparr>)
             else let (ok3, buf3) = pf_u16_to query_class buf2 (offset + 2)
               in if \<not> ok3 then Ok (False, self\<lparr> pf_buf := buf3 \<rparr>)
             else bump_count 4 (establish_high_water (offset + 4) (self\<lparr> pf_buf := buf3 \<rparr>)))))"

definition add_record ::
    "(packet_facade \<Rightarrow> nat option run) \<Rightarrow> nat \<Rightarrow> string \<Rightarrow> u16 \<Rightarrow> u16 \<Rightarrow> u32 \<Rightarrow> bytes \<Rightarrow> packet_facade \<Rightarrow>
       (bool \<times> packet_facade) run" where
  "add_record find_section_end position name resource_type resource_class ttl dat self =
     bind_run (find_section_end self) (\<lambda>r. case r of
       None \<Rightarrow> Ok (False, self)
     | Some begin_offset \<Rightarrow>
         (case write_resource_record begin_offset name resource_type resource_class ttl dat self of
            (None, self1) \<Rightarrow> Ok (False, self1)
          | (Some _, self1) \<Rightarrow> bump_count position self1))"

definition add_answer :: "string \<Rightarrow> u16 \<Rightarrow> u16 \<Rightarrow> u32 \<Rightarrow> bytes \<Rightarrow> packet_facade \<Rightarrow> (bool \<times> packet_facade) run" where
  "add_answer = add_record find_answers_end 6"

definition add_authority :: "string \<Rightarrow> u16 \<Rightarrow> u16 \<Rightarrow> u32 \<Rightarrow> bytes \<Rightarrow> packet_facade \<Rightarrow> (bool \<times> packet_facade) run" where
  "add_authority = add_record find_authorities_end 8"

definition add_additional :: "string \<Rightarrow> u16 \<Rightarrow> u16 \<Rightarrow> u32 \<Rightarrow> bytes \<Rightarrow> packet_facade \<Rightarrow> (bool \<times> packet_facade) run" where
  "add_additional = add_record find_additionals_end 10"

definition pf_clear :: "packet_facade \<Rightarrow> packet_facade" where
  "pf_clear self =
     (let (_, b1) = pf_u16_to 0 (pf_buf self) 4; (_, b2) = pf_u16_to 0 b1 6;
          (_, b3) = pf_u16_to 0 b2 8; (_, b4) = pf_u16_to 0 b3 10
      in self\<lparr> pf_buf := b4, pf_length := 12 \<rparr>)"

end
