(* ===== verification/DnsCodec.thy ===== *)
theory DnsCodec
  imports DnsPacket
begin

text \<open>
  What the facade of a DNS message reads and writes, against the layout of the DNS standard: names as
  labels with their lengths, queries, resource records. Reading gives back what is laid out in the
  buffer, writing lays it out and touches nothing before it.
\<close>

section \<open>The layout\<close>

definition enc_u16 :: "u16 \<Rightarrow> bytes" where
  "enc_u16 v = [ucast (drop_bit 8 v), ucast (v AND 0xFF)]"

definition enc_u32 :: "u32 \<Rightarrow> bytes" where
  "enc_u32 v = enc_u16 (ucast (drop_bit 16 v)) @ enc_u16 (ucast (v AND 0xFFFF))"

fun enc_labels :: "bytes list \<Rightarrow> bytes" where
  "enc_labels [] = []"
| "enc_labels (l # ls) = of_nat (length l) # l @ enc_labels ls"

definition enc_name :: "bytes list \<Rightarrow> bytes" where
  "enc_name ls = enc_labels ls @ [0]"

definition name_of :: "bytes list \<Rightarrow> string" where
  "name_of ls = join_with CHR ''.'' (map text_of ls)"

definition label_ok :: "bytes \<Rightarrow> bool" where
  "label_ok l \<longleftrightarrow> l \<noteq> [] \<and> length l < 256 \<and> valid_utf8 l \<and> CHR ''.'' \<notin> set (text_of l)"

definition enc_query :: "bytes list \<times> u16 \<times> u16 \<Rightarrow> bytes" where
  "enc_query q = (case q of (ls, qt, qc) \<Rightarrow> enc_name ls @ enc_u16 qt @ enc_u16 qc)"

definition query_of :: "bytes list \<times> u16 \<times> u16 \<Rightarrow> query" where
  "query_of q = (case q of (ls, qt, qc) \<Rightarrow>
     \<lparr> q_name = name_of ls, qtype = qt, qclass = qc, q_length = length (enc_query q) \<rparr>)"

definition enc_record :: "bytes list \<times> u16 \<times> u16 \<times> u32 \<times> bytes \<Rightarrow> bytes" where
  "enc_record r = (case r of (ls, rt, rc, ttl, dat) \<Rightarrow>
     enc_name ls @ enc_u16 rt @ enc_u16 rc @ enc_u32 ttl @ enc_u16 (of_nat (length dat)) @ dat)"

definition record_of :: "bytes list \<times> u16 \<times> u16 \<times> u32 \<times> bytes \<Rightarrow> resource_record" where
  "record_of r = (case r of (ls, rt, rc, ttl, dat) \<Rightarrow>
     \<lparr> rr_name = name_of ls, rtype = rt, rclass = rc, time_to_live = ttl, rdata = dat, rr_length = length (enc_record r) \<rparr>)"

section \<open>Words\<close>

lemma try_opt_simps [simp]:
  "try_opt (Inl e) f = Inl e" "try_opt (Inr None) f = Inr None" "try_opt (Inr (Some x)) f = f x"
  by (simp_all add: try_opt_def)

lemma length_enc [simp]: "length (enc_u16 v) = 2" "length (enc_u32 w) = 4"
  by (simp_all add: enc_u16_def enc_u32_def)

lemma index_append [simp]: "index (pre @ x # post) (length pre) = Ok x"
  by (simp add: index_def)

lemma u16_split: "push_bit 8 (ucast (ucast (drop_bit 8 v) :: u8)) + ucast (ucast (v AND 0xFF) :: u8) = (v :: u16)"
proof -
  have "v AND 0xFF = take_bit 8 v"
    by (simp add: take_bit_eq_mask mask_eq_exp_minus_1)
  then have low: "ucast (ucast (v AND 0xFF) :: u8) = take_bit 8 v"
    by (auto intro!: bit_eqI simp: bit_simps)
  have high: "push_bit 8 (ucast (ucast (drop_bit 8 v) :: u8)) = push_bit 8 (drop_bit 8 v)"
    by (rule bit_eqI) (auto simp: bit_simps)
  show ?thesis
    by (simp only: low high) (metis add.commute bits_ident)
qed

lemma u32_split:
  "push_bit 16 (ucast (ucast (drop_bit 16 v) :: u16)) OR ucast (ucast (v AND 0xFFFF) :: u16) = (v :: u32)"
proof -
  have "v AND 0xFFFF = take_bit 16 v"
    by (simp add: take_bit_eq_mask mask_eq_exp_minus_1)
  then show ?thesis
    by (auto intro!: bit_eqI simp: bit_simps)
qed

lemma u16_from_enc:
  "length pre + 2 \<le> n \<Longrightarrow> pf_u16_from (pre @ enc_u16 v @ post) (length pre) n = Ok (Some v)"
  by (simp add: pf_u16_from_def enc_u16_def index_def nth_append u16_split)

lemma u32_from_enc:
  assumes "length pre + 4 \<le> n"
  shows "pf_u32_from (pre @ enc_u32 v @ post) (length pre) n = Ok (Some v)"
proof -
  have "pf_u16_from (pre @ enc_u16 (ucast (drop_bit 16 v)) @ enc_u16 (ucast (v AND 0xFFFF)) @ post) (length pre) n =
      Ok (Some (ucast (drop_bit 16 v)))"
    using assms by (intro u16_from_enc) simp
  moreover have "pf_u16_from ((pre @ enc_u16 (ucast (drop_bit 16 v))) @ enc_u16 (ucast (v AND 0xFFFF)) @ post)
      (length (pre @ enc_u16 (ucast (drop_bit 16 v)))) n = Ok (Some (ucast (v AND 0xFFFF)))"
    using assms by (intro u16_from_enc) simp
  ultimately show ?thesis
    by (simp add: pf_u32_from_def enc_u32_def u32_split)
qed

lemma u16_to_enc:
  "2 \<le> length post \<Longrightarrow> pf_u16_to v (pre @ post) (length pre) = (True, pre @ enc_u16 v @ drop 2 post)"
  by (cases post; cases "tl post") (simp_all add: pf_u16_to_def enc_u16_def list_update_append)

lemma u32_to_enc:
  assumes "4 \<le> length post"
  shows "pf_u32_to v (pre @ post) (length pre) = (True, pre @ enc_u32 v @ drop 4 post)"
proof -
  have "pf_u16_to (ucast (drop_bit 16 v)) (pre @ post) (length pre) =
      (True, (pre @ enc_u16 (ucast (drop_bit 16 v))) @ drop 2 post)"
    using assms by (simp add: u16_to_enc)
  moreover have "pf_u16_to (ucast (v AND 0xFFFF)) ((pre @ enc_u16 (ucast (drop_bit 16 v))) @ drop 2 post)
      (length (pre @ enc_u16 (ucast (drop_bit 16 v)))) =
      (True, (pre @ enc_u16 (ucast (drop_bit 16 v))) @ enc_u16 (ucast (v AND 0xFFFF)) @ drop 2 (drop 2 post))"
    using assms by (intro u16_to_enc) simp
  ultimately show ?thesis
    by (simp add: pf_u32_to_def enc_u32_def)
qed

section \<open>Names\<close>

lemma text_of_Nil [simp]: "text_of l = [] \<longleftrightarrow> l = []"
  by (simp add: text_of_def)

declare ascii_text_of [simp]

lemma label_byte: "0 < length l \<Longrightarrow> length l < 256 \<Longrightarrow> (of_nat (length l) :: u8) \<noteq> 0 \<and> unat (of_nat (length l) :: u8) = length l"
  by (auto simp: unat_of_nat take_bit_nat_eq_self word_of_nat_eq_0_iff dvd_imp_le)

lemma length_enc_name [simp]: "length (enc_name ls) = Suc (length (enc_labels ls))"
  by (simp add: enc_name_def)

lemma find_end_name:
  "list_all label_ok ls \<Longrightarrow> length pre + length (enc_labels ls) \<le> n \<Longrightarrow>
     find_string_seq_end (pre @ enc_name ls @ post) (length pre) n = Ok (Some (length pre + length (enc_name ls)))"
proof (induction ls arbitrary: pre)
  case Nil
  then show ?case
    by (simp add: find_string_seq_end.simps enc_name_def)
next
  case (Cons l ls)
  let ?pre = "pre @ of_nat (length l) # l"
  have l: "(of_nat (length l) :: u8) \<noteq> 0" "unat (of_nat (length l) :: u8) = length l"
    using Cons.prems(1) label_byte [of l] by (auto simp: label_ok_def)
  have "find_string_seq_end (?pre @ enc_name ls @ post) (length ?pre) n = Ok (Some (length ?pre + length (enc_name ls)))"
    using Cons by (intro Cons.IH) auto
  with l Cons.prems(2) show ?case
    by (subst find_string_seq_end.simps) (simp add: enc_name_def)
qed

fun grown :: "string \<Rightarrow> bytes list \<Rightarrow> string" where
  "grown result [] = result"
| "grown result (l # ls) = grown ((if result \<noteq> [] then result @ ''.'' else result) @ text_of l) ls"

lemma grown_append: "result \<noteq> [] \<Longrightarrow> grown result ls = result @ (if ls = [] then [] else CHR ''.'' # name_of ls)"
proof (induction ls arbitrary: result)
  case (Cons l ls)
  have "grown (result @ ''.'' @ text_of l) ls =
      (result @ ''.'' @ text_of l) @ (if ls = [] then [] else CHR ''.'' # name_of ls)"
    using Cons.prems by (intro Cons.IH) simp
  with Cons.prems show ?case
    by (cases ls) (simp_all add: name_of_def)
qed simp

lemma grown_name: "list_all label_ok ls \<Longrightarrow> grown [] ls = name_of ls"
proof (cases ls)
  case (Cons l ls')
  assume "list_all label_ok ls"
  with Cons have "grown [] ls = text_of l @ (if ls' = [] then [] else CHR ''.'' # name_of ls')"
    by (simp add: grown_append label_ok_def)
  with Cons show ?thesis
    by (cases ls') (simp_all add: name_of_def)
qed (simp add: name_of_def)

lemma extract_loop_name:
  "list_all label_ok ls \<Longrightarrow> length pre + length (enc_name ls) \<le> n \<Longrightarrow>
     extract_string_loop (pre @ enc_name ls @ post) (length pre) n result =
       Ok (Some (grown result ls, length pre + length (enc_name ls)))"
proof (induction ls arbitrary: pre result)
  case Nil
  then show ?case
    by (simp add: extract_string_loop.simps enc_name_def)
next
  case (Cons l ls)
  let ?pre = "pre @ of_nat (length l) # l"
  have l: "(of_nat (length l) :: u8) \<noteq> 0" "unat (of_nat (length l) :: u8) = length l" "valid_utf8 l"
    using Cons.prems(1) label_byte [of l] by (auto simp: label_ok_def)
  have "extract_string_loop (?pre @ enc_name ls @ post) (length ?pre) n r =
      Ok (Some (grown r ls, length ?pre + length (enc_name ls)))" for r
    using Cons by (intro Cons.IH) auto
  with l Cons.prems(2) show ?case
    by (subst extract_string_loop.simps) (simp add: enc_name_def slice_def from_utf8_def Let_def)
qed

lemma extract_name:
  "list_all label_ok ls \<Longrightarrow> length pre + length (enc_name ls) \<le> n \<Longrightarrow>
     extract_string_seq (pre @ enc_name ls @ post) (length pre) n = Ok (Some (name_of ls, length pre + length (enc_name ls)))"
  unfolding extract_string_seq_def by (subst extract_loop_name) (simp_all add: grown_name)

lemma overwrite_append: "length xs \<le> length post \<Longrightarrow> overwrite (length pre) xs (pre @ post) = pre @ xs @ drop (length xs) post"
  by (simp add: overwrite_def)

lemma overwrite_at: "i = length pre \<Longrightarrow> length xs \<le> length post \<Longrightarrow> overwrite i xs (pre @ post) = pre @ xs @ drop (length xs) post"
  by (simp add: overwrite_append)

lemma add_parts_labels:
  "length (enc_labels ls) \<le> length post \<Longrightarrow>
     add_parts (map text_of ls) (pre @ post) (length pre) =
       (Some (length pre + length (enc_labels ls)), pre @ enc_labels ls @ drop (length (enc_labels ls)) post)"
proof (induction ls arbitrary: pre post)
  case (Cons l ls)
  let ?x = "of_nat (length l) # l"
  have fits: "length ?x \<le> length post"
    using Cons.prems by simp
  have "add_parts (map text_of ls) ((pre @ ?x) @ drop (length ?x) post) (length (pre @ ?x)) =
      (Some (length (pre @ ?x) + length (enc_labels ls)),
       (pre @ ?x) @ enc_labels ls @ drop (length (enc_labels ls)) (drop (length ?x) post))"
    using Cons.prems by (intro Cons.IH) simp
  then show ?case
    using fits overwrite_append [OF fits, of pre] by (simp add: add.commute Let_def)
qed simp

lemma split_name:
  assumes "list_all label_ok ls" "ls \<noteq> []"
  shows "split_on CHR ''.'' (name_of ls) = map text_of ls" "name_of ls \<noteq> []"
proof -
  have "name_of ls \<noteq> []"
    using assms by (cases ls; cases "tl ls") (auto simp: name_of_def label_ok_def)
  then show "name_of ls \<noteq> []" .
  show "split_on CHR ''.'' (name_of ls) = map text_of ls"
    unfolding name_of_def using assms by (subst split_on_join) (auto simp: label_ok_def list_all_iff)
qed

lemma add_name:
  assumes "list_all label_ok ls" "length (enc_name ls) \<le> length post"
  shows "add_string_seq (pre @ post) (length pre) (name_of ls) =
    (Some (length pre + length (enc_name ls)), pre @ enc_name ls @ drop (length (enc_name ls)) post)"
proof -
  let ?n = "length (enc_labels ls)"
  have "(if name_of ls \<noteq> [] then add_parts (split_on CHR ''.'' (name_of ls)) (pre @ post) (length pre)
      else (Some (length pre), pre @ post)) = (Some (length pre + ?n), pre @ enc_labels ls @ drop ?n post)"
    using assms split_name [OF assms(1)] add_parts_labels [of ls post pre]
    by (cases "ls = []") (simp_all add: name_of_def)
  moreover have "(pre @ enc_labels ls @ drop ?n post)[length pre + ?n := 0] = pre @ enc_name ls @ drop (Suc ?n) post"
    using assms(2) by (cases "drop ?n post") (auto simp: enc_name_def list_update_append drop_Suc tl_drop [symmetric])
  ultimately show ?thesis
    using assms(2) by (simp add: add_string_seq_def)
qed

section \<open>Queries and records\<close>

lemma length_enc_query [simp]: "length (enc_query (ls, qt, qc)) = length (enc_name ls) + 4"
  by (simp add: enc_query_def)

lemma length_enc_record [simp]: "length (enc_record (ls, rt, rc, ttl, dat)) = length (enc_name ls) + 10 + length dat"
  by (simp add: enc_record_def)

lemma u16_from_at:
  "buf = pre @ enc_u16 v @ post \<Longrightarrow> i = length pre \<Longrightarrow> i + 2 \<le> n \<Longrightarrow> pf_u16_from buf i n = Ok (Some v)"
  using u16_from_enc by simp

lemma u32_from_at:
  "buf = pre @ enc_u32 v @ post \<Longrightarrow> i = length pre \<Longrightarrow> i + 4 \<le> n \<Longrightarrow> pf_u32_from buf i n = Ok (Some v)"
  using u32_from_enc by simp

lemma u16_to_at:
  "buf = pre @ post \<Longrightarrow> i = length pre \<Longrightarrow> 2 \<le> length post \<Longrightarrow> pf_u16_to v buf i = (True, pre @ enc_u16 v @ drop 2 post)"
  using u16_to_enc by simp

lemma u32_to_at:
  "buf = pre @ post \<Longrightarrow> i = length pre \<Longrightarrow> 4 \<le> length post \<Longrightarrow> pf_u32_to v buf i = (True, pre @ enc_u32 v @ drop 4 post)"
  using u32_to_enc by simp

lemma read_query:
  assumes "list_all label_ok (fst q)" "length pre + length (enc_query q) \<le> n"
  shows "query_new (pre @ enc_query q @ post) (length pre) n = Ok (Some (query_of q))"
    "query_find_end (pre @ enc_query q @ post) (length pre) n = Ok (Some (length pre + length (enc_query q)))"
proof -
  obtain ls qt qc where q: "q = (ls, qt, qc)"
    by (cases q)
  let ?buf = "pre @ enc_query q @ post" and ?e = "length pre + length (enc_name ls)"
  have buf: "?buf = pre @ enc_name ls @ (enc_u16 qt @ enc_u16 qc @ post)"
    by (simp add: q enc_query_def)
  have n: "?e + 4 \<le> n" and ls: "list_all label_ok ls"
    using assms by (simp_all add: q)
  have "extract_string_seq ?buf (length pre) n = Ok (Some (name_of ls, ?e))"
    unfolding buf by (rule extract_name [OF ls]) (use n in simp)
  moreover have "pf_u16_from ?buf ?e n = Ok (Some qt)"
    by (rule u16_from_at [of _ "pre @ enc_name ls" _ "enc_u16 qc @ post"]) (use buf n in simp_all)
  moreover have "pf_u16_from ?buf (?e + 2) n = Ok (Some qc)"
    by (rule u16_from_at [of _ "pre @ enc_name ls @ enc_u16 qt" _ post]) (use buf n in simp_all)
  ultimately show "query_new ?buf (length pre) n = Ok (Some (query_of q))"
    by (simp add: query_new_def query_of_def q)
  have "find_string_seq_end ?buf (length pre) n = Ok (Some ?e)"
    unfolding buf by (rule find_end_name [OF ls]) (use n in simp)
  then show "query_find_end ?buf (length pre) n = Ok (Some (length pre + length (enc_query q)))"
    using n by (simp add: query_find_end_def q)
qed

definition record_ok :: "bytes list \<times> u16 \<times> u16 \<times> u32 \<times> bytes \<Rightarrow> bool" where
  "record_ok r \<longleftrightarrow> (case r of (ls, _, _, _, dat) \<Rightarrow> list_all label_ok ls \<and> length dat < 65536)"

lemma unat_length_u16: "length dat < 65536 \<Longrightarrow> unat (of_nat (length dat) :: u16) = length dat"
  by (simp add: unat_of_nat take_bit_nat_eq_self)

lemma read_record:
  assumes "record_ok r" "length pre + length (enc_record r) \<le> n"
  shows "resource_record_new (pre @ enc_record r @ post) (length pre) n = Ok (Some (record_of r))"
    "record_find_end (pre @ enc_record r @ post) (length pre) n = Ok (Some (length pre + length (enc_record r)))"
proof -
  obtain ls rt rc ttl dat where r: "r = (ls, rt, rc, ttl, dat)"
    by (cases r)
  let ?buf = "pre @ enc_record r @ post" and ?e = "length pre + length (enc_name ls)"
    and ?n = "of_nat (length dat) :: u16"
  have buf: "?buf = pre @ enc_name ls @ (enc_u16 rt @ enc_u16 rc @ enc_u32 ttl @ enc_u16 ?n @ dat @ post)"
    by (simp add: r enc_record_def)
  have n: "?e + 10 + length dat \<le> n" and ls: "list_all label_ok ls" and dat: "unat ?n = length dat"
    using assms by (simp_all add: r record_ok_def unat_length_u16)
  have "extract_string_seq ?buf (length pre) n = Ok (Some (name_of ls, ?e))"
    unfolding buf by (rule extract_name [OF ls]) (use n in simp)
  moreover have "pf_u16_from ?buf ?e n = Ok (Some rt)"
    by (rule u16_from_at [of _ "pre @ enc_name ls" _ "enc_u16 rc @ enc_u32 ttl @ enc_u16 ?n @ dat @ post"])
      (use buf n in simp_all)
  moreover have "pf_u16_from ?buf (?e + 2) n = Ok (Some rc)"
    by (rule u16_from_at [of _ "pre @ enc_name ls @ enc_u16 rt" _ "enc_u32 ttl @ enc_u16 ?n @ dat @ post"])
      (use buf n in simp_all)
  moreover have "pf_u32_from ?buf (?e + 4) n = Ok (Some ttl)"
    by (rule u32_from_at [of _ "pre @ enc_name ls @ enc_u16 rt @ enc_u16 rc" _ "enc_u16 ?n @ dat @ post"])
      (use buf n in simp_all)
  moreover have len: "pf_u16_from ?buf (?e + 8) n = Ok (Some ?n)"
    by (rule u16_from_at [of _ "pre @ enc_name ls @ enc_u16 rt @ enc_u16 rc @ enc_u32 ttl" _ "dat @ post"])
      (use buf n in simp_all)
  moreover have "slice (?e + 10) (?e + 10 + length dat) ?buf = Ok dat"
    unfolding buf by (simp add: slice_def)
  ultimately show "resource_record_new ?buf (length pre) n = Ok (Some (record_of r))"
    using n by (simp add: resource_record_new_def record_of_def r dat add.assoc)
  have "find_string_seq_end ?buf (length pre) n = Ok (Some ?e)"
    unfolding buf by (rule find_end_name [OF ls]) (use n in simp)
  then show "record_find_end ?buf (length pre) n = Ok (Some (length pre + length (enc_record r)))"
    using n len by (simp add: record_find_end_def r dat)
qed

lemma read_queries:
  assumes "list_all (\<lambda>q. list_all label_ok (fst q)) qs" "length pre + length (concat (map enc_query qs)) \<le> n"
  shows "queries_loop (length qs) (pre @ concat (map enc_query qs) @ post) (length pre) n = Ok (Some (map query_of qs))"
    "ends_loop query_find_end (length qs) (pre @ concat (map enc_query qs) @ post) (length pre) n =
       Ok (Some (length pre + length (concat (map enc_query qs))))"
  using assms
proof (induction qs arbitrary: pre)
  case (Cons q qs)
  let ?rest = "concat (map enc_query qs) @ post"
  have len: "q_length (query_of q) = length (enc_query q)"
    by (cases q) (simp add: query_of_def)
  {
    case 1
    then show ?case
      using read_query(1) [of q pre n ?rest] Cons.IH(1) [of "pre @ enc_query q"] len by simp
  next
    case 2
    then show ?case
      using read_query(2) [of q pre n ?rest] Cons.IH(2) [of "pre @ enc_query q"] by (simp add: add.assoc)
  }
qed simp_all

lemma read_records:
  assumes "list_all record_ok rs" "length pre + length (concat (map enc_record rs)) \<le> n"
  shows "records_loop (length rs) (pre @ concat (map enc_record rs) @ post) (length pre) n = Ok (Some (map record_of rs))"
    "ends_loop record_find_end (length rs) (pre @ concat (map enc_record rs) @ post) (length pre) n =
       Ok (Some (length pre + length (concat (map enc_record rs))))"
  using assms
proof (induction rs arbitrary: pre)
  case (Cons r rs)
  let ?rest = "concat (map enc_record rs) @ post"
  have len: "rr_length (record_of r) = length (enc_record r)"
    by (cases r) (simp add: record_of_def)
  {
    case 1
    then show ?case
      using read_record(1) [of r pre n ?rest] Cons.IH(1) [of "pre @ enc_record r"] len by simp
  next
    case 2
    then show ?case
      using read_record(2) [of r pre n ?rest] Cons.IH(2) [of "pre @ enc_record r"] by (simp add: add.assoc)
  }
qed simp_all

lemma write_record:
  assumes "list_all label_ok ls" "pf_buf self = pre @ post" "length (enc_record (ls, rt, rc, ttl, dat)) \<le> length post"
  shows "write_resource_record (length pre) (name_of ls) rt rc ttl dat self =
    (Some (length (enc_record (ls, rt, rc, ttl, dat))),
     \<lparr> pf_buf = pre @ enc_record (ls, rt, rc, ttl, dat) @ drop (length (enc_record (ls, rt, rc, ttl, dat))) post,
       pf_length = max (pf_length self) (length pre + length (enc_record (ls, rt, rc, ttl, dat))) \<rparr>)"
proof -
  define k where "k = length (enc_name ls)"
  note k = k_def [symmetric]
  let ?n = "of_nat (length dat) :: u16" and ?e = "length pre + k"
  have room: "10 + (k + length dat) \<le> length post"
    using assms(3) by (simp add: k_def)
  have 1: "add_string_seq (pre @ post) (length pre) (name_of ls) = (Some ?e, pre @ enc_name ls @ drop k post)"
    unfolding k_def by (rule add_name [OF assms(1)]) (use room in \<open>simp add: k_def\<close>)
  have 2: "pf_u16_to rt (pre @ enc_name ls @ drop k post) ?e = (True, pre @ enc_name ls @ enc_u16 rt @ drop (2 + k) post)"
    by (subst u16_to_at [of _ "pre @ enc_name ls" "drop k post"]) (use room k in \<open>simp_all del: length_enc_name\<close>)
  have 3: "pf_u16_to rc (pre @ enc_name ls @ enc_u16 rt @ drop (2 + k) post) (?e + 2) =
      (True, pre @ enc_name ls @ enc_u16 rt @ enc_u16 rc @ drop (4 + k) post)"
    by (subst u16_to_at [of _ "pre @ enc_name ls @ enc_u16 rt" "drop (2 + k) post"]) (use room k in \<open>simp_all del: length_enc_name add_2_eq_Suc add_2_eq_Suc'\<close>)
  have 4: "pf_u32_to ttl (pre @ enc_name ls @ enc_u16 rt @ enc_u16 rc @ drop (4 + k) post) (?e + 4) =
      (True, pre @ enc_name ls @ enc_u16 rt @ enc_u16 rc @ enc_u32 ttl @ drop (8 + k) post)"
    by (subst u32_to_at [of _ "pre @ enc_name ls @ enc_u16 rt @ enc_u16 rc" "drop (4 + k) post"]) (use room k in \<open>simp_all del: length_enc_name\<close>)
  have 5: "pf_u16_to ?n (pre @ enc_name ls @ enc_u16 rt @ enc_u16 rc @ enc_u32 ttl @ drop (8 + k) post) (?e + 8) =
      (True, pre @ enc_name ls @ enc_u16 rt @ enc_u16 rc @ enc_u32 ttl @ enc_u16 ?n @ drop (10 + k) post)"
    by (subst u16_to_at [of _ "pre @ enc_name ls @ enc_u16 rt @ enc_u16 rc @ enc_u32 ttl" "drop (8 + k) post"])
      (use room k in \<open>simp_all del: length_enc_name\<close>)
  have 6: "overwrite (?e + 10) dat (pre @ enc_name ls @ enc_u16 rt @ enc_u16 rc @ enc_u32 ttl @ enc_u16 ?n @ drop (10 + k) post) =
      pre @ enc_name ls @ enc_u16 rt @ enc_u16 rc @ enc_u32 ttl @ enc_u16 ?n @ dat @ drop (length dat + (10 + k)) post"
    using overwrite_at [of "?e + 10" "pre @ enc_name ls @ enc_u16 rt @ enc_u16 rc @ enc_u32 ttl @ enc_u16 ?n" dat "drop (10 + k) post"]
      room k by (simp del: length_enc_name)
  have len: "length (enc_record (ls, rt, rc, ttl, dat)) = length dat + (10 + k)"
    by (simp add: enc_record_def k_def)
  show ?thesis
    unfolding len write_resource_record_def assms(2) 1
    using room by (simp add: k 2 3 4 5 6 establish_high_water_def enc_record_def Let_def
      del: length_enc_name add_2_eq_Suc add_2_eq_Suc')
qed

end
