(* ===== verification/EntryDns.thy ===== *)
theory EntryDns
  imports DnsCodec StreamWriters
begin

text \<open>
  The DNS server of the entry node: \<open>entry_dns/processing.rs\<close>, which answers every query for an
  address with the local host, so that browsers connect to the node, and the task of
  \<open>entry_dns/dns_socket_server.rs\<close>. The codes of the crate trust-dns are a parameter.
\<close>

section \<open>Processing\<close>

datatype record_type = TypeA | TypeAAAA | TypeOther

record dns_lib =
  opcode_query :: u8
  class_in :: u16
  record_type_from :: "u16 \<Rightarrow> record_type"
  form_err_low :: u8
  not_imp_low :: u8

definition HEADER_BYTES :: nat where
  "HEADER_BYTES = 12"

definition ipv4_localhost :: bytes where
  "ipv4_localhost = [127, 0, 0, 1]"

definition ipv6_localhost :: bytes where
  "ipv6_localhost = [0, 0, 0, 0, 0, 0, 0, 0, 0, 0, 0, 0, 0, 0, 0, 1]"

definition make_error :: "u8 \<Rightarrow> packet_facade \<Rightarrow> nat \<times> packet_facade" where
  "make_error response_code facade =
     (let (_, f1) = set_query False facade; (_, f2) = set_authoritative_answer False f1;
          (_, f3) = set_truncated False f2; (_, f4) = set_recursion_available True f3;
          (_, f5) = set_authenticated_data False f4; (_, f6) = set_checking_disabled False f5;
          (_, f7) = set_rcode response_code f6
      in (HEADER_BYTES, pf_clear f7))"

definition make_format_error :: "dns_lib \<Rightarrow> packet_facade \<Rightarrow> nat \<times> packet_facade" where
  "make_format_error lib = make_error (form_err_low lib)"

definition make_not_implemented_error :: "dns_lib \<Rightarrow> packet_facade \<Rightarrow> nat \<times> packet_facade" where
  "make_not_implemented_error lib = make_error (not_imp_low lib)"

text \<open>The operator \<open>&&\<close> on setters.\<close>

definition and_set :: "bool \<times> packet_facade \<Rightarrow> (packet_facade \<Rightarrow> bool \<times> packet_facade) \<Rightarrow> bool \<times> packet_facade" where
  "and_set r f = (if fst r then f (snd r) else r)"

fun answer_queries :: "dns_lib \<Rightarrow> query list \<Rightarrow> packet_facade \<Rightarrow> (nat \<times> packet_facade) run" where
  "answer_queries lib [] facade = Ok (pf_length facade, facade)"
| "answer_queries lib (q # qs) facade =
     (if qclass q \<noteq> class_in lib then Ok (make_not_implemented_error lib facade)
      else case record_type_from lib (qtype q) of
             TypeA \<Rightarrow>
               bind_run (add_answer (q_name q) (qtype q) (class_in lib) 3600 ipv4_localhost facade)
                 (\<lambda>(_, facade'). answer_queries lib qs facade')
           | TypeAAAA \<Rightarrow>
               bind_run (add_answer (q_name q) (qtype q) (class_in lib) 3600 ipv6_localhost facade)
                 (\<lambda>(_, facade'). answer_queries lib qs facade')
           | TypeOther \<Rightarrow> Ok (make_not_implemented_error lib facade))"

definition response_flags :: "packet_facade \<Rightarrow> bool \<times> packet_facade" where
  "response_flags facade =
     and_set (and_set (and_set (and_set (and_set (set_query False facade)
       (set_authoritative_answer False)) (set_truncated False)) (set_recursion_available True))
       (set_authenticated_data False)) (set_checking_disabled False)"

definition make_response :: "dns_lib \<Rightarrow> packet_facade \<Rightarrow> (nat \<times> packet_facade) run" where
  "make_response lib facade =
     (case get_opcode facade of
        None \<Rightarrow> Ok (make_format_error lib facade)
      | Some opcode \<Rightarrow>
          if opcode \<noteq> opcode_query lib then Ok (make_not_implemented_error lib facade)
          else let (ok, facade1) = response_flags facade
               in if \<not> ok then Ok (make_format_error lib facade1)
                  else bind_run (get_queries facade1) (\<lambda>r. case r of
                         None \<Rightarrow> Ok (make_format_error lib facade1)
                       | Some queries \<Rightarrow> answer_queries lib queries facade1))"

text \<open>The queries and the answers are read once more for the log.\<close>

definition process :: "dns_lib \<Rightarrow> bytes \<Rightarrow> nat \<Rightarrow> (nat \<times> bytes) run" where
  "process lib dat len =
     bind_run (get_queries (facade_new dat len)) (\<lambda>_.
     bind_run (make_response lib (facade_new dat len)) (\<lambda>(response_size, facade).
     bind_run (get_answers facade) (\<lambda>_. Ok (response_size, pf_buf facade))))"

section \<open>The server\<close>

datatype datagram_answer = Datagram bytes socket_addr | NoDatagram | RecvError

record dns_socket_server =
  dss_incoming :: "datagram_answer list"
  dss_sent :: "(bytes \<times> socket_addr) list"
  dss_buf :: bytes

definition dns_socket_server_new :: "datagram_answer list \<Rightarrow> dns_socket_server" where
  "dns_socket_server_new incoming = \<lparr> dss_incoming = incoming, dss_sent = [], dss_buf = replicate 65536 0 \<rparr>"

definition initialize_as_unprivileged :: "dns_socket_server \<Rightarrow> dns_socket_server" where
  "initialize_as_unprivileged self = self\<lparr> dss_buf := replicate 65536 0 \<rparr>"

text \<open>\<open>send_ok\<close> says what the operating system takes as a datagram to send. A datagram is received into
  a copy of the buffer and cut to its length.\<close>

function dns_poll ::
    "dns_lib \<Rightarrow> (bytes \<Rightarrow> socket_addr \<Rightarrow> bool) \<Rightarrow> dns_socket_server \<Rightarrow> (async_result \<times> dns_socket_server) run" where
  "dns_poll lib send_ok self =
     (case dss_incoming self of
        [] \<Rightarrow> Ok (NotReady, self)
      | NoDatagram # rest \<Rightarrow> Ok (NotReady, self\<lparr> dss_incoming := rest \<rparr>)
      | RecvError # rest \<Rightarrow> Ok (Failed, self\<lparr> dss_incoming := rest \<rparr>)
      | Datagram dat addr # rest \<Rightarrow>
          (let len = min (length dat) (length (dss_buf self));
               buffer = overwrite 0 (take len dat) (dss_buf self)
           in case process lib buffer len of
                Inl e \<Rightarrow> Inl e
              | Inr (response_length, buffer') \<Rightarrow>
                  (case slice 0 response_length buffer' of
                     Inl e \<Rightarrow> Inl e
                   | Inr response \<Rightarrow>
                       if \<not> send_ok response addr then Ok (Failed, self\<lparr> dss_incoming := rest \<rparr>)
                       else dns_poll lib send_ok
                              (self\<lparr> dss_incoming := rest, dss_sent := dss_sent self @ [(response, addr)] \<rparr>))))"
  by pat_completeness auto
termination
  by (relation "measure (\<lambda>(lib, send_ok, self). length (dss_incoming self))") auto

declare dns_poll.simps [simp del]

lemma dns_poll_idle: "dss_incoming srv = [] \<Longrightarrow> dns_poll lib send_ok srv = Ok (NotReady, srv)"
  by (subst dns_poll.simps) simp

section \<open>Messages in the buffer\<close>

definition message :: "bytes \<Rightarrow> u8 \<Rightarrow> u8 \<Rightarrow> u16 \<Rightarrow> u16 \<Rightarrow> u16 \<Rightarrow> u16 \<Rightarrow> bytes \<Rightarrow> bytes" where
  "message ids b2 b3 qd an ns ar body =
     ids @ [b2, b3] @ enc_u16 qd @ enc_u16 an @ enc_u16 ns @ enc_u16 ar @ body"

lemma count_at_message:
  assumes "length ids = 2" "12 \<le> pf_length self" "pf_buf self = message ids b2 b3 qd an ns ar body"
  shows "count_at 4 self = Ok (Some qd)" "count_at 6 self = Ok (Some an)"
proof -
  show "count_at 4 self = Ok (Some qd)"
    unfolding count_at_def
    by (rule u16_from_at [of _ "ids @ [b2, b3]" _ "enc_u16 an @ enc_u16 ns @ enc_u16 ar @ body"])
      (use assms in \<open>simp_all add: message_def\<close>)
  show "count_at 6 self = Ok (Some an)"
    unfolding count_at_def
    by (rule u16_from_at [of _ "ids @ [b2, b3] @ enc_u16 qd" _ "enc_u16 ns @ enc_u16 ar @ body"])
      (use assms in \<open>simp_all add: message_def\<close>)
qed

lemma set_answer_count:
  assumes "length ids = 2"
  shows "pf_u16_to v (message ids b2 b3 qd an ns ar body) 6 = (True, message ids b2 b3 qd v ns ar body)"
  by (subst u16_to_at [of _ "ids @ [b2, b3] @ enc_u16 qd" "enc_u16 an @ enc_u16 ns @ enc_u16 ar @ body"])
    (use assms in \<open>simp_all add: message_def\<close>)

lemma message_as_prefix:
  "message ids b2 b3 qd an ns ar (x @ y) = message ids b2 b3 qd an ns ar x @ y"
  "length ids = 2 \<Longrightarrow> length (message ids b2 b3 qd an ns ar x) = 12 + length x"
  by (simp_all add: message_def)

definition names_ok :: "(bytes list \<times> u16 \<times> u16) list \<Rightarrow> bool" where
  "names_ok qs \<longleftrightarrow> list_all (\<lambda>q. list_all label_ok (fst q)) qs"

definition laid_out ::
    "packet_facade \<Rightarrow> bytes \<Rightarrow> u8 \<Rightarrow> u8 \<Rightarrow> (bytes list \<times> u16 \<times> u16) list \<Rightarrow> (bytes list \<times> u16 \<times> u16 \<times> u32 \<times> bytes) list \<Rightarrow>
       u16 \<Rightarrow> u16 \<Rightarrow> bytes \<Rightarrow> bool" where
  "laid_out self ids b2 b3 qs rs ns ar rest \<longleftrightarrow>
     length ids = 2 \<and> names_ok qs \<and> list_all record_ok rs \<and> length qs < 65536 \<and> length rs < 65536 \<and>
     pf_buf self = message ids b2 b3 (of_nat (length qs)) (of_nat (length rs)) ns ar
       (concat (map enc_query qs) @ concat (map enc_record rs) @ rest) \<and>
     12 + length (concat (map enc_query qs)) + length (concat (map enc_record rs)) \<le> pf_length self"

lemma unat_count: "n < 65536 \<Longrightarrow> unat (of_nat n :: u16) = n"
  by (simp add: unat_of_nat take_bit_nat_eq_self)

lemma read_message:
  assumes "laid_out self ids b2 b3 qs rs ns ar rest"
  shows "get_queries self = Ok (Some (map query_of qs))"
    "get_answers self = Ok (Some (map record_of rs))"
    "find_answers_end self = Ok (Some (12 + length (concat (map enc_query qs)) + length (concat (map enc_record rs))))"
proof -
  let ?Q = "concat (map enc_query qs)" and ?R = "concat (map enc_record rs)"
  let ?H = "message ids b2 b3 (of_nat (length qs)) (of_nat (length rs)) ns ar []"
  note lo = assms [unfolded laid_out_def]
  have bytes: "pf_buf self = ?H @ ?Q @ (?R @ rest)" "pf_buf self = (?H @ ?Q) @ ?R @ rest"
    using lo by (simp_all add: message_def)
  have H: "length ?H = 12"
    using lo by (simp add: message_def)
  have counts: "count_at 4 self = Ok (Some (of_nat (length qs)))" "count_at 6 self = Ok (Some (of_nat (length rs)))"
    using lo count_at_message [of ids self] by simp_all
  have unat: "unat (of_nat (length qs) :: u16) = length qs" "unat (of_nat (length rs) :: u16) = length rs"
    using lo by (simp_all add: unat_count)
  have Q: "queries_loop (length qs) (pf_buf self) 12 (pf_length self) = Ok (Some (map query_of qs))"
      "ends_loop query_find_end (length qs) (pf_buf self) 12 (pf_length self) = Ok (Some (12 + length ?Q))"
    using read_queries [of qs ?H "pf_length self" "?R @ rest"] lo unfolding bytes(1) [symmetric] H names_ok_def by simp_all
  have R: "records_loop (length rs) (pf_buf self) (12 + length ?Q) (pf_length self) = Ok (Some (map record_of rs))"
      "ends_loop record_find_end (length rs) (pf_buf self) (12 + length ?Q) (pf_length self) =
         Ok (Some (12 + length ?Q + length ?R))"
    using read_records [of rs "?H @ ?Q" "pf_length self" rest] lo H unfolding bytes(2) [symmetric] by simp_all
  have qe: "find_queries_end self = Ok (Some (12 + length ?Q))"
    by (simp add: find_queries_end_def counts unat Q)
  show "get_queries self = Ok (Some (map query_of qs))"
    by (simp add: get_queries_def counts unat Q)
  show "get_answers self = Ok (Some (map record_of rs))"
    by (simp add: get_answers_def qe counts unat R)
  show "find_answers_end self = Ok (Some (12 + length ?Q + length ?R))"
    by (simp add: find_answers_end_def qe counts unat R)
qed

lemma answer_appended:
  assumes "laid_out self ids b2 b3 qs rs ns ar rest" "record_ok (ls, rt, rc, ttl, dat)" "Suc (length rs) < 65536"
    and "length (enc_record (ls, rt, rc, ttl, dat)) \<le> length rest"
  shows "\<exists>self'. add_answer (name_of ls) rt rc ttl dat self = Ok (True, self') \<and>
    laid_out self' ids b2 b3 qs (rs @ [(ls, rt, rc, ttl, dat)]) ns ar (drop (length (enc_record (ls, rt, rc, ttl, dat))) rest) \<and>
    pf_length self' = max (pf_length self) (12 + length (concat (map enc_query qs)) +
      length (concat (map enc_record (rs @ [(ls, rt, rc, ttl, dat)]))))"
proof -
  let ?Q = "concat (map enc_query qs)" and ?R = "concat (map enc_record rs)" and ?r = "(ls, rt, rc, ttl, dat)"
  let ?M = "\<lambda>n. message ids b2 b3 (of_nat (length qs)) n ns ar"
  let ?pre = "?M (of_nat (length rs)) (?Q @ ?R)"
  note lo = assms(1) [unfolded laid_out_def]
  have bytes: "pf_buf self = ?pre @ rest"
    using lo by (simp add: message_def)
  have pre: "length ?pre = 12 + length ?Q + length ?R"
    using lo by (simp add: message_def)
  define x where "x = enc_record ?r"
  define self1 where "self1 = \<lparr> pf_buf = ?pre @ x @ drop (length x) rest, pf_length = max (pf_length self) (length ?pre + length x) \<rparr>"
  have w: "write_resource_record (length ?pre) (name_of ls) rt rc ttl dat self = (Some (length x), self1)"
    unfolding self1_def x_def using assms(2) by (intro write_record [OF _ bytes assms(4)]) (simp add: record_ok_def)
  have buf1: "pf_buf self1 = ?M (of_nat (length rs)) (?Q @ ?R @ x @ drop (length x) rest)"
    by (simp add: self1_def message_def)
  have c: "count_at 6 self1 = Ok (Some (of_nat (length rs)))"
    using lo by (intro count_at_message(2) [OF _ _ buf1]) (simp_all add: self1_def le_max_iff_disj)
  define self2 where "self2 = self1\<lparr> pf_buf := ?M (of_nat (length rs) + 1) (?Q @ ?R @ x @ drop (length x) rest) \<rparr>"
  have "bump_count 6 self1 = Ok (True, self2)"
    using lo by (simp add: bump_count_def c buf1 set_answer_count self2_def)
  with w have added: "add_answer (name_of ls) rt rc ttl dat self = Ok (True, self2)"
    using read_message(3) [OF assms(1)] by (simp only: add_answer_def add_record_def pre [symmetric]) simp
  have len: "pf_length self2 = max (pf_length self) (12 + length ?Q + length (concat (map enc_record (rs @ [?r]))))"
    by (simp only: self2_def self1_def pre x_def) simp
  have "pf_buf self2 = ?M (of_nat (length (rs @ [?r]))) (?Q @ concat (map enc_record (rs @ [?r])) @ drop (length x) rest)"
    by (simp add: self2_def x_def add.commute)
  then have "laid_out self2 ids b2 b3 qs (rs @ [?r]) ns ar (drop (length x) rest)"
    using lo assms(2,3) len unfolding laid_out_def by (simp del: map_append length_enc_record)
  with added len show ?thesis
    unfolding x_def by blast
qed

section \<open>Answering queries\<close>

definition answer_of :: "dns_lib \<Rightarrow> bytes list \<times> u16 \<times> u16 \<Rightarrow> bytes list \<times> u16 \<times> u16 \<times> u32 \<times> bytes" where
  "answer_of lib q = (case q of (ls, qt, qc) \<Rightarrow>
     (ls, qt, class_in lib, 3600, if record_type_from lib qt = TypeA then ipv4_localhost else ipv6_localhost))"

definition answerable :: "dns_lib \<Rightarrow> bytes list \<times> u16 \<times> u16 \<Rightarrow> bool" where
  "answerable lib q \<longleftrightarrow> (case q of (ls, qt, qc) \<Rightarrow>
     list_all label_ok ls \<and> qc = class_in lib \<and> record_type_from lib qt \<noteq> TypeOther)"

lemma answer_queries_laid_out:
  assumes "laid_out self ids b2 b3 qs0 rs ns ar rest" "list_all (answerable lib) qs" "length rs + length qs < 65536"
    and "length (concat (map (\<lambda>q. enc_record (answer_of lib q)) qs)) \<le> length rest"
  shows "\<exists>self'. answer_queries lib (map query_of qs) self = Ok (pf_length self', self') \<and>
    laid_out self' ids b2 b3 qs0 (rs @ map (answer_of lib) qs) ns ar
      (drop (length (concat (map (\<lambda>q. enc_record (answer_of lib q)) qs))) rest) \<and>
    pf_length self' = max (pf_length self) (12 + length (concat (map enc_query qs0)) +
      length (concat (map enc_record (rs @ map (answer_of lib) qs))))"
  using assms
proof (induction qs arbitrary: self rs rest)
  case Nil
  then show ?case
    by (auto simp: laid_out_def)
next
  case (Cons q qs)
  obtain ls qt qc where q: "q = (ls, qt, qc)"
    by (cases q)
  obtain dat where r: "answer_of lib q = (ls, qt, class_in lib, 3600, dat)"
    "dat = (if record_type_from lib qt = TypeA then ipv4_localhost else ipv6_localhost)"
    by (simp add: q answer_of_def)
  have ok: "record_ok (ls, qt, class_in lib, 3600, dat)"
    using Cons.prems(2) r(2) by (simp add: q answerable_def record_ok_def ipv4_localhost_def ipv6_localhost_def)
  obtain self1 where 1: "add_answer (name_of ls) qt (class_in lib) 3600 dat self = Ok (True, self1)"
      "laid_out self1 ids b2 b3 qs0 (rs @ [answer_of lib q]) ns ar (drop (length (enc_record (answer_of lib q))) rest)"
      "pf_length self1 = max (pf_length self) (12 + length (concat (map enc_query qs0)) +
         length (concat (map enc_record (rs @ [answer_of lib q]))))"
    using answer_appended [OF Cons.prems(1) ok] Cons.prems(3,4) by (auto simp: r)
  obtain self2 where 2: "answer_queries lib (map query_of qs) self1 = Ok (pf_length self2, self2)"
      "laid_out self2 ids b2 b3 qs0 ((rs @ [answer_of lib q]) @ map (answer_of lib) qs) ns ar
         (drop (length (concat (map (\<lambda>q. enc_record (answer_of lib q)) qs))) (drop (length (enc_record (answer_of lib q))) rest))"
      "pf_length self2 = max (pf_length self1) (12 + length (concat (map enc_query qs0)) +
         length (concat (map enc_record ((rs @ [answer_of lib q]) @ map (answer_of lib) qs))))"
    using Cons.IH [OF 1(2)] Cons.prems(2,3,4) by (fastforce simp: comp_def)
  have "answer_queries lib (map query_of (q # qs)) self = Ok (pf_length self2, self2)"
    using Cons.prems(2) 1(1) 2(1) r(2)
    by (cases "record_type_from lib qt") (simp_all add: q query_of_def answerable_def)
  with 1(3) 2(2,3) show ?case
    by (auto simp: comp_def add.commute max_def)
qed

text \<open>The second and third word of the header of a reply: a response, not authoritative, not truncated,
  recursion available.\<close>

definition reply_b2 :: "u8 \<Rightarrow> u8" where
  "reply_b2 b = (((b AND 0x7F) OR 0x80) AND 0xFB) AND 0xFD"

definition reply_b3 :: "u8 \<Rightarrow> u8" where
  "reply_b3 b = (((b AND 0x7F) OR 0x80) AND 0xDF) AND 0xEF"

lemma set_byte_message:
  assumes "length ids = 2"
  shows "set_byte 2 f \<lparr> pf_buf = message ids b2 b3 qd an ns ar body, pf_length = n \<rparr> =
      (True, \<lparr> pf_buf = message ids (f b2) b3 qd an ns ar body, pf_length = n \<rparr>)"
    "set_byte 3 f \<lparr> pf_buf = message ids b2 b3 qd an ns ar body, pf_length = n \<rparr> =
      (True, \<lparr> pf_buf = message ids b2 (f b3) qd an ns ar body, pf_length = n \<rparr>)"
proof -
  have "message ids b2 b3 qd an ns ar body ! 2 = b2" "message ids b2 b3 qd an ns ar body ! 3 = b3"
    "(message ids b2 b3 qd an ns ar body)[2 := x] = message ids x b3 qd an ns ar body"
    "(message ids b2 b3 qd an ns ar body)[3 := x] = message ids b2 x qd an ns ar body" for x
    using assms by (simp_all add: message_def nth_append list_update_append)
  then show "set_byte 2 f \<lparr> pf_buf = message ids b2 b3 qd an ns ar body, pf_length = n \<rparr> =
      (True, \<lparr> pf_buf = message ids (f b2) b3 qd an ns ar body, pf_length = n \<rparr>)"
    "set_byte 3 f \<lparr> pf_buf = message ids b2 b3 qd an ns ar body, pf_length = n \<rparr> =
      (True, \<lparr> pf_buf = message ids b2 (f b3) qd an ns ar body, pf_length = n \<rparr>)"
    using assms by (simp_all add: set_byte_def message_as_prefix)
qed

lemma response_flags_message:
  assumes "length ids = 2"
  shows "response_flags \<lparr> pf_buf = message ids b2 b3 qd an ns ar body, pf_length = n \<rparr> =
    (True, \<lparr> pf_buf = message ids (reply_b2 b2) (reply_b3 b3) qd an ns ar body, pf_length = n \<rparr>)"
  by (simp add: response_flags_def and_set_def set_query_def set_authoritative_answer_def set_truncated_def
      set_recursion_available_def set_authenticated_data_def set_checking_disabled_def set_byte_message [OF assms]
      reply_b2_def reply_b3_def)

definition request :: "bytes \<Rightarrow> u8 \<Rightarrow> u8 \<Rightarrow> (bytes list \<times> u16 \<times> u16) list \<Rightarrow> u16 \<Rightarrow> u16 \<Rightarrow> bytes \<Rightarrow> bytes" where
  "request ids b2 b3 qs ns ar rest =
     message ids b2 b3 (of_nat (length qs)) 0 ns ar (concat (map enc_query qs) @ rest)"

definition answers :: "dns_lib \<Rightarrow> (bytes list \<times> u16 \<times> u16) list \<Rightarrow> bytes" where
  "answers lib qs = concat (map (\<lambda>q. enc_record (answer_of lib q)) qs)"

definition reply :: "dns_lib \<Rightarrow> bytes \<Rightarrow> u8 \<Rightarrow> u8 \<Rightarrow> (bytes list \<times> u16 \<times> u16) list \<Rightarrow> u16 \<Rightarrow> u16 \<Rightarrow> bytes \<Rightarrow> bytes" where
  "reply lib ids b2 b3 qs ns ar rest =
     message ids (reply_b2 b2) (reply_b3 b3) (of_nat (length qs)) (of_nat (length qs)) ns ar
       (concat (map enc_query qs) @ answers lib qs @ drop (length (answers lib qs)) rest)"

lemma process_request:
  assumes "length ids = 2" "drop_bit 3 (b2 AND 0x78) = opcode_query lib"
    and "list_all (answerable lib) qs" "length qs < 65536" "length (answers lib qs) \<le> length (rest @ padding)"
  shows "process lib (request ids b2 b3 qs ns ar rest @ padding) (length (request ids b2 b3 qs ns ar rest)) =
    Ok (length (reply lib ids b2 b3 qs ns ar rest),
        reply lib ids b2 b3 qs ns ar rest @ drop (length (answers lib qs) - length rest) padding)"
proof -
  let ?Q = "concat (map enc_query qs)" and ?n = "length (request ids b2 b3 qs ns ar rest)"
  let ?f = "\<lambda>b2 b3. \<lparr> pf_buf = message ids b2 b3 (of_nat (length qs)) 0 ns ar (?Q @ rest @ padding), pf_length = ?n \<rparr>"
  have new: "facade_new (request ids b2 b3 qs ns ar rest @ padding) ?n = ?f b2 b3"
    by (simp add: facade_new_def request_def message_def)
  have n: "?n = 12 + length ?Q + length rest"
    using assms(1) by (simp add: request_def message_as_prefix(2))
  have lo: "laid_out (?f x y) ids x y qs [] ns ar (rest @ padding)" for x y
    using assms n by (auto simp: laid_out_def names_ok_def answerable_def list_all_iff)
  have op: "get_opcode (?f b2 b3) = Some (opcode_query lib)"
    using assms(1,2) n by (simp add: get_opcode_def req_len_opt_def message_def nth_append)
  obtain self' where ans: "answer_queries lib (map query_of qs) (?f (reply_b2 b2) (reply_b3 b3)) = Ok (pf_length self', self')"
      "laid_out self' ids (reply_b2 b2) (reply_b3 b3) qs (map (answer_of lib) qs) ns ar
        (drop (length (answers lib qs)) (rest @ padding))"
      "pf_length self' = max ?n (12 + length ?Q + length (answers lib qs))"
    using answer_queries_laid_out [OF lo [of "reply_b2 b2" "reply_b3 b3"] assms(3)] assms(4,5)
    by (auto simp: answers_def comp_def)
  have len: "pf_length self' = length (reply lib ids b2 b3 qs ns ar rest)"
    using assms(1) n ans(3) by (simp add: reply_def message_as_prefix(2) max_def)
  have bytes: "pf_buf self' = reply lib ids b2 b3 qs ns ar rest @ drop (length (answers lib qs) - length rest) padding"
    using ans(2) by (simp add: laid_out_def reply_def message_def answers_def comp_def)
  have "make_response lib (?f b2 b3) = Ok (pf_length self', self')"
    using op ans(1) read_message(1) [OF lo] by (simp add: make_response_def response_flags_message [OF assms(1)])
  then show ?thesis
    using read_message(1) [OF lo] read_message(2) [OF ans(2)] unfolding process_def new by (simp add: len bytes)
qed

section \<open>The server answers\<close>

lemma dns_poll_request:
  assumes "length ids = 2" "drop_bit 3 (b2 AND 0x78) = opcode_query lib"
    and "list_all (answerable lib) qs" "length (concat (map enc_query qs)) + length (answers lib qs) \<le> 65524"
    and "length (request ids b2 b3 qs ns ar rest) \<le> 65536"
    and "dss_incoming srv = Datagram (request ids b2 b3 qs ns ar rest) addr # waiting" "dss_buf srv = replicate 65536 0"
  shows "dns_poll lib send_ok srv =
    (if send_ok (reply lib ids b2 b3 qs ns ar rest) addr
     then dns_poll lib send_ok (srv\<lparr> dss_incoming := waiting, dss_sent := dss_sent srv @ [(reply lib ids b2 b3 qs ns ar rest, addr)] \<rparr>)
     else Ok (Failed, srv\<lparr> dss_incoming := waiting \<rparr>))"
proof -
  let ?m = "request ids b2 b3 qs ns ar rest"
  let ?pad = "replicate (65536 - length ?m) (0 :: u8)"
  have "length qs \<le> length (concat (map enc_query qs))"
    by (induction qs) (auto simp: Suc_le_eq trans_less_add1)
  then have "length qs < 65536"
    using assms(4) by simp
  moreover have "length (answers lib qs) \<le> length (rest @ ?pad)"
    using assms(1,4,5) by (simp add: request_def message_as_prefix(2))
  ultimately have p: "process lib (?m @ ?pad) (length ?m) =
      Ok (length (reply lib ids b2 b3 qs ns ar rest),
        reply lib ids b2 b3 qs ns ar rest @ drop (length (answers lib qs) - length rest) ?pad)"
    by (intro process_request [OF assms(1-3)])
  have "overwrite 0 (take (min (length ?m) (length (dss_buf srv))) ?m) (dss_buf srv) = ?m @ ?pad"
    using assms(5,7) by (simp add: overwrite_def)
  with p assms(5-7) show ?thesis
    by (subst dns_poll.simps) (simp add: Let_def slice_def)
qed

definition demo_dns :: dns_lib where
  "demo_dns = \<lparr> opcode_query = 0, class_in = 1,
     record_type_from = (\<lambda>t. if t = 1 then TypeA else if t = 28 then TypeAAAA else TypeOther),
     form_err_low = 1, not_imp_low = 4 \<rparr>"

definition demo_asker :: socket_addr where
  "demo_asker = \<lparr> ip = V4 127 0 0 1, port = 5353 \<rparr>"

lemma demo_dns_simps [simp]:
  "opcode_query demo_dns = 0" "class_in demo_dns = 1" "record_type_from demo_dns 1 = TypeA" "record_type_from demo_dns 28 = TypeAAAA"
  by (simp_all add: demo_dns_def)

text \<open>C22. The entry node answers name queries with itself. A request with any identifier, any flags, any
  list of questions of the Internet class for A or AAAA records, and anything after the questions, is
  answered, when the answers fit into the buffer, with exactly these bytes: the identifier, the flags
  of a response, the questions as they were, and for each of them one record for the local host in
  this order; the bytes that followed the questions are overwritten by the answers, although their
  counts stay in the header. The server goes on with the next datagram; but when the operating system
  refuses the reply, its task ends and the datagrams that are waiting are never answered.\<close>

theorem dns_queries_answered:
  assumes "length ids = 2" "drop_bit 3 (b2 AND 0x78) = opcode_query lib"
    and "list_all (answerable lib) qs" "length (concat (map enc_query qs)) + length (answers lib qs) \<le> 65524"
    and "length (request ids b2 b3 qs ns ar rest) \<le> 65536"
    and "dss_incoming srv = Datagram (request ids b2 b3 qs ns ar rest) addr # waiting" "dss_buf srv = replicate 65536 0"
  shows "dns_poll lib send_ok srv =
    (if send_ok (reply lib ids b2 b3 qs ns ar rest) addr
     then dns_poll lib send_ok (srv\<lparr> dss_incoming := waiting, dss_sent := dss_sent srv @ [(reply lib ids b2 b3 qs ns ar rest, addr)] \<rparr>)
     else Ok (Failed, srv\<lparr> dss_incoming := waiting \<rparr>))"
  by (rule dns_poll_request [OF assms])

theorem dns_queries_answered_witness:
  "\<exists>srv. dns_poll demo_dns (\<lambda>_ _. True)
      (dns_socket_server_new [Datagram ([7, 9, 1, 32, 0, 1, 0, 0, 0, 0, 0, 1] @ [1, 97, 2, 98, 99, 0, 0, 1, 0, 1] @
         [0, 0, 41, 16, 0, 0, 0, 0, 0, 0, 0]) demo_asker]) = Ok (NotReady, srv) \<and>
    dss_sent srv = [([7, 9, 129, 128, 0, 1, 0, 1, 0, 0, 0, 1] @ [1, 97, 2, 98, 99, 0, 0, 1, 0, 1] @
      [1, 97, 2, 98, 99, 0, 0, 1, 0, 1, 0, 0, 14, 16, 0, 4, 127, 0, 0, 1], demo_asker)]"
proof -
  let ?q = "[([[97], [98, 99]], 1, 1)] :: (bytes list \<times> u16 \<times> u16) list"
  let ?rest = "[0, 0, 41, 16, 0, 0, 0, 0, 0, 0, 0] :: bytes"
  have enc: "concat (map enc_query ?q) = [1, 97, 2, 98, 99, 0, 0, 1, 0, 1]"
    by (simp add: enc_query_def enc_name_def enc_u16_def)
  have ans: "answers demo_dns ?q = [1, 97, 2, 98, 99, 0, 0, 1, 0, 1, 0, 0, 14, 16, 0, 4, 127, 0, 0, 1]"
    by (simp add: answers_def answer_of_def enc_record_def enc_name_def enc_u16_def enc_u32_def ipv4_localhost_def)
  have req: "request [7, 9] 1 32 ?q 0 1 ?rest =
      [7, 9, 1, 32, 0, 1, 0, 0, 0, 0, 0, 1] @ [1, 97, 2, 98, 99, 0, 0, 1, 0, 1] @ ?rest"
    unfolding request_def enc message_def by (simp add: enc_u16_def)
  have rep: "reply demo_dns [7, 9] 1 32 ?q 0 1 ?rest = [7, 9, 129, 128, 0, 1, 0, 1, 0, 0, 0, 1] @
      [1, 97, 2, 98, 99, 0, 0, 1, 0, 1] @ [1, 97, 2, 98, 99, 0, 0, 1, 0, 1, 0, 0, 14, 16, 0, 4, 127, 0, 0, 1]"
    unfolding reply_def enc ans message_def by (simp add: enc_u16_def reply_b2_def reply_b3_def)
  let ?srv = "dns_socket_server_new [Datagram (request [7, 9] 1 32 ?q 0 1 ?rest) demo_asker]"
  have "dns_poll demo_dns (\<lambda>_ _. True) ?srv = dns_poll demo_dns (\<lambda>_ _. True)
      (?srv\<lparr> dss_incoming := [], dss_sent := dss_sent ?srv @ [(reply demo_dns [7, 9] 1 32 ?q 0 1 ?rest, demo_asker)] \<rparr>)"
    using dns_queries_answered [of "[7, 9]" 1 demo_dns ?q 32 0 1 ?rest ?srv demo_asker "[]" "\<lambda>_ _. True"] enc ans req
    by (simp add: answerable_def label_ok_def text_of_def char_of_def dns_socket_server_new_def)
  then show ?thesis
    unfolding req rep by (simp add: dns_poll_idle dns_socket_server_new_def)
qed

section \<open>A reply that is too long\<close>

lemma length_concat_replicate: "length (concat (map f (replicate n x))) = n * length (f x)"
  by (induction n) simp_all

text \<open>One datagram stops the server, and with it the node: on a system that sends datagrams of at most
  65507 bytes, as UDP over IPv4 allows, there is a request of legal size, 3275 questions for the root name,
  whose reply is longer than that; the attempt to send it ends the task with an error, whoever asked and whatever
  is waiting to be answered.\<close>

theorem dns_oversized_reply_stops:
  assumes "opcode_query lib = 0" "record_type_from lib 1 = TypeA"
  shows "\<exists>m. length m \<le> 65507 \<and> (\<forall>addr waiting.
    dns_poll lib (\<lambda>b _. length b \<le> 65507) (dns_socket_server_new (Datagram m addr # waiting)) =
      Ok (Failed, dns_socket_server_new waiting))"
proof (intro exI conjI allI)
  let ?qs = "replicate 3275 ([], 1, class_in lib) :: (bytes list \<times> u16 \<times> u16) list"
  let ?m = "request [0, 0] 0 0 ?qs 0 0 []"
  have q: "length (concat (map enc_query ?qs)) = 16375"
    unfolding length_concat_replicate by simp
  have a: "length (answers lib ?qs) = 49125"
    unfolding answers_def length_concat_replicate using assms(2) by (simp add: answer_of_def ipv4_localhost_def)
  have m: "length ?m = 16387"
    using q by (simp add: request_def message_as_prefix(2))
  then show "length ?m \<le> 65507"
    by simp
  have r: "length (reply lib [0, 0] 0 0 ?qs 0 0 []) = 65512"
    using q a by (simp add: reply_def message_as_prefix(2))
  fix addr waiting
  have "list_all (answerable lib) ?qs"
    using assms(2) by (simp add: list_all_iff answerable_def)
  with dns_poll_request [of "[0, 0]" 0 lib ?qs 0 0 0 "[]" "dns_socket_server_new (Datagram ?m addr # waiting)" addr waiting
      "\<lambda>b _. length b \<le> 65507"] assms q a m r
  show "dns_poll lib (\<lambda>b _. length b \<le> 65507) (dns_socket_server_new (Datagram ?m addr # waiting)) =
      Ok (Failed, dns_socket_server_new waiting)"
    by (simp add: dns_socket_server_new_def)
qed

theorem dns_oversized_reply_stops_witness:
  "\<exists>m. length m \<le> 65507 \<and>
    dns_poll demo_dns (\<lambda>b _. length b \<le> 65507)
      (dns_socket_server_new [Datagram m demo_asker, Datagram [7, 9, 1, 32, 0, 0, 0, 0, 0, 0, 0, 0] demo_asker]) =
    Ok (Failed, dns_socket_server_new [Datagram [7, 9, 1, 32, 0, 0, 0, 0, 0, 0, 0, 0] demo_asker])"
  using dns_oversized_reply_stops [of demo_dns] by auto

end
