(* ===== verification/DnsSafety.thy ===== *)
theory DnsSafety
  imports EntryDns
begin

text \<open>
  The DNS server never panics: whatever arrives, the walks over names, queries and records stay inside
  the buffer. Walks depend only on the bytes they pass, and what the server writes lies behind them.
\<close>

section \<open>Walks stay inside what they have passed\<close>

definition same_between :: "bytes \<Rightarrow> bytes \<Rightarrow> nat \<Rightarrow> nat \<Rightarrow> bool" where
  "same_between b b' i j \<longleftrightarrow> length b' = length b \<and> (\<forall>k. i \<le> k \<longrightarrow> k < j \<longrightarrow> b' ! k = b ! k)"

lemma same_betweenD: "same_between b b' i j \<Longrightarrow> i \<le> k \<Longrightarrow> k < j \<Longrightarrow> index b' k = index b k"
  by (simp add: same_between_def index_def)

lemma same_between_sub: "same_between b b' i j \<Longrightarrow> i \<le> i' \<Longrightarrow> j' \<le> j \<Longrightarrow> same_between b b' i' j'"
  by (auto simp: same_between_def)

lemma same_between_refl [simp]: "same_between b b i j"
  by (simp add: same_between_def)

lemma same_between_trans: "same_between b b' i j \<Longrightarrow> same_between b' b'' i j \<Longrightarrow> same_between b b'' i j"
  by (simp add: same_between_def)

lemma index_total: "i < length b \<Longrightarrow> index b i = Ok (b ! i)"
  by (simp add: index_def)

lemma index_OkD: "index b i = Ok x \<Longrightarrow> i < length b \<and> x = b ! i"
  by (simp add: index_def split: if_split_asm)

lemma u16_from_total: "n \<le> length b \<Longrightarrow> \<exists>r. pf_u16_from b i n = Ok r"
  by (auto simp: pf_u16_from_def index_total)

lemma u32_from_total: "n \<le> length b \<Longrightarrow> \<exists>r. pf_u32_from b i n = Ok r"
  using u16_from_total [of n b i] u16_from_total [of n b "i + 2"]
  by (auto simp: pf_u32_from_def try_opt_def split: option.split)

lemma u16_from_stable:
  "pf_u16_from b i n = Ok (Some v) \<Longrightarrow> same_between b b' i (i + 2) \<Longrightarrow> n \<le> n' \<Longrightarrow> pf_u16_from b' i n' = Ok (Some v)"
  by (auto simp: pf_u16_from_def same_betweenD split: if_split_asm)

lemma seq_end_total: "n < length b \<Longrightarrow> \<exists>r. find_string_seq_end b i n = Ok r"
proof (induction b i n rule: find_string_seq_end.induct)
  case (1 b i n)
  then show ?case
    by (subst find_string_seq_end.simps) (auto simp: index_total)
qed

lemma seq_end_moves: "find_string_seq_end b i n = Ok (Some e) \<Longrightarrow> i < e"
proof (induction b i n rule: find_string_seq_end.induct)
  case (1 b i n)
  from 1(2) show ?case
    using 1(1) by (subst (asm) find_string_seq_end.simps) (fastforce split: if_split_asm sum.split_asm)
qed

lemma seq_end_inside: "find_string_seq_end b i n = Ok (Some e) \<Longrightarrow> e \<le> length b"
proof (induction b i n rule: find_string_seq_end.induct)
  case (1 b i n)
  from 1(2) show ?case
    using 1(1) by (subst (asm) find_string_seq_end.simps) (auto dest: index_OkD split: if_split_asm sum.split_asm)
qed

lemma seq_end_stable:
  "find_string_seq_end b i n = Ok (Some e) \<Longrightarrow> same_between b b' i e \<Longrightarrow> n \<le> n' \<Longrightarrow>
     find_string_seq_end b' i n' = Ok (Some e)"
proof (induction b i n rule: find_string_seq_end.induct)
  case (1 b i n)
  from 1(2) obtain len where len: "\<not> n < i" "index b i = Ok len"
    "(if len = 0 then Ok (Some (i + 1)) else find_string_seq_end b (i + unat len + 1) n) = Ok (Some e)"
    by (subst (asm) find_string_seq_end.simps) (auto split: if_split_asm sum.split_asm)
  have "i < e"
    by (rule seq_end_moves [OF 1(2)])
  then have "index b' i = Ok len"
    using len(2) same_betweenD [OF 1(3)] by simp
  moreover have "find_string_seq_end b' (i + unat len + 1) n' = Ok (Some e)" if "len \<noteq> 0"
    using that len 1(4) same_between_sub [OF 1(3), of "i + unat len + 1" e] by (intro 1(1)) auto
  ultimately show ?case
    using len(1,3) 1(4) by (subst find_string_seq_end.simps) auto
qed

lemma extract_total: "n \<le> length b \<Longrightarrow> \<exists>r. extract_string_loop b i n result = Ok r"
proof (induction b i n result rule: extract_string_loop.induct)
  case (1 b i n result)
  show ?case
  proof (cases "n \<le> i")
    case True
    then show ?thesis
      by (subst extract_string_loop.simps) simp
  next
    case False
    then have "index b i = Ok (b ! i)"
      using 1(2) by (simp add: index_total)
    with False 1 show ?thesis
      by (subst extract_string_loop.simps) (auto simp: slice_def Let_def split: option.split)
  qed
qed

text \<open>Where a name can be extracted, its end is found too, also when the message is taken to be longer.\<close>

lemma extract_finds_end:
  "extract_string_loop b i n result = Ok (Some (s, e)) \<Longrightarrow> n \<le> n' \<Longrightarrow> find_string_seq_end b i n' = Ok (Some e) \<and> e \<le> n"
proof (induction b i n result rule: extract_string_loop.induct)
  case (1 b i n result)
  from 1(2) obtain len where len: "\<not> n \<le> i" "index b i = Ok len"
    by (subst (asm) extract_string_loop.simps) (auto split: if_split_asm sum.split_asm)
  show ?case
  proof (cases "len = 0")
    case True
    with 1(2,3) len show ?thesis
      by (subst (asm) extract_string_loop.simps) (auto simp: find_string_seq_end.simps)
  next
    case False
    with 1(2) len obtain l t where next_label: "\<not> n < i + 1 + unat len" "slice (i + 1) (i + 1 + unat len) b = Ok l"
      "from_utf8 l = Some t"
      "extract_string_loop b (i + 1 + unat len) n ((if result \<noteq> [] then result @ ''.'' else result) @ t) = Ok (Some (s, e))"
      by (subst (asm) extract_string_loop.simps) (auto simp: Let_def split: if_split_asm sum.split_asm option.split_asm)
    have "find_string_seq_end b (i + 1 + unat len) n' = Ok (Some e) \<and> e \<le> n"
      using 1(1) [OF len(1,2) False refl refl next_label(1-3) next_label(4) 1(3)] .
    with False len 1(3) show ?thesis
      by (subst find_string_seq_end.simps) (simp add: add.commute add.left_commute)
  qed
qed

section \<open>Sections\<close>

text \<open>What it takes to walk over a section: the end of an item lies behind its begin and inside the
  message, and is found again in any buffer with the same bytes up to there, also in a longer
  message; and no item makes the walk panic when the buffer is longer than the message.\<close>

locale section_items =
  fixes find_end :: "bytes \<Rightarrow> nat \<Rightarrow> nat \<Rightarrow> nat option run"
  assumes find_end_total: "n < length b \<Longrightarrow> \<exists>r. find_end b i n = Ok r"
    and find_end_bounds: "find_end b i n = Ok (Some e) \<Longrightarrow> i < e \<and> e \<le> n"
    and find_end_stable: "find_end b i n = Ok (Some e) \<Longrightarrow> same_between b b' i e \<Longrightarrow> n \<le> n' \<Longrightarrow> find_end b' i n' = Ok (Some e)"
begin

lemma ends_total: "n < length b \<Longrightarrow> \<exists>r. ends_loop find_end k b i n = Ok r"
proof (induction k arbitrary: i)
  case (Suc k)
  obtain r where "find_end b i n = Ok r"
    using find_end_total Suc.prems by blast
  with Suc show ?case
    by (cases r) simp_all
qed simp

lemma ends_bounds: "ends_loop find_end k b i n = Ok (Some e) \<Longrightarrow> i \<le> e \<and> e \<le> max i n"
proof (induction k arbitrary: i)
  case (Suc k)
  from Suc.prems obtain i' where "find_end b i n = Ok (Some i')" "ends_loop find_end k b i' n = Ok (Some e)"
    by (auto simp: try_opt_def elim!: bind_run_InrE split: option.split_asm)
  with Suc.IH find_end_bounds show ?case
    by fastforce
qed simp

lemma ends_stable:
  "ends_loop find_end k b i n = Ok (Some e) \<Longrightarrow> same_between b b' i e \<Longrightarrow> n \<le> n' \<Longrightarrow>
     ends_loop find_end k b' i n' = Ok (Some e)"
proof (induction k arbitrary: i)
  case (Suc k)
  from Suc.prems(1) obtain i' where i': "find_end b i n = Ok (Some i')" "ends_loop find_end k b i' n = Ok (Some e)"
    by (auto simp: try_opt_def elim!: bind_run_InrE split: option.split_asm)
  have "i < i'" "i' \<le> e"
    using find_end_bounds [OF i'(1)] ends_bounds [OF i'(2)] by simp_all
  then have "find_end b' i n' = Ok (Some i')" "ends_loop find_end k b' i' n' = Ok (Some e)"
    using find_end_stable [OF i'(1)] Suc.IH [OF i'(2)] Suc.prems(2,3) same_between_sub [OF Suc.prems(2)] by auto
  then show ?case
    by simp
qed simp

lemma ends_more:
  "ends_loop find_end (Suc k) b i n =
     try_opt (ends_loop find_end k b i n) (\<lambda>e. find_end b e n)"
proof (induction k arbitrary: i)
  case 0
  show ?case
    by (simp add: try_opt_def bind_run_def split: sum.split option.split)
next
  case (Suc k)
  show ?case
    by (subst ends_loop.simps(2), subst ends_loop.simps(2))
      (simp add: Suc.IH try_opt_def bind_run_def del: ends_loop.simps(2) split: sum.split option.split)
qed

end

lemma query_find_end_cases:
  assumes "query_find_end b i n = Ok (Some e)"
  obtains m where "find_string_seq_end b i n = Ok (Some m)" "e = m + 4" "e \<le> n"
  using assms by (auto simp: query_find_end_def try_opt_def Let_def elim!: bind_run_InrE split: option.split_asm if_split_asm)

lemma record_find_end_cases:
  assumes "record_find_end b i n = Ok (Some e)"
  obtains m k where "find_string_seq_end b i n = Ok (Some m)" "pf_u16_from b (m + 8) n = Ok (Some k)"
    "e = m + 10 + unat k" "e \<le> n"
  using assms by (auto simp: record_find_end_def try_opt_def Let_def elim!: bind_run_InrE split: option.split_asm if_split_asm)

interpretation question_section: section_items query_find_end
proof
  fix n i :: nat and b :: bytes
  assume "n < length b"
  then show "\<exists>r. query_find_end b i n = Ok r"
    using seq_end_total [of n b i] by (auto simp: query_find_end_def try_opt_def Let_def split: option.split)
next
  fix n i e :: nat and b :: bytes
  assume "query_find_end b i n = Ok (Some e)"
  then show "i < e \<and> e \<le> n"
    by (cases rule: query_find_end_cases) (use seq_end_moves in fastforce)
next
  fix n n' i e :: nat and b b' :: bytes
  assume *: "query_find_end b i n = Ok (Some e)" "same_between b b' i e" "n \<le> n'"
  then obtain m where m: "find_string_seq_end b i n = Ok (Some m)" "e = m + 4" "e \<le> n"
    by (metis query_find_end_cases)
  then have "find_string_seq_end b' i n' = Ok (Some m)"
    using * by (intro seq_end_stable [OF m(1) same_between_sub [OF *(2)]]) auto
  then show "query_find_end b' i n' = Ok (Some e)"
    using m * by (simp add: query_find_end_def)
qed

interpretation record_section: section_items record_find_end
proof
  fix n i :: nat and b :: bytes
  assume n: "n < length b"
  obtain r where r: "find_string_seq_end b i n = Ok r"
    using seq_end_total [OF n] by blast
  show "\<exists>r. record_find_end b i n = Ok r"
  proof (cases r)
    case (Some m)
    obtain k where "pf_u16_from b (m + 8) n = Ok k"
      using u16_from_total [of n b "m + 8"] n by auto
    with r Some show ?thesis
      by (cases k) (auto simp: record_find_end_def Let_def)
  qed (use r in \<open>simp add: record_find_end_def\<close>)
next
  fix n i e :: nat and b :: bytes
  assume "record_find_end b i n = Ok (Some e)"
  then show "i < e \<and> e \<le> n"
    by (cases rule: record_find_end_cases) (use seq_end_moves in fastforce)
next
  fix n n' i e :: nat and b b' :: bytes
  assume *: "record_find_end b i n = Ok (Some e)" "same_between b b' i e" "n \<le> n'"
  then obtain m k where m: "find_string_seq_end b i n = Ok (Some m)" "pf_u16_from b (m + 8) n = Ok (Some k)"
      "e = m + 10 + unat k" "e \<le> n"
    by (metis record_find_end_cases)
  then have "find_string_seq_end b' i n' = Ok (Some m)"
    using * by (intro seq_end_stable [OF m(1) same_between_sub [OF *(2)]]) auto
  moreover have "pf_u16_from b' (m + 8) n' = Ok (Some k)"
    using * m seq_end_moves [OF m(1)] by (intro u16_from_stable [OF m(2) same_between_sub [OF *(2)]]) auto
  ultimately show "record_find_end b' i n' = Ok (Some e)"
    using m * by (simp add: record_find_end_def)
qed

section \<open>Reading the sections\<close>

lemma query_new_total: "n \<le> length b \<Longrightarrow> \<exists>r. query_new b i n = Ok r"
proof -
  assume n: "n \<le> length b"
  obtain r where r: "extract_string_loop b i n [] = Ok r"
    using extract_total [OF n] by blast
  obtain a1 a2 where a: "pf_u16_from b (snd (the r)) n = Ok a1" "pf_u16_from b (snd (the r) + 2) n = Ok a2"
    using u16_from_total [OF n] by meson
  with r show ?thesis
    by (cases r; cases a1; cases a2) (auto simp: query_new_def extract_string_seq_def)
qed

lemma record_new_total: "n \<le> length b \<Longrightarrow> \<exists>r. resource_record_new b i n = Ok r"
proof -
  assume n: "n \<le> length b"
  obtain r where r: "extract_string_loop b i n [] = Ok r"
    using extract_total [OF n] by blast
  show ?thesis
  proof (cases r)
    case (Some p)
    obtain name m where p: "p = (name, m)"
      by (cases p)
    obtain a1 a2 a3 a4 where a: "pf_u16_from b m n = Ok a1" "pf_u16_from b (m + 2) n = Ok a2"
        "pf_u32_from b (m + 4) n = Ok a3" "pf_u16_from b (m + 8) n = Ok a4"
      using u16_from_total [OF n] u32_from_total [OF n] by meson
    have "i < m"
      using extract_finds_end [of b i n "[]" name m n] seq_end_moves r Some p by blast
    with a r Some p n show ?thesis
      by (cases a1; cases a2; cases a3; cases a4)
        (auto simp: resource_record_new_def extract_string_seq_def Let_def slice_def)
  qed (use r in \<open>simp add: resource_record_new_def extract_string_seq_def\<close>)
qed

lemma queries_loop_total: "n \<le> length b \<Longrightarrow> \<exists>r. queries_loop k b i n = Ok r"
proof (induction k arbitrary: i)
  case (Suc k)
  obtain r where "query_new b i n = Ok r"
    using query_new_total Suc.prems by blast
  moreover obtain r' where "queries_loop k b (i + q_length (the r)) n = Ok r'"
    using Suc by blast
  ultimately show ?case
    by (cases r; cases r') auto
qed simp

lemma records_loop_total: "n \<le> length b \<Longrightarrow> \<exists>r. records_loop k b i n = Ok r"
proof (induction k arbitrary: i)
  case (Suc k)
  obtain r where "resource_record_new b i n = Ok r"
    using record_new_total Suc.prems by blast
  moreover obtain r' where "records_loop k b (i + rr_length (the r)) n = Ok r'"
    using Suc by blast
  ultimately show ?case
    by (cases r; cases r') auto
qed simp

text \<open>Names that a label can carry between two dots.\<close>

definition short_parts :: "string \<Rightarrow> bool" where
  "short_parts s \<longleftrightarrow> list_all (\<lambda>p. length p < 256) (split_on CHR ''.'' s)"

lemma split_on_dot: "split_on c (s @ c # t) = split_on c s @ split_on c t"
  by (induction s) (auto split: list.split)

lemma length_split_part: "p \<in> set (split_on c s) \<Longrightarrow> length p \<le> length s"
  by (induction s arbitrary: p) (fastforce split: if_split_asm list.split_asm)+

lemma short_parts_short: "length s < 256 \<Longrightarrow> short_parts s"
  by (auto simp: short_parts_def list_all_iff dest!: length_split_part)

lemma short_parts_dot: "short_parts s \<Longrightarrow> short_parts t \<Longrightarrow> short_parts (s @ CHR ''.'' # t)"
  by (simp add: short_parts_def split_on_dot)

lemma extract_short_parts:
  "extract_string_loop b i n result = Ok (Some (s, e)) \<Longrightarrow> short_parts result \<Longrightarrow> short_parts s"
proof (induction b i n result rule: extract_string_loop.induct)
  case (1 b i n result)
  from 1(2) obtain len where len: "\<not> n \<le> i" "index b i = Ok len"
    by (subst (asm) extract_string_loop.simps) (auto split: if_split_asm sum.split_asm)
  show ?case
  proof (cases "len = 0")
    case True
    with 1(2,3) len show ?thesis
      by (subst (asm) extract_string_loop.simps) auto
  next
    case False
    with 1(2) len obtain l t where next_label: "\<not> n < i + 1 + unat len" "slice (i + 1) (i + 1 + unat len) b = Ok l"
      "from_utf8 l = Some t"
      "extract_string_loop b (i + 1 + unat len) n ((if result \<noteq> [] then result @ ''.'' else result) @ t) = Ok (Some (s, e))"
      by (subst (asm) extract_string_loop.simps) (auto simp: Let_def split: if_split_asm sum.split_asm option.split_asm)
    have "length l = unat len" "length t = length l"
      using next_label(2,3) by (auto simp: slice_def from_utf8_def text_of_def split: if_split_asm)
    then have "short_parts t"
      using unat_bound [of len] by (intro short_parts_short) simp
    then have "short_parts ((if result \<noteq> [] then result @ ''.'' else result) @ t)"
      using short_parts_dot [OF 1(3)] by auto
    then show ?thesis
      using 1(1) [OF len(1,2) False refl refl next_label(1-3) next_label(4)] by blast
  qed
qed

lemma query_new_cases:
  assumes "query_new b i n = Ok (Some q)" "n \<le> n'"
  shows "query_find_end b i n' = Ok (Some (i + q_length q)) \<and> short_parts (q_name q)"
proof -
  from assms(1) obtain name m a c where "extract_string_loop b i n [] = Ok (Some (name, m))"
      "pf_u16_from b m n = Ok (Some a)" "pf_u16_from b (m + 2) n = Ok (Some c)"
      "q = \<lparr> q_name = name, qtype = a, qclass = c, q_length = m + 4 - i \<rparr>"
    by (auto simp: query_new_def extract_string_seq_def try_opt_def elim!: bind_run_InrE split: option.split_asm)
  moreover have "short_parts []"
    by (simp add: short_parts_short)
  moreover have "m + 4 \<le> n"
    using \<open>pf_u16_from b (m + 2) n = Ok (Some c)\<close> by (simp add: pf_u16_from_def split: if_split_asm)
  ultimately show ?thesis
    using extract_finds_end [of b i n "[]" name m n'] seq_end_moves [of b i n' m] extract_short_parts [of b i n "[]" name m] assms(2)
    by (auto simp: query_find_end_def)
qed

lemma queries_loop_ends:
  "queries_loop k b i n = Ok (Some qs) \<Longrightarrow>
     (\<exists>e. ends_loop query_find_end k b i n = Ok (Some e)) \<and> list_all (short_parts \<circ> q_name) qs"
proof (induction k arbitrary: i qs)
  case (Suc k)
  from Suc.prems obtain q qs' where "query_new b i n = Ok (Some q)" "queries_loop k b (i + q_length q) n = Ok (Some qs')"
      "qs = q # qs'"
    by (auto simp: try_opt_def elim!: bind_run_InrE split: option.split_asm)
  with Suc.IH [of "i + q_length q" qs'] query_new_cases [of b i n q n] show ?case
    by auto
qed simp

section \<open>Writing behind the walks\<close>

lemma overwrite_frame:
  assumes "i + length xs \<le> length b"
  shows "length (overwrite i xs b) = length b" "same_between b (overwrite i xs b) 0 i"
    "k < length xs \<Longrightarrow> overwrite i xs b ! (i + k) = xs ! k"
  using assms by (auto simp: overwrite_def same_between_def nth_append)

lemma u16_to_frame: "pf_u16_to v b i = (ok, b') \<Longrightarrow> same_between b b' 0 i \<and> same_between b b' (i + 2) (length b)"
  by (auto simp: pf_u16_to_def same_between_def split: if_split_asm)

lemma u16_to_from:
  assumes "pf_u16_to v b i = (True, b')" "i + 2 \<le> n"
  shows "pf_u16_from b' i n = Ok (Some v)"
proof -
  have i: "i + 2 \<le> length b"
    using assms(1) by (simp add: pf_u16_to_def split: if_split_asm)
  then have "b' = take i b @ enc_u16 v @ drop 2 (drop i b)"
    using u16_to_at [of b "take i b" "drop i b" i v] assms(1) by simp
  then show ?thesis
    using i assms(2) by (intro u16_from_at [of _ "take i b" _ "drop 2 (drop i b)"]) (simp_all add: min_absorb2)
qed

lemma u32_to_frame: "pf_u32_to v b i = (ok, b') \<Longrightarrow> same_between b b' 0 i"
  by (auto simp: pf_u32_to_def Let_def split: prod.split_asm
      intro: same_between_trans dest!: u16_to_frame elim!: same_between_sub)

lemma add_parts_frame:
  "add_parts parts b i = (r, b') \<Longrightarrow> same_between b b' 0 i \<and> (\<forall>e. r = Some e \<longrightarrow> i \<le> e)"
proof (induction parts arbitrary: b i)
  case (Cons part parts)
  let ?x = "of_nat (length (ascii part)) # ascii part"
  show ?case
  proof (cases "i + length (ascii part) + 1 > length b")
    case False
    then have f: "same_between b (overwrite i ?x b) 0 i"
      by (intro overwrite_frame(2)) simp
    have "same_between (overwrite i ?x b) b' 0 (i + (1 + length (ascii part))) \<and> (\<forall>e. r = Some e \<longrightarrow> i + (1 + length (ascii part)) \<le> e)"
      using False Cons.prems by (intro Cons.IH) (simp add: Let_def)
    then show ?thesis
      using same_between_trans [OF f] same_between_sub by fastforce
  qed (use Cons.prems in simp)
qed auto

lemma add_parts_walk:
  assumes "add_parts parts b i = (Some e, b')" "list_all (\<lambda>p. length p < 256) parts"
    and "same_between b' c i e" "e < length c" "c ! e = 0" "e \<le> n"
  shows "\<exists>e1. find_string_seq_end c i n = Ok (Some e1)"
  using assms
proof (induction parts arbitrary: b i)
  case Nil
  then show ?case
    by (subst find_string_seq_end.simps) (auto simp: index_total)
next
  case (Cons part parts)
  let ?k = "length (ascii part)"
  let ?x = "of_nat ?k # ascii part"
  have fits: "i + length ?x \<le> length b" and rest: "add_parts parts (overwrite i ?x b) (i + (1 + ?k)) = (Some e, b')"
    using Cons.prems(1) by (auto simp: Let_def split: if_split_asm)
  have f: "same_between (overwrite i ?x b) b' 0 (i + (1 + ?k))" "i + (1 + ?k) \<le> e"
    using add_parts_frame [OF rest] by auto
  then have ci: "c ! i = of_nat ?k"
    using Cons.prems(3) overwrite_frame(3) [OF fits, of 0] by (simp add: same_between_def)
  have k: "?k < 256"
    using Cons.prems(2) by (simp add: ascii_def)
  have i: "i < length c" "i \<le> n"
    using f(2) Cons.prems(4,6) by simp_all
  show ?case
  proof (cases "?k = 0")
    case True
    with ci i show ?thesis
      by (subst find_string_seq_end.simps) (simp add: index_total)
  next
    case False
    have "\<exists>e1. find_string_seq_end c (i + (1 + ?k)) n = Ok (Some e1)"
      using Cons.prems same_between_sub [OF Cons.prems(3)] by (intro Cons.IH [OF rest]) auto
    with False i ci label_byte [of "ascii part"] k show ?thesis
      by (subst find_string_seq_end.simps) (simp add: index_total)
  qed
qed

lemma add_string_frame:
  assumes "add_string_seq b i s = (r, b')"
  shows "same_between b b' 0 i \<and> (\<forall>e. r = Some e \<longrightarrow> i < e)"
proof -
  obtain r1 b1 where 1: "(if s \<noteq> [] then add_parts (split_on CHR ''.'' s) b i else (Some i, b)) = (r1, b1)"
    by fastforce
  then have f: "same_between b b1 0 i \<and> (\<forall>e. r1 = Some e \<longrightarrow> i \<le> e)"
    using add_parts_frame [of "split_on CHR ''.'' s" b i r1 b1] by (auto split: if_split_asm)
  show ?thesis
  proof (cases r1)
    case (Some e)
    have "same_between b1 (b1[e := 0]) 0 i"
      using f Some by (auto simp: same_between_def)
    then show ?thesis
      using assms f Some 1 same_between_trans [of b b1 0 i "b1[e := 0]"] by (auto simp: add_string_seq_def split: if_split_asm)
  qed (use assms f 1 in \<open>auto simp: add_string_seq_def split: if_split_asm\<close>)
qed

lemma add_string_walk:
  assumes "add_string_seq b i s = (Some e, b')" "short_parts s" "same_between b' c i e" "e \<le> n"
  shows "\<exists>e1. find_string_seq_end c i n = Ok (Some e1)"
proof -
  obtain r1 b1 where 1: "(if s \<noteq> [] then add_parts (split_on CHR ''.'' s) b i else (Some i, b)) = (r1, b1)"
    by fastforce
  then obtain m where m: "r1 = Some m" "e = m + 1" "b' = b1[m := 0]" "m < length b1"
    using assms(1) by (cases r1) (auto simp: add_string_seq_def split: if_split_asm)
  have im: "i \<le> m"
    using 1 m(1) add_parts_frame [of "split_on CHR ''.'' s" b i r1 b1] by (auto split: if_split_asm)
  have c: "same_between b1 c i m" "m < length c" "c ! m = 0"
    using assms(3) m im by (auto simp: same_between_def)
  show ?thesis
  proof (cases "s = []")
    case True
    with 1 m c assms(4) show ?thesis
      by (subst find_string_seq_end.simps) (auto simp: index_total)
  next
    case False
    with 1 m have "add_parts (split_on CHR ''.'' s) b i = (Some m, b1)"
      by simp
    from add_parts_walk [OF this _ c] show ?thesis
      using assms(2,4) m by (simp add: short_parts_def)
  qed
qed

lemma write_record_frame:
  assumes "write_resource_record i name rt rc ttl dat self = (r, self')"
  shows "same_between (pf_buf self) (pf_buf self') 0 i \<and> pf_length self \<le> pf_length self' \<and>
    (r = None \<longrightarrow> pf_length self' = pf_length self) \<and> pf_length self' \<le> max (pf_length self) (length (pf_buf self))"
    and "r \<noteq> None \<Longrightarrow> short_parts name \<Longrightarrow> pf_length self' \<le> n \<Longrightarrow> \<exists>e. find_string_seq_end (pf_buf self') i n = Ok (Some e)"
proof -
  obtain r1 b1 where 1: "add_string_seq (pf_buf self) i name = (r1, b1)"
    by fastforce
  note f1 = add_string_frame [OF 1]
  have "(same_between (pf_buf self) (pf_buf self') 0 i \<and> pf_length self \<le> pf_length self' \<and>
      (r = None \<longrightarrow> pf_length self' = pf_length self) \<and> pf_length self' \<le> max (pf_length self) (length (pf_buf self))) \<and>
    (r \<noteq> None \<longrightarrow> (\<exists>e. r1 = Some e \<and> e \<le> pf_length self' \<and> same_between b1 (pf_buf self') 0 e))"
  proof (cases r1)
    case None
    with 1 f1 assms show ?thesis
      by (auto simp: write_resource_record_def)
  next
    case (Some e)
    obtain ok2 b2 where 2: "pf_u16_to rt b1 e = (ok2, b2)" by fastforce
    obtain ok3 b3 where 3: "pf_u16_to rc b2 (e + 2) = (ok3, b3)" by fastforce
    obtain ok4 b4 where 4: "pf_u32_to ttl b3 (e + 4) = (ok4, b4)" by fastforce
    obtain ok5 b5 where 5: "pf_u16_to (of_nat (length dat)) b4 (e + 8) = (ok5, b5)" by fastforce
    let ?b6 = "overwrite (e + 10) dat b5"
    have s2: "same_between b1 b2 0 e" and s3: "same_between b1 b3 0 e" and s4: "same_between b1 b4 0 e" and s5: "same_between b1 b5 0 e"
      using u16_to_frame [OF 2] u16_to_frame [OF 3] u32_to_frame [OF 4] u16_to_frame [OF 5]
      by (meson le_add1 order_refl same_between_sub same_between_trans)+
    have s6: "same_between b1 ?b6 0 e" if "e + 10 + length dat \<le> length b5"
      using that s5 overwrite_frame(2) [of "e + 10" dat b5]
      by (meson le_add1 order_refl same_between_sub same_between_trans)
    have s: "same_between (pf_buf self) c 0 i" if "same_between b1 c 0 e" for c
      using f1 Some by (intro same_between_trans [OF _ same_between_sub [OF that]]) auto
    have len: "length b5 = length (pf_buf self)"
      using s [OF s5] by (simp add: same_between_def)
    have "(r = None \<and> (\<exists>c \<in> {b2, b3, b4, b5}. self' = self\<lparr> pf_buf := c \<rparr>)) \<or>
        (r \<noteq> None \<and> e + 10 + length dat \<le> length b5 \<and>
         self' = \<lparr> pf_buf = ?b6, pf_length = max (pf_length self) (e + 10 + length dat) \<rparr>)"
      using assms by (simp add: write_resource_record_def 1 Some 2 3 4 5 establish_high_water_def Let_def
          del: add_2_eq_Suc add_2_eq_Suc' split: if_split_asm) auto
    then show ?thesis
    proof (elim disjE conjE)
      assume "r = None" and "\<exists>c \<in> {b2, b3, b4, b5}. self' = self\<lparr> pf_buf := c \<rparr>"
      then obtain c where c: "c \<in> {b2, b3, b4, b5}" "self' = self\<lparr> pf_buf := c \<rparr>"
        by blast
      moreover have "same_between (pf_buf self) c 0 i"
        using c(1) s [OF s2] s [OF s3] s [OF s4] s [OF s5] by blast
      ultimately show ?thesis
        using \<open>r = None\<close> by simp
    next
      assume "r \<noteq> None" "e + 10 + length dat \<le> length b5"
        and "self' = \<lparr> pf_buf = ?b6, pf_length = max (pf_length self) (e + 10 + length dat) \<rparr>"
      then show ?thesis
        using s6 s [OF s6] len Some by (auto simp: le_max_iff_disj)
    qed
  qed
  moreover have "\<exists>e. find_string_seq_end (pf_buf self') i n = Ok (Some e)"
    if "r1 = Some e" "e \<le> pf_length self'" "same_between b1 (pf_buf self') 0 e" "short_parts name" "pf_length self' \<le> n" for e
    using that 1 by (intro add_string_walk [of "pf_buf self" i name e b1]) (auto elim: same_between_sub)
  ultimately show "same_between (pf_buf self) (pf_buf self') 0 i \<and> pf_length self \<le> pf_length self' \<and>
    (r = None \<longrightarrow> pf_length self' = pf_length self) \<and> pf_length self' \<le> max (pf_length self) (length (pf_buf self))"
    "r \<noteq> None \<Longrightarrow> short_parts name \<Longrightarrow> pf_length self' \<le> n \<Longrightarrow> \<exists>e. find_string_seq_end (pf_buf self') i n = Ok (Some e)"
    by blast+
qed

section \<open>The invariant of the answer loop\<close>

text \<open>The questions can be walked over, and the walk over the answers does not panic.\<close>

definition walkable :: "packet_facade \<Rightarrow> bool" where
  "walkable self \<longleftrightarrow> pf_length self \<le> length (pf_buf self) \<and>
     (\<exists>qd qe an. count_at 4 self = Ok (Some qd) \<and> count_at 6 self = Ok an \<and>
        ends_loop query_find_end (unat qd) (pf_buf self) 12 (pf_length self) = Ok (Some qe) \<and>
        (\<forall>n. an = Some n \<longrightarrow> (\<exists>r. ends_loop record_find_end (unat n) (pf_buf self) qe (pf_length self) = Ok r)))"

lemma walkableE:
  assumes "walkable self"
  obtains qd qe an where "count_at 4 self = Ok (Some qd)" "count_at 6 self = Ok an"
    "ends_loop query_find_end (unat qd) (pf_buf self) 12 (pf_length self) = Ok (Some qe)"
    "\<And>n. an = Some n \<Longrightarrow> \<exists>r. ends_loop record_find_end (unat n) (pf_buf self) qe (pf_length self) = Ok r"
  using assms by (auto simp: walkable_def)

lemma counts_stable:
  "count_at p self = Ok (Some v) \<Longrightarrow> same_between (pf_buf self) (pf_buf self') p (p + 2) \<Longrightarrow> pf_length self \<le> pf_length self' \<Longrightarrow>
     count_at p self' = Ok (Some v)"
  unfolding count_at_def by (rule u16_from_stable)

lemma bump_walkable:
  assumes "pf_length self \<le> length (pf_buf self)" "count_at 4 self = Ok (Some qd)" "count_at 6 self = Ok (Some n)"
    and "ends_loop query_find_end (unat qd) (pf_buf self) 12 (pf_length self) = Ok (Some qe)"
    and "ends_loop record_find_end (unat n) (pf_buf self) qe (pf_length self) = Ok (Some ae)"
    and "12 \<le> qe" "qe \<le> ae" "find_string_seq_end (pf_buf self) ae (pf_length self) = Ok (Some e)"
  shows "\<exists>self'. bump_count 6 self = Ok (True, self') \<and> walkable self' \<and> pf_length self' = pf_length self \<and>
    same_between (pf_buf self) (pf_buf self') 0 6"
proof -
  let ?L = "pf_length self"
  have L: "8 \<le> ?L"
    using assms(3) by (simp add: count_at_def pf_u16_from_def split: if_split_asm)
  obtain b where b: "pf_u16_to (n + 1) (pf_buf self) 6 = (True, b)"
    using L assms(1) by (simp add: pf_u16_to_def)
  have same: "same_between (pf_buf self) b 0 6" "same_between (pf_buf self) b 8 (length (pf_buf self))"
    using u16_to_frame [OF b] by simp_all
  define self' where "self' = self\<lparr> pf_buf := b \<rparr>"
  have bump: "bump_count 6 self = Ok (True, self')"
    by (simp add: bump_count_def assms(3) b self'_def)
  have inside: "ae < e" "e \<le> length (pf_buf self)"
    using seq_end_moves [OF assms(8)] seq_end_inside [OF assms(8)] by simp_all
  have counts: "count_at 4 self' = Ok (Some qd)" "count_at 6 self' = Ok (Some (n + 1))"
    using counts_stable [OF assms(2), of self'] same_between_sub [OF same(1)] u16_to_from [OF b] L
    by (simp_all add: self'_def count_at_def)
  have q: "ends_loop query_find_end (unat qd) b 12 ?L = Ok (Some qe)"
    using inside assms(7) by (intro question_section.ends_stable [OF assms(4)] same_between_sub [OF same(2)]) auto
  have r: "ends_loop record_find_end (unat n) b qe ?L = Ok (Some ae)"
    using inside assms(6) by (intro record_section.ends_stable [OF assms(5)] same_between_sub [OF same(2)]) auto
  have "find_string_seq_end b ae ?L = Ok (Some e)"
    using inside assms(6,7) by (intro seq_end_stable [OF assms(8)] same_between_sub [OF same(2)]) auto
  moreover obtain k where "pf_u16_from b (e + 8) ?L = Ok k"
    using u16_from_total [of ?L b "e + 8"] assms(1) same(1) by (auto simp: same_between_def)
  ultimately have "\<exists>x. record_find_end b ae ?L = Ok x"
    by (cases k) (auto simp: record_find_end_def Let_def)
  with r have more: "\<exists>x. ends_loop record_find_end (Suc (unat n)) b qe ?L = Ok x"
    by (simp only: record_section.ends_more) simp
  have "unat (n + 1) = 0 \<or> unat (n + 1) = Suc (unat n)"
    by (metis add.commute unatSuc unat_0)
  then have "\<exists>x. ends_loop record_find_end (unat (n + 1)) b qe ?L = Ok x"
    using more by fastforce
  then have "walkable self'"
    using counts q assms(1) same(1) by (auto simp: walkable_def self'_def same_between_def)
  with bump same(1) show ?thesis
    by (auto simp: self'_def)
qed

lemma add_answer_walkable:
  assumes "walkable self" "short_parts name"
  shows "\<exists>ok self'. add_answer name rt rc ttl dat self = Ok (ok, self') \<and> walkable self' \<and> pf_length self \<le> pf_length self' \<and>
    same_between (pf_buf self) (pf_buf self') 0 6"
proof -
  from assms(1) obtain qd qe an where w: "count_at 4 self = Ok (Some qd)" "count_at 6 self = Ok an"
      "ends_loop query_find_end (unat qd) (pf_buf self) 12 (pf_length self) = Ok (Some qe)"
      "\<And>n. an = Some n \<Longrightarrow> \<exists>r. ends_loop record_find_end (unat n) (pf_buf self) qe (pf_length self) = Ok r"
    by (rule walkableE) blast
  have len: "pf_length self \<le> length (pf_buf self)"
    using assms(1) by (simp add: walkable_def)
  have qe: "12 \<le> qe"
    using question_section.ends_bounds [OF w(3)] by simp
  show ?thesis
  proof (cases "find_answers_end self = Ok None")
    case True
    with assms(1) show ?thesis
      by (auto simp: add_answer_def add_record_def)
  next
    case False
    then obtain n ae where ae: "an = Some n" "ends_loop record_find_end (unat n) (pf_buf self) qe (pf_length self) = Ok (Some ae)"
      "find_answers_end self = Ok (Some ae)"
      using w(1-3) w(4) by (cases an) (fastforce simp: find_answers_end_def find_queries_end_def)+
    have qa: "qe \<le> ae"
      using record_section.ends_bounds [OF ae(2)] by simp
    obtain r self1 where wr: "write_resource_record ae name rt rc ttl dat self = (r, self1)"
      by fastforce
    note f = write_record_frame(1) [OF wr]
    note sub = same_between_sub [OF conjunct1 [OF f]]
    have len1: "pf_length self1 \<le> length (pf_buf self1)"
      using f len by (auto simp: same_between_def)
    have c: "count_at 4 self1 = Ok (Some qd)" "count_at 6 self1 = Ok (Some n)"
      using f qe qa w(2) ae(1) counts_stable [OF w(1) sub] counts_stable [of 6 self n self1, OF _ sub] by simp_all
    have q: "ends_loop query_find_end (unat qd) (pf_buf self1) 12 (pf_length self1) = Ok (Some qe)"
      using f qa by (intro question_section.ends_stable [OF w(3) sub]) auto
    have a: "ends_loop record_find_end (unat n) (pf_buf self1) qe (pf_length self1) = Ok (Some ae)"
      using f by (intro record_section.ends_stable [OF ae(2) sub]) auto
    have w1: "walkable self1"
      using len1 c q a by (auto simp: walkable_def)
    have s6: "same_between (pf_buf self) (pf_buf self1) 0 6"
      using qe qa by (intro sub) auto
    show ?thesis
    proof (cases r)
      case None
      with w1 f s6 wr ae(3) show ?thesis
        by (auto simp: add_answer_def add_record_def)
    next
      case (Some k)
      then obtain e where "find_string_seq_end (pf_buf self1) ae (pf_length self1) = Ok (Some e)"
        using write_record_frame(2) [OF wr _ assms(2) order_refl] by auto
      from bump_walkable [OF len1 c q a qe qa this] obtain self' where
        b: "bump_count 6 self1 = Ok (True, self')" "walkable self'" "pf_length self' = pf_length self1"
        "same_between (pf_buf self1) (pf_buf self') 0 6"
        by blast
      then show ?thesis
        using f s6 wr ae(3) Some same_between_trans [OF s6] by (auto simp: add_answer_def add_record_def)
    qed
  qed
qed

section \<open>Every datagram is answered\<close>

lemma count_at_total: "pf_length self \<le> length (pf_buf self) \<Longrightarrow> \<exists>r. count_at p self = Ok r"
  unfolding count_at_def by (rule u16_from_total)

lemma get_queries_total: "pf_length self \<le> length (pf_buf self) \<Longrightarrow> \<exists>r. get_queries self = Ok r"
  using count_at_total [of self 4] queries_loop_total [of "pf_length self" "pf_buf self"]
  by (auto simp: get_queries_def try_opt_def split: option.split)

lemma get_answers_from:
  assumes "pf_length self \<le> length (pf_buf self)" "find_queries_end self = Ok r"
  shows "\<exists>x. get_answers self = Ok x"
  using assms count_at_total [of self 6] records_loop_total [of "pf_length self" "pf_buf self"]
  by (cases r) (auto simp: get_answers_def try_opt_def split: option.split)

lemma get_answers_walkable: "walkable self \<Longrightarrow> \<exists>x. get_answers self = Ok x"
  by (rule walkableE [of self]) (auto simp: walkable_def find_queries_end_def intro!: get_answers_from)

lemma get_answers_short:
  assumes "pf_length self < length (pf_buf self)"
  shows "\<exists>x. get_answers self = Ok x"
proof -
  obtain r where "count_at 4 self = Ok r"
    using count_at_total assms by (meson less_imp_le)
  then have "\<exists>x. find_queries_end self = Ok x"
    using question_section.ends_total [OF assms] by (cases r) (simp_all add: find_queries_end_def)
  then show ?thesis
    using assms get_answers_from by (metis less_imp_le)
qed

lemma walkable_queries:
  assumes "pf_length self < length (pf_buf self)" "get_queries self = Ok (Some qs)"
  shows "walkable self \<and> list_all (short_parts \<circ> q_name) qs"
proof -
  obtain qd where qd: "count_at 4 self = Ok (Some qd)" "queries_loop (unat qd) (pf_buf self) 12 (pf_length self) = Ok (Some qs)"
    using assms(2) by (auto simp: get_queries_def try_opt_def elim!: bind_run_InrE split: option.split_asm)
  obtain an where "count_at 6 self = Ok an"
    using count_at_total assms(1) by (meson less_imp_le)
  with qd queries_loop_ends [OF qd(2)] record_section.ends_total [OF assms(1)] assms(1) show ?thesis
    by (auto simp: walkable_def)
qed

definition replied :: "bytes \<Rightarrow> packet_facade \<Rightarrow> bool" where
  "replied b self \<longleftrightarrow> same_between b (pf_buf self) 0 2 \<and> bit (pf_buf self ! 2) 7"

lemma reply_bit: "bit (reply_b2 b) 7" "bit ((b AND 0x7F) OR 0x80 :: u8) 7"
  by (simp_all add: reply_b2_def bit_simps)

lemma make_error_replies:
  assumes "12 < length (pf_buf self)"
  shows "\<exists>self'. make_error c self = (12, self') \<and> pf_length self' = 12 \<and> replied (pf_buf self) self'"
  using assms reply_bit(1) [of "pf_buf self ! 2"]
  by (simp add: make_error_def HEADER_BYTES_def set_query_def set_authoritative_answer_def set_truncated_def
      set_recursion_available_def set_authenticated_data_def set_checking_disabled_def set_rcode_def set_byte_def
      pf_clear_def pf_u16_to_def replied_def same_between_def reply_b2_def)

lemma response_flags_reply:
  assumes "12 < length (pf_buf self)"
  shows "\<exists>self'. response_flags self = (True, self') \<and> pf_length self' = pf_length self \<and> replied (pf_buf self) self'"
  using assms reply_bit(1) [of "pf_buf self ! 2"]
  by (simp add: response_flags_def and_set_def set_query_def set_authoritative_answer_def set_truncated_def
      set_recursion_available_def set_authenticated_data_def set_checking_disabled_def set_byte_def
      replied_def same_between_def reply_b2_def)

lemma replied_trans: "same_between b b' 0 6 \<Longrightarrow> bit (b ! 2) 7 \<Longrightarrow> replied b' self \<Longrightarrow> replied b self"
  by (auto simp: replied_def same_between_def)

definition reply_ready :: "bytes \<Rightarrow> (nat \<times> packet_facade) run \<Rightarrow> bool" where
  "reply_ready b m \<longleftrightarrow> (\<exists>size self. m = Ok (size, self) \<and> 3 \<le> size \<and> size \<le> length b \<and> replied b self \<and>
     (\<exists>x. get_answers self = Ok x))"

lemma reply_ready_error:
  assumes "12 < length (pf_buf self)"
  shows "reply_ready (pf_buf self) (Ok (make_error c self))"
proof -
  obtain self' where e: "make_error c self = (12, self')" "pf_length self' = 12" "replied (pf_buf self) self'"
    using make_error_replies [OF assms] by blast
  then have "\<exists>x. get_answers self' = Ok x"
    using assms by (intro get_answers_short) (simp add: replied_def same_between_def)
  with e assms show ?thesis
    by (simp add: reply_ready_def)
qed

lemma reply_ready_queries:
  assumes "walkable self" "list_all (short_parts \<circ> q_name) qs" "12 < length (pf_buf self)" "3 \<le> pf_length self"
    and "bit (pf_buf self ! 2) 7"
  shows "reply_ready (pf_buf self) (answer_queries lib qs self)"
  using assms
proof (induction qs arbitrary: self)
  case Nil
  then show ?case
    using get_answers_walkable [of self] by (auto simp: reply_ready_def replied_def walkable_def)
next
  case (Cons q qs)
  have "reply_ready (pf_buf self)
      (bind_run (add_answer (q_name q) (qtype q) (class_in lib) 3600 dat self) (\<lambda>(_, f). answer_queries lib qs f))" for dat
  proof -
    obtain ok self' where a: "add_answer (q_name q) (qtype q) (class_in lib) 3600 dat self = Ok (ok, self')" "walkable self'"
        "pf_length self \<le> pf_length self'" "same_between (pf_buf self) (pf_buf self') 0 6"
      using add_answer_walkable [OF Cons.prems(1), of "q_name q"] Cons.prems(2) by fastforce
    have "reply_ready (pf_buf self') (answer_queries lib qs self')"
      using a Cons.prems by (intro Cons.IH) (auto simp: same_between_def)
    then show ?thesis
      using a(1,4) replied_trans [OF a(4) Cons.prems(5)] by (auto simp: reply_ready_def same_between_def)
  qed
  then show ?case
    using reply_ready_error [OF Cons.prems(3)]
    by (auto simp: make_not_implemented_error_def split: record_type.split)
qed

lemma reply_ready_response:
  assumes "pf_length self < length (pf_buf self)" "12 < length (pf_buf self)"
  shows "reply_ready (pf_buf self) (make_response lib self)"
proof -
  note err = reply_ready_error [OF assms(2)]
  obtain self1 where f: "response_flags self = (True, self1)" "pf_length self1 = pf_length self" "replied (pf_buf self) self1"
    using response_flags_reply [OF assms(2)] by blast
  have len: "length (pf_buf self1) = length (pf_buf self)"
    using f(3) by (simp add: replied_def same_between_def)
  have same: "reply_ready (pf_buf self) m" if "reply_ready (pf_buf self1) m" for m
    using that f(3) len by (auto simp: reply_ready_def replied_def same_between_def)
  obtain r where r: "get_queries self1 = Ok r"
    using get_queries_total [of self1] assms(1) f(2) len by auto
  have "reply_ready (pf_buf self) (answer_queries lib qs self1)" if "r = Some qs" "3 \<le> pf_length self" for qs
    using walkable_queries [of self1 qs] that r f assms len
    by (intro same reply_ready_queries) (auto simp: replied_def)
  moreover have "reply_ready (pf_buf self) (Ok (make_error c self1))" for c
    using assms(2) len by (intro same reply_ready_error) simp
  moreover have "3 \<le> pf_length self" if "get_opcode self = Some x" for x
    using that by (simp add: get_opcode_def req_len_opt_def split: if_split_asm)
  ultimately show ?thesis
    using err f(1) r
    by (auto simp: make_response_def make_format_error_def make_not_implemented_error_def split: option.split)
qed

lemma process_replies:
  assumes "n < length b" "12 < length b"
  shows "\<exists>size b'. process lib b n = Ok (size, b') \<and> 3 \<le> size \<and> size \<le> length b' \<and> length b' = length b \<and>
    take 2 b' = take 2 b \<and> bit (b' ! 2) 7"
proof -
  obtain r where "get_queries (facade_new b n) = Ok r"
    using get_queries_total [of "facade_new b n"] assms by (auto simp: facade_new_def)
  moreover have "reply_ready b (make_response lib (facade_new b n))"
    using reply_ready_response [of "facade_new b n" lib] assms by (simp add: facade_new_def)
  moreover have "take 2 b' = take 2 b" if "same_between b b' 0 2" for b'
    using that assms(2) by (intro nth_take_lemma) (auto simp: same_between_def)
  ultimately obtain size self x where "make_response lib (facade_new b n) = Ok (size, self)" "3 \<le> size" "size \<le> length b"
      "take 2 (pf_buf self) = take 2 b" "bit (pf_buf self ! 2) 7" "length (pf_buf self) = length b" "get_answers self = Ok x"
    unfolding reply_ready_def replied_def same_between_def by blast
  with \<open>get_queries (facade_new b n) = Ok r\<close> show ?thesis
    by (simp add: process_def)
qed

definition datagrams :: "datagram_answer list \<Rightarrow> (bytes \<times> socket_addr) list" where
  "datagrams = List.map_filter (\<lambda>a. case a of Datagram d addr \<Rightarrow> Some (d, addr) | _ \<Rightarrow> None)"

definition answers_to :: "bytes \<times> socket_addr \<Rightarrow> bytes \<times> socket_addr \<Rightarrow> bool" where
  "answers_to d r \<longleftrightarrow> snd r = snd d \<and> 3 \<le> length (fst r) \<and> bit (fst r ! 2) 7 \<and>
     (2 \<le> length (fst d) \<longrightarrow> take 2 (fst r) = take 2 (fst d))"

text \<open>How a poll ends at the first answer of the socket that it does not serve.\<close>

fun poll_ends :: "(bytes \<Rightarrow> socket_addr \<Rightarrow> bool) \<Rightarrow> datagram_answer list \<Rightarrow> async_result \<Rightarrow> bool" where
  "poll_ends send_ok [] r \<longleftrightarrow> r = NotReady"
| "poll_ends send_ok (NoDatagram # _) r \<longleftrightarrow> r = NotReady"
| "poll_ends send_ok (RecvError # _) r \<longleftrightarrow> r = Failed"
| "poll_ends send_ok (Datagram d addr # _) r \<longleftrightarrow>
     r = Failed \<and> (\<exists>b. answers_to (d, addr) (b, addr) \<and> \<not> send_ok b addr)"

definition poll_serves :: "(bytes \<Rightarrow> socket_addr \<Rightarrow> bool) \<Rightarrow> datagram_answer list \<Rightarrow> async_result \<Rightarrow>
    (bytes \<times> socket_addr) list \<Rightarrow> datagram_answer list \<Rightarrow> bool" where
  "poll_serves send_ok incoming r replies rest \<longleftrightarrow>
     (\<exists>n. list_all2 (\<lambda>a reply. \<exists>d addr. a = Datagram d addr \<and> answers_to (d, addr) reply \<and> send_ok (fst reply) addr)
        (take n incoming) replies \<and>
      poll_ends send_ok (drop n incoming) r \<and> rest = drop (Suc n) incoming)"

lemma poll_serves_now: "poll_ends send_ok incoming r \<Longrightarrow> poll_serves send_ok incoming r [] (tl incoming)"
  unfolding poll_serves_def by (intro exI [of _ 0]) (simp add: drop_Suc)

lemma poll_serves_next:
  assumes "poll_serves send_ok incoming r replies rest" "answers_to (d, addr) (b, addr)" "send_ok b addr"
  shows "poll_serves send_ok (Datagram d addr # incoming) r ((b, addr) # replies) rest"
proof -
  obtain n where "list_all2 (\<lambda>a reply. \<exists>d addr. a = Datagram d addr \<and> answers_to (d, addr) reply \<and> send_ok (fst reply) addr)
      (take n incoming) replies" "poll_ends send_ok (drop n incoming) r" "rest = drop (Suc n) incoming"
    using assms(1) unfolding poll_serves_def by blast
  with assms(2,3) show ?thesis
    unfolding poll_serves_def by (intro exI [of _ "Suc n"]) simp
qed

lemma poll_answers:
  assumes "\<forall>(d, addr) \<in> set (datagrams (dss_incoming srv)). length d < 65536" "dss_buf srv = replicate 65536 0"
  shows "\<exists>r srv' replies. dns_poll lib send_ok srv = Ok (r, srv') \<and> dss_sent srv' = dss_sent srv @ replies \<and>
    poll_serves send_ok (dss_incoming srv) r replies (dss_incoming srv')"
  using assms
proof (induction "dss_incoming srv" arbitrary: srv)
  case Nil
  then show ?case
    using poll_serves_now [of send_ok "[]" NotReady] by (subst dns_poll.simps) auto
next
  case (Cons a rest)
  show ?case
  proof (cases a)
    case (Datagram d addr)
    have ds: "datagrams (dss_incoming srv) = (d, addr) # datagrams rest"
      using Datagram by (simp add: Cons.hyps(2) [symmetric] datagrams_def List.map_filter_def)
    have d: "length d < 65536"
      using Cons.prems(1) ds by simp
    let ?b = "d @ replicate (65536 - length d) 0"
    have buffer: "overwrite 0 (take (min (length d) (length (dss_buf srv))) d) (dss_buf srv) = ?b"
      using d Cons.prems(2) by (simp add: overwrite_def)
    obtain size b' where p: "process lib ?b (length d) = Ok (size, b')" "3 \<le> size" "size \<le> length b'"
        "take 2 b' = take 2 ?b" "bit (b' ! 2) 7"
      using process_replies [of "length d" ?b lib] d by auto
    have to: "answers_to (d, addr) (take size b', addr)"
      using p(2-5) by (auto simp: answers_to_def)
    let ?srv = "srv\<lparr> dss_incoming := rest, dss_sent := dss_sent srv @ [(take size b', addr)] \<rparr>"
    have poll: "dns_poll lib send_ok srv =
        (if send_ok (take size b') addr then dns_poll lib send_ok ?srv else Ok (Failed, srv\<lparr> dss_incoming := rest \<rparr>))"
      using Cons.hyps(2) [symmetric] Datagram p d Cons.prems(2) buffer
      by (subst dns_poll.simps) (simp add: Let_def slice_def min_def)
    show ?thesis
    proof (cases "send_ok (take size b') addr")
      case True
      have srv: "rest = dss_incoming ?srv" "\<forall>(d, addr) \<in> set (datagrams (dss_incoming ?srv)). length d < 65536"
          "dss_buf ?srv = replicate 65536 0"
        using Cons.prems ds by simp_all
      obtain r srv' replies where ih: "dns_poll lib send_ok ?srv = Ok (r, srv')" "dss_sent srv' = dss_sent ?srv @ replies"
          "poll_serves send_ok (dss_incoming ?srv) r replies (dss_incoming srv')"
        using Cons.hyps(1) [OF srv] by blast
      have "poll_serves send_ok (dss_incoming srv) r ((take size b', addr) # replies) (dss_incoming srv')"
        using poll_serves_next [OF ih(3) to True] Cons.hyps(2) [symmetric] Datagram by simp
      moreover have "dns_poll lib send_ok srv = Ok (r, srv')"
        "dss_sent srv' = dss_sent srv @ (take size b', addr) # replies"
        using True poll ih(1,2) by simp_all
      ultimately show ?thesis by blast
    next
      case False
      then have "poll_ends send_ok (dss_incoming srv) Failed"
        using to Cons.hyps(2) [symmetric] Datagram by auto
      with False poll show ?thesis
        using poll_serves_now [of send_ok "dss_incoming srv" Failed] Cons.hyps(2) [symmetric] by simp
    qed
  next
    case NoDatagram
    then show ?thesis
      using poll_serves_now [of send_ok "dss_incoming srv" NotReady] Cons.hyps(2) [symmetric] by (subst dns_poll.simps) simp
  next
    case RecvError
    then show ?thesis
      using poll_serves_now [of send_ok "dss_incoming srv" Failed] Cons.hyps(2) [symmetric] by (subst dns_poll.simps) simp
  qed
qed

text \<open>C17. No datagram makes the DNS server panic: whatever bytes are waiting at the socket, a poll serves
  some first datagrams in the order of their arrival, each with one message that is sent to its sender, is
  marked as a response and carries the identifier of the request; and it stops only where the socket has
  nothing more or fails, or where the operating system refuses the reply to the next datagram, which is
  then lost and fails the task.\<close>

theorem dns_never_panics:
  assumes "\<forall>(d, addr) \<in> set (datagrams incoming). length d < 65536"
  shows "\<exists>r srv. dns_poll lib send_ok (dns_socket_server_new incoming) = Ok (r, srv) \<and>
    poll_serves send_ok incoming r (dss_sent srv) (dss_incoming srv)"
  using poll_answers [of "dns_socket_server_new incoming" lib send_ok] assms by (auto simp: dns_socket_server_new_def)

text \<open>Three datagrams at a socket that takes no reply longer than 512 bytes.\<close>

theorem dns_never_panics_witness:
  "\<exists>r srv. dns_poll demo_dns (\<lambda>b _. length b \<le> 512)
      (dns_socket_server_new [Datagram [7, 9, 1] demo_asker, Datagram [] demo_asker, Datagram [1, 2, 3, 4, 255, 255] demo_asker]) = Ok (r, srv) \<and>
    poll_serves (\<lambda>b _. length b \<le> 512)
      [Datagram [7, 9, 1] demo_asker, Datagram [] demo_asker, Datagram [1, 2, 3, 4, 255, 255] demo_asker] r (dss_sent srv) (dss_incoming srv)"
  using dns_never_panics [of "[Datagram [7, 9, 1] demo_asker, Datagram [] demo_asker, Datagram [1, 2, 3, 4, 255, 255] demo_asker]"
      demo_dns "\<lambda>b _. length b \<le> 512"]
  by (simp add: datagrams_def List.map_filter_def)

end
