(* ===== verification/StreamReader.thy ===== *)
theory StreamReader
  imports "HOL-Library.Stream" HttpFraming NeighborhoodActor ProtocolPack StreamWriters
begin

text \<open>
  The task that reads a stream: \<open>stream_reader.rs\<close>, with the discriminator factories
  (\<open>http_request_start_finder.rs\<close>, \<open>tls_discriminator_factory.rs\<close>,
  \<open>json_discriminator_factory.rs\<close>), the configuration of the ports (\<open>bootstrapper.rs\<close>) and the
  message that ends a stream (\<open>stream_messages.rs\<close>).

  A framer behind \<open>Box<dyn Framer>\<close> is a sum of the three framers of the node. The loop that takes
  chunks until there are none has no bound in the source; it is a partial function whose value is
  \<open>None\<close> when it does not return. So is the loop of a poll, which works on the endless stream of the
  answers the socket gives to successive calls of \<open>poll_read\<close>; a poll on a list of answers is the one
  on a socket that is not ready after them.
\<close>

section \<open>Framers and discriminators behind trait objects\<close>

datatype dyn_framer =
    HttpPacketFramer http_framer_state
  | TlsFramer tls_framer
  | JsonFramer json_framer

text \<open>The libraries: the patterns of the HTTP framer and of the CONNECT test, and the JSON codec.\<close>

record reader_env =
  re_regexes :: http_regexes
  re_codec :: json_codec
  re_web :: web_env

fun dyn_add_data :: "dyn_framer \<Rightarrow> bytes \<Rightarrow> dyn_framer" where
  "dyn_add_data (HttpPacketFramer s) dat = HttpPacketFramer (http_add_data s dat)"
| "dyn_add_data (TlsFramer s) dat = TlsFramer (tls_add_data s dat)"
| "dyn_add_data (JsonFramer s) dat = JsonFramer (json_add_data s dat)"

fun dyn_take_frame :: "reader_env \<Rightarrow> dyn_framer \<Rightarrow> (framed_chunk option \<times> dyn_framer) run" where
  "dyn_take_frame env (HttpPacketFramer s) =
     bind_run (http_take_frame (re_regexes env) request_seek_packet_start s) (\<lambda>(r, t).
       Ok (r, HttpPacketFramer t))"
| "dyn_take_frame env (TlsFramer s) = bind_run (tls_take_frame s) (\<lambda>(r, t). Ok (r, TlsFramer t))"
| "dyn_take_frame env (JsonFramer s) = bind_run (json_take_frame s) (\<lambda>(r, t). Ok (r, JsonFramer t))"

datatype discriminator_factory =
    HttpRequestDiscriminatorFactory
  | TlsDiscriminatorFactory
  | JsonDiscriminatorFactory

fun make_discriminator :: "reader_env \<Rightarrow> discriminator_factory \<Rightarrow> dyn_framer discriminator run" where
  "make_discriminator env HttpRequestDiscriminatorFactory =
     new_discriminator (HttpPacketFramer new_http_state) [null_try_unmask]"
| "make_discriminator env TlsDiscriminatorFactory =
     new_discriminator (TlsFramer tls_new) [null_try_unmask]"
| "make_discriminator env JsonDiscriminatorFactory =
     new_discriminator (JsonFramer json_new) [json_try_unmask (re_codec env)]"

record port_configuration =
  discriminator_factories :: "discriminator_factory list"
  pc_is_clandestine :: bool

definition HTTP_PORT_CONFIGURATION :: port_configuration where
  "HTTP_PORT_CONFIGURATION =
     \<lparr> discriminator_factories = [HttpRequestDiscriminatorFactory], pc_is_clandestine = False \<rparr>"

definition TLS_PORT_CONFIGURATION :: port_configuration where
  "TLS_PORT_CONFIGURATION =
     \<lparr> discriminator_factories = [TlsDiscriminatorFactory, HttpRequestDiscriminatorFactory],
       pc_is_clandestine = False \<rparr>"

definition CLANDESTINE_PORT_CONFIGURATION :: port_configuration where
  "CLANDESTINE_PORT_CONFIGURATION =
     \<lparr> discriminator_factories = [JsonDiscriminatorFactory], pc_is_clandestine = True \<rparr>"

section \<open>The reader\<close>

record remove_stream_msg =
  rsm_local_addr :: socket_addr
  rsm_peer_addr :: socket_addr
  rsm_stream_type :: removed_stream_type

datatype reader_output = ToDispatcher inbound_client_data | ToPool remove_stream_msg

record stream_reader =
  sr_local_addr :: socket_addr
  sr_peer_addr :: socket_addr
  sr_reception_port :: "u16 option"
  sr_discriminators :: "dyn_framer discriminator list"
  sr_is_clandestine :: bool
  sr_sequencer :: sequencer

definition stream_reader_new ::
    "reader_env \<Rightarrow> u16 option \<Rightarrow> discriminator_factory list \<Rightarrow> bool \<Rightarrow> socket_addr \<Rightarrow> socket_addr
       \<Rightarrow> stream_reader run" where
  "stream_reader_new env reception_port_opt factories clandestine peer_addr local_addr =
     (if factories = [] then Err ExplicitPanic
      else bind_run (map_run (make_discriminator env) factories) (\<lambda>discriminators.
        Ok \<lparr> sr_local_addr = local_addr, sr_peer_addr = peer_addr, sr_reception_port = reception_port_opt,
             sr_discriminators = discriminators, sr_is_clandestine = clandestine,
             sr_sequencer = new_sequencer \<rparr>))"

definition chunk_sequence_number ::
    "bool \<Rightarrow> unmasked_chunk \<Rightarrow> sequencer \<Rightarrow> u64 option \<times> sequencer" where
  "chunk_sequence_number connect c sq =
     (if um_sequenced c \<and> \<not> connect
      then (let (n, sq') = next_sequence_number sq in (Some n, sq'))
      else if connect then (Some 0, sq)
      else (None, sq))"

definition chunk_message :: "stream_reader \<Rightarrow> u64 option \<Rightarrow> unmasked_chunk \<Rightarrow> inbound_client_data" where
  "chunk_message self sn c =
     \<lparr> ibcd_peer_addr = sr_peer_addr self, reception_port = sr_reception_port self,
       ibcd_last_data = False, is_clandestine = sr_is_clandestine self,
       ibcd_sequence_number = sn, ibcd_data = um_chunk c \<rparr>"

text \<open>The loop of \<open>wrangle_discriminators\<close> on the chosen discriminator.\<close>

partial_function (option) wrangle_loop ::
    "reader_env \<Rightarrow> stream_reader \<Rightarrow> bool \<Rightarrow> dyn_framer discriminator \<Rightarrow> sequencer
       \<Rightarrow> (inbound_client_data list \<times> dyn_framer discriminator \<times> sequencer) run option" where
  "wrangle_loop env self connect d sq =
     (case take_chunk (dyn_take_frame env) d of
        Inl e \<Rightarrow> Some (Err e)
      | Inr (r, d') \<Rightarrow>
          (case r of
             None \<Rightarrow> Some (Ok ([], d', sq))
           | Some c \<Rightarrow>
               Option.bind (wrangle_loop env self connect d' (snd (chunk_sequence_number connect c sq)))
                 (\<lambda>res. Some (bind_run res (\<lambda>(msgs, d'', sq'').
                    Ok (chunk_message self (fst (chunk_sequence_number connect c sq)) c # msgs,
                        d'', sq''))))))"

definition wrangle_discriminators ::
    "reader_env \<Rightarrow> stream_reader \<Rightarrow> bytes \<Rightarrow> nat \<Rightarrow> (inbound_client_data list \<times> stream_reader) run option"
where
  "wrangle_discriminators env self buf' len =
     (let connect = is_connect (re_web env) buf';
          i = (if 1 < length (sr_discriminators self) \<and> connect then 1 else 0)
      in case index (sr_discriminators self) i of
           Inl e \<Rightarrow> Some (Err e)
         | Inr chosen \<Rightarrow>
             Option.bind (wrangle_loop env self connect (disc_add_data dyn_add_data chosen (take len buf'))
                 (sr_sequencer self))
               (\<lambda>res. Some (bind_run res (\<lambda>(msgs, d, sq).
                  Ok (msgs, self\<lparr> sr_discriminators := (sr_discriminators self)[i := d],
                                  sr_sequencer := sq \<rparr>)))))"

definition reader_shutdown :: "stream_reader \<Rightarrow> (remove_stream_msg \<times> stream_reader) run" where
  "reader_shutdown self =
     (if sr_is_clandestine self
      then Ok (\<lparr> rsm_local_addr = sr_local_addr self, rsm_peer_addr = sr_peer_addr self,
                 rsm_stream_type = Clandestine \<rparr>, self)
      else bind_run (expect (sr_reception_port self)) (\<lambda>p.
        let (n, sq) = next_sequence_number (sr_sequencer self)
        in Ok (\<lparr> rsm_local_addr = sr_local_addr self, rsm_peer_addr = sr_peer_addr self,
                 rsm_stream_type = NonClandestine \<lparr> nca_reception_port = p, nca_sequence_number = n \<rparr> \<rparr>,
               self\<lparr> sr_sequencer := sq \<rparr>)))"

datatype read_answer = ReadBytes bytes | ReadNotReady | ReadError io_error_kind

definition READ_BUFFER :: bytes where
  "READ_BUFFER = replicate 0x10000 0"

text \<open>One poll. The buffer is made once per poll, so a read leaves the bytes of a longer earlier read
  behind its own, and the CONNECT test looks at the whole buffer. The loop goes on until the socket is
  not ready, is at its end or fails with an error of a dead stream.\<close>

partial_function (option) reader_run ::
    "reader_env \<Rightarrow> read_answer stream \<Rightarrow> bytes \<Rightarrow> stream_reader
       \<Rightarrow> (async_result \<times> reader_output list \<times> stream_reader) run option" where
  "reader_run env answers' buf' self =
     (case shd answers' of
        ReadNotReady \<Rightarrow> Some (Ok (NotReady, [], self))
      | ReadBytes dat \<Rightarrow>
          if dat = []
          then Some (bind_run (reader_shutdown self) (\<lambda>(m, self'). Ok (Ready, [ToPool m], self')))
          else (case wrangle_discriminators env self (dat @ drop (length dat) buf') (length dat) of
                  None \<Rightarrow> None
                | Some res \<Rightarrow>
                    (case res of
                       Inl e \<Rightarrow> Some (Err e)
                     | Inr (msgs, self') \<Rightarrow>
                         Option.bind (reader_run env (stl answers') (dat @ drop (length dat) buf') self')
                           (\<lambda>fin. Some (bind_run fin (\<lambda>(r, outs, self'').
                              Ok (r, map ToDispatcher msgs @ outs, self''))))))
      | ReadError e \<Rightarrow>
          if indicates_dead_stream e
          then Some (bind_run (reader_shutdown self) (\<lambda>(m, self'). Ok (Failed, [ToPool m], self')))
          else reader_run env (stl answers') buf' self)"

definition reader_poll ::
    "reader_env \<Rightarrow> read_answer list \<Rightarrow> stream_reader
       \<Rightarrow> (async_result \<times> reader_output list \<times> stream_reader) run option" where
  "reader_poll env answers' self = reader_run env (answers' @- sconst ReadNotReady) READ_BUFFER self"

text \<open>The same loop by recursion on the list of the answers.\<close>

fun reader_loop ::
    "reader_env \<Rightarrow> read_answer list \<Rightarrow> bytes \<Rightarrow> stream_reader
       \<Rightarrow> (async_result \<times> reader_output list \<times> stream_reader) run option" where
  "reader_loop env [] buf' self = Some (Ok (NotReady, [], self))"
| "reader_loop env (ReadNotReady # rest) buf' self = Some (Ok (NotReady, [], self))"
| "reader_loop env (ReadBytes dat # rest) buf' self =
     (if dat = []
      then Some (bind_run (reader_shutdown self) (\<lambda>(m, self'). Ok (Ready, [ToPool m], self')))
      else (let buf'' = dat @ drop (length dat) buf'
            in case wrangle_discriminators env self buf'' (length dat) of
                 None \<Rightarrow> None
               | Some (Inl e) \<Rightarrow> Some (Err e)
               | Some (Inr (msgs, self')) \<Rightarrow>
                   map_option (\<lambda>res. bind_run res (\<lambda>(r, outs, self'').
                       Ok (r, map ToDispatcher msgs @ outs, self'')))
                     (reader_loop env rest buf'' self')))"
| "reader_loop env (ReadError e # rest) buf' self =
     (if indicates_dead_stream e
      then Some (bind_run (reader_shutdown self) (\<lambda>(m, self'). Ok (Failed, [ToPool m], self')))
      else reader_loop env rest buf' self)"

lemma reader_run_shift: "reader_run env (ans @- sconst ReadNotReady) bf self = reader_loop env ans bf self"
proof (induction env ans bf self rule: reader_loop.induct)
  case (3 env dat rest bf self)
  show ?case
  proof (cases "dat = []")
    case False
    note ih = "3.IH" [OF False refl _ _ refl]
    from False show ?thesis
      by (subst reader_run.simps) (auto simp: Let_def ih map_conv_bind_option comp_def split: option.split sum.split)
  qed (subst reader_run.simps, simp)
next
  case (4 env e rest bf self)
  note ih = "4.IH"
  show ?case
    by (subst reader_run.simps) (simp add: ih)
qed (subst reader_run.simps, simp)+

lemma reader_poll_eq: "reader_poll env ans self = reader_loop env ans READ_BUFFER self"
  by (simp add: reader_poll_def reader_run_shift)

text \<open>The task: the executor polls it until it ends.\<close>

fun reader_task ::
    "reader_env \<Rightarrow> read_answer list list \<Rightarrow> stream_reader
       \<Rightarrow> (async_result \<times> reader_output list \<times> stream_reader) run option" where
  "reader_task env [] self = Some (Ok (NotReady, [], self))"
| "reader_task env (as # polls) self =
     (case reader_poll env as self of
        None \<Rightarrow> None
      | Some (Inl e) \<Rightarrow> Some (Err e)
      | Some (Inr (r, outs, self')) \<Rightarrow>
          if r = NotReady
          then map_option (\<lambda>res. bind_run res (\<lambda>(r', outs', self'').
                   Ok (r', outs @ outs', self'')))
                 (reader_task env polls self')
          else Some (Ok (r, outs, self')))"

section \<open>Every frame makes progress\<close>

text \<open>A framer whose frames are never empty: each frame taken leaves fewer bytes pending.\<close>

locale progressing_framer = framer +
  assumes take_nonempty: "invar s \<Longrightarrow> take_frame s = Ok (Some c, t) \<Longrightarrow> chunk c \<noteq> []"
begin

lemma take_shrinks:
  assumes "invar s" "take_frame s = Ok (Some c, t)"
  shows "length (pending t) < length (pending s)"
  using take_Some [OF assms] take_nonempty [OF assms] by auto

lemma chunk_shrinks:
  assumes "invar (disc_framer d)" "take_chunk take_frame d = Ok (Some c, d')"
  shows "invar (disc_framer d') \<and> length (pending (disc_framer d')) < length (pending (disc_framer d))"
  using assms take_shrinks [of "disc_framer d"] invar_take [of "disc_framer d"]
  by (auto simp: take_chunk_def elim!: bind_run_InrE split: option.split_asm)

end

definition http_progress :: "http_framer_state \<Rightarrow> bool" where
  "http_progress s \<longleftrightarrow> (packet_progress_state s = SeekingBodyEnd \<longrightarrow> concat (lines s) \<noteq> [])
     \<and> (case chunk_size s of Some n \<Rightarrow> 0 < n | None \<Rightarrow> True)"

lemma find_chunk_offset_length_pos:
  "find_chunk_offset_length_loop dat acc = Ok (Some col) \<Longrightarrow> 0 < col_length col"
proof (induction dat acc rule: find_chunk_offset_length_loop.induct)
  case (1 dat acc)
  show ?case
  proof (cases "find_next_chunk_offset_length (drop acc dat)")
    case (Inl n)
    with 1 show ?thesis
      by (subst (asm) (2) find_chunk_offset_length_loop.simps) (auto split: if_split_asm)
  next
    case (Inr c)
    then have "0 < col_length c"
      by (auto simp: find_next_chunk_offset_length_def CRLF_def Let_def
          split: option.split_asm nat.split_asm)
    with Inr "1.prems" show ?thesis
      by (subst (asm) find_chunk_offset_length_loop.simps) (auto split: if_split_asm)
  qed
qed

lemma consume_header_line_progress:
  assumes "data_so_far s \<noteq> []" "http_progress s"
  shows "http_progress (snd (consume_header_line rx s n))"
proof -
  have "take (n + 2) (data_so_far s) \<noteq> []"
    using assms(1) by simp
  then have "concat (lines (snd (consume_header_line rx s n))) \<noteq> []"
    by (auto simp: consume_header_line_def Let_def split: prod.split)
  moreover have "chunk_size (snd (consume_header_line rx s n)) = None
      \<or> chunk_size (snd (consume_header_line rx s n)) = chunk_size s"
    by (auto simp: consume_header_line_def header_check_defs Let_def split: option.split)
  ultimately show ?thesis
    using assms(2) by (auto simp: http_progress_def)
qed

lemma seek_body_start_progress: "http_progress s \<Longrightarrow> http_progress (snd (seek_body_start rx s))"
proof (induction rx s rule: seek_body_start.induct)
  case (1 rx s)
  show ?case
  proof (cases "packet_progress_state s = SeekingBodyStart \<and> index_of (data_so_far s) CRLF \<noteq> None")
    case True
    then obtain n where n: "index_of (data_so_far s) CRLF = Some n"
      and p: "packet_progress_state s = SeekingBodyStart"
      by blast
    have "data_so_far s \<noteq> []"
      using n by (auto simp: index_of_find_sub split: if_splits)
    then have "http_progress (snd (consume_header_line rx s n))"
      using "1.prems" by (rule consume_header_line_progress)
    with "1.IH" [OF p n] n p show ?thesis
      by (simp add: seek_body_start.simps [of rx s])
  next
    case False
    with "1.prems" show ?thesis
      by (auto simp: seek_body_start.simps [of rx s])
  qed
qed

lemma seek_body_end_progress:
  assumes "seek_body_end s = (r, t)" "http_progress s"
  shows "http_progress t \<and> (\<forall>req. r = Some req \<longrightarrow> req \<noteq> [])"
  using assms by (auto simp: seek_body_end_def http_progress_def Let_def split: if_split_asm)

lemma request_start_progress:
  assumes "request_seek_packet_start s = Ok (b, t)" "http_progress s"
  shows "http_progress t"
  using assms by (auto simp: request_seek_packet_start_def http_progress_def Let_def
      split: if_split_asm option.split_asm)

lemma take_packet_frame_progress:
  assumes run: "take_packet_frame rx request_seek_packet_start s = Ok (r, t)" and prog: "http_progress s"
  shows "http_progress t \<and> (\<forall>c. r = Some c \<longrightarrow> chunk c \<noteq> [])"
proof -
  obtain ok1 s1 where s1: "(if packet_progress_state s = SeekingPacketStart
      then request_seek_packet_start s else Ok (True, s)) = Ok (ok1, s1)"
    using run by (auto simp: take_packet_frame_def run_simps)
  have p1: "http_progress s1"
    using s1 prog request_start_progress [of s] by (auto split: if_split_asm)
  define s2 where "s2 = (if packet_progress_state s1 = SeekingBodyStart
      then snd (seek_body_start rx s1) else s1)"
  have p2: "http_progress s2"
    using p1 seek_body_start_progress [of s1 rx] by (simp add: s2_def)
  have "(r, t) = (None, s1) \<or> (r, t) = (None, s2)
      \<or> (\<exists>q. seek_body_end s2 = (q, t) \<and> r = map_option (\<lambda>req. \<lparr>chunk = req, last_chunk = False\<rparr>) q)"
    using run s1
    by (auto simp: take_packet_frame_def s2_def Let_def split: if_splits prod.splits option.splits)
  then show ?thesis
    using p1 p2 seek_body_end_progress [of s2] by auto
qed

lemma end_of_chunk_progress:
  assumes "take_frame_while_seeking_end_of_chunk s = Ok (r, t)" "http_progress s"
  shows "http_progress t \<and> (\<forall>c. r = Some c \<longrightarrow> chunk c \<noteq> [])"
  using assms
  by (auto simp: take_frame_while_seeking_end_of_chunk_def http_progress_def CRLF_def Let_def
      split: option.split_asm if_split_asm)

lemma end_of_final_chunk_progress:
  assumes "take_frame_while_seeking_end_of_final_chunk s = Ok (r, t)" "http_progress s"
  shows "http_progress t \<and> (\<forall>c. r = Some c \<longrightarrow> chunk c \<noteq> [])"
proof (cases "index_of (data_so_far s) DOUBLE_CRLF")
  case None
  with assms show ?thesis by (auto simp: take_frame_while_seeking_end_of_final_chunk_def)
next
  case (Some n)
  then have "data_so_far s \<noteq> []"
    by (auto simp: index_of_find_sub split: if_splits)
  with Some assms show ?thesis
    by (auto simp: take_frame_while_seeking_end_of_final_chunk_def http_progress_def DOUBLE_CRLF_def)
qed

lemma length_header_progress:
  assumes run: "take_frame_while_seeking_length_header s = Ok (r, t)" and prog: "http_progress s"
  shows "http_progress t \<and> (\<forall>c. r = Some c \<longrightarrow> chunk c \<noteq> [])"
proof -
  obtain q where q: "find_chunk_offset_length (data_so_far s) = Ok q"
    using run by (auto simp: take_frame_while_seeking_length_header_def run_simps)
  show ?thesis
  proof (cases q)
    case None
    with run q prog show ?thesis
      by (auto simp: take_frame_while_seeking_length_header_def http_progress_def split: if_splits)
  next
    case (Some col)
    define s1 where "s1 = s\<lparr>data_so_far := drop (col_offset col) (data_so_far s)\<rparr>"
    define f where "f = s1\<lparr>chunk_progress_state := SeekingEndOfFinalChunk, chunk_size := None\<rparr>"
    define e where "e = s1\<lparr>chunk_progress_state := SeekingEndOfChunk, chunk_size := Some (col_length col)\<rparr>"
    have "0 < col_length col"
      using q Some find_chunk_offset_length_pos [of "data_so_far s" 0] by (simp add: find_chunk_offset_length_def)
    then have "http_progress f" "http_progress e"
      using prog by (simp_all add: f_def e_def s1_def http_progress_def)
    moreover have "take_frame_while_seeking_end_of_final_chunk f = Ok (r, t)
        \<or> take_frame_while_seeking_end_of_chunk e = Ok (r, t)"
      using run q Some unfolding e_def f_def s1_def
      by (auto simp: take_frame_while_seeking_length_header_def run_simps split_off_def Let_def
          split: if_splits)
    ultimately show ?thesis
      using end_of_final_chunk_progress [of f] end_of_chunk_progress [of e] by blast
  qed
qed

lemma http_take_frame_progress:
  assumes "http_take_frame rx request_seek_packet_start s = Ok (r, t)" "http_progress s"
  shows "http_progress t \<and> (\<forall>c. r = Some c \<longrightarrow> chunk c \<noteq> [])"
  using assms take_packet_frame_progress [of rx s r t] end_of_chunk_progress [of s r t]
    end_of_final_chunk_progress [of s r t] length_header_progress [of s r t]
  by (cases "chunk_progress_state s") (auto simp: http_take_frame_def take_chunk_frame_def split: if_splits)

lemma tls_take_frame_progress: "tls_take_frame s = Ok (Some c, t) \<Longrightarrow> chunk c \<noteq> []"
  by (auto simp: tls_take_frame_def split_off_def Let_def elim!: bind_run_InrE
      split: option.split_asm if_split_asm)

lemma json_loop_progress:
  assumes "json_scanning s i" "json_data_so_far s = pre @ rest" "length pre = i"
    "json_loop s rest i = Ok (Some c, t)"
  shows "chunk c \<noteq> []"
  using assms
proof (induction rest arbitrary: s i pre)
  case Nil
  then show ?case
    by (auto simp: run_simps split: option.splits)
next
  case (Cons b rest)
  then have "i < length (json_data_so_far s)" by simp
  with Cons.prems(1) show ?case
  proof (cases rule: json_step_cases [where b = b])
    case more
    then show ?thesis using Cons.prems Cons.IH [of "update_state s b i" "i + 1" "pre @ [b]"]
      by simp
  next
    case (complete st)
    with Cons.prems show ?thesis by auto
  qed
qed

lemma json_take_frame_progress: "json_take_frame s = Ok (Some c, t) \<Longrightarrow> chunk c \<noteq> []"
  using json_loop_progress [OF json_scanning_reset, of s "[]" "json_data_so_far s"]
  by (simp add: json_take_frame_def)

text \<open>What a framer behind a trait object holds, and its invariant.\<close>

fun dyn_pending :: "dyn_framer \<Rightarrow> bytes" where
  "dyn_pending (HttpPacketFramer s) = http_pending s"
| "dyn_pending (TlsFramer s) = tls_data_so_far s"
| "dyn_pending (JsonFramer s) = json_data_so_far s"

fun dyn_inv :: "dyn_framer \<Rightarrow> bool" where
  "dyn_inv (HttpPacketFramer s) \<longleftrightarrow> http_inv s \<and> http_progress s"
| "dyn_inv (TlsFramer s) \<longleftrightarrow> True"
| "dyn_inv (JsonFramer s) \<longleftrightarrow> True"

lemma dyn_take_frame_pending:
  assumes "dyn_inv s" "dyn_take_frame env s = Ok (r, t)"
  shows "dyn_inv t \<and> (case r of None \<Rightarrow> suffix (dyn_pending t) (dyn_pending s)
    | Some c \<Rightarrow> (\<exists>pre. dyn_pending s = pre @ chunk c @ dyn_pending t) \<and> chunk c \<noteq> [])"
proof (cases s)
  case (HttpPacketFramer h)
  with assms obtain h' where h: "http_take_frame (re_regexes env) request_seek_packet_start h = Ok (r, h')"
    "t = HttpPacketFramer h'"
    by (auto elim!: bind_run_InrE)
  with assms HttpPacketFramer show ?thesis
    using http_request.http_take_frame_pending [OF h(1)] http_take_frame_progress [OF h(1)]
    by (auto split: option.splits)
next
  case (TlsFramer h)
  with assms obtain h' where "tls_take_frame h = Ok (r, h')" "t = TlsFramer h'"
    by (auto elim!: bind_run_InrE)
  with TlsFramer show ?thesis
    using tls.take_None [of h h'] tls.take_Some [of h _ h'] tls_take_frame_progress [of h _ h']
    by (auto split: option.splits)
next
  case (JsonFramer h)
  with assms obtain h' where "json_take_frame h = Ok (r, h')" "t = JsonFramer h'"
    by (auto elim!: bind_run_InrE)
  with JsonFramer show ?thesis
    using json.take_None [of h h'] json.take_Some [of h _ h'] json_take_frame_progress [of h _ h']
    by (auto split: option.splits)
qed

interpretation dyn: progressing_framer dyn_add_data "dyn_take_frame env" dyn_pending dyn_inv for env
proof (unfold_locales, goal_cases)
  case (1 s d)
  show ?case
    by (cases s) (simp_all add: http_add_data_def http_pending_def tls_add_data_def json_add_data_def)
next
  case (2 s d)
  then show ?case
    by (cases s) (simp_all add: http_add_data_def http_inv_def http_progress_def)
next
  case (3 s r t)
  then show ?case
    using dyn_take_frame_pending by blast
next
  case (4 s c t)
  then show ?case
    using dyn_take_frame_pending [of s env "Some c" t] by simp
next
  case (5 s t)
  then show ?case
    using dyn_take_frame_pending [of s env None t] by simp
next
  case (6 s c t)
  then show ?case
    using dyn_take_frame_pending [of s env "Some c" t] by simp
qed

section \<open>The reader always returns\<close>

definition is_http_framer :: "dyn_framer \<Rightarrow> bool" where
  "is_http_framer f \<longleftrightarrow> (case f of HttpPacketFramer _ \<Rightarrow> True | _ \<Rightarrow> False)"

lemma dyn_take_frame_kind: "dyn_take_frame env s = Ok (r, t) \<Longrightarrow> is_http_framer t = is_http_framer s"
  by (cases s) (auto simp: is_http_framer_def elim!: bind_run_InrE)

lemma dyn_take_frame_total: "\<not> is_http_framer s \<Longrightarrow> \<exists>r t. dyn_take_frame env s = Ok (r, t)"
proof (cases s)
  case (TlsFramer h)
  then show ?thesis using tls.take_total [of h] by auto
next
  case (JsonFramer h)
  then show ?thesis using json.take_total [of h] by auto
qed (simp add: is_http_framer_def)

lemma dyn_add_data_kind [simp]: "is_http_framer (dyn_add_data s dat) = is_http_framer s"
  by (cases s) (simp_all add: is_http_framer_def)

lemma take_chunk_framer:
  assumes "take_chunk take_frame d = Ok (r, d')"
  shows "\<exists>q. take_frame (disc_framer d) = Ok (q, disc_framer d') \<and> disc_masqueraders d' = disc_masqueraders d
    \<and> r = Option.bind q (\<lambda>f. try_masqueraders (disc_masqueraders d) (chunk f))"
  using assms by (auto simp: take_chunk_def elim!: bind_run_InrE split: option.split_asm)

lemma wrangle_loop_returns:
  assumes "dyn_inv (disc_framer d)"
  shows "\<exists>res. wrangle_loop env self connect d sq = Some res
    \<and> (\<forall>msgs d' sq'. res = Ok (msgs, d', sq') \<longrightarrow> dyn_inv (disc_framer d')
         \<and> is_http_framer (disc_framer d') = is_http_framer (disc_framer d))
    \<and> (is_http_framer (disc_framer d) \<or> \<not> isl res)"
  using assms
proof (induction "length (dyn_pending (disc_framer d))" arbitrary: d sq rule: less_induct)
  case less
  show ?case
  proof (cases "take_chunk (dyn_take_frame env) d")
    case (Inl e)
    have "is_http_framer (disc_framer d)"
    proof (rule ccontr)
      assume "\<not> is_http_framer (disc_framer d)"
      then obtain r t where "dyn_take_frame env (disc_framer d) = Ok (r, t)"
        using dyn_take_frame_total by blast
      with Inl show False by (simp add: take_chunk_def split: option.split_asm)
    qed
    with Inl show ?thesis
      by (subst wrangle_loop.simps) simp
  next
    case (Inr q)
    then obtain r d1 where q: "take_chunk (dyn_take_frame env) d = Ok (r, d1)"
      by (cases q) simp
    obtain fr where fr: "dyn_take_frame env (disc_framer d) = Ok (fr, disc_framer d1)"
      using take_chunk_framer [OF q] by blast
    have d1: "dyn_inv (disc_framer d1)" "is_http_framer (disc_framer d1) = is_http_framer (disc_framer d)"
      using fr less.prems dyn.invar_take dyn_take_frame_kind by blast+
    show ?thesis
    proof (cases r)
      case None
      with q d1 show ?thesis
        by (subst wrangle_loop.simps) simp
    next
      case (Some c)
      have "length (dyn_pending (disc_framer d1)) < length (dyn_pending (disc_framer d))"
        using q Some less.prems dyn.chunk_shrinks [of d env c d1] by blast
      from less.hyps [OF this d1(1)] obtain res where
        res: "wrangle_loop env self connect d1 (snd (chunk_sequence_number connect c sq)) = Some res"
        "\<forall>msgs d' sq'. res = Ok (msgs, d', sq') \<longrightarrow> dyn_inv (disc_framer d')
           \<and> is_http_framer (disc_framer d') = is_http_framer (disc_framer d1)"
        "is_http_framer (disc_framer d1) \<or> \<not> isl res"
        by blast
      with Some q d1 show ?thesis
        by (subst wrangle_loop.simps) (cases res, auto)
    qed
  qed
qed

text \<open>The invariant of a reader; the flag tells whether the HTTP framer is among its framers.\<close>

definition reader_inv :: "bool \<Rightarrow> stream_reader \<Rightarrow> bool" where
  "reader_inv http self \<longleftrightarrow> sr_discriminators self \<noteq> []
     \<and> list_all (\<lambda>d. dyn_inv (disc_framer d) \<and> (http \<or> \<not> is_http_framer (disc_framer d))) (sr_discriminators self)
     \<and> (sr_is_clandestine self \<or> sr_reception_port self \<noteq> None)"

lemma disc_add_data_framer [simp]:
  "disc_framer (disc_add_data add d dat) = add (disc_framer d) dat"
  "disc_masqueraders (disc_add_data add d dat) = disc_masqueraders d"
  by (simp_all add: disc_add_data_def)

lemma chosen_index: "xs \<noteq> [] \<Longrightarrow> (if 1 < length xs \<and> b then 1 else 0) < length xs"
  by auto

lemma wrangle_returns:
  assumes inv: "reader_inv http self"
  shows "\<exists>res. wrangle_discriminators env self bf n = Some res
    \<and> (\<forall>msgs self'. res = Ok (msgs, self') \<longrightarrow> reader_inv http self') \<and> (http \<or> \<not> isl res)"
proof -
  define connect i where "connect = is_connect (re_web env) bf"
    and "i = (if 1 < length (sr_discriminators self) \<and> connect then 1 else (0 :: nat))"
  have i: "i < length (sr_discriminators self)"
    using inv unfolding i_def by (intro chosen_index) (simp add: reader_inv_def)
  let ?d = "sr_discriminators self ! i"
  let ?e = "disc_add_data dyn_add_data ?d (take n bf)"
  have d: "dyn_inv (disc_framer ?d)" "http \<or> \<not> is_http_framer (disc_framer ?d)"
    using inv i by (auto simp: reader_inv_def list_all_length)
  have "dyn_inv (disc_framer ?e)"
    using d(1) dyn.invar_add by simp
  from wrangle_loop_returns [OF this] obtain res where
    res: "wrangle_loop env self connect ?e (sr_sequencer self) = Some res"
    "\<forall>msgs d' sq'. res = Ok (msgs, d', sq') \<longrightarrow> dyn_inv (disc_framer d')
       \<and> is_http_framer (disc_framer d') = is_http_framer (disc_framer ?d)"
    "is_http_framer (disc_framer ?d) \<or> \<not> isl res"
    by fastforce
  let ?res = "bind_run res (\<lambda>(msgs, d', sq). Ok (msgs,
     self\<lparr> sr_discriminators := (sr_discriminators self)[i := d'], sr_sequencer := sq \<rparr>))"
  have "wrangle_discriminators env self bf n = Some ?res"
    using i res(1) unfolding connect_def i_def
    by (simp add: wrangle_discriminators_def index_def Let_def)
  moreover have "reader_inv http self'" if "?res = Ok (msgs, self')" for msgs self'
    using that inv d res(2) by (auto simp: reader_inv_def list_all_iff dest!: set_update_subset_insert [THEN subsetD] elim!: bind_run_InrE)
  moreover have "http \<or> \<not> isl ?res"
    using d(2) res(3) by (cases res) auto
  ultimately show ?thesis
    by blast
qed

lemma reader_shutdown_returns:
  "reader_inv http self \<Longrightarrow> \<exists>m self'. reader_shutdown self = Ok (m, self')"
  by (auto simp: reader_shutdown_def reader_inv_def expect_def next_sequence_number_def)

text \<open>The answers of the socket that end a poll.\<close>

fun ends_poll :: "read_answer \<Rightarrow> bool" where
  "ends_poll ReadNotReady \<longleftrightarrow> True"
| "ends_poll (ReadBytes dat) \<longleftrightarrow> dat = []"
| "ends_poll (ReadError e) \<longleftrightarrow> indicates_dead_stream e"

definition returned :: "bool \<Rightarrow> (async_result \<times> reader_output list \<times> stream_reader) run option \<Rightarrow> bool" where
  "returned http result \<longleftrightarrow> (\<exists>res. result = Some res \<and>
     (\<forall>outs self'. res = Ok (NotReady, outs, self') \<longrightarrow> reader_inv http self') \<and> (http \<or> \<not> isl res))"

lemma returned_after:
  "returned http result \<Longrightarrow>
     returned http (Option.bind result (\<lambda>fin. Some (bind_run fin (\<lambda>(r, outs, self'). Ok (r, before @ outs, self')))))"
  by (cases result; cases "the result") (auto simp: returned_def)

lemma reader_run_returns:
  assumes "reader_inv http self" "ends_poll (answers' !! n)"
  shows "returned http (reader_run env answers' bf self)"
  using assms
proof (induction n arbitrary: answers' bf self)
  case 0
  with reader_shutdown_returns [OF "0.prems"(1)] show ?case
    by (subst reader_run.simps) (cases "shd answers'", auto simp: returned_def)
next
  case (Suc n)
  show ?case
  proof (cases "shd answers'")
    case (ReadBytes dat)
    show ?thesis
    proof (cases "dat = []")
      case True
      with ReadBytes reader_shutdown_returns [OF Suc.prems(1)] show ?thesis
        by (subst reader_run.simps) (auto simp: returned_def)
    next
      case False
      let ?b = "dat @ drop (length dat) bf"
      obtain res where res: "wrangle_discriminators env self ?b (length dat) = Some res"
        "\<forall>msgs self'. res = Ok (msgs, self') \<longrightarrow> reader_inv http self'" "http \<or> \<not> isl res"
        using wrangle_returns [OF Suc.prems(1)] by blast
      show ?thesis
      proof (cases res)
        case (Inl e)
        with res False ReadBytes show ?thesis
          by (subst reader_run.simps) (simp add: returned_def)
      next
        case (Inr q)
        then obtain msgs self1 where q: "res = Ok (msgs, self1)" by (cases q) simp
        have "returned http (reader_run env (stl answers') ?b self1)"
          using Suc.IH [of self1 "stl answers'"] res(2) q Suc.prems(2) by simp
        from returned_after [OF this] False res(1) q ReadBytes show ?thesis
          by (subst reader_run.simps) simp
      qed
    qed
  next
    case (ReadError e)
    with reader_shutdown_returns [OF Suc.prems(1)] Suc show ?thesis
      by (subst reader_run.simps) (auto simp: returned_def)
  qed (use Suc.prems(1) in \<open>subst reader_run.simps, simp add: returned_def\<close>)
qed

text \<open>A poll that returns was given an answer that ends it, where no framer can panic.\<close>

lemma reader_run_ended:
  "reader_run env answers' bf self = Some res \<Longrightarrow> reader_inv False self \<Longrightarrow> \<exists>n. ends_poll (answers' !! n)"
proof (induction rule: reader_run.raw_induct [rotated, consumes 1, case_names step])
  case (step run env answers' bf self res)
  have later: "\<exists>n. ends_poll (answers' !! n)" if "\<exists>n. ends_poll (stl answers' !! n)"
    using that by (metis snth.simps(2))
  show ?case
  proof (cases "ends_poll (shd answers')")
    case True
    then show ?thesis
      using snth.simps(1) [of answers'] by metis
  next
    case False
    show ?thesis
    proof (cases "shd answers'")
      case (ReadBytes dat)
      let ?b = "dat @ drop (length dat) bf"
      obtain wr where wr: "wrangle_discriminators env self ?b (length dat) = Some wr"
        "\<forall>msgs self'. wr = Ok (msgs, self') \<longrightarrow> reader_inv False self'" "\<not> isl wr"
        using wrangle_returns [OF step(3), of env ?b "length dat"] by blast
      then obtain msgs self1 where w: "wrangle_discriminators env self ?b (length dat) = Some (Ok (msgs, self1))"
        "reader_inv False self1"
        by (cases wr) auto
      then obtain fin where "run env (stl answers') ?b self1 = Some fin"
        using step(2) False ReadBytes by (auto split: bind_split_asm)
      from step(1) [OF this w(2)] show ?thesis
        by (rule later)
    next
      case (ReadError e)
      then have "run env (stl answers') bf self = Some res"
        using step(2) False by simp
      from step(1) [OF this step(3)] show ?thesis
        by (rule later)
    qed (use False in simp)
  qed
qed

lemma reader_loop_returns:
  assumes "reader_inv http self"
  shows "\<exists>res. reader_loop env ans bf self = Some res
    \<and> (\<forall>outs self'. res = Ok (NotReady, outs, self') \<longrightarrow> reader_inv http self') \<and> (http \<or> \<not> isl res)"
proof -
  have "ends_poll ((ans @- sconst ReadNotReady) !! length ans)"
    by simp
  from reader_run_returns [OF assms this, of env bf] show ?thesis
    unfolding reader_run_shift returned_def .
qed

lemma reader_task_returns:
  assumes "reader_inv http self"
  shows "returned http (reader_task env polls self)"
  using assms
proof (induction polls arbitrary: self)
  case Nil
  then show ?case by (simp add: returned_def)
next
  case (Cons as polls)
  obtain res where res: "reader_poll env as self = Some res"
    "\<forall>outs self'. res = Ok (NotReady, outs, self') \<longrightarrow> reader_inv http self'" "http \<or> \<not> isl res"
    using reader_loop_returns [OF Cons.prems] unfolding reader_poll_eq by blast
  show ?case
  proof (cases "\<exists>outs self'. res = Ok (NotReady, outs, self')")
    case True
    then obtain outs self1 where q: "res = Ok (NotReady, outs, self1)" by blast
    with res(2) have "returned http (reader_task env polls self1)"
      by (intro Cons.IH) simp
    from returned_after [OF this] res(1) q show ?thesis
      by (simp add: map_conv_bind_option comp_def)
  next
    case False
    with res show ?thesis by (cases res) (auto simp: returned_def)
  qed
qed

lemma new_reader_inv:
  assumes "stream_reader_new env rp fs cl peer loc = Ok self" "cl \<or> rp \<noteq> None"
  shows "reader_inv (HttpRequestDiscriminatorFactory \<in> set fs) self"
proof -
  obtain ds where ds: "map_run (make_discriminator env) fs = Ok ds" "sr_discriminators self = ds" "fs \<noteq> []"
    "sr_is_clandestine self = cl" "sr_reception_port self = rp"
    using assms(1) by (auto simp: stream_reader_new_def elim!: bind_run_InrE split: if_split_asm)
  have "list_all (\<lambda>d. dyn_inv (disc_framer d) \<and>
      (HttpRequestDiscriminatorFactory \<in> set fs \<or> \<not> is_http_framer (disc_framer d))) ds \<and> length ds = length fs"
    using ds(1)
  proof (induction fs arbitrary: ds)
    case (Cons f fs)
    then obtain d es where d: "make_discriminator env f = Ok d" "map_run (make_discriminator env) fs = Ok es"
      "ds = d # es"
      by (auto elim!: bind_run_InrE)
    have "dyn_inv (disc_framer d)" "f = HttpRequestDiscriminatorFactory \<or> \<not> is_http_framer (disc_framer d)"
      using d(1) by (cases f; auto simp: new_discriminator_def http_inv_def new_http_state_def http_progress_def
          is_http_framer_def)+
    with Cons.IH [OF d(2)] d(3) show ?case
      by (auto simp: list_all_iff)
  qed simp
  with ds assms(2) show ?thesis
    by (auto simp: reader_inv_def)
qed

section \<open>Numbering of clear data\<close>

text \<open>The sequence number an output carries.\<close>

definition output_number :: "reader_output \<Rightarrow> u64 option" where
  "output_number out =
     (case out of
        ToDispatcher m \<Rightarrow> ibcd_sequence_number m
      | ToPool m \<Rightarrow>
          (case rsm_stream_type m of
             NonClandestine attributes \<Rightarrow> Some (nca_sequence_number attributes)
           | Clandestine \<Rightarrow> None))"

abbreviation number_seq :: "nat \<Rightarrow> nat \<Rightarrow> u64 option list" where
  "number_seq a b \<equiv> map (\<lambda>i. Some (of_nat i)) [a..<b]"

text \<open>The numbers of the chunks of successive reads, each given by whether its buffer starts with a CONNECT
  request and by how many chunks it completes, when the next free number is \<open>a\<close>.\<close>

fun chunk_numbers :: "nat \<Rightarrow> (bool \<times> nat) list \<Rightarrow> u64 option list" where
  "chunk_numbers a [] = []"
| "chunk_numbers a ((connect, k) # reads) =
     (if connect then replicate k (Some 0) @ chunk_numbers a reads
      else number_seq a (a + k) @ chunk_numbers (a + k) reads)"

definition next_number :: "nat \<Rightarrow> (bool \<times> nat) list \<Rightarrow> nat" where
  "next_number a reads = a + sum_list (map snd (filter (\<lambda>(connect, k). \<not> connect) reads))"

lemma next_number_simps [simp]:
  "next_number a [] = a"
  "next_number a ((connect, k) # reads) = next_number (if connect then a else a + k) reads"
  by (simp_all add: next_number_def)

lemma number_seq_Suc: "number_seq a (a + Suc k) = Some (of_nat a) # number_seq (Suc a) (Suc a + k)"
  using upt_conv_Cons [of a "a + Suc k"] by simp

lemma chunk_numbers_append:
  "chunk_numbers a (xs @ ys) = chunk_numbers a xs @ chunk_numbers (next_number a xs) ys"
  "next_number a (xs @ ys) = next_number (next_number a xs) ys"
  by (induction xs arbitrary: a) auto

text \<open>The buffers as the reads of a poll leave them.\<close>

fun poll_buffers :: "read_answer list \<Rightarrow> bytes \<Rightarrow> bytes list" where
  "poll_buffers (ReadBytes dat # rest) bf =
     (if dat = [] then [] else (dat @ drop (length dat) bf) # poll_buffers rest (dat @ drop (length dat) bf))"
| "poll_buffers (ReadError e # rest) bf = (if indicates_dead_stream e then [] else poll_buffers rest bf)"
| "poll_buffers _ bf = []"

text \<open>A reader of clear data that has given out the numbers below \<open>a\<close>.\<close>

definition clear_disc :: "dyn_framer discriminator \<Rightarrow> bool" where
  "clear_disc d \<longleftrightarrow> disc_masqueraders d = [null_try_unmask]"

definition clear_reader :: "nat \<Rightarrow> stream_reader \<Rightarrow> bool" where
  "clear_reader a self \<longleftrightarrow> \<not> sr_is_clandestine self \<and> current_sequence_number (sr_sequencer self) = of_nat a
     \<and> list_all clear_disc (sr_discriminators self)"

lemma clear_chunk:
  assumes "clear_disc d" "take_chunk tf d = Ok (r, d')"
  shows "clear_disc d' \<and> (\<forall>c. r = Some c \<longrightarrow> um_sequenced c)"
  using take_chunk_framer [OF assms(2)] assms(1)
  by (auto simp: clear_disc_def null_try_unmask_def new_unmasked_chunk_def split: bind_split_asm)

lemma wrangle_loop_numbered:
  assumes "dyn_inv (disc_framer d)" "clear_disc d" "current_sequence_number sq = of_nat a"
    "wrangle_loop env self connect d sq = Some (Ok (msgs, d', sq'))"
  shows "\<exists>k. map ibcd_sequence_number msgs = chunk_numbers a [(connect, k)] \<and> clear_disc d'
    \<and> current_sequence_number sq' = of_nat (next_number a [(connect, k)])"
  using assms
proof (induction "length (dyn_pending (disc_framer d))" arbitrary: d sq a msgs rule: less_induct)
  case less
  obtain r d1 where q: "take_chunk (dyn_take_frame env) d = Ok (r, d1)"
    using less.prems(4) by (subst (asm) wrangle_loop.simps) (auto split: sum.split_asm)
  note d1 = clear_chunk [OF less.prems(2) q]
  show ?case
  proof (cases r)
    case None
    with q less.prems(4) have "msgs = []" "d' = d1" "sq' = sq"
      by (subst (asm) wrangle_loop.simps, simp)+
    with d1 less.prems(3) show ?thesis
      by (intro exI [of _ 0]) simp
  next
    case (Some c)
    let ?n = "chunk_sequence_number connect c sq"
    from less.prems(4) q Some obtain rest where rest: "wrangle_loop env self connect d1 (snd ?n) = Some (Ok (rest, d', sq'))"
      "msgs = chunk_message self (fst ?n) c # rest"
      by (subst (asm) wrangle_loop.simps) (auto split: bind_split_asm elim!: bind_run_InrE)
    let ?b = "if connect then a else Suc a"
    have b: "fst ?n = (if connect then Some 0 else Some (of_nat a))" "current_sequence_number (snd ?n) = of_nat ?b"
      using d1 Some less.prems(3) by (auto simp: chunk_sequence_number_def next_sequence_number_def Let_def)
    have "dyn_inv (disc_framer d1)" "length (dyn_pending (disc_framer d1)) < length (dyn_pending (disc_framer d))"
      using q Some less.prems(1) dyn.chunk_shrinks [of d env c d1] by blast+
    from less.hyps [OF this(2,1) _ b(2) rest(1)] d1 obtain k where
      k: "map ibcd_sequence_number rest = chunk_numbers ?b [(connect, k)]" "clear_disc d'"
        "current_sequence_number sq' = of_nat (next_number ?b [(connect, k)])"
      by blast
    have "map ibcd_sequence_number msgs = chunk_numbers a [(connect, Suc k)]"
    proof (cases connect)
      case False
      then have "map ibcd_sequence_number msgs = Some (of_nat a) # number_seq (Suc a) (Suc a + k)"
        using rest(2) b(1) k(1) by (simp add: chunk_message_def)
      with False show ?thesis
        unfolding number_seq_Suc [symmetric] by simp
    qed (use rest(2) b(1) k(1) in \<open>simp add: chunk_message_def\<close>)
    moreover have "next_number ?b [(connect, k)] = next_number a [(connect, Suc k)]"
      by simp
    ultimately show ?thesis
      using k(2,3) by metis
  qed
qed

lemma wrangle_numbered:
  assumes "reader_inv http self" "clear_reader a self"
    "wrangle_discriminators env self bf n = Some (Ok (msgs, self'))"
  shows "\<exists>k. map ibcd_sequence_number msgs = chunk_numbers a [(is_connect (re_web env) bf, k)] \<and>
    clear_reader (next_number a [(is_connect (re_web env) bf, k)]) self'"
proof -
  define connect i where "connect = is_connect (re_web env) bf"
    and "i = (if 1 < length (sr_discriminators self) \<and> connect then 1 else (0 :: nat))"
  have i: "i < length (sr_discriminators self)"
    using assms(1) unfolding i_def by (intro chosen_index) (simp add: reader_inv_def)
  let ?d = "sr_discriminators self ! i"
  let ?e = "disc_add_data dyn_add_data ?d (take n bf)"
  have d: "dyn_inv (disc_framer ?e)" "clear_disc ?e" "current_sequence_number (sr_sequencer self) = of_nat a"
    using assms(1,2) i dyn.invar_add by (auto simp: reader_inv_def clear_reader_def list_all_length clear_disc_def)
  from assms(3) i obtain d' sq where
    loop: "wrangle_loop env self connect ?e (sr_sequencer self) = Some (Ok (msgs, d', sq))" and
    self': "self' = self\<lparr> sr_discriminators := (sr_discriminators self)[i := d'], sr_sequencer := sq \<rparr>"
    unfolding connect_def i_def
    by (auto simp: wrangle_discriminators_def index_def Let_def split: bind_split_asm elim!: bind_run_InrE)
  obtain k where "map ibcd_sequence_number msgs = chunk_numbers a [(connect, k)]" "clear_disc d'"
    "current_sequence_number sq = of_nat (next_number a [(connect, k)])"
    using wrangle_loop_numbered [OF d loop] by blast
  moreover have "clear_reader (next_number a [(connect, k)]) self'"
    using calculation(2,3) self' assms(2)
    by (auto simp: clear_reader_def list_all_iff dest!: set_update_subset_insert [THEN subsetD])
  ultimately show ?thesis
    unfolding connect_def by blast
qed

text \<open>What the outputs of a poll or a task carry as numbers, and what the reader is ready for after it.\<close>

definition numbered_reads ::
    "bool \<Rightarrow> web_env \<Rightarrow> bytes list \<Rightarrow> nat \<Rightarrow> async_result \<Rightarrow> reader_output list \<Rightarrow> stream_reader \<Rightarrow> bool" where
  "numbered_reads http web bufs a r outs self' \<longleftrightarrow>
     (\<exists>ks. length ks = length bufs \<and>
        (let reads = zip (map (is_connect web) bufs) ks
         in map output_number outs =
              chunk_numbers a reads @ (if r = NotReady then [] else [Some (of_nat (next_number a reads))]) \<and>
            (r = NotReady \<longrightarrow> clear_reader (next_number a reads) self' \<and> reader_inv http self')))"

lemma numbered_reads_Nil:
  "clear_reader a self \<Longrightarrow> reader_inv http self \<Longrightarrow> numbered_reads http web [] a NotReady [] self"
  by (simp add: numbered_reads_def)

lemma numbered_reads_append:
  assumes ks: "length ks = length xs" and "map output_number before = chunk_numbers a (zip (map (is_connect web) xs) ks)"
    and "numbered_reads http web ys (next_number a (zip (map (is_connect web) xs) ks)) r outs self'"
  shows "numbered_reads http web (xs @ ys) a r (before @ outs) self'"
proof -
  obtain ls where ls: "length ls = length ys"
    "let reads = zip (map (is_connect web) ys) ls; b = next_number a (zip (map (is_connect web) xs) ks)
     in map output_number outs = chunk_numbers b reads @ (if r = NotReady then [] else [Some (of_nat (next_number b reads))]) \<and>
        (r = NotReady \<longrightarrow> clear_reader (next_number b reads) self' \<and> reader_inv http self')"
    using assms(3) unfolding numbered_reads_def Let_def by blast
  have "zip (map (is_connect web) (xs @ ys)) (ks @ ls) = zip (map (is_connect web) xs) ks @ zip (map (is_connect web) ys) ls"
    using ks by simp
  with ks ls assms(2) show ?thesis
    unfolding numbered_reads_def Let_def
    by (intro exI [of _ "ks @ ls"]) (simp add: chunk_numbers_append)
qed

lemma shutdown_numbered:
  assumes "clear_reader a self" "reader_shutdown self = Ok (m, self')" "r \<noteq> NotReady"
  shows "numbered_reads http web [] a r [ToPool m] self''"
  using assms
  by (auto simp: clear_reader_def reader_shutdown_def next_sequence_number_def output_number_def numbered_reads_def
      elim!: bind_run_InrE)

lemma reader_loop_numbered:
  assumes "reader_inv http self" "clear_reader a self" "reader_loop env ans bf self = Some (Ok (r, outs, self'))"
  shows "numbered_reads http (re_web env) (poll_buffers ans bf) a r outs self'"
  using assms
proof (induction env ans bf self arbitrary: a outs rule: reader_loop.induct)
  case (3 env dat rest bf self)
  show ?case
  proof (cases "dat = []")
    case True
    with 3 shutdown_numbered [OF "3.prems"(2)] show ?thesis
      by (auto elim!: bind_run_InrE)
  next
    case False
    let ?b = "dat @ drop (length dat) bf"
    obtain res where res: "wrangle_discriminators env self ?b (length dat) = Some res"
      "\<forall>msgs self'. res = Ok (msgs, self') \<longrightarrow> reader_inv http self'"
      using wrangle_returns [OF "3.prems"(1)] by blast
    from False "3.prems"(3) res(1) obtain msgs self1 outs1 where
      w: "res = Ok (msgs, self1)" "reader_loop env rest ?b self1 = Some (Ok (r, outs1, self'))"
      "outs = map ToDispatcher msgs @ outs1"
      by (auto simp: Let_def elim!: bind_run_InrE split: sum.split_asm)
    obtain k where k: "map ibcd_sequence_number msgs = chunk_numbers a [(is_connect (re_web env) ?b, k)]"
      "clear_reader (next_number a [(is_connect (re_web env) ?b, k)]) self1"
      using wrangle_numbered [OF "3.prems"(1,2)] res(1) w(1) by blast
    have "output_number \<circ> ToDispatcher = ibcd_sequence_number"
      by (simp add: fun_eq_iff output_number_def)
    moreover have "numbered_reads http (re_web env) (poll_buffers rest ?b) (next_number a [(is_connect (re_web env) ?b, k)]) r outs1 self'"
      using "3.IH" [OF False refl res(1) w(1) refl _ k(2) w(2)] res(2) w(1) by blast
    ultimately show ?thesis
      using numbered_reads_append [of "[k]" "[?b]" "map ToDispatcher msgs" a "re_web env" http "poll_buffers rest ?b" r outs1 self']
        k(1) w(3) False by simp
  qed
next
  case (4 env e rest bf self)
  then show ?case
    using shutdown_numbered [OF "4.prems"(2)] by (auto elim!: bind_run_InrE split: if_split_asm)
qed (auto intro: numbered_reads_Nil)

lemma reader_task_numbered:
  assumes "reader_inv http self" "clear_reader a self" "reader_task env polls self = Some (Ok (r, outs, self'))"
  shows "\<exists>m. (r = NotReady \<longrightarrow> m = length polls) \<and>
    numbered_reads http (re_web env) (concat (map (\<lambda>ans. poll_buffers ans READ_BUFFER) (take m polls))) a r outs self'"
  using assms
proof (induction polls arbitrary: self a outs)
  case Nil
  then show ?case by (auto intro: numbered_reads_Nil)
next
  case (Cons as polls)
  then obtain r1 outs1 self1 where one: "reader_loop env as READ_BUFFER self = Some (Ok (r1, outs1, self1))"
    by (auto simp: reader_poll_eq split: option.split_asm sum.split_asm)
  note b = reader_loop_numbered [OF Cons.prems(1,2) one]
  show ?case
  proof (cases "r1 = NotReady")
    case True
    with Cons.prems(3) one obtain outs2 where two: "reader_task env polls self1 = Some (Ok (r, outs2, self'))" "outs = outs1 @ outs2"
      by (auto simp: reader_poll_eq elim!: bind_run_InrE)
    from b True obtain ks where ks: "length ks = length (poll_buffers as READ_BUFFER)"
      "map output_number outs1 = chunk_numbers a (zip (map (is_connect (re_web env)) (poll_buffers as READ_BUFFER)) ks)"
      "clear_reader (next_number a (zip (map (is_connect (re_web env)) (poll_buffers as READ_BUFFER)) ks)) self1" "reader_inv http self1"
      by (auto simp: numbered_reads_def Let_def)
    from Cons.IH [OF ks(4,3) two(1)] obtain m where m: "r = NotReady \<longrightarrow> m = length polls"
      "numbered_reads http (re_web env) (concat (map (\<lambda>ans. poll_buffers ans READ_BUFFER) (take m polls)))
         (next_number a (zip (map (is_connect (re_web env)) (poll_buffers as READ_BUFFER)) ks)) r outs2 self'"
      by blast
    from numbered_reads_append [OF ks(1,2) m(2)] m(1) two(2) show ?thesis
      by (intro exI [of _ "Suc m"]) simp
  next
    case False
    with Cons.prems(3) one b show ?thesis
      by (intro exI [of _ "Suc 0"]) (simp add: reader_poll_eq)
  qed
qed

lemma new_clear_reader:
  assumes "stream_reader_new env rp fs False peer loc = Ok self" "JsonDiscriminatorFactory \<notin> set fs"
  shows "clear_reader 0 self"
proof -
  obtain ds where ds: "map_run (make_discriminator env) fs = Ok ds" "sr_discriminators self = ds"
    "\<not> sr_is_clandestine self" "sr_sequencer self = new_sequencer"
    using assms(1) by (auto simp: stream_reader_new_def elim!: bind_run_InrE split: if_split_asm)
  have "list_all clear_disc ds"
    using ds(1) assms(2)
  proof (induction fs arbitrary: ds)
    case (Cons f fs)
    then obtain d es where d: "make_discriminator env f = Ok d" "map_run (make_discriminator env) fs = Ok es"
      "ds = d # es"
      by (auto elim!: bind_run_InrE)
    moreover have "clear_disc d"
      using d(1) Cons.prems(2) by (cases f) (auto simp: new_discriminator_def clear_disc_def)
    ultimately show ?case
      using Cons by simp
  qed simp
  with ds show ?thesis
    by (simp add: clear_reader_def new_sequencer_def)
qed

text \<open>Libraries for examples: every byte string is text, and its JSON form is the text in quotes and
  braces.\<close>

definition quoting_codec :: json_codec where
  "quoting_codec = \<lparr>is_utf8 = (\<lambda>_. True),
     from_json = (\<lambda>m. Ok \<lparr>bodyText = Some (take (length m - 4) (drop 2 m)), bodyData = None\<rparr>),
     text_to_json = (\<lambda>x. Ok (OB # DQ # x @ [DQ, CB])), data_to_json = (\<lambda>_. Err JsonSyntax),
     base64_encode = id, base64_decode = Ok\<rparr>"

definition demo_reader_env :: reader_env where
  "demo_reader_env = \<lparr>re_regexes = example_regexes, re_codec = quoting_codec,
     re_web = \<lparr>we_libraries = example_libraries, host_pattern = (\<lambda>_. None),
       connect_method = (\<lambda>m. m = ascii ''CONNECT'')\<rparr>\<rparr>"

definition demo_peer :: socket_addr where
  "demo_peer = \<lparr>ip = V4 7 7 7 7, port = 5000\<rparr>"

definition demo_local :: socket_addr where
  "demo_local = \<lparr>ip = V4 1 2 3 4, port = 6000\<rparr>"

text \<open>C18. When the poll of a stream reader returns. For every list of discriminator factories, and for the
  reader as any polls have left it, the next poll returns as soon as the socket gives an answer that ends
  it: not ready, an empty read or an error of a dead stream. In particular the loop that takes chunks from
  the chosen discriminator always ends, since every frame of every framer takes at least one byte from
  those pending; and without the HTTP framer the poll does not panic. Without such an answer it does not
  return: a socket that keeps failing with other errors, or that always has data, holds the task in the
  loop for ever.\<close>

theorem reader_poll_returns:
  assumes "stream_reader_new env rp fs cl peer loc = Ok self" "cl \<or> rp \<noteq> None"
    and "reader_task env polls self = Some (Ok (NotReady, outs, self'))"
  shows "((\<exists>n. ends_poll (answers' !! n)) \<longrightarrow>
      (\<exists>res. reader_run env answers' READ_BUFFER self' = Some res \<and> (HttpRequestDiscriminatorFactory \<in> set fs \<or> \<not> isl res))) \<and>
    (HttpRequestDiscriminatorFactory \<notin> set fs \<and> (\<forall>n. \<not> ends_poll (answers' !! n)) \<longrightarrow>
      reader_run env answers' READ_BUFFER self' = None)"
proof -
  have inv: "reader_inv (HttpRequestDiscriminatorFactory \<in> set fs) self'"
    using reader_task_returns [OF new_reader_inv [OF assms(1,2)], of env polls] assms(3) by (simp add: returned_def)
  have "reader_run env answers' READ_BUFFER self' = None"
    if "HttpRequestDiscriminatorFactory \<notin> set fs" "\<forall>n. \<not> ends_poll (answers' !! n)"
    using reader_run_ended [of env answers' READ_BUFFER self'] that inv by fastforce
  then show ?thesis
    using reader_run_returns [OF inv, of answers' _ env READ_BUFFER] unfolding returned_def by blast
qed

text \<open>The reader of a TLS port, a read of two TLS records and what it makes of them.\<close>

definition demo_tls_reader :: stream_reader where
  "demo_tls_reader = projr (stream_reader_new demo_reader_env (Some 443)
     (discriminator_factories TLS_PORT_CONFIGURATION) False demo_peer demo_local)"

definition demo_records :: bytes where
  "demo_records = [22, 3, 1, 0, 1, 9, 23, 3, 1, 0, 1, 7]"

lemma demo_tls_reader_new:
  "stream_reader_new demo_reader_env (Some 443) (discriminator_factories TLS_PORT_CONFIGURATION) False demo_peer demo_local =
     Ok demo_tls_reader"
  by (simp add: demo_tls_reader_def stream_reader_new_def TLS_PORT_CONFIGURATION_def new_discriminator_def)

lemma wrangle_prefix:
  assumes "8 \<le> length dat"
  shows "wrangle_discriminators env self (dat @ bf) (length dat) = wrangle_discriminators env self dat (length dat)"
proof -
  have "is_connect (re_web env) (dat @ bf) = is_connect (re_web env) dat" "take (length dat) (dat @ bf) = take (length dat) dat"
    using assms by (simp_all add: is_connect_def)
  then show ?thesis
    by (simp only: wrangle_discriminators_def)
qed

abbreviation tls_discriminator :: "bytes \<Rightarrow> dyn_framer discriminator" where
  "tls_discriminator bs \<equiv> \<lparr> disc_framer = TlsFramer \<lparr> tls_data_so_far = bs \<rparr>, disc_masqueraders = [null_try_unmask] \<rparr>"

lemma wrangle_tls_record:
  "is_tls_record r \<Longrightarrow> wrangle_loop env self connect (tls_discriminator (r @ rest)) sq =
     (let (n, sq1) = chunk_sequence_number connect (new_unmasked_chunk r True True) sq
      in Option.bind (wrangle_loop env self connect (tls_discriminator rest) sq1) (\<lambda>res. Some (bind_run res (\<lambda>(msgs, d, sq2).
           Ok (chunk_message self n (new_unmasked_chunk r True True) # msgs, d, sq2)))))"
  by (subst wrangle_loop.simps) (simp add: take_chunk_def tls_take_record null_try_unmask_def Let_def case_prod_beta)

lemma wrangle_tls_done: "wrangle_loop env self connect (tls_discriminator []) sq = Some (Ok ([], tls_discriminator [], sq))"
proof -
  have "tls_take_frame \<lparr> tls_data_so_far = [] \<rparr> = Ok (None, \<lparr> tls_data_so_far = [] \<rparr>)"
    by code_simp
  then show ?thesis
    by (subst wrangle_loop.simps) (simp add: take_chunk_def)
qed

lemma demo_wrangled:
  "case wrangle_discriminators demo_reader_env demo_tls_reader demo_records 12 of
     Some (Inr (msgs, self')) \<Rightarrow> map ibcd_sequence_number msgs = [Some 0, Some 1] \<and> \<not> sr_is_clandestine self' \<and>
       sr_reception_port self' = Some 443 \<and> current_sequence_number (sr_sequencer self') = 2
   | _ \<Rightarrow> False"
proof -
  have r: "demo_records = [22, 3, 1, 0, 1, 9] @ [23, 3, 1, 0, 1, 7]" "length demo_records = 12"
    "is_tls_record [22, 3, 1, 0, 1, 9]" "is_tls_record [23, 3, 1, 0, 1, 7]"
    "\<not> is_connect (re_web demo_reader_env) demo_records"
    by code_simp+
  have d: "sr_discriminators demo_tls_reader =
      [tls_discriminator [], \<lparr> disc_framer = HttpPacketFramer new_http_state, disc_masqueraders = [null_try_unmask] \<rparr>]"
    "sr_sequencer demo_tls_reader = new_sequencer" "\<not> sr_is_clandestine demo_tls_reader" "sr_reception_port demo_tls_reader = Some 443"
    by (simp_all add: demo_tls_reader_def stream_reader_new_def TLS_PORT_CONFIGURATION_def new_discriminator_def tls_new_def)
  have "disc_add_data dyn_add_data (tls_discriminator []) demo_records = tls_discriminator demo_records"
    by (simp add: disc_add_data_def tls_add_data_def)
  moreover have "wrangle_loop demo_reader_env demo_tls_reader False (tls_discriminator demo_records) new_sequencer =
      Some (Ok ([chunk_message demo_tls_reader (Some 0) (new_unmasked_chunk [22, 3, 1, 0, 1, 9] True True),
        chunk_message demo_tls_reader (Some 1) (new_unmasked_chunk [23, 3, 1, 0, 1, 7] True True)],
        tls_discriminator [], \<lparr> current_sequence_number = 2 \<rparr>))"
    using wrangle_tls_record [OF r(4), of demo_reader_env demo_tls_reader False "[]"]
    unfolding r(1) wrangle_tls_record [OF r(3)]
    by (simp add: wrangle_tls_done chunk_sequence_number_def new_unmasked_chunk_def next_sequence_number_def new_sequencer_def Let_def)
  ultimately show ?thesis
    using r(2,5) d by (simp add: wrangle_discriminators_def index_def Let_def chunk_message_def)
qed

lemma demo_wrangled_records:
  obtains msgs self' where "wrangle_discriminators demo_reader_env demo_tls_reader (demo_records @ bf) 12 = Some (Ok (msgs, self'))"
    "map ibcd_sequence_number msgs = [Some 0, Some 1]" "\<not> sr_is_clandestine self'" "sr_reception_port self' = Some 443"
    "current_sequence_number (sr_sequencer self') = 2"
proof -
  have "length demo_records = 12"
    by (simp add: demo_records_def)
  then have "wrangle_discriminators demo_reader_env demo_tls_reader (demo_records @ bf) 12 =
      wrangle_discriminators demo_reader_env demo_tls_reader demo_records 12"
    using wrangle_prefix [of demo_records] by simp
  with demo_wrangled that show thesis
    by (auto split: option.split_asm sum.split_asm)
qed

lemma demo_read:
  "\<exists>outs self'. reader_task demo_reader_env [[ReadBytes demo_records]] demo_tls_reader = Some (Ok (NotReady, outs, self'))"
  "\<exists>outs self'. reader_task demo_reader_env [[ReadBytes demo_records], [ReadBytes []]] demo_tls_reader = Some (Ok (Ready, outs, self')) \<and>
     map output_number outs = [Some 0, Some 1, Some 2]"
proof -
  obtain msgs self' where w: "wrangle_discriminators demo_reader_env demo_tls_reader (demo_records @ drop 12 READ_BUFFER) 12 = Some (Ok (msgs, self'))"
    "map ibcd_sequence_number msgs = [Some 0, Some 1]" "\<not> sr_is_clandestine self'" "sr_reception_port self' = Some 443"
    "current_sequence_number (sr_sequencer self') = 2"
    by (rule demo_wrangled_records)
  have r: "length demo_records = 12" "demo_records \<noteq> []"
    by (simp_all add: demo_records_def)
  have "output_number \<circ> ToDispatcher = ibcd_sequence_number"
    by (simp add: fun_eq_iff output_number_def)
  with w r show "\<exists>outs self'. reader_task demo_reader_env [[ReadBytes demo_records], [ReadBytes []]] demo_tls_reader =
      Some (Ok (Ready, outs, self')) \<and> map output_number outs = [Some 0, Some 1, Some 2]"
    by (auto simp: reader_poll_eq reader_shutdown_def expect_def next_sequence_number_def output_number_def Let_def)
  from w r show "\<exists>outs self'. reader_task demo_reader_env [[ReadBytes demo_records]] demo_tls_reader = Some (Ok (NotReady, outs, self'))"
    by (simp add: reader_poll_eq Let_def)
qed

text \<open>After a read of two records the next poll ends when the stream does; on the TLS framer alone it never
  ends while the socket reports interruptions.\<close>

theorem reader_poll_returns_witness:
  "(\<exists>outs self' res. reader_task demo_reader_env [[ReadBytes demo_records]] demo_tls_reader = Some (Ok (NotReady, outs, self')) \<and>
     reader_run demo_reader_env (ReadError Interrupted ## ReadBytes [] ## sconst (ReadError Interrupted)) READ_BUFFER self' = Some res) \<and>
   (\<exists>self. stream_reader_new demo_reader_env (Some 443) [TlsDiscriminatorFactory] False demo_peer demo_local = Ok self \<and>
     reader_run demo_reader_env (sconst (ReadError Interrupted)) READ_BUFFER self = None)"
proof
  obtain outs self' where t: "reader_task demo_reader_env [[ReadBytes demo_records]] demo_tls_reader = Some (Ok (NotReady, outs, self'))"
    using demo_read(1) by blast
  have "ends_poll ((ReadError Interrupted ## ReadBytes [] ## sconst (ReadError Interrupted)) !! 1)"
    by simp
  then show "\<exists>outs self' res. reader_task demo_reader_env [[ReadBytes demo_records]] demo_tls_reader = Some (Ok (NotReady, outs, self')) \<and>
     reader_run demo_reader_env (ReadError Interrupted ## ReadBytes [] ## sconst (ReadError Interrupted)) READ_BUFFER self' = Some res"
    using reader_poll_returns [OF demo_tls_reader_new _ t] t by blast
next
  obtain self where n: "stream_reader_new demo_reader_env (Some 443) [TlsDiscriminatorFactory] False demo_peer demo_local = Ok self"
    by (simp add: stream_reader_new_def new_discriminator_def)
  have t: "reader_task demo_reader_env [] self = Some (Ok (NotReady, [], self))"
    by simp
  have "\<not> ends_poll (sconst (ReadError Interrupted) !! i)" for i
    by (simp add: indicates_dead_stream_def DEAD_STREAM_ERRORS_def)
  with reader_poll_returns [OF n _ t, of "sconst (ReadError Interrupted)"] n
  show "\<exists>self. stream_reader_new demo_reader_env (Some 443) [TlsDiscriminatorFactory] False demo_peer demo_local = Ok self \<and>
     reader_run demo_reader_env (sconst (ReadError Interrupted)) READ_BUFFER self = None"
    by auto
qed

text \<open>C26. The chunks of a stream of clear data are numbered without gap or repetition. Whatever the socket
  answers in however many polls: the chunks completed by the reads whose buffer does not start with a
  CONNECT request carry the numbers zero, one, two and so on through the whole stream, the chunks
  completed by the other reads all carry zero and use up no number, and the message that reports the end
  of the stream carries the next free number.\<close>

theorem clear_data_numbered:
  assumes "stream_reader_new env (Some p) fs False peer loc = Ok self" "JsonDiscriminatorFactory \<notin> set fs"
    and "reader_task env polls self = Some (Ok (r, outs, self'))"
  shows "\<exists>m ks. (r = NotReady \<longrightarrow> m = length polls) \<and>
    (let bufs = concat (map (\<lambda>ans. poll_buffers ans READ_BUFFER) (take m polls));
         reads = zip (map (is_connect (re_web env)) bufs) ks
     in length ks = length bufs \<and>
        map output_number outs =
          chunk_numbers 0 reads @ (if r = NotReady then [] else [Some (of_nat (next_number 0 reads))]))"
proof -
  have "reader_inv (HttpRequestDiscriminatorFactory \<in> set fs) self"
    using new_reader_inv [OF assms(1)] by simp
  from reader_task_numbered [OF this new_clear_reader [OF assms(1,2)] assms(3)] show ?thesis
    unfolding numbered_reads_def Let_def by blast
qed

theorem clear_data_numbered_witness:
  "\<exists>outs self'. reader_task demo_reader_env [[ReadBytes demo_records], [ReadBytes []]] demo_tls_reader = Some (Ok (Ready, outs, self')) \<and>
     map output_number outs = [Some 0, Some 1, Some 2] \<and>
     (\<exists>m ks. (Ready = NotReady \<longrightarrow> m = length [[ReadBytes demo_records], [ReadBytes []]]) \<and>
       (let bufs = concat (map (\<lambda>ans. poll_buffers ans READ_BUFFER) (take m [[ReadBytes demo_records], [ReadBytes []]]));
            reads = zip (map (is_connect (re_web demo_reader_env)) bufs) ks
        in length ks = length bufs \<and>
           map output_number outs = chunk_numbers 0 reads @
             (if Ready = NotReady then [] else [Some (of_nat (next_number 0 reads))])))"
proof -
  obtain outs self' where t: "reader_task demo_reader_env [[ReadBytes demo_records], [ReadBytes []]] demo_tls_reader = Some (Ok (Ready, outs, self'))"
    "map output_number outs = [Some 0, Some 1, Some 2]"
    using demo_read(2) by (elim exE conjE)
  have "JsonDiscriminatorFactory \<notin> set (discriminator_factories TLS_PORT_CONFIGURATION)"
    by (simp add: TLS_PORT_CONFIGURATION_def)
  note n = clear_data_numbered [OF demo_tls_reader_new this t(1)]
  show ?thesis
    by (rule exI, rule exI, rule conjI [OF t(1) conjI [OF t(2) n]])
qed

end
