(* ===== verification/ClandestineLink.thy ===== *)
theory ClandestineLink
  imports StreamReader
begin

text \<open>
  The clandestine connection between two nodes, from the masquerader of the sender to the
  dispatcher of the receiver: \<open>json_masquerader.rs\<close> masks each package as a JSON object,
  \<open>stream_writer_unsorted.rs\<close> writes the objects to the socket, \<open>stream_reader.rs\<close> reads them with
  \<open>json_framer.rs\<close> and unmasks them. The theories of those files are composed here: the packages
  arrive complete and in order, however the transport cuts the bytes.
\<close>

section \<open>JSON objects without nesting\<close>

text \<open>The rest of an object behind its opening brace; the flag tells whether a string is open.\<close>

fun json_flat :: "bool \<Rightarrow> bytes \<Rightarrow> bool" where
  "json_flat in_string [] = False"
| "json_flat False (b # bs) =
     (if b = CB then bs = []
      else if b = DQ then json_flat True bs
      else b \<noteq> OB \<and> b \<noteq> SQ \<and> json_flat False bs)"
| "json_flat True (b # bs) =
     (if b = BS then (case bs of [] \<Rightarrow> False | _ # cs \<Rightarrow> json_flat True cs)
      else if b = DQ then json_flat False bs
      else json_flat True bs)"

definition json_object :: "bytes \<Rightarrow> bool" where
  "json_object m \<longleftrightarrow> m \<noteq> [] \<and> hd m = OB \<and> json_flat False (tl m)"

text \<open>The state of the framer inside an object that starts at offset zero.\<close>

definition in_object :: "bool \<Rightarrow> bool \<Rightarrow> bytes \<Rightarrow> json_framer" where
  "in_object in_string escaped dat =
     \<lparr>possible_start = Some 0, possible_end = None, json_data_so_far = dat, brace_nest_count = 1,
      in_single_quote_string = False, in_double_quote_string = in_string, after_backslash = escaped\<rparr>"

lemma in_object_steps:
  "update_state (in_object ins True d) b i = in_object ins False d"
  "b \<noteq> BS \<Longrightarrow> b \<noteq> DQ \<Longrightarrow> update_state (in_object True False d) b i = in_object True False d"
  "update_state (in_object True False d) BS i = in_object True True d"
  "update_state (in_object True False d) DQ i = in_object False False d"
  "update_state (in_object False False d) DQ i = in_object True False d"
  "b \<noteq> DQ \<Longrightarrow> b \<noteq> SQ \<Longrightarrow> b \<noteq> OB \<Longrightarrow> b \<noteq> CB \<Longrightarrow>
     update_state (in_object False False d) b i = in_object False False d"
  "update_state (in_object False False d) CB i =
     (in_object False False d)\<lparr>brace_nest_count := 0, possible_end := Some (i + 1)\<rparr>"
  by (simp_all add: in_object_def update_state_def handle_quotes_eq handle_braces_def Let_def)

lemma in_object_no_chunk [simp]:
  "check_data_chunk (in_object ins esc d) = Ok (None, in_object ins esc d)"
  by (simp add: check_data_chunk_def in_object_def)

lemma json_loop_object:
  assumes "json_flat ins bs"
  shows "json_loop (in_object ins False (pre @ bs @ rest)) (bs @ rest) (length pre)
    = Ok (Some \<lparr>chunk = pre @ bs, last_chunk = True\<rparr>, json_new\<lparr>json_data_so_far := rest\<rparr>)"
  using assms
proof (induction ins bs arbitrary: pre rule: json_flat.induct)
  case (2 b bs)
  show ?case
  proof (cases "b = CB")
    case True
    with "2.prems" show ?thesis
      by (simp add: in_object_steps) (simp add: check_data_chunk_def in_object_def slice_def reset_def json_new_def)
  next
    case False
    with 2 show ?thesis
      using "2.IH" [where pre = "pre @ [b]"] by (auto simp: in_object_steps split: if_split_asm)
  qed
next
  case (3 b bs)
  show ?case
  proof (cases "b = BS")
    case True
    with "3.prems" obtain c cs where bs: "bs = c # cs" "json_flat True cs"
      by (auto split: list.split_asm)
    with True "3.IH"(1) [OF True bs(1), where pre = "pre @ [b, c]"] show ?thesis
      by (simp add: in_object_steps)
  next
    case False
    with 3 show ?thesis
      using "3.IH"(2,3) [where pre = "pre @ [b]"] by (auto simp: in_object_steps split: if_split_asm)
  qed
qed simp

lemma json_loop_partial:
  assumes "json_flat ins (p @ q)" "q \<noteq> []"
  shows "\<exists>t. json_loop (in_object ins False (pre @ p)) p (length pre) = Ok (None, t) \<and> json_data_so_far t = pre @ p"
  using assms
proof (induction ins p arbitrary: pre rule: json_flat.induct)
  case (1 ins)
  then show ?case by (simp add: in_object_def slice_def)
next
  case (2 b bs)
  then show ?case
    using "2.IH" [where pre = "pre @ [b]"] by (auto simp: in_object_steps split: if_split_asm)
next
  case (3 b bs)
  show ?case
  proof (cases "b = BS")
    case True
    show ?thesis
    proof (cases bs)
      case Nil
      with True show ?thesis
        by (simp add: in_object_steps) (simp add: in_object_def slice_def)
    next
      case (Cons c cs)
      with "3.prems" True "3.IH"(1) [OF True Cons, where pre = "pre @ [b, c]"] show ?thesis
        by (simp add: in_object_steps)
    qed
  next
    case False
    with 3 show ?thesis
      using "3.IH"(2,3) [where pre = "pre @ [b]"] by (auto simp: in_object_steps split: if_split_asm)
  qed
qed

lemma reset_json_new: "reset t = json_new\<lparr>json_data_so_far := json_data_so_far t\<rparr>"
  by (simp add: reset_def json_new_def)

lemma object_start:
  "update_state (json_new\<lparr>json_data_so_far := d\<rparr>) OB 0 = in_object False False d"
  by (simp add: json_new_def in_object_def update_state_def handle_quotes_def handle_braces_def reset_def Let_def)

text \<open>The framer takes a whole object, and keeps an incomplete one.\<close>

lemma json_take_object:
  assumes "json_object m" "json_data_so_far s = m @ rest"
  shows "json_take_frame s = Ok (Some \<lparr>chunk = m, last_chunk = True\<rparr>, json_new\<lparr>json_data_so_far := rest\<rparr>)"
proof -
  obtain bs where m: "m = OB # bs" "json_flat False bs"
    using assms(1) by (cases m) (auto simp: json_object_def)
  then show ?thesis
    using assms(2) json_loop_object [OF m(2), of "[OB]" rest]
    by (simp add: json_take_frame_def reset_json_new object_start)
qed

definition partial_object :: "bytes \<Rightarrow> bool" where
  "partial_object p \<longleftrightarrow> (\<exists>m. json_object m \<and> strict_prefix p m)"

lemma json_take_partial:
  assumes "partial_object (json_data_so_far s)"
  shows "\<exists>t. json_take_frame s = Ok (None, t) \<and> json_data_so_far t = json_data_so_far s"
proof (cases "json_data_so_far s")
  case Nil
  then show ?thesis by (simp add: json_take_frame_def reset_def)
next
  case (Cons b p)
  obtain m where m: "json_object m" "strict_prefix (b # p) m"
    using assms Cons by (auto simp: partial_object_def)
  obtain q where q: "m = b # p @ q" "q \<noteq> []"
    using m(2) by (auto elim!: strict_prefixE')
  with m(1) Cons json_loop_partial [of False p q "[OB]"] show ?thesis
    by (simp add: json_take_frame_def reset_json_new object_start json_object_def)
qed

section \<open>Packages cut anywhere\<close>

lemma partial_object_Nil [simp]: "partial_object []"
  by (auto simp: partial_object_def json_object_def strict_prefix_def intro!: exI [of _ "[OB, CB]"])

lemma partial_object_prefix: "partial_object p \<Longrightarrow> prefix x p \<Longrightarrow> partial_object x"
  by (auto simp: partial_object_def dest: prefix_order.le_less_trans)

lemma cut_objects:
  assumes "list_all json_object ms" "partial_object p" "prefix x (concat ms @ p)"
  shows "\<exists>k y. k \<le> length ms \<and> x = concat (take k ms) @ y \<and> partial_object y"
  using assms
proof (induction ms arbitrary: x)
  case Nil
  then show ?case
    using partial_object_prefix by auto
next
  case (Cons m ms)
  from Cons.prems(3) have "prefix x m \<or> (\<exists>z. x = m @ z \<and> prefix z (concat ms @ p))"
    by (simp add: prefix_append)
  then consider "strict_prefix x m" | z where "x = m @ z" "prefix z (concat ms @ p)"
    by (cases "x = m") (auto simp: strict_prefix_def)
  then show ?case
  proof cases
    case 1
    with Cons.prems show ?thesis
      by (intro exI [of _ 0] exI [of _ x]) (auto simp: partial_object_def)
  next
    case 2
    with Cons.prems Cons.IH [of z] obtain k y where "k \<le> length ms" "z = concat (take k ms) @ y" "partial_object y"
      by auto
    with 2 show ?thesis
      by (intro exI [of _ "Suc k"] exI [of _ y]) simp
  qed
qed

text \<open>What the libraries are relied on for: a serialized structure is one JSON object in UTF-8 that
  parses back to the structure, and Base64 decodes what it has encoded.\<close>

definition codec_law :: "json_codec \<Rightarrow> bytes \<Rightarrow> bool" where
  "codec_law cod dat \<longleftrightarrow>
     (\<forall>m. text_to_json cod dat = Ok m \<longrightarrow> json_object m \<and> is_utf8 cod m
        \<and> from_json cod m = Ok \<lparr>bodyText = Some dat, bodyData = None\<rparr>)
   \<and> (\<forall>m. data_to_json cod (base64_encode cod dat) = Ok m \<longrightarrow> json_object m \<and> is_utf8 cod m
        \<and> from_json cod m = Ok \<lparr>bodyText = None, bodyData = Some (base64_encode cod dat)\<rparr>)
   \<and> base64_decode cod (base64_encode cod dat) = Ok dat"

definition masks :: "json_codec \<Rightarrow> bytes \<Rightarrow> bytes \<Rightarrow> bool" where
  "masks cod dat m \<longleftrightarrow> json_object m
     \<and> json_try_unmask cod m = Ok \<lparr>um_chunk = dat, um_last_chunk = True, um_sequenced = False\<rparr>"

lemma codec_law_masks:
  assumes "codec_law cod dat" "json_mask cod dat = Ok (Ok m)"
  shows "masks cod dat m"
  using assms
  by (auto simp: codec_law_def json_mask_def masks_def json_try_unmask_def unmask_def string_from_data_def
      structure_from_string_def data_vector_from_structure_def new_unmasked_chunk_def split: if_split_asm sum.split_asm)

section \<open>The receiving end\<close>

text \<open>A clandestine discriminator that holds the bytes \<open>p\<close>, and a reader with it alone.\<close>

definition holds :: "json_codec \<Rightarrow> bytes \<Rightarrow> dyn_framer discriminator \<Rightarrow> bool" where
  "holds cod p d \<longleftrightarrow> disc_masqueraders d = [json_try_unmask cod]
     \<and> (\<exists>f. disc_framer d = JsonFramer f \<and> json_data_so_far f = p)"

definition clandestine_reader :: "json_codec \<Rightarrow> socket_addr \<Rightarrow> bytes \<Rightarrow> stream_reader \<Rightarrow> bool" where
  "clandestine_reader cod peer p self \<longleftrightarrow> sr_is_clandestine self \<and> sr_peer_addr self = peer
     \<and> (\<exists>d. sr_discriminators self = [d] \<and> holds cod p d)"

definition message_payload :: "socket_addr \<Rightarrow> inbound_client_data \<Rightarrow> bytes option" where
  "message_payload peer m =
     (if is_clandestine m \<and> ibcd_peer_addr m = peer \<and> \<not> ibcd_last_data m then Some (ibcd_data m) else None)"

definition clandestine_payload :: "socket_addr \<Rightarrow> reader_output \<Rightarrow> bytes option" where
  "clandestine_payload peer out = (case out of ToDispatcher m \<Rightarrow> message_payload peer m | ToPool _ \<Rightarrow> None)"

lemma take_chunk_object:
  assumes "holds cod (m @ rest) d" "masks cod dat m"
  shows "\<exists>d'. take_chunk (dyn_take_frame env) d
      = Ok (Some \<lparr>um_chunk = dat, um_last_chunk = True, um_sequenced = False\<rparr>, d') \<and> holds cod rest d'"
  using assms json_take_object [of m _ rest] assms(2)
  by (auto simp: holds_def take_chunk_def masks_def)

lemma take_chunk_partial:
  assumes "holds cod p d" "partial_object p"
  shows "\<exists>d'. take_chunk (dyn_take_frame env) d = Ok (None, d') \<and> holds cod p d'"
  using assms json_take_partial by (fastforce simp: holds_def take_chunk_def)

lemma wrangle_objects:
  assumes "list_all2 (masks cod) ds ms" "partial_object p" "holds cod (concat ms @ p) d"
    "sr_is_clandestine self"
  shows "\<exists>msgs d' sq'. wrangle_loop env self connect d sq = Some (Ok (msgs, d', sq'))
    \<and> map (message_payload (sr_peer_addr self)) msgs = map Some ds \<and> holds cod p d'"
  using assms
proof (induction ds ms arbitrary: d sq rule: list_all2_induct)
  case Nil
  then show ?case
    using take_chunk_partial [of cod p d env] by (subst wrangle_loop.simps) auto
next
  case (Cons dat ds m ms)
  let ?c = "\<lparr>um_chunk = dat, um_last_chunk = True, um_sequenced = False\<rparr>"
  obtain d1 where d1: "take_chunk (dyn_take_frame env) d = Ok (Some ?c, d1)" "holds cod (concat ms @ p) d1"
    using Cons take_chunk_object [of cod m "concat ms @ p" d dat env] by auto
  obtain msgs d' sq' where
    "wrangle_loop env self connect d1 (snd (chunk_sequence_number connect ?c sq)) = Some (Ok (msgs, d', sq'))"
    "map (message_payload (sr_peer_addr self)) msgs = map Some ds" "holds cod p d'"
    using Cons.IH [OF Cons.prems(1) d1(2) Cons.prems(3)] by blast
  with d1(1) Cons.prems(3) show ?case
    by (subst wrangle_loop.simps) (simp add: chunk_message_def message_payload_def)
qed

text \<open>Answers of a socket that stays alive, and the bytes it delivers with them.\<close>

fun live_answer :: "read_answer \<Rightarrow> bool" where
  "live_answer (ReadBytes dat) \<longleftrightarrow> dat \<noteq> []"
| "live_answer (ReadError e) \<longleftrightarrow> \<not> indicates_dead_stream e"
| "live_answer ReadNotReady \<longleftrightarrow> False"

fun read_data :: "read_answer list \<Rightarrow> bytes" where
  "read_data [] = []"
| "read_data (ReadBytes dat # rest) = dat @ read_data rest"
| "read_data (_ # rest) = read_data rest"

lemma wrangle_clandestine:
  assumes "list_all2 (masks cod) ds ms" "partial_object p'" "clandestine_reader cod peer p self"
    "p @ take n bf = concat ms @ p'"
  shows "\<exists>msgs self'. wrangle_discriminators env self bf n = Some (Ok (msgs, self'))
    \<and> map (message_payload peer) msgs = map Some ds \<and> clandestine_reader cod peer p' self'"
proof -
  obtain d where d: "sr_discriminators self = [d]" "holds cod p d" "sr_is_clandestine self" "sr_peer_addr self = peer"
    using assms(3) by (auto simp: clandestine_reader_def)
  let ?e = "disc_add_data dyn_add_data d (take n bf)"
  have "holds cod (concat ms @ p') ?e"
    using d(2) assms(4) by (auto simp: holds_def json_add_data_def)
  from wrangle_objects [OF assms(1,2) this d(3)] obtain msgs d' sq' where
    "wrangle_loop env self (is_connect (re_web env) bf) ?e (sr_sequencer self) = Some (Ok (msgs, d', sq'))"
    "map (message_payload peer) msgs = map Some ds" "holds cod p' d'"
    using d(4) by blast
  with d show ?thesis
    by (auto simp: wrangle_discriminators_def index_def Let_def clandestine_reader_def)
qed

lemma list_all2_codec_objects: "list_all2 (masks cod) ds ms \<Longrightarrow> list_all json_object ms"
  by (induction ds ms rule: list_all2_induct) (simp_all add: masks_def)

lemma cut_stream:
  assumes "list_all2 (masks cod) ds ms" "partial_object p'" "p @ x @ z = concat ms @ p'"
  shows "\<exists>k y. p @ x = concat (take k ms) @ y \<and> partial_object y \<and> y @ z = concat (drop k ms) @ p'
    \<and> list_all2 (masks cod) (take k ds) (take k ms) \<and> list_all2 (masks cod) (drop k ds) (drop k ms)"
proof -
  have "prefix (p @ x) (concat ms @ p')"
    using assms(3) by (metis append.assoc prefixI)
  from cut_objects [OF list_all2_codec_objects [OF assms(1)] assms(2) this] obtain k y where
    k: "p @ x = concat (take k ms) @ y" "partial_object y"
    by blast
  have "concat (take k ms) @ y @ z = concat (take k ms) @ concat (drop k ms) @ p'"
    using assms(3) k(1) by (metis append.assoc append_take_drop_id concat_append)
  with k assms(1) show ?thesis
    by (auto simp: list_all2_takeI list_all2_dropI)
qed

lemma map_Some_split: "map Some (take k ds) @ map Some (drop k ds) = map Some ds"
  by (metis append_take_drop_id map_append)

text \<open>A partial object does not begin with a whole one.\<close>

lemma partial_no_objects:
  assumes "list_all2 (masks cod) ds ms" "partial_object p" "p = concat ms @ p'"
  shows "ds = [] \<and> p = p'"
proof (cases ms)
  case Nil
  with assms show ?thesis by simp
next
  case (Cons m ms')
  with assms(1) have m: "json_object m"
    using list_all2_codec_objects by fastforce
  obtain t where "json_take_frame (json_new\<lparr>json_data_so_far := p\<rparr>) = Ok (None, t)"
    using json_take_partial [of "json_new\<lparr>json_data_so_far := p\<rparr>"] assms(2) by auto
  with json_take_object [OF m, of "json_new\<lparr>json_data_so_far := p\<rparr>" "concat ms' @ p'"] assms(3) Cons
  show ?thesis by simp
qed

lemma reader_loop_objects:
  assumes "list_all live_answer ans" "clandestine_reader cod peer p self" "partial_object p'"
    "list_all2 (masks cod) ds ms" "p @ read_data ans = concat ms @ p'"
    "partial_object p"
  shows "\<exists>outs self'. reader_loop env ans bf self = Some (Ok (NotReady, outs, self'))
    \<and> map (clandestine_payload peer) outs = map Some ds \<and> clandestine_reader cod peer p' self'"
  using assms
proof (induction ans arbitrary: bf self p ds ms)
  case Nil
  with partial_no_objects [of cod ds ms p p'] show ?case by simp
next
  case (Cons a ans)
  show ?case
  proof (cases a)
    case (ReadBytes dat)
    from Cons.prems(5) ReadBytes have "p @ dat @ read_data ans = concat ms @ p'"
      by simp
    from cut_stream [OF Cons.prems(4,3) this] obtain k y where
      k: "p @ dat = concat (take k ms) @ y" "partial_object y" "y @ read_data ans = concat (drop k ms) @ p'"
      and laws: "list_all2 (masks cod) (take k ds) (take k ms)" "list_all2 (masks cod) (drop k ds) (drop k ms)"
      by blast
    let ?b = "dat @ drop (length dat) bf"
    obtain msgs self1 where w: "wrangle_discriminators env self ?b (length dat) = Some (Ok (msgs, self1))"
      "map (message_payload peer) msgs = map Some (take k ds)" "clandestine_reader cod peer y self1"
      using wrangle_clandestine [OF laws(1) k(2) Cons.prems(2), of "length dat" ?b env] k(1) by auto
    obtain outs self' where "reader_loop env ans ?b self1 = Some (Ok (NotReady, outs, self'))"
      "map (clandestine_payload peer) outs = map Some (drop k ds)" "clandestine_reader cod peer p' self'"
      using Cons.IH [OF _ w(3) Cons.prems(3) laws(2) k(3,2)] Cons.prems(1) by fastforce
    moreover have "map (clandestine_payload peer) (map ToDispatcher msgs) = map Some (take k ds)"
      using w(2) by (simp add: clandestine_payload_def comp_def)
    ultimately show ?thesis
      using w(1) ReadBytes Cons.prems(1) map_Some_split [of k ds] by simp
  next
    case ReadNotReady
    with Cons.prems(1) show ?thesis by simp
  next
    case (ReadError e)
    with Cons.prems Cons.IH show ?thesis by simp
  qed
qed

lemma reader_task_objects:
  assumes "list_all (list_all live_answer) polls" "clandestine_reader cod peer p self" "partial_object p'"
    "list_all2 (masks cod) ds ms" "p @ concat (map read_data polls) = concat ms @ p'" "partial_object p"
  shows "\<exists>outs self'. reader_task env polls self = Some (Ok (NotReady, outs, self'))
    \<and> map (clandestine_payload peer) outs = map Some ds \<and> clandestine_reader cod peer p' self'"
  using assms
proof (induction polls arbitrary: self p ds ms)
  case Nil
  with partial_no_objects [of cod ds ms p p'] show ?case by simp
next
  case (Cons ans polls)
  from Cons.prems(5) have "p @ read_data ans @ concat (map read_data polls) = concat ms @ p'"
    by simp
  from cut_stream [OF Cons.prems(4,3) this] obtain k y where
    k: "p @ read_data ans = concat (take k ms) @ y" "partial_object y"
      "y @ concat (map read_data polls) = concat (drop k ms) @ p'"
    and laws: "list_all2 (masks cod) (take k ds) (take k ms)" "list_all2 (masks cod) (drop k ds) (drop k ms)"
    by blast
  obtain outs1 self1 where l: "reader_poll env ans self = Some (Ok (NotReady, outs1, self1))"
    "map (clandestine_payload peer) outs1 = map Some (take k ds)" "clandestine_reader cod peer y self1"
    using reader_loop_objects [OF _ Cons.prems(2) k(2) laws(1) k(1) Cons.prems(6), of env READ_BUFFER] Cons.prems(1)
    by (auto simp: reader_poll_eq)
  obtain outs self' where "reader_task env polls self1 = Some (Ok (NotReady, outs, self'))"
    "map (clandestine_payload peer) outs = map Some (drop k ds)" "clandestine_reader cod peer p' self'"
    using Cons.IH [OF _ l(3) Cons.prems(3) laws(2) k(3,2)] Cons.prems(1) by fastforce
  with l show ?case
    using map_Some_split [of k ds] by simp
qed

lemma new_clandestine_reader:
  assumes "stream_reader_new env rp [JsonDiscriminatorFactory] True peer loc = Ok self"
  shows "clandestine_reader (re_codec env) peer [] self"
  using assms by (auto simp: stream_reader_new_def new_discriminator_def clandestine_reader_def holds_def
      json_new_def)

section \<open>The link\<close>

text \<open>C6. A clandestine connection delivers what is sent on it. The sender masks the packages \<open>ds\<close> with
  the JSON masquerader into \<open>ms\<close> and its writer, polled any number of times, has got some bytes
  accepted by the socket; the transport hands those bytes to the reader of the peer, cut into reads
  and polls in any way and interrupted by errors that do not mean a dead stream. Then the reader has
  handed to the dispatcher, as clandestine data from that peer, exactly a prefix of the packages: each
  complete, unaltered, once and in order. When the writer has finished with nothing left in its
  channel, it is all of them.\<close>

theorem clandestine_link:
  assumes libs: "list_all (codec_law (re_codec env)) ds"
    and masked: "map (json_mask (re_codec env)) ds = map (\<lambda>m. Ok (Ok m)) ms"
    and chan: "packet_data rx = concat ms" "ChannelError \<notin> set rx" "accepted sock = []"
    and run: "run_unsorted n (unsorted_new sock rx) = Ok (r, w)"
    and reading: "stream_reader_new env rp [JsonDiscriminatorFactory] True peer loc = Ok rd"
    and transport: "list_all (list_all live_answer) polls" "concat (map read_data polls) = accepted (swu_stream w)"
  shows "\<exists>k outs rd'. reader_task env polls rd = Some (Ok (NotReady, outs, rd'))
    \<and> map (clandestine_payload peer) outs = map Some (take k ds)
    \<and> (r = Ready \<and> packet_data (swu_rx_to_write w) = [] \<longrightarrow> length ds \<le> k)"
proof -
  have laws: "list_all2 (masks (re_codec env)) ds ms"
    using libs masked
    by (auto simp: list_all2_conv_all_nth list_all_length codec_law_masks dest: map_eq_imp_length_eq
        intro!: codec_law_masks simp: list_eq_iff_nth_eq)
  have w: "prefix (accepted (swu_stream w)) (concat ms)"
    "r = Ready \<longrightarrow> concat ms = accepted (swu_stream w) @ packet_data (swu_rx_to_write w)"
    using run_unsorted_ok [of "packet_data rx" "unsorted_new sock rx" n] chan run
    by (auto simp: unsorted_ok_def unsorted_new_def)
  obtain z where z: "concat ms = accepted (swu_stream w) @ z"
    using w(1) by (auto elim: prefixE)
  from cut_stream [OF laws partial_object_Nil, of "[]" "accepted (swu_stream w)" z] z obtain k y where
    k: "accepted (swu_stream w) = concat (take k ms) @ y" "partial_object y" "y @ z = concat (drop k ms)"
    and l: "list_all2 (masks (re_codec env)) (take k ds) (take k ms)" "list_all2 (masks (re_codec env)) (drop k ds) (drop k ms)"
    by auto
  obtain outs rd' where "reader_task env polls rd = Some (Ok (NotReady, outs, rd'))"
    "map (clandestine_payload peer) outs = map Some (take k ds)"
    using reader_task_objects [OF transport(1) new_clandestine_reader [OF reading] k(2) l(1), of env] transport(2) k(1)
    by auto
  moreover have "length ds \<le> k" if "r = Ready" "packet_data (swu_rx_to_write w) = []"
  proof -
    have "z = []"
      using w(2) that z by simp
    with k(3) partial_no_objects [OF l(2) k(2), of "[]"] show ?thesis by simp
  qed
  ultimately show ?thesis
    by blast
qed

definition demo_link_socket :: socket where
  "demo_link_socket = \<lparr>write_answers = [Wrote 2, WriteNotReady, Wrote 4, Wrote 5], shutdown_answers = [], accepted = []\<rparr>"

definition demo_link_rx :: "channel_answer list" where
  "demo_link_rx = [Received (new_packet [OB, DQ, 1, 2, DQ, CB] 0 False), Received (new_packet [OB, DQ, 3, DQ, CB] 0 False),
     ChannelClosed]"

definition demo_link_polls :: "read_answer list list" where
  "demo_link_polls = [[ReadBytes [OB, DQ, 1]], [ReadBytes [2, DQ, CB, OB], ReadError Interrupted, ReadBytes [DQ, 3, DQ, CB]]]"

theorem clandestine_link_witness:
  "\<exists>w rd outs rd'. run_unsorted 3 (unsorted_new demo_link_socket demo_link_rx) = Ok (Ready, w)
     \<and> stream_reader_new demo_reader_env None [JsonDiscriminatorFactory] True demo_peer demo_local = Ok rd
     \<and> reader_task demo_reader_env demo_link_polls rd = Some (Ok (NotReady, outs, rd'))
     \<and> map (clandestine_payload demo_peer) outs = [Some [1, 2], Some [3]]"
proof -
  let ?r = "run_unsorted 3 (unsorted_new demo_link_socket demo_link_rx)"
  let ?ds = "[[1, 2], [3]] :: bytes list"
  let ?ms = "[[OB, DQ, 1, 2, DQ, CB], [OB, DQ, 3, DQ, CB]] :: bytes list"
  have w: "\<not> isl ?r" "fst (projr ?r) = Ready" "packet_data (swu_rx_to_write (snd (projr ?r))) = []"
    "concat (map read_data demo_link_polls) = accepted (swu_stream (snd (projr ?r)))"
    "list_all (list_all live_answer) demo_link_polls" "packet_data demo_link_rx = concat ?ms"
    by code_simp+
  obtain rd where rd: "stream_reader_new demo_reader_env None [JsonDiscriminatorFactory] True demo_peer demo_local = Ok rd"
    by (simp add: stream_reader_new_def new_discriminator_def)
  have laws: "list_all (codec_law (re_codec demo_reader_env)) ?ds"
    "map (json_mask (re_codec demo_reader_env)) ?ds = map (\<lambda>m. Ok (Ok m)) ?ms"
    by (simp_all add: demo_reader_env_def quoting_codec_def codec_law_def json_mask_def json_object_def)
  obtain w where r: "?r = Ok (Ready, w)"
    using w(1,2) by (cases ?r) auto
  have "ChannelError \<notin> set demo_link_rx" "accepted demo_link_socket = []"
    by (simp_all add: demo_link_rx_def demo_link_socket_def)
  with clandestine_link [OF laws w(6) _ _ r rd w(5)] w(3,4) r obtain k outs rd' where
    "reader_task demo_reader_env demo_link_polls rd = Some (Ok (NotReady, outs, rd'))"
    "map (clandestine_payload demo_peer) outs = map Some (take k ?ds)" "length ?ds \<le> k"
    by auto
  with r rd show ?thesis
    by auto
qed

text \<open>A frame that no masquerader recognizes ends the loop of the reader: an object that does not unmask,
  followed by any packages, yields nothing, and the packages behind it, complete as they are, stay in
  the framer until more data arrive on the stream.\<close>

theorem unmaskable_object_delays:
  assumes "json_object m" "json_try_unmask (re_codec env) m = Err e" "holds (re_codec env) (m @ rest) d"
  shows "\<exists>d'. wrangle_loop env self connect d sq = Some (Ok ([], d', sq)) \<and> holds (re_codec env) rest d'"
proof -
  obtain f where f: "disc_framer d = JsonFramer f" "json_data_so_far f = m @ rest"
    "disc_masqueraders d = [json_try_unmask (re_codec env)]"
    using assms(3) by (auto simp: holds_def)
  have "take_chunk (dyn_take_frame env) d
      = Ok (None, d\<lparr> disc_framer := JsonFramer (json_new\<lparr> json_data_so_far := rest \<rparr>) \<rparr>)"
    using json_take_object [OF assms(1) f(2)] f(1,3) assms(2) by (simp add: take_chunk_def)
  with f(3) show ?thesis
    by (subst wrangle_loop.simps) (simp add: holds_def)
qed

definition strict_codec :: json_codec where
  "strict_codec = quoting_codec\<lparr> from_json := (\<lambda>m. if m = [OB, CB] then Err JsonData else from_json quoting_codec m) \<rparr>"

definition demo_link_reader :: stream_reader where
  "demo_link_reader = \<lparr> sr_local_addr = demo_local, sr_peer_addr = demo_peer, sr_reception_port = None,
     sr_discriminators = [], sr_is_clandestine = True, sr_sequencer = new_sequencer \<rparr>"

definition demo_link_discriminator :: "dyn_framer discriminator" where
  "demo_link_discriminator = \<lparr> disc_framer = JsonFramer (json_new\<lparr> json_data_so_far := [OB, CB, OB, DQ, 1, DQ, CB] \<rparr>),
     disc_masqueraders = [json_try_unmask strict_codec] \<rparr>"

theorem unmaskable_object_delays_witness:
  "\<exists>d'. wrangle_loop (demo_reader_env\<lparr> re_codec := strict_codec \<rparr>) demo_link_reader False demo_link_discriminator new_sequencer
      = Some (Ok ([], d', new_sequencer))
     \<and> holds strict_codec [OB, DQ, 1, DQ, CB] d'"
proof -
  let ?env = "demo_reader_env\<lparr> re_codec := strict_codec \<rparr>"
  have "json_object [OB, CB]" "json_try_unmask (re_codec ?env) [OB, CB] = Err (MidLevelDataError ''JSON does not match schema'')"
    "holds (re_codec ?env) ([OB, CB] @ [OB, DQ, 1, DQ, CB]) demo_link_discriminator"
    by (simp_all add: json_object_def holds_def json_try_unmask_def unmask_def string_from_data_def
        structure_from_string_def strict_codec_def quoting_codec_def demo_link_discriminator_def)
  from unmaskable_object_delays [OF this] show ?thesis by simp
qed

end
