(* ===== verification/StreamPool.thy ===== *)
theory StreamPool
  imports StreamReader
begin

text \<open>
  The actors that own the streams: \<open>listener_handler.rs\<close> accepts connections,
  \<open>stream_handler_pool.rs\<close> keeps one writer per peer, opens connections and queues outgoing data,
  \<open>dispatcher.rs\<close> passes what the readers deliver_output to the hopper or the proxy server.

  A channel is an identity given out by the channel factory; whether its receiving end, the task of
  the stream writer, still exists when the pool sends into it is a parameter of the handler. What a
  handler sends to other actors, to itself, to the channels and to the executor is the list of its
  outputs, in order; a message the pool gives up with a line in the log is an output as well.
\<close>

section \<open>Addresses and keys\<close>

definition is_loopback :: "ip_addr \<Rightarrow> bool" where
  "is_loopback addr =
     (case addr of
        V4 a b c d \<Rightarrow> a = 127
      | V6 s0 s1 s2 s3 s4 s5 s6 s7 \<Rightarrow> [s0, s1, s2, s3, s4, s5, s6, s7] = [0, 0, 0, 0, 0, 0, 0, 1])"

definition localhost :: ip_addr where
  "localhost = V4 127 0 0 1"

record stream_writer_key =
  swk_socket_addr :: socket_addr

definition stream_writer_key_from :: "socket_addr \<Rightarrow> stream_writer_key" where
  "stream_writer_key_from socket_addr =
     (if is_loopback (ip socket_addr) then \<lparr> swk_socket_addr = socket_addr \<rparr>
      else \<lparr> swk_socket_addr = \<lparr> ip = ip socket_addr, port = 0 \<rparr> \<rparr>)"

definition stream_writer_key_to_string :: "stream_writer_key \<Rightarrow> string" where
  "stream_writer_key_to_string self =
     (if is_loopback (ip (swk_socket_addr self))
      then ''localhost:'' @ show_nat (unat (port (swk_socket_addr self)))
      else ip_to_string (ip (swk_socket_addr self)) @ '':*'')"

section \<open>The listener\<close>

record connection_info =
  ci_local_addr :: socket_addr
  ci_peer_addr :: socket_addr

record add_stream_msg =
  as_connection_info :: connection_info
  as_origin_port :: "u16 option"
  as_port_configuration :: port_configuration

record listener_handler =
  lh_port :: "u16 option"
  lh_port_configuration :: "port_configuration option"
  lh_bound_to :: "socket_addr option"
  lh_add_stream_sub :: bool

definition listener_new :: listener_handler where
  "listener_new = \<lparr> lh_port = None, lh_port_configuration = None, lh_bound_to = None, lh_add_stream_sub = False \<rparr>"

text \<open>The address the listening socket is bound to; the result of the call of the operating system is
  not looked at here.\<close>

definition bind_port_and_configuration :: "u16 \<Rightarrow> port_configuration \<Rightarrow> listener_handler \<Rightarrow> listener_handler" where
  "bind_port_and_configuration p configuration self =
     (let ip_addr = (if pc_is_clandestine configuration then V4 0 0 0 0 else localhost)
      in self\<lparr> lh_port := Some p, lh_port_configuration := Some configuration,
               lh_bound_to := Some \<lparr> ip = ip_addr, port = p \<rparr> \<rparr>)"

definition listener_bind_subs :: "listener_handler \<Rightarrow> listener_handler" where
  "listener_bind_subs self = self\<lparr> lh_add_stream_sub := True \<rparr>"

text \<open>An accepted connection is split into its halves, or was closed already.\<close>

datatype accept_answer = Accepted "connection_info option" | AcceptError | AcceptNotReady

fun listener_poll :: "accept_answer list \<Rightarrow> listener_handler \<Rightarrow> add_stream_msg list run" where
  "listener_poll [] self = Ok []"
| "listener_poll (Accepted (Some info) # rest) self =
     (if lh_add_stream_sub self
      then bind_run (expect (lh_port_configuration self)) (\<lambda>configuration.
           bind_run (listener_poll rest self) (\<lambda>msgs.
             Ok (\<lparr> as_connection_info = info, as_origin_port = lh_port self,
                   as_port_configuration = configuration \<rparr> # msgs)))
      else Err ExpectFailed)"
| "listener_poll (Accepted None # rest) self = Ok []"
| "listener_poll (AcceptError # rest) self = listener_poll rest self"
| "listener_poll (AcceptNotReady # rest) self = Ok []"

section \<open>The pool\<close>

record sender =
  tx_peer_addr :: socket_addr
  tx_channel :: nat

record stream_handler_pool =
  stream_writers :: "(stream_writer_key, sender option) hashmap"
  pool_bound :: bool
  clandestine_discriminator_factories :: "discriminator_factory list"
  next_channel :: nat

definition pool_new :: "discriminator_factory list \<Rightarrow> stream_handler_pool" where
  "pool_new factories =
     \<lparr> stream_writers = [], pool_bound = False, clandestine_discriminator_factories = factories, next_channel = 0 \<rparr>"

datatype discard_reason =
    NoNeighborFound endpoint
  | NoKnownIp public_key
  | MaskingFailed masquerade_error
  | StreamWriterGone
  | LocalConnectionNotFound
  | CouldNotConnect

datatype pool_output =
    AskNeighborhood node_query_message transmit_data_msg
  | NodeQueryResponse dispatcher_node_query_response
  | ResubmitLater dispatcher_node_query_response
  | BeginConnection socket_addr public_key dispatcher_node_query_response
  | QueuePacket nat sequenced_packet transmit_data_msg
  | Discarded discard_reason transmit_data_msg
  | SpawnStreamWriter bool socket_addr nat
  | SpawnStreamReader stream_reader
  | SignalShutdown stream_shutdown_msg
  | AddStream add_stream_msg
  | RemoveStream remove_stream_msg
  | RemoveNeighborMessage public_key

definition pool_bind :: "stream_handler_pool \<Rightarrow> stream_handler_pool" where
  "pool_bind self = self\<lparr> pool_bound := True \<rparr>"

definition set_up_stream_writer ::
    "socket_addr \<Rightarrow> bool \<Rightarrow> stream_handler_pool \<Rightarrow> pool_output list \<times> stream_handler_pool" where
  "set_up_stream_writer peer_addr clandestine self =
     (let channel = next_channel self;
          tx = \<lparr> tx_peer_addr = peer_addr, tx_channel = channel \<rparr>
      in ([SpawnStreamWriter clandestine peer_addr channel],
          self\<lparr> stream_writers := hm_insert (stream_writer_key_from peer_addr) (Some tx) (stream_writers self),
                next_channel := channel + 1 \<rparr>))"

definition set_up_stream_reader ::
    "reader_env \<Rightarrow> u16 option \<Rightarrow> port_configuration \<Rightarrow> socket_addr \<Rightarrow> socket_addr \<Rightarrow> stream_handler_pool
       \<Rightarrow> pool_output list run" where
  "set_up_stream_reader env origin_port configuration peer_addr local_addr self =
     (if pool_bound self
      then bind_run (stream_reader_new env origin_port (discriminator_factories configuration)
               (pc_is_clandestine configuration) peer_addr local_addr) (\<lambda>reader.
             Ok [SpawnStreamReader reader])
      else Err ExpectFailed)"

definition handle_add_stream_msg ::
    "reader_env \<Rightarrow> add_stream_msg \<Rightarrow> stream_handler_pool \<Rightarrow> (pool_output list \<times> stream_handler_pool) run" where
  "handle_add_stream_msg env msg self =
     (let configuration = as_port_configuration msg;
          info = as_connection_info msg;
          (outs1, self1) = set_up_stream_writer (ci_peer_addr info) (pc_is_clandestine configuration) self
      in bind_run (set_up_stream_reader env (as_origin_port msg) configuration (ci_peer_addr info)
             (ci_local_addr info) self1) (\<lambda>outs2. Ok (outs1 @ outs2, self1)))"

definition handle_remove_stream_msg ::
    "remove_stream_msg \<Rightarrow> stream_handler_pool \<Rightarrow> pool_output list \<times> stream_handler_pool" where
  "handle_remove_stream_msg msg self =
     (let key = stream_writer_key_from (rsm_peer_addr msg);
          report = (case hm_get (stream_writers self) key of
             None \<Rightarrow> False
           | Some None \<Rightarrow> False
           | Some (Some _) \<Rightarrow> True)
      in ([SignalShutdown \<lparr> ssm_peer_addr = rsm_peer_addr msg, ssm_stream_type = rsm_stream_type msg,
             report_to_counterpart = report \<rparr>],
          self\<lparr> stream_writers := hm_remove key (stream_writers self) \<rparr>))"

definition handle_transmit_data_msg ::
    "transmit_data_msg \<Rightarrow> stream_handler_pool \<Rightarrow> pool_output list run" where
  "handle_transmit_data_msg msg self =
     (if pool_bound self
      then Ok (case td_endpoint msg of
             Key key \<Rightarrow> [AskNeighborhood (ByPublicKey key) msg]
           | Socket socket_addr \<Rightarrow>
               [NodeQueryResponse \<lparr> dq_result = Some \<lparr> nq_public_key = [],
                    nq_node_addr_opt = Some (node_addr_from_socket_addr socket_addr),
                    nq_rate_pack = ZERO_RATE_PACK \<rparr>,
                  dq_context = msg \<rparr>])
      else Err ExpectFailed)"

text \<open>The packet made of a message: clandestine data are masked, clear data keep their number.\<close>

definition packet_for :: "reader_env \<Rightarrow> transmit_data_msg \<Rightarrow> (masquerade_error + sequenced_packet) run" where
  "packet_for env msg =
     (if td_sequence_number msg = None
      then bind_run (json_mask (re_codec env) (td_data msg)) (\<lambda>masked.
        Ok (case masked of
              Inr masked_data \<Rightarrow> Ok (new_packet masked_data 0 False)
            | Inl e \<Rightarrow> Err e))
      else Ok (Ok (packet_from_transmit_data (td_data msg) (td_sequence_number msg) (td_last_data msg))))"

definition send_on_stream ::
    "reader_env \<Rightarrow> (nat \<Rightarrow> bool) \<Rightarrow> sender \<Rightarrow> socket_addr \<Rightarrow> transmit_data_msg \<Rightarrow> stream_handler_pool
       \<Rightarrow> (pool_output list \<times> stream_handler_pool) run" where
  "send_on_stream env alive tx peer_addr context' self =
     bind_run (packet_for env context') (\<lambda>masked.
       case masked of
         Inl e \<Rightarrow> Ok ([Discarded (MaskingFailed e) context'], self)
       | Inr packet \<Rightarrow>
           (let without = self\<lparr> stream_writers := hm_remove (stream_writer_key_from peer_addr) (stream_writers self) \<rparr>;
                (out, self1) = (if alive (tx_channel tx) then (QueuePacket (tx_channel tx) packet context', self)
                                else (Discarded StreamWriterGone context', without))
            in Ok ([out], if td_last_data context' then without else self1)))"

definition handle_dispatcher_node_query_response ::
    "reader_env \<Rightarrow> (nat \<Rightarrow> bool) \<Rightarrow> dispatcher_node_query_response \<Rightarrow> stream_handler_pool
       \<Rightarrow> (pool_output list \<times> stream_handler_pool) run" where
  "handle_dispatcher_node_query_response env alive msg self =
     (case dq_result msg of
        None \<Rightarrow> Ok ([Discarded (NoNeighborFound (td_endpoint (dq_context msg))) (dq_context msg)], self)
      | Some node_descriptor \<Rightarrow>
          (case nq_node_addr_opt node_descriptor of
             None \<Rightarrow> Ok ([Discarded (NoKnownIp (nq_public_key node_descriptor)) (dq_context msg)], self)
           | Some node_addr \<Rightarrow>
               (case na_ports node_addr of
                  [] \<Rightarrow> Err ExplicitPanic
                | first_port # _ \<Rightarrow>
                    (let peer_addr = \<lparr> ip = na_ip_addr node_addr, port = first_port \<rparr>;
                         sw_key = stream_writer_key_from peer_addr
                     in case hm_get (stream_writers self) sw_key of
                          Some (Some tx_box) \<Rightarrow> send_on_stream env alive tx_box peer_addr (dq_context msg) self
                        | Some None \<Rightarrow>
                            if pool_bound self then Ok ([ResubmitLater msg], self) else Err ExpectFailed
                        | None \<Rightarrow>
                            if ip peer_addr = localhost
                            then Ok ([Discarded LocalConnectionNotFound (dq_context msg)], self)
                            else if \<not> pool_bound self then Err ExpectFailed
                            else Ok ([BeginConnection peer_addr (nq_public_key node_descriptor) msg],
                                     self\<lparr> stream_writers := hm_insert sw_key None (stream_writers self) \<rparr>)))))"

text \<open>What the connection attempt does when it ends.\<close>

definition connection_succeeded ::
    "stream_handler_pool \<Rightarrow> connection_info \<Rightarrow> dispatcher_node_query_response \<Rightarrow> pool_output list" where
  "connection_succeeded self info msg =
     [AddStream \<lparr> as_connection_info = info, as_origin_port = Some (port (ci_local_addr info)),
        as_port_configuration = \<lparr> discriminator_factories = clandestine_discriminator_factories self,
          pc_is_clandestine = True \<rparr> \<rparr>,
      NodeQueryResponse msg]"

definition connection_failed :: "socket_addr \<Rightarrow> public_key \<Rightarrow> dispatcher_node_query_response \<Rightarrow> pool_output list" where
  "connection_failed peer_addr key msg =
     [Discarded CouldNotConnect (dq_context msg),
      RemoveStream \<lparr> rsm_local_addr = \<lparr> ip = localhost, port = 0 \<rparr>, rsm_peer_addr = peer_addr,
        rsm_stream_type = Clandestine \<rparr>,
      RemoveNeighborMessage key]"

section \<open>The dispatcher\<close>

record dispatcher =
  dsp_bound :: bool
  dsp_pool_bound :: bool

definition dispatcher_new :: dispatcher where
  "dispatcher_new = \<lparr> dsp_bound = False, dsp_pool_bound = False \<rparr>"

definition dispatcher_bind :: "dispatcher \<Rightarrow> dispatcher" where
  "dispatcher_bind self = self\<lparr> dsp_bound := True \<rparr>"

definition dispatcher_pool_bind :: "dispatcher \<Rightarrow> dispatcher" where
  "dispatcher_pool_bind self = self\<lparr> dsp_pool_bound := True \<rparr>"

datatype dispatcher_output =
    ToHopper inbound_client_data
  | ToProxyServer inbound_client_data
  | ToStreamHandlerPool transmit_data_msg
  | NeighborhoodStreamShutdown stream_shutdown_msg
  | ProxyServerStreamShutdown stream_shutdown_msg

definition dispatcher_handle_inbound :: "inbound_client_data \<Rightarrow> dispatcher \<Rightarrow> dispatcher_output run" where
  "dispatcher_handle_inbound msg self =
     (if \<not> dsp_bound self then Err ExpectFailed
      else if is_clandestine msg then Ok (ToHopper msg) else Ok (ToProxyServer msg))"

definition dispatcher_handle_transmit :: "transmit_data_msg \<Rightarrow> dispatcher \<Rightarrow> dispatcher_output run" where
  "dispatcher_handle_transmit msg self =
     (if dsp_pool_bound self then Ok (ToStreamHandlerPool msg) else Err ExpectFailed)"

definition dispatcher_handle_stream_shutdown :: "stream_shutdown_msg \<Rightarrow> dispatcher \<Rightarrow> dispatcher_output run" where
  "dispatcher_handle_stream_shutdown msg self =
     (if \<not> dsp_bound self then Err ExpectFailed
      else case ssm_stream_type msg of
        Clandestine \<Rightarrow> Ok (NeighborhoodStreamShutdown msg)
      | NonClandestine _ \<Rightarrow> Ok (ProxyServerStreamShutdown msg))"

section \<open>The pool among its partners\<close>

datatype pool_message =
    TransmitMsg transmit_data_msg
  | AddStreamMsg add_stream_msg
  | RemoveStreamMsg remove_stream_msg
  | QueryResponseMsg dispatcher_node_query_response

definition handle_pool_message ::
    "reader_env \<Rightarrow> (nat \<Rightarrow> bool) \<Rightarrow> pool_message \<Rightarrow> stream_handler_pool
       \<Rightarrow> (pool_output list \<times> stream_handler_pool) run" where
  "handle_pool_message env alive msg self =
     (case msg of
        TransmitMsg m \<Rightarrow> bind_run (handle_transmit_data_msg m self) (\<lambda>outs. Ok (outs, self))
      | AddStreamMsg m \<Rightarrow> handle_add_stream_msg env m self
      | RemoveStreamMsg m \<Rightarrow> Ok (handle_remove_stream_msg m self)
      | QueryResponseMsg m \<Rightarrow> handle_dispatcher_node_query_response env alive m self)"

text \<open>The pool with its mailbox, the queries the neighborhood has not answered, the messages that wait
  to be submitted again, the connection attempts under way, and what has become of the other messages:
  the packets in the channels with the messages they were made of, and the messages given up. The
  writer tasks started so far are recorded with their channels.\<close>

record pool_system =
  pool :: stream_handler_pool
  mailbox :: "pool_message list"
  asked :: "transmit_data_msg list"
  delayed :: "dispatcher_node_query_response list"
  connecting :: "(socket_addr \<times> public_key \<times> dispatcher_node_query_response) list"
  queued :: "(nat \<times> sequenced_packet \<times> transmit_data_msg) list"
  discarded :: "(discard_reason \<times> transmit_data_msg) list"
  writers :: "(nat \<times> bool \<times> socket_addr) list"

definition pool_system_new :: "discriminator_factory list \<Rightarrow> pool_system" where
  "pool_system_new factories =
     \<lparr> pool = pool_bind (pool_new factories), mailbox = [], asked = [], delayed = [], connecting = [],
       queued = [], discarded = [], writers = [] \<rparr>"

fun deliver_output :: "pool_output \<Rightarrow> pool_system \<Rightarrow> pool_system" where
  "deliver_output (AskNeighborhood q m) sys = sys\<lparr> asked := asked sys @ [m] \<rparr>"
| "deliver_output (NodeQueryResponse m) sys = sys\<lparr> mailbox := mailbox sys @ [QueryResponseMsg m] \<rparr>"
| "deliver_output (ResubmitLater m) sys = sys\<lparr> delayed := delayed sys @ [m] \<rparr>"
| "deliver_output (BeginConnection a k m) sys = sys\<lparr> connecting := connecting sys @ [(a, k, m)] \<rparr>"
| "deliver_output (QueuePacket c p m) sys = sys\<lparr> queued := queued sys @ [(c, p, m)] \<rparr>"
| "deliver_output (Discarded r m) sys = sys\<lparr> discarded := discarded sys @ [(r, m)] \<rparr>"
| "deliver_output (AddStream m) sys = sys\<lparr> mailbox := mailbox sys @ [AddStreamMsg m] \<rparr>"
| "deliver_output (RemoveStream m) sys = sys\<lparr> mailbox := mailbox sys @ [RemoveStreamMsg m] \<rparr>"
| "deliver_output (SpawnStreamWriter b a c) sys = sys\<lparr> writers := writers sys @ [(c, b, a)] \<rparr>"
| "deliver_output _ sys = sys"

text \<open>One step of the system, labelled with the messages submitted to the pool in it: a message
  arrives, the pool takes one from its mailbox, the neighborhood answers a query, a delay ends, a
  connection attempt ends. The channels that are alive may differ from step to step.\<close>

inductive pool_step :: "reader_env \<Rightarrow> pool_system \<Rightarrow> transmit_data_msg list \<Rightarrow> pool_system \<Rightarrow> bool" for env where
  submit: "pool_step env sys [m] (sys\<lparr> mailbox := mailbox sys @ [TransmitMsg m] \<rparr>)"
| stream_added: "pool_step env sys [] (sys\<lparr> mailbox := mailbox sys @ [AddStreamMsg a] \<rparr>)"
| stream_removed: "pool_step env sys [] (sys\<lparr> mailbox := mailbox sys @ [RemoveStreamMsg r] \<rparr>)"
| handle: "mailbox sys = msg # rest \<Longrightarrow> handle_pool_message env alive msg (pool sys) = Ok (outs, p) \<Longrightarrow>
     pool_step env sys [] (fold deliver_output outs (sys\<lparr> pool := p, mailbox := rest \<rparr>))"
| answer: "asked sys = xs @ m # ys \<Longrightarrow>
     pool_step env sys [] (sys\<lparr> asked := xs @ ys,
       mailbox := mailbox sys @ [QueryResponseMsg \<lparr> dq_result = result, dq_context = m \<rparr>] \<rparr>)"
| wake: "delayed sys = xs @ m # ys \<Longrightarrow>
     pool_step env sys [] (sys\<lparr> delayed := xs @ ys, mailbox := mailbox sys @ [QueryResponseMsg m] \<rparr>)"
| connected: "connecting sys = xs @ (a, k, m) # ys \<Longrightarrow>
     pool_step env sys [] (fold deliver_output (connection_succeeded (pool sys) info m) (sys\<lparr> connecting := xs @ ys \<rparr>))"
| not_connected: "connecting sys = xs @ (a, k, m) # ys \<Longrightarrow>
     pool_step env sys [] (fold deliver_output (connection_failed a k m) (sys\<lparr> connecting := xs @ ys \<rparr>))"

inductive pool_run :: "reader_env \<Rightarrow> discriminator_factory list \<Rightarrow> transmit_data_msg list \<Rightarrow> pool_system \<Rightarrow> bool" for env factories where
  start: "pool_run env factories [] (pool_system_new factories)"
| more: "pool_run env factories ms sys \<Longrightarrow> pool_step env sys ns sys' \<Longrightarrow> pool_run env factories (ms @ ns) sys'"

section \<open>No message is lost or duplicated\<close>

fun carried :: "pool_message \<Rightarrow> transmit_data_msg list" where
  "carried (TransmitMsg m) = [m]"
| "carried (QueryResponseMsg r) = [dq_context r]"
| "carried _ = []"

definition messages_at :: "pool_system \<Rightarrow> transmit_data_msg multiset" where
  "messages_at sys =
     mset (concat (map carried (mailbox sys))) + mset (asked sys) + mset (map dq_context (delayed sys))
     + mset (map (\<lambda>(a, k, m). dq_context m) (connecting sys))
     + mset (map (\<lambda>(c, p, m). m) (queued sys)) + mset (map snd (discarded sys))"

text \<open>The message an output passes on.\<close>

fun fate :: "pool_output \<Rightarrow> transmit_data_msg list" where
  "fate (AskNeighborhood q m) = [m]"
| "fate (NodeQueryResponse m) = [dq_context m]"
| "fate (ResubmitLater m) = [dq_context m]"
| "fate (BeginConnection a k m) = [dq_context m]"
| "fate (QueuePacket c p m) = [m]"
| "fate (Discarded r m) = [m]"
| "fate _ = []"

lemma messages_deliver: "messages_at (deliver_output out sys) = messages_at sys + mset (fate out)"
  by (cases out) (simp_all add: messages_at_def)

lemma messages_fold_deliver:
  "messages_at (fold deliver_output outs sys) = messages_at sys + mset (concat (map fate outs))"
  by (induction outs arbitrary: sys) (simp_all add: messages_deliver)

lemma send_on_stream_fate:
  assumes "send_on_stream env alive tx a m self = Ok (outs, self')"
  shows "concat (map fate outs) = [m]"
  using assms by (auto simp: send_on_stream_def Let_def elim!: bind_run_InrE split: sum.split_asm if_split_asm)

lemma response_fate:
  assumes "handle_dispatcher_node_query_response env alive m self = Ok (outs, self')"
  shows "concat (map fate outs) = [dq_context m]"
  using assms send_on_stream_fate
  by (auto simp: handle_dispatcher_node_query_response_def Let_def split: option.split_asm list.split_asm if_split_asm)

lemma handler_fate:
  assumes "handle_pool_message env alive msg self = Ok (outs, self')"
  shows "concat (map fate outs) = carried msg"
proof (cases msg)
  case (TransmitMsg m)
  with assms show ?thesis
    by (auto simp: handle_pool_message_def handle_transmit_data_msg_def elim!: bind_run_InrE
        split: if_split_asm endpoint.split_asm)
next
  case (AddStreamMsg m)
  with assms show ?thesis
    by (auto simp: handle_pool_message_def handle_add_stream_msg_def set_up_stream_writer_def
        set_up_stream_reader_def Let_def elim!: bind_run_InrE split: if_split_asm)
next
  case (RemoveStreamMsg m)
  with assms show ?thesis
    by (auto simp: handle_pool_message_def handle_remove_stream_msg_def Let_def)
next
  case (QueryResponseMsg m)
  with assms response_fate show ?thesis
    by (auto simp: handle_pool_message_def)
qed

lemma step_conserves:
  assumes "pool_step env sys ns sys'"
  shows "messages_at sys' = messages_at sys + mset ns"
  using assms
proof cases
  case (handle msg rest alive outs p)
  have "messages_at sys = messages_at (sys\<lparr> pool := p, mailbox := rest \<rparr>) + mset (carried msg)"
    using handle(3) by (simp add: messages_at_def)
  with handle handler_fate [OF handle(4)] show ?thesis
    by (simp add: messages_fold_deliver)
qed (simp_all add: messages_at_def messages_fold_deliver connection_succeeded_def connection_failed_def)

section \<open>Packets go to the right stream\<close>

text \<open>An answer about a socket address carries that address.\<close>

definition response_ok :: "dispatcher_node_query_response \<Rightarrow> bool" where
  "response_ok r = (case td_endpoint (dq_context r) of
     Key _ \<Rightarrow> True
   | Socket a \<Rightarrow> (case dq_result r of
        None \<Rightarrow> False
      | Some q \<Rightarrow> nq_node_addr_opt q = Some (node_addr_from_socket_addr a)))"

fun pool_message_ok :: "pool_message \<Rightarrow> bool" where
  "pool_message_ok (QueryResponseMsg r) = response_ok r"
| "pool_message_ok _ = True"

text \<open>The writers of the pool are those of the tasks, under the keys of their peers.\<close>

definition senders_ok :: "stream_handler_pool \<Rightarrow> (nat \<times> bool \<times> socket_addr) list \<Rightarrow> bool" where
  "senders_ok p ws \<longleftrightarrow> map fst ws = [0..<next_channel p]
     \<and> (\<forall>k tx. hm_get (stream_writers p) k = Some (Some tx) \<longrightarrow>
          k = stream_writer_key_from (tx_peer_addr tx) \<and> (\<exists>b. (tx_channel tx, b, tx_peer_addr tx) \<in> set ws))"

definition packet_ok :: "reader_env \<Rightarrow> (nat \<times> bool \<times> socket_addr) list \<Rightarrow> nat \<times> sequenced_packet \<times> transmit_data_msg \<Rightarrow> bool" where
  "packet_ok env ws q = (case q of (c, p, m) \<Rightarrow> packet_for env m = Ok (Ok p)
     \<and> (\<exists>b peer. (c, b, peer) \<in> set ws \<and> (case td_endpoint m of
          Key _ \<Rightarrow> True
        | Socket a \<Rightarrow> stream_writer_key_from peer = stream_writer_key_from a)))"

definition messages_ok :: "reader_env \<Rightarrow> pool_system \<Rightarrow> bool" where
  "messages_ok env sys \<longleftrightarrow> list_all pool_message_ok (mailbox sys)
     \<and> list_all (\<lambda>m. \<exists>k. td_endpoint m = Key k) (asked sys)
     \<and> list_all response_ok (delayed sys)
     \<and> list_all (\<lambda>(a, k, r). response_ok r) (connecting sys)
     \<and> list_all (packet_ok env (writers sys)) (queued sys)"

definition system_ok :: "reader_env \<Rightarrow> pool_system \<Rightarrow> bool" where
  "system_ok env sys \<longleftrightarrow> pool_bound (pool sys) \<and> senders_ok (pool sys) (writers sys) \<and> messages_ok env sys"

text \<open>The same for the outputs of a handler, given the writers there are already.\<close>

fun output_ok :: "reader_env \<Rightarrow> (nat \<times> bool \<times> socket_addr) list \<Rightarrow> pool_output \<Rightarrow> bool" where
  "output_ok env ws (AskNeighborhood q m) \<longleftrightarrow> (\<exists>k. td_endpoint m = Key k)"
| "output_ok env ws (NodeQueryResponse r) \<longleftrightarrow> response_ok r"
| "output_ok env ws (ResubmitLater r) \<longleftrightarrow> response_ok r"
| "output_ok env ws (BeginConnection a k r) \<longleftrightarrow> response_ok r"
| "output_ok env ws (QueuePacket c p m) \<longleftrightarrow> packet_ok env ws (c, p, m)"
| "output_ok env ws _ \<longleftrightarrow> True"

lemma packet_ok_more: "packet_ok env ws q \<Longrightarrow> packet_ok env (ws @ xs) q"
  by (cases q; cases "td_endpoint (snd (snd q))") (auto simp: packet_ok_def)

lemma output_ok_more: "output_ok env ws out \<Longrightarrow> output_ok env (ws @ xs) out"
  by (cases out) (simp_all add: packet_ok_more)

fun new_writers :: "pool_output list \<Rightarrow> (nat \<times> bool \<times> socket_addr) list" where
  "new_writers [] = []"
| "new_writers (SpawnStreamWriter b a c # outs) = (c, b, a) # new_writers outs"
| "new_writers (_ # outs) = new_writers outs"

lemma messages_ok_deliver: "messages_ok env sys \<Longrightarrow> output_ok env (writers sys) out \<Longrightarrow> messages_ok env (deliver_output out sys)"
  by (cases out) (auto simp: messages_ok_def packet_ok_more list_all_iff)

lemma deliver_pool [simp]: "pool (deliver_output out sys) = pool sys"
  by (cases out) simp_all

lemma deliver_writers: "writers (deliver_output out sys) = writers sys @ new_writers [out]"
  by (cases out) simp_all

lemma new_writers_Cons: "new_writers (out # outs) = new_writers [out] @ new_writers outs"
  by (cases out) simp_all

lemma fold_deliver_pool [simp]: "pool (fold deliver_output outs sys) = pool sys"
  by (induction outs arbitrary: sys) simp_all

lemma fold_deliver_writers: "writers (fold deliver_output outs sys) = writers sys @ new_writers outs"
proof (induction outs arbitrary: sys)
  case (Cons out outs)
  then show ?case by (simp add: deliver_writers new_writers_Cons [of out outs])
qed simp

lemma messages_ok_fold:
  "messages_ok env sys \<Longrightarrow> list_all (output_ok env (writers sys)) outs \<Longrightarrow> messages_ok env (fold deliver_output outs sys)"
proof (induction outs arbitrary: sys)
  case (Cons out outs)
  then have "list_all (output_ok env (writers (deliver_output out sys))) outs"
    by (auto simp: deliver_writers list_all_iff output_ok_more)
  with Cons messages_ok_deliver [of env sys out] show ?case by simp
qed simp

lemma key_loopback:
  assumes "is_loopback (ip a)" "stream_writer_key_from b = stream_writer_key_from a"
  shows "b = a"
  using assms by (auto simp: stream_writer_key_from_def split: if_split_asm)

lemma node_addr_of_socket [simp]:
  "na_ip_addr (node_addr_from_socket_addr a) = ip a" "na_ports (node_addr_from_socket_addr a) = [port a]"
  by (simp_all add: node_addr_from_socket_addr_def node_addr_new_def)

lemma senders_ok_remove: "senders_ok p ws \<Longrightarrow> senders_ok (p\<lparr> stream_writers := hm_remove k (stream_writers p) \<rparr>) ws"
  by (auto simp: senders_ok_def split: if_split_asm)

lemma senders_ok_connecting: "senders_ok p ws \<Longrightarrow> senders_ok (p\<lparr> stream_writers := hm_insert k None (stream_writers p) \<rparr>) ws"
  by (auto simp: senders_ok_def split: if_split_asm)

lemma senders_ok_add:
  assumes "senders_ok p ws" "set_up_stream_writer a b p = (outs, p')"
  shows "senders_ok p' (ws @ new_writers outs)"
proof -
  have eq: "new_writers outs = [(next_channel p, b, a)]" "next_channel p' = Suc (next_channel p)"
    "\<And>k. hm_get (stream_writers p') k = (if k = stream_writer_key_from a
        then Some (Some \<lparr> tx_peer_addr = a, tx_channel = next_channel p \<rparr>) else hm_get (stream_writers p) k)"
    using assms(2) by (auto simp: set_up_stream_writer_def Let_def)
  show ?thesis
    unfolding senders_ok_def eq
  proof (intro conjI allI impI)
    show "map fst (ws @ [(next_channel p, b, a)]) = [0..<Suc (next_channel p)]"
      using assms(1) by (simp add: senders_ok_def)
  next
    fix k tx
    assume "(if k = stream_writer_key_from a then Some (Some \<lparr> tx_peer_addr = a, tx_channel = next_channel p \<rparr>)
        else hm_get (stream_writers p) k) = Some (Some tx)"
    then have "k = stream_writer_key_from a \<and> tx = \<lparr> tx_peer_addr = a, tx_channel = next_channel p \<rparr>
        \<or> hm_get (stream_writers p) k = Some (Some tx)"
      by (auto split: if_split_asm)
    then show "k = stream_writer_key_from (tx_peer_addr tx)"
      "\<exists>c. (tx_channel tx, c, tx_peer_addr tx) \<in> set (ws @ [(next_channel p, b, a)])"
      using assms(1) by (auto simp: senders_ok_def)
  qed
qed

lemma send_on_stream_ok:
  assumes "send_on_stream env alive tx a m p = Ok (outs, p')"
    "senders_ok p ws" "hm_get (stream_writers p) (stream_writer_key_from a) = Some (Some tx)"
    "case td_endpoint m of Key _ \<Rightarrow> True | Socket s \<Rightarrow> a = s"
  shows "senders_ok p' ws \<and> pool_bound p' = pool_bound p \<and> list_all (output_ok env ws) outs \<and> new_writers outs = []"
proof -
  have tx: "stream_writer_key_from a = stream_writer_key_from (tx_peer_addr tx)"
    "\<exists>b. (tx_channel tx, b, tx_peer_addr tx) \<in> set ws"
    using assms(2,3) by (auto simp: senders_ok_def)
  then have "packet_ok env ws (tx_channel tx, q, m)" if "packet_for env m = Ok (Ok q)" for q
    using that assms(4) by (cases "td_endpoint m") (fastforce simp: packet_ok_def)+
  then show ?thesis
    using assms(1,2) senders_ok_remove
    by (auto simp: send_on_stream_def Let_def elim!: bind_run_InrE split: sum.split_asm if_split_asm)
qed

lemma response_ok_step:
  assumes run: "handle_dispatcher_node_query_response env alive r p = Ok (outs, p')"
    and ok: "senders_ok p ws" "response_ok r"
  shows "senders_ok p' ws \<and> pool_bound p' = pool_bound p \<and> list_all (output_ok env ws) outs \<and> new_writers outs = []"
proof (cases "dq_result r")
  case None
  with run ok show ?thesis
    by (auto simp: handle_dispatcher_node_query_response_def)
next
  case (Some q)
  show ?thesis
  proof (cases "nq_node_addr_opt q")
    case None
    with Some run ok show ?thesis
      by (auto simp: handle_dispatcher_node_query_response_def)
  next
    case addr: (Some n)
    show ?thesis
    proof (cases "na_ports n")
      case Nil
      with Some addr run show ?thesis
        by (simp add: handle_dispatcher_node_query_response_def)
    next
      case (Cons prt ps)
      let ?a = "\<lparr> ip = na_ip_addr n, port = prt \<rparr>"
      have a: "case td_endpoint (dq_context r) of Key _ \<Rightarrow> True | Socket s \<Rightarrow> ?a = s"
        using ok(2) Some addr Cons by (auto simp: response_ok_def split: endpoint.split)
      show ?thesis
      proof (cases "\<exists>tx. hm_get (stream_writers p) (stream_writer_key_from ?a) = Some (Some tx)")
        case True
        with Some addr Cons run show ?thesis
          using send_on_stream_ok [OF _ ok(1) _ a] by (auto simp: handle_dispatcher_node_query_response_def)
      next
        case False
        with Some addr Cons run ok senders_ok_connecting [OF ok(1)] show ?thesis
          by (auto simp: handle_dispatcher_node_query_response_def Let_def split: option.split_asm if_split_asm)
      qed
    qed
  qed
qed

lemma handler_ok:
  assumes "handle_pool_message env alive msg p = Ok (outs, p')" "senders_ok p ws" "pool_message_ok msg"
  shows "senders_ok p' (ws @ new_writers outs) \<and> pool_bound p' = pool_bound p \<and> list_all (output_ok env ws) outs"
proof (cases msg)
  case (TransmitMsg m)
  with assms show ?thesis
    by (auto simp: handle_pool_message_def handle_transmit_data_msg_def response_ok_def elim!: bind_run_InrE
        split: if_split_asm endpoint.split_asm)
next
  case (AddStreamMsg m)
  let ?i = "as_connection_info m"
  obtain outs1 p1 where w: "set_up_stream_writer (ci_peer_addr ?i) (pc_is_clandestine (as_port_configuration m)) p = (outs1, p1)"
    by fastforce
  from assms(1) AddStreamMsg w obtain rd where "outs = outs1 @ [SpawnStreamReader rd]" "p' = p1"
    by (auto simp: handle_pool_message_def handle_add_stream_msg_def set_up_stream_reader_def Let_def
        elim!: bind_run_InrE split: if_split_asm)
  moreover have "pool_bound p1 = pool_bound p" "list_all (output_ok env ws) outs1"
    "new_writers (outs1 @ [SpawnStreamReader rd]) = new_writers outs1" for rd
    using w by (auto simp: set_up_stream_writer_def Let_def)
  ultimately show ?thesis
    using senders_ok_add [OF assms(2) w] by simp
next
  case (RemoveStreamMsg m)
  with assms senders_ok_remove show ?thesis
    by (auto simp: handle_pool_message_def handle_remove_stream_msg_def Let_def)
next
  case (QueryResponseMsg r)
  with assms response_ok_step [of env alive r p outs p' ws] show ?thesis
    by (auto simp: handle_pool_message_def)
qed

lemma system_ok_step:
  assumes "pool_step env sys ns sys'" "system_ok env sys"
  shows "system_ok env sys'"
  using assms(1)
proof cases
  case (handle msg rest alive outs p)
  have sys: "senders_ok (pool sys) (writers sys)" "pool_message_ok msg" "pool_bound (pool sys)"
    "messages_ok env (sys\<lparr> pool := p, mailbox := rest \<rparr>)"
    using assms(2) handle(3) by (auto simp: system_ok_def messages_ok_def)
  with handler_ok [OF handle(4)] messages_ok_fold [of env "sys\<lparr> pool := p, mailbox := rest \<rparr>" outs] show ?thesis
    unfolding handle(2) by (simp add: system_ok_def fold_deliver_writers)
qed (use assms(2) in \<open>auto simp: system_ok_def messages_ok_def connection_succeeded_def connection_failed_def
   response_ok_def\<close>)

lemma pool_run_ok:
  assumes "pool_run env factories ms sys"
  shows "system_ok env sys \<and> mset ms = messages_at sys"
  using assms
proof induction
  case start
  show ?case
    by (simp add: system_ok_def messages_ok_def pool_system_new_def pool_bind_def pool_new_def senders_ok_def messages_at_def)
next
  case (more ms sys ns sys')
  with system_ok_step step_conserves show ?case
    by simp
qed

section \<open>Properties\<close>

text \<open>A run of the system for examples: messages are submitted and handled in turn.\<close>

fun pool_script :: "reader_env \<Rightarrow> pool_message list \<Rightarrow> pool_system \<Rightarrow> pool_system option" where
  "pool_script env [] sys =
     (case mailbox sys of
        [] \<Rightarrow> Some sys
      | msg # rest \<Rightarrow>
          (case handle_pool_message env (\<lambda>_. True) msg (pool sys) of
             Inr (outs, p) \<Rightarrow> Some (fold deliver_output outs (sys\<lparr> pool := p, mailbox := rest \<rparr>))
           | Inl _ \<Rightarrow> None))"
| "pool_script env (x # xs) sys =
     Option.bind (pool_script env [] (sys\<lparr> mailbox := mailbox sys @ [x] \<rparr>)) (pool_script env xs)"

fun not_response :: "pool_message \<Rightarrow> bool" where
  "not_response (QueryResponseMsg _) = False"
| "not_response _ = True"

lemma pool_script_process:
  assumes "pool_run env factories ms sys" "pool_script env [] sys = Some sys'"
  shows "pool_run env factories ms sys'"
proof (cases "mailbox sys")
  case Nil
  with assms show ?thesis by simp
next
  case (Cons msg rest)
  with assms(2) obtain outs p where "handle_pool_message env (\<lambda>_. True) msg (pool sys) = Ok (outs, p)"
    "sys' = fold deliver_output outs (sys\<lparr> pool := p, mailbox := rest \<rparr>)"
    by (auto split: sum.split_asm)
  with pool_run.more [OF assms(1) pool_step.handle [OF Cons]] show ?thesis by simp
qed

lemma pool_script_run:
  assumes "pool_run env factories ms sys" "list_all not_response xs" "pool_script env xs sys = Some sys'"
  shows "pool_run env factories (ms @ concat (map carried xs)) sys'"
  using assms
proof (induction xs arbitrary: ms sys)
  case Nil
  with pool_script_process show ?case by simp
next
  case (Cons x xs)
  have "pool_run env factories (ms @ carried x) (sys\<lparr> mailbox := mailbox sys @ [x] \<rparr>)"
  proof (cases x)
    case (TransmitMsg m)
    with pool_run.more [OF Cons.prems(1) pool_step.submit] show ?thesis by simp
  next
    case (AddStreamMsg m)
    with pool_run.more [OF Cons.prems(1) pool_step.stream_added] show ?thesis by simp
  next
    case (RemoveStreamMsg m)
    with pool_run.more [OF Cons.prems(1) pool_step.stream_removed] show ?thesis by simp
  next
    case (QueryResponseMsg m)
    with Cons.prems(2) show ?thesis by simp
  qed
  moreover obtain sys1 where "pool_script env [] (sys\<lparr> mailbox := mailbox sys @ [x] \<rparr>) = Some sys1"
    "pool_script env xs sys1 = Some sys'"
    using Cons.prems(3) by (auto simp del: pool_script.simps(1) split: bind_split_asm)
  ultimately show ?case
    using Cons.IH pool_script_process Cons.prems(2) by fastforce
qed

definition demo_browser :: socket_addr where
  "demo_browser = \<lparr> ip = V4 127 0 0 1, port = 40000 \<rparr>"

definition demo_response :: transmit_data_msg where
  "demo_response = \<lparr> td_endpoint = Socket demo_browser, td_last_data = False, td_sequence_number = Some 0,
     td_data = [7, 8] \<rparr>"

definition demo_script :: "pool_message list" where
  "demo_script = [AddStreamMsg \<lparr> as_connection_info = \<lparr> ci_local_addr = demo_local, ci_peer_addr = demo_browser \<rparr>,
       as_origin_port = Some 80, as_port_configuration = HTTP_PORT_CONFIGURATION \<rparr>,
     TransmitMsg demo_response, RemoveStreamMsg \<lparr> rsm_local_addr = demo_local, rsm_peer_addr = demo_peer, rsm_stream_type = Clandestine \<rparr>]"

definition demo_system :: pool_system where
  "demo_system = the (pool_script demo_reader_env demo_script (pool_system_new [JsonDiscriminatorFactory]))"

lemma demo_system_run: "pool_run demo_reader_env [JsonDiscriminatorFactory] [demo_response] demo_system"
proof -
  have "pool_script demo_reader_env demo_script (pool_system_new [JsonDiscriminatorFactory]) \<noteq> None"
    by code_simp
  then have "pool_script demo_reader_env demo_script (pool_system_new [JsonDiscriminatorFactory]) = Some demo_system"
    by (simp add: demo_system_def)
  from pool_script_run [OF pool_run.start _ this] show ?thesis
    by (simp add: demo_script_def)
qed

text \<open>C9. The pool neither loses nor duplicates a message. In every state that the pool can reach with
  its partners, whatever streams come and go, whatever the neighborhood answers, and in whatever order
  delays and connection attempts end, each message submitted is in exactly one place: in the mailbox,
  with the neighborhood, waiting to be submitted again, with a connection attempt, in the channel of a
  writer, or given up for a reason that is logged. A packet in a channel is the message itself, masked
  if it is clandestine and with its sequence number if it is clear.\<close>

theorem pool_conserves_messages:
  assumes "pool_run env factories ms sys"
  shows "mset ms = messages_at sys \<and> list_all (\<lambda>(c, p, m). packet_for env m = Ok (Ok p)) (queued sys)"
  using pool_run_ok [OF assms]
  by (auto simp: system_ok_def messages_ok_def packet_ok_def list_all_iff)

theorem pool_conserves_messages_witness:
  "mset [demo_response] = messages_at demo_system
   \<and> list_all (\<lambda>(c, p, m). packet_for demo_reader_env m = Ok (Ok p)) (queued demo_system)"
  using pool_conserves_messages [OF demo_system_run] .

text \<open>C19. Data for a client of the local machine go to the client's own stream: in every reachable state a
  packet made of a message to a loopback address is in the channel of a writer that was started for
  exactly that address, and no two writers share a channel.\<close>

theorem local_data_to_own_stream:
  assumes "pool_run env factories ms sys" "(c, p, m) \<in> set (queued sys)" "td_endpoint m = Socket a" "is_loopback (ip a)"
  shows "\<exists>b. (c, b, a) \<in> set (writers sys) \<and> distinct (map fst (writers sys))"
proof -
  have sys: "senders_ok (pool sys) (writers sys)" "packet_ok env (writers sys) (c, p, m)"
    using pool_run_ok [OF assms(1)] assms(2) by (auto simp: system_ok_def messages_ok_def list_all_iff)
  then obtain b peer where "(c, b, peer) \<in> set (writers sys)" "stream_writer_key_from peer = stream_writer_key_from a"
    using assms(3) by (auto simp: packet_ok_def)
  with sys(1) key_loopback [OF assms(4)] show ?thesis
    by (auto simp: senders_ok_def)
qed

theorem local_data_to_own_stream_witness:
  "(0, new_packet [7, 8] 0 False, demo_response) \<in> set (queued demo_system)
   \<and> (\<exists>b. (0, b, demo_browser) \<in> set (writers demo_system))"
proof -
  have "(0, new_packet [7, 8] 0 False, demo_response) \<in> set (queued demo_system)"
    by code_simp
  moreover have "td_endpoint demo_response = Socket demo_browser" "is_loopback (ip demo_browser)"
    by code_simp+
  ultimately show ?thesis
    using local_data_to_own_stream [OF demo_system_run] by blast
qed

text \<open>A message to a host, and a pool that waits for the connection to it.\<close>

definition goes_to :: "ip_addr \<Rightarrow> dispatcher_node_query_response \<Rightarrow> bool" where
  "goes_to h r \<longleftrightarrow> (\<exists>q n p ps. dq_result r = Some q \<and> nq_node_addr_opt q = Some n \<and> na_ports n = p # ps \<and> na_ip_addr n = h)"

definition awaiting :: "ip_addr \<Rightarrow> stream_handler_pool \<Rightarrow> stream_handler_pool \<Rightarrow> bool" where
  "awaiting h self p \<longleftrightarrow> pool_bound p \<and> next_channel p = next_channel self \<and>
     hm_get (stream_writers p) (stream_writer_key_from \<lparr> ip = h, port = 0 \<rparr>) = Some None"

fun handle_responses ::
    "reader_env \<Rightarrow> (nat \<Rightarrow> bool) \<Rightarrow> dispatcher_node_query_response list \<Rightarrow> stream_handler_pool
       \<Rightarrow> (pool_output list list \<times> stream_handler_pool) run" where
  "handle_responses env alive [] self = Ok ([], self)"
| "handle_responses env alive (r # rs) self =
     bind_run (handle_dispatcher_node_query_response env alive r self) (\<lambda>(outs, self1).
     bind_run (handle_responses env alive rs self1) (\<lambda>(outss, self2). Ok (outs # outss, self2)))"

lemma key_of_host: "\<not> is_loopback h \<Longrightarrow> stream_writer_key_from \<lparr> ip = h, port = p \<rparr> = stream_writer_key_from \<lparr> ip = h, port = 0 \<rparr>"
  by (simp add: stream_writer_key_from_def)

lemma awaiting_response:
  assumes "awaiting h self p" "\<not> is_loopback h" "handle_dispatcher_node_query_response env alive r p = Ok (outs, p')"
  shows "awaiting h self p' \<and> (goes_to h r \<longrightarrow> outs = [ResubmitLater r])"
proof (cases "goes_to h r")
  case True
  then obtain q n prt ps where "dq_result r = Some q" "nq_node_addr_opt q = Some n" "na_ports n = prt # ps" "na_ip_addr n = h"
    by (auto simp: goes_to_def)
  with assms(1,3) key_of_host [OF assms(2), of prt] show ?thesis
    by (auto simp: handle_dispatcher_node_query_response_def awaiting_def Let_def)
next
  case False
  with assms show ?thesis
    by (auto simp: handle_dispatcher_node_query_response_def awaiting_def send_on_stream_def Let_def
        elim!: bind_run_InrE split: option.split_asm list.split_asm sum.split_asm if_split_asm)
qed

lemma awaiting_responses:
  "awaiting h self p \<Longrightarrow> \<not> is_loopback h \<Longrightarrow> handle_responses env alive rs p = Ok (outss, p') \<Longrightarrow>
     awaiting h self p' \<and> list_all2 (\<lambda>r outs. goes_to h r \<longrightarrow> outs = [ResubmitLater r]) rs outss"
  by (induction rs arbitrary: p outss) (auto elim!: bind_run_InrE dest: awaiting_response)

text \<open>The stream added for the connection takes every message to the host.\<close>

lemma added_stream_takes:
  assumes "awaiting h self p" "\<not> is_loopback h" "ip (ci_peer_addr (as_connection_info msg)) = h"
    and "discriminator_factories (as_port_configuration msg) = [JsonDiscriminatorFactory]" "alive (next_channel self)"
  shows "\<exists>outs p1. handle_add_stream_msg env msg p = Ok (outs, p1) \<and>
    (\<forall>r packet. goes_to h r \<and> packet_for env (dq_context r) = Ok (Ok packet) \<longrightarrow>
       (\<exists>p2. handle_dispatcher_node_query_response env alive r p1 = Ok ([QueuePacket (next_channel self) packet (dq_context r)], p2) \<and>
          (\<not> td_last_data (dq_context r) \<longrightarrow> p2 = p1)))"
proof -
  let ?k = "stream_writer_key_from \<lparr> ip = h, port = 0 \<rparr>"
  define p1 where "p1 = snd (set_up_stream_writer (ci_peer_addr (as_connection_info msg)) (pc_is_clandestine (as_port_configuration msg)) p)"
  have "stream_writer_key_from (ci_peer_addr (as_connection_info msg)) = ?k"
    using assms(2,3) by (simp add: stream_writer_key_from_def)
  then have p1: "pool_bound p1" "hm_get (stream_writers p1) ?k
      = Some (Some \<lparr> tx_peer_addr = ci_peer_addr (as_connection_info msg), tx_channel = next_channel self \<rparr>)"
    using assms(1) by (simp_all add: p1_def awaiting_def set_up_stream_writer_def Let_def)
  have "\<exists>outs. handle_add_stream_msg env msg p = Ok (outs, p1)"
    using assms(4) p1(1)
    by (simp add: handle_add_stream_msg_def set_up_stream_reader_def stream_reader_new_def new_discriminator_def
        p1_def split_beta Let_def)
  moreover have "\<exists>p2. handle_dispatcher_node_query_response env alive r p1 = Ok ([QueuePacket (next_channel self) packet (dq_context r)], p2) \<and>
      (\<not> td_last_data (dq_context r) \<longrightarrow> p2 = p1)"
    if to: "goes_to h r" and packet: "packet_for env (dq_context r) = Ok (Ok packet)" for r packet
  proof -
    obtain q n prt ps where "dq_result r = Some q" "nq_node_addr_opt q = Some n" "na_ports n = prt # ps" "na_ip_addr n = h"
      using to by (auto simp: goes_to_def)
    with p1(2) packet assms(5) key_of_host [OF assms(2), of prt] show ?thesis
      by (simp add: handle_dispatcher_node_query_response_def send_on_stream_def Let_def)
  qed
  ultimately show ?thesis by blast
qed

text \<open>C27. The first message to a neighbor opens the one connection to it and goes out masked on that
  connection. When there is no stream to the host, the handler begins a connection attempt and keeps the
  message with it. Whatever messages to whatever hosts come while the attempt lasts, those to the same
  host are put off, by whichever port they know it, and no second attempt is begun. When the attempt
  succeeds, the two messages it sends to the pool add the stream and then put the first message, as
  one JSON-masked packet, into the channel of the new writer; and any other message to the host, when it
  is submitted again, goes into the same channel, unless the first one closes the stream.\<close>

theorem new_connection_carries_message:
  assumes "dq_result r = Some q" "nq_node_addr_opt q = Some n" "na_ports n = prt # ps" "na_ip_addr n = h" "\<not> is_loopback h"
    and "hm_get (stream_writers self) (stream_writer_key_from \<lparr> ip = h, port = prt \<rparr>) = None" "pool_bound self"
    and "clandestine_discriminator_factories self = [JsonDiscriminatorFactory]"
    and "ip (ci_peer_addr info) = h" "alive (next_channel self)"
    and "td_sequence_number (dq_context r) = None" "json_mask (re_codec env) (td_data (dq_context r)) = Ok (Ok masked)"
  shows "\<exists>self1 msg.
    handle_dispatcher_node_query_response env alive r self
      = Ok ([BeginConnection \<lparr> ip = h, port = prt \<rparr> (nq_public_key q) r], self1) \<and>
    connection_succeeded self1 info r = [AddStream msg, NodeQueryResponse r] \<and>
    (\<forall>rs outss p. handle_responses env alive rs self1 = Ok (outss, p) \<longrightarrow>
       list_all2 (\<lambda>r' outs. goes_to h r' \<longrightarrow> outs = [ResubmitLater r']) rs outss \<and>
       (\<exists>outs p1 p2. handle_add_stream_msg env msg p = Ok (outs, p1) \<and>
          handle_dispatcher_node_query_response env alive r p1
            = Ok ([QueuePacket (next_channel self) (new_packet masked 0 False) (dq_context r)], p2) \<and>
          (\<forall>r' packet. goes_to h r' \<and> packet_for env (dq_context r') = Ok (Ok packet) \<and> \<not> td_last_data (dq_context r) \<longrightarrow>
             (\<exists>p3. handle_dispatcher_node_query_response env alive r' p2
                = Ok ([QueuePacket (next_channel self) packet (dq_context r')], p3)))))"
proof -
  let ?k = "stream_writer_key_from \<lparr> ip = h, port = prt \<rparr>"
  define self1 where "self1 = self\<lparr> stream_writers := hm_insert ?k None (stream_writers self) \<rparr>"
  have "h \<noteq> localhost"
    using assms(5) by (auto simp: localhost_def is_loopback_def)
  then have opens: "handle_dispatcher_node_query_response env alive r self = Ok ([BeginConnection \<lparr> ip = h, port = prt \<rparr> (nq_public_key q) r], self1)"
    using assms(1-4,6,7) by (simp add: handle_dispatcher_node_query_response_def self1_def Let_def)
  have waits: "awaiting h self self1"
    using assms(5,7) key_of_host [OF assms(5), of prt] by (simp add: awaiting_def self1_def)
  have r: "goes_to h r" "packet_for env (dq_context r) = Ok (Ok (new_packet masked 0 False))"
    using assms(1-4,11,12) by (auto simp: goes_to_def packet_for_def)
  obtain msg where msg: "connection_succeeded self1 info r = [AddStream msg, NodeQueryResponse r]"
    "as_connection_info msg = info" "discriminator_factories (as_port_configuration msg) = [JsonDiscriminatorFactory]"
    using assms(8) by (simp add: connection_succeeded_def self1_def)
  have "list_all2 (\<lambda>r' outs. goes_to h r' \<longrightarrow> outs = [ResubmitLater r']) rs outss \<and>
       (\<exists>outs p1 p2. handle_add_stream_msg env msg p = Ok (outs, p1) \<and>
          handle_dispatcher_node_query_response env alive r p1
            = Ok ([QueuePacket (next_channel self) (new_packet masked 0 False) (dq_context r)], p2) \<and>
          (\<forall>r' packet. goes_to h r' \<and> packet_for env (dq_context r') = Ok (Ok packet) \<and> \<not> td_last_data (dq_context r) \<longrightarrow>
             (\<exists>p3. handle_dispatcher_node_query_response env alive r' p2
                = Ok ([QueuePacket (next_channel self) packet (dq_context r')], p3))))"
    if "handle_responses env alive rs self1 = Ok (outss, p)" for rs outss p
  proof -
    have p: "awaiting h self p" "list_all2 (\<lambda>r' outs. goes_to h r' \<longrightarrow> outs = [ResubmitLater r']) rs outss"
      using awaiting_responses [OF waits assms(5) that] by auto
    from added_stream_takes [where alive = alive and env = env, OF p(1) assms(5) _ msg(3)] assms(10) msg(2) assms(9) obtain outs p1 where
      p1: "handle_add_stream_msg env msg p = Ok (outs, p1)" "\<And>r packet. goes_to h r \<Longrightarrow> packet_for env (dq_context r) = Ok (Ok packet) \<Longrightarrow>
       \<exists>p2. handle_dispatcher_node_query_response env alive r p1 = Ok ([QueuePacket (next_channel self) packet (dq_context r)], p2) \<and>
          (\<not> td_last_data (dq_context r) \<longrightarrow> p2 = p1)"
      by blast
    from p1(2) [OF r] obtain p2 where
      "handle_dispatcher_node_query_response env alive r p1 = Ok ([QueuePacket (next_channel self) (new_packet masked 0 False) (dq_context r)], p2)"
      "\<not> td_last_data (dq_context r) \<Longrightarrow> p2 = p1"
      by blast
    with p(2) p1 show ?thesis by blast
  qed
  with opens msg(1) show ?thesis by blast
qed

definition demo_neighbor_response :: dispatcher_node_query_response where
  "demo_neighbor_response = \<lparr> dq_result = Some \<lparr> nq_public_key = [1], nq_node_addr_opt = Some \<lparr> na_ip_addr = V4 7 7 7 7, na_ports = [5000] \<rparr>,
       nq_rate_pack = ZERO_RATE_PACK \<rparr>,
     dq_context = \<lparr> td_endpoint = Key [1], td_last_data = False, td_sequence_number = None, td_data = [65] \<rparr> \<rparr>"

text \<open>A second message to the same host, which knows it by another port, while the attempt lasts.\<close>

definition demo_second_response :: dispatcher_node_query_response where
  "demo_second_response = \<lparr> dq_result = Some \<lparr> nq_public_key = [1], nq_node_addr_opt = Some \<lparr> na_ip_addr = V4 7 7 7 7, na_ports = [6000] \<rparr>,
       nq_rate_pack = ZERO_RATE_PACK \<rparr>,
     dq_context = \<lparr> td_endpoint = Key [1], td_last_data = False, td_sequence_number = None, td_data = [66] \<rparr> \<rparr>"

theorem new_connection_carries_message_witness:
  "\<exists>self1 msg p outs p1 p2 p3.
    handle_dispatcher_node_query_response demo_reader_env (\<lambda>_. True) demo_neighbor_response
        (pool_bind (pool_new [JsonDiscriminatorFactory])) = Ok ([BeginConnection demo_peer [1] demo_neighbor_response], self1)
    \<and> connection_succeeded self1 \<lparr> ci_local_addr = demo_local, ci_peer_addr = demo_peer \<rparr> demo_neighbor_response
        = [AddStream msg, NodeQueryResponse demo_neighbor_response]
    \<and> handle_responses demo_reader_env (\<lambda>_. True) [demo_second_response] self1 = Ok ([[ResubmitLater demo_second_response]], p)
    \<and> handle_add_stream_msg demo_reader_env msg p = Ok (outs, p1)
    \<and> handle_dispatcher_node_query_response demo_reader_env (\<lambda>_. True) demo_neighbor_response p1
        = Ok ([QueuePacket 0 (new_packet [OB, DQ, 65, DQ, CB] 0 False) (dq_context demo_neighbor_response)], p2)
    \<and> handle_dispatcher_node_query_response demo_reader_env (\<lambda>_. True) demo_second_response p2
        = Ok ([QueuePacket 0 (new_packet [OB, DQ, 66, DQ, CB] 0 False) (dq_context demo_second_response)], p3)"
proof -
  let ?pool = "pool_bind (pool_new [JsonDiscriminatorFactory])"
  let ?h = "V4 7 7 7 7"
  have mask: "json_mask (re_codec demo_reader_env) (td_data (dq_context demo_neighbor_response)) = Ok (Ok [OB, DQ, 65, DQ, CB])"
    "packet_for demo_reader_env (dq_context demo_second_response) = Ok (Ok (new_packet [OB, DQ, 66, DQ, CB] 0 False))"
    by (simp_all add: packet_for_def demo_neighbor_response_def demo_second_response_def demo_reader_env_def quoting_codec_def json_mask_def)
  have second: "goes_to ?h demo_second_response" "\<not> td_last_data (dq_context demo_neighbor_response)"
    by (simp_all add: goes_to_def demo_second_response_def demo_neighbor_response_def)
  have pool: "hm_get (stream_writers ?pool) (stream_writer_key_from \<lparr> ip = ?h, port = 5000 \<rparr>) = None" "pool_bound ?pool"
      "clandestine_discriminator_factories ?pool = [JsonDiscriminatorFactory]" "next_channel ?pool = 0"
    by (simp_all add: pool_bind_def pool_new_def)
  obtain self1 msg where th: "handle_dispatcher_node_query_response demo_reader_env (\<lambda>_. True) demo_neighbor_response ?pool
        = Ok ([BeginConnection demo_peer [1] demo_neighbor_response], self1)"
    "connection_succeeded self1 \<lparr> ci_local_addr = demo_local, ci_peer_addr = demo_peer \<rparr> demo_neighbor_response
        = [AddStream msg, NodeQueryResponse demo_neighbor_response]"
    "\<And>rs outss p. handle_responses demo_reader_env (\<lambda>_. True) rs self1 = Ok (outss, p) \<Longrightarrow>
       list_all2 (\<lambda>r' outs. goes_to ?h r' \<longrightarrow> outs = [ResubmitLater r']) rs outss \<and>
       (\<exists>outs p1 p2. handle_add_stream_msg demo_reader_env msg p = Ok (outs, p1) \<and>
          handle_dispatcher_node_query_response demo_reader_env (\<lambda>_. True) demo_neighbor_response p1
            = Ok ([QueuePacket 0 (new_packet [OB, DQ, 65, DQ, CB] 0 False) (dq_context demo_neighbor_response)], p2) \<and>
          (\<forall>r' packet. goes_to ?h r' \<and> packet_for demo_reader_env (dq_context r') = Ok (Ok packet) \<and>
             \<not> td_last_data (dq_context demo_neighbor_response) \<longrightarrow>
             (\<exists>p3. handle_dispatcher_node_query_response demo_reader_env (\<lambda>_. True) r' p2
                = Ok ([QueuePacket 0 packet (dq_context r')], p3))))"
    using new_connection_carries_message [where r = demo_neighbor_response and env = demo_reader_env
      and alive = "\<lambda>_. True" and self = ?pool and info = "\<lparr> ci_local_addr = demo_local, ci_peer_addr = demo_peer \<rparr>"
      and h = ?h and prt = 5000 and ps = "[]" and n = "\<lparr> na_ip_addr = ?h, na_ports = [5000] \<rparr>"
      and q = "\<lparr> nq_public_key = [1], nq_node_addr_opt = Some \<lparr> na_ip_addr = ?h, na_ports = [5000] \<rparr>, nq_rate_pack = ZERO_RATE_PACK \<rparr>",
      OF _ _ _ _ _ pool(1-3) _ _ _ mask(1)]
    unfolding pool(4) by (simp add: demo_neighbor_response_def is_loopback_def demo_peer_def) blast
  have "\<exists>out p. handle_responses demo_reader_env (\<lambda>_. True) [demo_second_response] self1 = Ok ([out], p)"
    using th(1) by (auto simp: handle_dispatcher_node_query_response_def demo_second_response_def demo_neighbor_response_def
        pool_bind_def pool_new_def stream_writer_key_from_def is_loopback_def localhost_def Let_def)
  then obtain out p where p: "handle_responses demo_reader_env (\<lambda>_. True) [demo_second_response] self1 = Ok ([out], p)"
    by blast
  from th(3) [OF p] second mask(2) have "out = [ResubmitLater demo_second_response]"
    by simp
  with th(1,2) p th(3) [OF p] second mask(2) show ?thesis
    by blast
qed

text \<open>One writer per host: two streams with the same peer address but for the port, and not on the local
  machine, have one key. When the second has been added and the first is removed, the pool has no
  writer left for the second, which is open; the next message to it begins a new connection.\<close>

theorem removal_forgets_other_stream:
  assumes "\<not> is_loopback (ip a)" "ip b = ip a"
    and "handle_add_stream_msg env m self = Ok (outs, self1)" "ci_peer_addr (as_connection_info m) = b"
    and "handle_remove_stream_msg rm self1 = (outs2, self2)" "rsm_peer_addr rm = a"
    and "dq_result r = Some q" "nq_node_addr_opt q = Some (node_addr_from_socket_addr b)"
  shows "\<exists>self3. handle_dispatcher_node_query_response env alive r self2
    = Ok ([BeginConnection b (nq_public_key q) r], self3)"
proof -
  have key: "stream_writer_key_from b = stream_writer_key_from a"
    using assms(1,2) by (simp add: stream_writer_key_from_def)
  have "pool_bound self1"
    using assms(3) by (auto simp: handle_add_stream_msg_def set_up_stream_reader_def set_up_stream_writer_def Let_def
        elim!: bind_run_InrE split: if_split_asm)
  with assms(5,6) key have "pool_bound self2" "hm_get (stream_writers self2) (stream_writer_key_from b) = None"
    by (auto simp: handle_remove_stream_msg_def Let_def)
  moreover have "ip b \<noteq> localhost"
    using assms(1,2) by (auto simp: localhost_def is_loopback_def)
  ultimately show ?thesis
    using assms(7,8) by (cases b) (simp add: handle_dispatcher_node_query_response_def Let_def)
qed

theorem removal_forgets_other_stream_witness:
  "\<exists>outs self1 outs2 self2 self3.
    handle_add_stream_msg demo_reader_env \<lparr> as_connection_info = \<lparr> ci_local_addr = demo_local, ci_peer_addr = demo_peer \<rparr>,
        as_origin_port = Some 1234, as_port_configuration = CLANDESTINE_PORT_CONFIGURATION \<rparr>
      (pool_bind (pool_new [JsonDiscriminatorFactory])) = Ok (outs, self1)
    \<and> handle_remove_stream_msg \<lparr> rsm_local_addr = demo_local, rsm_peer_addr = demo_peer\<lparr> port := 6000 \<rparr>, rsm_stream_type = Clandestine \<rparr> self1
        = (outs2, self2)
    \<and> handle_dispatcher_node_query_response demo_reader_env (\<lambda>_. True) demo_neighbor_response self2
        = Ok ([BeginConnection demo_peer [1] demo_neighbor_response], self3)"
proof -
  let ?m = "\<lparr> as_connection_info = \<lparr> ci_local_addr = demo_local, ci_peer_addr = demo_peer \<rparr>,
        as_origin_port = Some 1234, as_port_configuration = CLANDESTINE_PORT_CONFIGURATION \<rparr>"
  let ?r = "\<lparr> rsm_local_addr = demo_local, rsm_peer_addr = demo_peer\<lparr> port := 6000 \<rparr>, rsm_stream_type = Clandestine \<rparr>"
  obtain outs self1 where add: "handle_add_stream_msg demo_reader_env ?m (pool_bind (pool_new [JsonDiscriminatorFactory])) = Ok (outs, self1)"
    by (simp add: handle_add_stream_msg_def set_up_stream_writer_def set_up_stream_reader_def stream_reader_new_def
        CLANDESTINE_PORT_CONFIGURATION_def new_discriminator_def pool_bind_def Let_def)
  obtain outs2 self2 where rem: "handle_remove_stream_msg ?r self1 = (outs2, self2)"
    by fastforce
  note th = removal_forgets_other_stream [OF _ _ add _ rem, where a = "demo_peer\<lparr> port := 6000 \<rparr>" and b = demo_peer
      and r = demo_neighbor_response and alive = "\<lambda>_. True"
      and q = "\<lparr> nq_public_key = [1], nq_node_addr_opt = Some (node_addr_from_socket_addr demo_peer), nq_rate_pack = ZERO_RATE_PACK \<rparr>"]
  have "node_addr_from_socket_addr demo_peer = \<lparr> na_ip_addr = V4 7 7 7 7, na_ports = [5000] \<rparr>"
    by (simp add: node_addr_from_socket_addr_def node_addr_new_def demo_peer_def)
  with th add rem show ?thesis
    by (auto simp: demo_neighbor_response_def is_loopback_def demo_peer_def)
qed

end
