(* ===== verification/ProxyClientActor.thy ===== *)
theory ProxyClientActor
  imports StreamPool Accountant
begin

text \<open>
  The exit of a route: the actor \<open>proxy_client/mod.rs\<close>, its pool of streams to servers
  (\<open>stream_handler_pool.rs\<close>), the establisher (\<open>stream_establisher.rs\<close>, \<open>connect_one\<close> of
  \<open>sub_lib/stream_connector.rs\<close>), the task that reads a server's data (\<open>stream_reader.rs\<close>) and the task
  that writes to it (\<open>stream_writer.rs\<close>).

  A future that the pool hands to the executor is a value of \<open>client_task\<close>, and \<open>run_task\<close> is its
  execution; between the two, other messages may be handled. The resolver and the network are
  functions that give the answer of a lookup and the outcome of a connection attempt. The two
  channels into the pool, for new streams and for dead ones, are lists in its state.
\<close>

section \<open>Data\<close>

record inbound_server_data =
  isd_stream_key :: stream_key
  isd_last_data :: bool
  isd_sequence_number :: u64
  isd_source :: socket_addr
  isd_data :: bytes

definition error_socket_addr :: socket_addr where
  "error_socket_addr = \<lparr> ip = V4 0 0 0 0, port = 0 \<rparr>"

datatype stream_error = ChannelFull | NoHostname | CouldNotEstablish io_error_kind | CouldNotResolve

datatype client_task =
    Tend stream_key bool nat "wallet option"
  | CleanUpBadStream stream_key socket_addr stream_error
  | HandleIp client_request_payload "wallet option" ip_addr
  | LookupDns client_request_payload "wallet option" string

datatype client_output =
    PcInboundServerData inbound_server_data
  | PcDnsResolveFailed dns_resolve_failure
  | PcReportExit report_exit_service_provided
  | PcQueuePacket nat sequenced_packet
  | PcSpawnReader stream_key socket_addr
  | PcSpawnWriter nat socket_addr
  | PcSpawnTask client_task
  | PcToHopper incipient_cores_package

record client_pool =
  stream_writer_channels :: "(stream_key, sender) hashmap"
  stream_adder_rx :: "(stream_key \<times> sender) list"
  stream_killer_rx :: "(stream_key \<times> u64) list"
  cp_exit_service_rate :: u64
  cp_exit_byte_rate :: u64
  cp_next_channel :: nat

definition client_pool_new :: "u64 \<Rightarrow> u64 \<Rightarrow> client_pool" where
  "client_pool_new service_rate byte_rate =
     \<lparr> stream_writer_channels = [], stream_adder_rx = [], stream_killer_rx = [],
       cp_exit_service_rate = service_rate, cp_exit_byte_rate = byte_rate, cp_next_channel = 0 \<rparr>"

section \<open>Host names that are addresses\<close>

text \<open>\<open>SocketAddr::from_str\<close> and \<open>IpAddr::from_str\<close>; the text form of an IPv6 address is read by a
  parameter.\<close>

definition parse_port_digits :: "string \<Rightarrow> u16 option" where
  "parse_port_digits s =
     (if s = [] \<or> 5 < length s \<or> list_ex (\<lambda>c. \<not> is_digit_char c) s \<or> 65535 < digits_value s then None
      else Some (of_nat (digits_value s)))"

definition parse_socket_ip :: "(string \<Rightarrow> ip_addr option) \<Rightarrow> string \<Rightarrow> ip_addr option" where
  "parse_socket_ip parse_ipv6 s =
     (case split_on CHR '':'' s of
        [host, prt] \<Rightarrow> (if parse_port_digits prt = None then None else ipv4_from_str host)
      | pieces \<Rightarrow>
          (let host = join_with CHR '':'' (butlast pieces)
           in if parse_port_digits (last pieces) = None \<or> length host < 2 \<or> hd host \<noteq> CHR ''['' \<or> last host \<noteq> CHR '']''
              then None else parse_ipv6 (butlast (tl host))))"

definition parse_ip :: "(string \<Rightarrow> ip_addr option) \<Rightarrow> string \<Rightarrow> ip_addr option" where
  "parse_ip parse_ipv6 hostname =
     (case parse_socket_ip parse_ipv6 hostname of
        Some addr \<Rightarrow> Some addr
      | None \<Rightarrow>
          (case ipv4_from_str hostname of
             Some addr \<Rightarrow> Some addr
           | None \<Rightarrow> parse_ipv6 hostname))"

definition make_fqdn :: "string \<Rightarrow> string" where
  "make_fqdn hostname = hostname @ ''.''"

section \<open>The pool of streams\<close>

definition terminating_package :: "stream_key \<Rightarrow> u64 \<Rightarrow> socket_addr \<Rightarrow> inbound_server_data" where
  "terminating_package key sn source =
     \<lparr> isd_stream_key = key, isd_last_data = True, isd_sequence_number = sn, isd_source = source, isd_data = [] \<rparr>"

fun clean_up_dead_streams ::
    "(stream_key \<times> u64) list \<Rightarrow> (stream_key, sender) hashmap \<Rightarrow> client_output list \<times> (stream_key, sender) hashmap" where
  "clean_up_dead_streams [] channels = ([], channels)"
| "clean_up_dead_streams ((key, sn) # rest) channels =
     (case hm_get channels key of
        None \<Rightarrow> clean_up_dead_streams rest channels
      | Some writer_channel \<Rightarrow>
          (let (outs, channels') = clean_up_dead_streams rest (hm_remove key channels)
           in (PcInboundServerData (terminating_package key sn (tx_peer_addr writer_channel)) # outs, channels')))"

definition add_new_streams :: "(stream_key \<times> sender) list \<Rightarrow> (stream_key, sender) hashmap \<Rightarrow> (stream_key, sender) hashmap" where
  "add_new_streams added channels = fold (\<lambda>(key, tx). hm_insert key tx) added channels"

definition do_housekeeping :: "client_pool \<Rightarrow> client_output list \<times> client_pool" where
  "do_housekeeping self =
     (let (outs, channels) = clean_up_dead_streams (stream_killer_rx self) (stream_writer_channels self)
      in (outs, self\<lparr> stream_writer_channels := add_new_streams (stream_adder_rx self) channels,
                      stream_adder_rx := [], stream_killer_rx := [] \<rparr>))"

definition make_stream_with_key :: "(string \<Rightarrow> ip_addr option) \<Rightarrow> client_request_payload \<Rightarrow> wallet option \<Rightarrow> client_task" where
  "make_stream_with_key parse_ipv6 payload paying =
     (case target_hostname payload of
        None \<Rightarrow> CleanUpBadStream (crq_stream_key payload) error_socket_addr NoHostname
      | Some hostname \<Rightarrow>
          (case parse_ip parse_ipv6 hostname of
             Some ip_addr \<Rightarrow> HandleIp payload paying ip_addr
           | None \<Rightarrow> LookupDns payload paying (make_fqdn hostname)))"

text \<open>The two halves of \<open>write_and_tend\<close>: the packet is sent at once, the rest follows in the future.\<close>

definition tend :: "stream_key \<Rightarrow> bool \<Rightarrow> nat \<Rightarrow> wallet option \<Rightarrow> client_pool \<Rightarrow> client_output list \<times> client_pool" where
  "tend key lst payload_size paying self =
     (let self' = (if lst then self\<lparr> stream_writer_channels := hm_remove key (stream_writer_channels self) \<rparr> else self)
      in (case paying of
            Some wallet \<Rightarrow>
              (if 0 < payload_size
               then [PcReportExit \<lparr> xsp_paying_wallet = wallet, xsp_payload_size = payload_size,
                       xsp_service_rate = cp_exit_service_rate self, xsp_byte_rate = cp_exit_byte_rate self \<rparr>]
               else [])
          | None \<Rightarrow> [], self'))"

definition clean_up_bad_stream :: "stream_key \<Rightarrow> socket_addr \<Rightarrow> client_pool \<Rightarrow> client_output list \<times> client_pool" where
  "clean_up_bad_stream key source self =
     ([PcInboundServerData (terminating_package key 0 source)],
      self\<lparr> stream_writer_channels := hm_remove key (stream_writer_channels self) \<rparr>)"

definition process_package ::
    "(string \<Rightarrow> ip_addr option) \<Rightarrow> (nat \<Rightarrow> bool) \<Rightarrow> client_request_payload \<Rightarrow> wallet option \<Rightarrow> client_pool
       \<Rightarrow> client_output list \<times> client_pool" where
  "process_package parse_ipv6 alive payload paying self0 =
     (let (outs, self) = do_housekeeping self0;
          key = crq_stream_key payload;
          packet = crq_sequenced_packet payload
      in case hm_get (stream_writer_channels self) key of
           Some tx \<Rightarrow>
             (outs @ (if alive (tx_channel tx)
                      then [PcQueuePacket (tx_channel tx) packet,
                            PcSpawnTask (Tend key (last_data packet) (length (sp_data packet)) paying)]
                      else [PcSpawnTask (CleanUpBadStream key (tx_peer_addr tx) ChannelFull)]), self)
         | None \<Rightarrow>
             (outs @ (if sp_data packet = [] then []
                      else [PcSpawnTask (make_stream_with_key parse_ipv6 payload paying)]), self))"

section \<open>Establishing a stream\<close>

fun connect_one :: "(socket_addr \<Rightarrow> io_error_kind + socket_addr) \<Rightarrow> u16 \<Rightarrow> io_error_kind \<Rightarrow> ip_addr list \<Rightarrow> io_error_kind + socket_addr" where
  "connect_one connect prt last_error [] = Err last_error"
| "connect_one connect prt last_error (ip_addr # ip_addrs) =
     (case connect \<lparr> ip = ip_addr, port = prt \<rparr> of
        Inr peer_addr \<Rightarrow> Ok peer_addr
      | Inl e \<Rightarrow> connect_one connect prt e ip_addrs)"

definition establish_stream ::
    "(socket_addr \<Rightarrow> io_error_kind + socket_addr) \<Rightarrow> client_request_payload \<Rightarrow> ip_addr list \<Rightarrow> client_pool
       \<Rightarrow> (io_error_kind + sender) \<times> client_output list \<times> client_pool" where
  "establish_stream connect payload ip_addrs self =
     (case connect_one connect (target_port payload) OtherError ip_addrs of
        Inl e \<Rightarrow> (Err e, [], self)
      | Inr peer_addr \<Rightarrow>
          (let tx = \<lparr> tx_peer_addr = peer_addr, tx_channel = cp_next_channel self \<rparr>
           in (Ok tx, [PcSpawnReader (crq_stream_key payload) peer_addr, PcSpawnWriter (tx_channel tx) peer_addr],
               self\<lparr> stream_adder_rx := stream_adder_rx self @ [(crq_stream_key payload, tx)],
                     cp_next_channel := cp_next_channel self + 1 \<rparr>)))"

definition establish_and_write ::
    "(socket_addr \<Rightarrow> io_error_kind + socket_addr) \<Rightarrow> (nat \<Rightarrow> bool) \<Rightarrow> client_request_payload \<Rightarrow> wallet option
       \<Rightarrow> ip_addr list \<Rightarrow> client_pool \<Rightarrow> client_output list \<times> client_pool" where
  "establish_and_write connect alive payload paying ip_addrs self =
     (let key = crq_stream_key payload; packet = crq_sequenced_packet payload;
          (result, outs, self1) = establish_stream connect payload ip_addrs self
      in case result of
           Inl e \<Rightarrow>
             (let (outs2, self2) = clean_up_bad_stream key error_socket_addr self1 in (outs @ outs2, self2))
         | Inr tx \<Rightarrow>
             if alive (tx_channel tx)
             then (let (outs2, self2) = tend key (last_data packet) (length (sp_data packet)) paying self1
                   in (outs @ PcQueuePacket (tx_channel tx) packet # outs2, self2))
             else (let (outs2, self2) = clean_up_bad_stream key error_socket_addr self1 in (outs @ outs2, self2)))"

definition run_task ::
    "(string \<Rightarrow> unit + ip_addr list) \<Rightarrow> (socket_addr \<Rightarrow> io_error_kind + socket_addr) \<Rightarrow> (nat \<Rightarrow> bool) \<Rightarrow> client_task
       \<Rightarrow> client_pool \<Rightarrow> (client_output list \<times> client_pool) run" where
  "run_task lookup connect alive task self =
     (case task of
        Tend key lst n paying \<Rightarrow> Ok (tend key lst n paying self)
      | CleanUpBadStream key source e \<Rightarrow> Ok (clean_up_bad_stream key source self)
      | HandleIp payload paying ip_addr \<Rightarrow> Ok (establish_and_write connect alive payload paying [ip_addr] self)
      | LookupDns payload paying fqdn \<Rightarrow>
          (case lookup fqdn of
             Inr ip_addrs \<Rightarrow> Ok (establish_and_write connect alive payload paying ip_addrs self)
           | Inl _ \<Rightarrow>
               bind_run (dns_resolve_failure_new (crq_stream_key payload)) (\<lambda>failure.
                 let (outs, self') = clean_up_bad_stream (crq_stream_key payload) error_socket_addr self
                 in Ok (PcDnsResolveFailed failure # outs, self'))))"

section \<open>The actor\<close>

record stream_context =
  sc_return_route :: route
  sc_payload_destination_key :: public_key
  sc_paying_wallet :: "wallet option"

record proxy_client =
  pc_dns_servers :: "socket_addr list"
  pc_cryptde :: cryptde
  pc_pool :: "client_pool option"
  stream_contexts :: "(stream_key, stream_context) hashmap"
  pc_exit_service_rate :: u64
  pc_exit_byte_rate :: u64

definition proxy_client_new :: "cryptde \<Rightarrow> socket_addr list \<Rightarrow> u64 \<Rightarrow> u64 \<Rightarrow> proxy_client run" where
  "proxy_client_new cryptde dns_servers service_rate byte_rate =
     (if dns_servers = [] then Err ExplicitPanic
      else Ok \<lparr> pc_dns_servers = dns_servers, pc_cryptde = cryptde, pc_pool = None, stream_contexts = [],
                pc_exit_service_rate = service_rate, pc_exit_byte_rate = byte_rate \<rparr>)"

definition pc_handle_bind :: "proxy_client \<Rightarrow> proxy_client" where
  "pc_handle_bind self =
     self\<lparr> pc_pool := Some (client_pool_new (pc_exit_service_rate self) (pc_exit_byte_rate self)) \<rparr>"

definition pc_handle_client_request ::
    "(string \<Rightarrow> ip_addr option) \<Rightarrow> (nat \<Rightarrow> bool) \<Rightarrow> client_request_payload expired_cores_package \<Rightarrow> proxy_client
       \<Rightarrow> (client_output list \<times> proxy_client) run" where
  "pc_handle_client_request parse_ipv6 alive msg self =
     (let payload = ecp_payload msg
      in if paying_wallet msg \<noteq> None \<or> originator_public_key payload = cd_public_key (pc_cryptde self)
         then bind_run (expect (pc_pool self)) (\<lambda>pl.
           let latest_stream_context = \<lparr> sc_return_route = remaining_route msg,
                 sc_payload_destination_key = originator_public_key payload,
                 sc_paying_wallet = paying_wallet msg \<rparr>;
               (outs, pl') = process_package parse_ipv6 alive payload (paying_wallet msg) pl
           in Ok (outs, self\<lparr> stream_contexts := hm_insert (crq_stream_key payload) latest_stream_context (stream_contexts self),
                              pc_pool := Some pl' \<rparr>))
         else Ok ([], self))"

definition send_response_to_hopper ::
    "cores_env \<Rightarrow> inbound_server_data \<Rightarrow> stream_context \<Rightarrow> proxy_client \<Rightarrow> (codex_error + incipient_cores_package) run" where
  "send_response_to_hopper env msg context' self =
     bind_run client_response_version (\<lambda>v.
       let payload = ClientResponse \<lparr> crs_version = v, crs_stream_key = isd_stream_key msg,
             crs_sequenced_packet = \<lparr> sp_data = isd_data msg, sequence_number = isd_sequence_number msg,
               last_data = isd_last_data msg \<rparr> \<rparr>
       in case incipient_new env (pc_cryptde self) (sc_return_route context') payload (sc_payload_destination_key context') of
            Inl e \<Rightarrow> Ok (Err e)
          | Inr icp \<Rightarrow> if pc_pool self = None then Err ExpectFailed else Ok (Ok icp))"

definition report_response_exit :: "stream_context \<Rightarrow> nat \<Rightarrow> proxy_client \<Rightarrow> client_output list" where
  "report_response_exit context' msg_data_len self =
     (case sc_paying_wallet context' of
        Some wallet \<Rightarrow>
          [PcReportExit \<lparr> xsp_paying_wallet = wallet, xsp_payload_size = msg_data_len,
             xsp_service_rate = pc_exit_service_rate self, xsp_byte_rate = pc_exit_byte_rate self \<rparr>]
      | None \<Rightarrow> [])"

definition pc_handle_inbound_server_data ::
    "cores_env \<Rightarrow> inbound_server_data \<Rightarrow> proxy_client \<Rightarrow> (client_output list \<times> proxy_client) run" where
  "pc_handle_inbound_server_data env msg self =
     (case hm_get (stream_contexts self) (isd_stream_key msg) of
        None \<Rightarrow> Ok ([], self)
      | Some context' \<Rightarrow>
          bind_run (send_response_to_hopper env msg context' self) (\<lambda>sent.
            case sent of
              Inl _ \<Rightarrow> Ok ([], self)
            | Inr icp \<Rightarrow>
                Ok (PcToHopper icp # report_response_exit context' (length (isd_data msg)) self,
                    if isd_last_data msg
                    then self\<lparr> stream_contexts := hm_remove (isd_stream_key msg) (stream_contexts self) \<rparr>
                    else self)))"

definition pc_handle_dns_resolve_failure ::
    "cores_env \<Rightarrow> dns_resolve_failure \<Rightarrow> proxy_client \<Rightarrow> (client_output list \<times> proxy_client) run" where
  "pc_handle_dns_resolve_failure env msg self =
     (case hm_get (stream_contexts self) (drf_stream_key msg) of
        None \<Rightarrow> Ok ([], self)
      | Some context' \<Rightarrow>
          (case incipient_new env (pc_cryptde self) (sc_return_route context') (DnsResolveFailed msg)
                  (sc_payload_destination_key context') of
             Inl _ \<Rightarrow> Err ExpectFailed
           | Inr package \<Rightarrow>
               if pc_pool self = None then Err ExpectFailed
               else Ok ([PcToHopper package],
                        self\<lparr> stream_contexts := hm_remove (drf_stream_key msg) (stream_contexts self) \<rparr>)))"

section \<open>Reading from a server\<close>

record server_reader =
  sv_stream_key :: stream_key
  sv_peer_addr :: socket_addr
  sv_sequencer :: sequencer

definition server_reader_new :: "stream_key \<Rightarrow> socket_addr \<Rightarrow> server_reader" where
  "server_reader_new key peer_addr = \<lparr> sv_stream_key = key, sv_peer_addr = peer_addr, sv_sequencer = new_sequencer \<rparr>"

datatype server_reader_output = ServerData inbound_server_data | KillStream "stream_key \<times> u64"

definition server_reader_shutdown :: "server_reader \<Rightarrow> server_reader_output \<times> server_reader" where
  "server_reader_shutdown self =
     (let (n, sq) = next_sequence_number (sv_sequencer self)
      in (KillStream (sv_stream_key self, n), self\<lparr> sv_sequencer := sq \<rparr>))"

definition send_inbound_server_data :: "server_reader \<Rightarrow> bytes \<Rightarrow> bool \<Rightarrow> server_reader_output \<times> server_reader" where
  "send_inbound_server_data self dat lst =
     (let (n, sq) = next_sequence_number (sv_sequencer self)
      in (ServerData \<lparr> isd_stream_key = sv_stream_key self, isd_last_data = lst, isd_sequence_number = n,
            isd_source = sv_peer_addr self, isd_data = dat \<rparr>, self\<lparr> sv_sequencer := sq \<rparr>))"

fun server_reader_poll :: "read_answer list \<Rightarrow> server_reader \<Rightarrow> async_result \<times> server_reader_output list \<times> server_reader" where
  "server_reader_poll [] self = (NotReady, [], self)"
| "server_reader_poll (ReadNotReady # rest) self = (NotReady, [], self)"
| "server_reader_poll (ReadBytes dat # rest) self =
     (if dat = [] then (let (out, self') = server_reader_shutdown self in (Ready, [out], self'))
      else (let (out, self') = send_inbound_server_data self dat False;
                (r, outs, self'') = server_reader_poll rest self'
            in (r, out # outs, self'')))"
| "server_reader_poll (ReadError e # rest) self =
     (if indicates_dead_stream e then (let (out, self') = server_reader_shutdown self in (Failed, [out], self'))
      else server_reader_poll rest self)"

section \<open>Writing to a server\<close>

text \<open>The state of the writer has the fields of the sorted writer; the buffer is read from the channel
  in the same way, and the result of writing is the result of the task.\<close>

fun server_write_loop :: "write_answer list \<Rightarrow> stream_writer_sorted \<Rightarrow> (async_result \<times> stream_writer_sorted) run" where
  "server_write_loop [] self =
     bind_run (poll (sequence_buffer self)) (\<lambda>(packet_opt, b).
     let self = self\<lparr> sws_stream := (sws_stream self)\<lparr> write_answers := [] \<rparr>, sequence_buffer := b \<rparr>
     in case packet_opt of
          None \<Rightarrow> Ok (Ready, self)
        | Some packet \<Rightarrow>
            bind_run (repush b packet) (\<lambda>b'. Ok (NotReady, self\<lparr> sequence_buffer := b' \<rparr>)))"
| "server_write_loop (answer # answers) self =
     bind_run (poll (sequence_buffer self)) (\<lambda>(packet_opt, b).
     case packet_opt of
       None \<Rightarrow> Ok (Ready, self\<lparr> sws_stream := (sws_stream self)\<lparr> write_answers := answer # answers \<rparr>, sequence_buffer := b \<rparr>)
     | Some packet \<Rightarrow>
         (let self = self\<lparr> sws_stream := (sws_stream self)\<lparr> write_answers := answers \<rparr>, sequence_buffer := b \<rparr>
          in case answer of
               WriteError e \<Rightarrow>
                 if indicates_dead_stream e then Ok (Failed, self)
                 else bind_run (repush b packet) (\<lambda>b'. server_write_loop answers (self\<lparr> sequence_buffer := b' \<rparr>))
             | WriteNotReady \<Rightarrow>
                 bind_run (repush b packet) (\<lambda>b'. Ok (NotReady, self\<lparr> sequence_buffer := b' \<rparr>))
             | Wrote bytes_written_count \<Rightarrow>
                 (let self = self\<lparr> sws_stream := socket_accept bytes_written_count (sp_data packet) (sws_stream self) \<rparr>
                  in if bytes_written_count \<noteq> length (sp_data packet)
                     then bind_run (repush b (new_packet (drop bytes_written_count (sp_data packet)) (sequence_number packet) (last_data packet))) (\<lambda>b'.
                          server_write_loop answers (self\<lparr> sequence_buffer := b' \<rparr>))
                     else if last_data packet
                     then Ok (sorted_shutdown (self\<lparr> shutting_down := True \<rparr>))
                     else server_write_loop answers self)))"

definition server_writer_poll :: "stream_writer_sorted \<Rightarrow> (async_result \<times> stream_writer_sorted) run" where
  "server_writer_poll self =
     (if shutting_down self then Ok (sorted_shutdown self)
      else bind_run (read_data_from_channel self) (\<lambda>(read_result, self).
           bind_run (server_write_loop (write_answers (sws_stream self)) self) (\<lambda>(write_result, self).
           Ok (case (read_result, write_result) of
                 (_, Failed) \<Rightarrow> Failed
               | (StillOpen, _) \<Rightarrow> NotReady
               | _ \<Rightarrow> write_result, self))))"

end
