(* ===== verification/ExitServices.thy ===== *)
theory ExitServices
  imports ProxyClientActor
begin

text \<open>
  What the exit of a route guarantees: the writer to a server behaves like the sorted writer of
  \<open>stream_writer_sorted.rs\<close>, a request is served exactly when it is charged, a request and the answer
  of the server make the round trip, and what happens when requests of one stream come faster than
  its connection is made.
\<close>

section \<open>The writer to a server is the sorted writer\<close>

fun status_result :: "write_buffer_status \<Rightarrow> async_result" where
  "status_result StreamInError = Failed"
| "status_result BufferNotEmpty = NotReady"
| "status_result BufferEmpty = Ready"

lemma server_write_loop_eq:
  "server_write_loop answers w = map_sum id (apfst status_result) (write_loop answers w)"
proof (induction answers w rule: write_loop.induct)
  case (1 w)
  show ?case
    by (auto simp: bind_run_def Let_def split: sum.split option.split)
next
  case (2 answer answers w)
  show ?case
  proof (cases "poll (sequence_buffer w)")
    case (Inl e)
    then show ?thesis by simp
  next
    case (Inr q)
    then obtain p b where q: "poll (sequence_buffer w) = Ok (p, b)"
      by (cases q) simp
    show ?thesis
    proof (cases p)
      case None
      with q show ?thesis by simp
    next
      case (Some packet)
      show ?thesis
      proof (cases answer)
        case (Wrote n)
        with q Some 2 show ?thesis
          by (auto simp: bind_run_def Let_def sorted_shutdown_def split: sum.split prod.split shutdown_answer.split)
      next
        case WriteNotReady
        with q Some show ?thesis
          by (auto simp: bind_run_def Let_def split: sum.split)
      next
        case (WriteError e)
        with q Some 2 show ?thesis
          by (auto simp: bind_run_def Let_def split: sum.split)
      qed
    qed
  qed
qed

text \<open>C25. The task that writes to a server and the one that writes sorted data to a client are two pieces
  of code with the same behaviour: polled in the same state, against the same answers of socket and
  channel, they give the same result and leave the same state. So the guarantees of the one, that
  packets are written in the order of their numbers, once each, hold for the other.\<close>

theorem server_writer_is_sorted: "server_writer_poll w = sorted_poll w"
  by (auto simp: server_writer_poll_def sorted_poll_def write_from_buffer_to_stream_def server_write_loop_eq
      bind_run_def split: sum.split read_channel_status.split write_buffer_status.split)

section \<open>Serving and charging\<close>

text \<open>A request taken through the pool and the task it starts.\<close>

fun spawned :: "client_output list \<Rightarrow> client_task list" where
  "spawned [] = []"
| "spawned (PcSpawnTask t # outs) = t # spawned outs"
| "spawned (_ # outs) = spawned outs"

fun charges :: "client_output list \<Rightarrow> report_exit_service_provided list" where
  "charges [] = []"
| "charges (PcReportExit r # outs) = r # charges outs"
| "charges (_ # outs) = charges outs"

fun written :: "client_output list \<Rightarrow> sequenced_packet list" where
  "written [] = []"
| "written (PcQueuePacket c p # outs) = p # written outs"
| "written (_ # outs) = written outs"

lemma spawned_append [simp]: "spawned (xs @ ys) = spawned xs @ spawned ys"
  by (induction xs rule: spawned.induct) simp_all

lemma charges_append [simp]: "charges (xs @ ys) = charges xs @ charges ys"
  by (induction xs rule: charges.induct) simp_all

lemma written_append [simp]: "written (xs @ ys) = written xs @ written ys"
  by (induction xs rule: written.induct) simp_all

definition run_tasks ::
    "(string \<Rightarrow> unit + ip_addr list) \<Rightarrow> (socket_addr \<Rightarrow> io_error_kind + socket_addr) \<Rightarrow> (nat \<Rightarrow> bool) \<Rightarrow> client_task list
       \<Rightarrow> client_output list \<times> client_pool \<Rightarrow> (client_output list \<times> client_pool) run" where
  "run_tasks lookup connect alive tasks start =
     fold_run (\<lambda>t (outs, pl). bind_run (run_task lookup connect alive t pl) (\<lambda>(outs', pl'). Ok (outs @ outs', pl'))) tasks start"

definition serve_request ::
    "(string \<Rightarrow> ip_addr option) \<Rightarrow> (string \<Rightarrow> unit + ip_addr list) \<Rightarrow> (socket_addr \<Rightarrow> io_error_kind + socket_addr)
       \<Rightarrow> (nat \<Rightarrow> bool) \<Rightarrow> client_request_payload expired_cores_package \<Rightarrow> proxy_client
       \<Rightarrow> (client_output list \<times> proxy_client) run" where
  "serve_request parse_ipv6 lookup connect alive msg self =
     bind_run (pc_handle_client_request parse_ipv6 alive msg self) (\<lambda>(outs, self').
       case pc_pool self' of
         None \<Rightarrow> Ok (outs, self')
       | Some pl \<Rightarrow>
           bind_run (run_tasks lookup connect alive (spawned outs) (outs, pl)) (\<lambda>(outs', pl').
             Ok (outs', self'\<lparr> pc_pool := Some pl' \<rparr>)))"

definition exit_charge :: "client_pool \<Rightarrow> wallet option \<Rightarrow> sequenced_packet \<Rightarrow> report_exit_service_provided list" where
  "exit_charge pl paying p =
     (case paying of
        Some w \<Rightarrow> if sp_data p = [] then []
          else [\<lparr> xsp_paying_wallet = w, xsp_payload_size = length (sp_data p),
                  xsp_service_rate = cp_exit_service_rate pl, xsp_byte_rate = cp_exit_byte_rate pl \<rparr>]
      | None \<Rightarrow> [])"

lemma dead_streams_lists:
  "clean_up_dead_streams ks chs = (outs, chs') \<Longrightarrow> spawned outs = [] \<and> charges outs = [] \<and> written outs = []"
  by (induction ks chs arbitrary: outs chs' rule: clean_up_dead_streams.induct)
    (auto split: option.split_asm prod.split_asm)

lemma housekeeping_facts:
  assumes "do_housekeeping pl = (outs, pl')"
  shows "spawned outs = []" "charges outs = []" "written outs = []"
    "cp_exit_service_rate pl' = cp_exit_service_rate pl" "cp_exit_byte_rate pl' = cp_exit_byte_rate pl"
    "cp_next_channel pl' = cp_next_channel pl"
  using assms dead_streams_lists by (auto simp: do_housekeeping_def Let_def split: prod.split_asm)

lemma tend_facts:
  assumes "tend key lst n paying pl = (outs, pl')" "n = length (sp_data p)"
  shows "charges outs = exit_charge pl paying p" "written outs = []" "spawned outs = []"
  using assms by (auto simp: tend_def Let_def exit_charge_def split: option.split_asm if_split_asm)

lemma clean_up_facts:
  assumes "clean_up_bad_stream key source pl = (outs, pl')"
  shows "charges outs = []" "written outs = []" "spawned outs = []"
  using assms by (auto simp: clean_up_bad_stream_def)

lemma establish_and_write_charges:
  assumes "establish_and_write connect alive payload paying addrs pl = (outs, pl')"
  shows "\<exists>n. written outs = replicate n (crq_sequenced_packet payload) \<and> n \<le> 1
    \<and> charges outs = concat (replicate n (exit_charge pl paying (crq_sequenced_packet payload))) \<and> spawned outs = []"
proof (cases "connect_one connect (target_port payload) OtherError addrs")
  case (Inl e)
  with assms show ?thesis
    using clean_up_facts [of "crq_stream_key payload" error_socket_addr]
    by (auto simp: establish_and_write_def establish_stream_def Let_def split: prod.split_asm intro!: exI [of _ 0])
next
  case (Inr peer)
  let ?p = "crq_sequenced_packet payload"
  let ?pl = "pl\<lparr> stream_adder_rx := stream_adder_rx pl @ [(crq_stream_key payload,
      \<lparr> tx_peer_addr = peer, tx_channel = cp_next_channel pl \<rparr>)], cp_next_channel := cp_next_channel pl + 1 \<rparr>"
  have rates: "exit_charge ?pl paying ?p = exit_charge pl paying ?p"
    by (simp add: exit_charge_def split: option.split)
  show ?thesis
  proof (cases "alive (cp_next_channel pl)")
    case True
    with Inr assms show ?thesis
      using tend_facts [of "crq_stream_key payload" "last_data ?p" "length (sp_data ?p)" paying ?pl _ _ ?p] rates
      by (intro exI [of _ 1]) (auto simp: establish_and_write_def establish_stream_def Let_def split: prod.split_asm)
  next
    case False
    with Inr assms show ?thesis
      using clean_up_facts [of "crq_stream_key payload" error_socket_addr ?pl]
      by (intro exI [of _ 0]) (auto simp: establish_and_write_def establish_stream_def Let_def split: prod.split_asm)
  qed
qed

lemma run_task_charges:
  assumes "run_task lookup connect alive t pl = Ok (outs, pl')"
    "t = make_stream_with_key parse_ipv6 payload paying"
  shows "\<exists>n. written outs = replicate n (crq_sequenced_packet payload) \<and> n \<le> 1
    \<and> charges outs = concat (replicate n (exit_charge pl paying (crq_sequenced_packet payload)))"
proof -
  consider (bad) source outs1 pl1 fs where "clean_up_bad_stream (crq_stream_key payload) source pl = (outs1, pl1)"
      "outs = fs @ outs1" "charges fs = []" "written fs = []"
    | (tried) addrs where "establish_and_write connect alive payload paying addrs pl = (outs, pl')"
    using assms
    by (fastforce simp: run_task_def make_stream_with_key_def elim!: bind_run_InrE
        split: option.split_asm sum.split_asm prod.split_asm)
  then show ?thesis
  proof cases
    case bad
    with clean_up_facts [OF bad(1)] show ?thesis
      by (intro exI [of _ 0]) simp
  next
    case tried
    from establish_and_write_charges [OF this] show ?thesis by blast
  qed
qed

text \<open>C13. At the exit, service and charge go together. A request without a paying wallet is refused without
  any effect, unless the node itself is the originator. A request that is accepted is put into the
  channel of a writer at most once; it is charged to its wallet once, by the size of its data and at
  the rates of the node, if it was put there and has data, and it is not charged otherwise. This holds
  whether the stream exists or has to be opened, and whatever the resolver and the network do.\<close>

theorem exit_service_charged_exactly:
  assumes "serve_request parse_ipv6 lookup connect alive msg self = Ok (outs, self')" "pc_pool self = Some pl"
  shows "if paying_wallet msg = None \<and> originator_public_key (ecp_payload msg) \<noteq> cd_public_key (pc_cryptde self)
    then outs = [] \<and> self' = self
    else \<exists>n. n \<le> 1 \<and> written outs = replicate n (crq_sequenced_packet (ecp_payload msg))
      \<and> charges outs = concat (replicate n (exit_charge pl (paying_wallet msg) (crq_sequenced_packet (ecp_payload msg))))"
proof (cases "paying_wallet msg = None \<and> originator_public_key (ecp_payload msg) \<noteq> cd_public_key (pc_cryptde self)")
  case True
  with assms show ?thesis
    by (auto simp: serve_request_def pc_handle_client_request_def run_tasks_def Let_def elim!: bind_run_InrE)
next
  case False
  let ?rq = "ecp_payload msg"
  let ?p = "crq_sequenced_packet ?rq"
  obtain outs1 pl1 where pkg: "process_package parse_ipv6 alive ?rq (paying_wallet msg) pl = (outs1, pl1)"
    by fastforce
  obtain pl2 where tasks: "run_tasks lookup connect alive (spawned outs1) (outs1, pl1) = Ok (outs, pl2)"
    using assms False pkg
    by (auto simp: serve_request_def pc_handle_client_request_def expect_def Let_def elim!: bind_run_InrE)
  obtain hk pl0 where hk: "do_housekeeping pl = (hk, pl0)"
    by fastforce
  note hkf = housekeeping_facts [OF hk]
  have rates: "exit_charge pl0 w q = exit_charge pl w q" for w q
    using hkf by (simp add: exit_charge_def split: option.split)
  show ?thesis
  proof (cases "hm_get (stream_writer_channels pl0) (crq_stream_key ?rq)")
    case None
    show ?thesis
    proof (cases "sp_data ?p = []")
      case True
      with None pkg hk tasks hkf False show ?thesis
        by (auto simp: process_package_def run_tasks_def intro!: exI [of _ 0])
    next
      case data: False
      let ?t = "make_stream_with_key parse_ipv6 ?rq (paying_wallet msg)"
      from None data pkg hk have o1: "outs1 = hk @ [PcSpawnTask ?t]" "pl1 = pl0"
        by (auto simp: process_package_def Let_def)
      with tasks hkf obtain outs2 where "run_task lookup connect alive ?t pl0 = Ok (outs2, pl2)" "outs = outs1 @ outs2"
        by (auto simp: run_tasks_def elim!: bind_run_InrE)
      with run_task_charges [OF this(1) refl] hkf o1 False rates show ?thesis
        by auto
    qed
  next
    case (Some tx)
    show ?thesis
    proof (cases "alive (tx_channel tx)")
      case True
      with Some pkg hk have o1: "outs1 = hk @ [PcQueuePacket (tx_channel tx) ?p,
          PcSpawnTask (Tend (crq_stream_key ?rq) (last_data ?p) (length (sp_data ?p)) (paying_wallet msg))]" "pl1 = pl0"
        by (auto simp: process_package_def Let_def)
      with tasks hkf obtain outs2 where
        "tend (crq_stream_key ?rq) (last_data ?p) (length (sp_data ?p)) (paying_wallet msg) pl0 = (outs2, pl2)" "outs = outs1 @ outs2"
        by (auto simp: run_tasks_def run_task_def elim!: bind_run_InrE split: prod.split_asm)
      with tend_facts [OF this(1) refl] hkf o1 False rates show ?thesis
        by (auto intro!: exI [of _ 1])
    next
      case dead: False
      with Some pkg hk have o1: "outs1 = hk @ [PcSpawnTask (CleanUpBadStream (crq_stream_key ?rq) (tx_peer_addr tx) ChannelFull)]" "pl1 = pl0"
        by (auto simp: process_package_def Let_def)
      with tasks hkf obtain outs2 where
        "clean_up_bad_stream (crq_stream_key ?rq) (tx_peer_addr tx) pl0 = (outs2, pl2)" "outs = outs1 @ outs2"
        by (auto simp: run_tasks_def run_task_def elim!: bind_run_InrE split: prod.split_asm)
      with clean_up_facts [OF this(1)] hkf o1 False show ?thesis
        by (auto intro!: exI [of _ 0])
    qed
  qed
qed

section \<open>The round trip\<close>

lemma response_version: "client_response_version = Ok (DataVersion 0 0 0)"
  by (simp add: client_response_version_def data_version_new_def Let_def)

definition task_addresses ::
    "(string \<Rightarrow> ip_addr option) \<Rightarrow> (string \<Rightarrow> unit + ip_addr list) \<Rightarrow> string \<Rightarrow> ip_addr list option" where
  "task_addresses parse_ipv6 lookup hostname =
     (case parse_ip parse_ipv6 hostname of
        Some a \<Rightarrow> Some [a]
      | None \<Rightarrow> (case lookup (make_fqdn hostname) of Inr addrs \<Rightarrow> Some addrs | Inl _ \<Rightarrow> None))"

lemma run_made_task:
  assumes "target_hostname rq = Some h" "task_addresses parse_ipv6 lookup h = Some addrs"
  shows "run_task lookup connect alive (make_stream_with_key parse_ipv6 rq paying) pl
    = Ok (establish_and_write connect alive rq paying addrs pl)"
  using assms by (auto simp: run_task_def make_stream_with_key_def task_addresses_def split: option.split_asm sum.split_asm)

definition opened_by :: "client_request_payload \<Rightarrow> socket_addr \<Rightarrow> client_pool \<Rightarrow> client_pool" where
  "opened_by rq peer pl = pl\<lparr> stream_adder_rx := stream_adder_rx pl @ [(crq_stream_key rq, \<lparr> tx_peer_addr = peer, tx_channel = cp_next_channel pl \<rparr>)],
     cp_next_channel := cp_next_channel pl + 1 \<rparr>"

lemma establish_and_write_ok:
  assumes "connect_one connect (target_port rq) OtherError addrs = Ok peer" "alive (cp_next_channel pl)"
    "\<not> last_data (crq_sequenced_packet rq)"
  shows "establish_and_write connect alive rq paying addrs pl
    = ([PcSpawnReader (crq_stream_key rq) peer, PcSpawnWriter (cp_next_channel pl) peer,
        PcQueuePacket (cp_next_channel pl) (crq_sequenced_packet rq)]
       @ map PcReportExit (exit_charge pl paying (crq_sequenced_packet rq)), opened_by rq peer pl)"
  using assms
  by (auto simp: establish_and_write_def establish_stream_def tend_def exit_charge_def opened_by_def Let_def split: option.split)

section \<open>An exit for examples\<close>

definition demo_server :: socket_addr where
  "demo_server = \<lparr> ip = V4 1 2 3 4, port = 80 \<rparr>"

definition demo_exit :: proxy_client where
  "demo_exit = \<lparr> pc_dns_servers = [demo_server], pc_cryptde = example_node 3, pc_pool = Some (client_pool_new 10 2),
     stream_contexts = [], pc_exit_service_rate = 10, pc_exit_byte_rate = 2 \<rparr>"

definition demo_exit_request :: "client_request_payload expired_cores_package" where
  "demo_exit_request = \<lparr> immediate_neighbor = demo_peer, paying_wallet = Some (wallet_from_address [9]),
     remaining_route = \<lparr> route_hops = [] \<rparr>, ecp_payload = demo_request, payload_len = 3 \<rparr>"

definition demo_lookup :: "string \<Rightarrow> unit + ip_addr list" where
  "demo_lookup name = (if name = ''example.com.'' then Ok [V4 9 9 9 9, V4 1 2 3 4] else Err ())"

definition demo_dial :: "socket_addr \<Rightarrow> io_error_kind + socket_addr" where
  "demo_dial a = (if a = demo_server then Ok a else Err ConnectionRefused)"

lemma demo_exit_facts:
  "paying_wallet demo_exit_request = Some (wallet_from_address [9])" "pc_pool demo_exit = Some (client_pool_new 10 2)"
  "demo_request = ecp_payload demo_exit_request" "do_housekeeping (client_pool_new 10 2) = ([], client_pool_new 10 2)"
  "hm_get (stream_writer_channels (client_pool_new 10 2)) (crq_stream_key demo_request) = None"
  "target_hostname demo_request = Some ''example.com''"
  "sp_data (crq_sequenced_packet demo_request) \<noteq> []" "\<not> last_data (crq_sequenced_packet demo_request)"
  "connect_one demo_dial (target_port demo_request) OtherError [V4 9 9 9 9, V4 1 2 3 4] = Ok demo_server"
  by (simp_all add: demo_exit_request_def demo_exit_def do_housekeeping_def client_pool_new_def add_new_streams_def
      demo_request_def demo_dial_def demo_server_def)

lemma demo_addresses: "task_addresses (\<lambda>_. None) demo_lookup ''example.com'' = Some [V4 9 9 9 9, V4 1 2 3 4]"
  by code_simp

lemma demo_response_sealed:
  "encodex (message_codec demo_env) (pc_cryptde demo_exit) (originator_public_key demo_request)
     (ClientResponse \<lparr> crs_version = DataVersion 0 0 0, crs_stream_key = crq_stream_key demo_request,
        crs_sequenced_packet = new_packet [72, 73] 0 False \<rparr>) = Ok [1, 1]"
  by code_simp

text \<open>C8. The round trip through an exit. A request with a wallet for a host that is an address or that the
  resolver finds, on a stream that is not open, is served: the first address that accepts a connection
  gets a reader and a writer, the request goes into the channel of that writer, and the wallet is
  charged. The next request on that stream finds the same channel. What the server answers goes back
  in a package on the return route of the request, sealed for the originator, with the number zero,
  and is charged as well.\<close>

theorem exit_round_trip:
  assumes "paying_wallet msg = Some wal" "pc_pool self = Some pl" "rq = ecp_payload msg"
    and "do_housekeeping pl = (hk, pl0)" "hm_get (stream_writer_channels pl0) (crq_stream_key rq) = None"
    and "target_hostname rq = Some h" "task_addresses parse_ipv6 lookup h = Some addrs"
    and "connect_one connect (target_port rq) OtherError addrs = Ok peer" "alive (cp_next_channel pl)"
    and "sp_data (crq_sequenced_packet rq) \<noteq> []" "\<not> last_data (crq_sequenced_packet rq)"
    and "server_reader_poll [ReadBytes bs] (server_reader_new (crq_stream_key rq) peer) = (NotReady, [ServerData dat], rd)"
    and "encodex (message_codec env) (pc_cryptde self) (originator_public_key rq)
      (ClientResponse \<lparr> crs_version = DataVersion 0 0 0, crs_stream_key = crq_stream_key rq,
         crs_sequenced_packet = new_packet bs 0 False \<rparr>) = Ok sealed"
  shows "\<exists>outs self1 pl1 self2.
    serve_request parse_ipv6 lookup connect alive msg self = Ok (outs, self1)
    \<and> PcQueuePacket (cp_next_channel pl) (crq_sequenced_packet rq) \<in> set outs
    \<and> PcSpawnWriter (cp_next_channel pl) peer \<in> set outs \<and> PcSpawnReader (crq_stream_key rq) peer \<in> set outs
    \<and> charges outs = exit_charge pl (Some wal) (crq_sequenced_packet rq)
    \<and> pc_pool self1 = Some pl1
    \<and> hm_get (stream_writer_channels (snd (do_housekeeping pl1))) (crq_stream_key rq)
        = Some \<lparr> tx_peer_addr = peer, tx_channel = cp_next_channel pl \<rparr>
    \<and> pc_handle_inbound_server_data env dat self1
        = Ok ([PcToHopper \<lparr> icp_route = remaining_route msg, icp_payload = sealed \<rparr>,
               PcReportExit \<lparr> xsp_paying_wallet = wal, xsp_payload_size = length bs,
                 xsp_service_rate = pc_exit_service_rate self, xsp_byte_rate = pc_exit_byte_rate self \<rparr>], self2)"
proof -
  let ?c = "cp_next_channel pl" and ?p = "crq_sequenced_packet rq" and ?k = "crq_stream_key rq"
  let ?t = "make_stream_with_key parse_ipv6 rq (Some wal)"
  let ?ctx = "\<lparr> sc_return_route = remaining_route msg, sc_payload_destination_key = originator_public_key rq, sc_paying_wallet = Some wal \<rparr>"
  note hkf = housekeeping_facts [OF assms(4)]
  define eouts where "eouts = [PcSpawnReader ?k peer, PcSpawnWriter ?c peer, PcQueuePacket ?c ?p] @ map PcReportExit (exit_charge pl (Some wal) ?p)"
  have charge0: "exit_charge pl0 (Some wal) ?p = exit_charge pl (Some wal) ?p"
    using hkf by (simp add: exit_charge_def)
  have task: "run_task lookup connect alive ?t pl0 = Ok (eouts, opened_by rq peer pl0)"
    using run_made_task [OF assms(6,7)] establish_and_write_ok [of connect rq addrs peer alive pl0 "Some wal"] assms(8,9,11) hkf(6) charge0
    by (simp add: eouts_def)
  have handled: "pc_handle_client_request parse_ipv6 alive msg self
      = Ok (hk @ [PcSpawnTask ?t], self\<lparr> stream_contexts := hm_insert ?k ?ctx (stream_contexts self), pc_pool := Some pl0 \<rparr>)"
    using assms(1-5,10) by (simp add: pc_handle_client_request_def process_package_def expect_def Let_def)
  define self1 where "self1 = self\<lparr> stream_contexts := hm_insert ?k ?ctx (stream_contexts self), pc_pool := Some (opened_by rq peer pl0) \<rparr>"
  have served: "serve_request parse_ipv6 lookup connect alive msg self = Ok (hk @ [PcSpawnTask ?t] @ eouts, self1)"
    using handled task hkf(1) by (simp add: serve_request_def run_tasks_def self1_def)
  have channels: "charges (hk @ [PcSpawnTask ?t] @ eouts) = exit_charge pl (Some wal) ?p"
    using hkf(2) by (simp add: eouts_def exit_charge_def)
  have known: "hm_get (stream_writer_channels (snd (do_housekeeping (opened_by rq peer pl0)))) ?k
      = Some \<lparr> tx_peer_addr = peer, tx_channel = ?c \<rparr>"
    using assms(4) hkf(6) by (auto simp: do_housekeeping_def opened_by_def add_new_streams_def Let_def split: prod.split_asm)
  have dat: "isd_stream_key dat = ?k" "isd_sequence_number dat = 0" "\<not> isd_last_data dat" "isd_data dat = bs"
    using assms(12) by (auto simp: send_inbound_server_data_def server_reader_new_def next_sequence_number_def
        new_sequencer_def server_reader_shutdown_def split: if_split_asm)
  have "pc_handle_inbound_server_data env dat self1
      = Ok ([PcToHopper \<lparr> icp_route = remaining_route msg, icp_payload = sealed \<rparr>,
             PcReportExit \<lparr> xsp_paying_wallet = wal, xsp_payload_size = length bs,
               xsp_service_rate = pc_exit_service_rate self, xsp_byte_rate = pc_exit_byte_rate self \<rparr>], self1)"
    using assms(13) dat by (simp add: pc_handle_inbound_server_data_def send_response_to_hopper_def response_version
        incipient_new_def report_response_exit_def self1_def new_packet_def Let_def)
  with served channels known show ?thesis
    by (intro exI [of _ "hk @ [PcSpawnTask ?t] @ eouts"] exI [of _ self1] exI [of _ "opened_by rq peer pl0"])
      (auto simp: eouts_def self1_def)
qed

theorem exit_round_trip_witness:
  "\<exists>outs self1 self2.
    serve_request (\<lambda>_. None) demo_lookup demo_dial (\<lambda>_. True) demo_exit_request demo_exit = Ok (outs, self1)
    \<and> PcQueuePacket 0 (crq_sequenced_packet demo_request) \<in> set outs \<and> PcSpawnWriter 0 demo_server \<in> set outs
    \<and> pc_handle_inbound_server_data demo_env \<lparr> isd_stream_key = crq_stream_key demo_request, isd_last_data = False,
          isd_sequence_number = 0, isd_source = demo_server, isd_data = [72, 73] \<rparr> self1
        = Ok ([PcToHopper \<lparr> icp_route = \<lparr> route_hops = [] \<rparr>, icp_payload = [1, 1] \<rparr>,
               PcReportExit \<lparr> xsp_paying_wallet = wallet_from_address [9], xsp_payload_size = 2,
                 xsp_service_rate = 10, xsp_byte_rate = 2 \<rparr>], self2)"
proof -
  let ?dat = "\<lparr> isd_stream_key = crq_stream_key demo_request, isd_last_data = False,
          isd_sequence_number = 0, isd_source = demo_server, isd_data = [72, 73] \<rparr>"
  have rd: "server_reader_poll [ReadBytes [72, 73]] (server_reader_new (crq_stream_key demo_request) demo_server)
      = (NotReady, [ServerData ?dat], (server_reader_new (crq_stream_key demo_request) demo_server)\<lparr> sv_sequencer := \<lparr> current_sequence_number = 1 \<rparr> \<rparr>)"
    by (simp add: server_reader_new_def send_inbound_server_data_def next_sequence_number_def new_sequencer_def)
  have misc: "cp_next_channel (client_pool_new 10 2) = 0" "remaining_route demo_exit_request = \<lparr> route_hops = [] \<rparr>"
    "pc_exit_service_rate demo_exit = 10" "pc_exit_byte_rate demo_exit = 2"
    by (simp_all add: client_pool_new_def demo_exit_request_def demo_exit_def)
  from exit_round_trip [OF demo_exit_facts(1-6) demo_addresses demo_exit_facts(9) _ demo_exit_facts(7,8) rd demo_response_sealed,
      of "\<lambda>_. True"]
  show ?thesis
    unfolding misc by auto
qed

theorem exit_service_charged_exactly_witness:
  "\<exists>outs self'. serve_request (\<lambda>_. None) demo_lookup demo_dial (\<lambda>_. True) demo_exit_request demo_exit = Ok (outs, self')
    \<and> (\<exists>n. n \<le> 1 \<and> written outs = replicate n (crq_sequenced_packet demo_request)
      \<and> charges outs = concat (replicate n (exit_charge (client_pool_new 10 2) (Some (wallet_from_address [9])) (crq_sequenced_packet demo_request))))"
proof -
  have "\<not> isl (serve_request (\<lambda>_. None) demo_lookup demo_dial (\<lambda>_. True) demo_exit_request demo_exit)"
    by code_simp
  then obtain outs self' where "serve_request (\<lambda>_. None) demo_lookup demo_dial (\<lambda>_. True) demo_exit_request demo_exit = Ok (outs, self')"
    by (cases "serve_request (\<lambda>_. None) demo_lookup demo_dial (\<lambda>_. True) demo_exit_request demo_exit") auto
  with exit_service_charged_exactly [OF this demo_exit_facts(2)] show ?thesis
    unfolding demo_exit_facts(1) demo_exit_facts(3) [symmetric] by simp
qed

section \<open>Requests faster than the connection\<close>

text \<open>The writer to a server polled until it is done or has failed, at most \<open>n\<close> times.\<close>

fun run_server :: "nat \<Rightarrow> stream_writer_sorted \<Rightarrow> (async_result \<times> stream_writer_sorted) run" where
  "run_server 0 w = Ok (NotReady, w)"
| "run_server (Suc n) w =
     bind_run (server_writer_poll w) (\<lambda>(r, w'). if r = NotReady then run_server n w' else Ok (r, w'))"

lemma run_server_eq: "run_server n w = run_sorted n w"
proof (induction n arbitrary: w)
  case (Suc n)
  have "server_writer_poll w = sorted_poll w"
    by (auto simp: server_writer_poll_def sorted_poll_def write_from_buffer_to_stream_def server_write_loop_eq
        bind_run_def split: sum.split read_channel_status.split write_buffer_status.split)
  then show ?case by (simp only: run_server.simps run_sorted.simps Suc.IH)
qed simp

text \<open>Requests one after another, and the channels their packets go to.\<close>

fun process_packages ::
    "(string \<Rightarrow> ip_addr option) \<Rightarrow> (nat \<Rightarrow> bool) \<Rightarrow> client_request_payload list \<Rightarrow> wallet option \<Rightarrow> client_pool
       \<Rightarrow> client_output list \<times> client_pool" where
  "process_packages parse_ipv6 alive [] paying pl = ([], pl)"
| "process_packages parse_ipv6 alive (rq # rqs) paying pl =
     (let (outs, pl1) = process_package parse_ipv6 alive rq paying pl;
          (outs', pl2) = process_packages parse_ipv6 alive rqs paying pl1
      in (outs @ outs', pl2))"

fun queued_packets :: "client_output list \<Rightarrow> (nat \<times> sequenced_packet) list" where
  "queued_packets [] = []"
| "queued_packets (PcQueuePacket c p # outs) = (c, p) # queued_packets outs"
| "queued_packets (_ # outs) = queued_packets outs"

lemma later_requests:
  assumes "do_housekeeping pl = ([], pl0)" "hm_get (stream_writer_channels pl0) k = Some tx"
    and "\<forall>rq \<in> set rqs. crq_stream_key rq = k"
  shows "\<exists>outs pl'. process_packages parse_ipv6 (\<lambda>_. True) rqs paying pl = (outs, pl') \<and>
    queued_packets outs = map (\<lambda>rq. (tx_channel tx, crq_sequenced_packet rq)) rqs"
  using assms
proof (induction rqs arbitrary: pl)
  case (Cons rq rqs)
  have "stream_killer_rx pl0 = []" "stream_adder_rx pl0 = []"
    using Cons.prems(1) by (auto simp: do_housekeeping_def Let_def split: prod.split_asm)
  then have hk0: "do_housekeeping pl0 = ([], pl0)"
    by (cases pl0) (simp add: do_housekeeping_def add_new_streams_def)
  with Cons obtain outs pl' where "process_packages parse_ipv6 (\<lambda>_. True) rqs paying pl0 = (outs, pl')"
    "queued_packets outs = map (\<lambda>rq. (tx_channel tx, crq_sequenced_packet rq)) rqs"
    by fastforce
  with Cons.prems show ?case
    by (simp add: process_package_def Let_def)
qed simp

text \<open>C39. Two requests of one stream that arrive before its connection is made split the stream over two
  connections for good: each starts a task of its own, the first packet goes into the channel of one
  writer and the second into the channel of the other, and so do the packets of all later requests on the
  stream, while the pool keeps it. The second writer, which never gets the packet with number zero,
  therefore writes nothing of what it is given, however often it is polled.\<close>

theorem flurry_splits_stream:
  assumes "do_housekeeping pl = (hk, pl0)" "hm_get (stream_writer_channels pl0) (crq_stream_key rq) = None"
    and "crq_stream_key rq' = crq_stream_key rq"
    and "sp_data (crq_sequenced_packet rq) \<noteq> []" "sp_data (crq_sequenced_packet rq') \<noteq> []"
    and "\<not> last_data (crq_sequenced_packet rq)" "\<not> last_data (crq_sequenced_packet rq')"
    and "target_hostname rq = Some h" "target_hostname rq' = Some h" "task_addresses parse_ipv6 lookup h = Some addrs"
    and "connect_one connect (target_port rq) OtherError addrs = Ok peer"
    and "connect_one connect (target_port rq') OtherError addrs = Ok peer'"
    and "sequence_number (crq_sequenced_packet rq') \<noteq> 0" "accepted sock = []"
  shows "\<exists>t t' outs pl2 outs' pl3 c.
    process_package parse_ipv6 (\<lambda>_. True) rq paying pl = (hk @ [PcSpawnTask t], pl0)
    \<and> process_package parse_ipv6 (\<lambda>_. True) rq' paying pl0 = ([PcSpawnTask t'], pl0)
    \<and> run_task lookup connect (\<lambda>_. True) t pl0 = Ok (outs, pl2) \<and> queued_packets outs = [(c, crq_sequenced_packet rq)]
    \<and> run_task lookup connect (\<lambda>_. True) t' pl2 = Ok (outs', pl3) \<and> queued_packets outs' = [(Suc c, crq_sequenced_packet rq')]
    \<and> (\<forall>rqs. (\<forall>rq'' \<in> set rqs. crq_stream_key rq'' = crq_stream_key rq \<and> sequence_number (crq_sequenced_packet rq'') \<noteq> 0) \<longrightarrow>
        (\<exists>outs'' pl4. process_packages parse_ipv6 (\<lambda>_. True) rqs paying pl3 = (outs'', pl4) \<and>
           queued_packets outs'' = map (\<lambda>rq''. (Suc c, crq_sequenced_packet rq'')) rqs) \<and>
        (\<forall>n rx. packets rx \<subseteq> crq_sequenced_packet ` set (rq' # rqs) \<and> length rx < 2 ^ 64 \<and> ChannelError \<notin> set rx \<longrightarrow>
           (\<exists>r w. run_server n (sorted_new sock rx) = Ok (r, w) \<and> accepted (sws_stream w) = [])))"
proof -
  let ?t = "make_stream_with_key parse_ipv6 rq paying" and ?t' = "make_stream_with_key parse_ipv6 rq' paying"
  let ?pl3 = "opened_by rq' peer' (opened_by rq peer pl0)"
  have pl0: "stream_killer_rx pl0 = []" "stream_adder_rx pl0 = []"
    using assms(1) by (auto simp: do_housekeeping_def Let_def split: prod.split_asm)
  then have hk0: "do_housekeeping pl0 = ([], pl0)"
    by (cases pl0) (simp add: do_housekeeping_def add_new_streams_def)
  have p: "process_package parse_ipv6 (\<lambda>_. True) rq paying pl = (hk @ [PcSpawnTask ?t], pl0)"
    "process_package parse_ipv6 (\<lambda>_. True) rq' paying pl0 = ([PcSpawnTask ?t'], pl0)"
    using assms(1-5) hk0 by (simp_all add: process_package_def Let_def)
  have charge: "queued_packets (map PcReportExit rs) = []" for rs
    by (induction rs) simp_all
  have run: "\<exists>outs. run_task lookup connect (\<lambda>_. True) ?t pl0 = Ok (outs, opened_by rq peer pl0) \<and>
      queued_packets outs = [(cp_next_channel pl0, crq_sequenced_packet rq)]"
    "\<exists>outs'. run_task lookup connect (\<lambda>_. True) ?t' (opened_by rq peer pl0) = Ok (outs', ?pl3) \<and>
      queued_packets outs' = [(Suc (cp_next_channel pl0), crq_sequenced_packet rq')]"
    using run_made_task [OF assms(8,10)] run_made_task [OF assms(9,10)]
      establish_and_write_ok [OF assms(11) _ assms(6), where alive = "\<lambda>_. True", OF TrueI]
      establish_and_write_ok [OF assms(12) _ assms(7), where alive = "\<lambda>_. True", OF TrueI]
    by (simp_all add: charge) (simp add: opened_by_def)
  have hk3: "do_housekeeping ?pl3 = ([], snd (do_housekeeping ?pl3))"
    "hm_get (stream_writer_channels (snd (do_housekeeping ?pl3))) (crq_stream_key rq) =
       Some \<lparr> tx_peer_addr = peer', tx_channel = Suc (cp_next_channel pl0) \<rparr>"
    using pl0 assms(3) by (simp_all add: do_housekeeping_def opened_by_def add_new_streams_def)
  have later: "(\<exists>outs'' pl4. process_packages parse_ipv6 (\<lambda>_. True) rqs paying ?pl3 = (outs'', pl4) \<and>
         queued_packets outs'' = map (\<lambda>rq''. (Suc (cp_next_channel pl0), crq_sequenced_packet rq'')) rqs) \<and>
      (\<forall>n rx. packets rx \<subseteq> crq_sequenced_packet ` set (rq' # rqs) \<and> length rx < 2 ^ 64 \<and> ChannelError \<notin> set rx \<longrightarrow>
         (\<exists>r w. run_server n (sorted_new sock rx) = Ok (r, w) \<and> accepted (sws_stream w) = []))"
    if rqs: "\<forall>rq'' \<in> set rqs. crq_stream_key rq'' = crq_stream_key rq \<and> sequence_number (crq_sequenced_packet rq'') \<noteq> 0" for rqs
  proof (intro conjI allI impI)
    show "\<exists>outs'' pl4. process_packages parse_ipv6 (\<lambda>_. True) rqs paying ?pl3 = (outs'', pl4) \<and>
         queued_packets outs'' = map (\<lambda>rq''. (Suc (cp_next_channel pl0), crq_sequenced_packet rq'')) rqs"
      using later_requests [OF hk3, of rqs parse_ipv6 paying] rqs by simp
  next
    fix n rx
    assume rx: "packets rx \<subseteq> crq_sequenced_packet ` set (rq' # rqs) \<and> length rx < 2 ^ 64 \<and> ChannelError \<notin> set rx"
    have "sequence_number p \<noteq> 0" if "p \<in> crq_sequenced_packet ` set (rq' # rqs)" for p
      using that rqs assms(13) by auto
    with rx have "0 \<notin> sequence_number ` packets rx"
      by fastforce
    with rx show "\<exists>r w. run_server n (sorted_new sock rx) = Ok (r, w) \<and> accepted (sws_stream w) = []"
      unfolding run_server_eq by (intro sorted_without_first [OF assms(14)]) auto
  qed
  show ?thesis
    using p run later by blast
qed

text \<open>The second packet of the stream, and a third one that arrives later.\<close>

definition demo_next :: "u64 \<Rightarrow> client_request_payload" where
  "demo_next n = demo_request\<lparr> crq_sequenced_packet := new_packet [13, 10] n False \<rparr>"

theorem flurry_splits_stream_witness:
  "\<exists>t t' outs pl2 outs' pl3 outs'' pl4 c r w.
    process_package (\<lambda>_. None) (\<lambda>_. True) demo_request None (client_pool_new 10 2) = ([PcSpawnTask t], client_pool_new 10 2)
    \<and> process_package (\<lambda>_. None) (\<lambda>_. True) (demo_next 1) None (client_pool_new 10 2) = ([PcSpawnTask t'], client_pool_new 10 2)
    \<and> run_task demo_lookup demo_dial (\<lambda>_. True) t (client_pool_new 10 2) = Ok (outs, pl2) \<and> queued_packets outs = [(c, crq_sequenced_packet demo_request)]
    \<and> run_task demo_lookup demo_dial (\<lambda>_. True) t' pl2 = Ok (outs', pl3) \<and> queued_packets outs' = [(Suc c, new_packet [13, 10] 1 False)]
    \<and> process_packages (\<lambda>_. None) (\<lambda>_. True) [demo_next 2] None pl3 = (outs'', pl4) \<and> queued_packets outs'' = [(Suc c, new_packet [13, 10] 2 False)]
    \<and> run_server 7 (sorted_new demo_socket [Received (new_packet [13, 10] 1 False), ChannelNotReady, Received (new_packet [13, 10] 2 False)]) = Ok (r, w)
    \<and> accepted (sws_stream w) = []"
proof -
  have rq: "crq_stream_key (demo_next n) = crq_stream_key demo_request" "sp_data (crq_sequenced_packet (demo_next n)) \<noteq> []"
    "\<not> last_data (crq_sequenced_packet (demo_next n))" "target_hostname (demo_next n) = Some ''example.com''"
    "connect_one demo_dial (target_port (demo_next n)) OtherError [V4 9 9 9 9, V4 1 2 3 4] = Ok demo_server"
    "crq_sequenced_packet (demo_next n) = new_packet [13, 10] n False" "sequence_number (crq_sequenced_packet (demo_next n)) = n" for n
    using demo_exit_facts(6,9) by (simp_all add: new_packet_def demo_next_def)
  have sock: "accepted demo_socket = []"
    by (simp add: demo_socket_def)
  let ?rx = "[Received (new_packet [13, 10] 1 False), ChannelNotReady, Received (new_packet [13, 10] 2 False)]"
  have rx: "packets ?rx \<subseteq> crq_sequenced_packet ` set (demo_next 1 # [demo_next 2]) \<and> length ?rx < 2 ^ 64 \<and> ChannelError \<notin> set ?rx"
    by (simp add: rq(6))
  have one: "sequence_number (crq_sequenced_packet (demo_next 1)) \<noteq> 0"
    by (simp add: rq(7))
  have two: "\<forall>rq'' \<in> set [demo_next 2]. crq_stream_key rq'' = crq_stream_key demo_request \<and> sequence_number (crq_sequenced_packet rq'') \<noteq> 0"
    by (simp add: rq(1,7))
  obtain t t' outs pl2 outs' pl3 c where th:
    "process_package (\<lambda>_. None) (\<lambda>_. True) demo_request None (client_pool_new 10 2) = ([] @ [PcSpawnTask t], client_pool_new 10 2)"
    "process_package (\<lambda>_. None) (\<lambda>_. True) (demo_next 1) None (client_pool_new 10 2) = ([PcSpawnTask t'], client_pool_new 10 2)"
    "run_task demo_lookup demo_dial (\<lambda>_. True) t (client_pool_new 10 2) = Ok (outs, pl2)" "queued_packets outs = [(c, crq_sequenced_packet demo_request)]"
    "run_task demo_lookup demo_dial (\<lambda>_. True) t' pl2 = Ok (outs', pl3)" "queued_packets outs' = [(Suc c, crq_sequenced_packet (demo_next 1))]"
    "\<forall>rqs. (\<forall>rq'' \<in> set rqs. crq_stream_key rq'' = crq_stream_key demo_request \<and> sequence_number (crq_sequenced_packet rq'') \<noteq> 0) \<longrightarrow>
        (\<exists>outs'' pl4. process_packages (\<lambda>_. None) (\<lambda>_. True) rqs None pl3 = (outs'', pl4) \<and>
           queued_packets outs'' = map (\<lambda>rq''. (Suc c, crq_sequenced_packet rq'')) rqs) \<and>
        (\<forall>n rx. packets rx \<subseteq> crq_sequenced_packet ` set (demo_next 1 # rqs) \<and> length rx < 2 ^ 64 \<and> ChannelError \<notin> set rx \<longrightarrow>
           (\<exists>r w. run_server n (sorted_new demo_socket rx) = Ok (r, w) \<and> accepted (sws_stream w) = []))"
    using flurry_splits_stream [OF demo_exit_facts(4,5) rq(1) demo_exit_facts(7) rq(2) demo_exit_facts(8) rq(3)
      demo_exit_facts(6) rq(4) demo_addresses demo_exit_facts(9) rq(5) one sock, of None] by blast
  from th(7) two obtain outs'' pl4 where later: "process_packages (\<lambda>_. None) (\<lambda>_. True) [demo_next 2] None pl3 = (outs'', pl4)"
    "queued_packets outs'' = map (\<lambda>rq''. (Suc c, crq_sequenced_packet rq'')) [demo_next 2]"
    by blast
  from th(7) two rx obtain r w where "run_server 7 (sorted_new demo_socket ?rx) = Ok (r, w)" "accepted (sws_stream w) = []"
    by blast
  with th(1-6) later show ?thesis
    unfolding rq(6) list.map append_Nil by blast
qed

end
