(* ===== verification/Spec2Isabelle.thy ===== *)
theory Spec2Isabelle
  imports SequenceBuffer HttpFraming Containers HopperService GossipTransport RouteQuery AccountantLedger ProxyStreams DnsSafety ClandestineLink ExitServices
begin

text \<open>
  Verification of the Node of the Substratum network (\<open>src/node\<close>), a decentralized overlay that
  carries the traffic of a browser through several other nodes to an exit node and pays them for it.

  \<^bold>\<open>The program and its parts.\<close> A node is a set of actors that exchange messages. Bytes enter
  through stream readers, which cut them into frames with a framer, number the frames and hand them
  to the dispatcher; they leave through stream writers. The dispatcher gives clear data of local
  browsers to the proxy server and clandestine data of other nodes to the hopper. The proxy server
  finds out which host the browser wants, asks the neighborhood for a route and gives the request to
  the hopper. The hopper sends sealed packages along routes and opens those that arrive; the exit
  node's proxy client talks to the server, and the response comes back on the second half of the
  route. The neighborhood learns about other nodes from gossip. The accountant keeps what the node
  owes and is owed, and bans delinquent wallets, which the hopper then refuses to serve.

  \<^bold>\<open>Theories and sources\<close> (below \<open>src/node/src\<close>).
  \<^item> Theory \<open>Prelude\<close>: machine integers, results, panics, containers. \<open>TextLib\<close>: Rust's string
    functions. \<open>Utils\<close>: \<open>sub_lib/utils.rs\<close>.
  \<^item> \<open>SequenceBuffer\<close>: \<open>sub_lib/sequence_buffer.rs\<close>, \<open>sequencer.rs\<close>, \<open>limiter.rs\<close>. \<open>StreamWriters\<close>:
    \<open>stream_writer_sorted.rs\<close>, \<open>stream_writer_unsorted.rs\<close>.
  \<^item> \<open>Framing\<close>: the framer interface, \<open>tls_framer.rs\<close>, \<open>json_framer.rs\<close>, \<open>discriminator.rs\<close> and the
    masqueraders. \<open>HttpFraming\<close>: \<open>http_packet_framer.rs\<close> with its start finders.
  \<^item> \<open>Containers\<close>: \<open>bidi_hashmap.rs\<close>, \<open>ttl_hashmap.rs\<close>. \<open>Crypto\<close>: \<open>cryptde.rs\<close> and its two
    implementations. \<open>Wallet\<close>: wallets, payers, key pairs. \<open>NodeTypes\<close>: versions, addresses,
    descriptors.
  \<^item> \<open>NeighborhoodDb\<close>, \<open>Gossip\<close>, \<open>GossipAcceptor\<close>, \<open>GossipHandling\<close>, \<open>GossipProvenance\<close>, \<open>Routing\<close>,
    \<open>NeighborhoodActor\<close>, \<open>NeighborhoodSafety\<close>, \<open>RouteQuery\<close>, \<open>GossipTransport\<close>: the directory
    \<open>neighborhood\<close>, from records to the actor and its interplay with the hopper.
  \<^item> \<open>Route\<close>, \<open>Cores\<close>, \<open>HopperService\<close>: \<open>route.rs\<close>, \<open>hop.rs\<close>, the packages and the directory
    \<open>hopper\<close>. \<open>ExampleCodecs\<close>: a concrete serializer for examples.
  \<^item> \<open>Accountant\<close>, \<open>AccountantLedger\<close>: the directory \<open>accountant\<close> and \<open>banned_dao.rs\<close>.
  \<^item> \<open>ProtocolPack\<close>, \<open>ProxyServerActor\<close>, \<open>ProxyServerSafety\<close>, \<open>ProxyStreams\<close>: the directory
    \<open>proxy_server\<close>, and how it works with the stream writers.
  \<^item> \<open>StreamReader\<close>: \<open>stream_reader.rs\<close> and the discriminator factories. \<open>ClandestineLink\<close>: a clandestine
    connection from the masquerader of one node to the dispatcher of the other. \<open>StreamPool\<close>:
    \<open>listener_handler.rs\<close>, \<open>stream_handler_pool.rs\<close>, \<open>dispatcher.rs\<close>.
  \<^item> \<open>ProxyClientActor\<close>, \<open>ExitServices\<close>: the directory \<open>proxy_client\<close>.
  \<^item> \<open>DnsPacket\<close>, \<open>DnsCodec\<close>, \<open>EntryDns\<close>, \<open>DnsSafety\<close>: the directory \<open>entry_dns\<close>, the DNS server that
    directs all host names to the local machine.

  \<^bold>\<open>How code becomes definitions.\<close> A struct is a record with the same fields, an enum a datatype, an
  actor a record with one function per message handler, which returns the messages it sends and the
  new state. A panic is a value of type \<open>panic\<close> (\<open>'a run\<close>), an error of the program a value of a sum
  type, so that every theorem of the form \<open>f x = Ok y\<close> says that nothing panics. The release profile
  is modelled: unsigned arithmetic wraps. Clocks and the answers of sockets are arguments. Iteration
  over a hash table takes the order of the list that stands for it, and theorems hold for all orders.
  Logging has no effect in the model.

  \<^bold>\<open>Parameters.\<close> Code outside the repository is an argument of the definitions that use it: serde
  serializers (\<open>codec\<close>), sodiumoxide, hash functions, base64 (\<open>libraries\<close>), the crates ethsign
  (\<open>ethsign\<close>), regex and http (\<open>web_env\<close>, \<open>http_regexes\<close>), trust-dns, and the sum of integers beyond 64
  bits in SQLite (\<open>sql_env\<close>). Theorems state what they need of them as hypotheses, and every such
  theorem has an example in which the hypotheses hold.

  \<^bold>\<open>Interfaces.\<close> The locales \<open>framer\<close>, \<open>total_framer\<close>, \<open>http_framer\<close> (framers neither invent nor
  reorder bytes), \<open>progressing_framer\<close> (every frame takes bytes away, so that the loop of the reader
  ends), \<open>section_items\<close> (the items of a section of a DNS message), \<open>max_heap\<close> (the priority queue of the sequence buffer), \<open>cryptde_family\<close> (sealing
  and signing) and \<open>gossip_handler\<close> (what every gossip handler keeps) state what clients rely on, and
  are interpreted on the definitions of the model.

  \<^bold>\<open>What is shown.\<close> Delivery: data is written to sockets in order, once and completely; a request
  reaches its exit node and its response the right browser, and all services of both ways are
  charged and reported; gossip reaches every neighbor; packages sent on a connection between two nodes
  arrive complete and in order however the transport cuts them; the pool of streams keeps every
  message until it is written or given up for a reason; DNS queries are answered. Safety: records of other nodes are always
  signed by them; the database, the tables of the accountant and the stream tables keep their
  invariants; nobody is served without a proof of ownership of a wallet that is not banned. Exactness:
  the recursive route search finds exactly the admissible paths; the accountant's tables refine an
  abstract ledger; framers return exactly the records of a stream. Where the code fails, the exact
  conditions of the failure are proved.

  \<^bold>\<open>Bounds.\<close> No theorem fixes a size, and no definition uses fuel: loops are recursive functions with
  termination proofs (the route search by the number of keys not yet used, \<open>search_measure\<close>; loops
  over buffers by the bytes left; the tasks of tokio by the answers of socket and channel still to
  come). The one loop without a bound of its own, in the stream reader, is a \<open>partial_function\<close> that is
  proved to return. \<open>run_sorted n\<close> and its like poll a task at most \<open>n\<close> times, for every \<open>n\<close>.

  \<^bold>\<open>Not modelled.\<close> The operating-system side (TCP and UDP wrappers, privilege dropping),
  start-up and command line (\<open>bootstrapper.rs\<close>, \<open>node_configurator\<close>, \<open>multi_config.rs\<close>,
  \<open>actor_system_factory.rs\<close>), the database schema, calls of the blockchain service, the user
  interface and its gateway, \<open>dns_utility\<close> and the integration-test tools: they are calls of
  libraries and of the operating system with little logic of the program's own. Logging and DOT graphs
  are diagnostic text.
\<close>

end
